(* ===== verification/Prelude.thy ===== *)
theory Prelude
  imports
    Main
    "HOL-Library.Word"
    "HOL-Library.Char_ord"
    "HOL-Library.List_Lexorder"
    "HOL-Library.Sublist"
begin

section \<open>Shared vocabulary of the development\<close>

text \<open>
  What the component theories share: the way Go code that returns errors, panics and
  changes state is written as a HOL function, signed 64-bit wrap-around, decimal and
  big-endian renderings of integers with their inverses, and list lemmas.

  A Go function \<open>func f(ctx, ...) (a, error)\<close> that reads and writes the stores behind
  \<open>ctx\<close> is a function from the state to an outcome and the new state. A returned
  error keeps the writes made so far (only the transaction boundary discards them), a
  panic unwinds every caller.
\<close>

named_theorems go_simps \<open>evaluation of the control-flow combinators\<close>
named_theorems go_iffs \<open>inversion of a successful run\<close>

type_synonym byte = "8 word"
type_synonym bytes = "8 word list"

subsection \<open>Outcomes and control flow\<close>

datatype ('e, 'a) outcome = Ret 'a | Err 'e | Panic string

type_synonym ('s, 'e, 'a) go = "'s \<Rightarrow> ('e, 'a) outcome \<times> 's"

definition gret :: "'a \<Rightarrow> ('s, 'e, 'a) go" where
  "gret a = (\<lambda>s. (Ret a, s))"

definition gerr :: "'e \<Rightarrow> ('s, 'e, 'a) go" where
  "gerr e = (\<lambda>s. (Err e, s))"

definition gpanic :: "string \<Rightarrow> ('s, 'e, 'a) go" where
  "gpanic m = (\<lambda>s. (Panic m, s))"

definition gget :: "('s \<Rightarrow> 'a) \<Rightarrow> ('s, 'e, 'a) go" where
  "gget f = (\<lambda>s. (Ret (f s), s))"

definition gmod :: "('s \<Rightarrow> 's) \<Rightarrow> ('s, 'e, unit) go" where
  "gmod f = (\<lambda>s. (Ret (), f s))"

definition gbind :: "('s, 'e, 'a) go \<Rightarrow> ('a \<Rightarrow> ('s, 'e, 'b) go) \<Rightarrow> ('s, 'e, 'b) go" where
  "gbind m f = (\<lambda>s. case m s of
     (Ret a, s') \<Rightarrow> f a s'
   | (Err e, s') \<Rightarrow> (Err e, s')
   | (Panic p, s') \<Rightarrow> (Panic p, s'))"

text \<open>\<open>if cond { return err }\<close>\<close>

definition gfail_if :: "bool \<Rightarrow> 'e \<Rightarrow> ('s, 'e, unit) go" where
  "gfail_if c e = (if c then gerr e else gret ())"

text \<open>\<open>x, err := f(...)\<close> where the caller looks at \<open>err\<close> itself\<close>

definition gtry :: "('s, 'e, 'a) go \<Rightarrow> ('s, 'e, 'e + 'a) go" where
  "gtry m = (\<lambda>s. case m s of
     (Ret a, s') \<Rightarrow> (Ret (Inr a), s')
   | (Err e, s') \<Rightarrow> (Ret (Inl e), s')
   | (Panic p, s') \<Rightarrow> (Panic p, s'))"

text \<open>\<open>if err := f(...); err != nil { return wrapped }\<close> with another error\<close>

definition gmap_err :: "('e \<Rightarrow> 'f) \<Rightarrow> ('s, 'e, 'a) go \<Rightarrow> ('s, 'f, 'a) go" where
  "gmap_err h m = (\<lambda>s. case m s of
     (Ret a, s') \<Rightarrow> (Ret a, s')
   | (Err e, s') \<Rightarrow> (Err (h e), s')
   | (Panic p, s') \<Rightarrow> (Panic p, s'))"

text \<open>a computation that may panic and touches no state\<close>

definition gopt_panic :: "string \<Rightarrow> 'a option \<Rightarrow> ('s, 'e, 'a) go" where
  "gopt_panic m x = (case x of None \<Rightarrow> gpanic m | Some a \<Rightarrow> gret a)"

definition gopt_err :: "'e \<Rightarrow> 'a option \<Rightarrow> ('s, 'e, 'a) go" where
  "gopt_err e x = (case x of None \<Rightarrow> gerr e | Some a \<Rightarrow> gret a)"

text \<open>\<open>for _, x := range xs { ... }\<close> whose body may return early with an error\<close>

fun gfor :: "'x list \<Rightarrow> ('x \<Rightarrow> ('s, 'e, unit) go) \<Rightarrow> ('s, 'e, unit) go" where
  "gfor [] f = gret ()"
| "gfor (x # xs) f = gbind (f x) (\<lambda>_. gfor xs f)"

text \<open>
  Running a message inside a transaction: the writes of a message that fails or panics
  are discarded (the cached multistore is only written when the message succeeds).
\<close>

definition run_tx :: "('s, 'e, 'a) go \<Rightarrow> ('s, 'e, 'a) go" where
  "run_tx m = (\<lambda>s. case m s of (Ret a, s') \<Rightarrow> (Ret a, s') | (r, s') \<Rightarrow> (r, s))"

lemma go_eval [go_simps]:
  "gret a s = (Ret a, s)"
  "gerr e s = (Err e, s)"
  "gpanic p s = (Panic p, s)"
  "gget h s = (Ret (h s), s)"
  "gmod u s = (Ret (), u s)"
  by (simp_all add: gret_def gerr_def gpanic_def gget_def gmod_def)

lemma gbind_eval [go_simps]:
  "m s = (Ret a, s') \<Longrightarrow> gbind m f s = f a s'"
  "m s = (Err e, s') \<Longrightarrow> gbind m f s = (Err e, s')"
  "m s = (Panic p, s') \<Longrightarrow> gbind m f s = (Panic p, s')"
  by (simp_all add: gbind_def)

lemma gbind_basic [go_simps]:
  "gbind (gret a) f = f a"
  "gbind (gerr e) f = gerr e"
  "gbind (gpanic p) f = gpanic p"
  "gbind (gget h) f s = f (h s) s"
  "gbind (gmod u) f s = f () (u s)"
  by (simp_all add: gbind_def fun_eq_iff go_simps)

lemma gbind_assoc: "gbind (gbind m f) g = gbind m (\<lambda>a. gbind (f a) g)"
  by (auto simp: gbind_def fun_eq_iff split: prod.splits outcome.splits)

lemma gfail_if_eval [go_simps]:
  "gfail_if True e = gerr e"
  "gfail_if False e = gret ()"
  by (simp_all add: gfail_if_def)

lemma gopt_eval [go_simps]:
  "gopt_panic p None = gpanic p"
  "gopt_panic p (Some a) = gret a"
  "gopt_err e None = gerr e"
  "gopt_err e (Some a) = gret a"
  by (simp_all add: gopt_panic_def gopt_err_def)

lemma gtry_eval [go_simps]:
  "m s = (Ret a, s') \<Longrightarrow> gtry m s = (Ret (Inr a), s')"
  "m s = (Err e, s') \<Longrightarrow> gtry m s = (Ret (Inl e), s')"
  "m s = (Panic p, s') \<Longrightarrow> gtry m s = (Panic p, s')"
  by (simp_all add: gtry_def)

lemma gmap_err_eval [go_simps]:
  "m s = (Ret a, s') \<Longrightarrow> gmap_err h m s = (Ret a, s')"
  "m s = (Err e, s') \<Longrightarrow> gmap_err h m s = (Err (h e), s')"
  "m s = (Panic p, s') \<Longrightarrow> gmap_err h m s = (Panic p, s')"
  by (simp_all add: gmap_err_def)

text \<open>Inversion: what a run that returned says about its parts.\<close>

lemma gbind_Ret [go_iffs]:
  "gbind m f s = (Ret b, t) \<longleftrightarrow> (\<exists>a s'. m s = (Ret a, s') \<and> f a s' = (Ret b, t))"
  by (auto simp: gbind_def split: prod.splits outcome.splits)

lemma basic_Ret [go_iffs]:
  "gret a s = (Ret b, t) \<longleftrightarrow> b = a \<and> t = s"
  "gerr e s = (Ret b, t) \<longleftrightarrow> False"
  "gpanic p s = (Ret b, t) \<longleftrightarrow> False"
  "gget h s = (Ret b, t) \<longleftrightarrow> b = h s \<and> t = s"
  "gmod u s = (Ret v, t) \<longleftrightarrow> t = u s"
  by (auto simp: go_simps)

lemma gfail_if_Ret [go_iffs]: "gfail_if c e s = (Ret u, t) \<longleftrightarrow> \<not> c \<and> t = s"
  by (auto simp: gfail_if_def go_iffs)

lemma gopt_Ret [go_iffs]:
  "gopt_panic p x s = (Ret a, t) \<longleftrightarrow> x = Some a \<and> t = s"
  "gopt_err e x s = (Ret a, t) \<longleftrightarrow> x = Some a \<and> t = s"
  by (auto simp: gopt_panic_def gopt_err_def go_iffs split: option.splits)

lemma gtry_Ret [go_iffs]:
  "gtry m s = (Ret (Inr a), t) \<longleftrightarrow> m s = (Ret a, t)"
  "gtry m s = (Ret (Inl e), t) \<longleftrightarrow> m s = (Err e, t)"
  by (auto simp: gtry_def split: prod.splits outcome.splits)

lemma gmap_err_Ret [go_iffs]: "gmap_err h m s = (Ret a, t) \<longleftrightarrow> m s = (Ret a, t)"
  by (auto simp: gmap_err_def split: prod.splits outcome.splits)

lemma run_tx_Ret [go_iffs]: "run_tx m s = (Ret a, t) \<longleftrightarrow> m s = (Ret a, t)"
  by (auto simp: run_tx_def split: prod.splits outcome.splits)

lemma run_tx_state:
  "snd (run_tx m s) = s \<or> (\<exists>a. m s = (Ret a, snd (run_tx m s)))"
  by (auto simp: run_tx_def split: prod.splits outcome.splits)

lemma run_tx_keeps:
  assumes "P s" and "\<And>a t. m s = (Ret a, t) \<Longrightarrow> P t"
  shows "P (snd (run_tx m s))"
  using run_tx_state [of m s] assms by metis

text \<open>
  A property of the state that every step keeps is kept by a composition, whether it
  returns, fails or panics.
\<close>

definition gkeeps :: "('s \<Rightarrow> bool) \<Rightarrow> ('s, 'e, 'a) go \<Rightarrow> bool" where
  "gkeeps P m \<longleftrightarrow> (\<forall>s. P s \<longrightarrow> P (snd (m s)))"

lemma gkeepsD: "gkeeps P m \<Longrightarrow> P s \<Longrightarrow> P (snd (m s))"
  by (simp add: gkeeps_def)

lemma gkeeps_pure [intro, simp]:
  "gkeeps P (gret a)" "gkeeps P (gerr e)" "gkeeps P (gpanic p)" "gkeeps P (gget h)"
  "gkeeps P (gfail_if c e)" "gkeeps P (gopt_panic p x)" "gkeeps P (gopt_err e x)"
  by (simp_all add: gkeeps_def go_simps gfail_if_def gopt_panic_def gopt_err_def split: option.splits)

lemma gkeeps_mod [intro]: "(\<And>s. P s \<Longrightarrow> P (u s)) \<Longrightarrow> gkeeps P (gmod u)"
  by (simp add: gkeeps_def go_simps)

lemma gkeeps_bind [intro]:
  assumes m: "gkeeps P m" and f: "\<And>a. gkeeps P (f a)"
  shows "gkeeps P (gbind m f)"
  unfolding gkeeps_def
proof (intro allI impI)
  fix s assume "P s"
  with m have "P (snd (m s))" by (rule gkeepsD)
  then show "P (snd (gbind m f s))"
    using f by (cases "m s"; cases "fst (m s)") (auto simp: gbind_def dest: gkeepsD)
qed

lemma gkeeps_wrap [intro]:
  "gkeeps P m \<Longrightarrow> gkeeps P (gtry m)"
  "gkeeps P m \<Longrightarrow> gkeeps P (gmap_err h m)"
  "gkeeps P m \<Longrightarrow> gkeeps P (run_tx m)"
  by (fastforce simp: gkeeps_def gtry_def gmap_err_def run_tx_def split: prod.splits outcome.splits)+

lemma gkeeps_for [intro]: "(\<And>x. gkeeps P (f x)) \<Longrightarrow> gkeeps P (gfor xs f)"
  by (induction xs) auto

subsection \<open>Bytes as characters\<close>

lemma of_char_less_256: "of_char c < (256 :: nat)"
proof -
  have "of_char c mod (256 :: nat) = of_char c" by (rule of_char_mod_256)
  then show ?thesis using mod_less_divisor [of 256 "of_char c :: nat"] by simp
qed

subsection \<open>Signed 64-bit arithmetic\<close>

text \<open>Go's \<open>int64\<close> (and \<open>int\<close> on the supported platforms): the value kept after wrap-around.\<close>

definition i64 :: "int \<Rightarrow> int" where
  "i64 x = signed_take_bit 63 x"

definition in_i64 :: "int \<Rightarrow> bool" where
  "in_i64 x \<longleftrightarrow> - (2 ^ 63) \<le> x \<and> x < 2 ^ 63"

lemma i64_id: "in_i64 x \<Longrightarrow> i64 x = x"
  by (simp add: i64_def in_i64_def signed_take_bit_int_eq_self)

lemma in_i64_i64 [simp]: "in_i64 (i64 x)"
  unfolding i64_def in_i64_def
  using signed_take_bit_int_greater_eq_minus_exp [of 63 x] signed_take_bit_int_less_exp [of 63 x]
  by blast

subsection \<open>Decimal rendering\<close>

text \<open>\<open>fmt.Sprintf("%d", n)\<close>, used in store keys.\<close>

definition digit_char :: "nat \<Rightarrow> char" where
  "digit_char d = char_of (48 + d)"

fun nat_dec :: "nat \<Rightarrow> string" where
  "nat_dec n = (if n < 10 then [digit_char n] else nat_dec (n div 10) @ [digit_char (n mod 10)])"

declare nat_dec.simps [simp del]

definition int_dec :: "int \<Rightarrow> string" where
  "int_dec v = (if v < 0 then CHR ''-'' # nat_dec (nat (- v)) else nat_dec (nat v))"

definition dec_value :: "string \<Rightarrow> nat" where
  "dec_value s = foldl (\<lambda>a c. 10 * a + (of_char c - 48)) 0 s"

lemma of_digit_char: "d < 10 \<Longrightarrow> of_char (digit_char d) = (48 + d :: nat)"
  by (simp add: digit_char_def of_char_of)

lemma dec_value_nat_dec [simp]: "dec_value (nat_dec n) = n"
proof (induction n rule: nat_dec.induct)
  case (1 n)
  show ?case
  proof (cases "n < 10")
    case True
    then show ?thesis by (subst nat_dec.simps) (simp add: dec_value_def of_digit_char)
  next
    case False
    then have "dec_value (nat_dec (n div 10)) = n div 10" using 1 by simp
    then have "dec_value (nat_dec (n div 10) @ [digit_char (n mod 10)]) = n"
      by (simp add: dec_value_def of_digit_char)
    with False show ?thesis by (subst nat_dec.simps) simp
  qed
qed

lemma nat_dec_inj: "nat_dec m = nat_dec n \<longleftrightarrow> m = n"
  by (metis dec_value_nat_dec)

lemma nat_dec_digits: "c \<in> set (nat_dec n) \<Longrightarrow> 48 \<le> (of_char c :: nat) \<and> (of_char c :: nat) < 58"
proof (induction n rule: nat_dec.induct)
  case (1 n)
  then show ?case
    by (subst (asm) (2) nat_dec.simps) (auto simp: of_digit_char split: if_splits)
qed

lemma nat_dec_no_char: "(of_char c :: nat) < 48 \<Longrightarrow> c \<notin> set (nat_dec n)"
  using nat_dec_digits [of c n] by force

lemma minus_notin_nat_dec [simp]: "CHR ''-'' \<notin> set (nat_dec n)"
  by (rule nat_dec_no_char) simp

lemma slash_notin_nat_dec [simp]: "CHR ''/'' \<notin> set (nat_dec n)"
  by (rule nat_dec_no_char) simp

lemma slash_notin_int_dec [simp]: "CHR ''/'' \<notin> set (int_dec v)"
  by (simp add: int_dec_def)

lemma int_dec_inj: "int_dec a = int_dec b \<longleftrightarrow> a = b"
proof
  assume eq: "int_dec a = int_dec b"
  have hd: "CHR ''-'' # xs \<noteq> nat_dec n" for xs n
    using minus_notin_nat_dec [of n] by (metis list.set_intros(1))
  show "a = b"
    using eq hd hd [symmetric]
    by (auto simp: int_dec_def nat_dec_inj split: if_splits)
qed simp

subsection \<open>Splitting a key at its last separator\<close>

lemma append_sep_eq:
  assumes "c \<notin> set b" "c \<notin> set b'"
  shows "a @ c # b = a' @ c # b' \<longleftrightarrow> a = a' \<and> b = b'"
proof
  assume eq: "a @ c # b = a' @ c # b'"
  have tw: "takeWhile (\<lambda>x. x \<noteq> c) (rev b @ c # r) = rev b" if "c \<notin> set b" for b r
    using that by (auto simp: takeWhile_append takeWhile_eq_all_conv)
  have "rev b @ c # rev a = rev b' @ c # rev a'"
    using arg_cong [OF eq, of rev] by simp
  then have "rev b = rev b'" using tw [OF assms(1), of "rev a"] tw [OF assms(2), of "rev a'"] by simp
  then show "a = a' \<and> b = b'" using eq by simp
qed simp

lemma sep_append_eq:
  assumes "c \<notin> set a" "c \<notin> set a'"
  shows "a @ c # b = a' @ c # b' \<longleftrightarrow> a = a' \<and> b = b'"
  using append_sep_eq [of c "rev a" "rev a'" "rev b" "rev b'"] assms
  by (metis (no_types, opaque_lifting) append_sep_eq rev_append rev.simps(2) append_assoc append_Cons append_Nil rev_rev_ident set_rev)

end
