(* ===== verification/KVStore.thy ===== *)
theory KVStore
  imports Prelude
begin

section \<open>The key-value store behind every keeper\<close>

text \<open>
  Every module keeps its state in a \<open>KVStore\<close> (\<open>cosmos-sdk/store/types/store.go\<close>):
  byte-string keys, \<open>Get\<close>, \<open>Has\<close>, \<open>Set\<close>, \<open>Delete\<close> and iterators that walk
  a key range in ascending order. Here a store is the list of its entries in ascending
  key order; a key is a \<open>string\<close> whose characters are the key's bytes, and a value is
  whatever the module stores (the JSON codec is the identity on the values it writes).
  \<open>kv_prefix_iterator\<close> follows \<open>store/types/utils.go\<close>: a range from the prefix to
  \<open>PrefixEndBytes prefix\<close>; it is shown to visit exactly the keys with that prefix.

  The locale \<open>kv_store\<close> is the contract the keepers rely on; it is interpreted on the
  definitions of this theory.
\<close>

named_theorems kv_simps \<open>reading a store after writing it\<close>

type_synonym 'v kv = "(string \<times> 'v) list"

definition kv_empty :: "'v kv" where
  "kv_empty = []"

definition kv_get :: "'v kv \<Rightarrow> string \<Rightarrow> 'v option" where
  "kv_get st k = map_of st k"

definition kv_has :: "'v kv \<Rightarrow> string \<Rightarrow> bool" where
  "kv_has st k = (kv_get st k \<noteq> None)"

fun kv_set :: "string \<Rightarrow> 'v \<Rightarrow> 'v kv \<Rightarrow> 'v kv" where
  "kv_set k v [] = [(k, v)]"
| "kv_set k v (e # st) =
     (if k = fst e then (k, v) # st
      else if k < fst e then (k, v) # e # st
      else e # kv_set k v st)"

definition kv_delete :: "string \<Rightarrow> 'v kv \<Rightarrow> 'v kv" where
  "kv_delete k st = filter (\<lambda>e. fst e \<noteq> k) st"

text \<open>\<open>PrefixEndBytes\<close>: drop trailing 0xFF bytes and increment the last byte left.\<close>

definition byte_succ :: "char \<Rightarrow> char" where
  "byte_succ c = char_of (of_char c + 1 :: nat)"

fun prefix_end_loop :: "string \<Rightarrow> string option" where
  "prefix_end_loop [] = None"
| "prefix_end_loop (c # r) =
     (if c \<noteq> CHR 0xFF then Some (rev (byte_succ c # r)) else prefix_end_loop r)"

definition PrefixEndBytes :: "string \<Rightarrow> string option" where
  "PrefixEndBytes p = prefix_end_loop (rev p)"

definition kv_iterator :: "'v kv \<Rightarrow> string \<Rightarrow> string option \<Rightarrow> 'v kv" where
  "kv_iterator st lo hi =
     filter (\<lambda>e. lo \<le> fst e \<and> (case hi of None \<Rightarrow> True | Some h \<Rightarrow> fst e < h)) st"

definition kv_prefix_iterator :: "'v kv \<Rightarrow> string \<Rightarrow> 'v kv" where
  "kv_prefix_iterator st p = kv_iterator st p (PrefixEndBytes p)"

definition kv_inv :: "'v kv \<Rightarrow> bool" where
  "kv_inv st \<longleftrightarrow> sorted_wrt (<) (map fst st)"

subsection \<open>Reading after writing\<close>

lemma kv_inv_Nil [simp]: "kv_inv []"
  by (simp add: kv_inv_def)

lemma kv_inv_Cons: "kv_inv (e # st) \<longleftrightarrow> (\<forall>x \<in> set st. fst e < fst x) \<and> kv_inv st"
  by (auto simp: kv_inv_def)

lemma kv_inv_distinct: "kv_inv st \<Longrightarrow> distinct (map fst st)"
  by (simp add: kv_inv_def strict_sorted_iff)

lemma set_kv_set: "set (kv_set k v st) \<subseteq> insert (k, v) (set st)"
  by (induction st) auto

lemma kv_get_set [kv_simps]: "kv_get (kv_set k v st) k' = (if k' = k then Some v else kv_get st k')"
  by (induction st) (auto simp: kv_get_def)

lemma kv_get_delete [kv_simps]: "kv_get (kv_delete k st) k' = (if k' = k then None else kv_get st k')"
  by (induction st) (auto simp: kv_get_def kv_delete_def)

lemma kv_get_empty [kv_simps]: "kv_get kv_empty k = None" "kv_get [] k = None"
  by (simp_all add: kv_get_def kv_empty_def)

lemma kv_inv_set [simp]: "kv_inv st \<Longrightarrow> kv_inv (kv_set k v st)"
proof (induction st)
  case (Cons e st)
  show ?case
  proof (cases "k = fst e \<or> k < fst e")
    case True
    with Cons.prems show ?thesis by (auto simp: kv_inv_Cons)
  next
    case False
    then have "fst e < k" by auto
    with Cons False show ?thesis
      using set_kv_set [of k v st] by (auto simp: kv_inv_Cons)
  qed
qed (simp add: kv_inv_def)

lemma kv_inv_delete [simp]: "kv_inv st \<Longrightarrow> kv_inv (kv_delete k st)"
  by (simp add: kv_inv_def kv_delete_def sorted_wrt_map sorted_wrt_filter)

lemma kv_inv_empty [simp]: "kv_inv kv_empty"
  by (simp add: kv_empty_def)

lemma kv_get_mem: "kv_inv st \<Longrightarrow> kv_get st k = Some v \<longleftrightarrow> (k, v) \<in> set st"
  by (simp add: kv_get_def kv_inv_distinct)

lemma set_kv_set_iff:
  assumes "kv_inv st"
  shows "(k', v') \<in> set (kv_set k v st) \<longleftrightarrow> (if k' = k then v' = v else (k', v') \<in> set st)"
  using assms by (auto simp: kv_simps simp flip: kv_get_mem)

lemma set_kv_delete_iff: "(k', v') \<in> set (kv_delete k st) \<longleftrightarrow> k' \<noteq> k \<and> (k', v') \<in> set st"
  by (auto simp: kv_delete_def)

lemma fold_kv_delete: "fold kv_delete ks st = filter (\<lambda>e. fst e \<notin> set ks) st"
  by (induction ks arbitrary: st) (auto simp: kv_delete_def intro!: filter_cong)

lemma kv_inv_filter [simp]: "kv_inv st \<Longrightarrow> kv_inv (filter P st)"
  by (simp add: kv_inv_def sorted_wrt_map sorted_wrt_filter)

subsection \<open>Prefix iteration\<close>

lemma byte_succ_less:
  assumes "c \<noteq> CHR 0xFF"
  shows "d < byte_succ c \<longleftrightarrow> d \<le> c"
proof -
  have "of_char c < (256 :: nat)" by (rule of_char_less_256)
  moreover have "of_char c \<noteq> (255 :: nat)"
  proof
    assume "of_char c = (255 :: nat)"
    then have "of_char c = (of_char (CHR 0xFF) :: nat)" by simp
    with assms show False by (simp only: of_char_eq_iff)
  qed
  ultimately have "of_char c + 1 < (256 :: nat)" by linarith
  then have "of_char (byte_succ c) = (of_char c + 1 :: nat)"
    by (simp add: byte_succ_def of_char_of)
  then show ?thesis by (simp add: less_char_def less_eq_char_def less_Suc_eq_le)
qed

lemma char_le_FF: "c \<le> CHR 0xFF"
proof -
  have "of_char c < (256 :: nat)" by (rule of_char_less_256)
  then have "of_char c \<le> (255 :: nat)" by linarith
  then show ?thesis unfolding less_eq_char_def by (simp only: of_char_Char) simp
qed

lemma prefix_end_loop_snoc:
  "prefix_end_loop (r @ [c]) =
    (case prefix_end_loop r of
       Some e \<Rightarrow> Some (c # e)
     | None \<Rightarrow> if c = CHR 0xFF then None else Some [byte_succ c])"
  by (induction r) auto

lemma PrefixEndBytes_Cons:
  "PrefixEndBytes (c # p) =
    (case PrefixEndBytes p of
       Some e \<Rightarrow> Some (c # e)
     | None \<Rightarrow> if c = CHR 0xFF then None else Some [byte_succ c])"
  by (simp add: PrefixEndBytes_def prefix_end_loop_snoc)

lemma prefix_range:
  "prefix p k \<longleftrightarrow> p \<le> k \<and> (case PrefixEndBytes p of None \<Rightarrow> True | Some h \<Rightarrow> k < h)"
proof (induction p arbitrary: k)
  case Nil
  then show ?case by (simp add: PrefixEndBytes_def)
next
  case (Cons c p)
  show ?case
  proof (cases k)
    case Nil
    then show ?thesis by simp
  next
    case (Cons d ks)
    have "\<not> CHR 0xFF < d" using char_le_FF [of d] by simp
    with Cons show ?thesis
      by (auto simp: PrefixEndBytes_Cons Cons.IH byte_succ_less split: option.splits)
  qed
qed

lemma kv_prefix_iterator_filter:
  "kv_prefix_iterator st p = filter (\<lambda>e. prefix p (fst e)) st"
  by (simp add: kv_prefix_iterator_def kv_iterator_def prefix_range)

lemma kv_prefix_iterator_mem:
  "kv_inv st \<Longrightarrow> (k, v) \<in> set (kv_prefix_iterator st p) \<longleftrightarrow> kv_get st k = Some v \<and> prefix p k"
  by (auto simp: kv_prefix_iterator_filter kv_get_mem)

subsection \<open>Sums over a store\<close>

text \<open>
  The counters the keepers maintain (total locked, total supply) are sums over the
  entries of a store; writing one key changes the sum by the difference at that key.
\<close>

definition kv_sum :: "(string \<Rightarrow> 'v \<Rightarrow> int) \<Rightarrow> 'v kv \<Rightarrow> int" where
  "kv_sum f st = sum_list (map (\<lambda>e. f (fst e) (snd e)) st)"

definition kv_at :: "(string \<Rightarrow> 'v \<Rightarrow> int) \<Rightarrow> 'v kv \<Rightarrow> string \<Rightarrow> int" where
  "kv_at f st k = (case kv_get st k of None \<Rightarrow> 0 | Some v \<Rightarrow> f k v)"

lemma kv_sum_Nil [simp]: "kv_sum f [] = 0" "kv_sum f kv_empty = 0"
  by (simp_all add: kv_sum_def kv_empty_def)

lemma kv_sum_Cons: "kv_sum f (e # st) = f (fst e) (snd e) + kv_sum f st"
  by (simp add: kv_sum_def)

lemma kv_get_less: "kv_inv (e # st) \<Longrightarrow> k \<le> fst e \<Longrightarrow> kv_get st k = None"
  unfolding kv_get_def kv_inv_Cons
  by (rule ccontr) (auto dest!: map_of_SomeD)

lemma kv_sum_set: "kv_inv st \<Longrightarrow> kv_sum f (kv_set k v st) = kv_sum f st - kv_at f st k + f k v"
proof (induction st)
  case Nil
  then show ?case by (simp add: kv_at_def kv_sum_def kv_simps)
next
  case (Cons e st)
  have st: "kv_inv st" using Cons.prems by (simp add: kv_inv_Cons)
  consider "k = fst e" | "k < fst e" | "fst e < k" by fastforce
  then show ?case
  proof cases
    case 1
    then show ?thesis by (cases e) (simp add: kv_sum_Cons kv_at_def kv_get_def)
  next
    case 2
    then have "kv_get (e # st) k = None"
      using kv_get_less [OF Cons.prems, of k] by (cases e) (auto simp: kv_get_def)
    with 2 show ?thesis by (auto simp: kv_sum_Cons kv_at_def)
  next
    case 3
    then have "kv_at f (e # st) k = kv_at f st k" by (cases e) (auto simp: kv_at_def kv_get_def)
    with 3 Cons.IH [OF st] show ?thesis by (auto simp: kv_sum_Cons)
  qed
qed

lemma kv_sum_delete: "kv_inv st \<Longrightarrow> kv_sum f (kv_delete k st) = kv_sum f st - kv_at f st k"
proof (induction st)
  case Nil
  then show ?case by (simp add: kv_at_def kv_delete_def kv_simps)
next
  case (Cons e st)
  have st: "kv_inv st" using Cons.prems by (simp add: kv_inv_Cons)
  show ?case
  proof (cases "k = fst e")
    case True
    have "kv_get st k = None" using kv_get_less [OF Cons.prems] True by simp
    then have "kv_sum f (kv_delete k st) = kv_sum f st"
      using Cons.IH [OF st] by (simp add: kv_at_def)
    with True show ?thesis
      by (cases e) (simp add: kv_sum_Cons kv_delete_def kv_at_def kv_get_def)
  next
    case False
    then have "kv_at f (e # st) k = kv_at f st k" by (cases e) (auto simp: kv_at_def kv_get_def)
    with False Cons.IH [OF st] show ?thesis by (simp add: kv_sum_Cons kv_delete_def)
  qed
qed

lemma kv_sum_nonneg: "(\<And>k v. (k, v) \<in> set st \<Longrightarrow> 0 \<le> f k v) \<Longrightarrow> 0 \<le> kv_sum f st"
  unfolding kv_sum_def by (rule sum_list_nonneg) auto

lemma kv_at_le_sum:
  assumes "kv_inv st" and nn: "\<And>k v. (k, v) \<in> set st \<Longrightarrow> 0 \<le> f k v"
  shows "kv_at f st k \<le> kv_sum f st"
proof -
  have "0 \<le> kv_sum f (kv_delete k st)"
    by (rule kv_sum_nonneg) (auto simp: set_kv_delete_iff nn)
  then show ?thesis using kv_sum_delete [OF assms(1), of f k] by simp
qed

subsection \<open>The contract of a store\<close>

locale kv_store =
  fixes inv :: "'st \<Rightarrow> bool"
    and get :: "'st \<Rightarrow> string \<Rightarrow> 'v option"
    and put :: "string \<Rightarrow> 'v \<Rightarrow> 'st \<Rightarrow> 'st"
    and delete :: "string \<Rightarrow> 'st \<Rightarrow> 'st"
    and iter :: "'st \<Rightarrow> string \<Rightarrow> (string \<times> 'v) list"
  assumes inv_set: "inv st \<Longrightarrow> inv (put k v st)"
    and inv_delete: "inv st \<Longrightarrow> inv (delete k st)"
    and get_set: "get (put k v st) k' = (if k' = k then Some v else get st k')"
    and get_delete: "get (delete k st) k' = (if k' = k then None else get st k')"
    and iter_mem: "inv st \<Longrightarrow> (k, v) \<in> set (iter st p) \<longleftrightarrow> get st k = Some v \<and> prefix p k"
    and iter_sorted: "inv st \<Longrightarrow> sorted_wrt (<) (map fst (iter st p))"
begin

text \<open>Deleting every key of a list, as pruning loops do.\<close>

definition delete_all :: "string list \<Rightarrow> 'st \<Rightarrow> 'st" where
  "delete_all ks st = fold delete ks st"

lemma delete_all_inv: "inv st \<Longrightarrow> inv (delete_all ks st)"
  unfolding delete_all_def by (induction ks arbitrary: st) (simp_all add: inv_delete)

lemma delete_all_get: "get (delete_all ks st) k = (if k \<in> set ks then None else get st k)"
  unfolding delete_all_def by (induction ks arbitrary: st) (auto simp: get_delete)

lemma iter_after_set:
  assumes "inv st" and "prefix p k"
  shows "(k, v) \<in> set (iter (put k v st) p)"
  using assms by (simp add: iter_mem inv_set get_set)

lemma iter_distinct: "inv st \<Longrightarrow> distinct (map fst (iter st p))"
  using iter_sorted strict_sorted_iff by blast

end

interpretation kvs: kv_store kv_inv kv_get kv_set kv_delete kv_prefix_iterator
proof unfold_locales
  fix st :: "'a kv" and k p :: string and v :: 'a
  assume "kv_inv st"
  then show "(k, v) \<in> set (kv_prefix_iterator st p) \<longleftrightarrow> kv_get st k = Some v \<and> prefix p k"
    by (rule kv_prefix_iterator_mem)
next
  fix st :: "'a kv" and p :: string
  assume "kv_inv st"
  then show "sorted_wrt (<) (map fst (kv_prefix_iterator st p))"
    by (simp add: kv_inv_def kv_prefix_iterator_filter sorted_wrt_map sorted_wrt_filter)
qed (simp_all add: kv_simps)

end
