(* ===== verification/Externals.thy ===== *)
theory Externals
  imports KVStore
begin

section \<open>Code outside the repository\<close>

text \<open>
  The repository calls libraries whose sources it does not hold: \<open>cosmossdk.io/math\<close>
  (\<open>Int\<close>, \<open>Dec\<close>), the bech32 codec, CometBFT's address hash, SHA3-256 and the
  output stream of SHAKE-256 (byte by byte), CIRCL's Dilithium5, the
  TFHE engine. Each is a field of the record \<open>env\<close>, an argument of the definitions that
  call it. What the code relies on is stated by the predicates \<open>int_laws\<close>,
  \<open>dec_laws\<close> and \<open>bech32_laws\<close>, which properties name as hypotheses;
  \<open>env0\<close> is a concrete instance that satisfies them and is used by the witnesses.

  A \<open>Dec\<close> is represented by the integer it wraps, the number of units of \<open>10 ^ -18\<close>.
  An operation that panics on overflow returns \<open>None\<close>.
\<close>

type_synonym addr = string
type_synonym denom = string

record env =
  int_add :: "int \<Rightarrow> int \<Rightarrow> int option"
  int_sub :: "int \<Rightarrow> int \<Rightarrow> int option"
  dec_add :: "int \<Rightarrow> int \<Rightarrow> int option"
  dec_sub :: "int \<Rightarrow> int \<Rightarrow> int option"
  dec_mul :: "int \<Rightarrow> int \<Rightarrow> int option"
  dec_quo :: "int \<Rightarrow> int \<Rightarrow> int option"
  dec_mul_int :: "int \<Rightarrow> int \<Rightarrow> int option"
  dec_of_int :: "int \<Rightarrow> int"
  dec_trunc :: "int \<Rightarrow> int option"
  bech32_encode :: "string \<Rightarrow> addr \<Rightarrow> string"
  bech32_decode :: "string \<Rightarrow> (string \<times> addr) option"
  address_hash :: "string \<Rightarrow> addr"
  ica_ModuleName :: string
  transfer_ModuleName :: string
  sha3_256 :: "string \<Rightarrow> string"
  shake256 :: "string \<Rightarrow> nat \<Rightarrow> char"
  mode5_PublicKeySize :: nat
  mode5_PrivateKeySize :: nat
  mode5_SignatureSize :: nat
  mode5_Sign :: "string \<Rightarrow> string \<Rightarrow> string"
  mode5_Verify :: "string \<Rightarrow> string \<Rightarrow> string \<Rightarrow> bool"
  ffi_encrypt_u32_pk :: "string \<Rightarrow> 32 word \<Rightarrow> string option"
  ffi_encrypt_u32 :: "string \<Rightarrow> 32 word \<Rightarrow> string option"
  ffi_add_u32 :: "string \<Rightarrow> string \<Rightarrow> string \<Rightarrow> string option"
  ffi_sub_u32 :: "string \<Rightarrow> string \<Rightarrow> string \<Rightarrow> string option"

subsection \<open>What the code relies on\<close>

text \<open>
  \<open>math.Int\<close> is documented as a \<open>big.Int\<close> with a 256-bit range bound: the result is
  exact, and an operation whose result leaves the range panics.
\<close>

definition int_fits :: "int \<Rightarrow> bool" where
  "int_fits x \<longleftrightarrow> \<bar>x\<bar> < 2 ^ 256"

definition int_laws :: "env \<Rightarrow> bool" where
  "int_laws E \<longleftrightarrow>
     (\<forall>a b. int_add E a b = (if int_fits (a + b) then Some (a + b) else None)) \<and>
     (\<forall>a b. int_sub E a b = (if int_fits (a - b) then Some (a - b) else None))"

text \<open>
  \<open>math.Dec\<close> is a fixed-point decimal with 18 fractional digits: addition is exact,
  \<open>Mul\<close> rounds to a nearest representable value, \<open>Quo\<close> divides to 18 further digits,
  drops the rest and then rounds to a nearest value, so that it may miss the exact
  quotient by \<open>10 ^ - 18\<close> more than half a unit, \<open>NewDec\<close> is exact and
  \<open>TruncateInt\<close> drops the fraction. Results that do not fit panic, division by zero
  panics.
\<close>

definition dec_one :: int where
  "dec_one = 10 ^ 18"

definition dec_laws :: "env \<Rightarrow> bool" where
  "dec_laws E \<longleftrightarrow>
     (\<forall>a b c. dec_add E a b = Some c \<longrightarrow> c = a + b) \<and>
     (\<forall>a b c. dec_sub E a b = Some c \<longrightarrow> c = a - b) \<and>
     (\<forall>a b c. dec_mul_int E a b = Some c \<longrightarrow> c = a * b) \<and>
     (\<forall>a b c. dec_mul E a b = Some c \<longrightarrow> 2 * \<bar>c * dec_one - a * b\<bar> \<le> dec_one) \<and>
     (\<forall>a b c. dec_quo E a b = Some c \<longrightarrow> b \<noteq> 0 \<and> 2 * dec_one * \<bar>c * b - a * dec_one\<bar> \<le> (dec_one + 2) * \<bar>b\<bar> \<and>
        2 * \<bar>c * b\<bar> \<le> 2 * \<bar>a * dec_one\<bar> + \<bar>b\<bar>) \<and>
     (\<forall>a. dec_of_int E a = a * dec_one) \<and>
     (\<forall>a c. dec_trunc E a = Some c \<longrightarrow> 0 \<le> a \<longrightarrow> c = a div dec_one)"

text \<open>
  Bech32 strings decode to what was encoded, and the encoding uses the charset of the
  format (letters and digits after the human-readable part).
\<close>

definition AccountAddressPrefix :: string where
  "AccountAddressPrefix = ''zyth''"

definition bech32_laws :: "env \<Rightarrow> bool" where
  "bech32_laws E \<longleftrightarrow>
     (\<forall>a. a \<noteq> [] \<longrightarrow> length a \<le> 255 \<longrightarrow>
        bech32_decode E (bech32_encode E AccountAddressPrefix a) = Some (AccountAddressPrefix, a)) \<and>
     (\<forall>a. a \<noteq> [] \<longrightarrow> bech32_encode E AccountAddressPrefix a \<noteq> [] \<and>
        (\<forall>c \<in> set (bech32_encode E AccountAddressPrefix a). CHR ''0'' \<le> c \<and> c \<le> CHR ''z''))"

text \<open>
  TFHE. Every ciphertext belongs to a client key: \<open>tk_plain ck c = Some n\<close> says that \<open>c\<close>
  is a valid encryption of \<open>n\<close> under \<open>ck\<close>, \<open>tk_of_public\<close> and \<open>tk_of_server\<close> give the
  client key from which a public and a server key were derived. Encryption gives a valid
  ciphertext under the key's own client key. Addition and subtraction act on the
  plaintexts modulo \<open>2 ^ 32\<close> when both operands are valid under the client key of the
  server key that evaluates them (\<open>engine.go\<close>, \<open>AddUint32\<close>: both ciphertexts under the
  same key configuration); of operands under other keys nothing is known but that a
  result, if there is one, is not empty.
\<close>

record tfhe_keys =
  tk_of_public :: "string \<Rightarrow> string"
  tk_of_server :: "string \<Rightarrow> string"
  tk_plain :: "string \<Rightarrow> string \<Rightarrow> 32 word option"

definition evaluates :: "tfhe_keys \<Rightarrow> (string \<Rightarrow> string \<Rightarrow> string \<Rightarrow> string option) \<Rightarrow> (32 word \<Rightarrow> 32 word \<Rightarrow> 32 word) \<Rightarrow> bool" where
  "evaluates T ffi f \<longleftrightarrow> (\<forall>sk a b c. ffi sk a b = Some c \<longrightarrow> c \<noteq> [] \<and>
     (\<forall>x y. tk_plain T (tk_of_server T sk) a = Some x \<longrightarrow> tk_plain T (tk_of_server T sk) b = Some y \<longrightarrow>
        tk_plain T (tk_of_server T sk) c = Some (f x y)))"

definition tfhe_laws :: "env \<Rightarrow> tfhe_keys \<Rightarrow> bool" where
  "tfhe_laws E T \<longleftrightarrow>
     (\<forall>pk n c. ffi_encrypt_u32_pk E pk n = Some c \<longrightarrow> c \<noteq> [] \<and> tk_plain T (tk_of_public T pk) c = Some n) \<and>
     (\<forall>ck n c. ffi_encrypt_u32 E ck n = Some c \<longrightarrow> c \<noteq> [] \<and> tk_plain T ck c = Some n) \<and>
     evaluates T (ffi_add_u32 E) (+) \<and> evaluates T (ffi_sub_u32 E) (-)"

text \<open>CometBFT's address hash is a SHA-256 digest truncated to 20 bytes.\<close>

definition addr_laws :: "env \<Rightarrow> bool" where
  "addr_laws E \<longleftrightarrow> (\<forall>n. length (address_hash E n) = 20)"

subsection \<open>A concrete instance\<close>

definition bit_char :: "bool \<Rightarrow> char" where
  "bit_char b = (if b then CHR ''q'' else CHR ''p'')"

definition char_bit :: "char \<Rightarrow> bool" where
  "char_bit c = (c = CHR ''q'')"

fun bits_enc :: "string \<Rightarrow> string" where
  "bits_enc [] = []"
| "bits_enc (Char b0 b1 b2 b3 b4 b5 b6 b7 # cs) =
     map bit_char [b0, b1, b2, b3, b4, b5, b6, b7] @ bits_enc cs"

fun bits_dec :: "string \<Rightarrow> string option" where
  "bits_dec [] = Some []"
| "bits_dec (c0 # c1 # c2 # c3 # c4 # c5 # c6 # c7 # cs) =
     map_option (\<lambda>r. Char (char_bit c0) (char_bit c1) (char_bit c2) (char_bit c3)
       (char_bit c4) (char_bit c5) (char_bit c6) (char_bit c7) # r) (bits_dec cs)"
| "bits_dec _ = None"

definition bech0_encode :: "string \<Rightarrow> addr \<Rightarrow> string" where
  "bech0_encode p a = p @ CHR ''1'' # bits_enc a"

definition bech0_decode :: "string \<Rightarrow> (string \<times> addr) option" where
  "bech0_decode s = (case dropWhile (\<lambda>c. c \<noteq> CHR ''1'') (rev s) of
       [] \<Rightarrow> None
     | _ # h \<Rightarrow> map_option (\<lambda>a. (rev h, a)) (bits_dec (rev (takeWhile (\<lambda>c. c \<noteq> CHR ''1'') (rev s)))))"

definition bound_int :: "int \<Rightarrow> int option" where
  "bound_int x = (if int_fits x then Some x else None)"

definition round_div :: "int \<Rightarrow> int \<Rightarrow> int" where
  "round_div a b = (2 * a * sgn b + \<bar>b\<bar>) div (2 * \<bar>b\<bar>)"

text \<open>
  Ciphertexts of the concrete instance: the first character of the key, then the 32 bits
  as characters. Keys with the same first character belong together; an operation on
  ciphertexts of another key gives a string that is no ciphertext.
\<close>

definition ct0_enc :: "string \<Rightarrow> 32 word \<Rightarrow> string" where
  "ct0_enc key w = take 1 key @ map (\<lambda>i. bit_char (bit w i)) [0..<32]"

definition ct0_dec :: "string \<Rightarrow> 32 word" where
  "ct0_dec s = horner_sum of_bool 2 (map char_bit (tl s))"

definition ct0_of :: "string \<Rightarrow> string \<Rightarrow> bool" where
  "ct0_of key c \<longleftrightarrow> key \<noteq> [] \<and> length c = 33 \<and> hd c = hd key"

definition enc0 :: "string \<Rightarrow> 32 word \<Rightarrow> string option" where
  "enc0 key n = (if key = [] then None else Some (ct0_enc key n))"

definition eval0 :: "(32 word \<Rightarrow> 32 word \<Rightarrow> 32 word) \<Rightarrow> string \<Rightarrow> string \<Rightarrow> string \<Rightarrow> string option" where
  "eval0 f sk a b = Some (if ct0_of sk a \<and> ct0_of sk b then ct0_enc sk (f (ct0_dec a) (ct0_dec b)) else ''?'')"

definition keys0 :: tfhe_keys where
  "keys0 = \<lparr>tk_of_public = take 1, tk_of_server = take 1,
     tk_plain = (\<lambda>ck c. if ct0_of ck c then Some (ct0_dec c) else None)\<rparr>"

definition env0 :: env where
  "env0 = \<lparr>
     int_add = (\<lambda>a b. bound_int (a + b)),
     int_sub = (\<lambda>a b. bound_int (a - b)),
     dec_add = (\<lambda>a b. Some (a + b)),
     dec_sub = (\<lambda>a b. Some (a - b)),
     dec_mul = (\<lambda>a b. Some (round_div (a * b) dec_one)),
     dec_quo = (\<lambda>a b. if b = 0 then None else Some (round_div (a * dec_one) b)),
     dec_mul_int = (\<lambda>a b. Some (a * b)),
     dec_of_int = (\<lambda>a. a * dec_one),
     dec_trunc = (\<lambda>a. Some (if 0 \<le> a then a div dec_one else - ((- a) div dec_one))),
     bech32_encode = bech0_encode,
     bech32_decode = bech0_decode,
     address_hash = (\<lambda>n. take 20 (n @ replicate 20 CHR ''#'')),
     ica_ModuleName = ''interchainaccounts'',
     transfer_ModuleName = ''transfer'',
     sha3_256 = (\<lambda>m. take 32 (m @ replicate 32 CHR 0x00)),
     shake256 = (\<lambda>m n. CHR 0x01),
     mode5_PublicKeySize = 4,
     mode5_PrivateKeySize = 4,
     mode5_SignatureSize = 4,
     mode5_Sign = (\<lambda>sk m. sk),
     mode5_Verify = (\<lambda>pk m sig. sig = pk),
     ffi_encrypt_u32_pk = enc0,
     ffi_encrypt_u32 = enc0,
     ffi_add_u32 = eval0 (+),
     ffi_sub_u32 = eval0 (-) \<rparr>"

lemma round_div_near:
  assumes "b \<noteq> 0"
  shows "2 * \<bar>round_div a b * b - a\<bar> \<le> \<bar>b\<bar>"
proof -
  define q where "q = round_div a b"
  define m where "m = (2 * a * sgn b + \<bar>b\<bar>) mod (2 * \<bar>b\<bar>)"
  have pos: "0 < 2 * \<bar>b\<bar>" using assms by simp
  have m0: "0 \<le> m" using pos by (simp add: m_def)
  have lin: "2 * \<bar>X - Y\<bar> \<le> B" if "X * 2 + m = 2 * Y + B" "m < 2 * B" for X Y B :: int
    using that m0 by (cases "Y \<le> X") simp_all
  have "q * (2 * \<bar>b\<bar>) + m = 2 * a * sgn b + \<bar>b\<bar>"
    unfolding q_def m_def round_div_def by (rule div_mult_mod_eq)
  then have "(q * \<bar>b\<bar>) * 2 + m = 2 * (a * sgn b) + \<bar>b\<bar>" by (simp add: algebra_simps)
  moreover have "m < 2 * \<bar>b\<bar>" using pos by (simp add: m_def)
  ultimately have "2 * \<bar>q * \<bar>b\<bar> - a * sgn b\<bar> \<le> \<bar>b\<bar>" by (rule lin)
  moreover have "\<bar>q * \<bar>b\<bar> - a * sgn b\<bar> = \<bar>q * b - a\<bar>"
    using assms by (cases "0 < b") (simp_all add: abs_minus_commute algebra_simps)
  ultimately show ?thesis by (simp add: q_def)
qed

lemma env0_int_laws: "int_laws env0"
  by (simp add: int_laws_def env0_def bound_int_def)

lemma round_div_quo:
  assumes "b \<noteq> 0"
  shows "2 * dec_one * \<bar>round_div a b * b - a\<bar> \<le> (dec_one + 2) * \<bar>b\<bar>" and "2 * \<bar>round_div a b * b\<bar> \<le> 2 * \<bar>a\<bar> + \<bar>b\<bar>"
proof -
  have near: "2 * \<bar>round_div a b * b - a\<bar> \<le> \<bar>b\<bar>" by (rule round_div_near [OF assms])
  then have "dec_one * (2 * \<bar>round_div a b * b - a\<bar>) \<le> dec_one * \<bar>b\<bar>" by (rule mult_left_mono) (simp add: dec_one_def)
  then show "2 * dec_one * \<bar>round_div a b * b - a\<bar> \<le> (dec_one + 2) * \<bar>b\<bar>" by (simp add: algebra_simps)
  have "\<bar>round_div a b * b\<bar> \<le> \<bar>round_div a b * b - a\<bar> + \<bar>a\<bar>" using abs_triangle_ineq [of "round_div a b * b - a" a] by simp
  with near show "2 * \<bar>round_div a b * b\<bar> \<le> 2 * \<bar>a\<bar> + \<bar>b\<bar>" by simp
qed

lemma env0_dec_laws: "dec_laws env0"
  using round_div_near [of dec_one] round_div_quo
  by (auto simp: dec_laws_def env0_def dec_one_def split: if_splits)

lemma char_bit_char [simp]: "char_bit (bit_char b) = b"
  by (simp add: bit_char_def char_bit_def)

lemma bits_dec_enc: "bits_dec (bits_enc a) = Some a"
  by (induction a rule: bits_enc.induct) simp_all

lemma bits_enc_range: "c \<in> set (bits_enc a) \<Longrightarrow> c = CHR ''p'' \<or> c = CHR ''q''"
  by (induction a rule: bits_enc.induct) (auto simp: bit_char_def split: if_splits)

lemma bech0_roundtrip: "bech0_decode (bech0_encode p a) = Some (p, a)"
proof -
  have no: "c \<noteq> CHR ''1''" if "c \<in> set (bits_enc a)" for c using bits_enc_range [OF that] by auto
  then have "dropWhile (\<lambda>c. c \<noteq> CHR ''1'') (rev (bits_enc a) @ CHR ''1'' # rev p) = CHR ''1'' # rev p"
    and "takeWhile (\<lambda>c. c \<noteq> CHR ''1'') (rev (bits_enc a) @ CHR ''1'' # rev p) = rev (bits_enc a)"
    by (simp_all add: dropWhile_append takeWhile_append dropWhile_eq_Nil_conv takeWhile_eq_all_conv)
  then show ?thesis by (simp add: bech0_decode_def bech0_encode_def bits_dec_enc)
qed

lemma env0_bech32_laws: "bech32_laws env0"
proof -
  have "CHR ''0'' \<le> c \<and> c \<le> CHR ''z''" if "c \<in> set (bech0_encode AccountAddressPrefix a)" for c a
    using that bits_enc_range [of c a]
    by (auto simp: bech0_encode_def AccountAddressPrefix_def less_eq_char_def)
  then show ?thesis by (simp add: bech32_laws_def env0_def bech0_roundtrip) (simp add: bech0_encode_def)
qed

lemma ct0_roundtrip:
  assumes "key \<noteq> []"
  shows "ct0_dec (ct0_enc key w) = w" and "ct0_of key (ct0_enc key w)"
proof -
  have k: "take (Suc 0) key = [hd key]" using assms by (cases key) simp_all
  have "ct0_dec (ct0_enc key w) = horner_sum of_bool 2 (map (bit w) [0..<32])"
    by (simp add: ct0_dec_def ct0_enc_def k o_def)
  also have "\<dots> = take_bit 32 w" by (rule horner_sum_bit_eq_take_bit)
  also have "\<dots> = w" by (rule take_bit_word_eq_self) simp
  finally show "ct0_dec (ct0_enc key w) = w" .
  show "ct0_of key (ct0_enc key w)" using assms by (simp add: ct0_of_def ct0_enc_def k)
qed

lemma ct0_of_take [simp]: "ct0_of (take (Suc 0) key) c \<longleftrightarrow> ct0_of key c"
  by (cases key) (auto simp: ct0_of_def)

lemma evaluates0: "evaluates keys0 (eval0 f) f"
proof -
  have "ct0_dec (ct0_enc sk w) = w \<and> ct0_of sk (ct0_enc sk w)" if "ct0_of sk c" for sk w c
    using that ct0_roundtrip [of sk] by (simp add: ct0_of_def)
  moreover have "ct0_enc sk w \<noteq> []" for sk w by (simp add: ct0_enc_def)
  ultimately show ?thesis
    by (simp add: evaluates_def eval0_def keys0_def)
qed

lemma env0_tfhe_laws: "tfhe_laws env0 keys0"
proof -
  have "c \<noteq> [] \<and> ct0_of key c \<and> ct0_dec c = n" if "enc0 key n = Some c" for key n c
    using that ct0_roundtrip [of key n] by (auto simp: enc0_def ct0_of_def split: if_splits)
  then have "c \<noteq> [] \<and> tk_plain keys0 key c = Some n \<and> tk_plain keys0 (tk_of_public keys0 key) c = Some n"
    if "enc0 key n = Some c" for key n c using that by (simp add: keys0_def)
  then show ?thesis by (simp add: tfhe_laws_def env0_def evaluates0)
qed

lemma env0_addr_laws: "addr_laws env0"
  by (auto simp: addr_laws_def env0_def min_def)

lemma int_add_Some: "int_laws E \<Longrightarrow> int_add E a b = Some c \<longleftrightarrow> c = a + b \<and> int_fits c"
  by (auto simp: int_laws_def)

lemma int_sub_Some: "int_laws E \<Longrightarrow> int_sub E a b = Some c \<longleftrightarrow> c = a - b \<and> int_fits c"
  by (auto simp: int_laws_def)

end
