(* ===== verification/Coins.thy ===== *)
theory Coins
  imports Externals
begin

section \<open>Coins\<close>

text \<open>
  \<open>cosmos-sdk/types/coin.go\<close>: a coin is a denomination and an amount, \<open>Coins\<close> is a
  list that is valid when its denominations are strictly ascending and its amounts are
  positive. A Go panic is the value \<open>None\<close>. \<open>Find\<close> is the binary search of the
  source; \<open>coins_lookup\<close> is the linear reference it is compared with.
\<close>

record coin =
  c_denom :: denom
  c_amount :: int

type_synonym coins = "coin list"

subsection \<open>Denominations\<close>

text \<open>\<open>[a-zA-Z][a-zA-Z0-9/:._-]{2,127}\<close>\<close>

definition is_letter :: "char \<Rightarrow> bool" where
  "is_letter c \<longleftrightarrow> (CHR ''a'' \<le> c \<and> c \<le> CHR ''z'') \<or> (CHR ''A'' \<le> c \<and> c \<le> CHR ''Z'')"

definition is_denom_char :: "char \<Rightarrow> bool" where
  "is_denom_char c \<longleftrightarrow> is_letter c \<or> (CHR ''0'' \<le> c \<and> c \<le> CHR ''9'') \<or> c \<in> set ''/:._-''"

fun ValidateDenom :: "denom \<Rightarrow> bool" where
  "ValidateDenom [] = False"
| "ValidateDenom (c # r) = (is_letter c \<and> list_all is_denom_char r \<and> 2 \<le> length r \<and> length r \<le> 127)"

subsection \<open>Single coins\<close>

definition coin_IsValid :: "coin \<Rightarrow> bool" where
  "coin_IsValid c \<longleftrightarrow> ValidateDenom (c_denom c) \<and> 0 \<le> c_amount c"

definition NewCoin :: "denom \<Rightarrow> int \<Rightarrow> coin option" where
  "NewCoin d a = (let c = \<lparr>c_denom = d, c_amount = a\<rparr> in if coin_IsValid c then Some c else None)"

definition coin_Add :: "env \<Rightarrow> coin \<Rightarrow> coin \<Rightarrow> coin option" where
  "coin_Add E a b =
     (if c_denom a \<noteq> c_denom b then None
      else map_option (\<lambda>m. \<lparr>c_denom = c_denom a, c_amount = m\<rparr>) (int_add E (c_amount a) (c_amount b)))"

text \<open>\<open>SafeSub\<close> returns an error for different denominations and for a negative result.\<close>

definition coin_SafeSub :: "env \<Rightarrow> coin \<Rightarrow> coin \<Rightarrow> coin option option" where
  "coin_SafeSub E a b =
     (if c_denom a \<noteq> c_denom b then Some None
      else case int_sub E (c_amount a) (c_amount b) of
        None \<Rightarrow> None
      | Some m \<Rightarrow> Some (if m < 0 then None else Some \<lparr>c_denom = c_denom a, c_amount = m\<rparr>))"

definition coin_Sub :: "env \<Rightarrow> coin \<Rightarrow> coin \<Rightarrow> coin option" where
  "coin_Sub E a b = (case coin_SafeSub E a b of None \<Rightarrow> None | Some r \<Rightarrow> r)"

subsection \<open>Sets of coins\<close>

fun coins_check :: "denom \<Rightarrow> coins \<Rightarrow> bool" where
  "coins_check low [] = True"
| "coins_check low (c # cs) =
     (ValidateDenom (c_denom c) \<and> \<not> c_denom c < low \<and> c_denom c \<noteq> low \<and> 0 < c_amount c
      \<and> coins_check (c_denom c) cs)"

fun coins_IsValid :: "coins \<Rightarrow> bool" where
  "coins_IsValid [] = True"
| "coins_IsValid (c # cs) = (ValidateDenom (c_denom c) \<and> 0 < c_amount c \<and> coins_check (c_denom c) cs)"

definition removeZeroCoins :: "coins \<Rightarrow> coins" where
  "removeZeroCoins cs = filter (\<lambda>c. c_amount c \<noteq> 0) cs"

definition coins_Sort :: "coins \<Rightarrow> coins" where
  "coins_Sort cs = sort_key c_denom cs"

definition NewCoins :: "coins \<Rightarrow> coins option" where
  "NewCoins cs = (let n = coins_Sort (removeZeroCoins cs) in if coins_IsValid n then Some n else None)"

fun coins_isSorted :: "coins \<Rightarrow> bool" where
  "coins_isSorted (a # b # r) = (\<not> c_denom b < c_denom a \<and> coins_isSorted (b # r))"
| "coins_isSorted _ = True"

fun sum_coins :: "env \<Rightarrow> coins \<Rightarrow> int \<Rightarrow> int option" where
  "sum_coins E [] acc = Some acc"
| "sum_coins E (c # cs) acc =
     (case int_add E acc (c_amount c) of None \<Rightarrow> None | Some m \<Rightarrow> sum_coins E cs m)"

definition combo_coin :: "env \<Rightarrow> coins \<Rightarrow> denom \<Rightarrow> coin option" where
  "combo_coin E cs d =
     map_option (\<lambda>m. \<lparr>c_denom = d, c_amount = m\<rparr>) (sum_coins E (filter (\<lambda>c. c_denom c = d) cs) 0)"

definition coins_safeAdd :: "env \<Rightarrow> coins \<Rightarrow> coins \<Rightarrow> coins option" where
  "coins_safeAdd E a b =
     (if \<not> coins_isSorted a \<or> \<not> coins_isSorted b then None
      else map_option (\<lambda>cs. coins_Sort (removeZeroCoins cs))
             (those (map (combo_coin E (a @ b)) (remdups (map c_denom (a @ b))))))"

definition coins_negative :: "coins \<Rightarrow> coins" where
  "coins_negative cs = map (\<lambda>c. \<lparr>c_denom = c_denom c, c_amount = - c_amount c\<rparr>) cs"

definition coins_IsAnyNegative :: "coins \<Rightarrow> bool" where
  "coins_IsAnyNegative cs \<longleftrightarrow> list_ex (\<lambda>c. c_amount c < 0) cs"

definition coins_SafeSub :: "env \<Rightarrow> coins \<Rightarrow> coins \<Rightarrow> (coins \<times> bool) option" where
  "coins_SafeSub E a b =
     (case NewCoins b of
        None \<Rightarrow> None
      | Some nb \<Rightarrow> map_option (\<lambda>d. (d, coins_IsAnyNegative d)) (coins_safeAdd E a (coins_negative nb)))"

function coins_Find :: "coins \<Rightarrow> denom \<Rightarrow> coin option" where
  "coins_Find cs d =
     (case cs of
        [] \<Rightarrow> None
      | [c] \<Rightarrow> if c_denom c = d then Some c else None
      | _ \<Rightarrow> (let mid = length cs div 2; c = cs ! mid in
               if d < c_denom c then coins_Find (take mid cs) d
               else if d = c_denom c then Some c
               else coins_Find (drop (mid + 1) cs) d))"
  by pat_completeness auto
termination
  by (relation "measure (\<lambda>(cs, d). length cs)") auto

declare coins_Find.simps [simp del]

definition AmountOfNoDenomValidation :: "coins \<Rightarrow> denom \<Rightarrow> int" where
  "AmountOfNoDenomValidation cs d = (case coins_Find cs d of None \<Rightarrow> 0 | Some c \<Rightarrow> c_amount c)"

definition AmountOf :: "coins \<Rightarrow> denom \<Rightarrow> int option" where
  "AmountOf cs d = (if ValidateDenom d then Some (AmountOfNoDenomValidation cs d) else None)"

subsection \<open>The binary search finds what a linear scan finds\<close>

definition coins_lookup :: "coins \<Rightarrow> denom \<Rightarrow> coin option" where
  "coins_lookup cs d = find (\<lambda>c. c_denom c = d) cs"

definition coins_ascending :: "coins \<Rightarrow> bool" where
  "coins_ascending cs \<longleftrightarrow> sorted_wrt (<) (map c_denom cs)"

lemma coins_check_iff:
  "coins_check low cs \<longleftrightarrow>
     coins_ascending cs \<and> (\<forall>c \<in> set cs. low < c_denom c \<and> ValidateDenom (c_denom c) \<and> 0 < c_amount c)"
proof (induction cs arbitrary: low)
  case (Cons c cs)
  then show ?case by (auto simp: coins_ascending_def)
qed (simp add: coins_ascending_def)

lemma coins_IsValid_iff:
  "coins_IsValid cs \<longleftrightarrow>
     coins_ascending cs \<and> (\<forall>c \<in> set cs. ValidateDenom (c_denom c) \<and> 0 < c_amount c)"
  by (cases cs) (auto simp: coins_check_iff coins_ascending_def)

lemma find_append: "find P (xs @ ys) = (case find P xs of None \<Rightarrow> find P ys | Some x \<Rightarrow> Some x)"
  by (induction xs) auto

lemma coins_lookup_split:
  assumes asc: "coins_ascending (xs @ c # ys)"
  shows "coins_lookup (xs @ c # ys) d =
    (if d < c_denom c then coins_lookup xs d else if d = c_denom c then Some c else coins_lookup ys d)"
proof -
  have left: "c_denom x < c_denom c" if "x \<in> set xs" for x
    using asc that by (auto simp: coins_ascending_def sorted_wrt_append)
  have right: "c_denom c < c_denom y" if "y \<in> set ys" for y
    using asc that by (auto simp: coins_ascending_def sorted_wrt_append)
  consider "d < c_denom c" | "d = c_denom c" | "c_denom c < d" by fastforce
  then show ?thesis
  proof cases
    case 1
    then have "find (\<lambda>c. c_denom c = d) ys = None"
      using right by (auto simp: find_None_iff dest: less_asym)
    with 1 show ?thesis by (auto simp: coins_lookup_def find_append split: option.splits)
  next
    case 2
    then have "find (\<lambda>c. c_denom c = d) xs = None"
      using left by (fastforce simp: find_None_iff)
    with 2 show ?thesis by (simp add: coins_lookup_def find_append)
  next
    case 3
    then have "find (\<lambda>c. c_denom c = d) xs = None"
      using left by (fastforce simp: find_None_iff)
    with 3 show ?thesis by (auto simp: coins_lookup_def find_append)
  qed
qed

lemma coins_Find_lookup: "coins_ascending cs \<Longrightarrow> coins_Find cs d = coins_lookup cs d"
proof (induction cs d rule: coins_Find.induct)
  case (1 cs d)
  show ?case
  proof (cases "length cs \<le> 1")
    case True
    then show ?thesis
      by (cases cs; cases "tl cs") (auto simp: coins_Find.simps coins_lookup_def)
  next
    case False
    define mid where "mid = length cs div 2"
    have lt: "mid < length cs" using False by (simp add: mid_def)
    obtain a b r where cs: "cs = a # b # r" using False by (cases cs; cases "tl cs") auto
    have split: "cs = take mid cs @ cs ! mid # drop (mid + 1) cs"
      using lt by (simp add: id_take_nth_drop)
    have asc: "coins_ascending (take mid cs)" "coins_ascending (drop (mid + 1) cs)"
      using 1(3) by (simp_all add: coins_ascending_def sorted_wrt_take sorted_wrt_drop
          flip: take_map drop_map)
    have step: "coins_Find cs d =
      (if d < c_denom (cs ! mid) then coins_Find (take mid cs) d
       else if d = c_denom (cs ! mid) then Some (cs ! mid) else coins_Find (drop (mid + 1) cs) d)"
      by (subst coins_Find.simps) (simp add: cs mid_def Let_def)
    have ih: "d < c_denom (cs ! mid) \<Longrightarrow> coins_Find (take mid cs) d = coins_lookup (take mid cs) d"
      "\<not> d < c_denom (cs ! mid) \<Longrightarrow> d \<noteq> c_denom (cs ! mid) \<Longrightarrow>
         coins_Find (drop (mid + 1) cs) d = coins_lookup (drop (mid + 1) cs) d"
      using 1(1) [OF cs _ mid_def refl] 1(2) [OF cs _ mid_def refl] asc cs by simp_all
    have "coins_lookup cs d =
      (if d < c_denom (cs ! mid) then coins_lookup (take mid cs) d
       else if d = c_denom (cs ! mid) then Some (cs ! mid) else coins_lookup (drop (mid + 1) cs) d)"
      using coins_lookup_split [of "take mid cs" "cs ! mid" "drop (mid + 1) cs" d] 1(3) split by simp
    with step ih show ?thesis by simp
  qed
qed

subsection \<open>Arithmetic on one denomination\<close>

text \<open>
  The bank keeper subtracts sets that hold one denomination each; there the set
  operations are plain integer operations.
\<close>

lemma NewCoin_Some: "NewCoin d a = Some c \<longleftrightarrow> c = \<lparr>c_denom = d, c_amount = a\<rparr> \<and> ValidateDenom d \<and> 0 \<le> a"
  by (auto simp: NewCoin_def coin_IsValid_def Let_def)

lemma NewCoins_single:
  "ValidateDenom d \<Longrightarrow> 0 \<le> a \<Longrightarrow>
    NewCoins [\<lparr>c_denom = d, c_amount = a\<rparr>] = Some (if a = 0 then [] else [\<lparr>c_denom = d, c_amount = a\<rparr>])"
  by (simp add: NewCoins_def removeZeroCoins_def coins_Sort_def Let_def)

lemma coin_Add_Some:
  "int_laws E \<Longrightarrow> coin_Add E a b = Some c \<longleftrightarrow>
     c_denom a = c_denom b \<and> c = \<lparr>c_denom = c_denom a, c_amount = c_amount a + c_amount b\<rparr>
     \<and> int_fits (c_amount a + c_amount b)"
  by (auto simp: coin_Add_def int_add_Some)

lemma coin_Sub_Some:
  "int_laws E \<Longrightarrow> coin_Sub E a b = Some c \<longleftrightarrow>
     c_denom a = c_denom b \<and> c = \<lparr>c_denom = c_denom a, c_amount = c_amount a - c_amount b\<rparr>
     \<and> 0 \<le> c_amount a - c_amount b \<and> int_fits (c_amount a - c_amount b)"
  by (auto simp: coin_Sub_def coin_SafeSub_def int_laws_def split: if_splits)

definition one_coin :: "denom \<Rightarrow> int \<Rightarrow> coins" where
  "one_coin d a = (if a = 0 then [] else [\<lparr>c_denom = d, c_amount = a\<rparr>])"

lemma safeAdd_one:
  assumes L: "int_laws E" and fits: "int_fits a" "int_fits b" "int_fits (a + b)"
  shows "coins_safeAdd E [\<lparr>c_denom = d, c_amount = a\<rparr>] (one_coin d b) = Some (one_coin d (a + b))"
    and "coins_safeAdd E [] (one_coin d b) = Some (one_coin d b)"
proof -
  have add: "int_add E x y = Some (x + y)" if "int_fits (x + y)" for x y
    using L that by (simp add: int_laws_def)
  show "coins_safeAdd E [\<lparr>c_denom = d, c_amount = a\<rparr>] (one_coin d b) = Some (one_coin d (a + b))"
    using fits by (simp add: coins_safeAdd_def one_coin_def combo_coin_def add removeZeroCoins_def coins_Sort_def)
  show "coins_safeAdd E [] (one_coin d b) = Some (one_coin d b)"
    using fits by (simp add: coins_safeAdd_def one_coin_def combo_coin_def add removeZeroCoins_def coins_Sort_def)
qed

lemma SafeSub_one:
  assumes L: "int_laws E" and "ValidateDenom d" "0 \<le> b"
    and fits: "int_fits a" "int_fits b" "int_fits (a - b)"
  shows "coins_SafeSub E [\<lparr>c_denom = d, c_amount = a\<rparr>] [\<lparr>c_denom = d, c_amount = b\<rparr>] =
    Some (one_coin d (a - b), a < b)"
    and "coins_SafeSub E (one_coin d a) [\<lparr>c_denom = d, c_amount = b\<rparr>] = Some (one_coin d (a - b), a < b)"
proof -
  have neg: "coins_negative (if b = 0 then [] else [\<lparr>c_denom = d, c_amount = b\<rparr>]) = one_coin d (- b)"
    by (simp add: coins_negative_def one_coin_def)
  have neg': "coins_IsAnyNegative (one_coin d x) \<longleftrightarrow> x < 0" for x
    by (simp add: coins_IsAnyNegative_def one_coin_def)
  have fitsn: "int_fits (- b)" "int_fits (a + - b)" using fits by (simp_all add: int_fits_def)
  note sa = safeAdd_one [OF L fits(1) fitsn]
  show first: "coins_SafeSub E [\<lparr>c_denom = d, c_amount = a\<rparr>] [\<lparr>c_denom = d, c_amount = b\<rparr>] =
    Some (one_coin d (a - b), a < b)"
    using sa(1) [of d] assms(2,3) by (simp add: coins_SafeSub_def NewCoins_single neg neg')
  show "coins_SafeSub E (one_coin d a) [\<lparr>c_denom = d, c_amount = b\<rparr>] = Some (one_coin d (a - b), a < b)"
    using first sa(2) [of d] assms(2,3)
    by (cases "a = 0") (simp_all add: coins_SafeSub_def NewCoins_single neg neg', simp_all add: one_coin_def)
qed

end
