(* ===== verification/Bank.thy ===== *)
theory Bank
  imports Coins
begin

section \<open>Accounts and the bank keeper\<close>

text \<open>
  The part of \<open>cosmos-sdk/x/auth/keeper\<close> and \<open>cosmos-sdk/x/bank/keeper\<close> the chain's
  own modules call: balances, the reverse index, the supply, account creation, module
  accounts and their permissions, transfers, minting and burning. The state is the record
  \<open>base\<close>, which also holds the events emitted so far; every module's state contains it.
  The mint restriction of the keeper is the one \<open>NewBaseKeeper\<close> installs, which allows every
  mint: nothing in the repository calls \<open>WithMintCoinsRestriction\<close> outside tests.

  The section at the end states what the clients rely on: which balances a transfer
  changes, that a transfer keeps the total of every denomination, and that the recorded
  supply is the sum of all balances.
\<close>

subsection \<open>Context, errors and events\<close>

record ctx =
  block_height :: int
  block_time :: int

definition ctx_Unix :: "ctx \<Rightarrow> int" where
  "ctx_Unix C = block_time C div 10 ^ 9"

datatype err =
    ErrInvalidCoins | ErrInsufficientFunds | ErrUnauthorized | ErrUnknownAddress | ErrInvalidRequest
  | ErrInvalidDenom | ErrPriceTooOld | ErrInsufficientSubmissions | ErrUnauthorizedSubmitter
  | ErrDenomNotWhitelisted | ErrAssetNotActive | ErrInsufficientCollateral | ErrPositionNotFound
  | ErrUnlockDenied | ErrInsufficientLockedAmount | ErrInvalidAddress | ErrInvalidAmount
  | ErrZeroMintAmount | ErrPositionHealthy | ErrOraclePriceUnavailable
  | ErrExceedsCollateralValue | ErrMintRecordNotFound | ErrExceedsMintedAmount | ErrPQCKeyNotRegistered
  | ErrInvalidPQCSig | ErrPQCKeyMismatch | ErrMigrationMintForbidden | ErrHardFreezeNoKey | ErrHardFreeze
  | ErrExpirationTooFar | ErrExpirationPast
  | Errorf string | Wrap string err

datatype attr = AStr string | AInt int | ADec "int option" | ACoins coins

datatype event = Event string "(string \<times> attr) list"

subsection \<open>State\<close>

text \<open>
  A vesting account is a value of the interface \<open>VestingAccount\<close>: it carries its method
  \<open>LockedCoins(blockTime)\<close>.
\<close>

datatype account =
    BaseAccount "64 word"
  | ModuleAccount string "string list" "64 word"
  | VestingAccount "int \<Rightarrow> coins" "64 word"

record base =
  bk_balances :: "int kv"
  bk_index :: "unit kv"
  bk_supply :: "int kv"
  ac_accounts :: "account kv"
  ac_by_number :: "(64 word \<times> addr) list"
  ac_next :: "64 word"
  evs :: "event list"

type_synonym 'a base_op = "(base, err, 'a) go"

definition base_empty :: base where
  "base_empty = \<lparr>bk_balances = [], bk_index = [], bk_supply = [], ac_accounts = [],
     ac_by_number = [], ac_next = 0, evs = []\<rparr>"

definition EmitEvent :: "string \<Rightarrow> (string \<times> attr) list \<Rightarrow> unit base_op" where
  "EmitEvent ty as = gmod (\<lambda>s. s\<lparr>evs := evs s @ [Event ty as]\<rparr>)"

subsection \<open>Addresses\<close>

definition MaxAddrLen :: nat where
  "MaxAddrLen = 255"

definition VerifyAddressFormat :: "addr \<Rightarrow> bool" where
  "VerifyAddressFormat bz \<longleftrightarrow> bz \<noteq> [] \<and> length bz \<le> MaxAddrLen"

definition is_space :: "char \<Rightarrow> bool" where
  "is_space c \<longleftrightarrow> c \<in> {CHR 0x09, CHR 0x0A, CHR 0x0B, CHR 0x0C, CHR 0x0D, CHR '' ''}"

definition GetFromBech32 :: "env \<Rightarrow> string \<Rightarrow> string \<Rightarrow> addr option" where
  "GetFromBech32 E s p =
     (if s = [] then None
      else case bech32_decode E s of
        None \<Rightarrow> None
      | Some (hrp, bz) \<Rightarrow> if hrp \<noteq> p then None else Some bz)"

definition AccAddressFromBech32 :: "env \<Rightarrow> string \<Rightarrow> addr option" where
  "AccAddressFromBech32 E s =
     (if list_all is_space s then None
      else case GetFromBech32 E s AccountAddressPrefix of
        None \<Rightarrow> None
      | Some bz \<Rightarrow> if VerifyAddressFormat bz then Some bz else None)"

definition acc_String :: "env \<Rightarrow> addr \<Rightarrow> string" where
  "acc_String E a = (if a = [] then [] else bech32_encode E AccountAddressPrefix a)"

definition LengthPrefix :: "addr \<Rightarrow> string option" where
  "LengthPrefix bz =
     (if bz = [] then Some bz
      else if length bz > MaxAddrLen then None
      else Some (char_of (length bz) # bz))"

subsection \<open>Module accounts\<close>

definition maccPerms :: "env \<Rightarrow> (string \<times> string list) list" where
  "maccPerms E =
    [(''fee_collector'', []),
     (''distribution'', []),
     (ica_ModuleName E, []),
     (''mint'', [''minter'']),
     (''bonded_tokens_pool'', [''burner'', ''staking'']),
     (''not_bonded_tokens_pool'', [''burner'', ''staking'']),
     (''gov'', [''burner'']),
     (transfer_ModuleName E, [''minter'', ''burner'']),
     (''privacy'', [''minter'', ''burner'', ''staking'']),
     (''ibc_collateral_vault'', [''burner'', ''minter'']),
     (''stablecoin_mint'', [''burner'', ''minter''])]"

definition NewModuleAddress :: "env \<Rightarrow> string \<Rightarrow> addr" where
  "NewModuleAddress E n = address_hash E n"

definition GetModuleAddressAndPermissions :: "env \<Rightarrow> string \<Rightarrow> (addr \<times> string list) option" where
  "GetModuleAddressAndPermissions E n =
     map_option (\<lambda>ps. (NewModuleAddress E n, ps)) (map_of (maccPerms E) n)"

definition ModuleAccountAddrs :: "env \<Rightarrow> string list" where
  "ModuleAccountAddrs E = map (\<lambda>p. acc_String E (NewModuleAddress E (fst p))) (maccPerms E)"

definition BlockedModuleAccountAddrs :: "env \<Rightarrow> string list" where
  "BlockedModuleAccountAddrs E =
     filter (\<lambda>s. s \<noteq> acc_String E (NewModuleAddress E ''gov'')) (ModuleAccountAddrs E)"

definition BlockedAddr :: "env \<Rightarrow> addr \<Rightarrow> bool" where
  "BlockedAddr E a \<longleftrightarrow> acc_String E a \<in> set (BlockedModuleAccountAddrs E)"

subsection \<open>The account keeper\<close>

definition HasAccount :: "addr \<Rightarrow> bool base_op" where
  "HasAccount a = gget (\<lambda>s. kv_has (ac_accounts s) a)"

definition acc_number :: "account \<Rightarrow> 64 word" where
  "acc_number acc = (case acc of BaseAccount n \<Rightarrow> n | ModuleAccount _ _ n \<Rightarrow> n | VestingAccount _ n \<Rightarrow> n)"

definition SetAccount :: "addr \<Rightarrow> account \<Rightarrow> unit base_op" where
  "SetAccount a acc = gmod (\<lambda>s. s\<lparr>
     ac_accounts := kv_set a acc (ac_accounts s),
     ac_by_number := (acc_number acc, a) # ac_by_number s\<rparr>)"

definition NextAccountNumber :: "64 word base_op" where
  "NextAccountNumber = gbind (gget ac_next) (\<lambda>n.
     gbind (gmod (\<lambda>s. s\<lparr>ac_next := n + 1\<rparr>)) (\<lambda>_. gret n))"

definition NewAccountWithAddress :: "account base_op" where
  "NewAccountWithAddress = gbind NextAccountNumber (\<lambda>n. gret (BaseAccount n))"

text \<open>
  The module account and its permissions; an unregistered name gives \<open>None\<close>, a plain
  account at the module's address panics, a missing account is created.
\<close>

definition GetModuleAccount :: "env \<Rightarrow> string \<Rightarrow> (addr \<times> string list) option base_op" where
  "GetModuleAccount E n = (case GetModuleAddressAndPermissions E n of
     None \<Rightarrow> gret None
   | Some (a, ps) \<Rightarrow>
       gbind (gget (\<lambda>s. kv_get (ac_accounts s) a)) (\<lambda>acc. case acc of
         Some (ModuleAccount nm ps' num) \<Rightarrow> gret (Some (a, ps'))
       | Some _ \<Rightarrow> gpanic ''account is not a module account''
       | None \<Rightarrow>
           gbind NextAccountNumber (\<lambda>num.
           gbind (SetAccount a (ModuleAccount n ps num)) (\<lambda>_.
           gret (Some (a, ps))))))"

subsection \<open>Balances\<close>

definition balance_key :: "addr \<Rightarrow> denom \<Rightarrow> string option" where
  "balance_key a d = map_option (\<lambda>p. p @ d) (LengthPrefix a)"

definition index_key :: "addr \<Rightarrow> denom \<Rightarrow> string option" where
  "index_key a d = map_option (\<lambda>p. d @ CHR 0x00 # p) (LengthPrefix a)"

definition GetBalance_opt :: "addr \<Rightarrow> denom \<Rightarrow> base \<Rightarrow> coin option" where
  "GetBalance_opt a d s = (case balance_key a d of
     None \<Rightarrow> None
   | Some k \<Rightarrow>
       if \<not> ValidateDenom d then None
       else NewCoin d (case kv_get (bk_balances s) k of None \<Rightarrow> 0 | Some v \<Rightarrow> v))"

definition GetBalance :: "addr \<Rightarrow> denom \<Rightarrow> coin base_op" where
  "GetBalance a d = gbind (gget (GetBalance_opt a d)) (gopt_panic ''GetBalance'')"

definition LockedCoins :: "ctx \<Rightarrow> addr \<Rightarrow> coins base_op" where
  "LockedCoins C a = gget (\<lambda>s. case kv_get (ac_accounts s) a of
     Some (VestingAccount f n) \<Rightarrow> f (block_time C)
   | _ \<Rightarrow> [])"

definition SpendableCoin :: "env \<Rightarrow> ctx \<Rightarrow> addr \<Rightarrow> denom \<Rightarrow> coin base_op" where
  "SpendableCoin E C a d =
     gbind (GetBalance a d) (\<lambda>b.
     gbind (LockedCoins C a) (\<lambda>l.
     gbind (gopt_panic ''AmountOf'' (AmountOf l d)) (\<lambda>la.
     gopt_panic ''negative coin amount'' (case int_sub E (c_amount b) la of
        None \<Rightarrow> None
      | Some m \<Rightarrow> if m < 0 then None else Some (b\<lparr>c_amount := m\<rparr>)))))"

definition setBalance :: "addr \<Rightarrow> coin \<Rightarrow> unit base_op" where
  "setBalance a c =
     gbind (gfail_if (\<not> coin_IsValid c) ErrInvalidCoins) (\<lambda>_.
     gbind (gopt_panic ''address length'' (balance_key a (c_denom c))) (\<lambda>bk.
     gbind (gopt_panic ''address length'' (index_key a (c_denom c))) (\<lambda>ik.
       if c_amount c = 0
       then gmod (\<lambda>s. s\<lparr>bk_balances := kv_delete bk (bk_balances s), bk_index := kv_delete ik (bk_index s)\<rparr>)
       else gmod (\<lambda>s. s\<lparr>bk_balances := kv_set bk (c_amount c) (bk_balances s),
                      bk_index := (if kv_has (bk_index s) ik then bk_index s else kv_set ik () (bk_index s))\<rparr>))))"

definition subUnlockedCoin :: "env \<Rightarrow> coins \<Rightarrow> addr \<Rightarrow> coin \<Rightarrow> unit base_op" where
  "subUnlockedCoin E lockedCoins a c =
     gbind (GetBalance a (c_denom c)) (\<lambda>balance.
     gbind (gopt_panic ''AmountOf'' (AmountOf lockedCoins (c_denom c))) (\<lambda>la.
     gbind (gopt_panic ''NewCoin'' (NewCoin (c_denom c) la)) (\<lambda>locked.
     gbind (gopt_panic ''SafeSub'' (coins_SafeSub E [balance] [locked])) (\<lambda>(spendable, hasNeg).
     gbind (gfail_if hasNeg ErrInsufficientFunds) (\<lambda>_.
     gbind (gopt_panic ''SafeSub'' (coins_SafeSub E spendable [c])) (\<lambda>(_, hasNeg2).
     gbind (gfail_if hasNeg2 ErrInsufficientFunds) (\<lambda>_.
     gbind (gopt_panic ''Sub'' (coin_Sub E balance c)) (\<lambda>newBalance.
     setBalance a newBalance))))))))"

definition subUnlockedCoins :: "env \<Rightarrow> ctx \<Rightarrow> addr \<Rightarrow> coins \<Rightarrow> unit base_op" where
  "subUnlockedCoins E C a amt =
     gbind (gfail_if (\<not> coins_IsValid amt) ErrInvalidCoins) (\<lambda>_.
     gbind (LockedCoins C a) (\<lambda>lockedCoins.
     gbind (gfor amt (subUnlockedCoin E lockedCoins a)) (\<lambda>_.
     EmitEvent ''coin_spent'' [(''spender'', AStr (acc_String E a)), (''amount'', ACoins amt)])))"

definition addCoin :: "env \<Rightarrow> addr \<Rightarrow> coin \<Rightarrow> unit base_op" where
  "addCoin E a c =
     gbind (GetBalance a (c_denom c)) (\<lambda>balance.
     gbind (gopt_panic ''Add'' (coin_Add E balance c)) (\<lambda>newBalance.
     setBalance a newBalance))"

definition addCoins :: "env \<Rightarrow> addr \<Rightarrow> coins \<Rightarrow> unit base_op" where
  "addCoins E a amt =
     gbind (gfail_if (\<not> coins_IsValid amt) ErrInvalidCoins) (\<lambda>_.
     gbind (gfor amt (addCoin E a)) (\<lambda>_.
     EmitEvent ''coin_received'' [(''receiver'', AStr (acc_String E a)), (''amount'', ACoins amt)]))"

subsection \<open>Transfers\<close>

definition SendCoins :: "env \<Rightarrow> ctx \<Rightarrow> addr \<Rightarrow> addr \<Rightarrow> coins \<Rightarrow> unit base_op" where
  "SendCoins E C from to amt =
     gbind (subUnlockedCoins E C from amt) (\<lambda>_.
     gbind (addCoins E to amt) (\<lambda>_.
     gbind (HasAccount to) (\<lambda>accExists.
     gbind (if accExists then gret ()
            else gbind NewAccountWithAddress (SetAccount to)) (\<lambda>_.
     gbind (EmitEvent ''transfer'' [(''recipient'', AStr (acc_String E to)),
              (''sender'', AStr (acc_String E from)), (''amount'', ACoins amt)]) (\<lambda>_.
     EmitEvent ''message'' [(''sender'', AStr (acc_String E from))])))))"

definition SendCoinsFromModuleToAccount :: "env \<Rightarrow> ctx \<Rightarrow> string \<Rightarrow> addr \<Rightarrow> coins \<Rightarrow> unit base_op" where
  "SendCoinsFromModuleToAccount E C m to amt = (case GetModuleAddressAndPermissions E m of
     None \<Rightarrow> gpanic ''module account does not exist''
   | Some (a, _) \<Rightarrow>
       gbind (gfail_if (BlockedAddr E to) ErrUnauthorized) (\<lambda>_. SendCoins E C a to amt))"

definition SendCoinsFromModuleToModule :: "env \<Rightarrow> ctx \<Rightarrow> string \<Rightarrow> string \<Rightarrow> coins \<Rightarrow> unit base_op" where
  "SendCoinsFromModuleToModule E C m m' amt = (case GetModuleAddressAndPermissions E m of
     None \<Rightarrow> gpanic ''module account does not exist''
   | Some (a, _) \<Rightarrow>
       gbind (GetModuleAccount E m') (\<lambda>acc. case acc of
         None \<Rightarrow> gpanic ''module account does not exist''
       | Some (a', _) \<Rightarrow> SendCoins E C a a' amt))"

definition SendCoinsFromAccountToModule :: "env \<Rightarrow> ctx \<Rightarrow> addr \<Rightarrow> string \<Rightarrow> coins \<Rightarrow> unit base_op" where
  "SendCoinsFromAccountToModule E C from m amt =
     gbind (GetModuleAccount E m) (\<lambda>acc. case acc of
       None \<Rightarrow> gpanic ''module account does not exist''
     | Some (a, _) \<Rightarrow> SendCoins E C from a amt)"

subsection \<open>Minting and burning\<close>

definition GetSupply :: "denom \<Rightarrow> coin base_op" where
  "GetSupply d = gget (\<lambda>s. \<lparr>c_denom = d, c_amount = (case kv_get (bk_supply s) d of None \<Rightarrow> 0 | Some v \<Rightarrow> v)\<rparr>)"

definition setSupply :: "coin \<Rightarrow> unit base_op" where
  "setSupply c = (if c_amount c = 0
     then gmod (\<lambda>s. s\<lparr>bk_supply := kv_delete (c_denom c) (bk_supply s)\<rparr>)
     else gmod (\<lambda>s. s\<lparr>bk_supply := kv_set (c_denom c) (c_amount c) (bk_supply s)\<rparr>))"

definition MintCoins :: "env \<Rightarrow> string \<Rightarrow> coins \<Rightarrow> unit base_op" where
  "MintCoins E m amt =
     gbind (GetModuleAccount E m) (\<lambda>acc. case acc of
       None \<Rightarrow> gpanic ''module account does not exist''
     | Some (a, perms) \<Rightarrow>
         if ''minter'' \<notin> set perms then gpanic ''no permission to mint''
         else
           gbind (addCoins E a amt) (\<lambda>_.
           gbind (gfor amt (\<lambda>c.
             gbind (GetSupply (c_denom c)) (\<lambda>supply.
             gbind (gopt_panic ''Add'' (coin_Add E supply c)) setSupply))) (\<lambda>_.
           EmitEvent ''coinbase'' [(''minter'', AStr (acc_String E a)), (''amount'', ACoins amt)])))"

definition BurnCoins :: "env \<Rightarrow> ctx \<Rightarrow> string \<Rightarrow> coins \<Rightarrow> unit base_op" where
  "BurnCoins E C m amt =
     gbind (GetModuleAccount E m) (\<lambda>acc. case acc of
       None \<Rightarrow> gpanic ''module account does not exist''
     | Some (a, perms) \<Rightarrow>
         if ''burner'' \<notin> set perms then gpanic ''no permission to burn''
         else
           gbind (subUnlockedCoins E C a amt) (\<lambda>_.
           gbind (gfor amt (\<lambda>c.
             gbind (GetSupply (c_denom c)) (\<lambda>supply.
             gbind (gopt_panic ''Sub'' (coin_Sub E supply c)) setSupply))) (\<lambda>_.
           EmitEvent ''burn'' [(''burner'', AStr (acc_String E a)), (''amount'', ACoins amt)])))"

subsection \<open>What the bank promises\<close>

text \<open>
  \<open>balance_of\<close> and \<open>supply_of\<close> read the two stores; \<open>total_of\<close> is the sum of all
  balances of a denomination, where \<open>key_denom\<close> reads the denomination back from a
  balance key as \<open>AddressAndDenomFromBalancesStore\<close> does.
\<close>

definition balance_of :: "base \<Rightarrow> addr \<Rightarrow> denom \<Rightarrow> int" where
  "balance_of s a d = (case balance_key a d of None \<Rightarrow> 0 | Some k \<Rightarrow> kv_at (\<lambda>_ v. v) (bk_balances s) k)"

definition supply_of :: "base \<Rightarrow> denom \<Rightarrow> int" where
  "supply_of s d = kv_at (\<lambda>_ v. v) (bk_supply s) d"

definition AddressAndDenomFromBalancesStore :: "string \<Rightarrow> (addr \<times> denom) option" where
  "AddressAndDenomFromBalancesStore k = (case k of
     [] \<Rightarrow> None
   | n # r \<Rightarrow> if length r < of_char n then None else Some (take (of_char n) r, drop (of_char n) r))"

definition denom_amount :: "denom \<Rightarrow> string \<Rightarrow> int \<Rightarrow> int" where
  "denom_amount d k v = (case AddressAndDenomFromBalancesStore k of
     Some (_, d') \<Rightarrow> if d' = d then v else 0
   | None \<Rightarrow> 0)"

definition total_of :: "base \<Rightarrow> denom \<Rightarrow> int" where
  "total_of s d = kv_sum (denom_amount d) (bk_balances s)"

definition bank_wf :: "base \<Rightarrow> bool" where
  "bank_wf s \<longleftrightarrow> kv_inv (bk_balances s) \<and> kv_inv (bk_supply s) \<and> kv_inv (bk_index s) \<and> kv_inv (ac_accounts s)
     \<and> (\<forall>(k, v) \<in> set (bk_balances s). 0 < v \<and> int_fits v)"

definition bank_inv :: "base \<Rightarrow> bool" where
  "bank_inv s \<longleftrightarrow> bank_wf s \<and> (\<forall>d. supply_of s d = total_of s d)"

definition amt_of :: "coins \<Rightarrow> denom \<Rightarrow> int" where
  "amt_of amt d = sum_list (map c_amount (filter (\<lambda>c. c_denom c = d) amt))"

lemma LengthPrefix_ok: "VerifyAddressFormat a \<Longrightarrow> LengthPrefix a = Some (char_of (length a) # a)"
  by (simp add: VerifyAddressFormat_def LengthPrefix_def MaxAddrLen_def)

lemma balance_key_ok: "VerifyAddressFormat a \<Longrightarrow> balance_key a d = Some (char_of (length a) # a @ d)"
  by (simp add: balance_key_def LengthPrefix_ok)

lemma index_key_ok: "VerifyAddressFormat a \<Longrightarrow> index_key a d = Some (d @ CHR 0x00 # char_of (length a) # a)"
  by (simp add: index_key_def LengthPrefix_ok)

lemma AddressAndDenom_key:
  "VerifyAddressFormat a \<Longrightarrow> AddressAndDenomFromBalancesStore (char_of (length a) # a @ d) = Some (a, d)"
  by (simp add: AddressAndDenomFromBalancesStore_def VerifyAddressFormat_def MaxAddrLen_def)

lemma balance_key_inj:
  assumes "VerifyAddressFormat a" "VerifyAddressFormat a'"
  shows "char_of (length a) # a @ d = (char_of (length a') # a' @ d' :: string) \<longleftrightarrow> a = a' \<and> d = d'"
  using AddressAndDenom_key [OF assms(1), of d] AddressAndDenom_key [OF assms(2), of d']
  by (metis option.inject prod.inject)

lemma denom_amount_key:
  "VerifyAddressFormat a \<Longrightarrow> denom_amount d' (char_of (length a) # a @ d) v = (if d = d' then v else 0)"
  by (simp add: denom_amount_def AddressAndDenom_key)

lemma AccAddressFromBech32_ok: "AccAddressFromBech32 E s = Some a \<Longrightarrow> VerifyAddressFormat a"
  by (auto simp: AccAddressFromBech32_def split: if_splits option.splits)

lemma acc_String_range:
  assumes "bech32_laws E" "c \<in> set (acc_String E a)"
  shows "CHR ''0'' \<le> c \<and> c \<le> CHR ''z''"
  using assms by (auto simp: acc_String_def bech32_laws_def split: if_splits)

lemma slash_notin_acc_String: "bech32_laws E \<Longrightarrow> CHR ''/'' \<notin> set (acc_String E a)"
  using acc_String_range [of E "CHR ''/''" a] by (auto simp: less_eq_char_def)

lemma AccAddress_roundtrip:
  assumes B: "bech32_laws E" and a: "VerifyAddressFormat a"
  shows "AccAddressFromBech32 E (acc_String E a) = Some a"
proof -
  have ne: "a \<noteq> []" "length a \<le> 255" using a by (simp_all add: VerifyAddressFormat_def MaxAddrLen_def)
  then have s: "acc_String E a \<noteq> []" "bech32_decode E (acc_String E a) = Some (AccountAddressPrefix, a)"
    using B unfolding acc_String_def bech32_laws_def by simp_all
  then obtain c cs where c: "acc_String E a = c # cs" by (cases "acc_String E a") auto
  have "CHR ''0'' \<le> c" using acc_String_range [OF B, of c a] c by simp
  then have "\<not> is_space c" by (auto simp: is_space_def less_eq_char_def)
  then show ?thesis using s a c by (simp add: AccAddressFromBech32_def GetFromBech32_def)
qed

lemma acc_String_inj:
  assumes "bech32_laws E" "VerifyAddressFormat a" "VerifyAddressFormat b"
  shows "acc_String E a = acc_String E b \<longleftrightarrow> a = b"
  using AccAddress_roundtrip [OF assms(1,2)] AccAddress_roundtrip [OF assms(1,3)] by (metis option.inject)

text \<open>
  \<open>bank_step s t a f\<close>: from \<open>s\<close> to \<open>t\<close> the balances of \<open>a\<close> change by \<open>f\<close> and nothing else
  of the balances and the supply does.
\<close>

definition bank_step :: "base \<Rightarrow> base \<Rightarrow> addr \<Rightarrow> (denom \<Rightarrow> int) \<Rightarrow> bool" where
  "bank_step s t a f \<longleftrightarrow> bank_wf t
     \<and> (\<forall>a' d. VerifyAddressFormat a' \<longrightarrow> balance_of t a' d = balance_of s a' d + (if a' = a then f d else 0))
     \<and> (\<forall>d. total_of t d = total_of s d + f d)
     \<and> bk_supply t = bk_supply s \<and> ac_accounts t = ac_accounts s"

lemma bank_step_refl: "bank_wf s \<Longrightarrow> bank_step s s a (\<lambda>d. 0)"
  by (simp add: bank_step_def)

lemma bank_step_trans:
  "bank_step s t a f \<Longrightarrow> bank_step t u a g \<Longrightarrow> bank_step s u a (\<lambda>d. f d + g d)"
  by (simp add: bank_step_def)

lemma bank_step_wf: "bank_step s t a f \<Longrightarrow> bank_wf t"
  by (simp add: bank_step_def)

lemma balance_of_range:
  assumes "bank_wf s"
  shows "0 \<le> balance_of s a d" "int_fits (balance_of s a d)"
proof -
  have "0 \<le> balance_of s a d \<and> int_fits (balance_of s a d)"
  proof (cases "balance_key a d")
    case None
    then show ?thesis by (simp add: balance_of_def int_fits_def)
  next
    case (Some k)
    show ?thesis
    proof (cases "kv_get (bk_balances s) k")
      case None
      with Some show ?thesis by (simp add: balance_of_def kv_at_def int_fits_def)
    next
      case (Some v)
      then have "(k, v) \<in> set (bk_balances s)" using assms by (simp add: bank_wf_def kv_get_mem)
      then have "0 < v \<and> int_fits v" using assms by (auto simp: bank_wf_def)
      with Some \<open>balance_key a d = Some k\<close> show ?thesis by (simp add: balance_of_def kv_at_def)
    qed
  qed
  then show "0 \<le> balance_of s a d" "int_fits (balance_of s a d)" by simp_all
qed

lemma GetBalance_eval:
  assumes "bank_wf s" "VerifyAddressFormat a" "ValidateDenom d"
  shows "GetBalance a d s = (Ret \<lparr>c_denom = d, c_amount = balance_of s a d\<rparr>, s)"
proof -
  have "(case kv_get (bk_balances s) (char_of (length a) # a @ d) of None \<Rightarrow> 0 | Some v \<Rightarrow> v) = balance_of s a d"
    using assms(2) by (simp add: balance_of_def balance_key_ok kv_at_def)
  then have "GetBalance_opt a d s = Some \<lparr>c_denom = d, c_amount = balance_of s a d\<rparr>"
    using assms balance_of_range [OF assms(1), of a d]
    by (simp add: GetBalance_opt_def balance_key_ok NewCoin_Some)
  then show ?thesis by (simp add: GetBalance_def go_simps)
qed

lemma setBalance_step:
  assumes wf: "bank_wf s" and a: "VerifyAddressFormat a" and fits: "int_fits (c_amount c)"
    and run: "setBalance a c s = (Ret u, t)"
  shows "bank_step s t a (\<lambda>d. if d = c_denom c then c_amount c - balance_of s a d else 0)"
proof -
  let ?k = "char_of (length a) # a @ c_denom c"
  have nn: "0 \<le> c_amount c" using run by (simp add: setBalance_def go_iffs coin_IsValid_def)
  define B where "B = (if c_amount c = 0 then kv_delete ?k (bk_balances s) else kv_set ?k (c_amount c) (bk_balances s))"
  have bal: "bk_balances t = B" and same: "bk_supply t = bk_supply s" "ac_accounts t = ac_accounts s"
    and idx: "kv_inv (bk_index t)"
    using run wf
    by (auto simp: setBalance_def go_iffs balance_key_ok [OF a] index_key_ok [OF a] B_def bank_wf_def split: if_splits)
  have inv: "kv_inv (bk_balances s)" using wf by (simp add: bank_wf_def)
  have mem: "0 < v \<and> int_fits v" if "(k, v) \<in> set B" for k v
    using that wf nn fits unfolding B_def
    by (auto simp: bank_wf_def set_kv_set_iff [OF inv] set_kv_delete_iff split: if_splits)
  have "bank_wf t" using wf mem by (auto simp: bank_wf_def bal same idx B_def)
  moreover have "balance_of t a' d = balance_of s a' d + (if a' = a then (if d = c_denom c then c_amount c - balance_of s a d else 0) else 0)"
    if "VerifyAddressFormat a'" for a' d
    using that balance_key_inj [OF that a, of d "c_denom c"]
    by (auto simp: balance_of_def balance_key_ok a bal B_def kv_at_def kv_simps)
  moreover have "total_of t d = total_of s d + (if d = c_denom c then c_amount c - balance_of s a d else 0)" for d
    by (auto simp: total_of_def bal B_def kv_sum_set [OF inv] kv_sum_delete [OF inv] denom_amount_key [OF a]
          balance_of_def balance_key_ok [OF a] kv_at_def split: option.splits)
  ultimately show ?thesis by (simp add: bank_step_def same)
qed

subsection \<open>Crediting and debiting\<close>

lemma bank_step_cong: "bank_step s t a f \<Longrightarrow> (\<And>d. f d = g d) \<Longrightarrow> bank_step s t a g"
  by (metis ext)

lemma addCoin_step:
  assumes L: "int_laws E" and wf: "bank_wf s" and a: "VerifyAddressFormat a" and d: "ValidateDenom (c_denom c)"
    and run: "addCoin E a c s = (Ret u, t)"
  shows "bank_step s t a (\<lambda>d. if d = c_denom c then c_amount c else 0)"
proof -
  define n where "n = \<lparr>c_denom = c_denom c, c_amount = balance_of s a (c_denom c) + c_amount c\<rparr>"
  have "setBalance a n s = (Ret u, t)" "int_fits (c_amount n)"
    using run by (auto simp: addCoin_def go_iffs GetBalance_eval [OF wf a d] coin_Add_Some [OF L] n_def)
  from setBalance_step [OF wf a this(2,1)] show ?thesis
    by (rule bank_step_cong) (simp add: n_def)
qed

lemma subUnlockedCoin_step:
  assumes L: "int_laws E" and wf: "bank_wf s" and a: "VerifyAddressFormat a" and d: "ValidateDenom (c_denom c)"
    and run: "subUnlockedCoin E l a c s = (Ret u, t)"
  shows "bank_step s t a (\<lambda>d. if d = c_denom c then - c_amount c else 0)"
    and "c_amount c \<le> balance_of s a (c_denom c)"
proof -
  define n where "n = \<lparr>c_denom = c_denom c, c_amount = balance_of s a (c_denom c) - c_amount c\<rparr>"
  have n: "setBalance a n s = (Ret u, t)" "int_fits (c_amount n)" "0 \<le> c_amount n"
    using run by (auto simp: subUnlockedCoin_def go_iffs GetBalance_eval [OF wf a d] coin_Sub_Some [OF L] n_def
        split: prod.splits)
  from setBalance_step [OF wf a n(2,1)]
  show "bank_step s t a (\<lambda>d. if d = c_denom c then - c_amount c else 0)"
    by (rule bank_step_cong) (simp add: n_def)
  show "c_amount c \<le> balance_of s a (c_denom c)" using n(3) by (simp add: n_def)
qed

lemma amt_of_simps [simp]:
  "amt_of [] d = 0"
  "amt_of (c # cs) d = (if d = c_denom c then c_amount c else 0) + amt_of cs d"
  by (auto simp: amt_of_def)

text \<open>A loop over coins whose body changes one balance changes it by the sum.\<close>

lemma gfor_bank_step:
  assumes "\<And>c s t u. c \<in> set amt \<Longrightarrow> bank_wf s \<Longrightarrow> f c s = (Ret u, t) \<Longrightarrow>
      bank_step s t a (\<lambda>d. if d = c_denom c then g (c_amount c) else 0)"
    and "bank_wf s" "gfor amt f s = (Ret u, t)"
  shows "bank_step s t a (\<lambda>d. sum_list (map (\<lambda>c. if d = c_denom c then g (c_amount c) else 0) amt))"
  using assms
proof (induction amt arbitrary: s)
  case Nil
  then show ?case by (simp add: go_iffs bank_step_refl)
next
  case (Cons c amt)
  obtain v s' where s': "f c s = (Ret v, s')" "gfor amt f s' = (Ret u, t)"
    using Cons.prems(3) by (auto simp: go_iffs)
  have 1: "bank_step s s' a (\<lambda>d. if d = c_denom c then g (c_amount c) else 0)"
    using Cons.prems(1) [of c s v s'] Cons.prems(2) s'(1) by simp
  have 2: "bank_step s' t a (\<lambda>d. sum_list (map (\<lambda>c. if d = c_denom c then g (c_amount c) else 0) amt))"
    using Cons.IH [of s'] Cons.prems(1) bank_step_wf [OF 1] s'(2) by simp
  show ?case using bank_step_trans [OF 1 2] by simp
qed

lemma amt_of_sum:
  "sum_list (map (\<lambda>c. if d = c_denom c then c_amount c else 0) amt) = amt_of amt d"
  "sum_list (map (\<lambda>c. if d = c_denom c then - c_amount c else 0) amt) = - amt_of amt d"
  by (induction amt) auto

lemma balance_of_cong: "bk_balances t = bk_balances s \<Longrightarrow> balance_of t = balance_of s"
  by (simp add: balance_of_def fun_eq_iff split: option.splits)

lemma total_of_cong: "bk_balances t = bk_balances s \<Longrightarrow> total_of t = total_of s"
  by (simp add: total_of_def fun_eq_iff)

lemma balance_of_frame [simp]:
  "balance_of (s\<lparr>evs := x\<rparr>) a d = balance_of s a d"
  "balance_of (s\<lparr>ac_accounts := y\<rparr>) a d = balance_of s a d"
  "balance_of (s\<lparr>ac_by_number := z\<rparr>) a d = balance_of s a d"
  "balance_of (s\<lparr>ac_next := n\<rparr>) a d = balance_of s a d"
  "balance_of (s\<lparr>bk_supply := sp\<rparr>) a d = balance_of s a d"
  by (simp_all add: balance_of_def split: option.splits)

lemma total_of_frame [simp]:
  "total_of (s\<lparr>evs := x\<rparr>) d = total_of s d"
  "total_of (s\<lparr>ac_accounts := y\<rparr>) d = total_of s d"
  "total_of (s\<lparr>ac_by_number := z\<rparr>) d = total_of s d"
  "total_of (s\<lparr>ac_next := n\<rparr>) d = total_of s d"
  "total_of (s\<lparr>bk_supply := sp\<rparr>) d = total_of s d"
  by (simp_all add: total_of_def)

lemma emit_step [simp]:
  "bank_step s (t\<lparr>evs := es\<rparr>) a f \<longleftrightarrow> bank_step s t a f"
  "bank_step (s\<lparr>evs := es\<rparr>) t a f \<longleftrightarrow> bank_step s t a f"
  by (simp_all add: bank_step_def bank_wf_def)

lemma addCoins_step:
  assumes L: "int_laws E" and wf: "bank_wf s" and a: "VerifyAddressFormat a"
    and run: "addCoins E a amt s = (Ret u, t)"
  shows "bank_step s t a (amt_of amt)"
proof -
  obtain s' where valid: "coins_IsValid amt" and loop: "gfor amt (addCoin E a) s = (Ret (), s')"
    and t: "t = s'\<lparr>evs := evs t\<rparr>"
    using run by (auto simp: addCoins_def EmitEvent_def go_iffs)
  have "bank_step s s' a (\<lambda>d. sum_list (map (\<lambda>c. if d = c_denom c then c_amount c else 0) amt))"
    by (rule gfor_bank_step [where g = "\<lambda>x. x", OF _ wf loop])
      (use valid in \<open>auto simp: coins_IsValid_iff intro: addCoin_step [OF L _ a]\<close>)
  then have "bank_step s s' a (amt_of amt)" by (rule bank_step_cong) (simp add: amt_of_sum)
  then show ?thesis by (subst t) simp
qed

lemma subUnlockedCoins_step:
  assumes L: "int_laws E" and wf: "bank_wf s" and a: "VerifyAddressFormat a"
    and run: "subUnlockedCoins E C a amt s = (Ret u, t)"
  shows "bank_step s t a (\<lambda>d. - amt_of amt d)"
proof -
  obtain l s' where valid: "coins_IsValid amt" and loop: "gfor amt (subUnlockedCoin E l a) s = (Ret (), s')"
    and t: "t = s'\<lparr>evs := evs t\<rparr>"
    using run by (auto simp: subUnlockedCoins_def EmitEvent_def LockedCoins_def go_iffs)
  have "bank_step s s' a (\<lambda>d. sum_list (map (\<lambda>c. if d = c_denom c then - c_amount c else 0) amt))"
    by (rule gfor_bank_step [where g = uminus, OF _ wf loop])
      (use valid in \<open>auto simp: coins_IsValid_iff intro: subUnlockedCoin_step(1) [OF L _ a]\<close>)
  then have "bank_step s s' a (\<lambda>d. - amt_of amt d)" by (rule bank_step_cong) (simp add: amt_of_sum)
  then show ?thesis by (subst t) simp
qed

subsection \<open>Transfers keep every total\<close>

text \<open>
  \<open>bank_moves s t from to f\<close>: the amounts \<open>f\<close> left \<open>from\<close> and arrived at \<open>to\<close>; totals and
  supply are as before. Accounts may have been created.
\<close>

definition bank_moves :: "base \<Rightarrow> base \<Rightarrow> addr \<Rightarrow> addr \<Rightarrow> (denom \<Rightarrow> int) \<Rightarrow> bool" where
  "bank_moves s t from to f \<longleftrightarrow> bank_wf t
     \<and> (\<forall>a d. VerifyAddressFormat a \<longrightarrow>
          balance_of t a d = balance_of s a d - (if a = from then f d else 0) + (if a = to then f d else 0))
     \<and> (\<forall>d. total_of t d = total_of s d)
     \<and> bk_supply t = bk_supply s"

lemma bank_moves_inv: "bank_moves s t from to f \<Longrightarrow> bank_inv s \<Longrightarrow> bank_inv t"
  by (simp add: bank_moves_def bank_inv_def supply_of_def)

lemma SendCoins_moves:
  assumes L: "int_laws E" and wf: "bank_wf s"
    and ad: "VerifyAddressFormat from" "VerifyAddressFormat to"
    and run: "SendCoins E C from to amt s = (Ret u, t)"
  shows "bank_moves s t from to (amt_of amt)"
proof -
  obtain s1 s2 where 1: "subUnlockedCoins E C from amt s = (Ret (), s1)"
    and 2: "addCoins E to amt s1 = (Ret (), s2)"
    and bal: "bk_balances t = bk_balances s2" "bk_supply t = bk_supply s2" "bk_index t = bk_index s2"
    and acc: "kv_inv (ac_accounts s2) \<Longrightarrow> kv_inv (ac_accounts t)"
    using run
    by (auto simp: SendCoins_def HasAccount_def NewAccountWithAddress_def NextAccountNumber_def SetAccount_def
        EmitEvent_def go_iffs split: if_splits)
  note st1 = subUnlockedCoins_step [OF L wf ad(1) 1]
  note st2 = addCoins_step [OF L bank_step_wf [OF st1] ad(2) 2]
  have "balance_of t a d = balance_of s2 a d" "total_of t d = total_of s2 d" for a d
    by (simp_all add: balance_of_cong [OF bal(1)] total_of_cong [OF bal(1)])
  moreover have "bank_wf t" using bank_step_wf [OF st2] acc by (simp add: bank_wf_def bal)
  ultimately show ?thesis using st1 st2 by (simp add: bank_moves_def bank_step_def bal)
qed

lemma GetModuleAccount_frame:
  assumes "GetModuleAccount E m s = (Ret r, t)"
  shows "bk_balances t = bk_balances s" "bk_supply t = bk_supply s" "bk_index t = bk_index s"
    and "kv_inv (ac_accounts s) \<Longrightarrow> kv_inv (ac_accounts t)"
    and "r = Some (a, ps) \<Longrightarrow> a = NewModuleAddress E m"
  using assms
  by (auto simp: GetModuleAccount_def GetModuleAddressAndPermissions_def NextAccountNumber_def SetAccount_def go_iffs
      split: option.splits account.splits)

lemma GetModuleAccount_bank:
  assumes "GetModuleAccount E m s = (Ret r, t)"
  shows "balance_of t a d = balance_of s a d" "total_of t d = total_of s d" "bank_wf s \<Longrightarrow> bank_wf t"
proof -
  note f = GetModuleAccount_frame [OF assms]
  show "balance_of t a d = balance_of s a d" "total_of t d = total_of s d"
    by (simp_all only: balance_of_cong [OF f(1)] total_of_cong [OF f(1)])
  show "bank_wf s \<Longrightarrow> bank_wf t" using f by (simp add: bank_wf_def)
qed

lemma GetModuleAccount_bind:
  assumes "gbind (GetModuleAccount E m) (\<lambda>acc. case acc of None \<Rightarrow> gpanic p | Some (a, ps) \<Rightarrow> F a ps) s = (Ret u, t)"
  obtains ps s' where "GetModuleAccount E m s = (Ret (Some (NewModuleAddress E m, ps)), s')"
    and "F (NewModuleAddress E m) ps s' = (Ret u, t)"
proof -
  obtain r s' where r: "GetModuleAccount E m s = (Ret r, s')"
    and run: "(case r of None \<Rightarrow> gpanic p | Some (a, ps) \<Rightarrow> F a ps) s' = (Ret u, t)"
    using assms by (auto simp: go_iffs)
  obtain a ps where "r = Some (a, ps)" using run by (cases r) (auto simp: go_iffs)
  with r run that GetModuleAccount_frame(5) [OF r] show ?thesis by simp
qed

lemma NewModuleAddress_ok: "addr_laws E \<Longrightarrow> VerifyAddressFormat (NewModuleAddress E m)"
  by (auto simp: addr_laws_def NewModuleAddress_def VerifyAddressFormat_def MaxAddrLen_def dest: spec [of _ m])

lemma SendCoinsFromAccountToModule_moves:
  assumes "int_laws E" "addr_laws E" "bank_wf s" "VerifyAddressFormat from"
    and "SendCoinsFromAccountToModule E C from m amt s = (Ret u, t)"
  shows "bank_moves s t from (NewModuleAddress E m) (amt_of amt)"
proof -
  obtain ps s' where g: "GetModuleAccount E m s = (Ret (Some (NewModuleAddress E m, ps)), s')"
    and "SendCoins E C from (NewModuleAddress E m) amt s' = (Ret u, t)"
    using assms(5) unfolding SendCoinsFromAccountToModule_def by (rule GetModuleAccount_bind)
  then have "bank_moves s' t from (NewModuleAddress E m) (amt_of amt)"
    using SendCoins_moves [OF assms(1) GetModuleAccount_bank(3) [OF g assms(3)] assms(4) NewModuleAddress_ok [OF assms(2)]]
    by blast
  then show ?thesis
    using GetModuleAccount_bank [OF g] GetModuleAccount_frame [OF g] by (simp add: bank_moves_def)
qed

lemma SendCoinsFromModuleToAccount_moves:
  assumes "int_laws E" "addr_laws E" "bank_wf s" "VerifyAddressFormat to"
    and run: "SendCoinsFromModuleToAccount E C m to amt s = (Ret u, t)"
  shows "bank_moves s t (NewModuleAddress E m) to (amt_of amt)" and "\<not> BlockedAddr E to"
proof -
  have "SendCoins E C (NewModuleAddress E m) to amt s = (Ret (), t)" and nb: "\<not> BlockedAddr E to"
    using run by (auto simp: SendCoinsFromModuleToAccount_def GetModuleAddressAndPermissions_def go_iffs
        split: option.splits)
  then show "bank_moves s t (NewModuleAddress E m) to (amt_of amt)" "\<not> BlockedAddr E to"
    using SendCoins_moves [OF assms(1,3) NewModuleAddress_ok [OF assms(2)] assms(4)] by simp_all
qed

subsection \<open>Minting and burning keep the supply equal to the total\<close>

lemma supply_loop:
  assumes "\<And>c s t u. f c s = (Ret u, t) \<Longrightarrow>
      bk_balances t = bk_balances s \<and> bk_index t = bk_index s \<and> ac_accounts t = ac_accounts s
      \<and> (kv_inv (bk_supply s) \<longrightarrow> kv_inv (bk_supply t))
      \<and> (\<forall>d. supply_of t d = supply_of s d + (if d = c_denom c then g (c_amount c) else 0))"
    and "gfor amt f s = (Ret u, t)"
  shows "bk_balances t = bk_balances s \<and> bk_index t = bk_index s \<and> ac_accounts t = ac_accounts s
      \<and> (kv_inv (bk_supply s) \<longrightarrow> kv_inv (bk_supply t))
      \<and> (\<forall>d. supply_of t d = supply_of s d + sum_list (map (\<lambda>c. if d = c_denom c then g (c_amount c) else 0) amt))"
  using assms(2)
proof (induction amt arbitrary: s)
  case Nil
  then show ?case by (simp add: go_iffs)
next
  case (Cons c amt)
  obtain v s' where s': "f c s = (Ret v, s')" "gfor amt f s' = (Ret u, t)"
    using Cons.prems by (auto simp: go_iffs)
  show ?case using assms(1) [OF s'(1)] Cons.IH [OF s'(2)] by simp
qed

lemma setSupply_run:
  assumes "setSupply c s = (Ret u, t)"
  shows "bk_balances t = bk_balances s \<and> bk_index t = bk_index s \<and> ac_accounts t = ac_accounts s
      \<and> (kv_inv (bk_supply s) \<longrightarrow> kv_inv (bk_supply t))
      \<and> (\<forall>d. supply_of t d = (if d = c_denom c then c_amount c else supply_of s d))"
  using assms by (auto simp: setSupply_def supply_of_def kv_at_def kv_simps go_iffs split: if_splits)

lemma MintCoins_inv:
  assumes L: "int_laws E" and A: "addr_laws E" and inv: "bank_inv s"
    and run: "MintCoins E m amt s = (Ret u, t)"
  shows "bank_inv t"
    and "VerifyAddressFormat a \<Longrightarrow>
      balance_of t a d = balance_of s a d + (if a = NewModuleAddress E m then amt_of amt d else 0)"
    and "supply_of t d = supply_of s d + amt_of amt d"
proof -
  define step where "step = (\<lambda>c. gbind (GetSupply (c_denom c)) (\<lambda>supply.
             gbind (gopt_panic ''Add'' (coin_Add E supply c)) setSupply))"
  obtain ps s1 where g: "GetModuleAccount E m s = (Ret (Some (NewModuleAddress E m, ps)), s1)"
    and rest: "(if ''minter'' \<notin> set ps then gpanic ''no permission to mint''
         else gbind (addCoins E (NewModuleAddress E m) amt) (\<lambda>_. gbind (gfor amt step) (\<lambda>_.
           EmitEvent ''coinbase'' [(''minter'', AStr (acc_String E (NewModuleAddress E m))), (''amount'', ACoins amt)]))) s1
         = (Ret u, t)"
    using run unfolding MintCoins_def step_def [symmetric] by (rule GetModuleAccount_bind)
  obtain s2 s3 where add: "addCoins E (NewModuleAddress E m) amt s1 = (Ret (), s2)"
    and loop: "gfor amt step s2 = (Ret (), s3)" and t: "t = s3\<lparr>evs := evs t\<rparr>"
    using rest by (auto simp: EmitEvent_def go_iffs split: if_splits)
  have wf: "bank_wf s1" using inv GetModuleAccount_bank(3) [OF g] by (simp add: bank_inv_def)
  note st = addCoins_step [OF L wf NewModuleAddress_ok [OF A] add]
  have body: "bk_balances t = bk_balances s \<and> bk_index t = bk_index s \<and> ac_accounts t = ac_accounts s
      \<and> (kv_inv (bk_supply s) \<longrightarrow> kv_inv (bk_supply t))
      \<and> (\<forall>d. supply_of t d = supply_of s d + (if d = c_denom c then c_amount c else 0))"
    if "step c s = (Ret u, t)" for c s t u
    using that setSupply_run
    by (fastforce simp: step_def GetSupply_def go_iffs coin_Add_Some [OF L] supply_of_def kv_at_def)
  note lp = supply_loop [where g = "\<lambda>x. x", OF body loop]
  have same: "balance_of t a d = balance_of s2 a d" "total_of t d = total_of s2 d" for a d
    using lp balance_of_cong [of s3 s2] total_of_cong [of s3 s2] by (subst t, simp)+
  show bal: "VerifyAddressFormat a \<Longrightarrow>
      balance_of t a d = balance_of s a d + (if a = NewModuleAddress E m then amt_of amt d else 0)" for a d
    using st GetModuleAccount_bank [OF g] by (simp add: bank_step_def same)
  have sup: "supply_of t d = supply_of s d + amt_of amt d" for d
  proof -
    have "supply_of t d = supply_of s3 d" by (subst t) (simp add: supply_of_def)
    also have "\<dots> = supply_of s2 d + amt_of amt d" using lp by (simp add: amt_of_sum)
    also have "supply_of s2 d = supply_of s d"
      using st GetModuleAccount_frame(2) [OF g] by (simp add: bank_step_def supply_of_def)
    finally show ?thesis .
  qed
  then show "supply_of t d = supply_of s d + amt_of amt d" .
  have "bank_wf s3" using bank_step_wf [OF st] lp by (simp add: bank_wf_def)
  then have "bank_wf t" by (subst t) (simp add: bank_wf_def)
  moreover have "supply_of t d = total_of t d" for d
    using inv st GetModuleAccount_bank(2) [OF g] by (simp add: bank_step_def bank_inv_def sup same)
  ultimately show "bank_inv t" by (simp add: bank_inv_def)
qed

lemma BurnCoins_inv:
  assumes L: "int_laws E" and A: "addr_laws E" and inv: "bank_inv s"
    and run: "BurnCoins E C m amt s = (Ret u, t)"
  shows "bank_inv t"
    and "VerifyAddressFormat a \<Longrightarrow>
      balance_of t a d = balance_of s a d - (if a = NewModuleAddress E m then amt_of amt d else 0)"
    and "supply_of t d = supply_of s d - amt_of amt d"
proof -
  define step where "step = (\<lambda>c. gbind (GetSupply (c_denom c)) (\<lambda>supply.
             gbind (gopt_panic ''Sub'' (coin_Sub E supply c)) setSupply))"
  obtain ps s1 where g: "GetModuleAccount E m s = (Ret (Some (NewModuleAddress E m, ps)), s1)"
    and rest: "(if ''burner'' \<notin> set ps then gpanic ''no permission to burn''
         else gbind (subUnlockedCoins E C (NewModuleAddress E m) amt) (\<lambda>_. gbind (gfor amt step) (\<lambda>_.
           EmitEvent ''burn'' [(''burner'', AStr (acc_String E (NewModuleAddress E m))), (''amount'', ACoins amt)]))) s1
         = (Ret u, t)"
    using run unfolding BurnCoins_def step_def [symmetric] by (rule GetModuleAccount_bind)
  obtain s2 s3 where sub: "subUnlockedCoins E C (NewModuleAddress E m) amt s1 = (Ret (), s2)"
    and loop: "gfor amt step s2 = (Ret (), s3)" and t: "t = s3\<lparr>evs := evs t\<rparr>"
    using rest by (auto simp: EmitEvent_def go_iffs split: if_splits)
  have wf: "bank_wf s1" using inv GetModuleAccount_bank(3) [OF g] by (simp add: bank_inv_def)
  note st = subUnlockedCoins_step [OF L wf NewModuleAddress_ok [OF A] sub]
  have body: "bk_balances t = bk_balances s \<and> bk_index t = bk_index s \<and> ac_accounts t = ac_accounts s
      \<and> (kv_inv (bk_supply s) \<longrightarrow> kv_inv (bk_supply t))
      \<and> (\<forall>d. supply_of t d = supply_of s d + (if d = c_denom c then - c_amount c else 0))"
    if "step c s = (Ret u, t)" for c s t u
    using that setSupply_run
    by (fastforce simp: step_def GetSupply_def go_iffs coin_Sub_Some [OF L] supply_of_def kv_at_def)
  note lp = supply_loop [where g = uminus, OF body loop]
  have same: "balance_of t a d = balance_of s2 a d" "total_of t d = total_of s2 d" for a d
    using lp balance_of_cong [of s3 s2] total_of_cong [of s3 s2] by (subst t, simp)+
  show bal: "VerifyAddressFormat a \<Longrightarrow>
      balance_of t a d = balance_of s a d - (if a = NewModuleAddress E m then amt_of amt d else 0)" for a d
    using st GetModuleAccount_bank [OF g] by (simp add: bank_step_def same)
  have sup: "supply_of t d = supply_of s d - amt_of amt d" for d
  proof -
    have "supply_of t d = supply_of s3 d" by (subst t) (simp add: supply_of_def)
    also have "\<dots> = supply_of s2 d - amt_of amt d" using lp by (simp add: amt_of_sum)
    also have "supply_of s2 d = supply_of s d"
      using st GetModuleAccount_frame(2) [OF g] by (simp add: bank_step_def supply_of_def)
    finally show ?thesis .
  qed
  then show "supply_of t d = supply_of s d - amt_of amt d" .
  have "bank_wf s3" using bank_step_wf [OF st] lp by (simp add: bank_wf_def)
  then have "bank_wf t" by (subst t) (simp add: bank_wf_def)
  moreover have "supply_of t d = total_of t d" for d
    using inv st GetModuleAccount_bank(2) [OF g] by (simp add: bank_step_def bank_inv_def sup same)
  ultimately show "bank_inv t" by (simp add: bank_inv_def)
qed

subsection \<open>When a transfer succeeds\<close>

lemma setBalance_run:
  assumes "VerifyAddressFormat a" "coin_IsValid c"
  shows "\<exists>t. setBalance a c s = (Ret (), t) \<and> ac_accounts t = ac_accounts s"
  using assms by (simp add: setBalance_def go_simps balance_key_ok index_key_ok)

lemma subUnlockedCoin_run:
  assumes L: "int_laws E" and wf: "bank_wf s" and a: "VerifyAddressFormat a" and d: "ValidateDenom (c_denom c)"
    and amt: "0 < c_amount c" "c_amount c \<le> balance_of s a (c_denom c)"
  shows "\<exists>t. subUnlockedCoin E [] a c s = (Ret (), t) \<and> ac_accounts t = ac_accounts s"
proof -
  let ?d = "c_denom c" and ?b = "balance_of s a (c_denom c)"
  have c: "c = \<lparr>c_denom = ?d, c_amount = c_amount c\<rparr>" by simp
  have fits: "int_fits ?b" "int_fits 0" "int_fits (?b - 0)" "int_fits (c_amount c)" "int_fits (?b - c_amount c)"
    using balance_of_range [OF wf, of a ?d] amt by (auto simp: int_fits_def)
  have "AmountOf [] ?d = Some 0"
    using d by (simp add: AmountOf_def AmountOfNoDenomValidation_def coins_Find.simps)
  moreover have "NewCoin ?d 0 = Some \<lparr>c_denom = ?d, c_amount = 0\<rparr>" using d by (simp add: NewCoin_Some)
  moreover have "coins_SafeSub E [\<lparr>c_denom = ?d, c_amount = ?b\<rparr>] [\<lparr>c_denom = ?d, c_amount = 0\<rparr>] = Some (one_coin ?d ?b, False)"
    using SafeSub_one(1) [OF L d, of 0 ?b] fits balance_of_range(1) [OF wf, of a ?d] by simp
  moreover have "coins_SafeSub E (one_coin ?d ?b) [c] = Some (one_coin ?d (?b - c_amount c), False)"
    using SafeSub_one(2) [OF L d, of "c_amount c" ?b] fits amt by (subst c) simp
  moreover have "coin_Sub E \<lparr>c_denom = ?d, c_amount = ?b\<rparr> c = Some \<lparr>c_denom = ?d, c_amount = ?b - c_amount c\<rparr>"
    using amt fits by (simp add: coin_Sub_Some [OF L])
  ultimately show ?thesis
    using setBalance_run [OF a, of "\<lparr>c_denom = ?d, c_amount = ?b - c_amount c\<rparr>" s] amt d
    by (simp add: subUnlockedCoin_def GetBalance_eval [OF wf a d] go_simps coin_IsValid_def)
qed

lemma SendCoins_run:
  assumes L: "int_laws E" and wf: "bank_wf s"
    and ad: "VerifyAddressFormat from" "VerifyAddressFormat to" "from \<noteq> to"
    and d: "ValidateDenom d" and amt: "0 < n" "n \<le> balance_of s from d" and fits: "int_fits (balance_of s to d + n)"
    and acc: "\<forall>f k. kv_get (ac_accounts s) from \<noteq> Some (VestingAccount f k)"
  shows "\<exists>t. SendCoins E C from to [\<lparr>c_denom = d, c_amount = n\<rparr>] s = (Ret (), t)"
proof -
  let ?c = "\<lparr>c_denom = d, c_amount = n\<rparr>"
  obtain s1 where s1: "subUnlockedCoin E [] from ?c s = (Ret (), s1)"
    using subUnlockedCoin_run [OF L wf ad(1), of ?c] d amt by auto
  note st = subUnlockedCoin_step(1) [OF L wf ad(1) _ s1]
  have wf1: "bank_wf s1" and b1: "balance_of s1 to d = balance_of s to d"
    using st d ad by (simp_all add: bank_step_def)
  define s1' where "s1' = s1\<lparr>evs := evs s1 @ [Event ''coin_spent'' [(''spender'', AStr (acc_String E from)), (''amount'', ACoins [?c])]]\<rparr>"
  have wf1': "bank_wf s1'" and b1': "balance_of s1' to d = balance_of s to d"
    using wf1 b1 by (simp_all add: s1'_def bank_wf_def)
  have "LockedCoins C from s = (Ret [], s)"
    using acc by (auto simp: LockedCoins_def go_simps split: option.splits account.splits)
  then have sub: "subUnlockedCoins E C from [?c] s = (Ret (), s1')"
    using d amt s1 by (simp add: subUnlockedCoins_def EmitEvent_def go_simps s1'_def)
  have "coin_Add E \<lparr>c_denom = d, c_amount = balance_of s to d\<rparr> ?c = Some \<lparr>c_denom = d, c_amount = balance_of s to d + n\<rparr>"
    using fits by (simp add: coin_Add_Some [OF L])
  then obtain s2 where "addCoin E to ?c s1' = (Ret (), s2)"
    using setBalance_run [OF ad(2), of "\<lparr>c_denom = d, c_amount = balance_of s to d + n\<rparr>" s1'] d amt
      balance_of_range(1) [OF wf, of to d]
    by (auto simp: addCoin_def GetBalance_eval [OF wf1' ad(2)] b1' go_simps coin_IsValid_def)
  then have add: "\<exists>s2. addCoins E to [?c] s1' = (Ret (), s2)"
    using d amt by (simp add: addCoins_def EmitEvent_def go_simps)
  then show ?thesis
    by (auto simp: SendCoins_def sub HasAccount_def NewAccountWithAddress_def NextAccountNumber_def SetAccount_def
        EmitEvent_def go_simps)
qed

subsection \<open>The contract the modules rely on\<close>

text \<open>
  What a module that escrows coins in its account needs of the bank: transfers to and
  from a module account move exactly the given amounts. The lemmas say what becomes of
  the coverage of a liability \<open>tot\<close> by the escrow account.
\<close>

locale bank_keeper =
  fixes ok :: "'b \<Rightarrow> bool"
    and bal :: "'b \<Rightarrow> addr \<Rightarrow> denom \<Rightarrow> int"
    and module_addr :: "string \<Rightarrow> addr"
    and to_module :: "addr \<Rightarrow> string \<Rightarrow> coins \<Rightarrow> ('b, err, unit) go"
    and from_module :: "string \<Rightarrow> addr \<Rightarrow> coins \<Rightarrow> ('b, err, unit) go"
  assumes module_ok: "ok b \<Longrightarrow> VerifyAddressFormat (module_addr m)"
    and to_module: "ok b \<Longrightarrow> VerifyAddressFormat a \<Longrightarrow> to_module a m amt b = (Ret u, b') \<Longrightarrow>
      ok b' \<and> (\<forall>x d. VerifyAddressFormat x \<longrightarrow> bal b' x d =
        bal b x d - (if x = a then amt_of amt d else 0) + (if x = module_addr m then amt_of amt d else 0))"
    and from_module: "ok b \<Longrightarrow> VerifyAddressFormat a \<Longrightarrow> from_module m a amt b = (Ret u, b') \<Longrightarrow>
      ok b' \<and> (\<forall>x d. VerifyAddressFormat x \<longrightarrow> bal b' x d =
        bal b x d - (if x = module_addr m then amt_of amt d else 0) + (if x = a then amt_of amt d else 0))"
begin

definition covers :: "string \<Rightarrow> (denom \<Rightarrow> int) \<Rightarrow> 'b \<Rightarrow> bool" where
  "covers m tot b \<longleftrightarrow> (\<forall>d. tot d \<le> bal b (module_addr m) d)"

lemma deposit_covers:
  assumes "ok b" "VerifyAddressFormat a" "a \<noteq> module_addr m" "covers m tot b" "to_module a m amt b = (Ret u, b')"
  shows "covers m (\<lambda>d. tot d + amt_of amt d) b'"
  using assms(3,4) to_module [OF assms(1,2,5)] module_ok [OF assms(1), of m] by (auto simp: covers_def)

lemma withdraw_covers:
  assumes "ok b" "VerifyAddressFormat a" "a \<noteq> module_addr m" "covers m tot b" "from_module m a amt b = (Ret u, b')"
  shows "covers m (\<lambda>d. tot d - amt_of amt d) b'"
  using assms(3,4) from_module [OF assms(1,2,5)] module_ok [OF assms(1), of m] by (auto simp: covers_def)

lemma other_module_covers:
  assumes "ok b" "VerifyAddressFormat a" "a \<noteq> module_addr m" "module_addr m' \<noteq> module_addr m" "covers m tot b"
  shows "to_module a m' amt b = (Ret u, b') \<Longrightarrow> covers m tot b'"
    and "from_module m' a amt b = (Ret u, b') \<Longrightarrow> covers m tot b'"
  using assms to_module [OF assms(1,2), of m' amt u b'] from_module [OF assms(1,2), of m' amt u b']
    module_ok [OF assms(1), of m]
  by (auto simp: covers_def)

end

definition bank_ok :: "env \<Rightarrow> base \<Rightarrow> bool" where
  "bank_ok E b \<longleftrightarrow> int_laws E \<and> addr_laws E \<and> bank_wf b"

interpretation bk: bank_keeper "bank_ok E" balance_of "NewModuleAddress E"
  "SendCoinsFromAccountToModule E C" "SendCoinsFromModuleToAccount E C" for E C
proof unfold_locales
  fix b m assume "bank_ok E b"
  then show "VerifyAddressFormat (NewModuleAddress E m)" by (simp add: bank_ok_def NewModuleAddress_ok)
next
  fix b a m amt u b'
  assume "bank_ok E b" "VerifyAddressFormat a" "SendCoinsFromAccountToModule E C a m amt b = (Ret u, b')"
  then show "bank_ok E b' \<and> (\<forall>x d. VerifyAddressFormat x \<longrightarrow> balance_of b' x d =
      balance_of b x d - (if x = a then amt_of amt d else 0) + (if x = NewModuleAddress E m then amt_of amt d else 0))"
    using SendCoinsFromAccountToModule_moves by (auto simp: bank_ok_def bank_moves_def)
next
  fix b a m amt u b'
  assume "bank_ok E b" "VerifyAddressFormat a" "SendCoinsFromModuleToAccount E C m a amt b = (Ret u, b')"
  then show "bank_ok E b' \<and> (\<forall>x d. VerifyAddressFormat x \<longrightarrow> balance_of b' x d =
      balance_of b x d - (if x = NewModuleAddress E m then amt_of amt d else 0) + (if x = a then amt_of amt d else 0))"
    using SendCoinsFromModuleToAccount_moves(1) by (auto simp: bank_ok_def bank_moves_def)
qed

subsection \<open>Sequences of bank calls\<close>

datatype bank_call =
    CallSend addr addr coins
  | CallToModule addr string coins
  | CallFromModule string addr coins
  | CallMint string coins
  | CallBurn string coins

fun bank_exec :: "env \<Rightarrow> ctx \<Rightarrow> bank_call \<Rightarrow> unit base_op" where
  "bank_exec E C (CallSend f t amt) = SendCoins E C f t amt"
| "bank_exec E C (CallToModule f m amt) = SendCoinsFromAccountToModule E C f m amt"
| "bank_exec E C (CallFromModule m t amt) = SendCoinsFromModuleToAccount E C m t amt"
| "bank_exec E C (CallMint m amt) = MintCoins E m amt"
| "bank_exec E C (CallBurn m amt) = BurnCoins E C m amt"

fun bank_call_ok :: "bank_call \<Rightarrow> bool" where
  "bank_call_ok (CallSend f t amt) = (VerifyAddressFormat f \<and> VerifyAddressFormat t)"
| "bank_call_ok (CallToModule f m amt) = VerifyAddressFormat f"
| "bank_call_ok (CallFromModule m t amt) = VerifyAddressFormat t"
| "bank_call_ok (CallMint m amt) = True"
| "bank_call_ok (CallBurn m amt) = True"

definition bank_run :: "env \<Rightarrow> ctx \<Rightarrow> bank_call list \<Rightarrow> base \<Rightarrow> base" where
  "bank_run E C calls s = fold (\<lambda>c s. snd (run_tx (bank_exec E C c) s)) calls s"

lemma bank_exec_inv:
  assumes "int_laws E" "addr_laws E" "bank_inv s" "bank_call_ok c" "bank_exec E C c s = (Ret u, t)"
  shows "bank_inv t"
proof -
  have wf: "bank_wf s" using assms(3) by (simp add: bank_inv_def)
  show ?thesis
  proof (cases c)
    case (CallSend f t' amt)
    then show ?thesis using assms bank_moves_inv SendCoins_moves [OF assms(1) wf] by fastforce
  next
    case (CallToModule f m amt)
    then show ?thesis
      using assms bank_moves_inv SendCoinsFromAccountToModule_moves [OF assms(1,2) wf] by fastforce
  next
    case (CallFromModule m t' amt)
    then show ?thesis
      using assms bank_moves_inv SendCoinsFromModuleToAccount_moves(1) [OF assms(1,2) wf] by fastforce
  next
    case (CallMint m amt)
    then show ?thesis using assms MintCoins_inv(1) [OF assms(1-3)] by simp
  next
    case (CallBurn m amt)
    then show ?thesis using assms BurnCoins_inv(1) [OF assms(1-3)] by simp
  qed
qed

lemma base_empty_inv: "bank_inv base_empty"
  by (simp add: base_empty_def bank_inv_def bank_wf_def supply_of_def total_of_def kv_at_def kv_simps)

text \<open>
  C1. Supply conservation: whatever sequence of transfers, mints and burns is executed,
  each in its own transaction and each allowed to fail or panic, the recorded supply of
  every denomination stays the sum of all account balances of that denomination, and all
  balances stay positive and within 256 bits.
\<close>

theorem bank_supply_invariant:
  assumes "int_laws E" and "addr_laws E" and "bank_inv s" and "\<forall>c \<in> set calls. bank_call_ok c"
  shows "bank_inv (bank_run E C calls s)"
  using assms(3,4)
proof (induction calls arbitrary: s)
  case (Cons c calls)
  have "bank_inv (snd (run_tx (bank_exec E C c) s))"
    by (rule run_tx_keeps) (use Cons.prems bank_exec_inv [OF assms(1,2)] in auto)
  with Cons show ?case by (simp add: bank_run_def)
qed (simp add: bank_run_def)

theorem bank_supply_invariant_witness:
  "bank_inv (bank_run env0 \<lparr>block_height = 1, block_time = 0\<rparr>
     [CallMint ''stablecoin_mint'' [\<lparr>c_denom = ''zytd'', c_amount = 5\<rparr>],
      CallFromModule ''stablecoin_mint'' ''alice'' [\<lparr>c_denom = ''zytd'', c_amount = 2\<rparr>],
      CallBurn ''stablecoin_mint'' [\<lparr>c_denom = ''zytd'', c_amount = 1\<rparr>]] base_empty)"
  by (rule bank_supply_invariant [OF env0_int_laws env0_addr_laws base_empty_inv])
    (simp add: VerifyAddressFormat_def MaxAddrLen_def)

text \<open>
  C2. A transfer of one coin between two distinct non-vesting accounts succeeds exactly
  when the sender's balance covers it; it then moves that amount from one balance to the
  other and changes no other balance, no total and no supply.
\<close>

theorem SendCoins_exact:
  assumes "int_laws E" and "bank_wf s"
    and "VerifyAddressFormat from" and "VerifyAddressFormat to" and "from \<noteq> to"
    and "ValidateDenom d" and "0 < n" and "int_fits (balance_of s to d + n)"
    and "\<forall>f k. kv_get (ac_accounts s) from \<noteq> Some (VestingAccount f k)"
  shows "if n \<le> balance_of s from d
    then \<exists>t. SendCoins E C from to [\<lparr>c_denom = d, c_amount = n\<rparr>] s = (Ret (), t)
          \<and> bank_moves s t from to (\<lambda>d'. if d' = d then n else 0)
    else \<nexists>t. SendCoins E C from to [\<lparr>c_denom = d, c_amount = n\<rparr>] s = (Ret (), t)"
proof -
  let ?c = "\<lparr>c_denom = d, c_amount = n\<rparr>"
  have amt: "amt_of [?c] = (\<lambda>d'. if d' = d then n else 0)" by (simp add: fun_eq_iff)
  have moves: "bank_moves s t from to (\<lambda>d'. if d' = d then n else 0)"
    if "SendCoins E C from to [?c] s = (Ret (), t)" for t
    using SendCoins_moves [OF assms(1-4) that] by (simp only: amt)
  have "n \<le> balance_of s from d" if run: "SendCoins E C from to [?c] s = (Ret (), t)" for t
  proof -
    have "balance_of t from d = balance_of s from d - n"
      using moves [OF run] assms(3,5) by (simp add: bank_moves_def)
    moreover have "0 \<le> balance_of t from d"
      using moves [OF run] balance_of_range(1) by (simp add: bank_moves_def)
    ultimately show ?thesis by simp
  qed
  with moves show ?thesis
    using SendCoins_run [OF assms(1-7) _ assms(8,9), of C] by fastforce
qed

definition bank_example :: base where
  "bank_example = base_empty\<lparr>
     bk_balances := [(CHR 0x05 # ''aliceuzytc'', 10)],
     bk_index := [(''uzytc'' @ [CHR 0x00, CHR 0x05] @ ''alice'', ())],
     bk_supply := [(''uzytc'', 10)],
     ac_accounts := [(''alice'', BaseAccount 0)], ac_next := 1\<rparr>"

lemma bank_example_wf: "bank_wf bank_example"
  by (simp add: bank_example_def base_empty_def bank_wf_def kv_inv_def int_fits_def)

lemma bank_example_balance:
  "balance_of bank_example ''alice'' ''uzytc'' = 10" "balance_of bank_example ''bob'' ''uzytc'' = 0"
  by code_simp+

lemma bank_example_alice: "kv_get (ac_accounts bank_example) ''alice'' = Some (BaseAccount 0)"
  by (simp add: bank_example_def base_empty_def kv_get_def)

theorem SendCoins_exact_witness:
  "\<exists>t. SendCoins env0 \<lparr>block_height = 1, block_time = 0\<rparr> ''alice'' ''bob''
       [\<lparr>c_denom = ''uzytc'', c_amount = 4\<rparr>] bank_example = (Ret (), t)
     \<and> bank_moves bank_example t ''alice'' ''bob'' (\<lambda>d. if d = ''uzytc'' then 4 else 0)"
  using SendCoins_exact [OF env0_int_laws bank_example_wf, of "''alice''" "''bob''" "''uzytc''" 4]
  by (simp add: bank_example_balance VerifyAddressFormat_def MaxAddrLen_def int_fits_def is_letter_def
      is_denom_char_def bank_example_alice)

end
