(* ===== verification/Chain.thy ===== *)
theory Chain
  imports Bank
begin

section \<open>The state of the chain\<close>

text \<open>
  The data of the three DeFi modules with the fields of their Go structs, the values
  their stores hold, and the record \<open>chain\<close>: the bank and account state with the events
  (\<open>base\<close>), one store per module, and the view of the staking keeper the oracle reads.
  A module's store holds JSON documents; here it holds the values themselves, one
  constructor per document type. A document read at a key where another type is stored is
  a failed unmarshal.

  \<open>on_base\<close>, \<open>on_oracle\<close>, \<open>on_coll\<close> and \<open>on_sc\<close> run an operation of one part
  inside the chain.
\<close>

subsection \<open>x/oracle\<close>

record PriceEntry =
  pe_Denom :: denom
  pe_PriceUSD :: "int option"
  pe_Submitter :: string
  pe_Height :: int
  pe_Timestamp :: int

record TWAPData =
  tw_Denom :: denom
  tw_TWAP :: "int option"
  tw_WindowStart :: int
  tw_WindowEnd :: int
  tw_NumSamples :: int

record OracleParams =
  TwapWindowBlocks :: int
  MinSubmissions :: int
  MaxPriceAge :: int
  WhitelistedDenoms :: "denom list"

datatype oval = OPrice PriceEntry | OTwap TWAPData | OParams OracleParams

subsection \<open>x/ibc-collateral\<close>

record CollateralAsset =
  ca_IBCDenom :: denom
  ca_BaseDenom :: denom
  ca_MinRatio :: "int option"
  ca_LiquidationThreshold :: "int option"
  ca_IsActive :: bool

record CollateralPosition =
  cp_Owner :: string
  cp_IBCDenom :: denom
  cp_Amount :: int
  cp_LockedAt :: int
  cp_MintedZYTD :: int

datatype cval = CAsset CollateralAsset | CPos CollateralPosition | CLocked int

subsection \<open>x/stablecoin\<close>

record StablecoinParams =
  sp_ZYTDDenom :: denom
  sp_StabilityFeePerYear :: int
  sp_LiquidationPenalty :: int
  sp_LiquidatorReward :: int
  sp_ProtocolFeeReceiver :: string

record MintRecord =
  mr_Owner :: string
  mr_IBCDenom :: denom
  mr_Minted :: int
  mr_CollateralUSD :: int
  mr_MintedAt :: int

record ZYTDAccountState =
  za_EncryptedBalance :: string
  za_PublicCreditLimit :: "64 word"
  za_LastUpdatedBlock :: int
  za_SizeBytes :: int

datatype sval =
    SMint MintRecord | SSupply int | SParams StablecoinParams
  | SKey string | SAcct ZYTDAccountState | STfheKey string

subsection \<open>The chain\<close>

text \<open>
  What the oracle reads of \<open>x/staking\<close>: the operators of all validators, and of the
  bonded ones in the order of their power.
\<close>

record staking_view =
  sv_validators :: "addr list"
  sv_bonded_by_power :: "addr list"

record chain =
  base :: base
  oracle_store :: "oval kv"
  coll_store :: "cval kv"
  sc_store :: "sval kv"
  staking :: staking_view

type_synonym 'a chain_op = "(chain, err, 'a) go"

definition on_base :: "'a base_op \<Rightarrow> 'a chain_op" where
  "on_base m = (\<lambda>s. let (r, b) = m (base s) in (r, s\<lparr>base := b\<rparr>))"

definition on_oracle :: "(oval kv, err, 'a) go \<Rightarrow> 'a chain_op" where
  "on_oracle m = (\<lambda>s. let (r, b) = m (oracle_store s) in (r, s\<lparr>oracle_store := b\<rparr>))"

definition on_coll :: "(cval kv, err, 'a) go \<Rightarrow> 'a chain_op" where
  "on_coll m = (\<lambda>s. let (r, b) = m (coll_store s) in (r, s\<lparr>coll_store := b\<rparr>))"

definition on_sc :: "(sval kv, err, 'a) go \<Rightarrow> 'a chain_op" where
  "on_sc m = (\<lambda>s. let (r, b) = m (sc_store s) in (r, s\<lparr>sc_store := b\<rparr>))"

lemma on_Ret [go_iffs]:
  "on_base m s = (Ret a, t) \<longleftrightarrow> (\<exists>b. m (base s) = (Ret a, b) \<and> t = s\<lparr>base := b\<rparr>)"
  "on_oracle m1 s = (Ret a, t) \<longleftrightarrow> (\<exists>b. m1 (oracle_store s) = (Ret a, b) \<and> t = s\<lparr>oracle_store := b\<rparr>)"
  "on_coll m2 s = (Ret a, t) \<longleftrightarrow> (\<exists>b. m2 (coll_store s) = (Ret a, b) \<and> t = s\<lparr>coll_store := b\<rparr>)"
  "on_sc m3 s = (Ret a, t) \<longleftrightarrow> (\<exists>b. m3 (sc_store s) = (Ret a, b) \<and> t = s\<lparr>sc_store := b\<rparr>)"
  by (auto simp: on_base_def on_oracle_def on_coll_def on_sc_def split: prod.splits)

lemma on_eval [go_simps]:
  "m (base s) = (r, b) \<Longrightarrow> on_base m s = (r, s\<lparr>base := b\<rparr>)"
  "m1 (oracle_store s) = (r, b1) \<Longrightarrow> on_oracle m1 s = (r, s\<lparr>oracle_store := b1\<rparr>)"
  "m2 (coll_store s) = (r, b2) \<Longrightarrow> on_coll m2 s = (r, s\<lparr>coll_store := b2\<rparr>)"
  "m3 (sc_store s) = (r, b3) \<Longrightarrow> on_sc m3 s = (r, s\<lparr>sc_store := b3\<rparr>)"
  by (simp_all add: on_base_def on_oracle_def on_coll_def on_sc_def)

definition emit :: "string \<Rightarrow> (string \<times> attr) list \<Rightarrow> unit chain_op" where
  "emit ty as = on_base (EmitEvent ty as)"

lemma emit_eval [go_simps]:
  "emit ty as s = (Ret (), s\<lparr>base := (base s)\<lparr>evs := evs (base s) @ [Event ty as]\<rparr>\<rparr>)"
  by (simp add: emit_def EmitEvent_def go_simps)

lemma emit_Ret [go_iffs]:
  "emit ty as s = (Ret u, t) \<longleftrightarrow> t = s\<lparr>base := (base s)\<lparr>evs := evs (base s) @ [Event ty as]\<rparr>\<rparr>"
  by (auto simp: emit_eval)

end
