(* ===== verification/Oracle.thy ===== *)
theory Oracle
  imports Chain
begin

section \<open>x/oracle\<close>

text \<open>
  The price feed: bonded validators submit prices for whitelisted denominations, the
  median of the entries in a window of blocks is cached as the TWAP, old entries are
  pruned. Follows \<open>x/oracle/keeper/keeper.go\<close>, \<open>msg_server.go\<close>, \<open>query_server.go\<close>,
  \<open>module.go\<close> and \<open>types\<close>.
\<close>

type_synonym 'a oracle_op = "(oval kv, err, 'a) go"

subsection \<open>Parameters\<close>

definition DefaultOracleParams :: OracleParams where
  "DefaultOracleParams = \<lparr>TwapWindowBlocks = 30, MinSubmissions = 2, MaxPriceAge = 5,
     WhitelistedDenoms = [''ZYTC'', ''axlUSDC'', ''mUSDT'', ''ATOM'', ''wBTC'', ''wETH'']\<rparr>"

definition oracle_GetParams :: "oval kv \<Rightarrow> OracleParams" where
  "oracle_GetParams st = (case kv_get st ''oracle_params'' of
     Some (OParams p) \<Rightarrow> p
   | _ \<Rightarrow> DefaultOracleParams)"

definition oracle_SetParams :: "OracleParams \<Rightarrow> oval kv \<Rightarrow> oval kv" where
  "oracle_SetParams p st = kv_set ''oracle_params'' (OParams p) st"

subsection \<open>Prices\<close>

definition priceKey :: "denom \<Rightarrow> int \<Rightarrow> string" where
  "priceKey d h = ''price/'' @ d @ ''/'' @ int_dec h"

definition SetPrice :: "PriceEntry \<Rightarrow> oval kv \<Rightarrow> oval kv" where
  "SetPrice e st = kv_set (priceKey (pe_Denom e) (pe_Height e)) (OPrice e) st"

text \<open>the entries an iterator over a prefix yields, documents that do not unmarshal skipped\<close>

fun price_values :: "oval kv \<Rightarrow> PriceEntry list" where
  "price_values [] = []"
| "price_values ((k, OPrice e) # r) = e # price_values r"
| "price_values ((k, OTwap _) # r) = price_values r"
| "price_values ((k, OParams _) # r) = price_values r"

definition denom_entries :: "oval kv \<Rightarrow> denom \<Rightarrow> PriceEntry list" where
  "denom_entries st d = price_values (kv_prefix_iterator st (''price/'' @ d @ ''/''))"

fun latest_loop :: "PriceEntry list \<Rightarrow> PriceEntry option \<Rightarrow> PriceEntry option" where
  "latest_loop [] latest = latest"
| "latest_loop (e # es) latest =
     (case latest of
        None \<Rightarrow> latest_loop es (Some e)
      | Some l \<Rightarrow> latest_loop es (Some (if pe_Height e > pe_Height l then e else l)))"

definition GetLatestPrice :: "oval kv \<Rightarrow> denom \<Rightarrow> PriceEntry option" where
  "GetLatestPrice st d = latest_loop (denom_entries st d) None"

definition GetPriceHistory :: "oval kv \<Rightarrow> denom \<Rightarrow> int \<Rightarrow> PriceEntry list" where
  "GetPriceHistory st d fromHeight = filter (\<lambda>e. fromHeight \<le> pe_Height e) (denom_entries st d)"

subsection \<open>TWAP\<close>

definition windowStart :: "ctx \<Rightarrow> OracleParams \<Rightarrow> int" where
  "windowStart C p = (let w = i64 (block_height C - TwapWindowBlocks p) in if w < 0 then 0 else w)"

text \<open>
  Sorting with \<open>PriceUSD.LT\<close> compares every element as soon as there are two, and
  comparing a nil \<open>Dec\<close> panics; the even case indexes \<open>n/2 - 1\<close>, which is out of range
  for an empty slice.
\<close>

definition median_price :: "env \<Rightarrow> PriceEntry list \<Rightarrow> int option oracle_op" where
  "median_price E es =
     (if 2 \<le> length es \<and> list_ex (\<lambda>e. pe_PriceUSD e = None) es then gpanic ''nil Dec''
      else if odd (length es) then
        (let ps = sort (map (\<lambda>e. the (pe_PriceUSD e)) es) in
         gret (if length es = 1 then pe_PriceUSD (es ! 0) else Some (ps ! (length es div 2))))
      else if es = [] then gpanic ''index out of range''
      else
        (let ps = sort (map (\<lambda>e. the (pe_PriceUSD e)) es); n = length es in
         gbind (gopt_panic ''Add'' (dec_add E (ps ! (n div 2 - 1)) (ps ! (n div 2)))) (\<lambda>m.
         gbind (gopt_panic ''Quo'' (dec_quo E m (dec_of_int E 2))) (\<lambda>q. gret (Some q)))))"

definition ComputeTWAP :: "env \<Rightarrow> ctx \<Rightarrow> denom \<Rightarrow> TWAPData oracle_op" where
  "ComputeTWAP E C d =
     gbind (gget oracle_GetParams) (\<lambda>p.
     gbind (gget (\<lambda>st. GetPriceHistory st d (windowStart C p))) (\<lambda>es.
     gbind (gfail_if (int (length es) < MinSubmissions p) ErrInsufficientSubmissions) (\<lambda>_.
     gbind (median_price E es) (\<lambda>m.
     gret \<lparr>tw_Denom = d, tw_TWAP = m, tw_WindowStart = windowStart C p,
           tw_WindowEnd = block_height C, tw_NumSamples = int (length es)\<rparr>))))"

definition twapKey :: "denom \<Rightarrow> string" where
  "twapKey d = ''twap/'' @ d"

definition GetTWAP :: "oval kv \<Rightarrow> denom \<Rightarrow> err + TWAPData" where
  "GetTWAP st d = (case kv_get st (twapKey d) of
     None \<Rightarrow> Inl (Errorf ''no TWAP found'')
   | Some (OTwap t) \<Rightarrow> Inr t
   | Some _ \<Rightarrow> Inl (Errorf ''oracle: failed to unmarshal TWAP''))"

definition SetTWAP :: "TWAPData \<Rightarrow> oval kv \<Rightarrow> oval kv" where
  "SetTWAP t st = kv_set (twapKey (tw_Denom t)) (OTwap t) st"

subsection \<open>Pruning\<close>

fun prune_keys :: "int \<Rightarrow> oval kv \<Rightarrow> string list" where
  "prune_keys cutoff [] = []"
| "prune_keys cutoff ((k, v) # r) = (case v of
     OPrice e \<Rightarrow> if pe_Height e < cutoff then k # prune_keys cutoff r else prune_keys cutoff r
   | _ \<Rightarrow> prune_keys cutoff r)"

definition prune_cutoff :: "OracleParams \<Rightarrow> int \<Rightarrow> int" where
  "prune_cutoff p h = i64 (i64 (h - TwapWindowBlocks p) - MaxPriceAge p)"

definition PruneOldPrices :: "int \<Rightarrow> oval kv \<Rightarrow> oval kv" where
  "PruneOldPrices h st =
     (let cutoff = prune_cutoff (oracle_GetParams st) h in
      if cutoff \<le> 0 then st
      else fold kv_delete (prune_keys cutoff (kv_prefix_iterator st ''price/'')) st)"

subsection \<open>Who may submit\<close>

definition to_lower :: "char \<Rightarrow> char" where
  "to_lower c = (if CHR ''A'' \<le> c \<and> c \<le> CHR ''Z'' then char_of (of_char c + 32 :: nat) else c)"

definition EqualFold :: "string \<Rightarrow> string \<Rightarrow> bool" where
  "EqualFold a b \<longleftrightarrow> map to_lower a = map to_lower b"

definition IsValidatorSubmitter :: "env \<Rightarrow> staking_view \<Rightarrow> addr \<Rightarrow> bool" where
  "IsValidatorSubmitter E sv a \<longleftrightarrow>
     a \<in> set (sv_validators sv) \<or>
     list_ex (\<lambda>op. EqualFold (acc_String E op) (acc_String E a)) (sv_bonded_by_power sv)"

subsection \<open>Messages\<close>

record MsgSubmitPrice =
  sp_Submitter :: string
  sp_Denom :: denom
  sp_PriceUsd :: "int option"

definition SubmitPrice_ValidateBasic :: "env \<Rightarrow> MsgSubmitPrice \<Rightarrow> err option" where
  "SubmitPrice_ValidateBasic E m =
     (if AccAddressFromBech32 E (sp_Submitter m) = None then Some (Errorf ''invalid submitter address'')
      else if sp_Denom m = [] then Some (Errorf ''denom cannot be empty'')
      else case sp_PriceUsd m of
        None \<Rightarrow> Some (Errorf ''price must be positive'')
      | Some p \<Rightarrow> if p \<le> 0 then Some (Errorf ''price must be positive'') else None)"

definition SubmitPrice :: "env \<Rightarrow> ctx \<Rightarrow> MsgSubmitPrice \<Rightarrow> unit chain_op" where
  "SubmitPrice E C m =
     gbind (gopt_err (Errorf ''invalid submitter address'') (AccAddressFromBech32 E (sp_Submitter m))) (\<lambda>submitter.
     gbind (gget staking) (\<lambda>sv.
     gbind (gfail_if (\<not> IsValidatorSubmitter E sv submitter) ErrUnauthorizedSubmitter) (\<lambda>_.
     gbind (gget (\<lambda>s. oracle_GetParams (oracle_store s))) (\<lambda>p.
     gbind (gfail_if (sp_Denom m \<notin> set (WhitelistedDenoms p)) ErrInvalidDenom) (\<lambda>_.
     gbind (gfail_if (block_height C > MaxPriceAge p \<and> sp_PriceUsd m = None) ErrPriceTooOld) (\<lambda>_.
     gbind (on_oracle (gmod (SetPrice \<lparr>pe_Denom = sp_Denom m, pe_PriceUSD = sp_PriceUsd m,
              pe_Submitter = sp_Submitter m, pe_Height = block_height C, pe_Timestamp = block_time C\<rparr>))) (\<lambda>_.
     gbind (gtry (on_oracle (ComputeTWAP E C (sp_Denom m)))) (\<lambda>r.
     gbind (case r of Inr twap \<Rightarrow> on_oracle (gmod (SetTWAP twap)) | Inl _ \<Rightarrow> gret ()) (\<lambda>_.
     gbind (on_oracle (gmod (PruneOldPrices (block_height C)))) (\<lambda>_.
     emit ''submit_price'' [(''denom'', AStr (sp_Denom m)), (''price'', ADec (sp_PriceUsd m)),
       (''submitter'', AStr (sp_Submitter m))]))))))))))"

subsection \<open>Block hooks, queries, genesis\<close>

definition oracle_BeginBlock :: "env \<Rightarrow> ctx \<Rightarrow> unit oracle_op" where
  "oracle_BeginBlock E C =
     gbind (gget oracle_GetParams) (\<lambda>p.
     gfor (WhitelistedDenoms p) (\<lambda>d.
       gbind (gtry (ComputeTWAP E C d)) (\<lambda>r.
       case r of Inl _ \<Rightarrow> gret () | Inr twap \<Rightarrow> gmod (SetTWAP twap))))"

definition oracle_EndBlock :: "ctx \<Rightarrow> unit oracle_op" where
  "oracle_EndBlock C = gmod (PruneOldPrices (block_height C))"

definition QueryPrice :: "denom \<Rightarrow> PriceEntry oracle_op" where
  "QueryPrice d =
     gbind (gfail_if (d = []) (Errorf ''denom cannot be empty'')) (\<lambda>_.
     gbind (gget (\<lambda>st. GetLatestPrice st d)) (gopt_err (Errorf ''no price found'')))"

definition QueryTWAP :: "env \<Rightarrow> ctx \<Rightarrow> denom \<Rightarrow> TWAPData oracle_op" where
  "QueryTWAP E C d =
     gbind (gfail_if (d = []) (Errorf ''denom cannot be empty'')) (\<lambda>_.
     gbind (gget (\<lambda>st. GetTWAP st d)) (\<lambda>r.
     gbind (case r of Inr t \<Rightarrow> gret t | Inl _ \<Rightarrow> ComputeTWAP E C d) (\<lambda>t.
     gret (t\<lparr>tw_NumSamples := signed_take_bit 31 (tw_NumSamples t)\<rparr>))))"

definition QueryAllPrices :: "denom \<Rightarrow> int \<Rightarrow> PriceEntry list oracle_op" where
  "QueryAllPrices d h =
     gbind (gfail_if (d = []) (Errorf ''denom cannot be empty'')) (\<lambda>_.
     gget (\<lambda>st. GetPriceHistory st d h))"

definition oracle_GenesisValidate :: "OracleParams \<Rightarrow> bool" where
  "oracle_GenesisValidate p \<longleftrightarrow> WhitelistedDenoms p \<noteq> []"

definition oracle_InitGenesis :: "OracleParams \<Rightarrow> oval kv \<Rightarrow> oval kv" where
  "oracle_InitGenesis p st = oracle_SetParams p st"

definition oracle_ExportGenesis :: "oval kv \<Rightarrow> OracleParams" where
  "oracle_ExportGenesis st = oracle_GetParams st"

subsection \<open>The median\<close>

definition is_median :: "int \<Rightarrow> int list \<Rightarrow> bool" where
  "is_median m xs \<longleftrightarrow>
     length xs \<le> 2 * length (filter (\<lambda>x. x \<le> m) xs) \<and> length xs \<le> 2 * length (filter (\<lambda>x. m \<le> x) xs)"

lemma is_median_sort: "is_median m (sort xs) \<longleftrightarrow> is_median m xs"
  by (simp add: is_median_def filter_sort [of _ "\<lambda>x. x", simplified])

lemma sorted_filter_le:
  assumes "sorted xs" "i < length xs" "xs ! i \<le> m"
  shows "Suc i \<le> length (filter (\<lambda>x. x \<le> m) xs)"
proof -
  have "\<forall>x \<in> set (take (Suc i) xs). x \<le> m"
  proof
    fix x assume "x \<in> set (take (Suc i) xs)"
    then obtain j where "j \<le> i" "x = xs ! j" using assms(2) by (auto simp: in_set_conv_nth less_Suc_eq_le)
    then show "x \<le> m" using sorted_nth_mono [OF assms(1) \<open>j \<le> i\<close> assms(2)] assms(3) by simp
  qed
  then have "filter (\<lambda>x. x \<le> m) (take (Suc i) xs) = take (Suc i) xs" by (simp add: filter_id_conv)
  then have "length (filter (\<lambda>x. x \<le> m) (take (Suc i) xs @ drop (Suc i) xs)) \<ge> Suc i"
    using assms(2) by (simp only: filter_append length_append) simp
  then show ?thesis by simp
qed

lemma sorted_filter_ge:
  assumes "sorted xs" "i < length xs" "m \<le> xs ! i"
  shows "length xs - i \<le> length (filter (\<lambda>x. m \<le> x) xs)"
proof -
  have "\<forall>x \<in> set (drop i xs). m \<le> x"
  proof
    fix x assume "x \<in> set (drop i xs)"
    then obtain j where j: "j < length xs - i" and x: "x = xs ! (i + j)" by (auto simp: in_set_conv_nth)
    have "i + j < length xs" using j by simp
    then show "m \<le> x" using sorted_nth_mono [OF assms(1) le_add1] assms(3) x by fastforce
  qed
  then have "filter (\<lambda>x. m \<le> x) (drop i xs) = drop i xs" by (simp add: filter_id_conv)
  then have "length (filter (\<lambda>x. m \<le> x) (take i xs @ drop i xs)) \<ge> length xs - i"
    by (simp only: filter_append length_append) simp
  then show ?thesis by simp
qed

lemma dec_half_between:
  assumes D: "dec_laws E" and ab: "a \<le> b" and "dec_add E a b = Some m" "dec_quo E m (dec_of_int E 2) = Some q"
  shows "a \<le> q \<and> q \<le> b"
proof -
  have m: "m = a + b" using D assms(3) by (auto simp: dec_laws_def)
  have "dec_of_int E 2 = 2 * dec_one" using D by (auto simp: dec_laws_def)
  then have near: "2 * dec_one * \<bar>q * (2 * dec_one) - m * dec_one\<bar> \<le> (dec_one + 2) * \<bar>2 * dec_one\<bar>"
    using D assms(4) unfolding dec_laws_def by metis
  have "q * (2 * dec_one) - m * dec_one = (2 * q - m) * dec_one" by (simp add: algebra_simps)
  then have "\<bar>q * (2 * dec_one) - m * dec_one\<bar> = \<bar>2 * q - m\<bar> * dec_one" by (simp only: abs_mult) (simp add: dec_one_def)
  with near have "2 * dec_one * (\<bar>2 * q - m\<bar> * dec_one) \<le> (dec_one + 2) * \<bar>2 * dec_one\<bar>" by (simp only:)
  moreover have "\<bar>2 * dec_one\<bar> = 2 * dec_one" by (simp add: dec_one_def)
  ultimately have "2 * dec_one * (\<bar>2 * q - m\<bar> * dec_one) \<le> (dec_one + 2) * (2 * dec_one)" by (simp only:)
  moreover have "k \<le> 1" if "2 * dec_one * (k * dec_one) \<le> (dec_one + 2) * (2 * dec_one)" for k :: int
    using that by (simp add: dec_one_def)
  ultimately have "\<bar>2 * q - m\<bar> \<le> 1" by blast
  with m ab show ?thesis by linarith
qed

lemma is_median_between:
  assumes "sorted xs" "xs \<noteq> []" "even (length xs)"
    and "xs ! (length xs div 2 - 1) \<le> q" "q \<le> xs ! (length xs div 2)"
  shows "is_median q xs"
proof -
  have n: "length xs div 2 < length xs" "length xs div 2 - 1 < length xs" "0 < length xs div 2"
    using assms(2,3) by (cases xs; cases "tl xs"; simp)+
  have "Suc (length xs div 2 - 1) \<le> length (filter (\<lambda>x. x \<le> q) xs)"
    by (rule sorted_filter_le [OF assms(1) n(2) assms(4)])
  moreover have "length xs - length xs div 2 \<le> length (filter (\<lambda>x. q \<le> x) xs)"
    by (rule sorted_filter_ge [OF assms(1) n(1) assms(5)])
  ultimately show ?thesis using n(3) assms(3) by (auto simp: is_median_def elim!: evenE)
qed

lemma is_median_odd:
  assumes "sorted xs" "odd (length xs)"
  shows "is_median (xs ! (length xs div 2)) xs"
proof -
  have n: "length xs div 2 < length xs" using assms(2) by (auto elim: oddE)
  show ?thesis
    using sorted_filter_le [OF assms(1) n order_refl] sorted_filter_ge [OF assms(1) n order_refl] assms(2)
    by (auto simp: is_median_def elim!: oddE)
qed

lemma median_price_correct:
  assumes D: "dec_laws E" and run: "median_price E es st = (Ret (Some m), st')"
    and some: "\<forall>e \<in> set es. pe_PriceUSD e \<noteq> None"
  shows "is_median m (map (\<lambda>e. the (pe_PriceUSD e)) es)" and "st' = st"
proof -
  let ?ps = "map (\<lambda>e. the (pe_PriceUSD e)) es"
  have nn: "\<not> list_ex (\<lambda>e. pe_PriceUSD e = None) es" using some by (auto simp: list_ex_iff)
  show "st' = st" using run nn by (auto simp: median_price_def Let_def go_iffs split: if_splits)
  show "is_median m ?ps"
  proof (cases "odd (length es)")
    case True
    have "m = sort ?ps ! (length es div 2)"
    proof (cases "length es = 1")
      case True
      then obtain e where "es = [e]" by (cases es) auto
      then show ?thesis using run by (simp add: median_price_def go_iffs) (metis option.sel)
    next
      case False
      then show ?thesis using run nn \<open>odd (length es)\<close> by (auto simp: median_price_def Let_def go_iffs)
    qed
    then show ?thesis
      using is_median_odd [of "sort ?ps"] True by (simp add: is_median_sort)
  next
    case False
    have ne: "es \<noteq> []" using run False by (auto simp: median_price_def go_iffs)
    obtain t where t: "dec_add E (sort ?ps ! (length es div 2 - 1)) (sort ?ps ! (length es div 2)) = Some t"
      "dec_quo E t (dec_of_int E 2) = Some m"
      using run nn False ne by (auto simp: median_price_def Let_def go_iffs)
    have "sort ?ps ! (length es div 2 - 1) \<le> sort ?ps ! (length es div 2)"
      by (rule sorted_nth_mono) (use ne False in \<open>auto elim: evenE\<close>)
    from dec_half_between [OF D this t]
    have "is_median m (sort ?ps)"
    proof -
      assume "sort ?ps ! (length es div 2 - 1) \<le> m \<and> m \<le> sort ?ps ! (length es div 2)"
      moreover have "sort ?ps \<noteq> []" using ne by (metis length_0_conv length_map length_sort)
      ultimately show ?thesis using is_median_between [of "sort ?ps" m] False by simp
    qed
    then show ?thesis by (simp add: is_median_sort)
  qed
qed

lemma is_median_majority:
  assumes "is_median m xs" "length xs < 2 * length (filter (\<lambda>x. lo \<le> x \<and> x \<le> hi) xs)"
  shows "lo \<le> m \<and> m \<le> hi"
proof -
  let ?in = "filter (\<lambda>x. lo \<le> x \<and> x \<le> hi) xs"
  have disj: "length (filter P xs) + length ?in \<le> length xs" if "\<And>x. P x \<Longrightarrow> \<not> (lo \<le> x \<and> x \<le> hi)" for P
  proof -
    have "length (filter P xs) \<le> length (filter (\<lambda>x. \<not> (lo \<le> x \<and> x \<le> hi)) xs)"
      using that by (induction xs) auto
    then show ?thesis using sum_length_filter_compl [of "\<lambda>x. lo \<le> x \<and> x \<le> hi" xs] by linarith
  qed
  have "lo \<le> m"
  proof (rule ccontr)
    assume "\<not> lo \<le> m"
    then have "length (filter (\<lambda>x. x \<le> m) xs) + length ?in \<le> length xs" by (intro disj) auto
    then show False using assms by (auto simp: is_median_def)
  qed
  moreover have "m \<le> hi"
  proof (rule ccontr)
    assume "\<not> m \<le> hi"
    then have "length (filter (\<lambda>x. m \<le> x) xs) + length ?in \<le> length xs" by (intro disj) auto
    then show False using assms by (auto simp: is_median_def)
  qed
  ultimately show ?thesis ..
qed

subsection \<open>Invariant of the oracle store\<close>

definition oval_key :: "oval \<Rightarrow> string" where
  "oval_key v = (case v of
     OPrice e \<Rightarrow> priceKey (pe_Denom e) (pe_Height e)
   | OTwap t \<Rightarrow> twapKey (tw_Denom t)
   | OParams _ \<Rightarrow> ''oracle_params'')"

definition oracle_inv :: "oval kv \<Rightarrow> bool" where
  "oracle_inv st \<longleftrightarrow> kv_inv st \<and> (\<forall>k v. kv_get st k = Some v \<longrightarrow> k = oval_key v)"

lemma oracle_inv_key: "oracle_inv st \<Longrightarrow> kv_get st k = Some v \<Longrightarrow> k = oval_key v"
  by (simp add: oracle_inv_def)

lemma oracle_inv_set: "oracle_inv st \<Longrightarrow> k = oval_key v \<Longrightarrow> oracle_inv (kv_set k v st)"
  by (auto simp: oracle_inv_def kv_simps)

lemma oracle_inv_ops:
  assumes "oracle_inv st"
  shows "oracle_inv (SetPrice e st)" "oracle_inv (SetTWAP t st)" "oracle_inv (oracle_SetParams p st)"
  using assms by (simp_all add: SetPrice_def SetTWAP_def oracle_SetParams_def oracle_inv_set oval_key_def)

lemma prune_keys_mem:
  "k \<in> set (prune_keys c xs) \<longleftrightarrow> (\<exists>e. (k, OPrice e) \<in> set xs \<and> pe_Height e < c)"
  by (induction c xs rule: prune_keys.induct) (auto split: oval.splits)

lemma PruneOldPrices_get:
  assumes "kv_inv st"
  shows "kv_get (PruneOldPrices h st) k =
    (case kv_get st k of
       Some (OPrice e) \<Rightarrow>
         if 0 < prune_cutoff (oracle_GetParams st) h \<and> pe_Height e < prune_cutoff (oracle_GetParams st) h
            \<and> prefix ''price/'' k
         then None else kv_get st k
     | r \<Rightarrow> r)"
  using assms
  by (auto simp: PruneOldPrices_def Let_def kvs.delete_all_get [unfolded kvs.delete_all_def] prune_keys_mem
      kv_prefix_iterator_mem split: option.splits oval.splits)

lemma PruneOldPrices_inv:
  assumes "oracle_inv st"
  shows "oracle_inv (PruneOldPrices h st)"
proof -
  have inv: "kv_inv st" using assms by (simp add: oracle_inv_def)
  then have "kv_inv (PruneOldPrices h st)" by (simp add: PruneOldPrices_def Let_def fold_kv_delete)
  moreover have "k = oval_key v" if "kv_get (PruneOldPrices h st) k = Some v" for k v
    using that assms by (auto simp: PruneOldPrices_get [OF inv] oracle_inv_def split: option.splits oval.splits if_splits)
  ultimately show ?thesis by (simp add: oracle_inv_def)
qed

lemma ComputeTWAP_state: "snd (ComputeTWAP E C d st) = st"
  by (auto simp: ComputeTWAP_def median_price_def gbind_def go_simps gfail_if_def gopt_panic_def Let_def
      split: option.splits)

lemma ComputeTWAP_Ret:
  assumes "ComputeTWAP E C d st = (Ret t, st')"
  defines "es \<equiv> GetPriceHistory st d (windowStart C (oracle_GetParams st))"
  shows "st' = st" and "tw_Denom t = d" and "tw_NumSamples t = int (length es)"
    and "MinSubmissions (oracle_GetParams st) \<le> int (length es)"
    and "median_price E es st = (Ret (tw_TWAP t), st)"
proof -
  show st: "st' = st" using ComputeTWAP_state [of E C d st] assms(1) by simp
  obtain m st1 where m: "median_price E es st = (Ret m, st1)" and "t = \<lparr>tw_Denom = d, tw_TWAP = m,
      tw_WindowStart = windowStart C (oracle_GetParams st), tw_WindowEnd = block_height C,
      tw_NumSamples = int (length es)\<rparr>" "st1 = st'" "MinSubmissions (oracle_GetParams st) \<le> int (length es)"
    using assms(1) unfolding ComputeTWAP_def es_def by (auto simp: go_iffs)
  then show "tw_Denom t = d" "tw_NumSamples t = int (length es)"
    "MinSubmissions (oracle_GetParams st) \<le> int (length es)" "median_price E es st = (Ret (tw_TWAP t), st)"
    using st by simp_all
qed

lemma oracle_GetParams_cong:
  "kv_get st' ''oracle_params'' = kv_get st ''oracle_params'' \<Longrightarrow> oracle_GetParams st' = oracle_GetParams st"
  by (simp add: oracle_GetParams_def)

lemma prefix_price: "prefix ''price/'' (priceKey d h)"
  by (simp add: priceKey_def)

lemma oracle_keys_differ:
  "priceKey d h \<noteq> ''oracle_params''" "twapKey d \<noteq> ''oracle_params''"
  "''oracle_params'' \<noteq> priceKey d h" "''oracle_params'' \<noteq> twapKey d"
  "priceKey d h \<noteq> twapKey d'" "twapKey d' \<noteq> priceKey d h" "twapKey d = twapKey d' \<longleftrightarrow> d = d'"
  by (auto simp: priceKey_def twapKey_def)

lemma priceKey_inj: "priceKey d h = priceKey d' h' \<longleftrightarrow> d = d' \<and> h = h'"
  by (auto simp: priceKey_def int_dec_inj append_sep_eq)

lemma oracle_GetParams_ops [simp]:
  "oracle_GetParams (SetPrice e st) = oracle_GetParams st"
  "oracle_GetParams (SetTWAP t st) = oracle_GetParams st"
  "kv_inv st \<Longrightarrow> oracle_GetParams (PruneOldPrices h st) = oracle_GetParams st"
proof -
  show "oracle_GetParams (SetPrice e st) = oracle_GetParams st" "oracle_GetParams (SetTWAP t st) = oracle_GetParams st"
    by (rule oracle_GetParams_cong, simp add: SetPrice_def SetTWAP_def kv_simps oracle_keys_differ)+
  show "kv_inv st \<Longrightarrow> oracle_GetParams (PruneOldPrices h st) = oracle_GetParams st"
    by (rule oracle_GetParams_cong) (auto simp: PruneOldPrices_get split: option.splits oval.splits)
qed

text \<open>The parameters for which the block arithmetic does not wrap around.\<close>

definition oracle_params_ok :: "OracleParams \<Rightarrow> int \<Rightarrow> bool" where
  "oracle_params_ok p h \<longleftrightarrow> 0 \<le> TwapWindowBlocks p \<and> 0 \<le> MaxPriceAge p \<and> 0 \<le> h
     \<and> TwapWindowBlocks p < 2 ^ 62 \<and> MaxPriceAge p < 2 ^ 62 \<and> h < 2 ^ 63"

lemma oracle_arith:
  assumes "oracle_params_ok p h"
  shows "i64 (h - TwapWindowBlocks p) = h - TwapWindowBlocks p"
    and "prune_cutoff p h = h - TwapWindowBlocks p - MaxPriceAge p"
proof -
  show 1: "i64 (h - TwapWindowBlocks p) = h - TwapWindowBlocks p"
    by (rule i64_id) (use assms in \<open>auto simp: in_i64_def oracle_params_ok_def\<close>)
  have "i64 (h - TwapWindowBlocks p - MaxPriceAge p) = h - TwapWindowBlocks p - MaxPriceAge p"
    by (rule i64_id) (use assms in \<open>auto simp: in_i64_def oracle_params_ok_def\<close>)
  with 1 show "prune_cutoff p h = h - TwapWindowBlocks p - MaxPriceAge p" by (simp add: prune_cutoff_def)
qed

text \<open>Dropping entries below the window does not change what the window holds.\<close>

lemma price_values_filter:
  assumes "\<And>k v. (k, v) \<in> set xs \<Longrightarrow> \<not> Q (k, v) \<Longrightarrow> \<exists>e. v = OPrice e \<and> \<not> P e"
  shows "filter P (price_values (filter Q xs)) = filter P (price_values xs)"
  using assms
proof (induction xs rule: price_values.induct)
  case (2 k e r)
  then show ?case by (cases "Q (k, OPrice e)") force+
next
  case (3 k t r)
  moreover have "filter P (price_values (filter Q r)) = filter P (price_values r)"
    by (rule 3(1)) (use 3(2) in auto)
  moreover have "Q (k, OTwap t)" using 3(2) [of k "OTwap t"] by auto
  ultimately show ?case by simp
next
  case (4 k q r)
  moreover have "filter P (price_values (filter Q r)) = filter P (price_values r)"
    by (rule 4(1)) (use 4(2) in auto)
  moreover have "Q (k, OParams q)" using 4(2) [of k "OParams q"] by auto
  ultimately show ?case by simp
qed simp

lemma PruneOldPrices_history:
  assumes inv: "kv_inv st" and le: "prune_cutoff (oracle_GetParams st) h \<le> w"
  shows "GetPriceHistory (PruneOldPrices h st) d w = GetPriceHistory st d w"
proof -
  define c where "c = prune_cutoff (oracle_GetParams st) h"
  define ks where "ks = prune_keys c (kv_prefix_iterator st ''price/'')"
  show ?thesis
  proof (cases "c \<le> 0")
    case True
    then show ?thesis by (simp add: PruneOldPrices_def c_def)
  next
    case False
    let ?p = "''price/'' @ d @ ''/''"
    have st: "PruneOldPrices h st = filter (\<lambda>e. fst e \<notin> set ks) st"
      using False by (simp add: PruneOldPrices_def Let_def c_def ks_def fold_kv_delete)
    have it: "kv_prefix_iterator (filter (\<lambda>e. fst e \<notin> set ks) st) ?p
        = filter (\<lambda>e. fst e \<notin> set ks) (kv_prefix_iterator st ?p)"
      by (simp add: kv_prefix_iterator_filter conj_commute)
    have "\<exists>e. v = OPrice e \<and> \<not> w \<le> pe_Height e" if kv: "(k, v) \<in> set (kv_prefix_iterator st ?p)" and k: "k \<in> set ks" for k v
    proof -
      obtain e where "(k, OPrice e) \<in> set (kv_prefix_iterator st ''price/'')" "pe_Height e < c"
        using k by (auto simp: ks_def prune_keys_mem)
      moreover have "kv_get st k = Some v" using kv inv by (simp add: kv_prefix_iterator_mem)
      ultimately show ?thesis using inv le by (auto simp: kv_prefix_iterator_mem c_def)
    qed
    then show ?thesis
      unfolding GetPriceHistory_def denom_entries_def st it
      by (intro price_values_filter) auto
  qed
qed

lemma SubmitPrice_Ret:
  assumes "SubmitPrice E C m s = (Ret u, t)"
  obtains a st1 st2 where
    "AccAddressFromBech32 E (sp_Submitter m) = Some a" "IsValidatorSubmitter E (staking s) a"
    "sp_Denom m \<in> set (WhitelistedDenoms (oracle_GetParams (oracle_store s)))"
    "st1 = SetPrice \<lparr>pe_Denom = sp_Denom m, pe_PriceUSD = sp_PriceUsd m, pe_Submitter = sp_Submitter m,
       pe_Height = block_height C, pe_Timestamp = block_time C\<rparr> (oracle_store s)"
    "st2 = st1 \<or> (\<exists>tw. ComputeTWAP E C (sp_Denom m) st1 = (Ret tw, st1) \<and> st2 = SetTWAP tw st1)"
    "t = s\<lparr>oracle_store := PruneOldPrices (block_height C) st2,
         base := (base s)\<lparr>evs := evs (base s) @ [Event ''submit_price'' [(''denom'', AStr (sp_Denom m)),
           (''price'', ADec (sp_PriceUsd m)), (''submitter'', AStr (sp_Submitter m))]]\<rparr>\<rparr>"
proof -
  define st1 where "st1 = SetPrice \<lparr>pe_Denom = sp_Denom m, pe_PriceUSD = sp_PriceUsd m,
       pe_Submitter = sp_Submitter m, pe_Height = block_height C, pe_Timestamp = block_time C\<rparr> (oracle_store s)"
  obtain a r s1 s2 where a: "AccAddressFromBech32 E (sp_Submitter m) = Some a"
    "IsValidatorSubmitter E (staking s) a"
    "sp_Denom m \<in> set (WhitelistedDenoms (oracle_GetParams (oracle_store s)))"
    and r: "gtry (on_oracle (ComputeTWAP E C (sp_Denom m))) (s\<lparr>oracle_store := st1\<rparr>) = (Ret r, s1)"
    and s2: "(case r of Inr twap \<Rightarrow> on_oracle (gmod (SetTWAP twap)) | Inl _ \<Rightarrow> gret ()) s1 = (Ret (), s2)"
    and t: "t = s2\<lparr>oracle_store := PruneOldPrices (block_height C) (oracle_store s2),
         base := (base s2)\<lparr>evs := evs (base s2) @ [Event ''submit_price'' [(''denom'', AStr (sp_Denom m)),
           (''price'', ADec (sp_PriceUsd m)), (''submitter'', AStr (sp_Submitter m))]]\<rparr>\<rparr>"
    using assms unfolding SubmitPrice_def st1_def by (auto simp: go_iffs)
  have s1: "s1 = s\<lparr>oracle_store := st1\<rparr>"
    using r ComputeTWAP_state [of E C "sp_Denom m" st1]
    by (auto simp: gtry_def on_oracle_def split: prod.splits outcome.splits)
  have "\<exists>st2. s2 = s\<lparr>oracle_store := st2\<rparr> \<and>
    (st2 = st1 \<or> (\<exists>tw. ComputeTWAP E C (sp_Denom m) st1 = (Ret tw, st1) \<and> st2 = SetTWAP tw st1))"
  proof (cases r)
    case (Inl e)
    then show ?thesis using s2 s1 by (auto simp: go_iffs)
  next
    case (Inr tw)
    then have "ComputeTWAP E C (sp_Denom m) st1 = (Ret tw, st1)"
      using r s1 ComputeTWAP_state [of E C "sp_Denom m" st1] by (auto simp: go_iffs)
    then show ?thesis using s2 s1 Inr by (auto simp: go_iffs)
  qed
  then obtain st2 where s2': "s2 = s\<lparr>oracle_store := st2\<rparr>"
    and st2: "st2 = st1 \<or> (\<exists>tw. ComputeTWAP E C (sp_Denom m) st1 = (Ret tw, st1) \<and> st2 = SetTWAP tw st1)"
    by blast
  show thesis by (rule that [OF a st1_def st2]) (simp add: t s2')
qed

definition submitted_entry :: "ctx \<Rightarrow> MsgSubmitPrice \<Rightarrow> PriceEntry" where
  "submitted_entry C m = \<lparr>pe_Denom = sp_Denom m, pe_PriceUSD = sp_PriceUsd m, pe_Submitter = sp_Submitter m,
     pe_Height = block_height C, pe_Timestamp = block_time C\<rparr>"

lemma SubmitPrice_stored:
  assumes "SubmitPrice E C m s = (Ret u, t)" and "oracle_inv (oracle_store s)"
    and ok: "oracle_params_ok (oracle_GetParams (oracle_store s)) (block_height C)"
  shows "kv_get (oracle_store t) (priceKey (sp_Denom m) (block_height C)) = Some (OPrice (submitted_entry C m))"
    and "oracle_inv (oracle_store t)"
    and "oracle_GetParams (oracle_store t) = oracle_GetParams (oracle_store s)"
    and "kv_get (oracle_store t) k = Some (OPrice e) \<Longrightarrow>
      0 < prune_cutoff (oracle_GetParams (oracle_store s)) (block_height C) \<Longrightarrow>
      prune_cutoff (oracle_GetParams (oracle_store s)) (block_height C) \<le> pe_Height e"
proof -
  let ?p = "oracle_GetParams (oracle_store s)"
  obtain st1 st2 where st1: "st1 = SetPrice (submitted_entry C m) (oracle_store s)"
    and st2: "st2 = st1 \<or> (\<exists>tw. ComputeTWAP E C (sp_Denom m) st1 = (Ret tw, st1) \<and> st2 = SetTWAP tw st1)"
    and t: "oracle_store t = PruneOldPrices (block_height C) st2"
    by (rule SubmitPrice_Ret [OF assms(1)]) (simp add: submitted_entry_def)
  have inv2: "oracle_inv st2" and p2: "oracle_GetParams st2 = ?p"
    using st2 assms(2) by (auto simp: st1 oracle_inv_ops)
  then have kv2: "kv_inv st2" by (simp add: oracle_inv_def)
  have get2: "kv_get st2 (priceKey (sp_Denom m) (block_height C)) = kv_get st1 (priceKey (sp_Denom m) (block_height C))"
    using st2 by (auto simp: SetTWAP_def kv_simps oracle_keys_differ)
  have cut: "prune_cutoff ?p (block_height C) \<le> block_height C"
    using ok by (simp add: oracle_arith(2)) (simp add: oracle_params_ok_def)
  show "oracle_inv (oracle_store t)" "oracle_GetParams (oracle_store t) = ?p"
    using PruneOldPrices_inv [OF inv2] kv2 p2 by (simp_all add: t)
  show "kv_get (oracle_store t) (priceKey (sp_Denom m) (block_height C)) = Some (OPrice (submitted_entry C m))"
    using cut by (simp add: t PruneOldPrices_get [OF kv2] get2 p2 st1 SetPrice_def kv_simps submitted_entry_def)
  assume e: "kv_get (oracle_store t) k = Some (OPrice e)" and pos: "0 < prune_cutoff ?p (block_height C)"
  have "kv_get st2 k = Some (OPrice e)"
    using e by (auto simp: t PruneOldPrices_get [OF kv2] split: option.splits oval.splits if_splits)
  moreover have "k = oval_key (OPrice e)" using calculation inv2 by (simp add: oracle_inv_def)
  then have "prefix ''price/'' k" by (simp add: oval_key_def prefix_price)
  ultimately show "prune_cutoff ?p (block_height C) \<le> pe_Height e"
    using e pos by (auto simp: t PruneOldPrices_get [OF kv2] p2 split: if_splits)
qed

subsection \<open>Properties\<close>

definition window_entries :: "ctx \<Rightarrow> oval kv \<Rightarrow> denom \<Rightarrow> PriceEntry list" where
  "window_entries C st d = GetPriceHistory st d (windowStart C (oracle_GetParams st))"

definition price_in :: "int \<Rightarrow> int \<Rightarrow> PriceEntry \<Rightarrow> bool" where
  "price_in lo hi e \<longleftrightarrow> (case pe_PriceUSD e of None \<Rightarrow> False | Some x \<Rightarrow> lo \<le> x \<and> x \<le> hi)"

text \<open>
  C3. Robustness of the price feed: a TWAP is only computed from at least
  \<open>MinSubmissions\<close> entries of the window, and when more than half of the entries of the
  window lie between two bounds, so does the TWAP, whatever the other entries are and
  whether the median is an entry or the rounded average of two.
\<close>

theorem TWAP_honest_majority:
  assumes "dec_laws E" and "ComputeTWAP E C d st = (Ret t, st')"
    and "\<forall>e \<in> set (window_entries C st d). pe_PriceUSD e \<noteq> None"
    and "length (window_entries C st d) < 2 * length (filter (price_in lo hi) (window_entries C st d))"
  shows "(\<exists>m. tw_TWAP t = Some m \<and> lo \<le> m \<and> m \<le> hi) \<and> tw_NumSamples t \<ge> MinSubmissions (oracle_GetParams st)"
proof -
  let ?es = "window_entries C st d"
  note r = ComputeTWAP_Ret [OF assms(2), folded window_entries_def]
  have ne: "?es \<noteq> []" using assms(4) by auto
  have nn: "\<not> list_ex (\<lambda>e. pe_PriceUSD e = None) ?es" using assms(3) by (auto simp: list_ex_iff)
  have "tw_TWAP t \<noteq> None"
    using r(5) ne nn assms(3) by (cases ?es) (auto simp: median_price_def Let_def go_iffs split: if_splits)
  then obtain m where m: "tw_TWAP t = Some m" by auto
  have med: "is_median m (map (\<lambda>e. the (pe_PriceUSD e)) ?es)"
    using median_price_correct(1) [OF assms(1) _ assms(3)] r(5) m by simp
  have "filter (price_in lo hi) ?es = filter (\<lambda>e. lo \<le> the (pe_PriceUSD e) \<and> the (pe_PriceUSD e) \<le> hi) ?es"
    using assms(3) by (intro filter_cong) (auto simp: price_in_def)
  then have "length (map (\<lambda>e. the (pe_PriceUSD e)) ?es)
      < 2 * length (filter (\<lambda>x. lo \<le> x \<and> x \<le> hi) (map (\<lambda>e. the (pe_PriceUSD e)) ?es))"
    using assms(4) by (simp add: filter_map o_def)
  from is_median_majority [OF med this] m r(3,4) show ?thesis by simp
qed

definition oracle_example :: "oval kv" where
  "oracle_example = fold (\<lambda>(h, x). SetPrice \<lparr>pe_Denom = ''ATOM'', pe_PriceUSD = Some x, pe_Submitter = ''v'',
      pe_Height = h, pe_Timestamp = 0\<rparr>) [(1, 1000), (2, 1004), (3, 99999), (4, 1010)] []"

theorem TWAP_honest_majority_witness:
  "\<exists>m. ComputeTWAP env0 \<lparr>block_height = 5, block_time = 0\<rparr> ''ATOM'' oracle_example =
        (Ret \<lparr>tw_Denom = ''ATOM'', tw_TWAP = Some m, tw_WindowStart = 0, tw_WindowEnd = 5, tw_NumSamples = 4\<rparr>,
         oracle_example)
     \<and> 1000 \<le> m \<and> m \<le> 1010"
proof -
  let ?C = "\<lparr>block_height = 5, block_time = 0\<rparr>"
  let ?t = "\<lparr>tw_Denom = ''ATOM'', tw_TWAP = Some 1007, tw_WindowStart = 0, tw_WindowEnd = 5, tw_NumSamples = 4\<rparr>"
  have run: "ComputeTWAP env0 ?C ''ATOM'' oracle_example = (Ret ?t, oracle_example)" by code_simp
  have "\<forall>e \<in> set (window_entries ?C oracle_example ''ATOM''). pe_PriceUSD e \<noteq> None" by code_simp
  moreover have "length (window_entries ?C oracle_example ''ATOM'')
      < 2 * length (filter (price_in 1000 1010) (window_entries ?C oracle_example ''ATOM''))" by code_simp
  ultimately show ?thesis using TWAP_honest_majority [OF env0_dec_laws run, of 1000 1010] run by auto
qed

text \<open>
  An accepted price submission comes from a validator and names a whitelisted
  denomination; afterwards the entry is stored under its denomination and height, no
  entry older than the pruning cutoff is left, the store invariant holds, and apart from
  one event nothing else of the chain has changed.
\<close>

theorem SubmitPrice_effect:
  assumes "SubmitPrice E C m s = (Ret u, t)" and "oracle_inv (oracle_store s)"
    and "oracle_params_ok (oracle_GetParams (oracle_store s)) (block_height C)"
  shows "(\<exists>a. AccAddressFromBech32 E (sp_Submitter m) = Some a \<and> IsValidatorSubmitter E (staking s) a)
    \<and> sp_Denom m \<in> set (WhitelistedDenoms (oracle_GetParams (oracle_store s)))
    \<and> kv_get (oracle_store t) (priceKey (sp_Denom m) (block_height C)) = Some (OPrice (submitted_entry C m))
    \<and> (\<forall>k e. kv_get (oracle_store t) k = Some (OPrice e) \<longrightarrow>
          0 < prune_cutoff (oracle_GetParams (oracle_store s)) (block_height C) \<longrightarrow>
          prune_cutoff (oracle_GetParams (oracle_store s)) (block_height C) \<le> pe_Height e)
    \<and> oracle_inv (oracle_store t)
    \<and> oracle_GetParams (oracle_store t) = oracle_GetParams (oracle_store s)
    \<and> (\<exists>ev. t = s\<lparr>oracle_store := oracle_store t, base := (base s)\<lparr>evs := evs (base s) @ [ev]\<rparr>\<rparr>)"
proof -
  have frame: "\<exists>ev. t = s\<lparr>oracle_store := oracle_store t, base := (base s)\<lparr>evs := evs (base s) @ [ev]\<rparr>\<rparr>"
    by (rule SubmitPrice_Ret [OF assms(1)]) auto
  have auth: "(\<exists>a. AccAddressFromBech32 E (sp_Submitter m) = Some a \<and> IsValidatorSubmitter E (staking s) a)
      \<and> sp_Denom m \<in> set (WhitelistedDenoms (oracle_GetParams (oracle_store s)))"
    by (rule SubmitPrice_Ret [OF assms(1)]) blast
  show ?thesis using frame auth SubmitPrice_stored [OF assms] by blast
qed

definition chain_example :: chain where
  "chain_example = \<lparr>base = base_empty, oracle_store = oracle_example, coll_store = [], sc_store = [],
     staking = \<lparr>sv_validators = [''val''], sv_bonded_by_power = [''val'']\<rparr>\<rparr>"

lemma oracle_example_inv: "oracle_inv oracle_example"
  unfolding oracle_example_def
  by (simp only: fold.simps o_def id_def split_beta fst_conv snd_conv)
    (intro oracle_inv_ops(1), simp add: oracle_inv_def kv_simps)

theorem SubmitPrice_effect_witness:
  "\<exists>t. SubmitPrice env0 \<lparr>block_height = 40, block_time = 7\<rparr>
      \<lparr>sp_Submitter = acc_String env0 ''val'', sp_Denom = ''ATOM'', sp_PriceUsd = Some 1012\<rparr> chain_example = (Ret (), t)
    \<and> (\<exists>e. kv_get (oracle_store t) (priceKey ''ATOM'' 40) = Some (OPrice e) \<and> pe_PriceUSD e = Some 1012)
    \<and> oracle_inv (oracle_store t)"
proof -
  let ?C = "\<lparr>block_height = 40, block_time = 7\<rparr>"
  let ?m = "\<lparr>sp_Submitter = acc_String env0 ''val'', sp_Denom = ''ATOM'', sp_PriceUsd = Some 1012\<rparr>"
  have "fst (SubmitPrice env0 ?C ?m chain_example) = Ret ()" by code_simp
  then have run: "SubmitPrice env0 ?C ?m chain_example = (Ret (), snd (SubmitPrice env0 ?C ?m chain_example))"
    by (simp add: prod_eq_iff)
  have "oracle_params_ok (oracle_GetParams (oracle_store chain_example)) (block_height ?C)" by code_simp
  moreover have "oracle_inv (oracle_store chain_example)" by (simp add: chain_example_def oracle_example_inv)
  ultimately show ?thesis using SubmitPrice_effect [OF run] run by (auto simp: submitted_entry_def)
qed

text \<open>
  C4. Pruning never changes a TWAP: computing it after \<open>PruneOldPrices\<close> at the current
  height gives the same outcome as computing it before, for every denomination.
\<close>

theorem PruneOldPrices_keeps_TWAP:
  assumes "kv_inv st" and "oracle_params_ok (oracle_GetParams st) (block_height C)"
  shows "fst (ComputeTWAP E C d (PruneOldPrices (block_height C) st)) = fst (ComputeTWAP E C d st)"
proof -
  let ?p = "oracle_GetParams st" and ?st = "PruneOldPrices (block_height C) st"
  have "prune_cutoff ?p (block_height C) \<le> windowStart C ?p"
    using assms(2) oracle_arith [OF assms(2)] by (auto simp: windowStart_def Let_def oracle_params_ok_def)
  then have h: "GetPriceHistory ?st d (windowStart C ?p) = GetPriceHistory st d (windowStart C ?p)"
    by (rule PruneOldPrices_history [OF assms(1)])
  have med: "fst (median_price E es s1) = fst (median_price E es s2)" for es s1 s2
    by (auto simp: median_price_def gbind_def go_simps gopt_panic_def Let_def split: option.splits)
  show ?thesis
    using med [of "GetPriceHistory st d (windowStart C ?p)" ?st st]
    by (auto simp: ComputeTWAP_def go_simps assms(1) h gfail_if_def gbind_def
        split: prod.splits outcome.splits)
qed

theorem PruneOldPrices_keeps_TWAP_witness:
  "fst (ComputeTWAP env0 \<lparr>block_height = 38, block_time = 0\<rparr> ''ATOM'' (PruneOldPrices 38 oracle_example))
    = fst (ComputeTWAP env0 \<lparr>block_height = 38, block_time = 0\<rparr> ''ATOM'' oracle_example)
   \<and> PruneOldPrices 38 oracle_example \<noteq> oracle_example"
proof -
  have "kv_inv oracle_example" using oracle_example_inv by (simp add: oracle_inv_def)
  moreover have "oracle_params_ok (oracle_GetParams oracle_example) (block_height \<lparr>block_height = 38, block_time = 0\<rparr>)"
    by code_simp
  ultimately have "fst (ComputeTWAP env0 \<lparr>block_height = 38, block_time = 0\<rparr> ''ATOM'' (PruneOldPrices 38 oracle_example))
    = fst (ComputeTWAP env0 \<lparr>block_height = 38, block_time = 0\<rparr> ''ATOM'' oracle_example)"
    using PruneOldPrices_keeps_TWAP [of oracle_example "\<lparr>block_height = 38, block_time = 0\<rparr>" env0 "''ATOM''"] by simp
  moreover have "length (PruneOldPrices 38 oracle_example) \<noteq> length oracle_example" by code_simp
  ultimately show ?thesis by metis
qed

text \<open>
  Submissions of the same block collide: after two accepted submissions for one
  denomination in one block, only the second is stored, so however many validators submit
  in a block they count as one sample.
\<close>

theorem SubmitPrice_same_block:
  assumes "SubmitPrice E C m1 s = (Ret u, s1)" and "SubmitPrice E C m2 s1 = (Ret v, t)"
    and "sp_Denom m1 = sp_Denom m2" and "oracle_inv (oracle_store s)"
    and "oracle_params_ok (oracle_GetParams (oracle_store s)) (block_height C)"
    and "kv_get (oracle_store t) k = Some (OPrice e)" and "pe_Denom e = sp_Denom m2" and "pe_Height e = block_height C"
  shows "pe_Submitter e = sp_Submitter m2 \<and> pe_PriceUSD e = sp_PriceUsd m2"
proof -
  note st1 = SubmitPrice_stored [OF assms(1,4,5)]
  note st2 = SubmitPrice_stored [OF assms(2) st1(2)]
  have "k = priceKey (sp_Denom m2) (block_height C)"
    using oracle_inv_key [OF st2(2) assms(6)] assms(5,7,8) st1(3) by (simp add: oval_key_def)
  with st2(1) assms(5,6) st1(3) have "e = submitted_entry C m2" by simp
  then show ?thesis by (simp add: submitted_entry_def)
qed

theorem SubmitPrice_same_block_witness:
  "\<exists>s1 t e. SubmitPrice env0 \<lparr>block_height = 40, block_time = 7\<rparr>
      \<lparr>sp_Submitter = acc_String env0 ''val'', sp_Denom = ''ATOM'', sp_PriceUsd = Some 1012\<rparr> chain_example = (Ret (), s1)
    \<and> SubmitPrice env0 \<lparr>block_height = 40, block_time = 7\<rparr>
      \<lparr>sp_Submitter = acc_String env0 ''val'', sp_Denom = ''ATOM'', sp_PriceUsd = Some 2\<rparr> s1 = (Ret (), t)
    \<and> kv_get (oracle_store t) (priceKey ''ATOM'' 40) = Some (OPrice e) \<and> pe_PriceUSD e = Some 2"
proof -
  let ?C = "\<lparr>block_height = 40, block_time = 7\<rparr>"
  let ?m1 = "\<lparr>sp_Submitter = acc_String env0 ''val'', sp_Denom = ''ATOM'', sp_PriceUsd = Some 1012\<rparr>"
  let ?m2 = "\<lparr>sp_Submitter = acc_String env0 ''val'', sp_Denom = ''ATOM'', sp_PriceUsd = Some 2\<rparr>"
  define s1 where "s1 = snd (SubmitPrice env0 ?C ?m1 chain_example)"
  define t where "t = snd (SubmitPrice env0 ?C ?m2 s1)"
  have "fst (SubmitPrice env0 ?C ?m1 chain_example) = Ret ()" by code_simp
  then have r1: "SubmitPrice env0 ?C ?m1 chain_example = (Ret (), s1)" by (simp add: prod_eq_iff s1_def)
  have "fst (SubmitPrice env0 ?C ?m2 (snd (SubmitPrice env0 ?C ?m1 chain_example))) = Ret ()" by code_simp
  then have r2: "SubmitPrice env0 ?C ?m2 s1 = (Ret (), t)" by (simp add: prod_eq_iff s1_def t_def)
  have inv: "oracle_inv (oracle_store chain_example)" by (simp add: chain_example_def oracle_example_inv)
  have ok: "oracle_params_ok (oracle_GetParams (oracle_store chain_example)) (block_height ?C)" by code_simp
  have "kv_has (oracle_store (snd (SubmitPrice env0 ?C ?m2 (snd (SubmitPrice env0 ?C ?m1 chain_example))))) (priceKey ''ATOM'' 40)"
    by code_simp
  then obtain v where v: "kv_get (oracle_store t) (priceKey ''ATOM'' 40) = Some v"
    by (auto simp: kv_has_def t_def s1_def)
  have "v = OPrice (submitted_entry ?C ?m2)"
    using SubmitPrice_stored(1) [OF r2] SubmitPrice_stored(2,3) [OF r1 inv ok] ok v by simp
  then show ?thesis
    using SubmitPrice_same_block [OF r1 r2 _ inv ok, of "priceKey ''ATOM'' 40" "submitted_entry ?C ?m2"] r1 r2 v
    by (auto simp: submitted_entry_def)
qed

end
