(* ===== verification/Collateral.thy ===== *)
theory Collateral
  imports Oracle
begin

section \<open>x/ibc-collateral\<close>

text \<open>
  The vault: whitelisted assets, one position per owner and denomination, a counter of
  the total locked per denomination, and the operations that lock and release coins held
  by the module account \<open>ibc_collateral_vault\<close>. Follows
  \<open>x/ibc-collateral/keeper/keeper.go\<close>, \<open>msg_server.go\<close>, \<open>query_server.go\<close>,
  \<open>ibc_middleware.go\<close>, \<open>genesis.go\<close> and \<open>types\<close>.

  The locale \<open>bank_keeper\<close> states what the vault relies on of the bank; the invariant
  \<open>vault_inv\<close> says that the counters are the sums of the positions and that the vault
  account holds at least that much.
\<close>

subsection \<open>Assets\<close>

definition vault_name :: string where
  "vault_name = ''ibc_collateral_vault''"

definition asset_key :: "denom \<Rightarrow> string" where
  "asset_key d = ''asset/'' @ d"

definition dec_percent :: "int \<Rightarrow> int" where
  "dec_percent n = n * 10 ^ 16"

definition default_asset :: "denom \<Rightarrow> denom \<Rightarrow> int \<Rightarrow> int \<Rightarrow> CollateralAsset" where
  "default_asset ibc b mr lt = \<lparr>ca_IBCDenom = ibc, ca_BaseDenom = b, ca_MinRatio = Some (dec_percent mr),
     ca_LiquidationThreshold = Some (dec_percent lt), ca_IsActive = True\<rparr>"

definition DefaultCollateralAssets :: "CollateralAsset list" where
  "DefaultCollateralAssets =
    [default_asset ''uzytc'' ''ZYTC'' 200 150,
     default_asset ''ibc/axlUSDC'' ''axlUSDC'' 110 105,
     default_asset ''ibc/mUSDT'' ''mUSDT'' 110 105,
     default_asset ''ibc/ATOM'' ''ATOM'' 160 130,
     default_asset ''ibc/wBTC'' ''wBTC'' 150 125,
     default_asset ''ibc/wETH'' ''wETH'' 150 125]"

definition RegisterCollateralAsset :: "CollateralAsset \<Rightarrow> (cval kv, err, unit) go" where
  "RegisterCollateralAsset a =
     gbind (gfail_if (ca_IBCDenom a = []) (Errorf ''RegisterCollateralAsset: ibc_denom must not be empty'')) (\<lambda>_.
     gmod (kv_set (asset_key (ca_IBCDenom a)) (CAsset a)))"

definition GetCollateralAsset :: "cval kv \<Rightarrow> denom \<Rightarrow> err + CollateralAsset" where
  "GetCollateralAsset st d = (case kv_get st (asset_key d) of
     None \<Rightarrow> Inl ErrDenomNotWhitelisted
   | Some (CAsset a) \<Rightarrow> Inr a
   | Some _ \<Rightarrow> Inl (Errorf ''GetCollateralAsset: unmarshal error''))"

definition cval_assets :: "cval kv \<Rightarrow> CollateralAsset list" where
  "cval_assets xs = List.map_filter (\<lambda>(k, v). case v of CAsset a \<Rightarrow> Some a | _ \<Rightarrow> None) xs"

definition GetAllCollateralAssets :: "cval kv \<Rightarrow> CollateralAsset list" where
  "GetAllCollateralAssets st = cval_assets (kv_prefix_iterator st ''asset/'')"

subsection \<open>Positions and counters\<close>

definition positionKey :: "env \<Rightarrow> addr \<Rightarrow> denom \<Rightarrow> string" where
  "positionKey E owner d = ''position/'' @ acc_String E owner @ ''/'' @ d"

definition GetPosition :: "env \<Rightarrow> cval kv \<Rightarrow> addr \<Rightarrow> denom \<Rightarrow> err + CollateralPosition" where
  "GetPosition E st owner d = (case kv_get st (positionKey E owner d) of
     None \<Rightarrow> Inl ErrPositionNotFound
   | Some (CPos p) \<Rightarrow> Inr p
   | Some _ \<Rightarrow> Inl (Errorf ''GetPosition: unmarshal error''))"

text \<open>\<open>SetPosition\<close> logs and does nothing when the owner does not decode.\<close>

definition SetPosition :: "env \<Rightarrow> CollateralPosition \<Rightarrow> cval kv \<Rightarrow> cval kv" where
  "SetPosition E p st = (case AccAddressFromBech32 E (cp_Owner p) of
     None \<Rightarrow> st
   | Some owner \<Rightarrow> kv_set (positionKey E owner (cp_IBCDenom p)) (CPos p) st)"

definition deletePosition :: "env \<Rightarrow> addr \<Rightarrow> denom \<Rightarrow> cval kv \<Rightarrow> cval kv" where
  "deletePosition E owner d st = kv_delete (positionKey E owner d) st"

definition cval_positions :: "cval kv \<Rightarrow> CollateralPosition list" where
  "cval_positions xs = List.map_filter (\<lambda>(k, v). case v of CPos p \<Rightarrow> Some p | _ \<Rightarrow> None) xs"

definition GetAllPositions :: "cval kv \<Rightarrow> CollateralPosition list" where
  "GetAllPositions st = cval_positions (kv_prefix_iterator st ''position/'')"

definition locked_key :: "denom \<Rightarrow> string" where
  "locked_key d = ''locked/'' @ d"

definition GetTotalLocked :: "cval kv \<Rightarrow> denom \<Rightarrow> int" where
  "GetTotalLocked st d = (case kv_get st (locked_key d) of
     Some (CLocked n) \<Rightarrow> n
   | _ \<Rightarrow> 0)"

definition setTotalLocked :: "denom \<Rightarrow> int \<Rightarrow> cval kv \<Rightarrow> cval kv" where
  "setTotalLocked d n st = kv_set (locked_key d) (CLocked n) st"

subsection \<open>Locking and releasing\<close>

definition coll_get :: "(cval kv \<Rightarrow> 'a) \<Rightarrow> 'a chain_op" where
  "coll_get f = gget (\<lambda>s. f (coll_store s))"

definition coll_mod :: "(cval kv \<Rightarrow> cval kv) \<Rightarrow> unit chain_op" where
  "coll_mod f = gmod (\<lambda>s. s\<lparr>coll_store := f (coll_store s)\<rparr>)"

definition ret_or_err :: "'e + 'a \<Rightarrow> ('s, 'e, 'a) go" where
  "ret_or_err r = (case r of Inl e \<Rightarrow> gerr e | Inr a \<Rightarrow> gret a)"

text \<open>
  An amount is an \<open>sdk.Int\<close> and may be nil; the first operation on a nil amount panics.
\<close>

definition LockCollateral :: "env \<Rightarrow> ctx \<Rightarrow> addr \<Rightarrow> denom \<Rightarrow> int option \<Rightarrow> unit chain_op" where
  "LockCollateral E C owner d amount =
     gbind (coll_get (\<lambda>st. GetCollateralAsset st d)) (\<lambda>r.
     gbind (ret_or_err r) (\<lambda>asset.
     gbind (gfail_if (\<not> ca_IsActive asset) ErrAssetNotActive) (\<lambda>_.
     gbind (gopt_panic ''nil Int'' amount) (\<lambda>n.
     gbind (gopt_panic ''NewCoin'' (NewCoin d n)) (\<lambda>c.
     gbind (gopt_panic ''NewCoins'' (NewCoins [c])) (\<lambda>cs.
     gbind (gmap_err (Wrap ''LockCollateral: bank transfer failed'')
              (on_base (SendCoinsFromAccountToModule E C owner vault_name cs))) (\<lambda>_.
     gbind (coll_get (\<lambda>st. GetPosition E st owner d)) (\<lambda>r.
     gbind (gret (case r of
         Inr p \<Rightarrow> p
       | Inl _ \<Rightarrow> \<lparr>cp_Owner = acc_String E owner, cp_IBCDenom = d, cp_Amount = 0,
                   cp_LockedAt = ctx_Unix C, cp_MintedZYTD = 0\<rparr>)) (\<lambda>pos.
     gbind (gopt_panic ''Add'' (int_add E (cp_Amount pos) n)) (\<lambda>m.
     gbind (coll_mod (SetPosition E (pos\<lparr>cp_Amount := m\<rparr>))) (\<lambda>_.
     gbind (coll_get (\<lambda>st. GetTotalLocked st d)) (\<lambda>tot.
     gbind (gopt_panic ''Add'' (int_add E tot n)) (\<lambda>tot'.
     coll_mod (setTotalLocked d tot'))))))))))))))"

definition UnlockCollateral :: "env \<Rightarrow> ctx \<Rightarrow> addr \<Rightarrow> denom \<Rightarrow> int option \<Rightarrow> unit chain_op" where
  "UnlockCollateral E C owner d amount =
     gbind (coll_get (\<lambda>st. GetPosition E st owner d)) (\<lambda>r.
     gbind (ret_or_err r) (\<lambda>pos.
     gbind (gfail_if (0 < cp_MintedZYTD pos) ErrUnlockDenied) (\<lambda>_.
     gbind (gopt_panic ''nil Int'' amount) (\<lambda>n.
     gbind (gfail_if (n > cp_Amount pos) ErrInsufficientLockedAmount) (\<lambda>_.
     gbind (gopt_panic ''NewCoin'' (NewCoin d n)) (\<lambda>c.
     gbind (gopt_panic ''NewCoins'' (NewCoins [c])) (\<lambda>cs.
     gbind (gmap_err (Wrap ''UnlockCollateral: bank transfer failed'')
              (on_base (SendCoinsFromModuleToAccount E C vault_name owner cs))) (\<lambda>_.
     gbind (gopt_panic ''Sub'' (int_sub E (cp_Amount pos) n)) (\<lambda>m.
     gbind (if m = 0 then coll_mod (deletePosition E owner d)
            else coll_mod (SetPosition E (pos\<lparr>cp_Amount := m\<rparr>))) (\<lambda>_.
     gbind (coll_get (\<lambda>st. GetTotalLocked st d)) (\<lambda>tot.
     gbind (gopt_panic ''Sub'' (int_sub E tot n)) (\<lambda>newTotal.
     coll_mod (setTotalLocked d (if newTotal < 0 then 0 else newTotal))))))))))))))"

definition UpdateMintedZYTD :: "env \<Rightarrow> addr \<Rightarrow> denom \<Rightarrow> int \<Rightarrow> unit chain_op" where
  "UpdateMintedZYTD E owner d delta =
     gbind (coll_get (\<lambda>st. GetPosition E st owner d)) (\<lambda>r.
     gbind (ret_or_err r) (\<lambda>pos.
     gbind (gopt_panic ''Add'' (int_add E (cp_MintedZYTD pos) delta)) (\<lambda>newMinted.
     gbind (gfail_if (newMinted < 0) (Errorf ''UpdateMintedZYTD: resulting minted_zytd would be negative'')) (\<lambda>_.
     coll_mod (SetPosition E (pos\<lparr>cp_MintedZYTD := newMinted\<rparr>))))))"

subsection \<open>Messages\<close>

record MsgCollateral =
  mc_Owner :: string
  mc_IbcDenom :: denom
  mc_Amount :: "int option"

record LockResponse =
  lr_Owner :: string
  lr_IbcDenom :: denom
  lr_Locked :: int

record UnlockResponse =
  ur_Owner :: string
  ur_IbcDenom :: denom
  ur_Unlocked :: "int option"
  ur_Remaining :: int

text \<open>\<open>MsgLockCollateral\<close> and \<open>MsgUnlockCollateral\<close> have the same fields and the same check.\<close>

definition Collateral_ValidateBasic :: "env \<Rightarrow> MsgCollateral \<Rightarrow> (err, unit) outcome" where
  "Collateral_ValidateBasic E m =
     (if AccAddressFromBech32 E (mc_Owner m) = None then Err ErrInvalidAddress
      else if mc_IbcDenom m = [] then Err ErrDenomNotWhitelisted
      else case mc_Amount m of
        None \<Rightarrow> Panic ''nil Int''
      | Some n \<Rightarrow> if n \<le> 0 then Err ErrInvalidAmount else Ret ())"

definition msg_LockCollateral :: "env \<Rightarrow> ctx \<Rightarrow> MsgCollateral \<Rightarrow> LockResponse chain_op" where
  "msg_LockCollateral E C m =
     gbind (gopt_err ErrInvalidAddress (AccAddressFromBech32 E (mc_Owner m))) (\<lambda>owner.
     gbind (LockCollateral E C owner (mc_IbcDenom m) (mc_Amount m)) (\<lambda>_.
     gbind (coll_get (\<lambda>st. GetPosition E st owner (mc_IbcDenom m))) (\<lambda>r.
     gbind (gmap_err (Wrap ''LockCollateral: failed to fetch updated position'') (ret_or_err r)) (\<lambda>pos.
     gbind (emit ''lock_collateral'' [(''owner'', AStr (mc_Owner m)), (''ibc_denom'', AStr (mc_IbcDenom m)),
              (''amount'', ADec (mc_Amount m))]) (\<lambda>_.
     gret \<lparr>lr_Owner = mc_Owner m, lr_IbcDenom = mc_IbcDenom m, lr_Locked = cp_Amount pos\<rparr>)))))"

definition msg_UnlockCollateral :: "env \<Rightarrow> ctx \<Rightarrow> MsgCollateral \<Rightarrow> UnlockResponse chain_op" where
  "msg_UnlockCollateral E C m =
     gbind (gopt_err ErrInvalidAddress (AccAddressFromBech32 E (mc_Owner m))) (\<lambda>owner.
     gbind (coll_get (\<lambda>st. GetPosition E st owner (mc_IbcDenom m))) (\<lambda>r.
     gbind (ret_or_err r) (\<lambda>oldPos.
     gbind (UnlockCollateral E C owner (mc_IbcDenom m) (mc_Amount m)) (\<lambda>_.
     gbind (gopt_panic ''nil Int'' (mc_Amount m)) (\<lambda>n.
     gbind (gopt_panic ''Sub'' (int_sub E (cp_Amount oldPos) n)) (\<lambda>remaining.
     gbind (emit ''unlock_collateral'' [(''owner'', AStr (mc_Owner m)), (''ibc_denom'', AStr (mc_IbcDenom m)),
              (''amount'', ADec (mc_Amount m))]) (\<lambda>_.
     gret \<lparr>ur_Owner = mc_Owner m, ur_IbcDenom = mc_IbcDenom m, ur_Unlocked = mc_Amount m,
           ur_Remaining = (if remaining < 0 then 0 else remaining)\<rparr>)))))))"

subsection \<open>Queries\<close>

definition QueryPosition :: "env \<Rightarrow> string \<Rightarrow> denom \<Rightarrow> cval kv \<Rightarrow> err + CollateralPosition" where
  "QueryPosition E owner d st = (case AccAddressFromBech32 E owner of
     None \<Rightarrow> Inl ErrInvalidAddress
   | Some a \<Rightarrow> GetPosition E st a d)"

definition QueryTotalLocked :: "denom \<Rightarrow> cval kv \<Rightarrow> err + int" where
  "QueryTotalLocked d st =
     (if d = [] then Inl (Errorf ''QueryTotalLocked: ibc_denom must not be empty'') else Inr (GetTotalLocked st d))"

subsection \<open>Genesis\<close>

record GenesisPosition =
  gp_Owner :: string
  gp_IBCDenom :: denom
  gp_Amount :: "int option"
  gp_LockedAt :: int
  gp_MintedZYTD :: "int option"

record CollateralGenesis =
  gs_CollateralAssets :: "CollateralAsset list"
  gs_Positions :: "GenesisPosition list"

definition coll_DefaultGenesis :: CollateralGenesis where
  "coll_DefaultGenesis = \<lparr>gs_CollateralAssets = DefaultCollateralAssets, gs_Positions = []\<rparr>"

fun validate_assets :: "denom list \<Rightarrow> CollateralAsset list \<Rightarrow> bool" where
  "validate_assets seen [] = True"
| "validate_assets seen (a # as) =
     (ca_IBCDenom a \<noteq> [] \<and> ca_IBCDenom a \<notin> set seen
      \<and> (case ca_MinRatio a of None \<Rightarrow> False | Some r \<Rightarrow> 0 \<le> r)
      \<and> (case ca_LiquidationThreshold a of None \<Rightarrow> False | Some r \<Rightarrow> 0 \<le> r)
      \<and> validate_assets (ca_IBCDenom a # seen) as)"

text \<open>\<open>None\<close> is the panic of \<open>IsNegative\<close> on a nil amount.\<close>

fun validate_positions :: "GenesisPosition list \<Rightarrow> bool option" where
  "validate_positions [] = Some True"
| "validate_positions (p # ps) =
     (if gp_Owner p = [] \<or> gp_IBCDenom p = [] then Some False
      else case gp_Amount p of
        None \<Rightarrow> None
      | Some n \<Rightarrow> if n < 0 then Some False
          else case gp_MintedZYTD p of
            None \<Rightarrow> None
          | Some m \<Rightarrow> if m < 0 then Some False else validate_positions ps)"

definition coll_GenesisValidate :: "CollateralGenesis \<Rightarrow> bool option" where
  "coll_GenesisValidate g =
     (if \<not> validate_assets [] (gs_CollateralAssets g) then Some False else validate_positions (gs_Positions g))"

definition genesis_position :: "GenesisPosition \<Rightarrow> CollateralPosition" where
  "genesis_position p = \<lparr>cp_Owner = gp_Owner p, cp_IBCDenom = gp_IBCDenom p,
     cp_Amount = (case gp_Amount p of None \<Rightarrow> 0 | Some n \<Rightarrow> n), cp_LockedAt = gp_LockedAt p,
     cp_MintedZYTD = (case gp_MintedZYTD p of None \<Rightarrow> 0 | Some n \<Rightarrow> n)\<rparr>"

definition coll_InitGenesis :: "env \<Rightarrow> CollateralGenesis \<Rightarrow> (cval kv, err, unit) go" where
  "coll_InitGenesis E g =
     gbind (gfor (gs_CollateralAssets g) (\<lambda>a.
       gbind (gtry (RegisterCollateralAsset a)) (\<lambda>r.
       case r of Inl e \<Rightarrow> gpanic ''InitGenesis: failed to register collateral asset'' | Inr _ \<Rightarrow> gret ()))) (\<lambda>_.
     gfor (gs_Positions g) (\<lambda>p.
       gbind (gmod (SetPosition E (genesis_position p))) (\<lambda>_.
       gbind (gget (\<lambda>st. GetTotalLocked st (gp_IBCDenom p))) (\<lambda>existing.
       gbind (gopt_panic ''Add'' (int_add E existing (cp_Amount (genesis_position p)))) (\<lambda>n.
       gmod (setTotalLocked (gp_IBCDenom p) n))))))"

definition to_genesis_position :: "CollateralPosition \<Rightarrow> GenesisPosition" where
  "to_genesis_position p = \<lparr>gp_Owner = cp_Owner p, gp_IBCDenom = cp_IBCDenom p, gp_Amount = Some (cp_Amount p),
     gp_LockedAt = cp_LockedAt p, gp_MintedZYTD = Some (cp_MintedZYTD p)\<rparr>"

definition coll_ExportGenesis :: "cval kv \<Rightarrow> CollateralGenesis" where
  "coll_ExportGenesis st = \<lparr>gs_CollateralAssets = GetAllCollateralAssets st,
     gs_Positions = map to_genesis_position (GetAllPositions st)\<rparr>"

subsection \<open>The IBC middleware\<close>

text \<open>
  The ICS-20 module below, the JSON decoding of its packet data and its denomination
  helpers belong to ibc-go and are parameters.
\<close>

record FungibleTokenPacketData =
  ft_Denom :: denom
  ft_Amount :: string
  ft_Receiver :: string

record 'p ibc_env =
  ibc_recv :: "'p \<Rightarrow> bool chain_op"
  ibc_parse :: "'p \<Rightarrow> FungibleTokenPacketData option"
  ibc_dest_prefix :: "'p \<Rightarrow> string"
  ibc_is_source :: "'p \<Rightarrow> denom \<Rightarrow> bool"

definition OnRecvPacket :: "'p ibc_env \<Rightarrow> 'p \<Rightarrow> bool chain_op" where
  "OnRecvPacket I p =
     gbind (ibc_recv I p) (\<lambda>ack.
     if \<not> ack then gret ack
     else case ibc_parse I p of
       None \<Rightarrow> gret ack
     | Some data \<Rightarrow>
         (let ibcDenom = (if ibc_is_source I p (ft_Denom data) then ft_Denom data
                          else ibc_dest_prefix I p @ ft_Denom data) in
          gbind (coll_get (\<lambda>st. GetCollateralAsset st ibcDenom)) (\<lambda>r. case r of
            Inl _ \<Rightarrow> gret ack
          | Inr asset \<Rightarrow>
              if \<not> ca_IsActive asset then gret ack
              else gbind (emit ''collateral_received'' [(''owner'', AStr (ft_Receiver data)),
                     (''ibc_denom'', AStr ibcDenom), (''amount'', AStr (ft_Amount data))]) (\<lambda>_. gret ack))))"

subsection \<open>Well-formed stores\<close>

lemma coll_Ret [go_iffs]:
  "coll_get f s = (Ret a, t) \<longleftrightarrow> a = f (coll_store s) \<and> t = s"
  "coll_mod g s = (Ret u, t) \<longleftrightarrow> t = s\<lparr>coll_store := g (coll_store s)\<rparr>"
  "ret_or_err r s' = (Ret x, t') \<longleftrightarrow> r = Inr x \<and> t' = s'"
  by (auto simp: coll_get_def coll_mod_def ret_or_err_def go_iffs split: sum.splits)

lemma coll_eval [go_simps]:
  "coll_get f s = (Ret (f (coll_store s)), s)"
  "coll_mod g s = (Ret (), s\<lparr>coll_store := g (coll_store s)\<rparr>)"
  "ret_or_err (Inr x) = gret x"
  "ret_or_err (Inl e) = gerr e"
  by (simp_all add: coll_get_def coll_mod_def ret_or_err_def go_simps)

definition cval_ok :: "env \<Rightarrow> string \<Rightarrow> cval \<Rightarrow> bool" where
  "cval_ok E k v = (case v of
     CAsset a \<Rightarrow> k = asset_key (ca_IBCDenom a)
   | CPos p \<Rightarrow> \<exists>a. VerifyAddressFormat a \<and> cp_Owner p = acc_String E a \<and> k = positionKey E a (cp_IBCDenom p)
               \<and> 0 \<le> cp_Amount p \<and> 0 \<le> cp_MintedZYTD p
   | CLocked n \<Rightarrow> \<exists>d. k = locked_key d)"

definition coll_wf :: "env \<Rightarrow> cval kv \<Rightarrow> bool" where
  "coll_wf E st \<longleftrightarrow> kv_inv st \<and> (\<forall>k v. kv_get st k = Some v \<longrightarrow> cval_ok E k v)"

lemma coll_keys_differ:
  "asset_key d \<noteq> positionKey E a d'" "positionKey E a d' \<noteq> asset_key d"
  "asset_key d \<noteq> locked_key d'" "locked_key d' \<noteq> asset_key d"
  "locked_key d \<noteq> positionKey E a d'" "positionKey E a d' \<noteq> locked_key d"
  "asset_key d = asset_key d' \<longleftrightarrow> d = d'" "locked_key d = locked_key d' \<longleftrightarrow> d = d'"
  by (auto simp: asset_key_def positionKey_def locked_key_def)

lemma positionKey_inj:
  assumes "bech32_laws E" "VerifyAddressFormat a" "VerifyAddressFormat b"
  shows "positionKey E a d = positionKey E b d' \<longleftrightarrow> a = b \<and> d = d'"
  using sep_append_eq [OF slash_notin_acc_String [OF assms(1), of a] slash_notin_acc_String [OF assms(1), of b], of d d']
    acc_String_inj [OF assms]
  by (auto simp: positionKey_def)

lemma coll_wfD: "coll_wf E st \<Longrightarrow> kv_get st k = Some v \<Longrightarrow> cval_ok E k v"
  by (simp add: coll_wf_def)

lemma coll_wf_set: "coll_wf E st \<Longrightarrow> cval_ok E k v \<Longrightarrow> coll_wf E (kv_set k v st)"
  by (auto simp: coll_wf_def kv_simps)

lemma coll_wf_delete: "coll_wf E st \<Longrightarrow> coll_wf E (kv_delete k st)"
  by (auto simp: coll_wf_def kv_simps split: if_splits)

lemma coll_wf_locked: "coll_wf E st \<Longrightarrow> coll_wf E (setTotalLocked d n st)"
  unfolding setTotalLocked_def by (rule coll_wf_set) (auto simp: cval_ok_def)

lemma GetPosition_wf:
  assumes B: "bech32_laws E" and wf: "coll_wf E st" and a: "VerifyAddressFormat a"
    and get: "GetPosition E st a d = Inr p"
  shows "cp_Owner p = acc_String E a" "cp_IBCDenom p = d" "0 \<le> cp_Amount p" "0 \<le> cp_MintedZYTD p"
    "kv_get st (positionKey E a d) = Some (CPos p)"
proof -
  show g: "kv_get st (positionKey E a d) = Some (CPos p)"
    using get by (auto simp: GetPosition_def split: option.splits cval.splits)
  then obtain b where "VerifyAddressFormat b" "cp_Owner p = acc_String E b"
    "positionKey E a d = positionKey E b (cp_IBCDenom p)" "0 \<le> cp_Amount p" "0 \<le> cp_MintedZYTD p"
    using coll_wfD [OF wf g] by (auto simp: cval_ok_def)
  then show "cp_Owner p = acc_String E a" "cp_IBCDenom p = d" "0 \<le> cp_Amount p" "0 \<le> cp_MintedZYTD p"
    using positionKey_inj [OF B a, of b] by auto
qed

lemma GetPosition_none:
  assumes "coll_wf E st" "GetPosition E st a d = Inl e"
  shows "kv_get st (positionKey E a d) = None"
proof (rule ccontr)
  assume "kv_get st (positionKey E a d) \<noteq> None"
  then obtain v where v: "kv_get st (positionKey E a d) = Some v" by auto
  with coll_wfD [OF assms(1) v] assms(2) show False
    by (auto simp: GetPosition_def cval_ok_def coll_keys_differ split: cval.splits)
qed

lemma SetPosition_eq:
  assumes "bech32_laws E" "VerifyAddressFormat a" "cp_Owner p = acc_String E a" "cp_IBCDenom p = d"
  shows "SetPosition E p st = kv_set (positionKey E a d) (CPos p) st"
  using assms by (simp add: SetPosition_def AccAddress_roundtrip)

subsection \<open>The sum of the positions\<close>

definition pos_amount :: "denom \<Rightarrow> string \<Rightarrow> cval \<Rightarrow> int" where
  "pos_amount d k v = (case v of CPos p \<Rightarrow> if cp_IBCDenom p = d then cp_Amount p else 0 | _ \<Rightarrow> 0)"

definition sum_positions :: "cval kv \<Rightarrow> denom \<Rightarrow> int" where
  "sum_positions st d = kv_sum (pos_amount d) st"

definition position_amount :: "env \<Rightarrow> cval kv \<Rightarrow> addr \<Rightarrow> denom \<Rightarrow> int" where
  "position_amount E st a d = (case GetPosition E st a d of Inr p \<Rightarrow> cp_Amount p | Inl _ \<Rightarrow> 0)"

lemma kv_at_pos:
  assumes "bech32_laws E" "coll_wf E st" "VerifyAddressFormat a"
  shows "kv_at (pos_amount d') st (positionKey E a d) = (if d' = d then position_amount E st a d else 0)"
proof (cases "GetPosition E st a d")
  case (Inl e)
  then show ?thesis using GetPosition_none [OF assms(2) Inl] by (simp add: kv_at_def position_amount_def)
next
  case (Inr p)
  then show ?thesis
    using GetPosition_wf [OF assms Inr] by (simp add: kv_at_def position_amount_def pos_amount_def)
qed

lemma sum_positions_set:
  assumes "bech32_laws E" "coll_wf E st" "VerifyAddressFormat a" "cp_IBCDenom p = d"
  shows "sum_positions (kv_set (positionKey E a d) (CPos p) st) d' =
    sum_positions st d' + (if d' = d then cp_Amount p - position_amount E st a d else 0)"
proof -
  have "kv_inv st" using assms(2) by (simp add: coll_wf_def)
  then show ?thesis
    using assms(4) by (auto simp: sum_positions_def kv_sum_set kv_at_pos [OF assms(1-3)] pos_amount_def)
qed

lemma sum_positions_delete:
  assumes "bech32_laws E" "coll_wf E st" "VerifyAddressFormat a"
  shows "sum_positions (kv_delete (positionKey E a d) st) d' =
    sum_positions st d' - (if d' = d then position_amount E st a d else 0)"
proof -
  have "kv_inv st" using assms(2) by (simp add: coll_wf_def)
  then show ?thesis by (simp add: sum_positions_def kv_sum_delete kv_at_pos [OF assms])
qed

lemma sum_positions_locked:
  assumes "coll_wf E st"
  shows "sum_positions (setTotalLocked d n st) = sum_positions st"
proof
  fix d'
  have "kv_at (pos_amount d') st (locked_key d) = 0"
  proof (cases "kv_get st (locked_key d)")
    case (Some v)
    then have "cval_ok E (locked_key d) v" using assms by (simp add: coll_wf_def)
    with Some show ?thesis
      by (auto simp: kv_at_def pos_amount_def cval_ok_def coll_keys_differ split: cval.splits)
  qed (simp add: kv_at_def)
  moreover have "kv_inv st" using assms by (simp add: coll_wf_def)
  ultimately show "sum_positions (setTotalLocked d n st) d' = sum_positions st d'"
    by (simp add: sum_positions_def setTotalLocked_def kv_sum_set pos_amount_def)
qed

lemma GetTotalLocked_ops [simp]:
  "GetTotalLocked (setTotalLocked d n st) d' = (if d' = d then n else GetTotalLocked st d')"
  "GetTotalLocked (kv_set (positionKey E a d) v st) d' = GetTotalLocked st d'"
  "GetTotalLocked (kv_delete (positionKey E a d) st) d' = GetTotalLocked st d'"
  by (auto simp: GetTotalLocked_def setTotalLocked_def kv_simps coll_keys_differ)

lemma GetPosition_locked [simp]: "GetPosition E (setTotalLocked d n st) a d' = GetPosition E st a d'"
  by (simp add: GetPosition_def setTotalLocked_def kv_simps coll_keys_differ)

lemma GetPosition_set:
  assumes "bech32_laws E" "VerifyAddressFormat a" "VerifyAddressFormat b"
  shows "GetPosition E (kv_set (positionKey E a d) (CPos p) st) b d' =
    (if b = a \<and> d' = d then Inr p else GetPosition E st b d')"
  using positionKey_inj [OF assms(1,3,2), of d' d] by (auto simp: GetPosition_def kv_simps)

lemma GetPosition_delete:
  assumes "bech32_laws E" "VerifyAddressFormat a" "VerifyAddressFormat b"
  shows "GetPosition E (kv_delete (positionKey E a d) st) b d' =
    (if b = a \<and> d' = d then Inl ErrPositionNotFound else GetPosition E st b d')"
  using positionKey_inj [OF assms(1,3,2), of d' d] by (auto simp: GetPosition_def kv_simps)

lemma GetCollateralAsset_ops [simp]:
  "GetCollateralAsset (setTotalLocked d n st) d' = GetCollateralAsset st d'"
  "GetCollateralAsset (kv_set (positionKey E a d) v st) d' = GetCollateralAsset st d'"
  "GetCollateralAsset (kv_delete (positionKey E a d) st) d' = GetCollateralAsset st d'"
  by (simp_all add: GetCollateralAsset_def setTotalLocked_def kv_simps coll_keys_differ)

subsection \<open>What the operations do\<close>

definition coins_of :: "denom \<Rightarrow> int \<Rightarrow> denom \<Rightarrow> int" where
  "coins_of d n = (\<lambda>d'. if d' = d then n else 0)"

lemma NewCoins_NewCoin:
  assumes "NewCoin d n = Some c" "NewCoins [c] = Some cs"
  shows "amt_of cs = coins_of d n" "ValidateDenom d" "0 \<le> n" "cs = one_coin d n"
proof -
  have c: "c = \<lparr>c_denom = d, c_amount = n\<rparr>" "ValidateDenom d" "0 \<le> n"
    using assms(1) by (simp_all add: NewCoin_Some)
  then have cs: "cs = (if n = 0 then [] else [c])" using assms(2) NewCoins_single [of d n] by auto
  then show "amt_of cs = coins_of d n" "ValidateDenom d" "0 \<le> n" "cs = one_coin d n"
    using c by (auto simp: coins_of_def one_coin_def fun_eq_iff)
qed

text \<open>the position \<open>LockCollateral\<close> starts from\<close>

definition position_or_new :: "env \<Rightarrow> ctx \<Rightarrow> cval kv \<Rightarrow> addr \<Rightarrow> denom \<Rightarrow> CollateralPosition" where
  "position_or_new E C st owner d = (case GetPosition E st owner d of
     Inr p \<Rightarrow> p
   | Inl _ \<Rightarrow> \<lparr>cp_Owner = acc_String E owner, cp_IBCDenom = d, cp_Amount = 0,
               cp_LockedAt = ctx_Unix C, cp_MintedZYTD = 0\<rparr>)"

lemma position_or_new_wf:
  assumes "bech32_laws E" "coll_wf E st" "VerifyAddressFormat a"
  shows "cp_Owner (position_or_new E C st a d) = acc_String E a" "cp_IBCDenom (position_or_new E C st a d) = d"
    "0 \<le> cp_Amount (position_or_new E C st a d)" "0 \<le> cp_MintedZYTD (position_or_new E C st a d)"
    "cp_Amount (position_or_new E C st a d) = position_amount E st a d"
  using GetPosition_wf [OF assms] by (auto simp: position_or_new_def position_amount_def split: sum.splits)

lemma LockCollateral_Ret:
  assumes L: "int_laws E" and B: "bech32_laws E" and wf: "coll_wf E (coll_store s)" and a: "VerifyAddressFormat a"
    and run: "LockCollateral E C a d amount s = (Ret u, t)"
  obtains n cs asset p b where "amount = Some n" "0 \<le> n" "ValidateDenom d"
    "GetCollateralAsset (coll_store s) d = Inr asset" "ca_IsActive asset"
    "SendCoinsFromAccountToModule E C a vault_name cs (base s) = (Ret (), b)" "amt_of cs = coins_of d n"
    "p = (position_or_new E C (coll_store s) a d)\<lparr>cp_Amount := position_amount E (coll_store s) a d + n\<rparr>"
    "t = s\<lparr>base := b, coll_store := setTotalLocked d (GetTotalLocked (coll_store s) d + n)
            (kv_set (positionKey E a d) (CPos p) (coll_store s))\<rparr>"
proof -
  let ?st = "coll_store s" and ?pos = "position_or_new E C (coll_store s) a d"
  note pw = position_or_new_wf [OF B wf a, of C d]
  obtain asset n c cs b m tot where as: "GetCollateralAsset ?st d = Inr asset" "ca_IsActive asset"
    and n: "amount = Some n" "NewCoin d n = Some c" "NewCoins [c] = Some cs"
    and send: "SendCoinsFromAccountToModule E C a vault_name cs (base s) = (Ret (), b)"
    and m: "int_add E (cp_Amount ?pos) n = Some m"
    and tot: "int_add E (GetTotalLocked (SetPosition E (?pos\<lparr>cp_Amount := m\<rparr>) ?st) d) n = Some tot"
    and t: "t = s\<lparr>base := b, coll_store := setTotalLocked d tot (SetPosition E (?pos\<lparr>cp_Amount := m\<rparr>) ?st)\<rparr>"
    using run unfolding LockCollateral_def position_or_new_def by (auto simp: go_iffs)
  have m': "m = position_amount E ?st a d + n" using m pw(5) by (simp add: int_add_Some [OF L])
  have set: "SetPosition E (?pos\<lparr>cp_Amount := m\<rparr>) ?st = kv_set (positionKey E a d) (CPos (?pos\<lparr>cp_Amount := m\<rparr>)) ?st"
    using pw by (intro SetPosition_eq [OF B a]) simp_all
  have tot': "tot = GetTotalLocked ?st d + n" using tot by (simp add: set int_add_Some [OF L])
  show thesis
    using that [OF n(1) NewCoins_NewCoin(3,2) [OF n(2,3)] as send NewCoins_NewCoin(1) [OF n(2,3)] refl]
    by (simp add: t set [unfolded m'] tot' m')
qed

lemma UnlockCollateral_Ret:
  assumes L: "int_laws E" and B: "bech32_laws E" and wf: "coll_wf E (coll_store s)" and a: "VerifyAddressFormat a"
    and run: "UnlockCollateral E C a d amount s = (Ret u, t)"
  obtains n cs p b where "amount = Some n" "0 \<le> n" "GetPosition E (coll_store s) a d = Inr p"
    "cp_MintedZYTD p = 0" "n \<le> cp_Amount p"
    "SendCoinsFromModuleToAccount E C vault_name a cs (base s) = (Ret (), b)" "amt_of cs = coins_of d n"
    "t = s\<lparr>base := b, coll_store := setTotalLocked d (max 0 (GetTotalLocked (coll_store s) d - n))
            (if n = cp_Amount p then kv_delete (positionKey E a d) (coll_store s)
             else kv_set (positionKey E a d) (CPos (p\<lparr>cp_Amount := cp_Amount p - n\<rparr>)) (coll_store s))\<rparr>"
proof -
  let ?st = "coll_store s"
  obtain p n c cs b m st' tot where p: "GetPosition E ?st a d = Inr p" "\<not> 0 < cp_MintedZYTD p"
    and n: "amount = Some n" "NewCoin d n = Some c" "NewCoins [c] = Some cs" "\<not> n > cp_Amount p"
    and send: "SendCoinsFromModuleToAccount E C vault_name a cs (base s) = (Ret (), b)"
    and m: "int_sub E (cp_Amount p) n = Some m"
    and st': "st' = (if m = 0 then deletePosition E a d ?st else SetPosition E (p\<lparr>cp_Amount := m\<rparr>) ?st)"
    and tot: "int_sub E (GetTotalLocked st' d) n = Some tot"
    and t: "t = s\<lparr>base := b, coll_store := setTotalLocked d (if tot < 0 then 0 else tot) st'\<rparr>"
    using run unfolding UnlockCollateral_def by (auto simp: go_iffs split: if_splits)
  note pw = GetPosition_wf [OF B wf a p(1)]
  have m': "m = cp_Amount p - n" using m by (simp add: int_sub_Some [OF L])
  have set: "SetPosition E (p\<lparr>cp_Amount := m\<rparr>) ?st = kv_set (positionKey E a d) (CPos (p\<lparr>cp_Amount := m\<rparr>)) ?st"
    using pw by (intro SetPosition_eq [OF B a]) simp_all
  have st'': "st' = (if n = cp_Amount p then kv_delete (positionKey E a d) ?st
      else kv_set (positionKey E a d) (CPos (p\<lparr>cp_Amount := cp_Amount p - n\<rparr>)) ?st)"
    using st' set by (auto simp: m' deletePosition_def)
  then have tot': "tot = GetTotalLocked ?st d - n" using tot by (auto simp: int_sub_Some [OF L])
  show thesis
  proof (rule that [OF n(1) NewCoins_NewCoin(3) [OF n(2,3)] p(1) _ _ send NewCoins_NewCoin(1) [OF n(2,3)]])
    show "cp_MintedZYTD p = 0" using p(2) pw(4) by simp
    show "n \<le> cp_Amount p" using n(4) by simp
    show "t = s\<lparr>base := b, coll_store := setTotalLocked d (max 0 (GetTotalLocked ?st d - n))
            (if n = cp_Amount p then kv_delete (positionKey E a d) ?st
             else kv_set (positionKey E a d) (CPos (p\<lparr>cp_Amount := cp_Amount p - n\<rparr>)) ?st)\<rparr>"
      unfolding t st'' tot' by (simp add: max_def)
  qed
qed

lemma UpdateMintedZYTD_Ret:
  assumes L: "int_laws E" and B: "bech32_laws E" and wf: "coll_wf E (coll_store s)" and a: "VerifyAddressFormat a"
    and run: "UpdateMintedZYTD E a d delta s = (Ret u, t)"
  obtains p where "GetPosition E (coll_store s) a d = Inr p" "0 \<le> cp_MintedZYTD p + delta"
    "t = s\<lparr>coll_store := kv_set (positionKey E a d) (CPos (p\<lparr>cp_MintedZYTD := cp_MintedZYTD p + delta\<rparr>)) (coll_store s)\<rparr>"
proof -
  obtain p m where p: "GetPosition E (coll_store s) a d = Inr p" and m: "int_add E (cp_MintedZYTD p) delta = Some m"
    "\<not> m < 0" and t: "t = s\<lparr>coll_store := SetPosition E (p\<lparr>cp_MintedZYTD := m\<rparr>) (coll_store s)\<rparr>"
    using run unfolding UpdateMintedZYTD_def by (auto simp: go_iffs)
  note pw = GetPosition_wf [OF B wf a p]
  have m': "m = cp_MintedZYTD p + delta" using m(1) by (simp add: int_add_Some [OF L])
  have "SetPosition E (p\<lparr>cp_MintedZYTD := m\<rparr>) (coll_store s)
      = kv_set (positionKey E a d) (CPos (p\<lparr>cp_MintedZYTD := m\<rparr>)) (coll_store s)"
    using pw by (intro SetPosition_eq [OF B a]) simp_all
  then show thesis using that [OF p] m(2) by (simp add: t m')
qed

subsection \<open>The vault invariant\<close>

definition vault_addr :: "env \<Rightarrow> addr" where
  "vault_addr E = NewModuleAddress E vault_name"

definition vault_inv :: "env \<Rightarrow> chain \<Rightarrow> bool" where
  "vault_inv E s \<longleftrightarrow> bank_ok E (base s) \<and> coll_wf E (coll_store s)
     \<and> (\<forall>d. GetTotalLocked (coll_store s) d = sum_positions (coll_store s) d)
     \<and> bk.covers E vault_name (sum_positions (coll_store s)) (base s)"

lemma pos_amount_nonneg:
  assumes "coll_wf E st" "(k, v) \<in> set st"
  shows "0 \<le> pos_amount d k v"
proof -
  have "kv_get st k = Some v" using assms by (simp add: coll_wf_def kv_get_mem)
  from coll_wfD [OF assms(1) this] show ?thesis
    by (auto simp: cval_ok_def pos_amount_def split: cval.splits)
qed

lemma position_le_sum:
  assumes "bech32_laws E" "coll_wf E st" "VerifyAddressFormat a"
  shows "0 \<le> position_amount E st a d" "position_amount E st a d \<le> sum_positions st d"
proof -
  show "0 \<le> position_amount E st a d"
    using GetPosition_wf(3) [OF assms] by (auto simp: position_amount_def split: sum.splits)
  have "kv_inv st" using assms(2) by (simp add: coll_wf_def)
  then have "kv_at (pos_amount d) st (positionKey E a d) \<le> kv_sum (pos_amount d) st"
    by (rule kv_at_le_sum) (rule pos_amount_nonneg [OF assms(2)])
  then show "position_amount E st a d \<le> sum_positions st d"
    by (simp add: kv_at_pos [OF assms] sum_positions_def)
qed

lemma coll_wf_set_pos:
  assumes "coll_wf E st" "VerifyAddressFormat a" "cp_Owner p = acc_String E a" "cp_IBCDenom p = d"
    "0 \<le> cp_Amount p" "0 \<le> cp_MintedZYTD p"
  shows "coll_wf E (kv_set (positionKey E a d) (CPos p) st)"
  by (rule coll_wf_set [OF assms(1)]) (use assms in \<open>auto simp: cval_ok_def\<close>)

lemma LockCollateral_vault:
  assumes B: "bech32_laws E" and inv: "vault_inv E s" and a: "VerifyAddressFormat a" "a \<noteq> vault_addr E"
    and run: "LockCollateral E C a d amount s = (Ret u, t)"
  shows "vault_inv E t"
proof -
  have ok: "bank_ok E (base s)" and wf: "coll_wf E (coll_store s)" and L: "int_laws E"
    using inv by (simp_all add: vault_inv_def bank_ok_def)
  obtain n cs asset p b where n: "amount = Some n" "0 \<le> n"
    and send: "SendCoinsFromAccountToModule E C a vault_name cs (base s) = (Ret (), b)" "amt_of cs = coins_of d n"
    and p: "p = (position_or_new E C (coll_store s) a d)\<lparr>cp_Amount := position_amount E (coll_store s) a d + n\<rparr>"
    and t: "t = s\<lparr>base := b, coll_store := setTotalLocked d (GetTotalLocked (coll_store s) d + n)
            (kv_set (positionKey E a d) (CPos p) (coll_store s))\<rparr>"
    by (rule LockCollateral_Ret [OF L B wf a(1) run])
  let ?st = "kv_set (positionKey E a d) (CPos p) (coll_store s)"
  have d: "cp_IBCDenom p = d" using position_or_new_wf [OF B wf a(1)] by (simp add: p)
  have wf': "coll_wf E ?st"
    by (rule coll_wf_set_pos [OF wf a(1)])
      (use position_or_new_wf [OF B wf a(1), of C d] position_le_sum(1) [OF B wf a(1), of d] n in \<open>simp_all add: p\<close>)
  have sum: "sum_positions ?st = (\<lambda>d'. sum_positions (coll_store s) d' + coins_of d n d')"
    using sum_positions_set [OF B wf a(1) d] by (auto simp: p coins_of_def fun_eq_iff)
  have "bk.covers E vault_name (\<lambda>d'. sum_positions (coll_store s) d' + amt_of cs d') b"
    using bk.deposit_covers [OF ok a(1) _ _ send(1)] a(2) inv by (simp add: vault_inv_def vault_addr_def)
  then show ?thesis
    using inv bk.to_module [OF ok a(1) send(1)] coll_wf_locked [OF wf']
    by (auto simp: vault_inv_def t sum_positions_locked [OF wf'] sum send(2) bk.covers_def) (simp add: coins_of_def)+
qed

lemma UnlockCollateral_vault:
  assumes B: "bech32_laws E" and inv: "vault_inv E s" and a: "VerifyAddressFormat a" "a \<noteq> vault_addr E"
    and run: "UnlockCollateral E C a d amount s = (Ret u, t)"
  shows "vault_inv E t"
proof -
  have ok: "bank_ok E (base s)" and wf: "coll_wf E (coll_store s)" and L: "int_laws E"
    using inv by (simp_all add: vault_inv_def bank_ok_def)
  obtain n cs p b where n: "amount = Some n" "0 \<le> n" and p: "GetPosition E (coll_store s) a d = Inr p" "n \<le> cp_Amount p"
    and send: "SendCoinsFromModuleToAccount E C vault_name a cs (base s) = (Ret (), b)" "amt_of cs = coins_of d n"
    and t: "t = s\<lparr>base := b, coll_store := setTotalLocked d (max 0 (GetTotalLocked (coll_store s) d - n))
            (if n = cp_Amount p then kv_delete (positionKey E a d) (coll_store s)
             else kv_set (positionKey E a d) (CPos (p\<lparr>cp_Amount := cp_Amount p - n\<rparr>)) (coll_store s))\<rparr>"
    by (rule UnlockCollateral_Ret [OF L B wf a(1) run])
  define st' where "st' = (if n = cp_Amount p then kv_delete (positionKey E a d) (coll_store s)
             else kv_set (positionKey E a d) (CPos (p\<lparr>cp_Amount := cp_Amount p - n\<rparr>)) (coll_store s))"
  have am: "position_amount E (coll_store s) a d = cp_Amount p" using p by (simp add: position_amount_def)
  note pw = GetPosition_wf [OF B wf a(1) p(1)]
  have "coll_wf E (kv_set (positionKey E a d) (CPos (p\<lparr>cp_Amount := cp_Amount p - n\<rparr>)) (coll_store s))"
    by (rule coll_wf_set_pos [OF wf a(1)]) (use pw p(2) in simp_all)
  then have wf': "coll_wf E st'" using coll_wf_delete [OF wf] by (simp add: st'_def)
  have dn: "cp_IBCDenom (p\<lparr>cp_Amount := cp_Amount p - n\<rparr>) = d" using pw by simp
  have sum: "sum_positions st' = (\<lambda>d'. sum_positions (coll_store s) d' - coins_of d n d')"
    by (simp add: st'_def fun_eq_iff sum_positions_set [OF B wf a(1) dn] sum_positions_delete [OF B wf a(1)] am coins_of_def)
  have max: "max 0 (GetTotalLocked (coll_store s) d - n) = GetTotalLocked (coll_store s) d - n"
    using position_le_sum(2) [OF B wf a(1), of d] inv p(2) by (simp add: am vault_inv_def)
  have tl: "GetTotalLocked st' d' = GetTotalLocked (coll_store s) d'" for d' by (simp add: st'_def)
  have "bk.covers E vault_name (\<lambda>d'. sum_positions (coll_store s) d' - amt_of cs d') b"
    using bk.withdraw_covers [OF ok a(1) _ _ send(1)] a(2) inv by (simp add: vault_inv_def vault_addr_def)
  then show ?thesis
    using inv bk.from_module [OF ok a(1) send(1)] coll_wf_locked [OF wf']
    unfolding vault_inv_def t max st'_def [symmetric]
    by (simp add: sum_positions_locked [OF wf'] sum send(2) tl) (simp add: coins_of_def)
qed

lemma UpdateMintedZYTD_vault:
  assumes B: "bech32_laws E" and inv: "vault_inv E s" and a: "VerifyAddressFormat a"
    and run: "UpdateMintedZYTD E a d delta s = (Ret u, t)"
  shows "vault_inv E t"
proof -
  have wf: "coll_wf E (coll_store s)" and L: "int_laws E" using inv by (simp_all add: vault_inv_def bank_ok_def)
  obtain p where p: "GetPosition E (coll_store s) a d = Inr p" "0 \<le> cp_MintedZYTD p + delta"
    and t: "t = s\<lparr>coll_store := kv_set (positionKey E a d) (CPos (p\<lparr>cp_MintedZYTD := cp_MintedZYTD p + delta\<rparr>)) (coll_store s)\<rparr>"
    by (rule UpdateMintedZYTD_Ret [OF L B wf a run])
  note pw = GetPosition_wf [OF B wf a p(1)]
  have "coll_wf E (coll_store t)"
    unfolding t using pw p(2) by (auto intro!: coll_wf_set_pos [OF wf a])
  moreover have "sum_positions (coll_store t) = sum_positions (coll_store s)"
    using sum_positions_set [OF B wf a, of "p\<lparr>cp_MintedZYTD := cp_MintedZYTD p + delta\<rparr>" d] pw p(1)
    by (simp add: t position_amount_def fun_eq_iff)
  ultimately show ?thesis using inv by (simp add: vault_inv_def t)
qed

subsection \<open>Properties\<close>

lemma vault_registered: "GetModuleAddressAndPermissions E vault_name \<noteq> None"
  by (simp add: GetModuleAddressAndPermissions_def maccPerms_def vault_name_def)

lemma UnlockCollateral_run:
  assumes B: "bech32_laws E" and inv: "vault_inv E s" and a: "VerifyAddressFormat a" "a \<noteq> vault_addr E"
    and p: "GetPosition E (coll_store s) a d = Inr p" "cp_MintedZYTD p = 0" and n: "0 < n" "n \<le> cp_Amount p"
    and d: "ValidateDenom d" and nb: "\<not> BlockedAddr E a"
    and fits: "int_fits (balance_of (base s) a d + n)"
    and acc: "\<forall>f k. kv_get (ac_accounts (base s)) (vault_addr E) \<noteq> Some (VestingAccount f k)"
  shows "\<exists>t. UnlockCollateral E C a d (Some n) s = (Ret (), t)"
proof -
  have ok: "bank_ok E (base s)" and wf: "coll_wf E (coll_store s)" and L: "int_laws E" and A: "addr_laws E"
    and bwf: "bank_wf (base s)" using inv by (simp_all add: vault_inv_def bank_ok_def)
  let ?tot = "sum_positions (coll_store s) d" and ?v = "balance_of (base s) (vault_addr E) d"
  have am: "position_amount E (coll_store s) a d = cp_Amount p" using p by (simp add: position_amount_def)
  have le: "cp_Amount p \<le> ?tot" using position_le_sum(2) [OF B wf a(1), of d] by (simp add: am)
  have cov: "?tot \<le> ?v" using inv by (simp add: vault_inv_def bk.covers_def vault_addr_def)
  have vf: "int_fits ?v" by (rule balance_of_range(2) [OF bwf])
  have nc: "NewCoin d n = Some \<lparr>c_denom = d, c_amount = n\<rparr>" using d n by (simp add: NewCoin_Some)
  have ncs: "NewCoins [\<lparr>c_denom = d, c_amount = n\<rparr>] = Some [\<lparr>c_denom = d, c_amount = n\<rparr>]"
    using d n by (simp add: NewCoins_single)
  obtain b where "SendCoins E C (vault_addr E) a [\<lparr>c_denom = d, c_amount = n\<rparr>] (base s) = (Ret (), b)"
    using SendCoins_run [OF L bwf _ a(1) a(2) [symmetric] d n(1) _ fits acc] NewModuleAddress_ok [OF A] n(2) le cov
    by (auto simp: vault_addr_def)
  then have send: "SendCoinsFromModuleToAccount E C vault_name a [\<lparr>c_denom = d, c_amount = n\<rparr>] (base s) = (Ret (), b)"
    using vault_registered [of E] nb
    by (auto simp: SendCoinsFromModuleToAccount_def GetModuleAddressAndPermissions_def go_simps vault_addr_def)
  have sub: "int_sub E (cp_Amount p) n = Some (cp_Amount p - n)" "int_sub E (GetTotalLocked (coll_store s) d) n = Some (?tot - n)"
    using vf cov le n inv by (auto simp: int_sub_Some [OF L] int_fits_def vault_inv_def)
  have z: "int_sub E n n = Some 0" by (simp add: int_sub_Some [OF L] int_fits_def)
  have tl: "GetTotalLocked (deletePosition E a d (coll_store s)) d = GetTotalLocked (coll_store s) d"
    "GetTotalLocked (SetPosition E q (coll_store s)) d = GetTotalLocked (coll_store s) d" for q
    by (auto simp: deletePosition_def SetPosition_def split: option.splits)
  show ?thesis
    using p n sub
    by (cases "cp_Amount p - n = 0")
      (simp_all add: UnlockCollateral_def go_simps nc ncs send sub z tl)
qed

text \<open>
  Withdrawal is always possible: in a state where the vault invariant holds, an
  ordinary owner whose position carries no ZYTD debt can release any positive part of the
  locked amount, the operation succeeds, and it keeps the vault invariant.
\<close>

theorem debt_free_withdrawal:
  assumes "bech32_laws E" and "vault_inv E s" and "VerifyAddressFormat a" and "a \<noteq> vault_addr E"
    and "GetPosition E (coll_store s) a d = Inr p" and "cp_MintedZYTD p = 0" and "0 < n" and "n \<le> cp_Amount p"
    and "ValidateDenom d" and "\<not> BlockedAddr E a" and "int_fits (balance_of (base s) a d + n)"
    and "\<forall>f k. kv_get (ac_accounts (base s)) (vault_addr E) \<noteq> Some (VestingAccount f k)"
  shows "\<exists>t. UnlockCollateral E C a d (Some n) s = (Ret (), t) \<and> vault_inv E t
    \<and> balance_of (base t) a d = balance_of (base s) a d + n
    \<and> position_amount E (coll_store t) a d = position_amount E (coll_store s) a d - n"
proof -
  have ok: "bank_ok E (base s)" and wf: "coll_wf E (coll_store s)" and L: "int_laws E"
    using assms(2) by (simp_all add: vault_inv_def bank_ok_def)
  obtain t where run: "UnlockCollateral E C a d (Some n) s = (Ret (), t)"
    using UnlockCollateral_run [OF assms] by blast
  obtain cs p' b where p': "GetPosition E (coll_store s) a d = Inr p'"
    and send: "SendCoinsFromModuleToAccount E C vault_name a cs (base s) = (Ret (), b)" "amt_of cs = coins_of d n"
    and t: "t = s\<lparr>base := b, coll_store := setTotalLocked d (max 0 (GetTotalLocked (coll_store s) d - n))
            (if n = cp_Amount p' then kv_delete (positionKey E a d) (coll_store s)
             else kv_set (positionKey E a d) (CPos (p'\<lparr>cp_Amount := cp_Amount p' - n\<rparr>)) (coll_store s))\<rparr>"
    by (rule UnlockCollateral_Ret [OF L assms(1) wf assms(3) run]) auto
  have "balance_of b a d = balance_of (base s) a d + n"
    using bk.from_module [OF ok assms(3) send(1)] assms(3,4) send(2) by (simp add: vault_addr_def coins_of_def)
  moreover have "position_amount E (coll_store t) a d = position_amount E (coll_store s) a d - n"
    using p' assms(1,3) by (simp add: t position_amount_def GetPosition_delete GetPosition_set)
  ultimately show ?thesis
    using run UnlockCollateral_vault [OF assms(1-4) run] by (simp add: t)
qed

text \<open>
  No release against debt: while a position carries ZYTD debt, every request to
  release its collateral, whatever the amount, fails with \<open>ErrUnlockDenied\<close> and changes
  nothing.
\<close>

theorem UnlockCollateral_denied:
  assumes "GetPosition E (coll_store s) a d = Inr p" and "0 < cp_MintedZYTD p"
  shows "UnlockCollateral E C a d amount s = (Err ErrUnlockDenied, s)"
  using assms by (simp add: UnlockCollateral_def go_simps)

text \<open>
  Locking is exact: an accepted lock names an active asset; it moves exactly that
  amount from the owner to the vault, adds it to the owner's position and to the counter
  of the denomination, keeps the position's owner, denomination, lock time and debt, and
  leaves every other position, every other counter and the assets as they were.
\<close>

theorem LockCollateral_exact:
  assumes "bech32_laws E" and "vault_inv E s" and "VerifyAddressFormat a" and "a \<noteq> vault_addr E"
    and "LockCollateral E C a d amount s = (Ret u, t)"
  shows "\<exists>n asset. amount = Some n \<and> 0 \<le> n
    \<and> GetCollateralAsset (coll_store s) d = Inr asset \<and> ca_IsActive asset
    \<and> balance_of (base t) a d = balance_of (base s) a d - n
    \<and> balance_of (base t) (vault_addr E) d = balance_of (base s) (vault_addr E) d + n
    \<and> GetPosition E (coll_store t) a d =
        Inr ((position_or_new E C (coll_store s) a d)\<lparr>cp_Amount := position_amount E (coll_store s) a d + n\<rparr>)
    \<and> GetTotalLocked (coll_store t) d = GetTotalLocked (coll_store s) d + n
    \<and> (\<forall>b d'. VerifyAddressFormat b \<longrightarrow> (b, d') \<noteq> (a, d) \<longrightarrow>
          GetPosition E (coll_store t) b d' = GetPosition E (coll_store s) b d')
    \<and> (\<forall>d'. d' \<noteq> d \<longrightarrow> GetTotalLocked (coll_store t) d' = GetTotalLocked (coll_store s) d')
    \<and> GetCollateralAsset (coll_store t) = GetCollateralAsset (coll_store s)
    \<and> vault_inv E t"
proof -
  have ok: "bank_ok E (base s)" and wf: "coll_wf E (coll_store s)" and L: "int_laws E"
    using assms(2) by (simp_all add: vault_inv_def bank_ok_def)
  obtain n cs asset p b where n: "amount = Some n" "0 \<le> n"
    and as: "GetCollateralAsset (coll_store s) d = Inr asset" "ca_IsActive asset"
    and send: "SendCoinsFromAccountToModule E C a vault_name cs (base s) = (Ret (), b)" "amt_of cs = coins_of d n"
    and p: "p = (position_or_new E C (coll_store s) a d)\<lparr>cp_Amount := position_amount E (coll_store s) a d + n\<rparr>"
    and t: "t = s\<lparr>base := b, coll_store := setTotalLocked d (GetTotalLocked (coll_store s) d + n)
            (kv_set (positionKey E a d) (CPos p) (coll_store s))\<rparr>"
    by (rule LockCollateral_Ret [OF L assms(1) wf assms(3,5)])
  have "balance_of b a d = balance_of (base s) a d - n"
    "balance_of b (vault_addr E) d = balance_of (base s) (vault_addr E) d + n"
    using bk.to_module [OF ok assms(3) send(1)] assms(3,4) send(2) bk.module_ok [OF ok, of vault_name]
    by (simp_all add: vault_addr_def coins_of_def)
  then show ?thesis
    using n as GetPosition_set [OF assms(1,3)] assms(3) LockCollateral_vault [OF assms]
    by (intro exI [of _ n] exI [of _ asset]) (auto simp: t p [symmetric] fun_eq_iff)
qed

subsection \<open>Concrete states\<close>

text \<open>
  The default genesis with an account that holds 10 uzytc, and the states after it locks
  4 of them and after 3 units of debt are recorded.
\<close>

definition ctx1 :: ctx where
  "ctx1 = \<lparr>block_height = 1, block_time = 0\<rparr>"

definition vault_start :: chain where
  "vault_start = \<lparr>base = bank_example, oracle_store = [],
     coll_store = snd (coll_InitGenesis env0 coll_DefaultGenesis []), sc_store = [],
     staking = \<lparr>sv_validators = [''val''], sv_bonded_by_power = [''val'']\<rparr>\<rparr>"

definition vault_locked :: chain where
  "vault_locked = snd (LockCollateral env0 ctx1 ''alice'' ''uzytc'' (Some 4) vault_start)"

definition vault_debt :: chain where
  "vault_debt = snd (UpdateMintedZYTD env0 ''alice'' ''uzytc'' 3 vault_locked)"

definition asset_entry :: "string \<times> cval \<Rightarrow> bool" where
  "asset_entry e = (case snd e of CAsset a \<Rightarrow> fst e = asset_key (ca_IBCDenom a) | _ \<Rightarrow> False)"

lemma only_assets:
  assumes "kv_inv st" "list_all asset_entry st"
  shows "coll_wf E st" "sum_positions st d = 0" "GetTotalLocked st d = 0"
proof -
  have mem: "asset_entry (k, v)" if "kv_get st k = Some v" for k v
    using that assms by (auto simp: kv_get_mem list_all_iff)
  show "coll_wf E st"
    using assms(1) by (auto simp: coll_wf_def cval_ok_def asset_entry_def split: cval.splits dest!: mem)
  show "sum_positions st d = 0"
    using assms(2) unfolding sum_positions_def
    by (induction st) (auto simp: kv_sum_def pos_amount_def asset_entry_def split: cval.splits)
  show "GetTotalLocked st d = 0"
    by (auto simp: GetTotalLocked_def asset_entry_def split: option.splits cval.splits dest!: mem)
qed

lemma vault_start_inv: "vault_inv env0 vault_start"
proof -
  have st: "kv_inv (coll_store vault_start)" "list_all asset_entry (coll_store vault_start)" by code_simp+
  have ok: "bank_ok env0 (base vault_start)"
    by (simp add: bank_ok_def env0_int_laws env0_addr_laws vault_start_def bank_example_wf)
  then show ?thesis
    using only_assets [OF st] balance_of_range(1)
    by (auto simp: vault_inv_def bk.covers_def bank_ok_def)
qed

lemma vault_examples_run:
  "LockCollateral env0 ctx1 ''alice'' ''uzytc'' (Some 4) vault_start = (Ret (), vault_locked)"
  "UpdateMintedZYTD env0 ''alice'' ''uzytc'' 3 vault_locked = (Ret (), vault_debt)"
proof -
  have "fst (LockCollateral env0 ctx1 ''alice'' ''uzytc'' (Some 4) vault_start) = Ret ()" by code_simp
  then show "LockCollateral env0 ctx1 ''alice'' ''uzytc'' (Some 4) vault_start = (Ret (), vault_locked)"
    by (simp add: prod_eq_iff vault_locked_def)
  have "fst (UpdateMintedZYTD env0 ''alice'' ''uzytc'' 3 vault_locked) = Ret ()" by code_simp
  then show "UpdateMintedZYTD env0 ''alice'' ''uzytc'' 3 vault_locked = (Ret (), vault_debt)"
    by (simp add: prod_eq_iff vault_debt_def)
qed

lemma alice_ok: "VerifyAddressFormat ''alice''" "''alice'' \<noteq> vault_addr env0" "\<not> BlockedAddr env0 ''alice''"
  by code_simp+

lemma vault_locked_inv: "vault_inv env0 vault_locked"
  by (rule LockCollateral_vault [OF env0_bech32_laws vault_start_inv alice_ok(1,2) vault_examples_run(1)])

theorem debt_free_withdrawal_witness:
  "\<exists>t. UnlockCollateral env0 ctx1 ''alice'' ''uzytc'' (Some 3) vault_locked = (Ret (), t) \<and> vault_inv env0 t
    \<and> position_amount env0 (coll_store t) ''alice'' ''uzytc'' = 1"
proof -
  have p: "GetPosition env0 (coll_store vault_locked) ''alice'' ''uzytc'' = Inr \<lparr>cp_Owner = acc_String env0 ''alice'',
      cp_IBCDenom = ''uzytc'', cp_Amount = 4, cp_LockedAt = 0, cp_MintedZYTD = 0\<rparr>" by code_simp
  have "ValidateDenom ''uzytc''" "int_fits (balance_of (base vault_locked) ''alice'' ''uzytc'' + 3)"
    "case kv_get (ac_accounts (base vault_locked)) (vault_addr env0) of Some (VestingAccount f k) \<Rightarrow> False | _ \<Rightarrow> True"
    by code_simp+
  then show ?thesis
    using debt_free_withdrawal [OF env0_bech32_laws vault_locked_inv alice_ok(1,2) p, of 3 ctx1] alice_ok(3) p
    by (auto simp: position_amount_def split: option.splits account.splits)
qed

theorem UnlockCollateral_denied_witness:
  "UnlockCollateral env0 ctx1 ''alice'' ''uzytc'' (Some 1) vault_debt = (Err ErrUnlockDenied, vault_debt)"
proof -
  have "GetPosition env0 (coll_store vault_debt) ''alice'' ''uzytc'' = Inr \<lparr>cp_Owner = acc_String env0 ''alice'',
      cp_IBCDenom = ''uzytc'', cp_Amount = 4, cp_LockedAt = 0, cp_MintedZYTD = 3\<rparr>" by code_simp
  from UnlockCollateral_denied [OF this] show ?thesis by simp
qed

theorem LockCollateral_exact_witness:
  "balance_of (base vault_locked) ''alice'' ''uzytc'' = balance_of (base vault_start) ''alice'' ''uzytc'' - 4
    \<and> GetTotalLocked (coll_store vault_locked) ''uzytc'' = GetTotalLocked (coll_store vault_start) ''uzytc'' + 4"
  using LockCollateral_exact [OF env0_bech32_laws vault_start_inv alice_ok(1,2) vault_examples_run(1)] by auto

end
