(* ===== verification/Migration.thy ===== *)
theory Migration
  imports Collateral
begin

section \<open>Migration phases and replay protection\<close>

text \<open>
  \<open>x/stablecoin/types/migration.go\<close>: the three phases of the switch to Dilithium5 keys
  and the two guards the handlers call. \<open>x/stablecoin/ante/replay_protection.go\<close>: the
  decorator that accepts a ZYTD message only when its expiration height lies in the window
  of five blocks from the current one.
\<close>

datatype MigrationPhase = MigrationPhase1 | MigrationPhase2 | MigrationPhase3

definition GracePhaseLockHeight :: int where
  "GracePhaseLockHeight = 20000"

definition GracePhaseHardHeight :: int where
  "GracePhaseHardHeight = 50000"

definition GetMigrationPhase :: "int \<Rightarrow> MigrationPhase" where
  "GetMigrationPhase h =
     (if h \<le> GracePhaseLockHeight then MigrationPhase1
      else if h \<le> GracePhaseHardHeight then MigrationPhase2
      else MigrationPhase3)"

definition CheckMintAllowed :: "int \<Rightarrow> err option" where
  "CheckMintAllowed h = (if GetMigrationPhase h = MigrationPhase2 then Some ErrMigrationMintForbidden else None)"

definition CheckHardFreeze :: "int \<Rightarrow> bool \<Rightarrow> err option" where
  "CheckHardFreeze h hasPQCKey =
     (if GetMigrationPhase h \<noteq> MigrationPhase3 then None
      else if \<not> hasPQCKey then Some ErrHardFreezeNoKey
      else None)"

definition phase_String :: "MigrationPhase \<Rightarrow> string" where
  "phase_String p = (case p of
     MigrationPhase1 \<Rightarrow> ''Phase1-ActiveRegistration''
   | MigrationPhase2 \<Rightarrow> ''Phase2-LockOnlyMigration''
   | MigrationPhase3 \<Rightarrow> ''Phase3-HardEnforcement'')"

definition fail_with :: "err option \<Rightarrow> ('s, err, unit) go" where
  "fail_with r = (case r of None \<Rightarrow> gret () | Some e \<Rightarrow> gerr e)"

lemma fail_with_Ret [go_iffs]: "fail_with r s = (Ret u, t) \<longleftrightarrow> r = None \<and> t = s"
  by (auto simp: fail_with_def go_iffs split: option.splits)

lemma fail_with_eval [go_simps]: "fail_with None = gret ()" "fail_with (Some e) = gerr e"
  by (simp_all add: fail_with_def)

subsection \<open>Replay protection\<close>

text \<open>
  A message either carries an expiration height (it implements
  \<open>ExpirationBlockHeighter\<close>) or is passed through: \<open>None\<close>.
\<close>

definition MaxExpirationWindow :: int where
  "MaxExpirationWindow = 5"

fun replay_loop :: "int \<Rightarrow> int option list \<Rightarrow> err option" where
  "replay_loop h [] = None"
| "replay_loop h (None # ms) = replay_loop h ms"
| "replay_loop h (Some ex # ms) =
     (if ex < h then Some ErrExpirationPast
      else if ex > i64 (h + MaxExpirationWindow) then Some ErrExpirationTooFar
      else replay_loop h ms)"

definition AnteHandle :: "ctx \<Rightarrow> int option list \<Rightarrow> bool \<Rightarrow> (bool \<Rightarrow> ('s, err, unit) go) \<Rightarrow> ('s, err, unit) go" where
  "AnteHandle C msgs simulate next =
     (if simulate then next simulate
      else gbind (fail_with (replay_loop (block_height C) msgs)) (\<lambda>_. next simulate))"

lemma replay_loop_None:
  "replay_loop h ms = None \<longleftrightarrow> (\<forall>ex. Some ex \<in> set ms \<longrightarrow> h \<le> ex \<and> ex \<le> i64 (h + MaxExpirationWindow))"
  by (induction h ms rule: replay_loop.induct) auto

text \<open>
  The replay window is exact: outside simulation a transaction reaches the next
  handler if and only if every ZYTD message in it expires no earlier than the current
  height and at most five blocks later; otherwise the transaction is rejected without
  any change, and in simulation it is always passed on.
\<close>

theorem replay_window_exact:
  assumes "0 \<le> block_height C" and "block_height C < 2 ^ 62"
  shows "AnteHandle C msgs False next s =
    (if \<forall>ex. Some ex \<in> set msgs \<longrightarrow> block_height C \<le> ex \<and> ex \<le> block_height C + 5
     then next False s
     else (Err (the (replay_loop (block_height C) msgs)), s))
    \<and> AnteHandle C msgs True next s = next True s"
proof -
  have "i64 (block_height C + MaxExpirationWindow) = block_height C + 5"
    unfolding MaxExpirationWindow_def by (rule i64_id) (use assms in \<open>simp add: in_i64_def\<close>)
  then show ?thesis
    using replay_loop_None [of "block_height C" msgs]
    by (cases "replay_loop (block_height C) msgs") (auto simp: AnteHandle_def go_simps)
qed

theorem replay_window_exact_witness:
  "AnteHandle \<lparr>block_height = 100, block_time = 0\<rparr> [Some 103, None] False (\<lambda>_. gret ()) (7 :: nat) = (Ret (), 7)
   \<and> AnteHandle \<lparr>block_height = 100, block_time = 0\<rparr> [Some 103, Some 99] False (\<lambda>_. gret ()) (7 :: nat)
      = (Err ErrExpirationPast, 7)"
  using replay_window_exact [of "\<lparr>block_height = 100, block_time = 0\<rparr>" "[Some 103, None]" "\<lambda>_. gret ()" "7 :: nat"]
    replay_window_exact [of "\<lparr>block_height = 100, block_time = 0\<rparr>" "[Some 103, Some 99]" "\<lambda>_. gret ()" "7 :: nat"]
  by (auto simp: go_simps MaxExpirationWindow_def i64_id in_i64_def)

end
