(* ===== verification/Pqc.thy ===== *)
theory Pqc
  imports Externals
begin

section \<open>Dilithium5 signatures\<close>

text \<open>
  \<open>x/privacy/pqc/signature.go\<close>: length checks around the scheme of the CIRCL library, whose
  key unpacking, signing and verification are fields of \<open>env\<close>.
\<close>

record KeyPair =
  kp_PublicKey :: string
  kp_PrivateKey :: string

definition pqc_Sign :: "env \<Rightarrow> string \<Rightarrow> string \<Rightarrow> string option" where
  "pqc_Sign E message privKey =
     (if length privKey \<noteq> mode5_PrivateKeySize E then None else Some (mode5_Sign E privKey message))"

definition pqc_Verify :: "env \<Rightarrow> string \<Rightarrow> string \<Rightarrow> string \<Rightarrow> bool" where
  "pqc_Verify E message signature pubKey =
     (if length pubKey \<noteq> mode5_PublicKeySize E then False
      else if length signature \<noteq> mode5_SignatureSize E then False
      else mode5_Verify E pubKey message signature)"

text \<open>
  What the scheme promises of a key pair: keys and signatures have their sizes and what
  the private key signs verifies under the public key.
\<close>

definition key_pair_ok :: "env \<Rightarrow> KeyPair \<Rightarrow> bool" where
  "key_pair_ok E kp \<longleftrightarrow> length (kp_PublicKey kp) = mode5_PublicKeySize E
     \<and> length (kp_PrivateKey kp) = mode5_PrivateKeySize E \<and> 0 < mode5_PublicKeySize E
     \<and> 0 < mode5_PrivateKeySize E \<and> 0 < mode5_SignatureSize E
     \<and> (\<forall>m. length (mode5_Sign E (kp_PrivateKey kp) m) = mode5_SignatureSize E
           \<and> mode5_Verify E (kp_PublicKey kp) m (mode5_Sign E (kp_PrivateKey kp) m))"

lemma sign_verify:
  assumes "key_pair_ok E kp"
  shows "\<exists>sig. pqc_Sign E m (kp_PrivateKey kp) = Some sig \<and> pqc_Verify E m sig (kp_PublicKey kp)"
  using assms by (simp add: key_pair_ok_def pqc_Sign_def pqc_Verify_def)

lemma env0_key_pair: "key_pair_ok env0 \<lparr>kp_PublicKey = ''keys'', kp_PrivateKey = ''keys''\<rparr>"
  by (simp add: key_pair_ok_def env0_def)

end
