(* ===== verification/Hex.thy ===== *)
theory Hex
  imports Prelude
begin

section \<open>Hexadecimal strings\<close>

text \<open>
  What the code uses of Go's \<open>encoding/hex\<close>: lower-case encoding, and decoding that accepts
  both cases and refuses any other character and an odd length.
\<close>

definition hex_digit :: "nat \<Rightarrow> char" where
  "hex_digit n = char_of (if n < 10 then 48 + n else 87 + n)"

fun hex_EncodeToString :: "string \<Rightarrow> string" where
  "hex_EncodeToString [] = []"
| "hex_EncodeToString (c # cs) =
     hex_digit (of_char c div 16) # hex_digit (of_char c mod 16) # hex_EncodeToString cs"

definition hex_value :: "char \<Rightarrow> nat option" where
  "hex_value c = (let n = of_char c :: nat in
     if 48 \<le> n \<and> n \<le> 57 then Some (n - 48)
     else if 97 \<le> n \<and> n \<le> 102 then Some (n - 87)
     else if 65 \<le> n \<and> n \<le> 70 then Some (n - 55)
     else None)"

fun hex_DecodeString :: "string \<Rightarrow> string option" where
  "hex_DecodeString [] = Some []"
| "hex_DecodeString [c] = None"
| "hex_DecodeString (a # b # cs) = (case hex_value a of
       None \<Rightarrow> None
     | Some x \<Rightarrow> (case hex_value b of
         None \<Rightarrow> None
       | Some y \<Rightarrow> map_option (\<lambda>r. char_of (16 * x + y) # r) (hex_DecodeString cs)))"

lemma of_hex_digit: "n < 16 \<Longrightarrow> of_char (hex_digit n) = (if n < 10 then 48 + n else 87 + n)"
  by (simp add: hex_digit_def of_char_of)

lemma hex_value_digit [simp]: "n < 16 \<Longrightarrow> hex_value (hex_digit n) = Some n"
  by (simp add: hex_value_def of_hex_digit)

lemma hi_nibble [simp]: "of_char c div 16 < (16 :: nat)"
  by (rule less_mult_imp_div_less) (use of_char_less_256 [of c] in simp)

lemma hi_nibble_le [simp]: "of_char c div 16 \<le> (15 :: nat)"
  using hi_nibble [of c] by linarith

lemma hex_roundtrip [simp]: "hex_DecodeString (hex_EncodeToString s) = Some s"
  by (induction s) simp_all

lemma hex_EncodeToString_inj: "hex_EncodeToString a = hex_EncodeToString b \<longleftrightarrow> a = b"
  by (metis hex_roundtrip option.inject)

lemma hex_EncodeToString_length [simp]: "length (hex_EncodeToString s) = 2 * length s"
  by (induction s) simp_all

lemma hex_EncodeToString_Nil [simp]: "hex_EncodeToString s = [] \<longleftrightarrow> s = []"
  by (cases s) simp_all

lemma hex_EncodeToString_append [simp]: "hex_EncodeToString (a @ b) = hex_EncodeToString a @ hex_EncodeToString b"
  by (induction a) simp_all

lemma hex_chars:
  "c \<in> set (hex_EncodeToString s) \<Longrightarrow> 48 \<le> (of_char c :: nat) \<and> (of_char c :: nat) \<le> 57 \<or> 97 \<le> (of_char c :: nat) \<and> (of_char c :: nat) \<le> 102"
  by (induction s) (auto simp: of_hex_digit split: if_splits)

lemma hex_no_char:
  "(of_char c :: nat) < 48 \<Longrightarrow> c \<notin> set (hex_EncodeToString s)"
  using hex_chars [of c s] by auto

lemma slash_notin_hex [simp]: "CHR ''/'' \<notin> set (hex_EncodeToString s)"
  by (rule hex_no_char) simp

lemma hex_decode_length: "hex_DecodeString s = Some r \<Longrightarrow> length s = 2 * length r"
  by (induction s arbitrary: r rule: hex_DecodeString.induct) (auto split: option.splits)

end
