(* ===== verification/Stablecoin.thy ===== *)
theory Stablecoin
  imports Migration Pqc Hex
begin

section \<open>x/stablecoin\<close>

text \<open>
  Minting ZYTD against locked collateral, burning it, liquidation and the registry of
  Dilithium5 keys. Follows \<open>x/stablecoin/keeper/keeper.go\<close>, \<open>msg_server.go\<close>,
  \<open>query_server.go\<close>, \<open>genesis.go\<close> and \<open>types\<close>. The module relies on the bank, the oracle and the vault.
\<close>

definition mint_account :: string where
  "mint_account = ''stablecoin_mint''"

definition ZYTDDenom :: denom where
  "ZYTDDenom = ''uzytd''"

definition sc_get :: "(sval kv \<Rightarrow> 'a) \<Rightarrow> 'a chain_op" where
  "sc_get f = gget (\<lambda>s. f (sc_store s))"

definition sc_mod :: "(sval kv \<Rightarrow> sval kv) \<Rightarrow> unit chain_op" where
  "sc_mod f = gmod (\<lambda>s. s\<lparr>sc_store := f (sc_store s)\<rparr>)"

subsection \<open>Parameters, records, supply\<close>

definition DefaultStablecoinParams :: StablecoinParams where
  "DefaultStablecoinParams = \<lparr>sp_ZYTDDenom = ZYTDDenom, sp_StabilityFeePerYear = 5 * 10 ^ 15,
     sp_LiquidationPenalty = 10 * 10 ^ 16, sp_LiquidatorReward = 8 * 10 ^ 16,
     sp_ProtocolFeeReceiver = mint_account\<rparr>"

definition sc_GetParams :: "sval kv \<Rightarrow> StablecoinParams" where
  "sc_GetParams st = (case kv_get st ''sc_params'' of Some (SParams p) \<Rightarrow> p | _ \<Rightarrow> DefaultStablecoinParams)"

definition sc_SetParams :: "StablecoinParams \<Rightarrow> sval kv \<Rightarrow> sval kv" where
  "sc_SetParams p st = kv_set ''sc_params'' (SParams p) st"

definition mintRecordKey :: "env \<Rightarrow> addr \<Rightarrow> denom \<Rightarrow> string" where
  "mintRecordKey E owner d = ''mint/'' @ acc_String E owner @ ''/'' @ d"

definition GetMintRecord :: "env \<Rightarrow> sval kv \<Rightarrow> addr \<Rightarrow> denom \<Rightarrow> err + MintRecord" where
  "GetMintRecord E st owner d = (case kv_get st (mintRecordKey E owner d) of
     None \<Rightarrow> Inl ErrMintRecordNotFound
   | Some (SMint r) \<Rightarrow> Inr r
   | Some _ \<Rightarrow> Inl (Errorf ''unmarshal mint record''))"

text \<open>The decoding error is dropped; the key is then built from the nil address.\<close>

definition SetMintRecord :: "env \<Rightarrow> MintRecord \<Rightarrow> sval kv \<Rightarrow> sval kv" where
  "SetMintRecord E r st =
     (let owner = (case AccAddressFromBech32 E (mr_Owner r) of None \<Rightarrow> [] | Some a \<Rightarrow> a) in
      kv_set (mintRecordKey E owner (mr_IBCDenom r)) (SMint r) st)"

definition DeleteMintRecord :: "env \<Rightarrow> addr \<Rightarrow> denom \<Rightarrow> sval kv \<Rightarrow> sval kv" where
  "DeleteMintRecord E owner d st = kv_delete (mintRecordKey E owner d) st"

definition GetTotalSupply :: "sval kv \<Rightarrow> int" where
  "GetTotalSupply st = (case kv_get st ''supply'' of Some (SSupply n) \<Rightarrow> n | _ \<Rightarrow> 0)"

definition SetTotalSupply :: "int \<Rightarrow> sval kv \<Rightarrow> sval kv" where
  "SetTotalSupply n st = kv_set ''supply'' (SSupply n) st"

subsection \<open>Ratios\<close>

text \<open>A nil \<open>Dec\<close> panics when it is used.\<close>

definition collateral_usd :: "env \<Rightarrow> int \<Rightarrow> int option \<Rightarrow> int chain_op" where
  "collateral_usd E amount twap =
     gbind (gopt_panic ''nil Dec'' twap) (\<lambda>p. gopt_panic ''Mul'' (dec_mul E (dec_of_int E amount) p))"

definition GetCollateralRatio :: "env \<Rightarrow> addr \<Rightarrow> denom \<Rightarrow> int chain_op" where
  "GetCollateralRatio E owner d =
     gbind (sc_get (\<lambda>st. GetMintRecord E st owner d)) (\<lambda>r.
     gbind (ret_or_err r) (\<lambda>record.
     if mr_Minted record = 0 then gret (dec_of_int E 999)
     else
       gbind (coll_get (\<lambda>st. GetPosition E st owner d)) (\<lambda>rp.
       gbind (gmap_err (Wrap ''get position'') (ret_or_err rp)) (\<lambda>position.
       gbind (gget (\<lambda>s. GetTWAP (oracle_store s) d)) (\<lambda>rt.
       gbind (gmap_err (\<lambda>_. ErrOraclePriceUnavailable) (ret_or_err rt)) (\<lambda>twap.
       gbind (collateral_usd E (cp_Amount position) (tw_TWAP twap)) (\<lambda>usd.
       gopt_panic ''Quo'' (dec_quo E usd (dec_of_int E (mr_Minted record))))))))))"

definition GetMaxMintable :: "env \<Rightarrow> denom \<Rightarrow> int \<Rightarrow> int chain_op" where
  "GetMaxMintable E d amount =
     gbind (coll_get (\<lambda>st. GetCollateralAsset st d)) (\<lambda>ra.
     gbind (gmap_err (Wrap ''get collateral asset'') (ret_or_err ra)) (\<lambda>asset.
     gbind (gget (\<lambda>s. GetTWAP (oracle_store s) d)) (\<lambda>rt.
     gbind (gmap_err (\<lambda>_. ErrOraclePriceUnavailable) (ret_or_err rt)) (\<lambda>twap.
     gbind (collateral_usd E amount (tw_TWAP twap)) (\<lambda>usd.
     gbind (gopt_panic ''nil Dec'' (ca_MinRatio asset)) (\<lambda>mr.
     gbind (gopt_panic ''Quo'' (dec_quo E usd mr)) (\<lambda>q.
     gopt_panic ''TruncateInt'' (dec_trunc E q))))))))"

subsection \<open>The key registry\<close>

definition pqcKeyRegistryKey :: "env \<Rightarrow> addr \<Rightarrow> string" where
  "pqcKeyRegistryKey E owner = ''pqckey/'' @ acc_String E owner"

definition SetZYTDPQCKey :: "env \<Rightarrow> addr \<Rightarrow> string \<Rightarrow> sval kv \<Rightarrow> sval kv" where
  "SetZYTDPQCKey E owner pk st = kv_set (pqcKeyRegistryKey E owner) (SKey pk) st"

definition GetZYTDPQCKey :: "env \<Rightarrow> sval kv \<Rightarrow> addr \<Rightarrow> err + string" where
  "GetZYTDPQCKey E st owner = (case kv_get st (pqcKeyRegistryKey E owner) of
     Some (SKey pk) \<Rightarrow> Inr pk
   | _ \<Rightarrow> Inl ErrPQCKeyNotRegistered)"

definition HasZYTDPQCKey :: "env \<Rightarrow> sval kv \<Rightarrow> addr \<Rightarrow> bool" where
  "HasZYTDPQCKey E st owner = kv_has st (pqcKeyRegistryKey E owner)"

subsection \<open>Signatures\<close>

text \<open>\<open>binary.LittleEndian.PutUint64\<close> of an \<open>int64\<close>\<close>

definition le64 :: "int \<Rightarrow> string" where
  "le64 v = map (\<lambda>i. char_of (nat ((v div 256 ^ i) mod 256))) [0..<8]"

definition buildZYTDMsgHash :: "env \<Rightarrow> addr \<Rightarrow> denom \<Rightarrow> int \<Rightarrow> string" where
  "buildZYTDMsgHash E sender d ex = sha3_256 E (''zytherion/zytd/v1/'' @ sender @ d @ le64 ex)"

definition verifyZYTDPQCSig :: "env \<Rightarrow> ctx \<Rightarrow> addr \<Rightarrow> denom \<Rightarrow> int \<Rightarrow> string \<Rightarrow> string \<Rightarrow> unit chain_op" where
  "verifyZYTDPQCSig E C sender d ex pk sig =
     (let phase = GetMigrationPhase (block_height C) in
      gbind (sc_get (\<lambda>st. GetZYTDPQCKey E st sender)) (\<lambda>r.
      gbind (fail_with (CheckHardFreeze (block_height C) (\<not> isl r))) (\<lambda>_.
      if isl r \<and> (phase = MigrationPhase1 \<or> phase = MigrationPhase2) then gret ()
      else
        gbind (gfail_if ((case r of Inr k \<Rightarrow> k | Inl _ \<Rightarrow> []) \<noteq> pk) ErrPQCKeyMismatch) (\<lambda>_.
        if \<not> pqc_Verify E (buildZYTDMsgHash E sender d ex) sig pk
        then gerr (if phase = MigrationPhase3 then ErrHardFreeze else ErrInvalidPQCSig)
        else gret ()))))"

subsection \<open>Messages\<close>

record MsgZYTD =
  mz_ExpirationBlockHeight :: int
  mz_Dilithium5PubKey :: string
  mz_Dilithium5Sig :: string

record MsgMintZYTD = MsgZYTD +
  mm_Sender :: string
  mm_IbcDenom :: denom
  mm_CollateralAmount :: "int option"
  mm_RequestedZytd :: "int option"

record MsgBurnZYTD = MsgZYTD +
  mb_Sender :: string
  mb_IbcDenom :: denom
  mb_ZytdAmount :: "int option"

record MsgLiquidate = MsgZYTD +
  ml_Liquidator :: string
  ml_TargetOwner :: string
  ml_IbcDenom :: denom

record MsgRegisterZYTDKey =
  mk_Sender :: string
  mk_Dilithium5PubKey :: string
  mk_ExpirationBlockHeight :: int

definition positive_opt :: "int option \<Rightarrow> bool" where
  "positive_opt x = (case x of None \<Rightarrow> False | Some n \<Rightarrow> 0 < n)"

definition MintZYTD_ValidateBasic :: "env \<Rightarrow> MsgMintZYTD \<Rightarrow> err option" where
  "MintZYTD_ValidateBasic E m =
     (if AccAddressFromBech32 E (mm_Sender m) = None then Some (Errorf ''invalid sender address'')
      else if mm_IbcDenom m = [] then Some (Errorf ''ibc_denom cannot be empty'')
      else if \<not> positive_opt (mm_CollateralAmount m) then Some (Errorf ''collateral_amount must be positive'')
      else if \<not> positive_opt (mm_RequestedZytd m) then Some ErrZeroMintAmount
      else if mz_ExpirationBlockHeight m \<le> 0 then Some (Errorf ''expiration_block_height must be positive'')
      else None)"

definition BurnZYTD_ValidateBasic :: "env \<Rightarrow> MsgBurnZYTD \<Rightarrow> err option" where
  "BurnZYTD_ValidateBasic E m =
     (if AccAddressFromBech32 E (mb_Sender m) = None then Some (Errorf ''invalid sender address'')
      else if mb_IbcDenom m = [] then Some (Errorf ''ibc_denom cannot be empty'')
      else if \<not> positive_opt (mb_ZytdAmount m) then Some (Errorf ''zytd_amount must be positive'')
      else if mz_ExpirationBlockHeight m \<le> 0 then Some (Errorf ''expiration_block_height must be positive'')
      else None)"

definition Liquidate_ValidateBasic :: "env \<Rightarrow> MsgLiquidate \<Rightarrow> err option" where
  "Liquidate_ValidateBasic E m =
     (if AccAddressFromBech32 E (ml_Liquidator m) = None then Some (Errorf ''invalid liquidator address'')
      else if AccAddressFromBech32 E (ml_TargetOwner m) = None then Some (Errorf ''invalid target_owner address'')
      else if ml_IbcDenom m = [] then Some (Errorf ''ibc_denom cannot be empty'')
      else if mz_ExpirationBlockHeight m \<le> 0 then Some (Errorf ''expiration_block_height must be positive'')
      else None)"

definition RegisterZYTDKey_ValidateBasic :: "env \<Rightarrow> MsgRegisterZYTDKey \<Rightarrow> err option" where
  "RegisterZYTDKey_ValidateBasic E m =
     (if AccAddressFromBech32 E (mk_Sender m) = None then Some (Errorf ''invalid sender address'')
      else if length (mk_Dilithium5PubKey m) \<noteq> 2592 then Some (Errorf ''dilithium5_pub_key must be 2592 bytes'')
      else if mk_ExpirationBlockHeight m \<le> 0 then Some (Errorf ''expiration_block_height must be positive'')
      else None)"

subsection \<open>Minting\<close>

definition mint_record :: "env \<Rightarrow> ctx \<Rightarrow> MsgMintZYTD \<Rightarrow> addr \<Rightarrow> int \<Rightarrow> int \<Rightarrow> unit chain_op" where
  "mint_record E C m sender req usd =
     gbind (sc_get (\<lambda>st. GetMintRecord E st sender (mm_IbcDenom m))) (\<lambda>existing.
     gbind (case existing of
         Inl _ \<Rightarrow> gret \<lparr>mr_Owner = mm_Sender m, mr_IBCDenom = mm_IbcDenom m, mr_Minted = req,
                        mr_CollateralUSD = usd, mr_MintedAt = block_height C\<rparr>
       | Inr old \<Rightarrow>
           gbind (gopt_panic ''Add'' (int_add E (mr_Minted old) req)) (\<lambda>minted.
           gbind (gopt_panic ''Add'' (dec_add E (mr_CollateralUSD old) usd)) (\<lambda>usd'.
           gret \<lparr>mr_Owner = mm_Sender m, mr_IBCDenom = mm_IbcDenom m, mr_Minted = minted,
                 mr_CollateralUSD = usd', mr_MintedAt = mr_MintedAt old\<rparr>))) (\<lambda>record.
     sc_mod (SetMintRecord E record)))"

definition MintZYTD :: "env \<Rightarrow> ctx \<Rightarrow> MsgMintZYTD \<Rightarrow> int chain_op" where
  "MintZYTD E C m =
     (let d = mm_IbcDenom m in
     gbind (gopt_err (Errorf ''invalid sender address'') (AccAddressFromBech32 E (mm_Sender m))) (\<lambda>sender.
     gbind (fail_with (CheckMintAllowed (block_height C))) (\<lambda>_.
     gbind (verifyZYTDPQCSig E C sender d (mz_ExpirationBlockHeight m) (mz_Dilithium5PubKey m) (mz_Dilithium5Sig m)) (\<lambda>_.
     gbind (coll_get (\<lambda>st. GetCollateralAsset st d)) (\<lambda>ra.
     gbind (gmap_err (Wrap ''collateral asset not found'') (ret_or_err ra)) (\<lambda>asset.
     gbind (gfail_if (\<not> ca_IsActive asset) (Errorf ''collateral asset is not active'')) (\<lambda>_.
     gbind (gget (\<lambda>s. GetTWAP (oracle_store s) d)) (\<lambda>rt.
     gbind (gmap_err (\<lambda>_. ErrOraclePriceUnavailable) (ret_or_err rt)) (\<lambda>twap.
     gbind (gopt_panic ''nil Int'' (mm_CollateralAmount m)) (\<lambda>amount.
     gbind (collateral_usd E amount (tw_TWAP twap)) (\<lambda>usd.
     gbind (gopt_panic ''nil Dec'' (ca_MinRatio asset)) (\<lambda>mr.
     gbind (gopt_panic ''Quo'' (dec_quo E usd mr)) (\<lambda>q.
     gbind (gopt_panic ''TruncateInt'' (dec_trunc E q)) (\<lambda>maxMintable.
     gbind (gopt_panic ''nil Int'' (mm_RequestedZytd m)) (\<lambda>req.
     gbind (gfail_if (req > maxMintable) ErrExceedsCollateralValue) (\<lambda>_.
     gbind (gmap_err (Wrap ''lock collateral'') (LockCollateral E C sender d (Some amount))) (\<lambda>_.
     gbind (gopt_panic ''NewCoin'' (NewCoin ZYTDDenom req)) (\<lambda>c.
     gbind (gopt_panic ''NewCoins'' (NewCoins [c])) (\<lambda>mintCoins.
     gbind (gmap_err (Wrap ''mint ZYTD'') (on_base (MintCoins E mint_account mintCoins))) (\<lambda>_.
     gbind (gmap_err (Wrap ''send minted ZYTD to sender'')
              (on_base (SendCoinsFromModuleToAccount E C mint_account sender mintCoins))) (\<lambda>_.
     gbind (gmap_err (Wrap ''update minted ZYTD'') (UpdateMintedZYTD E sender d req)) (\<lambda>_.
     gbind (mint_record E C m sender req usd) (\<lambda>_.
     gbind (sc_get GetTotalSupply) (\<lambda>supply.
     gbind (gopt_panic ''Add'' (int_add E supply req)) (\<lambda>supply'.
     gbind (sc_mod (SetTotalSupply supply')) (\<lambda>_.
     gbind (gopt_panic ''Quo'' (dec_quo E usd (dec_of_int E req))) (\<lambda>ratio.
     gbind (emit ''mint_zytd'' [(''owner'', AStr (mm_Sender m)), (''ibc_denom'', AStr d),
              (''collateral_amount'', AInt amount), (''zytd_amount'', AInt req),
              (''collateral_ratio'', ADec (Some ratio))]) (\<lambda>_.
     gret req))))))))))))))))))))))))))))"

subsection \<open>Burning\<close>

definition BurnZYTD :: "env \<Rightarrow> ctx \<Rightarrow> MsgBurnZYTD \<Rightarrow> int chain_op" where
  "BurnZYTD E C m =
     (let d = mb_IbcDenom m in
     gbind (gopt_err (Errorf ''invalid sender address'') (AccAddressFromBech32 E (mb_Sender m))) (\<lambda>sender.
     gbind (verifyZYTDPQCSig E C sender d (mz_ExpirationBlockHeight m) (mz_Dilithium5PubKey m) (mz_Dilithium5Sig m)) (\<lambda>_.
     gbind (sc_get (\<lambda>st. GetMintRecord E st sender d)) (\<lambda>r.
     gbind (gmap_err (\<lambda>_. ErrMintRecordNotFound) (ret_or_err r)) (\<lambda>record.
     gbind (gopt_panic ''nil Int'' (mb_ZytdAmount m)) (\<lambda>amt.
     gbind (gfail_if (amt > mr_Minted record) ErrExceedsMintedAmount) (\<lambda>_.
     gbind (gopt_panic ''NewCoin'' (NewCoin ZYTDDenom amt)) (\<lambda>c.
     gbind (gopt_panic ''NewCoins'' (NewCoins [c])) (\<lambda>burnCoins.
     gbind (gmap_err (Wrap ''send ZYTD to module'')
              (on_base (SendCoinsFromAccountToModule E C sender mint_account burnCoins))) (\<lambda>_.
     gbind (gmap_err (Wrap ''burn ZYTD'') (on_base (BurnCoins E C mint_account burnCoins))) (\<lambda>_.
     gbind (coll_get (\<lambda>st. GetPosition E st sender d)) (\<lambda>rp.
     gbind (gmap_err (Wrap ''get collateral position'') (ret_or_err rp)) (\<lambda>position.
     gbind (gopt_panic ''Quo'' (dec_quo E (dec_of_int E amt) (dec_of_int E (mr_Minted record)))) (\<lambda>burnRatio.
     gbind (gopt_panic ''MulInt'' (dec_mul_int E burnRatio (cp_Amount position))) (\<lambda>x.
     gbind (gopt_panic ''TruncateInt'' (dec_trunc E x)) (\<lambda>returnAmount.
     gbind (gmap_err (Wrap ''unlock collateral'') (UnlockCollateral E C sender d (Some returnAmount))) (\<lambda>_.
     gbind (gmap_err (Wrap ''update minted ZYTD'') (UpdateMintedZYTD E sender d (- amt))) (\<lambda>_.
     gbind (gopt_panic ''Sub'' (int_sub E (mr_Minted record) amt)) (\<lambda>newMinted.
     gbind (if newMinted = 0 then sc_mod (DeleteMintRecord E sender d)
            else
              gbind (gopt_panic ''Sub'' (dec_sub E dec_one burnRatio)) (\<lambda>rest.
              gbind (gopt_panic ''Mul'' (dec_mul E (mr_CollateralUSD record) rest)) (\<lambda>usd.
              sc_mod (SetMintRecord E (record\<lparr>mr_Minted := newMinted, mr_CollateralUSD := usd\<rparr>))))) (\<lambda>_.
     gbind (sc_get GetTotalSupply) (\<lambda>supply.
     gbind (gopt_panic ''Sub'' (int_sub E supply amt)) (\<lambda>newSupply.
     gbind (sc_mod (SetTotalSupply (if newSupply < 0 then 0 else newSupply))) (\<lambda>_.
     gbind (emit ''burn_zytd'' [(''owner'', AStr (mb_Sender m)), (''ibc_denom'', AStr d),
              (''zytd_amount'', AInt amt), (''collateral_amount'', AInt returnAmount)]) (\<lambda>_.
     gret returnAmount))))))))))))))))))))))))"

subsection \<open>Liquidation\<close>

definition liquidation_amounts :: "env \<Rightarrow> StablecoinParams \<Rightarrow> int \<Rightarrow> int \<Rightarrow> int \<Rightarrow> (int \<times> int \<times> int) chain_op" where
  "liquidation_amounts E params price posAmount debtZYTD =
     gbind (gopt_panic ''Quo'' (dec_quo E (dec_of_int E debtZYTD) price)) (\<lambda>debtInCollateral.
     gbind (gopt_panic ''Add'' (dec_add E dec_one (sp_LiquidationPenalty params))) (\<lambda>factor.
     gbind (gopt_panic ''Mul'' (dec_mul E debtInCollateral factor)) (\<lambda>x.
     gbind (gopt_panic ''TruncateInt'' (dec_trunc E x)) (\<lambda>seize0.
     gbind (gret (if seize0 > posAmount then posAmount else seize0)) (\<lambda>seize.
     gbind (gopt_panic ''Mul'' (dec_mul E debtInCollateral (sp_LiquidatorReward params))) (\<lambda>y.
     gbind (gopt_panic ''TruncateInt'' (dec_trunc E y)) (\<lambda>reward0.
     gbind (gret (if reward0 > seize then seize else reward0)) (\<lambda>reward.
     gbind (gopt_panic ''Sub'' (int_sub E seize reward)) (\<lambda>fee.
     gret (seize, reward, fee))))))))))"

text \<open>a transfer out of the module account whose error is ignored\<close>

definition pay_out :: "env \<Rightarrow> ctx \<Rightarrow> addr \<Rightarrow> denom \<Rightarrow> int \<Rightarrow> unit chain_op" where
  "pay_out E C to d n =
     gbind (gopt_panic ''NewCoin'' (NewCoin d n)) (\<lambda>c.
     gbind (gopt_panic ''NewCoins'' (NewCoins [c])) (\<lambda>cs.
     gbind (gtry (on_base (SendCoinsFromModuleToAccount E C mint_account to cs))) (\<lambda>_. gret ())))"

definition Liquidate :: "env \<Rightarrow> ctx \<Rightarrow> MsgLiquidate \<Rightarrow> int chain_op" where
  "Liquidate E C m =
     (let d = ml_IbcDenom m in
     gbind (gopt_err (Errorf ''invalid liquidator address'') (AccAddressFromBech32 E (ml_Liquidator m))) (\<lambda>liquidator.
     gbind (gopt_err (Errorf ''invalid target_owner address'') (AccAddressFromBech32 E (ml_TargetOwner m))) (\<lambda>target.
     gbind (verifyZYTDPQCSig E C liquidator d (mz_ExpirationBlockHeight m) (mz_Dilithium5PubKey m) (mz_Dilithium5Sig m)) (\<lambda>_.
     gbind (coll_get (\<lambda>st. GetPosition E st target d)) (\<lambda>rp.
     gbind (gmap_err (Wrap ''get target position'') (ret_or_err rp)) (\<lambda>position.
     gbind (coll_get (\<lambda>st. GetCollateralAsset st d)) (\<lambda>ra.
     gbind (gmap_err (Wrap ''get collateral asset'') (ret_or_err ra)) (\<lambda>asset.
     gbind (gget (\<lambda>s. GetTWAP (oracle_store s) d)) (\<lambda>rt.
     gbind (gmap_err (\<lambda>_. ErrOraclePriceUnavailable) (ret_or_err rt)) (\<lambda>twap.
     gbind (collateral_usd E (cp_Amount position) (tw_TWAP twap)) (\<lambda>value.
     gbind (gfail_if (cp_MintedZYTD position = 0) ErrPositionHealthy) (\<lambda>_.
     gbind (gopt_panic ''Quo'' (dec_quo E value (dec_of_int E (cp_MintedZYTD position)))) (\<lambda>currentRatio.
     gbind (gopt_panic ''nil Dec'' (ca_LiquidationThreshold asset)) (\<lambda>threshold.
     gbind (gfail_if (currentRatio \<ge> threshold) ErrPositionHealthy) (\<lambda>_.
     gbind (sc_get sc_GetParams) (\<lambda>params.
     gbind (gret (cp_MintedZYTD position)) (\<lambda>debtZYTD.
     gbind (gopt_panic ''nil Dec'' (tw_TWAP twap)) (\<lambda>price.
     gbind (liquidation_amounts E params price (cp_Amount position) debtZYTD) (\<lambda>(seize, reward, fee).
     gbind (gopt_panic ''NewCoin'' (NewCoin ZYTDDenom debtZYTD)) (\<lambda>c.
     gbind (gopt_panic ''NewCoins'' (NewCoins [c])) (\<lambda>debtCoins.
     gbind (gmap_err (Wrap ''liquidator send ZYTD'')
              (on_base (SendCoinsFromAccountToModule E C liquidator mint_account debtCoins))) (\<lambda>_.
     gbind (gmap_err (Wrap ''burn liquidated ZYTD'') (on_base (BurnCoins E C mint_account debtCoins))) (\<lambda>_.
     gbind (gmap_err (Wrap ''unlock seized collateral'') (UnlockCollateral E C target d (Some seize))) (\<lambda>_.
     gbind (if 0 < reward then pay_out E C liquidator d reward else gret ()) (\<lambda>_.
     gbind (if 0 < fee then
              (case AccAddressFromBech32 E (sp_ProtocolFeeReceiver params) of
                 None \<Rightarrow> gret ()
               | Some feeReceiver \<Rightarrow> pay_out E C feeReceiver d fee)
            else gret ()) (\<lambda>_.
     gbind (gmap_err (Wrap ''close liquidated position'') (UpdateMintedZYTD E target d (- debtZYTD))) (\<lambda>_.
     gbind (sc_mod (DeleteMintRecord E target d)) (\<lambda>_.
     gbind (sc_get GetTotalSupply) (\<lambda>supply.
     gbind (gopt_panic ''Sub'' (int_sub E supply debtZYTD)) (\<lambda>newSupply.
     gbind (sc_mod (SetTotalSupply (if newSupply < 0 then 0 else newSupply))) (\<lambda>_.
     gbind (emit ''liquidation'' [(''liquidator'', AStr (ml_Liquidator m)), (''target'', AStr (ml_TargetOwner m)),
              (''ibc_denom'', AStr d), (''zytd_amount'', AInt debtZYTD), (''collateral_amount'', AInt seize)]) (\<lambda>_.
     gret seize))))))))))))))))))))))))))))))))"

subsection \<open>Key registration\<close>

definition RegisterZYTDKey :: "env \<Rightarrow> ctx \<Rightarrow> MsgRegisterZYTDKey \<Rightarrow> string chain_op" where
  "RegisterZYTDKey E C m =
     gbind (gopt_err (Errorf ''invalid sender address'') (AccAddressFromBech32 E (mk_Sender m))) (\<lambda>sender.
     gbind (sc_mod (SetZYTDPQCKey E sender (mk_Dilithium5PubKey m))) (\<lambda>_.
     gbind (gret (hex_EncodeToString (sha3_256 E (mk_Dilithium5PubKey m)))) (\<lambda>pubKeyHash.
     gbind (emit ''register_zytd_key'' [(''sender'', AStr (mk_Sender m)), (''dilithium5_key_hash'', AStr pubKeyHash),
              (''migration_phase'', AStr (phase_String (GetMigrationPhase (block_height C)))),
              (''block_height'', AStr (int_dec (block_height C)))]) (\<lambda>_.
     gret pubKeyHash))))"

subsection \<open>Queries and genesis\<close>

definition QueryMintRecord :: "env \<Rightarrow> string \<Rightarrow> denom \<Rightarrow> MintRecord chain_op" where
  "QueryMintRecord E owner d =
     gbind (gopt_err (Errorf ''invalid owner address'') (AccAddressFromBech32 E owner)) (\<lambda>a.
     gbind (sc_get (\<lambda>st. GetMintRecord E st a d)) ret_or_err)"

definition QueryCollateralRatio :: "env \<Rightarrow> string \<Rightarrow> denom \<Rightarrow> int chain_op" where
  "QueryCollateralRatio E owner d =
     gbind (gopt_err (Errorf ''invalid owner address'') (AccAddressFromBech32 E owner)) (\<lambda>a.
     GetCollateralRatio E a d)"

record StablecoinGenesis =
  sg_Params :: StablecoinParams
  sg_MintRecords :: "MintRecord list"
  sg_TotalSupply :: "int option"

definition sc_ValidateGenesis :: "StablecoinGenesis \<Rightarrow> bool" where
  "sc_ValidateGenesis g \<longleftrightarrow> sp_ZYTDDenom (sg_Params g) \<noteq> []"

text \<open>The total supply is a decimal string; one that does not parse counts as zero: \<open>None\<close>.\<close>

definition sc_InitGenesis :: "env \<Rightarrow> StablecoinGenesis \<Rightarrow> sval kv \<Rightarrow> sval kv" where
  "sc_InitGenesis E g st =
     fold (SetMintRecord E) (sg_MintRecords g)
       (SetTotalSupply (case sg_TotalSupply g of None \<Rightarrow> 0 | Some n \<Rightarrow> n) (sc_SetParams (sg_Params g) st))"

definition sc_ExportGenesis :: "sval kv \<Rightarrow> StablecoinGenesis" where
  "sc_ExportGenesis st = \<lparr>sg_Params = sc_GetParams st,
     sg_MintRecords = List.map_filter (\<lambda>(k, v). case v of SMint r \<Rightarrow> Some r | _ \<Rightarrow> None) (kv_prefix_iterator st ''mint/''),
     sg_TotalSupply = Some (GetTotalSupply st)\<rparr>"

subsection \<open>The store\<close>

lemma sc_Ret [go_iffs]:
  "sc_get f s = (Ret a, t) \<longleftrightarrow> a = f (sc_store s) \<and> t = s"
  "sc_mod g s = (Ret u, t) \<longleftrightarrow> t = s\<lparr>sc_store := g (sc_store s)\<rparr>"
  by (auto simp: sc_get_def sc_mod_def go_iffs)

lemma sc_eval [go_simps]:
  "sc_get f s = (Ret (f (sc_store s)), s)"
  "sc_mod g s = (Ret (), s\<lparr>sc_store := g (sc_store s)\<rparr>)"
  by (simp_all add: sc_get_def sc_mod_def go_simps)

definition sval_ok :: "env \<Rightarrow> string \<Rightarrow> sval \<Rightarrow> bool" where
  "sval_ok E k v = (case v of
     SMint r \<Rightarrow> \<exists>a. AccAddressFromBech32 E (mr_Owner r) = Some a \<and> k = mintRecordKey E a (mr_IBCDenom r)
               \<and> 0 \<le> mr_Minted r
   | _ \<Rightarrow> \<not> prefix ''mint/'' k)"

definition sc_wf :: "env \<Rightarrow> sval kv \<Rightarrow> bool" where
  "sc_wf E st \<longleftrightarrow> kv_inv st \<and> (\<forall>k v. kv_get st k = Some v \<longrightarrow> sval_ok E k v)"

lemma mint_keys [simp]:
  "mintRecordKey E a d \<noteq> ''supply''" "''supply'' \<noteq> mintRecordKey E a d"
  "mintRecordKey E a d \<noteq> ''sc_params''" "''sc_params'' \<noteq> mintRecordKey E a d"
  "mintRecordKey E a d \<noteq> pqcKeyRegistryKey E' b" "pqcKeyRegistryKey E' b \<noteq> mintRecordKey E a d"
  "pqcKeyRegistryKey E b \<noteq> ''supply''" "''supply'' \<noteq> pqcKeyRegistryKey E b"
  "\<not> prefix ''mint/'' (pqcKeyRegistryKey E b)"
  by (auto simp: mintRecordKey_def pqcKeyRegistryKey_def)

lemma mintRecordKey_inj:
  assumes "bech32_laws E" "VerifyAddressFormat a" "VerifyAddressFormat b"
  shows "mintRecordKey E a d = mintRecordKey E b d' \<longleftrightarrow> a = b \<and> d = d'"
  using sep_append_eq [OF slash_notin_acc_String [OF assms(1), of a] slash_notin_acc_String [OF assms(1), of b], of d d']
    acc_String_inj [OF assms]
  by (auto simp: mintRecordKey_def)

lemma sc_wfD: "sc_wf E st \<Longrightarrow> kv_get st k = Some v \<Longrightarrow> sval_ok E k v"
  by (simp add: sc_wf_def)

lemma sc_wf_set: "sc_wf E st \<Longrightarrow> sval_ok E k v \<Longrightarrow> sc_wf E (kv_set k v st)"
  by (auto simp: sc_wf_def kv_simps)

lemma sc_wf_supply: "sc_wf E st \<Longrightarrow> sc_wf E (SetTotalSupply n st)"
  unfolding SetTotalSupply_def by (rule sc_wf_set) (simp_all add: sval_ok_def)

lemma GetMintRecord_wf:
  assumes "bech32_laws E" "sc_wf E st" "VerifyAddressFormat a" "GetMintRecord E st a d = Inr r"
  shows "AccAddressFromBech32 E (mr_Owner r) = Some a" "mr_IBCDenom r = d" "0 \<le> mr_Minted r"
    "kv_get st (mintRecordKey E a d) = Some (SMint r)"
proof -
  show g: "kv_get st (mintRecordKey E a d) = Some (SMint r)"
    using assms(4) by (auto simp: GetMintRecord_def split: option.splits sval.splits)
  then obtain b where b: "AccAddressFromBech32 E (mr_Owner r) = Some b"
    "mintRecordKey E a d = mintRecordKey E b (mr_IBCDenom r)" "0 \<le> mr_Minted r"
    using sc_wfD [OF assms(2) g] by (auto simp: sval_ok_def)
  then show "AccAddressFromBech32 E (mr_Owner r) = Some a" "mr_IBCDenom r = d" "0 \<le> mr_Minted r"
    using mintRecordKey_inj [OF assms(1,3) AccAddressFromBech32_ok [OF b(1)]] by auto
qed

lemma GetMintRecord_none:
  assumes "sc_wf E st" "GetMintRecord E st a d = Inl e"
  shows "kv_get st (mintRecordKey E a d) = None"
proof (rule ccontr)
  assume "kv_get st (mintRecordKey E a d) \<noteq> None"
  then obtain v where v: "kv_get st (mintRecordKey E a d) = Some v" by auto
  with sc_wfD [OF assms(1) v] assms(2) show False
    by (auto simp: GetMintRecord_def sval_ok_def mintRecordKey_def split: sval.splits)
qed

subsection \<open>Recorded debt\<close>

text \<open>the debt of an owner according to the mint records, according to the vault, and in total\<close>

definition record_minted :: "env \<Rightarrow> sval kv \<Rightarrow> addr \<Rightarrow> denom \<Rightarrow> int" where
  "record_minted E st a d = (case GetMintRecord E st a d of Inr r \<Rightarrow> mr_Minted r | Inl _ \<Rightarrow> 0)"

definition position_minted :: "env \<Rightarrow> cval kv \<Rightarrow> addr \<Rightarrow> denom \<Rightarrow> int" where
  "position_minted E st a d = (case GetPosition E st a d of Inr p \<Rightarrow> cp_MintedZYTD p | Inl _ \<Rightarrow> 0)"

definition minted_amount :: "string \<Rightarrow> sval \<Rightarrow> int" where
  "minted_amount k v = (case v of SMint r \<Rightarrow> mr_Minted r | _ \<Rightarrow> 0)"

definition sum_minted :: "sval kv \<Rightarrow> int" where
  "sum_minted st = kv_sum minted_amount st"

text \<open>
  The mint records and the vault agree on every debt, the supply counter is the sum of
  the records, and it is the supply of ZYTD the bank knows.
\<close>

definition debt_inv :: "env \<Rightarrow> chain \<Rightarrow> bool" where
  "debt_inv E s \<longleftrightarrow> vault_inv E s \<and> bank_inv (base s) \<and> sc_wf E (sc_store s)
     \<and> (\<forall>a d. VerifyAddressFormat a \<longrightarrow> record_minted E (sc_store s) a d = position_minted E (coll_store s) a d)
     \<and> GetTotalSupply (sc_store s) = sum_minted (sc_store s)
     \<and> supply_of (base s) ZYTDDenom = GetTotalSupply (sc_store s)"

lemma kv_at_minted:
  assumes "bech32_laws E" "sc_wf E st" "VerifyAddressFormat a"
  shows "kv_at minted_amount st (mintRecordKey E a d) = record_minted E st a d"
proof (cases "GetMintRecord E st a d")
  case (Inl e)
  then show ?thesis using GetMintRecord_none [OF assms(2) Inl] by (simp add: kv_at_def record_minted_def)
next
  case (Inr r)
  then show ?thesis
    using GetMintRecord_wf [OF assms Inr] by (simp add: kv_at_def record_minted_def minted_amount_def)
qed

lemma sum_minted_set:
  assumes "bech32_laws E" "sc_wf E st" "VerifyAddressFormat a"
  shows "sum_minted (kv_set (mintRecordKey E a d) (SMint r) st) = sum_minted st + mr_Minted r - record_minted E st a d"
proof -
  have "kv_inv st" using assms(2) by (simp add: sc_wf_def)
  then show ?thesis by (simp add: sum_minted_def kv_sum_set kv_at_minted [OF assms] minted_amount_def)
qed

lemma sum_minted_supply:
  assumes "sc_wf E st"
  shows "sum_minted (SetTotalSupply n st) = sum_minted st"
proof -
  have "kv_at minted_amount st ''supply'' = 0"
    using sc_wfD [OF assms, of "''supply''"]
    by (auto simp: kv_at_def minted_amount_def sval_ok_def split: option.splits sval.splits)
  moreover have "kv_inv st" using assms by (simp add: sc_wf_def)
  ultimately show ?thesis by (simp add: sum_minted_def SetTotalSupply_def kv_sum_set minted_amount_def)
qed

lemma GetMintRecord_set:
  assumes "bech32_laws E" "VerifyAddressFormat a" "VerifyAddressFormat b"
  shows "GetMintRecord E (kv_set (mintRecordKey E a d) (SMint r) st) b d' =
    (if b = a \<and> d' = d then Inr r else GetMintRecord E st b d')"
  using mintRecordKey_inj [OF assms(1,3,2), of d' d] by (auto simp: GetMintRecord_def kv_simps)

lemma supply_ops [simp]:
  "GetTotalSupply (SetTotalSupply n st) = n"
  "GetTotalSupply (kv_set (mintRecordKey E a d) v st) = GetTotalSupply st"
  "GetMintRecord E (SetTotalSupply n st) b d = GetMintRecord E st b d"
  by (simp_all add: GetTotalSupply_def SetTotalSupply_def GetMintRecord_def kv_simps)

lemma record_minted_supply [simp]: "record_minted E (SetTotalSupply n st) a d = record_minted E st a d"
  by (simp add: record_minted_def)

subsection \<open>What a mint does\<close>

text \<open>
  The specification of the signature check: before the third phase an account without a
  key passes; an account with a key needs the registered key and a valid signature.
\<close>

definition sig_accepted :: "env \<Rightarrow> ctx \<Rightarrow> sval kv \<Rightarrow> addr \<Rightarrow> denom \<Rightarrow> int \<Rightarrow> string \<Rightarrow> string \<Rightarrow> bool" where
  "sig_accepted E C st sender d ex pk sig \<longleftrightarrow> (case GetZYTDPQCKey E st sender of
     Inl _ \<Rightarrow> block_height C \<le> 50000
   | Inr k \<Rightarrow> k = pk \<and> length pk = mode5_PublicKeySize E \<and> length sig = mode5_SignatureSize E
       \<and> mode5_Verify E pk (sha3_256 E (''zytherion/zytd/v1/'' @ sender @ d @ le64 ex)) sig)"

lemma phase3_iff: "GetMigrationPhase h = MigrationPhase3 \<longleftrightarrow> 50000 < h"
  by (simp add: GetMigrationPhase_def GracePhaseLockHeight_def GracePhaseHardHeight_def)

lemma verifyZYTDPQCSig_Ret [go_iffs]:
  "verifyZYTDPQCSig E C sender d ex pk sig s = (Ret u, t) \<longleftrightarrow> t = s \<and> sig_accepted E C (sc_store s) sender d ex pk sig"
proof -
  have p: "(phase = MigrationPhase1 \<or> phase = MigrationPhase2) \<longleftrightarrow> phase \<noteq> MigrationPhase3" for phase
    by (cases phase) simp_all
  show ?thesis
    unfolding verifyZYTDPQCSig_def Let_def p phase3_iff CheckHardFreeze_def sig_accepted_def
    by (cases "GetZYTDPQCKey E (sc_store s) sender")
      (auto simp: go_iffs go_simps phase3_iff pqc_Verify_def buildZYTDMsgHash_def)
qed

lemma verifyZYTDPQCSig_state [simp]: "snd (verifyZYTDPQCSig E C sender d ex pk sig s) = s"
  by (auto simp: verifyZYTDPQCSig_def Let_def go_simps fail_with_def gfail_if_def gret_def gerr_def gbind_def sc_get_def gget_def
      split: option.splits outcome.splits prod.splits if_splits)

lemma MintZYTD_Ret:
  assumes "MintZYTD E C m s = (Ret r, t)"
  obtains sender amount asset tw price usd mr q mx s1 c cs b1 b2 s2 s3 sup es where
    "AccAddressFromBech32 E (mm_Sender m) = Some sender" "CheckMintAllowed (block_height C) = None"
    "sig_accepted E C (sc_store s) sender (mm_IbcDenom m) (mz_ExpirationBlockHeight m) (mz_Dilithium5PubKey m) (mz_Dilithium5Sig m)"
    "mm_CollateralAmount m = Some amount" "mm_RequestedZytd m = Some r"
    "GetCollateralAsset (coll_store s) (mm_IbcDenom m) = Inr asset" "ca_IsActive asset" "ca_MinRatio asset = Some mr"
    "GetTWAP (oracle_store s) (mm_IbcDenom m) = Inr tw" "tw_TWAP tw = Some price"
    "dec_mul E (dec_of_int E amount) price = Some usd" "dec_quo E usd mr = Some q" "dec_trunc E q = Some mx" "r \<le> mx"
    "LockCollateral E C sender (mm_IbcDenom m) (Some amount) s = (Ret (), s1)"
    "NewCoin ZYTDDenom r = Some c" "NewCoins [c] = Some cs"
    "MintCoins E mint_account cs (base s1) = (Ret (), b1)"
    "SendCoinsFromModuleToAccount E C mint_account sender cs b1 = (Ret (), b2)"
    "UpdateMintedZYTD E sender (mm_IbcDenom m) r (s1\<lparr>base := b2\<rparr>) = (Ret (), s2)"
    "mint_record E C m sender r usd s2 = (Ret (), s3)"
    "int_add E (GetTotalSupply (sc_store s3)) r = Some sup"
    "t = s3\<lparr>sc_store := SetTotalSupply sup (sc_store s3), base := (base s3)\<lparr>evs := es\<rparr>\<rparr>"
  using assms unfolding MintZYTD_def Let_def collateral_usd_def
  by (clarsimp simp: go_iffs)

lemma mint_record_Ret:
  assumes L: "int_laws E" and B: "bech32_laws E" and wf: "sc_wf E (sc_store s)"
    and a: "AccAddressFromBech32 E (mm_Sender m) = Some a"
    and run: "mint_record E C m a req usd s = (Ret u, t)"
  obtains r where "t = s\<lparr>sc_store := kv_set (mintRecordKey E a (mm_IbcDenom m)) (SMint r) (sc_store s)\<rparr>"
    "mr_Owner r = mm_Sender m" "mr_IBCDenom r = mm_IbcDenom m"
    "mr_Minted r = record_minted E (sc_store s) a (mm_IbcDenom m) + req"
proof (cases "GetMintRecord E (sc_store s) a (mm_IbcDenom m)")
  case (Inl e)
  with run a show thesis
    by (intro that [of "\<lparr>mr_Owner = mm_Sender m, mr_IBCDenom = mm_IbcDenom m, mr_Minted = req,
        mr_CollateralUSD = usd, mr_MintedAt = block_height C\<rparr>"])
      (auto simp: mint_record_def go_simps SetMintRecord_def record_minted_def)
next
  case (Inr old)
  with run a that show thesis
    by (clarsimp simp: mint_record_def go_iffs SetMintRecord_def record_minted_def int_add_Some [OF L])
qed

lemma mint_to_account:
  assumes L: "int_laws E" and A: "addr_laws E" and inv: "bank_inv b" and a: "VerifyAddressFormat to"
    and mint: "MintCoins E m cs b = (Ret u, b1)" and send: "SendCoinsFromModuleToAccount E C m to cs b1 = (Ret v, b2)"
  shows "bank_inv b2"
    and "VerifyAddressFormat x \<Longrightarrow> balance_of b2 x d = balance_of b x d + (if x = to then amt_of cs d else 0)"
    and "supply_of b2 d = supply_of b d + amt_of cs d" and "\<not> BlockedAddr E to"
proof -
  note m = MintCoins_inv [OF L A inv mint]
  have wf1: "bank_wf b1" using m(1) by (simp add: bank_inv_def)
  note mv = SendCoinsFromModuleToAccount_moves [OF L A wf1 a send]
  show "bank_inv b2" by (rule bank_moves_inv [OF mv(1) m(1)])
  show "VerifyAddressFormat x \<Longrightarrow> balance_of b2 x d = balance_of b x d + (if x = to then amt_of cs d else 0)"
    using mv(1) m(2) by (simp add: bank_moves_def)
  show "supply_of b2 d = supply_of b d + amt_of cs d"
    using mv(1) m(3) by (simp add: bank_moves_def supply_of_def)
  show "\<not> BlockedAddr E to" by (rule mv(2))
qed

lemma covers_mono:
  assumes "\<And>d. balance_of b (NewModuleAddress E m) d \<le> balance_of b' (NewModuleAddress E m) d"
    and "bk.covers E m f b"
  shows "bk.covers E m f b'"
  using assms by (auto simp: bk.covers_def intro: order_trans)

lemma LockCollateral_frame:
  assumes B: "bech32_laws E" and inv: "vault_inv E s" and bi: "bank_inv (base s)" and a: "VerifyAddressFormat a" "a \<noteq> vault_addr E"
    and run: "LockCollateral E C a d (Some n) s = (Ret u, t)"
  shows "bank_inv (base t)" "supply_of (base t) d' = supply_of (base s) d'" "sc_store t = sc_store s"
    "oracle_store t = oracle_store s"
    "position_minted E (coll_store t) x d' = position_minted E (coll_store s) x d'"
    "balance_of (base t) a d' = balance_of (base s) a d' - coins_of d n d'"
proof -
  have ok: "bank_ok E (base s)" and wf: "coll_wf E (coll_store s)" and L: "int_laws E" and A: "addr_laws E" and bwf: "bank_wf (base s)"
    using inv by (simp_all add: vault_inv_def bank_ok_def)
  obtain cs p b where send: "SendCoinsFromAccountToModule E C a vault_name cs (base s) = (Ret (), b)" "amt_of cs = coins_of d n"
    and p: "p = (position_or_new E C (coll_store s) a d)\<lparr>cp_Amount := position_amount E (coll_store s) a d + n\<rparr>"
    and t: "t = s\<lparr>base := b, coll_store := setTotalLocked d (GetTotalLocked (coll_store s) d + n)
            (kv_set (positionKey E a d) (CPos p) (coll_store s))\<rparr>"
    by (rule LockCollateral_Ret [OF L B wf a(1) run]) auto
  note mv = SendCoinsFromAccountToModule_moves [OF L A bwf a(1) send(1)]
  show "bank_inv (base t)" using bank_moves_inv [OF mv bi] by (simp add: t)
  show "supply_of (base t) d' = supply_of (base s) d'" using mv by (simp add: t bank_moves_def supply_of_def)
  show "sc_store t = sc_store s" "oracle_store t = oracle_store s" by (simp_all add: t)
  show "balance_of (base t) a d' = balance_of (base s) a d' - coins_of d n d'"
    using mv a by (simp add: t bank_moves_def send(2) vault_addr_def)
  show "position_minted E (coll_store t) x d' = position_minted E (coll_store s) x d'"
  proof (cases "positionKey E x d' = positionKey E a d")
    case True
    have "GetPosition E (coll_store t) x d' = Inr p" using True by (simp add: t GetPosition_def kv_simps setTotalLocked_def coll_keys_differ)
    moreover have "GetPosition E (coll_store s) x d' = GetPosition E (coll_store s) a d" using True by (simp add: GetPosition_def)
    ultimately show ?thesis by (simp add: position_minted_def p position_or_new_def split: sum.splits)
  next
    case False
    then show ?thesis
      by (simp add: position_minted_def t GetPosition_def kv_simps setTotalLocked_def coll_keys_differ)
  qed
qed

text \<open>the state after an accepted mint, part by part\<close>

lemma MintZYTD_state:
  assumes B: "bech32_laws E" and inv: "debt_inv E s"
    and a: "AccAddressFromBech32 E (mm_Sender m) = Some a" "a \<noteq> vault_addr E"
    and run: "MintZYTD E C m s = (Ret r, t)"
  obtains amount s1 b2 p rec es where "mm_CollateralAmount m = Some amount" "0 \<le> r"
    "LockCollateral E C a (mm_IbcDenom m) (Some amount) s = (Ret (), s1)"
    "bank_inv b2" "\<forall>d. supply_of b2 d = supply_of (base s1) d + coins_of ZYTDDenom r d"
    "\<forall>x d. VerifyAddressFormat x \<longrightarrow>
      balance_of b2 x d = balance_of (base s1) x d + (if x = a then coins_of ZYTDDenom r d else 0)"
    "GetPosition E (coll_store s1) a (mm_IbcDenom m) = Inr p"
    "mr_Owner rec = mm_Sender m" "mr_IBCDenom rec = mm_IbcDenom m"
    "mr_Minted rec = record_minted E (sc_store s) a (mm_IbcDenom m) + r"
    "t = s1\<lparr>base := b2\<lparr>evs := es\<rparr>,
      coll_store := kv_set (positionKey E a (mm_IbcDenom m)) (CPos (p\<lparr>cp_MintedZYTD := cp_MintedZYTD p + r\<rparr>)) (coll_store s1),
      sc_store := SetTotalSupply (GetTotalSupply (sc_store s) + r)
        (kv_set (mintRecordKey E a (mm_IbcDenom m)) (SMint rec) (sc_store s))\<rparr>"
proof -
  let ?d = "mm_IbcDenom m"
  have va: "VerifyAddressFormat a" by (rule AccAddressFromBech32_ok [OF a(1)])
  have vinv: "vault_inv E s" and swf: "sc_wf E (sc_store s)" using inv by (simp_all add: debt_inv_def)
  have L: "int_laws E" and A: "addr_laws E" and wf: "coll_wf E (coll_store s)"
    using vinv by (simp_all add: vault_inv_def bank_ok_def)
  obtain amount s1 c cs b1 b2 s2 s3 sup es usd where am: "mm_CollateralAmount m = Some amount"
    and lock: "LockCollateral E C a ?d (Some amount) s = (Ret (), s1)"
    and nc: "NewCoin ZYTDDenom r = Some c" "NewCoins [c] = Some cs"
    and mint: "MintCoins E mint_account cs (base s1) = (Ret (), b1)"
    and send: "SendCoinsFromModuleToAccount E C mint_account a cs b1 = (Ret (), b2)"
    and upd: "UpdateMintedZYTD E a ?d r (s1\<lparr>base := b2\<rparr>) = (Ret (), s2)"
    and rec: "mint_record E C m a r usd s2 = (Ret (), s3)"
    and sup: "int_add E (GetTotalSupply (sc_store s3)) r = Some sup"
    and t: "t = s3\<lparr>sc_store := SetTotalSupply sup (sc_store s3), base := (base s3)\<lparr>evs := es\<rparr>\<rparr>"
    using MintZYTD_Ret [OF run] a(1) by (metis option.inject)
  have "vault_inv E s1" by (rule LockCollateral_vault [OF B vinv va a(2) lock])
  then have wf1: "coll_wf E (coll_store s1)" by (simp add: vault_inv_def)
  have bi: "bank_inv (base s)" using inv by (simp add: debt_inv_def)
  note bi1 = LockCollateral_frame(1) [OF B vinv bi va a(2) lock] and sc1 = LockCollateral_frame(3) [OF B vinv bi va a(2) lock]
  obtain p where p: "GetPosition E (coll_store s1) a ?d = Inr p"
    and s2: "s2 = s1\<lparr>base := b2, coll_store := kv_set (positionKey E a ?d)
        (CPos (p\<lparr>cp_MintedZYTD := cp_MintedZYTD p + r\<rparr>)) (coll_store s1)\<rparr>"
    using UpdateMintedZYTD_Ret [OF L B _ va upd] wf1 by auto
  obtain rec where rec: "mr_Owner rec = mm_Sender m" "mr_IBCDenom rec = ?d"
    "mr_Minted rec = record_minted E (sc_store s) a ?d + r"
    and s3: "s3 = s2\<lparr>sc_store := kv_set (mintRecordKey E a ?d) (SMint rec) (sc_store s2)\<rparr>"
    using mint_record_Ret [OF L B _ a(1) rec] swf by (auto simp: s2 sc1)
  have sup': "sup = GetTotalSupply (sc_store s) + r" using sup by (simp add: s3 s2 sc1 int_add_Some [OF L])
  note cs = NewCoins_NewCoin [OF nc]
  have bank: "bank_inv b2" "supply_of b2 d = supply_of (base s1) d + coins_of ZYTDDenom r d"
    "VerifyAddressFormat x \<Longrightarrow> balance_of b2 x d = balance_of (base s1) x d + (if x = a then coins_of ZYTDDenom r d else 0)"
    for x d
    using mint_to_account [OF L A bi1 va mint send] by (simp_all add: cs(1))
  show thesis
    by (rule that [OF am cs(3) lock bank(1) _ _ p rec, of es]) (simp_all add: t s3 s2 sup' sc1 bank)
qed

lemma vault_inv_debt_change:
  assumes B: "bech32_laws E" and inv: "vault_inv E s" and a: "VerifyAddressFormat a"
    and p: "GetPosition E (coll_store s) a d = Inr p" "0 \<le> n" and bi: "bank_inv b"
    and bal: "\<And>d. balance_of (base s) (vault_addr E) d \<le> balance_of b (vault_addr E) d"
  shows "vault_inv E (s\<lparr>base := b\<lparr>evs := es\<rparr>, coll_store := kv_set (positionKey E a d) (CPos (p\<lparr>cp_MintedZYTD := n\<rparr>)) (coll_store s),
      sc_store := sc\<rparr>)"
proof -
  have wf: "coll_wf E (coll_store s)" using inv by (simp add: vault_inv_def)
  note pw = GetPosition_wf [OF B wf a p(1)]
  let ?st = "kv_set (positionKey E a d) (CPos (p\<lparr>cp_MintedZYTD := n\<rparr>)) (coll_store s)"
  have "coll_wf E ?st" using pw p(2) by (auto intro!: coll_wf_set_pos [OF wf a])
  moreover have "sum_positions ?st = sum_positions (coll_store s)"
    using sum_positions_set [OF B wf a, of "p\<lparr>cp_MintedZYTD := n\<rparr>" d] pw p(1)
    by (simp add: position_amount_def fun_eq_iff)
  moreover have "bank_ok E (b\<lparr>evs := es\<rparr>)"
    using bi inv by (simp add: vault_inv_def bank_ok_def bank_inv_def bank_wf_def)
  moreover have "bk.covers E vault_name (sum_positions (coll_store s)) (b\<lparr>evs := es\<rparr>)"
    by (rule covers_mono [where b = "base s"]) (use bal inv in \<open>simp_all add: vault_addr_def vault_inv_def\<close>)
  ultimately show ?thesis using inv by (simp add: vault_inv_def)
qed

lemma MintZYTD_debt:
  assumes B: "bech32_laws E" and inv: "debt_inv E s"
    and a: "AccAddressFromBech32 E (mm_Sender m) = Some a" "a \<noteq> vault_addr E"
    and run: "MintZYTD E C m s = (Ret r, t)"
  shows "debt_inv E t"
proof -
  let ?d = "mm_IbcDenom m"
  have va: "VerifyAddressFormat a" by (rule AccAddressFromBech32_ok [OF a(1)])
  have vinv: "vault_inv E s" and swf: "sc_wf E (sc_store s)" and bi: "bank_inv (base s)" using inv by (simp_all add: debt_inv_def)
  obtain amount s1 b2 p rec es where r: "mm_CollateralAmount m = Some amount" "0 \<le> r"
    and lock: "LockCollateral E C a ?d (Some amount) s = (Ret (), s1)"
    and bank: "bank_inv b2" "\<forall>d. supply_of b2 d = supply_of (base s1) d + coins_of ZYTDDenom r d"
      "\<forall>x d. VerifyAddressFormat x \<longrightarrow>
        balance_of b2 x d = balance_of (base s1) x d + (if x = a then coins_of ZYTDDenom r d else 0)"
    and p: "GetPosition E (coll_store s1) a ?d = Inr p"
    and rec: "mr_Owner rec = mm_Sender m" "mr_IBCDenom rec = ?d" "mr_Minted rec = record_minted E (sc_store s) a ?d + r"
    and t: "t = s1\<lparr>base := b2\<lparr>evs := es\<rparr>,
      coll_store := kv_set (positionKey E a ?d) (CPos (p\<lparr>cp_MintedZYTD := cp_MintedZYTD p + r\<rparr>)) (coll_store s1),
      sc_store := SetTotalSupply (GetTotalSupply (sc_store s) + r) (kv_set (mintRecordKey E a ?d) (SMint rec) (sc_store s))\<rparr>"
    by (rule MintZYTD_state [OF B inv a run])
  have v1: "vault_inv E s1" by (rule LockCollateral_vault [OF B vinv va a(2) lock])
  note f = LockCollateral_frame [OF B vinv bi va a(2) lock]
  have mn: "0 \<le> cp_MintedZYTD p"
    using GetPosition_wf(4) [OF B _ va p] v1 by (simp add: vault_inv_def)
  have nn: "0 \<le> record_minted E (sc_store s) a ?d"
    using GetMintRecord_wf(3) [OF B swf va] by (auto simp: record_minted_def split: sum.splits)
  have vault_ok: "VerifyAddressFormat (vault_addr E)"
    using vinv by (auto simp: vault_inv_def vault_addr_def bank_ok_def NewModuleAddress_ok)
  have vt: "vault_inv E t"
    unfolding t
    by (rule vault_inv_debt_change [OF B v1 va p _ bank(1)])
      (use mn r bank(3) vault_ok a(2) in simp_all)
  have wf': "sc_wf E (kv_set (mintRecordKey E a ?d) (SMint rec) (sc_store s))"
    by (rule sc_wf_set [OF swf]) (use rec a nn r in \<open>auto simp: sval_ok_def\<close>)
  have pos: "position_minted E (coll_store t) x d' =
      position_minted E (coll_store s) x d' + (if x = a \<and> d' = ?d then r else 0)" if "VerifyAddressFormat x" for x d'
  proof (cases "x = a \<and> d' = ?d")
    case True
    have "cp_MintedZYTD p = position_minted E (coll_store s) a ?d"
      using f(5) [of a ?d] p by (simp add: position_minted_def)
    with True va show ?thesis by (simp add: t position_minted_def GetPosition_set [OF B va])
  next
    case False
    then have "position_minted E (coll_store t) x d' = position_minted E (coll_store s1) x d'"
      using that by (auto simp: t position_minted_def GetPosition_set [OF B va])
    with False f(5) show ?thesis by auto
  qed
  have rm: "record_minted E (sc_store t) x d' =
      record_minted E (sc_store s) x d' + (if x = a \<and> d' = ?d then r else 0)" if "VerifyAddressFormat x" for x d'
    using that rec(3) by (auto simp: t record_minted_def GetMintRecord_set [OF B va])
  have agree: "record_minted E (sc_store t) x d' = position_minted E (coll_store t) x d'" if "VerifyAddressFormat x" for x d'
    using inv pos [OF that] rm [OF that] that by (simp add: debt_inv_def)
  have "sum_minted (sc_store t) = sum_minted (sc_store s) + r"
    by (simp add: t sum_minted_supply [OF wf'] sum_minted_set [OF B swf va] rec(3))
  moreover have "supply_of (base t) ZYTDDenom = supply_of (base s) ZYTDDenom + r"
  proof -
    have "supply_of (base t) ZYTDDenom = supply_of b2 ZYTDDenom" by (simp add: t supply_of_def)
    then show ?thesis by (simp add: bank(2) f(2) coins_of_def)
  qed
  moreover have "bank_inv (base t)" using bank(1) by (simp add: t bank_inv_def bank_wf_def supply_of_def)
  moreover have "sc_wf E (sc_store t)" using sc_wf_supply [OF wf'] by (simp add: t)
  moreover have "GetTotalSupply (sc_store t) = GetTotalSupply (sc_store s) + r" by (simp add: t)
  ultimately show ?thesis using inv vt agree by (simp add: debt_inv_def)
qed

lemma dec_quo_nonzero: "dec_laws E \<Longrightarrow> dec_quo E a b = Some c \<Longrightarrow> b \<noteq> 0"
  unfolding dec_laws_def by blast

lemma dec_of_int_eq: "dec_laws E \<Longrightarrow> dec_of_int E a = a * dec_one"
  unfolding dec_laws_def by blast

lemma mint_bound:
  assumes D: "dec_laws E" and mul: "dec_mul E (dec_of_int E amount) price = Some usd" and quo: "dec_quo E usd mr = Some q"
    and tr: "dec_trunc E q = Some mx" and r: "r \<le> mx" and pos: "0 \<le> amount" "0 \<le> price" "0 < mr"
  shows "usd = amount * price" "r * mr \<le> amount * price + mr div (2 * 10 ^ 18)"
proof -
  let ?D = "10 ^ 18 :: int"
  have "2 * \<bar>usd * dec_one - (amount * dec_one) * price\<bar> \<le> dec_one" and qq: "2 * dec_one * \<bar>q * mr - usd * dec_one\<bar> \<le> (dec_one + 2) * \<bar>mr\<bar>"
    and qu: "2 * \<bar>q * mr\<bar> \<le> 2 * \<bar>usd * dec_one\<bar> + \<bar>mr\<bar>"
    using D mul quo by (auto simp: dec_laws_def)
  then have "2 * \<bar>(usd - amount * price) * ?D\<bar> \<le> ?D" by (simp add: dec_one_def algebra_simps)
  then have "2 * \<bar>usd - amount * price\<bar> \<le> 1" by (simp add: abs_mult)
  moreover have "x = 0" if "2 * \<bar>x\<bar> \<le> 1" for x :: int using that by arith
  ultimately show usd: "usd = amount * price" by fastforce
  then have nn: "0 \<le> usd * ?D" using pos by simp
  have nn': "0 \<le> usd * dec_one" using nn by (simp add: dec_one_def)
  have q1: "2 * (q * mr) \<le> 2 * (usd * ?D) + mr"
    using qu pos(3) nn' abs_ge_self [of "q * mr"] unfolding dec_one_def [symmetric] by simp
  have "0 \<le> q"
  proof (rule ccontr)
    assume "\<not> 0 \<le> q"
    then have "q * mr \<le> - mr" using pos(3) mult_right_mono [of q "- 1" mr] by simp
    then have "mr \<le> \<bar>q * mr - usd * dec_one\<bar>" using nn' by linarith
    then have "2 * dec_one * mr \<le> 2 * dec_one * \<bar>q * mr - usd * dec_one\<bar>" by (rule mult_left_mono) (simp add: dec_one_def)
    also have "\<dots> \<le> (dec_one + 2) * mr" using qq pos(3) by simp
    finally show False using pos(3) by (simp add: dec_one_def)
  qed
  then have "mx = q div dec_one" using D tr by (simp add: dec_laws_def)
  then have "mx * ?D \<le> q" by (simp add: dec_one_def)
  then have "r * ?D \<le> q" using mult_right_mono [OF r, of ?D] by simp
  then have "r * ?D * mr \<le> q * mr" using pos(3) by (simp add: mult_right_mono)
  with q1 have "2 * (r * ?D * mr) \<le> 2 * (usd * ?D) + mr" by linarith
  then have "(r * mr - usd) * (2 * ?D) \<le> mr" by (simp add: algebra_simps)
  then have "(r * mr - usd) * (2 * ?D) div (2 * ?D) \<le> mr div (2 * ?D)" by (rule zdiv_mono1) simp
  then show "r * mr \<le> amount * price + mr div (2 * 10 ^ 18)" using usd by simp
qed

lemma MintZYTD_supply:
  assumes "bech32_laws E" and inv: "debt_inv E s"
    and "AccAddressFromBech32 E (mm_Sender m) = Some a" "a \<noteq> vault_addr E"
    and "MintZYTD E C m s = (Ret r, t)"
  shows "0 \<le> r" "supply_of (base t) ZYTDDenom = supply_of (base s) ZYTDDenom + r"
proof -
  have "0 \<le> r \<and> GetTotalSupply (sc_store t) = GetTotalSupply (sc_store s) + r"
    by (rule MintZYTD_state [OF assms]) simp
  then show "0 \<le> r" "supply_of (base t) ZYTDDenom = supply_of (base s) ZYTDDenom + r"
    using inv MintZYTD_debt [OF assms] by (simp_all add: debt_inv_def)
qed

lemma burn_dead:
  assumes "bech32_laws E" and "dec_laws E" and "debt_inv E s"
  shows "BurnZYTD E C m s \<noteq> (Ret r, t)"
proof
  let ?d = "mb_IbcDenom m"
  assume run: "BurnZYTD E C m s = (Ret r, t)"
  obtain a rec p amt x ratio b n t' where a: "AccAddressFromBech32 E (mb_Sender m) = Some a"
    and rec: "GetMintRecord E (sc_store s) a ?d = Inr rec"
    and p: "GetPosition E (coll_store s) a ?d = Inr p"
    and q: "dec_quo E (dec_of_int E amt) (dec_of_int E (mr_Minted rec)) = Some ratio"
    and u: "UnlockCollateral E C a ?d (Some n) (s\<lparr>base := b\<rparr>) = (Ret (), t')"
    using run unfolding BurnZYTD_def Let_def by (clarsimp simp: go_iffs)
  have va: "VerifyAddressFormat a" by (rule AccAddressFromBech32_ok [OF a])
  have "mr_Minted rec \<noteq> 0" using dec_quo_nonzero [OF assms(2) q] by (auto simp: dec_of_int_eq [OF assms(2)])
  moreover have "record_minted E (sc_store s) a ?d = position_minted E (coll_store s) a ?d" and "coll_wf E (coll_store s)"
    using assms(3) va by (simp_all add: debt_inv_def vault_inv_def)
  then have "mr_Minted rec = cp_MintedZYTD p" and "0 \<le> cp_MintedZYTD p"
    using rec p GetPosition_wf(4) [OF assms(1) _ va p] by (simp_all add: record_minted_def position_minted_def)
  ultimately show False using u p by (simp add: UnlockCollateral_def go_simps)
qed

lemma liquidate_dead:
  assumes "bech32_laws E" and "coll_wf E (coll_store s)"
  shows "Liquidate E C m s \<noteq> (Ret r, t)"
proof
  let ?d = "ml_IbcDenom m"
  assume run: "Liquidate E C m s = (Ret r, t)"
  obtain a p b n t' where a: "AccAddressFromBech32 E (ml_TargetOwner m) = Some a"
    and p: "GetPosition E (coll_store s) a ?d = Inr p" "cp_MintedZYTD p \<noteq> 0"
    and u: "UnlockCollateral E C a ?d (Some n) (s\<lparr>base := b\<rparr>) = (Ret (), t')"
    using run unfolding Liquidate_def Let_def collateral_usd_def liquidation_amounts_def by (clarsimp simp: go_iffs)
  have "0 \<le> cp_MintedZYTD p"
    using GetPosition_wf(4) [OF assms AccAddressFromBech32_ok [OF a] p(1)] .
  with p u show False by (simp add: UnlockCollateral_def go_simps)
qed

subsection \<open>Properties\<close>

text \<open>
  C5. No under-collateralised mint: when a mint succeeds at a non-negative TWAP
  and a positive minimum ratio, the ZYTD issued times the minimum ratio is at most the
  collateral times the TWAP, up to \<open>mr div (2 * 10 ^ 18)\<close> units of \<open>10 ^ -18\<close> USD, the
  rounding of one division (one unit for a ratio of 200 percent); the asset is active and
  the collateral handed in is not negative.
\<close>

theorem MintZYTD_collateralised:
  assumes "dec_laws E" and "MintZYTD E C m s = (Ret r, t)"
    and "GetCollateralAsset (coll_store s) (mm_IbcDenom m) = Inr asset" and "ca_MinRatio asset = Some mr" and "0 < mr"
    and "GetTWAP (oracle_store s) (mm_IbcDenom m) = Inr tw" and "tw_TWAP tw = Some price" and "0 \<le> price"
  shows "\<exists>amount. mm_CollateralAmount m = Some amount \<and> 0 \<le> amount \<and> mm_RequestedZytd m = Some r \<and> 0 \<le> r
    \<and> ca_IsActive asset \<and> r * mr \<le> amount * price + mr div (2 * 10 ^ 18)"
proof -
  obtain sender amount asset' tw' price' usd mr' q mx s1 c cs where
    a: "mm_CollateralAmount m = Some amount" "mm_RequestedZytd m = Some r"
    and g: "GetCollateralAsset (coll_store s) (mm_IbcDenom m) = Inr asset'" "ca_IsActive asset'" "ca_MinRatio asset' = Some mr'"
      "GetTWAP (oracle_store s) (mm_IbcDenom m) = Inr tw'" "tw_TWAP tw' = Some price'"
    and d: "dec_mul E (dec_of_int E amount) price' = Some usd" "dec_quo E usd mr' = Some q" "dec_trunc E q = Some mx" "r \<le> mx"
    and lock: "LockCollateral E C sender (mm_IbcDenom m) (Some amount) s = (Ret (), s1)"
    and nc: "NewCoin ZYTDDenom r = Some c" "NewCoins [c] = Some cs"
    by (rule MintZYTD_Ret [OF assms(2)])
  have eq: "asset' = asset" "mr' = mr" "price' = price" using g assms by auto
  have "0 \<le> amount" using lock by (auto simp: LockCollateral_def go_iffs NewCoin_Some)
  then show ?thesis
    using a g(2) mint_bound(2) [OF assms(1) d _ _ _] assms(5,8) NewCoins_NewCoin(3) [OF nc] by (simp add: eq)
qed

text \<open>
  C6. A mint is booked everywhere and only once: from a consistent state an accepted mint
  moves the collateral from the sender to the vault, pays exactly the requested ZYTD
  to the sender, raises the bank's supply, the module's supply counter, the sender's mint
  record and the vault's debt entry by that same amount, and leads to a consistent state:
  records and vault agree on every debt, the counter is the sum of the records and equals
  the supply, and the vault covers all positions.
\<close>

theorem MintZYTD_accounting:
  assumes "bech32_laws E" and "debt_inv E s"
    and "AccAddressFromBech32 E (mm_Sender m) = Some a" and "a \<noteq> vault_addr E"
    and "MintZYTD E C m s = (Ret r, t)"
  shows "\<exists>amount. mm_CollateralAmount m = Some amount
    \<and> (\<forall>d. balance_of (base t) a d = balance_of (base s) a d - coins_of (mm_IbcDenom m) amount d + coins_of ZYTDDenom r d)
    \<and> supply_of (base t) ZYTDDenom = supply_of (base s) ZYTDDenom + r
    \<and> GetTotalSupply (sc_store t) = GetTotalSupply (sc_store s) + r
    \<and> record_minted E (sc_store t) a (mm_IbcDenom m) = record_minted E (sc_store s) a (mm_IbcDenom m) + r
    \<and> position_minted E (coll_store t) a (mm_IbcDenom m) = position_minted E (coll_store s) a (mm_IbcDenom m) + r
    \<and> debt_inv E t"
proof -
  let ?d = "mm_IbcDenom m"
  have va: "VerifyAddressFormat a" by (rule AccAddressFromBech32_ok [OF assms(3)])
  have vinv: "vault_inv E s" and bi: "bank_inv (base s)" using assms(2) by (simp_all add: debt_inv_def)
  obtain amount s1 b2 p rec es where r: "mm_CollateralAmount m = Some amount" "0 \<le> r"
    and lock: "LockCollateral E C a ?d (Some amount) s = (Ret (), s1)"
    and bank: "bank_inv b2" "\<forall>d. supply_of b2 d = supply_of (base s1) d + coins_of ZYTDDenom r d"
      "\<forall>x d. VerifyAddressFormat x \<longrightarrow>
        balance_of b2 x d = balance_of (base s1) x d + (if x = a then coins_of ZYTDDenom r d else 0)"
    and p: "GetPosition E (coll_store s1) a ?d = Inr p"
    and rec: "mr_Owner rec = mm_Sender m" "mr_IBCDenom rec = ?d" "mr_Minted rec = record_minted E (sc_store s) a ?d + r"
    and t: "t = s1\<lparr>base := b2\<lparr>evs := es\<rparr>,
      coll_store := kv_set (positionKey E a ?d) (CPos (p\<lparr>cp_MintedZYTD := cp_MintedZYTD p + r\<rparr>)) (coll_store s1),
      sc_store := SetTotalSupply (GetTotalSupply (sc_store s) + r) (kv_set (mintRecordKey E a ?d) (SMint rec) (sc_store s))\<rparr>"
    by (rule MintZYTD_state [OF assms])
  note f = LockCollateral_frame [OF assms(1) vinv bi va assms(4) lock]
  have inv: "debt_inv E t" by (rule MintZYTD_debt [OF assms])
  have sup: "GetTotalSupply (sc_store t) = GetTotalSupply (sc_store s) + r" by (simp add: t)
  have rm: "record_minted E (sc_store t) a ?d = record_minted E (sc_store s) a ?d + r"
    using rec(3) va by (simp add: t record_minted_def GetMintRecord_set [OF assms(1)])
  have "balance_of (base t) a d = balance_of (base s) a d - coins_of ?d amount d + coins_of ZYTDDenom r d" for d
    using bank(3) va f(6) [of d] by (simp add: t)
  then show ?thesis using r(1) inv sup rm assms(2) va by (simp add: debt_inv_def)
qed

text \<open>
  C7. Burning is impossible: in a consistent state, whatever the message and the height,
  \<open>BurnZYTD\<close> never succeeds. The handler releases the collateral before it lowers the
  debt in the vault, and the vault refuses to release collateral of a position with debt.
\<close>

theorem BurnZYTD_never_succeeds:
  assumes "bech32_laws E" and "dec_laws E" and "debt_inv E s"
  shows "fst (BurnZYTD E C m s) \<noteq> Ret r"
  using burn_dead [OF assms] by (metis prod.collapse)

text \<open>
  C8. Liquidation is impossible: with a well-formed vault \<open>Liquidate\<close> never succeeds,
  however far a position is below its threshold, for the same reason as burning.
\<close>

theorem Liquidate_never_succeeds:
  assumes "bech32_laws E" and "coll_wf E (coll_store s)"
  shows "fst (Liquidate E C m s) \<noteq> Ret r"
  using liquidate_dead [OF assms] by (metis prod.collapse)

text \<open>
  The migration phases bind the mint: between the two grace heights every mint is
  refused and nothing changes; after the hard height a sender without a registered key is
  refused, and every accepted mint carries the registered key and a Dilithium5 signature
  that verifies over the domain-separated hash of sender, denomination and expiration.
\<close>

theorem MintZYTD_phases:
  assumes "AccAddressFromBech32 E (mm_Sender m) = Some a"
  shows "(20000 < block_height C \<and> block_height C \<le> 50000 \<longrightarrow> MintZYTD E C m s = (Err ErrMigrationMintForbidden, s))
    \<and> (50000 < block_height C \<and> GetZYTDPQCKey E (sc_store s) a = Inl e \<longrightarrow> MintZYTD E C m s = (Err ErrHardFreezeNoKey, s))
    \<and> (50000 < block_height C \<and> fst (MintZYTD E C m s) = Ret r \<longrightarrow>
        GetZYTDPQCKey E (sc_store s) a = Inr (mz_Dilithium5PubKey m)
        \<and> mode5_Verify E (mz_Dilithium5PubKey m)
            (sha3_256 E (''zytherion/zytd/v1/'' @ a @ mm_IbcDenom m @ le64 (mz_ExpirationBlockHeight m)))
            (mz_Dilithium5Sig m))"
proof -
  have 1: "MintZYTD E C m s = (Err ErrMigrationMintForbidden, s)"
    if "20000 < block_height C" "block_height C \<le> 50000"
    using that assms by (simp add: MintZYTD_def Let_def go_simps CheckMintAllowed_def GetMigrationPhase_def
        GracePhaseLockHeight_def GracePhaseHardHeight_def)
  have 2: "MintZYTD E C m s = (Err ErrHardFreezeNoKey, s)"
    if h: "50000 < block_height C" and k: "GetZYTDPQCKey E (sc_store s) a = Inl e"
    using assms h k phase3_iff [of "block_height C"]
    by (simp add: MintZYTD_def Let_def go_simps CheckMintAllowed_def verifyZYTDPQCSig_def CheckHardFreeze_def)
  have 3: "GetZYTDPQCKey E (sc_store s) a = Inr (mz_Dilithium5PubKey m)
      \<and> mode5_Verify E (mz_Dilithium5PubKey m)
          (sha3_256 E (''zytherion/zytd/v1/'' @ a @ mm_IbcDenom m @ le64 (mz_ExpirationBlockHeight m))) (mz_Dilithium5Sig m)"
    if h: "50000 < block_height C" and run: "fst (MintZYTD E C m s) = Ret r"
  proof -
    have "MintZYTD E C m s = (Ret r, snd (MintZYTD E C m s))" using run by (simp add: prod_eq_iff)
    then have "sig_accepted E C (sc_store s) a (mm_IbcDenom m) (mz_ExpirationBlockHeight m)
        (mz_Dilithium5PubKey m) (mz_Dilithium5Sig m)"
      by (rule MintZYTD_Ret) (use assms in simp)
    with h show ?thesis by (auto simp: sig_accepted_def split: sum.splits)
  qed
  show ?thesis using 1 2 3 by blast
qed

lemma GetZYTDPQCKey_set:
  assumes "bech32_laws E" "VerifyAddressFormat a" "VerifyAddressFormat b"
  shows "GetZYTDPQCKey E (SetZYTDPQCKey E a pk st) b = (if b = a then Inr pk else GetZYTDPQCKey E st b)"
  using acc_String_inj [OF assms] acc_String_inj [OF assms(1,3,2)]
  by (auto simp: GetZYTDPQCKey_def SetZYTDPQCKey_def pqcKeyRegistryKey_def kv_simps)

lemma RegisterZYTDKey_run:
  assumes "AccAddressFromBech32 E (mk_Sender m) = Some a"
  obtains es where "RegisterZYTDKey E C m s = (Ret (hex_EncodeToString (sha3_256 E (mk_Dilithium5PubKey m))),
    s\<lparr>sc_store := SetZYTDPQCKey E a (mk_Dilithium5PubKey m) (sc_store s), base := (base s)\<lparr>evs := es\<rparr>\<rparr>)"
  using assms by (simp add: RegisterZYTDKey_def go_simps)

lemma sum_minted_key:
  assumes "sc_wf E st"
  shows "sum_minted (SetZYTDPQCKey E a pk st) = sum_minted st"
proof -
  have "kv_at minted_amount st (pqcKeyRegistryKey E a) = 0"
    using sc_wfD [OF assms, of "pqcKeyRegistryKey E a"]
    by (auto simp: kv_at_def minted_amount_def sval_ok_def split: option.splits sval.splits)
  moreover have "kv_inv st" using assms by (simp add: sc_wf_def)
  ultimately show ?thesis by (simp add: sum_minted_def SetZYTDPQCKey_def kv_sum_set minted_amount_def)
qed

lemma debt_inv_events:
  assumes "debt_inv E s"
  shows "debt_inv E (s\<lparr>base := (base s)\<lparr>evs := es\<rparr>\<rparr>)"
  using assms
  by (auto simp: debt_inv_def vault_inv_def bank_ok_def bank_wf_def bank_inv_def bk.covers_def supply_of_def)

lemma debt_inv_key:
  assumes "debt_inv E s"
  shows "debt_inv E (s\<lparr>sc_store := SetZYTDPQCKey E a pk (sc_store s)\<rparr>)"
proof -
  have wf: "sc_wf E (sc_store s)" using assms by (simp add: debt_inv_def)
  have "sc_wf E (SetZYTDPQCKey E a pk (sc_store s))"
    unfolding SetZYTDPQCKey_def by (rule sc_wf_set [OF wf]) (simp add: sval_ok_def)
  moreover have "record_minted E (SetZYTDPQCKey E a pk (sc_store s)) = record_minted E (sc_store s)"
    by (simp add: record_minted_def GetMintRecord_def SetZYTDPQCKey_def kv_simps fun_eq_iff)
  moreover have "GetTotalSupply (SetZYTDPQCKey E a pk (sc_store s)) = GetTotalSupply (sc_store s)"
    by (simp add: GetTotalSupply_def SetZYTDPQCKey_def kv_simps)
  ultimately show ?thesis
    using assms sum_minted_key [OF wf] by (simp add: debt_inv_def vault_inv_def)
qed

text \<open>
  Registering a key always succeeds for a valid sender: the key read back for the
  sender is the registered one, also when another was registered before, every other
  account keeps its key, and the consistency of the debts is kept.
\<close>

theorem RegisterZYTDKey_roundtrip:
  assumes "bech32_laws E" and "AccAddressFromBech32 E (mk_Sender m) = Some a" and "debt_inv E s"
  shows "\<exists>t. RegisterZYTDKey E C m s = (Ret (hex_EncodeToString (sha3_256 E (mk_Dilithium5PubKey m))), t)
    \<and> GetZYTDPQCKey E (sc_store t) a = Inr (mk_Dilithium5PubKey m) \<and> HasZYTDPQCKey E (sc_store t) a
    \<and> (\<forall>b. VerifyAddressFormat b \<and> b \<noteq> a \<longrightarrow> GetZYTDPQCKey E (sc_store t) b = GetZYTDPQCKey E (sc_store s) b)
    \<and> debt_inv E t"
proof -
  have va: "VerifyAddressFormat a" by (rule AccAddressFromBech32_ok [OF assms(2)])
  obtain es where run: "RegisterZYTDKey E C m s = (Ret (hex_EncodeToString (sha3_256 E (mk_Dilithium5PubKey m))),
    s\<lparr>sc_store := SetZYTDPQCKey E a (mk_Dilithium5PubKey m) (sc_store s), base := (base s)\<lparr>evs := es\<rparr>\<rparr>)"
    by (rule RegisterZYTDKey_run [where E = E and C = C and m = m and s = s, OF assms(2)])
  have "debt_inv E (s\<lparr>sc_store := SetZYTDPQCKey E a (mk_Dilithium5PubKey m) (sc_store s), base := (base s)\<lparr>evs := es\<rparr>\<rparr>)"
    using debt_inv_events [OF debt_inv_key [OF assms(3)]] by simp
  moreover have "HasZYTDPQCKey E (SetZYTDPQCKey E a pk st) a" for pk st
    by (simp add: HasZYTDPQCKey_def SetZYTDPQCKey_def kv_has_def kv_simps)
  ultimately show ?thesis
    using va by (auto simp: run GetZYTDPQCKey_set [OF assms(1) va])
qed

subsection \<open>Concrete states\<close>

text \<open>
  The state of the vault examples with a TWAP of 1.5 USD for uzytc; a mint of 2 ZYTD
  against 4 uzytc, and the state after it.
\<close>

definition twap_store :: "oval kv" where
  "twap_store = SetTWAP \<lparr>tw_Denom = ''uzytc'', tw_TWAP = Some (15 * 10 ^ 17), tw_WindowStart = 0, tw_WindowEnd = 1,
     tw_NumSamples = 3\<rparr> []"

definition mint_start :: chain where
  "mint_start = vault_start\<lparr>oracle_store := twap_store\<rparr>"

definition mint_msg :: MsgMintZYTD where
  "mint_msg = \<lparr>mz_ExpirationBlockHeight = 3, mz_Dilithium5PubKey = [], mz_Dilithium5Sig = [],
     mm_Sender = acc_String env0 ''alice'', mm_IbcDenom = ''uzytc'', mm_CollateralAmount = Some 4,
     mm_RequestedZytd = Some 2\<rparr>"

definition mint_done :: chain where
  "mint_done = snd (MintZYTD env0 ctx1 mint_msg mint_start)"

lemma bank_example_inv: "bank_inv bank_example"
proof -
  have k: "AddressAndDenomFromBalancesStore (CHR 0x05 # ''aliceuzytc'') = Some (''alice'', ''uzytc'')" by code_simp
  show ?thesis
    using bank_example_wf
    by (simp add: bank_inv_def supply_of_def total_of_def kv_at_def kv_get_def kv_sum_def denom_amount_def k
        bank_example_def base_empty_def)
qed

lemma mint_start_inv: "debt_inv env0 mint_start"
proof -
  have st: "kv_inv (coll_store vault_start)" "list_all asset_entry (coll_store vault_start)" by code_simp+
  have "vault_inv env0 mint_start" using vault_start_inv by (simp add: vault_inv_def mint_start_def)
  moreover have "position_minted env0 (coll_store vault_start) a d = 0" for a d
    using st by (auto simp: position_minted_def GetPosition_def asset_entry_def list_all_iff kv_get_mem
        split: option.splits cval.splits sum.splits dest!: bspec)
  moreover have "supply_of bank_example ZYTDDenom = 0" by code_simp
  ultimately show ?thesis
    using bank_example_inv
    by (simp add: debt_inv_def sc_wf_def mint_start_def vault_start_def record_minted_def GetMintRecord_def kv_simps
        GetTotalSupply_def sum_minted_def)
qed

lemma mint_sender: "AccAddressFromBech32 env0 (mm_Sender mint_msg) = Some ''alice''"
  by code_simp

lemma mint_run: "MintZYTD env0 ctx1 mint_msg mint_start = (Ret 2, mint_done)"
proof -
  have "fst (MintZYTD env0 ctx1 mint_msg mint_start) = Ret 2" by code_simp
  then show ?thesis by (simp add: prod_eq_iff mint_done_def)
qed

lemma mint_done_inv: "debt_inv env0 mint_done"
  by (rule MintZYTD_debt [OF env0_bech32_laws mint_start_inv mint_sender alice_ok(2) mint_run])

theorem MintZYTD_collateralised_witness:
  "\<exists>t. MintZYTD env0 ctx1 mint_msg mint_start = (Ret 2, t) \<and> 2 * (200 * 10 ^ 16) \<le> 4 * (15 * 10 ^ 17) + (1 :: int)"
proof -
  have a: "GetCollateralAsset (coll_store mint_start) (mm_IbcDenom mint_msg) = Inr (default_asset ''uzytc'' ''ZYTC'' 200 150)"
    and w: "GetTWAP (oracle_store mint_start) (mm_IbcDenom mint_msg) =
      Inr \<lparr>tw_Denom = ''uzytc'', tw_TWAP = Some (15 * 10 ^ 17), tw_WindowStart = 0, tw_WindowEnd = 1, tw_NumSamples = 3\<rparr>"
    by code_simp+
  show ?thesis
    using MintZYTD_collateralised [OF env0_dec_laws mint_run a _ _ w, of "200 * 10 ^ 16" "15 * 10 ^ 17"] mint_run
    by (auto simp: default_asset_def dec_percent_def mint_msg_def)
qed

theorem MintZYTD_accounting_witness:
  "supply_of (base mint_done) ZYTDDenom = supply_of (base mint_start) ZYTDDenom + 2 \<and> debt_inv env0 mint_done"
  using MintZYTD_accounting [OF env0_bech32_laws mint_start_inv mint_sender alice_ok(2) mint_run] by auto

theorem BurnZYTD_never_succeeds_witness:
  "fst (BurnZYTD env0 ctx1 \<lparr>mz_ExpirationBlockHeight = 3, mz_Dilithium5PubKey = [], mz_Dilithium5Sig = [],
     mb_Sender = acc_String env0 ''alice'', mb_IbcDenom = ''uzytc'', mb_ZytdAmount = Some 1\<rparr> mint_done) \<noteq> Ret 2"
  by (rule BurnZYTD_never_succeeds [OF env0_bech32_laws env0_dec_laws mint_done_inv])

theorem Liquidate_never_succeeds_witness:
  "fst (Liquidate env0 ctx1 \<lparr>mz_ExpirationBlockHeight = 3, mz_Dilithium5PubKey = [], mz_Dilithium5Sig = [],
     ml_Liquidator = acc_String env0 ''bob'', ml_TargetOwner = acc_String env0 ''alice'', ml_IbcDenom = ''uzytc''\<rparr>
     mint_done) \<noteq> Ret 2"
  by (rule Liquidate_never_succeeds [OF env0_bech32_laws]) (use mint_done_inv in \<open>simp add: debt_inv_def vault_inv_def\<close>)

theorem MintZYTD_phases_witness:
  "MintZYTD env0 \<lparr>block_height = 30000, block_time = 0\<rparr> mint_msg mint_start = (Err ErrMigrationMintForbidden, mint_start)
   \<and> MintZYTD env0 \<lparr>block_height = 60000, block_time = 0\<rparr> mint_msg mint_start = (Err ErrHardFreezeNoKey, mint_start)"
proof -
  have "GetZYTDPQCKey env0 (sc_store mint_start) ''alice'' = Inl ErrPQCKeyNotRegistered" by code_simp
  then show ?thesis
    using MintZYTD_phases [OF mint_sender, where C = "\<lparr>block_height = 30000, block_time = 0\<rparr>" and s = mint_start]
      MintZYTD_phases [OF mint_sender, where C = "\<lparr>block_height = 60000, block_time = 0\<rparr>" and s = mint_start]
    by simp
qed

theorem RegisterZYTDKey_roundtrip_witness:
  "\<exists>t h. RegisterZYTDKey env0 ctx1 \<lparr>mk_Sender = acc_String env0 ''alice'', mk_Dilithium5PubKey = ''key'',
       mk_ExpirationBlockHeight = 3\<rparr> mint_start = (Ret h, t)
     \<and> GetZYTDPQCKey env0 (sc_store t) ''alice'' = Inr ''key'' \<and> debt_inv env0 t"
  using RegisterZYTDKey_roundtrip [OF env0_bech32_laws _ mint_start_inv, of "\<lparr>mk_Sender = acc_String env0 ''alice'',
      mk_Dilithium5PubKey = ''key'', mk_ExpirationBlockHeight = 3\<rparr>" "''alice''" ctx1] mint_sender
  by (auto simp: mint_msg_def)

end
