(* ===== verification/Confidential.thy ===== *)
theory Confidential
  imports Stablecoin
begin

section \<open>Confidential ZYTD accounts\<close>

text \<open>
  Balances kept as TFHE ciphertexts next to a public credit limit. Follows
  \<open>x/stablecoin/keeper/confidential_transfer.go\<close> and the wrappers of
  \<open>x/privacy/tfhe/engine.go\<close> it calls. The ciphertext operations are fields of \<open>env\<close>; the
  law \<open>tfhe_laws\<close> gives their meaning for ciphertexts and a server key of one client key,
  and nothing for ciphertexts of different keys, which the code mixes. The credit limit
  is a 64-bit word, plaintexts are 32-bit words, as in the code. The node's cached client
  key is the argument \<open>nck\<close>; the worker pool runs each job once and returns its result
  (\<open>WorkerPool\<close>), so a call through it is the call itself.
\<close>

subsection \<open>The engine's wrappers\<close>

definition ffi_result :: "string \<Rightarrow> string option \<Rightarrow> err + string" where
  "ffi_result what r = (case r of None \<Rightarrow> Inl (Errorf what) | Some ct \<Rightarrow> Inr ct)"

definition EncryptUint32 :: "env \<Rightarrow> string \<Rightarrow> 32 word \<Rightarrow> err + string" where
  "EncryptUint32 E clientKey plaintext =
     (if clientKey = [] then Inl (Errorf ''tfhe: client key is empty'')
      else ffi_result ''tfhe: encryption failed'' (ffi_encrypt_u32 E clientKey plaintext))"

definition EncryptWithPublicKey :: "env \<Rightarrow> string \<Rightarrow> 32 word \<Rightarrow> err + string" where
  "EncryptWithPublicKey E pubKey plaintext =
     (if pubKey = [] then Inl (Errorf ''tfhe: public key is empty'')
      else ffi_result ''tfhe: PublicKey encryption failed'' (ffi_encrypt_u32_pk E pubKey plaintext))"

definition cachedNodeClientKey :: "string \<Rightarrow> err + string" where
  "cachedNodeClientKey nck = (if nck = [] then Inl (Errorf ''tfhe: node keys not initialised'') else Inr nck)"

definition EncryptWithServerKey :: "env \<Rightarrow> string \<Rightarrow> string \<Rightarrow> 32 word \<Rightarrow> err + string" where
  "EncryptWithServerKey E nck serverKey plaintext = (case cachedNodeClientKey nck of
     Inl e \<Rightarrow> Inl (Wrap ''tfhe: EncryptWithServerKey'' e)
   | Inr ck \<Rightarrow> EncryptUint32 E ck plaintext)"

definition AddUint32 :: "env \<Rightarrow> string \<Rightarrow> string \<Rightarrow> string \<Rightarrow> err + string" where
  "AddUint32 E serverKey ct1 ct2 =
     (if serverKey = [] then Inl (Errorf ''tfhe: server key is empty'')
      else if ct1 = [] \<or> ct2 = [] then Inl (Errorf ''tfhe: ciphertext inputs must not be empty'')
      else ffi_result ''tfhe: homomorphic add failed'' (ffi_add_u32 E serverKey ct1 ct2))"

definition SubUint32 :: "env \<Rightarrow> string \<Rightarrow> string \<Rightarrow> string \<Rightarrow> err + string" where
  "SubUint32 E serverKey ct1 ct2 =
     (if serverKey = [] then Inl (Errorf ''tfhe: server key is empty'')
      else if ct1 = [] \<or> ct2 = [] then Inl (Errorf ''tfhe: ciphertext inputs must not be empty'')
      else ffi_result ''tfhe: homomorphic sub failed'' (ffi_sub_u32 E serverKey ct1 ct2))"

subsection \<open>Account states and keys\<close>

definition zytdStateKey :: "env \<Rightarrow> addr \<Rightarrow> string" where
  "zytdStateKey E a = ''enc_zytd_v2/'' @ acc_String E a"

definition zero_account :: ZYTDAccountState where
  "zero_account = \<lparr>za_EncryptedBalance = [], za_PublicCreditLimit = 0, za_LastUpdatedBlock = 0, za_SizeBytes = 0\<rparr>"

definition GetZYTDAccountState :: "env \<Rightarrow> sval kv \<Rightarrow> addr \<Rightarrow> ZYTDAccountState" where
  "GetZYTDAccountState E st a = (case kv_get st (zytdStateKey E a) of
     Some (SAcct s) \<Rightarrow> s
   | _ \<Rightarrow> zero_account)"

definition SetZYTDAccountState :: "env \<Rightarrow> addr \<Rightarrow> ZYTDAccountState \<Rightarrow> sval kv \<Rightarrow> sval kv" where
  "SetZYTDAccountState E a s st = kv_set (zytdStateKey E a) (SAcct s) st"

definition userPubKeyStoreKey :: "env \<Rightarrow> addr \<Rightarrow> string" where
  "userPubKeyStoreKey E a = ''tfhe_pubkey/'' @ acc_String E a"

definition SetUserTFHEPublicKey :: "env \<Rightarrow> addr \<Rightarrow> string \<Rightarrow> unit chain_op" where
  "SetUserTFHEPublicKey E a pubKey =
     gbind (gfail_if (pubKey = []) (Errorf ''stablecoin: TFHE public key must not be empty'')) (\<lambda>_.
     gbind (gfail_if (length pubKey < 1024) (Errorf ''stablecoin: TFHE public key too small'')) (\<lambda>_.
     sc_mod (kv_set (userPubKeyStoreKey E a) (STfheKey pubKey))))"

definition GetUserTFHEPublicKey :: "env \<Rightarrow> sval kv \<Rightarrow> addr \<Rightarrow> string option" where
  "GetUserTFHEPublicKey E st a = (case kv_get st (userPubKeyStoreKey E a) of
     Some (STfheKey pk) \<Rightarrow> Some pk
   | _ \<Rightarrow> None)"

definition HasUserTFHEPublicKey :: "env \<Rightarrow> sval kv \<Rightarrow> addr \<Rightarrow> bool" where
  "HasUserTFHEPublicKey E st a = kv_has st (userPubKeyStoreKey E a)"

subsection \<open>Mint and transfer\<close>

text \<open>the sum, capped at the largest 64-bit value when it wraps\<close>

definition credit_add :: "64 word \<Rightarrow> 64 word \<Rightarrow> 64 word" where
  "credit_add limit amount = (let n = limit + amount in if n < limit then - 1 else n)"

definition account_state :: "ctx \<Rightarrow> string \<Rightarrow> 64 word \<Rightarrow> ZYTDAccountState" where
  "account_state C ct limit = \<lparr>za_EncryptedBalance = ct, za_PublicCreditLimit = limit,
     za_LastUpdatedBlock = block_height C, za_SizeBytes = int (length ct)\<rparr>"

definition add_or_init :: "env \<Rightarrow> string \<Rightarrow> string \<Rightarrow> string \<Rightarrow> err + string" where
  "add_or_init E serverKey balance ct = (if balance = [] then Inr ct else AddUint32 E serverKey balance ct)"

definition ConfidentialMintZYTD :: "env \<Rightarrow> ctx \<Rightarrow> addr \<Rightarrow> 32 word \<Rightarrow> string \<Rightarrow> unit chain_op" where
  "ConfidentialMintZYTD E C recipient mintAmount serverKey =
     gbind (gfail_if (mintAmount = 0) (Errorf ''stablecoin: mint amount must be > 0'')) (\<lambda>_.
     gbind (gfail_if (serverKey = []) (Errorf ''stablecoin: server key must not be empty'')) (\<lambda>_.
     gbind (sc_get (\<lambda>st. GetUserTFHEPublicKey E st recipient)) (\<lambda>k.
     gbind (gopt_err (Errorf ''stablecoin: recipient has no registered TFHE public key'') k) (\<lambda>userPubKey.
     gbind (gmap_err (Wrap ''stablecoin: encrypt mint amount with user public key'')
              (ret_or_err (EncryptWithPublicKey E userPubKey mintAmount))) (\<lambda>encMintAmount.
     gbind (sc_get (\<lambda>st. GetZYTDAccountState E st recipient)) (\<lambda>state.
     gbind (gmap_err (Wrap ''stablecoin: homomorphic add during mint'')
              (ret_or_err (add_or_init E serverKey (za_EncryptedBalance state) encMintAmount))) (\<lambda>newBalanceCT.
     gbind (gret (credit_add (za_PublicCreditLimit state) (ucast mintAmount))) (\<lambda>newCreditLimit.
     gbind (sc_mod (SetZYTDAccountState E recipient (account_state C newBalanceCT newCreditLimit))) (\<lambda>_.
     emit ''confidential_mint_zytd'' [(''recipient'', AStr (acc_String E recipient)),
       (''new_credit_limit'', AInt (uint newCreditLimit)),
       (''balance_ct_size_bytes'', AInt (int (length newBalanceCT)))])))))))))"

definition ConfidentialTransferZYTD :: "env \<Rightarrow> string \<Rightarrow> ctx \<Rightarrow> addr \<Rightarrow> addr \<Rightarrow> 64 word \<Rightarrow> string \<Rightarrow> unit chain_op" where
  "ConfidentialTransferZYTD E nck C sender recipient plaintextAmount serverKey =
     gbind (gfail_if (plaintextAmount = 0) (Errorf ''stablecoin: transfer amount must be > 0'')) (\<lambda>_.
     gbind (gfail_if (plaintextAmount > ucast (- 1 :: 32 word)) (Errorf ''stablecoin: transfer amount overflows uint32'')) (\<lambda>_.
     gbind (gfail_if (serverKey = []) (Errorf ''stablecoin: server key must not be empty'')) (\<lambda>_.
     gbind (sc_get (\<lambda>st. GetZYTDAccountState E st sender)) (\<lambda>senderState.
     gbind (gfail_if (za_EncryptedBalance senderState = []) (Errorf ''stablecoin: sender has no encrypted ZYTD balance'')) (\<lambda>_.
     gbind (gfail_if (plaintextAmount > za_PublicCreditLimit senderState)
              (Errorf ''stablecoin: transfer amount exceeds sender credit limit'')) (\<lambda>_.
     gbind (gmap_err (Wrap ''stablecoin: encrypt transfer amount'')
              (ret_or_err (EncryptWithServerKey E nck serverKey (ucast plaintextAmount)))) (\<lambda>encAmount.
     gbind (gmap_err (Wrap ''stablecoin: homomorphic sub (sender deduction)'')
              (ret_or_err (SubUint32 E serverKey (za_EncryptedBalance senderState) encAmount))) (\<lambda>newSenderCT.
     gbind (gret (za_PublicCreditLimit senderState - plaintextAmount)) (\<lambda>newSenderCreditLimit.
     gbind (sc_mod (SetZYTDAccountState E sender (account_state C newSenderCT newSenderCreditLimit))) (\<lambda>_.
     gbind (sc_get (\<lambda>st. GetUserTFHEPublicKey E st recipient)) (\<lambda>k.
     gbind (gopt_err (Errorf ''stablecoin: recipient has no registered TFHE public key'') k) (\<lambda>recipientPubKey.
     gbind (gmap_err (Wrap ''stablecoin: encrypt transfer amount for recipient'')
              (ret_or_err (EncryptWithPublicKey E recipientPubKey (ucast plaintextAmount)))) (\<lambda>encAmountForRecipient.
     gbind (sc_get (\<lambda>st. GetZYTDAccountState E st recipient)) (\<lambda>recipientState.
     gbind (gmap_err (Wrap ''stablecoin: homomorphic add (recipient credit)'')
              (ret_or_err (add_or_init E serverKey (za_EncryptedBalance recipientState) encAmountForRecipient))) (\<lambda>newRecipientCT.
     gbind (sc_mod (SetZYTDAccountState E recipient
              (account_state C newRecipientCT (credit_add (za_PublicCreditLimit recipientState) plaintextAmount)))) (\<lambda>_.
     emit ''confidential_transfer_zytd'' [(''sender'', AStr (acc_String E sender)),
       (''recipient'', AStr (acc_String E recipient)), (''amount'', AInt (uint plaintextAmount)),
       (''sender_new_credit_limit'', AInt (uint newSenderCreditLimit))]))))))))))))))))"

subsection \<open>Queries\<close>

definition QueryEncryptedZYTDBalance :: "env \<Rightarrow> sval kv \<Rightarrow> addr \<Rightarrow> string \<times> int" where
  "QueryEncryptedZYTDBalance E st a =
     (let state = GetZYTDAccountState E st a in
      if za_EncryptedBalance state = [] then ([], 0) else (za_EncryptedBalance state, za_SizeBytes state))"

definition QueryCreditLimit :: "env \<Rightarrow> sval kv \<Rightarrow> addr \<Rightarrow> 64 word" where
  "QueryCreditLimit E st a = za_PublicCreditLimit (GetZYTDAccountState E st a)"

definition GetEncryptedZYTDBalance :: "env \<Rightarrow> sval kv \<Rightarrow> addr \<Rightarrow> string \<times> int \<times> int" where
  "GetEncryptedZYTDBalance E st a =
     (let s = GetZYTDAccountState E st a in (za_EncryptedBalance s, za_LastUpdatedBlock s, za_SizeBytes s))"

subsection \<open>What the operations do to the plaintexts\<close>

text \<open>
  the plaintext of an account's balance as the holder of client key \<open>ck\<close> sees it: \<open>None\<close>
  when the balance is no valid ciphertext under that key
\<close>

definition plain :: "tfhe_keys \<Rightarrow> string \<Rightarrow> env \<Rightarrow> sval kv \<Rightarrow> addr \<Rightarrow> 32 word option" where
  "plain T ck E st a = (let b = za_EncryptedBalance (GetZYTDAccountState E st a) in if b = [] then Some 0 else tk_plain T ck b)"

definition credit_of :: "string \<Rightarrow> sval \<Rightarrow> int" where
  "credit_of k v = (case v of SAcct s \<Rightarrow> uint (za_PublicCreditLimit s) | _ \<Rightarrow> 0)"

definition total_credit :: "sval kv \<Rightarrow> int" where
  "total_credit st = kv_sum credit_of st"

definition conf_wf :: "sval kv \<Rightarrow> bool" where
  "conf_wf st \<longleftrightarrow> kv_inv st \<and> (\<forall>k s. kv_get st k = Some (SAcct s) \<longrightarrow> prefix ''enc_zytd_v2/'' k)"

lemma conf_keys [simp]:
  "zytdStateKey E a \<noteq> userPubKeyStoreKey E' b" "userPubKeyStoreKey E' b \<noteq> zytdStateKey E a"
  "prefix ''enc_zytd_v2/'' (zytdStateKey E a)" "\<not> prefix ''enc_zytd_v2/'' (userPubKeyStoreKey E b)"
  by (auto simp: zytdStateKey_def userPubKeyStoreKey_def)

lemma zytdStateKey_inj:
  assumes "bech32_laws E" "VerifyAddressFormat a" "VerifyAddressFormat b"
  shows "zytdStateKey E a = zytdStateKey E b \<longleftrightarrow> a = b"
  using acc_String_inj [OF assms] by (simp add: zytdStateKey_def)

lemma GetZYTDAccountState_set:
  assumes "bech32_laws E" "VerifyAddressFormat a" "VerifyAddressFormat b"
  shows "GetZYTDAccountState E (SetZYTDAccountState E a s st) b = (if b = a then s else GetZYTDAccountState E st b)"
  using zytdStateKey_inj [OF assms] zytdStateKey_inj [OF assms(1,3,2)]
  by (auto simp: GetZYTDAccountState_def SetZYTDAccountState_def kv_simps)

lemma plain_account_state [simp]:
  "ct \<noteq> [] \<Longrightarrow> za_EncryptedBalance (account_state C ct l) = ct" "za_PublicCreditLimit (account_state C ct l) = l"
  by (simp_all add: account_state_def)

lemma plain_set:
  assumes "bech32_laws E" "VerifyAddressFormat a" "VerifyAddressFormat b" "ct \<noteq> []"
  shows "plain T ck E (SetZYTDAccountState E a (account_state C ct l) st) b = (if b = a then tk_plain T ck ct else plain T ck E st b)"
  using assms(4) by (simp add: plain_def GetZYTDAccountState_set [OF assms(1-3)])

lemma GetUserTFHEPublicKey_set [simp]: "GetUserTFHEPublicKey E (SetZYTDAccountState E a s st) b = GetUserTFHEPublicKey E st b"
  by (simp add: GetUserTFHEPublicKey_def SetZYTDAccountState_def kv_simps)

lemma QueryCreditLimit_set:
  assumes "bech32_laws E" "VerifyAddressFormat a" "VerifyAddressFormat b"
  shows "QueryCreditLimit E (SetZYTDAccountState E a (account_state C ct l) st) b =
    (if b = a then l else QueryCreditLimit E st b)"
  by (simp add: QueryCreditLimit_def GetZYTDAccountState_set [OF assms])

lemma kv_at_credit: "kv_at credit_of st (zytdStateKey E a) = uint (QueryCreditLimit E st a)"
  by (auto simp: kv_at_def credit_of_def QueryCreditLimit_def GetZYTDAccountState_def zero_account_def
      split: option.splits sval.splits)

lemma total_credit_set:
  assumes "kv_inv st"
  shows "total_credit (SetZYTDAccountState E a (account_state C ct l) st) =
    total_credit st - uint (QueryCreditLimit E st a) + uint l"
  by (simp add: total_credit_def SetZYTDAccountState_def kv_sum_set [OF assms] kv_at_credit) (simp add: credit_of_def)

lemma credit_le_total:
  assumes "kv_inv st"
  shows "uint (QueryCreditLimit E st a) \<le> total_credit st"
  using kv_at_le_sum [OF assms, of credit_of "zytdStateKey E a"]
  by (simp add: kv_at_credit total_credit_def) (simp add: credit_of_def split: sval.splits)

lemma conf_wf_set: "conf_wf st \<Longrightarrow> conf_wf (SetZYTDAccountState E a s st)"
  by (auto simp: conf_wf_def SetZYTDAccountState_def kv_simps split: if_splits)

lemma credit_add_exact:
  assumes "uint x + uint y < 2 ^ 64"
  shows "credit_add x y = x + y" "uint (credit_add x y) = uint x + uint y"
proof -
  have u: "uint (x + y) = uint x + uint y" using assms by (simp add: uint_plus_if_size word_size)
  moreover have "\<not> x + y < x" using u by (simp add: word_less_def)
  ultimately show "credit_add x y = x + y" "uint (credit_add x y) = uint x + uint y"
    by (simp_all add: credit_add_def)
qed

lemma ucast_arith:
  "(ucast (x - y :: 64 word) :: 32 word) = ucast x - ucast y"
  "(ucast (x + y :: 64 word) :: 32 word) = ucast x + ucast y"
proof -
  have "take_bit 32 (take_bit 64 (a - b)) = take_bit 32 (take_bit 64 a - take_bit 64 b)" for a b :: int
    by (subst (2) take_bit_diff [symmetric]) (simp add: take_bit_diff)
  then show "(ucast (x - y) :: 32 word) = ucast x - ucast y" by transfer simp
  have "take_bit 32 (take_bit 64 (a + b)) = take_bit 32 (take_bit 64 a + take_bit 64 b)" for a b :: int
    by (subst (2) take_bit_add [symmetric]) (simp add: take_bit_add)
  then show "(ucast (x + y) :: 32 word) = ucast x + ucast y" by transfer simp
qed

lemma ucast_up_down [simp]: "(ucast (ucast (n :: 32 word) :: 64 word) :: 32 word) = n"
  by transfer simp

lemma wrappers_Inr:
  assumes "tfhe_laws E T"
  shows "EncryptUint32 E ck n = Inr c \<Longrightarrow> c \<noteq> [] \<and> tk_plain T ck c = Some n"
    and "EncryptWithPublicKey E pk n = Inr c \<Longrightarrow> c \<noteq> [] \<and> tk_plain T (tk_of_public T pk) c = Some n"
    and "EncryptWithServerKey E ck sk n = Inr c \<Longrightarrow> c \<noteq> [] \<and> tk_plain T ck c = Some n"
  using assms unfolding tfhe_laws_def EncryptWithServerKey_def cachedNodeClientKey_def EncryptUint32_def EncryptWithPublicKey_def ffi_result_def
  by (auto split: if_splits option.splits)

lemma evaluated_Inr:
  assumes "tfhe_laws E T"
  shows "AddUint32 E sk a b = Inr c \<Longrightarrow> c \<noteq> []" "SubUint32 E sk a b = Inr c \<Longrightarrow> c \<noteq> []"
    and "AddUint32 E sk a b = Inr c \<Longrightarrow> tk_plain T (tk_of_server T sk) a = Some x \<Longrightarrow> tk_plain T (tk_of_server T sk) b = Some y \<Longrightarrow>
      tk_plain T (tk_of_server T sk) c = Some (x + y)"
    and "SubUint32 E sk a b = Inr c \<Longrightarrow> tk_plain T (tk_of_server T sk) a = Some x \<Longrightarrow> tk_plain T (tk_of_server T sk) b = Some y \<Longrightarrow>
      tk_plain T (tk_of_server T sk) c = Some (x - y)"
  using assms unfolding tfhe_laws_def evaluates_def AddUint32_def SubUint32_def ffi_result_def
  by (auto split: if_splits option.splits)

text \<open>crediting an account: the server key matters only when there is a balance to add to\<close>

lemma add_or_init_Inr:
  assumes T: "tfhe_laws E T" and run: "add_or_init E sk (za_EncryptedBalance (GetZYTDAccountState E st a)) c = Inr c'" and c: "c \<noteq> []"
  shows "c' \<noteq> []"
    and "(za_EncryptedBalance (GetZYTDAccountState E st a) \<noteq> [] \<longrightarrow> tk_of_server T sk = ck) \<Longrightarrow>
      plain T ck E st a = Some x \<Longrightarrow> tk_plain T ck c = Some y \<Longrightarrow> tk_plain T ck c' = Some (x + y)"
  using run c evaluated_Inr(1,3) [OF T] by (auto simp: add_or_init_def plain_def split: if_splits)

text \<open>what an accepted mint and an accepted transfer did, without any law on the engine\<close>

lemma ConfidentialMint_Ret:
  assumes run: "ConfidentialMintZYTD E C a n sk s = (Ret u, t)"
  obtains pk c ct es where "n \<noteq> 0" "GetUserTFHEPublicKey E (sc_store s) a = Some pk" "EncryptWithPublicKey E pk n = Inr c"
    "add_or_init E sk (za_EncryptedBalance (GetZYTDAccountState E (sc_store s) a)) c = Inr ct"
    "t = s\<lparr>sc_store := SetZYTDAccountState E a (account_state C ct
        (credit_add (QueryCreditLimit E (sc_store s) a) (ucast n))) (sc_store s), base := (base s)\<lparr>evs := es\<rparr>\<rparr>"
  using run unfolding ConfidentialMintZYTD_def QueryCreditLimit_def by (clarsimp simp: go_iffs)

lemma ConfidentialTransfer_Ret:
  assumes run: "ConfidentialTransferZYTD E nck C a b n sk s = (Ret u, t)"
  obtains pk c1 c2 ct1 ct2 st1 es where "n \<noteq> 0" "uint n < 2 ^ 32" "n \<le> QueryCreditLimit E (sc_store s) a"
    "za_EncryptedBalance (GetZYTDAccountState E (sc_store s) a) \<noteq> []"
    "EncryptWithServerKey E nck sk (ucast n) = Inr c1"
    "SubUint32 E sk (za_EncryptedBalance (GetZYTDAccountState E (sc_store s) a)) c1 = Inr ct1"
    "st1 = SetZYTDAccountState E a (account_state C ct1 (QueryCreditLimit E (sc_store s) a - n)) (sc_store s)"
    "GetUserTFHEPublicKey E (sc_store s) b = Some pk" "EncryptWithPublicKey E pk (ucast n) = Inr c2"
    "add_or_init E sk (za_EncryptedBalance (GetZYTDAccountState E st1 b)) c2 = Inr ct2"
    "t = s\<lparr>sc_store := SetZYTDAccountState E b (account_state C ct2 (credit_add (QueryCreditLimit E st1 b) n)) st1,
       base := (base s)\<lparr>evs := es\<rparr>\<rparr>"
proof -
  obtain pk c1 c2 ct1 ct2 st1 es where n: "n \<noteq> 0" "\<not> n > ucast (- 1 :: 32 word)" "\<not> n > QueryCreditLimit E (sc_store s) a"
    and ne: "za_EncryptedBalance (GetZYTDAccountState E (sc_store s) a) \<noteq> []"
    and c1: "EncryptWithServerKey E nck sk (ucast n) = Inr c1"
    and ct1: "SubUint32 E sk (za_EncryptedBalance (GetZYTDAccountState E (sc_store s) a)) c1 = Inr ct1"
    and st1: "st1 = SetZYTDAccountState E a (account_state C ct1 (QueryCreditLimit E (sc_store s) a - n)) (sc_store s)"
    and pk: "GetUserTFHEPublicKey E st1 b = Some pk" and c2: "EncryptWithPublicKey E pk (ucast n) = Inr c2"
    and ct2: "add_or_init E sk (za_EncryptedBalance (GetZYTDAccountState E st1 b)) c2 = Inr ct2"
    and t: "t = s\<lparr>sc_store := SetZYTDAccountState E b (account_state C ct2 (credit_add (QueryCreditLimit E st1 b) n)) st1,
       base := (base s)\<lparr>evs := es\<rparr>\<rparr>"
    using run unfolding ConfidentialTransferZYTD_def QueryCreditLimit_def by (clarsimp simp: go_iffs)
  have "uint n < 2 ^ 32" using n(2) by (simp add: word_less_def unsigned_minus_1_eq_mask mask_eq_exp_minus_1)
  moreover have "GetUserTFHEPublicKey E (sc_store s) b = Some pk" using pk by (simp add: st1)
  ultimately show thesis using that [OF n(1) _ _ ne c1 ct1 st1 _ c2 ct2 t] n(3) by simp
qed

subsection \<open>Histories\<close>

datatype conf_call =
    ConfRegister addr string
  | ConfMint addr "32 word" string
  | ConfTransfer addr addr "64 word" string

fun conf_exec :: "env \<Rightarrow> string \<Rightarrow> ctx \<Rightarrow> conf_call \<Rightarrow> unit chain_op" where
  "conf_exec E nck C (ConfRegister a pk) = SetUserTFHEPublicKey E a pk"
| "conf_exec E nck C (ConfMint a n sk) = ConfidentialMintZYTD E C a n sk"
| "conf_exec E nck C (ConfTransfer a b n sk) = ConfidentialTransferZYTD E nck C a b n sk"

fun conf_minted :: "conf_call \<Rightarrow> int" where
  "conf_minted (ConfMint a n sk) = uint n"
| "conf_minted _ = 0"

fun conf_call_ok :: "conf_call \<Rightarrow> bool" where
  "conf_call_ok (ConfTransfer a b n sk) \<longleftrightarrow> VerifyAddressFormat a \<and> VerifyAddressFormat b"
| "conf_call_ok (ConfMint a n sk) \<longleftrightarrow> VerifyAddressFormat a"
| "conf_call_ok (ConfRegister a pk) \<longleftrightarrow> VerifyAddressFormat a"

text \<open>
  \<open>conf_reach E nck cs s\<close>: \<open>s\<close> is reached from a state without confidential accounts and
  registered keys by the successful calls \<open>cs\<close> at arbitrary heights; a failed call leaves
  no trace. The keys of the calls are arbitrary.
\<close>

inductive conf_reach :: "env \<Rightarrow> string \<Rightarrow> conf_call list \<Rightarrow> chain \<Rightarrow> bool" for E nck where
  start: "kv_inv (sc_store s) \<Longrightarrow> (\<forall>k x. kv_get (sc_store s) k \<noteq> Some (SAcct x)) \<Longrightarrow>
    (\<forall>k pk. kv_get (sc_store s) k \<noteq> Some (STfheKey pk)) \<Longrightarrow> conf_reach E nck [] s"
| step: "conf_reach E nck cs s \<Longrightarrow> conf_call_ok c \<Longrightarrow> conf_exec E nck C c s = (Ret u, t) \<Longrightarrow>
    conf_reach E nck (cs @ [c]) t"

definition minted :: "conf_call list \<Rightarrow> int" where
  "minted cs = sum_list (map conf_minted cs)"

text \<open>a call that uses only keys of the client key \<open>ck\<close> wherever it touches account \<open>x\<close>\<close>

fun conf_coherent :: "tfhe_keys \<Rightarrow> string \<Rightarrow> addr \<Rightarrow> conf_call \<Rightarrow> bool" where
  "conf_coherent T ck x (ConfRegister a pk) \<longleftrightarrow> (a = x \<longrightarrow> tk_of_public T pk = ck)"
| "conf_coherent T ck x (ConfMint a n sk) \<longleftrightarrow> (a = x \<longrightarrow> tk_of_server T sk = ck)"
| "conf_coherent T ck x (ConfTransfer a b n sk) \<longleftrightarrow> (a = x \<or> b = x \<longrightarrow> tk_of_server T sk = ck)"

definition acct_ok :: "tfhe_keys \<Rightarrow> string \<Rightarrow> env \<Rightarrow> sval kv \<Rightarrow> addr \<Rightarrow> bool" where
  "acct_ok T ck E st x \<longleftrightarrow> plain T ck E st x = Some (ucast (QueryCreditLimit E st x))
     \<and> (\<forall>pk. GetUserTFHEPublicKey E st x = Some pk \<longrightarrow> tk_of_public T pk = ck)"

lemma conf_minted_nonneg: "0 \<le> conf_minted c" by (cases c) simp_all

lemma minted_simps [simp]: "minted [] = 0" "minted (cs @ [c]) = minted cs + conf_minted c"
  by (simp_all add: minted_def)

lemma uint_up32: "uint (ucast (n :: 32 word) :: 64 word) = uint n"
  by (simp add: uint_up_ucast is_up)

text \<open>the limits, whatever the keys\<close>

lemma mint_credit:
  assumes wf: "conf_wf (sc_store s)" and room: "total_credit (sc_store s) + uint n < 2 ^ 64"
    and run: "ConfidentialMintZYTD E C a n sk s = (Ret u, t)"
  shows "conf_wf (sc_store t)" "total_credit (sc_store t) = total_credit (sc_store s) + uint n"
proof -
  have kv: "kv_inv (sc_store s)" using wf by (simp add: conf_wf_def)
  have r: "uint (QueryCreditLimit E (sc_store s) a) + uint (ucast n :: 64 word) < 2 ^ 64"
    using credit_le_total [OF kv, of E a] room uint_up32 [of n] by simp
  show "conf_wf (sc_store t)" "total_credit (sc_store t) = total_credit (sc_store s) + uint n"
    by (rule ConfidentialMint_Ret [OF run];
        simp add: conf_wf_set [OF wf] total_credit_set [OF kv] credit_add_exact(2) [OF r] uint_up32)+
qed

lemma transfer_credit:
  assumes wf: "conf_wf (sc_store s)" and room: "total_credit (sc_store s) < 2 ^ 64"
    and n: "n \<le> QueryCreditLimit E (sc_store s) a"
    and st1: "st1 = SetZYTDAccountState E a (account_state C ct1 (QueryCreditLimit E (sc_store s) a - n)) (sc_store s)"
  shows "conf_wf st1" "total_credit st1 = total_credit (sc_store s) - uint n" "uint (QueryCreditLimit E st1 b) + uint n < 2 ^ 64"
proof -
  have kv: "kv_inv (sc_store s)" using wf by (simp add: conf_wf_def)
  have "uint (QueryCreditLimit E (sc_store s) a - n) = uint (QueryCreditLimit E (sc_store s) a) - uint n"
    using n by (simp add: uint_sub_if_size word_le_def)
  then show tot: "total_credit st1 = total_credit (sc_store s) - uint n" by (simp add: st1 total_credit_set [OF kv])
  show wf1: "conf_wf st1" using conf_wf_set [OF wf] by (simp add: st1)
  then show "uint (QueryCreditLimit E st1 b) + uint n < 2 ^ 64"
    using credit_le_total [of st1 E b] tot room by (simp add: conf_wf_def)
qed

lemma transfer_total:
  assumes wf: "conf_wf (sc_store s)" and room: "total_credit (sc_store s) < 2 ^ 64"
    and run: "ConfidentialTransferZYTD E nck C a b n sk s = (Ret u, t)"
  shows "conf_wf (sc_store t) \<and> total_credit (sc_store t) = total_credit (sc_store s)"
proof (rule ConfidentialTransfer_Ret [OF run])
  fix pk c1 c2 ct1 ct2 st1 es
  assume n: "n \<le> QueryCreditLimit E (sc_store s) a"
    and st1: "st1 = SetZYTDAccountState E a (account_state C ct1 (QueryCreditLimit E (sc_store s) a - n)) (sc_store s)"
    and t: "t = s\<lparr>sc_store := SetZYTDAccountState E b (account_state C ct2 (credit_add (QueryCreditLimit E st1 b) n)) st1,
       base := (base s)\<lparr>evs := es\<rparr>\<rparr>"
  note tc = transfer_credit [OF wf room n st1]
  show ?thesis using tc(1) conf_wf_set [OF tc(1)] credit_add_exact(2) [OF tc(3)]
    by (simp add: t total_credit_set tc(2) conf_wf_def)
qed

lemma register_state:
  assumes "SetUserTFHEPublicKey E a pk s = (Ret u, t)"
  shows "sc_store t = kv_set (userPubKeyStoreKey E a) (STfheKey pk) (sc_store s)"
    "GetZYTDAccountState E (sc_store t) = GetZYTDAccountState E (sc_store s)"
proof -
  show t: "sc_store t = kv_set (userPubKeyStoreKey E a) (STfheKey pk) (sc_store s)"
    using assms by (auto simp: SetUserTFHEPublicKey_def go_iffs)
  show "GetZYTDAccountState E (sc_store t) = GetZYTDAccountState E (sc_store s)"
    by (simp add: t GetZYTDAccountState_def kv_simps fun_eq_iff)
qed

lemma register_credit:
  assumes wf: "conf_wf (sc_store s)" and run: "SetUserTFHEPublicKey E a pk s = (Ret u, t)"
  shows "conf_wf (sc_store t) \<and> total_credit (sc_store t) = total_credit (sc_store s)"
proof -
  have kv: "kv_inv (sc_store s)" using wf by (simp add: conf_wf_def)
  note t = register_state(1) [OF run]
  have "kv_at credit_of (sc_store s) (userPubKeyStoreKey E a) = 0"
    using wf by (auto simp: kv_at_def credit_of_def conf_wf_def split: option.splits sval.splits dest!: spec [of _ "userPubKeyStoreKey E a"])
  then have "total_credit (sc_store t) = total_credit (sc_store s)"
    by (simp add: t total_credit_def kv_sum_set [OF kv]) (simp add: credit_of_def)
  moreover have "conf_wf (sc_store t)" using wf by (auto simp: t conf_wf_def kv_simps split: if_splits)
  ultimately show ?thesis by simp
qed

text \<open>the balance of one account, when the keys that touch it belong together\<close>

lemma register_acct:
  assumes L: "bech32_laws E" and v: "VerifyAddressFormat a" "VerifyAddressFormat x" and ok: "acct_ok T ck E (sc_store s) x"
    and coh: "a = x \<longrightarrow> tk_of_public T pk = ck" and run: "SetUserTFHEPublicKey E a pk s = (Ret u, t)"
  shows "acct_ok T ck E (sc_store t) x"
proof -
  have "userPubKeyStoreKey E a = userPubKeyStoreKey E x \<longleftrightarrow> a = x"
    using acc_String_inj [OF L v] by (simp add: userPubKeyStoreKey_def)
  then have "GetUserTFHEPublicKey E (sc_store t) x = (if a = x then Some pk else GetUserTFHEPublicKey E (sc_store s) x)"
    by (auto simp: register_state(1) [OF run] GetUserTFHEPublicKey_def kv_simps)
  then show ?thesis using ok coh
    by (simp add: acct_ok_def QueryCreditLimit_def plain_def register_state(2) [OF run])
qed

lemma mint_acct:
  assumes L: "tfhe_laws E T" "bech32_laws E" and v: "VerifyAddressFormat a" "VerifyAddressFormat x"
    and ok: "acct_ok T ck E (sc_store s) x" and coh: "a = x \<longrightarrow> tk_of_server T sk = ck"
    and room: "uint (QueryCreditLimit E (sc_store s) a) + uint n < 2 ^ 64" and run: "ConfidentialMintZYTD E C a n sk s = (Ret u, t)"
  shows "acct_ok T ck E (sc_store t) x"
proof (rule ConfidentialMint_Ret [OF run])
  fix pk c ct es
  assume pk: "GetUserTFHEPublicKey E (sc_store s) a = Some pk" and c: "EncryptWithPublicKey E pk n = Inr c"
    and ct: "add_or_init E sk (za_EncryptedBalance (GetZYTDAccountState E (sc_store s) a)) c = Inr ct"
    and t: "t = s\<lparr>sc_store := SetZYTDAccountState E a (account_state C ct
        (credit_add (QueryCreditLimit E (sc_store s) a) (ucast n))) (sc_store s), base := (base s)\<lparr>evs := es\<rparr>\<rparr>"
  note enc = wrappers_Inr(2) [OF L(1) c]
  note add = add_or_init_Inr [OF L(1) ct]
  have "tk_plain T ck ct = Some (ucast (QueryCreditLimit E (sc_store s) a) + n)" if "a = x"
    using that ok coh pk enc add(2) [of ck] by (simp add: acct_ok_def)
  then show ?thesis using ok v enc add(1) credit_add_exact(1) [of "QueryCreditLimit E (sc_store s) a" "ucast n"] room
    by (auto simp: acct_ok_def t plain_set [OF L(2)] QueryCreditLimit_set [OF L(2)] uint_up32 ucast_arith)
qed

lemma transfer_acct:
  assumes L: "tfhe_laws E T" "bech32_laws E" and v: "VerifyAddressFormat a" "VerifyAddressFormat b" "VerifyAddressFormat x"
    and ok: "acct_ok T nck E (sc_store s) x" and coh: "a = x \<or> b = x \<longrightarrow> tk_of_server T sk = nck"
    and wf: "conf_wf (sc_store s)" "total_credit (sc_store s) < 2 ^ 64" and run: "ConfidentialTransferZYTD E nck C a b n sk s = (Ret u, t)"
  shows "acct_ok T nck E (sc_store t) x"
proof (rule ConfidentialTransfer_Ret [OF run])
  fix pk c1 c2 ct1 ct2 st1 es
  assume n: "n \<le> QueryCreditLimit E (sc_store s) a" and ne: "za_EncryptedBalance (GetZYTDAccountState E (sc_store s) a) \<noteq> []"
    and c1: "EncryptWithServerKey E nck sk (ucast n) = Inr c1"
    and ct1: "SubUint32 E sk (za_EncryptedBalance (GetZYTDAccountState E (sc_store s) a)) c1 = Inr ct1"
    and st1: "st1 = SetZYTDAccountState E a (account_state C ct1 (QueryCreditLimit E (sc_store s) a - n)) (sc_store s)"
    and pk: "GetUserTFHEPublicKey E (sc_store s) b = Some pk" and c2: "EncryptWithPublicKey E pk (ucast n) = Inr c2"
    and ct2: "add_or_init E sk (za_EncryptedBalance (GetZYTDAccountState E st1 b)) c2 = Inr ct2"
    and t: "t = s\<lparr>sc_store := SetZYTDAccountState E b (account_state C ct2 (credit_add (QueryCreditLimit E st1 b) n)) st1,
       base := (base s)\<lparr>evs := es\<rparr>\<rparr>"
  note enc1 = wrappers_Inr(3) [OF L(1) c1] and enc2 = wrappers_Inr(2) [OF L(1) c2]
  note sub = evaluated_Inr(2) [OF L(1) ct1] and add = add_or_init_Inr [OF L(1) ct2]
  have "tk_plain T nck ct1 = Some (ucast (QueryCreditLimit E (sc_store s) a) - ucast n)" if "a = x"
  proof -
    have "tk_of_server T sk = nck" using coh that by simp
    moreover have "tk_plain T nck (za_EncryptedBalance (GetZYTDAccountState E (sc_store s) a)) = Some (ucast (QueryCreditLimit E (sc_store s) a))"
      using ok ne that by (simp add: acct_ok_def plain_def)
    ultimately show ?thesis using evaluated_Inr(4) [OF L(1) ct1] enc1 by simp
  qed
  then have ok1: "acct_ok T nck E st1 x" using ok v sub
    by (auto simp: acct_ok_def st1 plain_set [OF L(2)] QueryCreditLimit_set [OF L(2)] ucast_arith)
  then have "tk_plain T nck ct2 = Some (ucast (QueryCreditLimit E st1 b) + ucast n)" if "b = x"
    using that coh pk enc2 add(2) [of nck] ok1 ok by (simp add: acct_ok_def)
  then show ?thesis using ok1 v enc2 add(1) credit_add_exact(1) [OF transfer_credit(3) [OF wf n st1]]
    by (auto simp: acct_ok_def t plain_set [OF L(2)] QueryCreditLimit_set [OF L(2)] ucast_arith)
qed

lemma kv_sum_zero: "(\<And>k v. (k, v) \<in> set st \<Longrightarrow> f k v = 0) \<Longrightarrow> kv_sum f st = 0"
  by (induction st) (auto simp: kv_sum_Cons)

lemma conf_reach_credit:
  assumes "conf_reach E nck cs s" and "minted cs < 2 ^ 64"
  shows "conf_wf (sc_store s) \<and> total_credit (sc_store s) = minted cs"
  using assms
proof (induction rule: conf_reach.induct)
  case (start s)
  have "credit_of k v = 0" if "(k, v) \<in> set (sc_store s)" for k v
    using that start by (auto simp: credit_of_def kv_get_mem split: sval.splits)
  then have "total_credit (sc_store s) = 0" by (auto simp: total_credit_def intro: kv_sum_zero)
  then show ?case using start by (simp add: conf_wf_def)
next
  case (step cs s c C u t)
  have less: "minted cs < 2 ^ 64" using step.prems conf_minted_nonneg [of c] by simp
  then have wf: "conf_wf (sc_store s)" "total_credit (sc_store s) = minted cs" using step.IH by simp_all
  show ?case
  proof (cases c)
    case (ConfRegister a pk)
    then show ?thesis using register_credit [OF wf(1)] step.hyps(3) wf(2) by simp
  next
    case (ConfMint a m sk)
    then show ?thesis using mint_credit [OF wf(1)] step.hyps(3) wf(2) step.prems by simp
  next
    case (ConfTransfer a b m sk)
    then show ?thesis using transfer_total [OF wf(1), of E nck C a b m sk u t] step.hyps(3) wf(2) less by simp
  qed
qed

lemma conf_reach_acct:
  assumes L: "tfhe_laws E T" "bech32_laws E" and v: "VerifyAddressFormat x"
    and "conf_reach E nck cs s" and "minted cs < 2 ^ 64" and "\<forall>c \<in> set cs. conf_coherent T nck x c"
  shows "acct_ok T nck E (sc_store s) x"
  using assms(4-6)
proof (induction rule: conf_reach.induct)
  case (start s)
  then show ?case
    by (auto simp: acct_ok_def plain_def QueryCreditLimit_def GetZYTDAccountState_def GetUserTFHEPublicKey_def zero_account_def
        split: option.splits sval.splits)
next
  case (step cs s c C u t)
  have less: "minted cs < 2 ^ 64" using step.prems conf_minted_nonneg [of c] by simp
  then have ok: "acct_ok T nck E (sc_store s) x" using step.IH step.prems by simp
  have wf: "conf_wf (sc_store s)" "total_credit (sc_store s) = minted cs" using conf_reach_credit [OF step.hyps(1) less] by simp_all
  have coh: "conf_coherent T nck x c" using step.prems by simp
  show ?case
  proof (cases c)
    case (ConfRegister a pk)
    then show ?thesis using register_acct [OF L(2) _ v ok] step.hyps(2,3) coh by simp
  next
    case (ConfMint a m sk)
    then have "uint (QueryCreditLimit E (sc_store s) a) + uint m < 2 ^ 64"
      using credit_le_total [of "sc_store s" E a] wf step.prems(1) by (simp add: conf_wf_def)
    then show ?thesis using mint_acct [OF L _ v ok, of a sk m C u t] step.hyps(2,3) coh ConfMint by simp
  next
    case (ConfTransfer a b m sk)
    then show ?thesis using transfer_acct [OF L _ _ v ok, of a b sk C m u t] step.hyps(2,3) coh wf less by simp
  qed
qed

subsection \<open>Properties\<close>

text \<open>
  C9. The credit limit tracks the hidden balance. In every reachable state with less than
  \<open>2 ^ 64\<close> minted in total the limits of all accounts add up to the minted amount, whatever
  keys the calls used. For an account that was only touched with keys of the node's client
  key (its registered public key and the server keys of the calls that credit or debit it),
  the balance is a valid ciphertext under that key and its plaintext is the limit modulo
  \<open>2 ^ 32\<close>; with less than \<open>2 ^ 32\<close> minted it is the limit. The calls on other accounts may
  use any keys.
\<close>

theorem credit_limit_tracks_balance:
  assumes "bech32_laws E" and "conf_reach E nck cs s" and "minted cs < 2 ^ 64"
  shows "total_credit (sc_store s) = minted cs
    \<and> (\<forall>T a. tfhe_laws E T \<and> VerifyAddressFormat a \<and> (\<forall>c \<in> set cs. conf_coherent T nck a c) \<longrightarrow>
        plain T nck E (sc_store s) a = Some (ucast (QueryCreditLimit E (sc_store s) a))
        \<and> (minted cs < 2 ^ 32 \<longrightarrow> map_option unat (plain T nck E (sc_store s) a) = Some (unat (QueryCreditLimit E (sc_store s) a))))"
proof -
  have tot: "conf_wf (sc_store s)" "total_credit (sc_store s) = minted cs"
    using conf_reach_credit [OF assms(2,3)] by simp_all
  have small: "unat (ucast (QueryCreditLimit E (sc_store s) a) :: 32 word) = unat (QueryCreditLimit E (sc_store s) a)"
    if "minted cs < 2 ^ 32" for a
  proof -
    have "uint (QueryCreditLimit E (sc_store s) a) < 2 ^ 32"
      using credit_le_total [of "sc_store s" E a] tot that by (simp add: conf_wf_def)
    then have "uint (ucast (QueryCreditLimit E (sc_store s) a) :: 32 word) = uint (QueryCreditLimit E (sc_store s) a)"
      by (simp add: unsigned_ucast_eq take_bit_int_eq_self)
    then show ?thesis by (metis unat_eq_nat_uint)
  qed
  have "plain T nck E (sc_store s) a = Some (ucast (QueryCreditLimit E (sc_store s) a))"
    if "tfhe_laws E T" "VerifyAddressFormat a" "\<forall>c \<in> set cs. conf_coherent T nck a c" for T a
    using conf_reach_acct [OF that(1) assms(1) that(2) assms(2,3) that(3)] by (simp add: acct_ok_def)
  then show ?thesis using tot(2) small by simp
qed

text \<open>
  C10. A confidential transfer conserves value: an accepted transfer moves at most the
  sender's credit limit and fits in 32 bits; between two different accounts the sender's
  limit falls and the recipient's rises by exactly the amount, a transfer to oneself leaves
  the limit, and no other account changes; this holds for all keys. The balances follow where
  the keys belong together: if the server key belongs to the node's client key and the sender's
  balance is a ciphertext under it, its plaintext falls by the amount (modulo \<open>2 ^ 32\<close>); if
  the recipient has no balance yet, or one under the key it registered and the server key
  belongs to that key, its plaintext rises by the amount; and with all of these, a transfer
  to oneself leaves the plaintext as it was.
\<close>

theorem ConfidentialTransfer_conserves:
  assumes "bech32_laws E" and "VerifyAddressFormat a" and "VerifyAddressFormat b"
    and "ConfidentialTransferZYTD E nck C a b n sk s = (Ret u, t)"
  shows "0 < n \<and> uint n < 2 ^ 32 \<and> n \<le> QueryCreditLimit E (sc_store s) a
    \<and> (a \<noteq> b \<longrightarrow> QueryCreditLimit E (sc_store t) a = QueryCreditLimit E (sc_store s) a - n
        \<and> QueryCreditLimit E (sc_store t) b = credit_add (QueryCreditLimit E (sc_store s) b) n)
    \<and> (a = b \<longrightarrow> QueryCreditLimit E (sc_store t) a = QueryCreditLimit E (sc_store s) a)
    \<and> (\<forall>x. VerifyAddressFormat x \<and> x \<noteq> a \<and> x \<noteq> b \<longrightarrow>
        GetZYTDAccountState E (sc_store t) x = GetZYTDAccountState E (sc_store s) x)
    \<and> (\<forall>T x. tfhe_laws E T \<and> a \<noteq> b \<and> tk_of_server T sk = nck \<and> plain T nck E (sc_store s) a = Some x \<longrightarrow>
        plain T nck E (sc_store t) a = Some (x - ucast n))
    \<and> (\<exists>pk. GetUserTFHEPublicKey E (sc_store s) b = Some pk
        \<and> (\<forall>T y. tfhe_laws E T \<and> a \<noteq> b
             \<and> (za_EncryptedBalance (GetZYTDAccountState E (sc_store s) b) \<noteq> [] \<longrightarrow> tk_of_server T sk = tk_of_public T pk)
             \<and> plain T (tk_of_public T pk) E (sc_store s) b = Some y \<longrightarrow>
             plain T (tk_of_public T pk) E (sc_store t) b = Some (y + ucast n))
        \<and> (\<forall>T x. tfhe_laws E T \<and> a = b \<and> tk_of_server T sk = nck \<and> tk_of_public T pk = nck
             \<and> plain T nck E (sc_store s) a = Some x \<longrightarrow> plain T nck E (sc_store t) a = Some x))"
proof (rule ConfidentialTransfer_Ret [OF assms(4)])
  fix pk c1 c2 ct1 ct2 st1 es
  assume n: "n \<noteq> 0" "uint n < 2 ^ 32" "n \<le> QueryCreditLimit E (sc_store s) a" and ne: "za_EncryptedBalance (GetZYTDAccountState E (sc_store s) a) \<noteq> []"
    and c1: "EncryptWithServerKey E nck sk (ucast n) = Inr c1"
    and ct1: "SubUint32 E sk (za_EncryptedBalance (GetZYTDAccountState E (sc_store s) a)) c1 = Inr ct1"
    and st1: "st1 = SetZYTDAccountState E a (account_state C ct1 (QueryCreditLimit E (sc_store s) a - n)) (sc_store s)"
    and pk: "GetUserTFHEPublicKey E (sc_store s) b = Some pk" and c2: "EncryptWithPublicKey E pk (ucast n) = Inr c2"
    and ct2: "add_or_init E sk (za_EncryptedBalance (GetZYTDAccountState E st1 b)) c2 = Inr ct2"
    and t: "t = s\<lparr>sc_store := SetZYTDAccountState E b (account_state C ct2 (credit_add (QueryCreditLimit E st1 b) n)) st1,
       base := (base s)\<lparr>evs := es\<rparr>\<rparr>"
  have undo: "credit_add (l - n) n = l" if "n \<le> l" for l
    using leD [OF word_sub_le [OF that]] by (simp add: credit_add_def)
  note limits = QueryCreditLimit_set [OF assms(1)] GetZYTDAccountState_set [OF assms(1)]
  have lim: "a \<noteq> b \<Longrightarrow> QueryCreditLimit E (sc_store t) a = QueryCreditLimit E (sc_store s) a - n"
    "a \<noteq> b \<Longrightarrow> QueryCreditLimit E (sc_store t) b = credit_add (QueryCreditLimit E (sc_store s) b) n"
    "a = b \<Longrightarrow> QueryCreditLimit E (sc_store t) a = QueryCreditLimit E (sc_store s) a"
    "VerifyAddressFormat x \<Longrightarrow> x \<noteq> a \<Longrightarrow> x \<noteq> b \<Longrightarrow> GetZYTDAccountState E (sc_store t) x = GetZYTDAccountState E (sc_store s) x" for x
    using n assms(2,3) by (simp_all add: t st1 limits undo)
  have debit: "ct1 \<noteq> [] \<and> ct2 \<noteq> [] \<and> (tk_of_server T sk = nck \<longrightarrow> plain T nck E (sc_store s) a = Some x \<longrightarrow> plain T nck E st1 a = Some (x - ucast n))"
    if T: "tfhe_laws E T" for T x
    using evaluated_Inr(2) [OF T ct1] evaluated_Inr(4) [OF T ct1, of x "ucast n"] wrappers_Inr(3) [OF T c1] ne
      add_or_init_Inr(1) [OF T ct2] wrappers_Inr(2) [OF T c2]
    by (auto simp: st1 plain_set [OF assms(1,2,2)]) (simp add: plain_def)
  have credit: "plain T (tk_of_public T pk) E (sc_store t) b = Some (y + ucast n)"
    if "tfhe_laws E T" "za_EncryptedBalance (GetZYTDAccountState E st1 b) \<noteq> [] \<longrightarrow> tk_of_server T sk = tk_of_public T pk"
      "plain T (tk_of_public T pk) E st1 b = Some y" for T y
    using add_or_init_Inr [OF that(1) ct2 _] wrappers_Inr(2) [OF that(1) c2] that
    by (simp add: t plain_set [OF assms(1,3,3)])
  have other: "a \<noteq> b \<Longrightarrow> plain T ck E st1 b = plain T ck E (sc_store s) b"
    "a \<noteq> b \<Longrightarrow> GetZYTDAccountState E st1 b = GetZYTDAccountState E (sc_store s) b" for T ck
    using assms(2,3) by (simp_all add: plain_def st1 limits)
  have kept: "a \<noteq> b \<Longrightarrow> plain T ck E (sc_store t) a = plain T ck E st1 a" for T ck
    using assms(2,3) by (simp add: plain_def t limits)
  have self: "plain T nck E (sc_store t) a = Some x"
    if "tfhe_laws E T" "a = b" "tk_of_server T sk = nck" "tk_of_public T pk = nck" "plain T nck E (sc_store s) a = Some x" for T x
    using credit [OF that(1), of "x - ucast n"] debit [OF that(1), of x] that by simp
  have A: "\<forall>T x. tfhe_laws E T \<and> a \<noteq> b \<and> tk_of_server T sk = nck \<and> plain T nck E (sc_store s) a = Some x \<longrightarrow>
      plain T nck E (sc_store t) a = Some (x - ucast n)" using debit kept by simp
  have B: "\<forall>T y. tfhe_laws E T \<and> a \<noteq> b
      \<and> (za_EncryptedBalance (GetZYTDAccountState E (sc_store s) b) \<noteq> [] \<longrightarrow> tk_of_server T sk = tk_of_public T pk)
      \<and> plain T (tk_of_public T pk) E (sc_store s) b = Some y \<longrightarrow> plain T (tk_of_public T pk) E (sc_store t) b = Some (y + ucast n)"
    using credit other by simp
  have "0 < n" using n(1) by (simp add: word_neq_0_conv)
  with n lim pk A B self show ?thesis by blast
qed

subsection \<open>Concrete histories\<close>

text \<open>
  Alice and Bob register public keys of client key \<open>''k''\<close>, Alice gets 10 and sends 3 to Bob,
  all with a server key of \<open>''k''\<close> on a node that holds \<open>''k''\<close>.
\<close>

definition conf_key :: string where
  "conf_key = replicate 1024 CHR ''k''"

definition conf0 :: chain where
  "conf0 = snd (SetUserTFHEPublicKey env0 ''bob'' conf_key (snd (SetUserTFHEPublicKey env0 ''alice'' conf_key vault_start)))"

definition conf1 :: chain where
  "conf1 = snd (ConfidentialMintZYTD env0 ctx1 ''alice'' 10 ''k-server'' conf0)"

definition conf2 :: chain where
  "conf2 = snd (ConfidentialTransferZYTD env0 ''k'' ctx1 ''alice'' ''bob'' 3 ''k-server'' conf1)"

definition conf_wrapped :: chain where
  "conf_wrapped = snd (ConfidentialMintZYTD env0 ctx1 ''alice'' (- 1) ''k-server'' conf1)"

text \<open>the same transfer on a node with keys of its own\<close>

definition conf_foreign :: chain where
  "conf_foreign = snd (ConfidentialTransferZYTD env0 ''n'' ctx1 ''alice'' ''bob'' 3 ''n-server'' conf1)"

lemma conf_runs:
  "SetUserTFHEPublicKey env0 ''alice'' conf_key vault_start = (Ret (), snd (SetUserTFHEPublicKey env0 ''alice'' conf_key vault_start))"
  "SetUserTFHEPublicKey env0 ''bob'' conf_key (snd (SetUserTFHEPublicKey env0 ''alice'' conf_key vault_start)) = (Ret (), conf0)"
  "ConfidentialMintZYTD env0 ctx1 ''alice'' 10 ''k-server'' conf0 = (Ret (), conf1)"
  "ConfidentialTransferZYTD env0 ''k'' ctx1 ''alice'' ''bob'' 3 ''k-server'' conf1 = (Ret (), conf2)"
  "ConfidentialMintZYTD env0 ctx1 ''alice'' (- 1) ''k-server'' conf1 = (Ret (), conf_wrapped)"
  "ConfidentialTransferZYTD env0 ''n'' ctx1 ''alice'' ''bob'' 3 ''n-server'' conf1 = (Ret (), conf_foreign)"
proof -
  have l: "length conf_key = 1024" "conf_key \<noteq> []" unfolding conf_key_def by simp_all
  have r: "fst (SetUserTFHEPublicKey env0 a conf_key s) = Ret ()" for a s
    by (simp add: SetUserTFHEPublicKey_def go_simps l)
  then show "SetUserTFHEPublicKey env0 ''alice'' conf_key vault_start = (Ret (), snd (SetUserTFHEPublicKey env0 ''alice'' conf_key vault_start))"
    "SetUserTFHEPublicKey env0 ''bob'' conf_key (snd (SetUserTFHEPublicKey env0 ''alice'' conf_key vault_start)) = (Ret (), conf0)"
    by (simp_all add: prod_eq_iff conf0_def)
  have "fst (ConfidentialMintZYTD env0 ctx1 ''alice'' 10 ''k-server'' conf0) = Ret ()" by code_simp
  then show "ConfidentialMintZYTD env0 ctx1 ''alice'' 10 ''k-server'' conf0 = (Ret (), conf1)"
    by (simp add: prod_eq_iff conf1_def)
  have "fst (ConfidentialTransferZYTD env0 ''k'' ctx1 ''alice'' ''bob'' 3 ''k-server'' conf1) = Ret ()" by code_simp
  then show "ConfidentialTransferZYTD env0 ''k'' ctx1 ''alice'' ''bob'' 3 ''k-server'' conf1 = (Ret (), conf2)"
    by (simp add: prod_eq_iff conf2_def)
  have "fst (ConfidentialMintZYTD env0 ctx1 ''alice'' (- 1) ''k-server'' conf1) = Ret ()" by code_simp
  then show "ConfidentialMintZYTD env0 ctx1 ''alice'' (- 1) ''k-server'' conf1 = (Ret (), conf_wrapped)"
    by (simp add: prod_eq_iff conf_wrapped_def)
  have "fst (ConfidentialTransferZYTD env0 ''n'' ctx1 ''alice'' ''bob'' 3 ''n-server'' conf1) = Ret ()" by code_simp
  then show "ConfidentialTransferZYTD env0 ''n'' ctx1 ''alice'' ''bob'' 3 ''n-server'' conf1 = (Ret (), conf_foreign)"
    by (simp add: prod_eq_iff conf_foreign_def)
qed

definition conf_calls :: "conf_call list" where
  "conf_calls = [ConfRegister ''alice'' conf_key, ConfRegister ''bob'' conf_key, ConfMint ''alice'' 10 ''k-server'']"

lemma bob_ok: "VerifyAddressFormat ''bob''"
  by code_simp

lemma conf_calls_coherent: "c \<in> set conf_calls \<Longrightarrow> conf_coherent keys0 ''k'' a c"
proof -
  have "tk_of_public keys0 conf_key = ''k''" "tk_of_server keys0 ''k-server'' = ''k''" by (simp_all add: keys0_def conf_key_def)
  then show "c \<in> set conf_calls \<Longrightarrow> conf_coherent keys0 ''k'' a c" by (auto simp: conf_calls_def)
qed

lemma conf_reach_examples:
  "conf_reach env0 nck conf_calls conf1"
  "conf_reach env0 ''k'' (conf_calls @ [ConfTransfer ''alice'' ''bob'' 3 ''k-server'']) conf2"
  "conf_reach env0 ''k'' (conf_calls @ [ConfMint ''alice'' (- 1) ''k-server'']) conf_wrapped"
proof -
  have "sc_store vault_start = []" by (simp add: vault_start_def)
  then have s: "conf_reach env0 nck [] vault_start" for nck by (intro conf_reach.start) (simp_all add: kv_simps)
  have a: "conf_reach env0 nck [ConfRegister ''alice'' conf_key] (snd (SetUserTFHEPublicKey env0 ''alice'' conf_key vault_start))" for nck
    using conf_reach.step [OF s [of nck], of "ConfRegister ''alice'' conf_key" ctx1] conf_runs(1) alice_ok(1) by simp
  have 0: "conf_reach env0 nck [ConfRegister ''alice'' conf_key, ConfRegister ''bob'' conf_key] conf0" for nck
    using conf_reach.step [OF a [of nck], of "ConfRegister ''bob'' conf_key" ctx1] conf_runs(2) bob_ok by simp
  have 1: "conf_reach env0 nck conf_calls conf1" for nck
    using conf_reach.step [OF 0 [of nck], of "ConfMint ''alice'' 10 ''k-server''" ctx1] conf_runs(3) alice_ok(1) by (simp add: conf_calls_def)
  show "conf_reach env0 nck conf_calls conf1" by (rule 1)
  show "conf_reach env0 ''k'' (conf_calls @ [ConfTransfer ''alice'' ''bob'' 3 ''k-server'']) conf2"
    using conf_reach.step [OF 1 [of "''k''"], of "ConfTransfer ''alice'' ''bob'' 3 ''k-server''" ctx1] conf_runs(4) alice_ok(1) bob_ok by simp
  show "conf_reach env0 ''k'' (conf_calls @ [ConfMint ''alice'' (- 1) ''k-server'']) conf_wrapped"
    using conf_reach.step [OF 1 [of "''k''"], of "ConfMint ''alice'' (- 1) ''k-server''" ctx1] conf_runs(5) alice_ok(1) by simp
qed

theorem credit_limit_tracks_balance_witness:
  "total_credit (sc_store conf2) = 10
   \<and> plain keys0 ''k'' env0 (sc_store conf2) ''bob'' = Some (ucast (QueryCreditLimit env0 (sc_store conf2) ''bob''))"
proof -
  have m: "minted (conf_calls @ [ConfTransfer ''alice'' ''bob'' 3 ''k-server'']) = 10" by (simp add: conf_calls_def minted_def)
  have coh: "\<forall>c \<in> set (conf_calls @ [ConfTransfer ''alice'' ''bob'' 3 ''k-server'']). conf_coherent keys0 ''k'' ''bob'' c"
    using conf_calls_coherent by (auto simp: keys0_def)
  show ?thesis
    using credit_limit_tracks_balance [OF env0_bech32_laws conf_reach_examples(2)] m coh env0_tfhe_laws bob_ok by simp
qed

theorem ConfidentialTransfer_conserves_witness:
  "plain keys0 ''k'' env0 (sc_store conf2) ''alice'' = Some 7 \<and> plain keys0 ''k'' env0 (sc_store conf2) ''bob'' = Some 3
   \<and> QueryCreditLimit env0 (sc_store conf2) ''alice'' = 7 \<and> QueryCreditLimit env0 (sc_store conf2) ''bob'' = 3"
proof -
  have before: "plain keys0 ''k'' env0 (sc_store conf1) ''alice'' = Some 10" "plain keys0 ''k'' env0 (sc_store conf1) ''bob'' = Some 0"
    "QueryCreditLimit env0 (sc_store conf1) ''alice'' = 10" "QueryCreditLimit env0 (sc_store conf1) ''bob'' = 0"
    "map_option (tk_of_public keys0) (GetUserTFHEPublicKey env0 (sc_store conf1) ''bob'') = Some ''k''"
    "za_EncryptedBalance (GetZYTDAccountState env0 (sc_store conf1) ''bob'') = []" by code_simp+
  obtain pk where pk: "GetUserTFHEPublicKey env0 (sc_store conf1) ''bob'' = Some pk" "tk_of_public keys0 pk = ''k''" using before(5) by auto
  have keys: "tk_of_server keys0 ''k-server'' = ''k''" by (simp add: keys0_def)
  have w: "ucast (3 :: 64 word) = (3 :: 32 word)" "credit_add 0 3 = 3" by code_simp+
  note run = ConfidentialTransfer_conserves [OF env0_bech32_laws alice_ok(1) bob_ok conf_runs(4)]
  have "plain keys0 (tk_of_public keys0 pk) env0 (sc_store conf1) ''bob'' = Some y \<longrightarrow>
      plain keys0 (tk_of_public keys0 pk) env0 (sc_store conf2) ''bob'' = Some (y + 3)" for y
    using run env0_tfhe_laws before(6) pk(1) w by auto
  then show ?thesis using run env0_tfhe_laws before(1-4) keys w pk(2) by auto
qed

text \<open>
  Beyond 32 bits the documented invariant fails: there is a reachable state in which
  an account's public credit limit exceeds its decrypted balance, because the ciphertext
  wraps at \<open>2 ^ 32\<close> while the limit is a 64-bit number.
\<close>

theorem credit_limit_can_exceed_balance:
  "\<exists>cs n. conf_reach env0 ''k'' cs conf_wrapped \<and> tfhe_laws env0 keys0 \<and> plain keys0 ''k'' env0 (sc_store conf_wrapped) ''alice'' = Some n
    \<and> unat (QueryCreditLimit env0 (sc_store conf_wrapped) ''alice'') > unat n"
proof -
  have "QueryCreditLimit env0 (sc_store conf_wrapped) ''alice'' = 4294967305"
    "plain keys0 ''k'' env0 (sc_store conf_wrapped) ''alice'' = Some 9" by code_simp+
  then show ?thesis using conf_reach_examples(3) env0_tfhe_laws by auto
qed

text \<open>
  With keys of their own, as users are meant to have, the holders lose their balances: under
  an engine that satisfies the laws, Alice's balance is a valid ciphertext of 10 under her own
  client key; a transfer on a node with a key of its own, which subtracts an amount encrypted
  under the node's key, is accepted and lowers her limit, and what it stores as her
  balance decrypts neither under her key nor under the node's.
\<close>

theorem user_key_balance_lost:
  "tfhe_laws env0 keys0
   \<and> plain keys0 ''k'' env0 (sc_store conf1) ''alice'' = Some 10
   \<and> ConfidentialTransferZYTD env0 ''n'' ctx1 ''alice'' ''bob'' 3 ''n-server'' conf1 = (Ret (), conf_foreign)
   \<and> QueryCreditLimit env0 (sc_store conf_foreign) ''alice'' = 7
   \<and> plain keys0 ''k'' env0 (sc_store conf_foreign) ''alice'' = None \<and> plain keys0 ''n'' env0 (sc_store conf_foreign) ''alice'' = None"
proof -
  have "plain keys0 ''k'' env0 (sc_store conf1) ''alice'' = Some 10" "QueryCreditLimit env0 (sc_store conf_foreign) ''alice'' = 7"
    "plain keys0 ''k'' env0 (sc_store conf_foreign) ''alice'' = None" "plain keys0 ''n'' env0 (sc_store conf_foreign) ''alice'' = None"
    by code_simp+
  then show ?thesis using env0_tfhe_laws conf_runs(6) by simp
qed

end
