(* ===== verification/Defi.thy ===== *)
theory Defi
  imports Confidential
begin

section \<open>Histories of the DeFi modules\<close>

text \<open>
  The messages of \<open>x/oracle\<close>, \<open>x/ibc-collateral\<close> and \<open>x/stablecoin\<close>, ordinary bank
  transfers and the oracle's block hooks as one transition system. A message runs as a
  transaction: it takes effect only when its handler returns. The locale \<open>tx_system\<close>
  proves once that an invariant kept by every successful handler is kept by every
  history; its interpretation \<open>defi\<close> discharges the law for \<open>debt_inv\<close>.
\<close>

locale tx_system =
  fixes exec :: "'m \<Rightarrow> ('s, 'e, 'a) go" and admissible :: "'m \<Rightarrow> bool" and inv :: "'s \<Rightarrow> bool"
  assumes keeps: "inv s \<Longrightarrow> admissible m \<Longrightarrow> exec m s = (Ret a, t) \<Longrightarrow> inv t"
begin

definition history :: "'m list \<Rightarrow> 's \<Rightarrow> 's" where
  "history ms s = fold (\<lambda>m s. snd (run_tx (exec m) s)) ms s"

lemma history_append: "history (ms @ ms') s = history ms' (history ms s)"
  by (simp add: history_def)

lemma history_inv: "inv s \<Longrightarrow> list_all admissible ms \<Longrightarrow> inv (history ms s)"
proof (induction ms arbitrary: s)
  case (Cons m ms)
  have "inv (snd (run_tx (exec m) s))"
    by (rule run_tx_keeps) (use Cons.prems keeps in auto)
  with Cons show ?case by (simp add: history_def)
qed (simp add: history_def)

lemma history_mono:
  assumes "inv s" "list_all admissible ms"
    and mono: "\<And>s m a t. inv s \<Longrightarrow> admissible m \<Longrightarrow> exec m s = (Ret a, t) \<Longrightarrow> (f s :: int) \<le> f t"
  shows "f s \<le> f (history ms s)"
  using assms(1,2)
proof (induction ms arbitrary: s)
  case (Cons m ms)
  let ?t = "snd (run_tx (exec m) s)"
  have "inv ?t \<and> f s \<le> f ?t"
    by (rule run_tx_keeps [where P = "\<lambda>t. inv t \<and> f s \<le> f t"]) (use Cons.prems keeps mono in auto)
  with Cons show ?case by (auto simp: history_def intro: order_trans)
qed (simp add: history_def)

end

subsection \<open>The messages\<close>

text \<open>
  The seven messages of the three modules, transfers in between, and the block hooks. The
  confidential operations of the stablecoin keeper have no message and no caller, so they are not
  part of a history.
\<close>

datatype defi_msg =
    DSubmitPrice MsgSubmitPrice
  | DLock MsgCollateral
  | DUnlock MsgCollateral
  | DMint MsgMintZYTD
  | DBurn MsgBurnZYTD
  | DLiquidate MsgLiquidate
  | DRegisterKey MsgRegisterZYTDKey
  | DSend addr addr coins
  | DBeginBlock
  | DEndBlock

definition discard :: "('s, 'e, 'a) go \<Rightarrow> ('s, 'e, unit) go" where
  "discard m = gbind m (\<lambda>_. gret ())"

fun defi_exec :: "env \<Rightarrow> ctx \<times> defi_msg \<Rightarrow> unit chain_op" where
  "defi_exec E (C, DSubmitPrice m) = SubmitPrice E C m"
| "defi_exec E (C, DLock m) = discard (msg_LockCollateral E C m)"
| "defi_exec E (C, DUnlock m) = discard (msg_UnlockCollateral E C m)"
| "defi_exec E (C, DMint m) = discard (MintZYTD E C m)"
| "defi_exec E (C, DBurn m) = discard (BurnZYTD E C m)"
| "defi_exec E (C, DLiquidate m) = discard (Liquidate E C m)"
| "defi_exec E (C, DRegisterKey m) = discard (RegisterZYTDKey E C m)"
| "defi_exec E (C, DSend f t amt) = on_base (SendCoins E C f t amt)"
| "defi_exec E (C, DBeginBlock) = on_oracle (oracle_BeginBlock E C)"
| "defi_exec E (C, DEndBlock) = on_oracle (oracle_EndBlock C)"

text \<open>
  The signer of a message controls a key, so it is not the address of the vault, which is
  a hash of the module's name; nothing else is asked of a message.
\<close>

fun defi_ok :: "env \<Rightarrow> ctx \<times> defi_msg \<Rightarrow> bool" where
  "defi_ok E (C, DLock m) \<longleftrightarrow> AccAddressFromBech32 E (mc_Owner m) \<noteq> Some (vault_addr E)"
| "defi_ok E (C, DUnlock m) \<longleftrightarrow> AccAddressFromBech32 E (mc_Owner m) \<noteq> Some (vault_addr E)"
| "defi_ok E (C, DMint m) \<longleftrightarrow> AccAddressFromBech32 E (mm_Sender m) \<noteq> Some (vault_addr E)"
| "defi_ok E (C, DSend f t amt) \<longleftrightarrow> VerifyAddressFormat f \<and> VerifyAddressFormat t \<and> f \<noteq> vault_addr E"
| "defi_ok E (C, _) \<longleftrightarrow> True"

lemma discard_Ret [go_iffs]: "discard m s = (Ret u, t) \<longleftrightarrow> (\<exists>a. m s = (Ret a, t))"
  by (auto simp: discard_def go_iffs)

subsection \<open>What each message keeps\<close>

lemma debt_inv_oracle:
  assumes "debt_inv E s"
  shows "debt_inv E (s\<lparr>oracle_store := st\<rparr>)"
  using assms by (simp add: debt_inv_def vault_inv_def)

lemma SubmitPrice_debt:
  assumes "debt_inv E s" "SubmitPrice E C m s = (Ret u, t)"
  shows "debt_inv E t" "supply_of (base t) d = supply_of (base s) d"
  by (rule SubmitPrice_Ret [OF assms(2)], use debt_inv_events [OF debt_inv_oracle [OF assms(1)]] in \<open>simp add: supply_of_def\<close>)+

lemma debt_inv_vault_step:
  assumes inv: "debt_inv E s" and v: "vault_inv E t" "bank_inv (base t)"
    and sup: "supply_of (base t) ZYTDDenom = supply_of (base s) ZYTDDenom" and sc: "sc_store t = sc_store s"
    and pm: "\<And>a d. VerifyAddressFormat a \<Longrightarrow> position_minted E (coll_store t) a d = position_minted E (coll_store s) a d"
  shows "debt_inv E t"
  using inv v sup sc pm by (simp add: debt_inv_def)

lemma UnlockCollateral_frame:
  assumes B: "bech32_laws E" and inv: "vault_inv E s" and bi: "bank_inv (base s)" and a: "VerifyAddressFormat a"
    and run: "UnlockCollateral E C a d amount s = (Ret u, t)"
  shows "bank_inv (base t)" "supply_of (base t) d' = supply_of (base s) d'" "sc_store t = sc_store s"
    "VerifyAddressFormat x \<Longrightarrow> position_minted E (coll_store t) x d' = position_minted E (coll_store s) x d'"
proof -
  have wf: "coll_wf E (coll_store s)" and L: "int_laws E" and A: "addr_laws E" and bwf: "bank_wf (base s)"
    using inv by (simp_all add: vault_inv_def bank_ok_def)
  obtain n cs p b where p: "GetPosition E (coll_store s) a d = Inr p" "cp_MintedZYTD p = 0"
    and send: "SendCoinsFromModuleToAccount E C vault_name a cs (base s) = (Ret (), b)"
    and t: "t = s\<lparr>base := b, coll_store := setTotalLocked d (max 0 (GetTotalLocked (coll_store s) d - n))
            (if n = cp_Amount p then kv_delete (positionKey E a d) (coll_store s)
             else kv_set (positionKey E a d) (CPos (p\<lparr>cp_Amount := cp_Amount p - n\<rparr>)) (coll_store s))\<rparr>"
    by (rule UnlockCollateral_Ret [OF L B wf a run])
  note mv = SendCoinsFromModuleToAccount_moves(1) [OF L A bwf a send]
  show "bank_inv (base t)" using bank_moves_inv [OF mv bi] by (simp add: t)
  show "supply_of (base t) d' = supply_of (base s) d'" using mv by (simp add: t bank_moves_def supply_of_def)
  show "sc_store t = sc_store s" by (simp add: t)
  show "position_minted E (coll_store t) x d' = position_minted E (coll_store s) x d'" if "VerifyAddressFormat x"
    using p by (auto simp: t position_minted_def GetPosition_set [OF B a that] GetPosition_delete [OF B a that])
qed

lemma msg_LockCollateral_debt:
  assumes B: "bech32_laws E" and inv: "debt_inv E s" and ok: "AccAddressFromBech32 E (mc_Owner m) \<noteq> Some (vault_addr E)"
    and run: "msg_LockCollateral E C m s = (Ret r, t)"
  shows "debt_inv E t" "supply_of (base t) d = supply_of (base s) d"
proof -
  have v: "vault_inv E s" "bank_inv (base s)" using inv by (simp_all add: debt_inv_def)
  obtain a s1 es where a: "AccAddressFromBech32 E (mc_Owner m) = Some a"
    and lock: "LockCollateral E C a (mc_IbcDenom m) (mc_Amount m) s = (Ret (), s1)"
    and t: "t = s1\<lparr>base := (base s1)\<lparr>evs := es\<rparr>\<rparr>"
    using run unfolding msg_LockCollateral_def by (clarsimp simp: go_iffs)
  have va: "VerifyAddressFormat a" "a \<noteq> vault_addr E" using AccAddressFromBech32_ok [OF a] a ok by auto
  obtain n where n: "mc_Amount m = Some n" using lock by (auto simp: LockCollateral_def go_iffs)
  note f = LockCollateral_frame [OF B v va lock [unfolded n]]
  have "debt_inv E s1"
    by (rule debt_inv_vault_step [OF inv LockCollateral_vault [OF B v(1) va lock] f(1,2,3) f(5)])
  from debt_inv_events [OF this] show "debt_inv E t" by (simp add: t)
  show "supply_of (base t) d = supply_of (base s) d" using f(2) by (simp add: t supply_of_def)
qed

lemma msg_UnlockCollateral_debt:
  assumes B: "bech32_laws E" and inv: "debt_inv E s" and ok: "AccAddressFromBech32 E (mc_Owner m) \<noteq> Some (vault_addr E)"
    and run: "msg_UnlockCollateral E C m s = (Ret r, t)"
  shows "debt_inv E t" "supply_of (base t) d = supply_of (base s) d"
proof -
  have v: "vault_inv E s" "bank_inv (base s)" using inv by (simp_all add: debt_inv_def)
  obtain a s1 es where a: "AccAddressFromBech32 E (mc_Owner m) = Some a"
    and un: "UnlockCollateral E C a (mc_IbcDenom m) (mc_Amount m) s = (Ret (), s1)"
    and t: "t = s1\<lparr>base := (base s1)\<lparr>evs := es\<rparr>\<rparr>"
    using run unfolding msg_UnlockCollateral_def by (clarsimp simp: go_iffs)
  have va: "VerifyAddressFormat a" "a \<noteq> vault_addr E" using AccAddressFromBech32_ok [OF a] a ok by auto
  note f = UnlockCollateral_frame [OF B v va(1) un]
  have "debt_inv E s1"
    by (rule debt_inv_vault_step [OF inv UnlockCollateral_vault [OF B v(1) va un] f(1,2,3) f(4)])
  from debt_inv_events [OF this] show "debt_inv E t" by (simp add: t)
  show "supply_of (base t) d = supply_of (base s) d" using f(2) by (simp add: t supply_of_def)
qed

lemma SendCoins_debt:
  assumes inv: "debt_inv E s" and ad: "VerifyAddressFormat f" "VerifyAddressFormat r" "f \<noteq> vault_addr E"
    and run: "SendCoins E C f r amt (base s) = (Ret u, b)"
  shows "debt_inv E (s\<lparr>base := b\<rparr>)" "supply_of b d = supply_of (base s) d"
proof -
  have L: "int_laws E" and A: "addr_laws E" and wf: "bank_wf (base s)" and bi: "bank_inv (base s)"
    using inv by (simp_all add: debt_inv_def vault_inv_def bank_ok_def)
  note mv = SendCoins_moves [OF L wf ad(1,2) run]
  have bi': "bank_inv b" by (rule bank_moves_inv [OF mv bi])
  show sup: "supply_of b d = supply_of (base s) d" for d using mv by (simp add: bank_moves_def supply_of_def)
  have nn: "0 \<le> amt_of amt d" for d
  proof -
    have "\<forall>c \<in> set amt. 0 < c_amount c"
      using run by (auto simp: SendCoins_def subUnlockedCoins_def go_iffs coins_IsValid_iff)
    then have "0 \<le> sum_list (map (\<lambda>c. if d = c_denom c then c_amount c else 0) amt)"
      by (intro sum_list_nonneg) auto
    then show ?thesis by (simp add: amt_of_sum)
  qed
  have "bk.covers E vault_name (sum_positions (coll_store s)) b"
  proof (rule covers_mono [where b = "base s"])
    show "balance_of (base s) (NewModuleAddress E vault_name) d \<le> balance_of b (NewModuleAddress E vault_name) d" for d
      using mv ad(3) nn [of d] NewModuleAddress_ok [OF A, of vault_name] by (simp add: bank_moves_def vault_addr_def)
    show "bk.covers E vault_name (sum_positions (coll_store s)) (base s)"
      using inv by (simp add: debt_inv_def vault_inv_def)
  qed
  then show "debt_inv E (s\<lparr>base := b\<rparr>)"
    using inv bi' sup [of ZYTDDenom] mv by (simp add: debt_inv_def vault_inv_def bank_ok_def bank_moves_def)
qed

lemma oracle_hooks_frame:
  assumes "on_oracle m s = (Ret u, t)"
  shows "\<exists>st. t = s\<lparr>oracle_store := st\<rparr>"
  using assms by (auto simp: go_iffs)

lemma defi_exec_debt:
  assumes B: "bech32_laws E" and D: "dec_laws E" and inv: "debt_inv E s" and ok: "defi_ok E cm"
    and run: "defi_exec E cm s = (Ret u, t)"
  shows "debt_inv E t \<and> supply_of (base s) ZYTDDenom \<le> supply_of (base t) ZYTDDenom"
proof -
  obtain C c where cm: "cm = (C, c)" by (cases cm)
  note run = run [unfolded cm] and ok = ok [unfolded cm]
  have dead: "fst (m s) \<noteq> Ret r \<Longrightarrow> m s \<noteq> (Ret r, t)" for m :: "int chain_op" and r by auto
  have wf: "coll_wf E (coll_store s)" using inv by (simp add: debt_inv_def vault_inv_def)
  show ?thesis
  proof (cases c)
    case (DSubmitPrice m)
    then show ?thesis using run SubmitPrice_debt [OF inv] by simp
  next
    case (DLock m)
    then show ?thesis using run ok msg_LockCollateral_debt [OF B inv] by (auto simp: go_iffs)
  next
    case (DUnlock m)
    then show ?thesis using run ok msg_UnlockCollateral_debt [OF B inv] by (auto simp: go_iffs)
  next
    case (DMint m)
    then obtain r where r: "MintZYTD E C m s = (Ret r, t)" using run by (auto simp: go_iffs)
    obtain a where a: "AccAddressFromBech32 E (mm_Sender m) = Some a" by (rule MintZYTD_Ret [OF r])
    have ne: "a \<noteq> vault_addr E" using a ok DMint by auto
    show ?thesis
      using MintZYTD_debt [OF B inv a ne r] MintZYTD_supply [OF B inv a ne r] by simp
  next
    case (DBurn m)
    then show ?thesis using run burn_dead [OF B D inv] by (auto simp: go_iffs)
  next
    case (DLiquidate m)
    then show ?thesis using run liquidate_dead [OF B wf] by (auto simp: go_iffs)
  next
    case (DRegisterKey m)
    then obtain h where h: "RegisterZYTDKey E C m s = (Ret h, t)" using run by (auto simp: go_iffs)
    obtain a where a: "AccAddressFromBech32 E (mk_Sender m) = Some a"
      using h by (auto simp: RegisterZYTDKey_def go_iffs)
    obtain es where "t = s\<lparr>sc_store := SetZYTDPQCKey E a (mk_Dilithium5PubKey m) (sc_store s), base := (base s)\<lparr>evs := es\<rparr>\<rparr>"
      by (rule RegisterZYTDKey_run [OF a, of C s]) (use h in auto)
    then show ?thesis using debt_inv_events [OF debt_inv_key [OF inv]] by (simp add: supply_of_def)
  next
    case (DSend f r amt)
    then show ?thesis using run ok SendCoins_debt [OF inv] by (auto simp: go_iffs)
  next
    case DBeginBlock
    then show ?thesis using run debt_inv_oracle [OF inv] oracle_hooks_frame by fastforce
  next
    case DEndBlock
    then show ?thesis using run debt_inv_oracle [OF inv] oracle_hooks_frame by fastforce
  qed
qed

subsection \<open>Properties\<close>

text \<open>
  The law of \<open>tx_system\<close> needs the laws of the external libraries; the interpretation
  carries them in the invariant.
\<close>

definition defi_inv :: "env \<Rightarrow> chain \<Rightarrow> bool" where
  "defi_inv E s \<longleftrightarrow> bech32_laws E \<and> dec_laws E \<and> debt_inv E s"

interpretation defi: tx_system "defi_exec E" "defi_ok E" "defi_inv E" for E
  by unfold_locales (use defi_exec_debt in \<open>auto simp: defi_inv_def\<close>)

definition defi_run :: "env \<Rightarrow> (ctx \<times> defi_msg) list \<Rightarrow> chain \<Rightarrow> chain" where
  "defi_run E ms s = fold (\<lambda>m s. snd (run_tx (defi_exec E m) s)) ms s"

lemma defi_run_history: "defi_run E ms s = defi.history E ms s"
  by (simp add: defi_run_def defi.history_def)

text \<open>
  C11. Solvency over all histories: starting from a consistent state, after any sequence
  of price submissions, locks, releases, mints, burns, liquidations, key registrations,
  bank transfers and block hooks, at any heights and whether they succeed or fail, the
  vault account still holds at least the sum of all positions in every denomination, the
  counters are these sums, mint records and vault agree on every debt, and the ZYTD supply
  is exactly the recorded debt; the supply of ZYTD never falls.
\<close>

theorem defi_solvency:
  assumes "bech32_laws E" and "dec_laws E" and "debt_inv E s" and "list_all (defi_ok E) ms"
  shows "debt_inv E (defi_run E ms s)
    \<and> (\<forall>d. sum_positions (coll_store (defi_run E ms s)) d \<le> balance_of (base (defi_run E ms s)) (vault_addr E) d)
    \<and> supply_of (base (defi_run E ms s)) ZYTDDenom = sum_minted (sc_store (defi_run E ms s))
    \<and> supply_of (base s) ZYTDDenom \<le> supply_of (base (defi_run E ms s)) ZYTDDenom"
proof -
  have inv: "defi_inv E s" using assms by (simp add: defi_inv_def)
  have 1: "debt_inv E (defi_run E ms s)"
    using defi.history_inv [OF inv assms(4)] by (simp add: defi_inv_def defi_run_history)
  have "supply_of (base s) ZYTDDenom \<le> supply_of (base (defi_run E ms s)) ZYTDDenom"
    unfolding defi_run_history
    by (rule defi.history_mono [where f = "\<lambda>s. supply_of (base s) ZYTDDenom", OF inv assms(4)])
      (use defi_exec_debt in \<open>auto simp: defi_inv_def\<close>)
  with 1 show ?thesis by (simp add: debt_inv_def vault_inv_def bk.covers_def vault_addr_def)
qed

theorem defi_solvency_witness:
  "debt_inv env0 (defi_run env0 [(ctx1, DMint mint_msg), (ctx1, DSend ''alice'' ''bob'' []), (ctx1, DEndBlock)] mint_start)"
proof -
  have "list_all (defi_ok env0) [(ctx1, DMint mint_msg), (ctx1, DSend ''alice'' ''bob'' []), (ctx1, DEndBlock)]"
    using alice_ok mint_sender by (simp add: VerifyAddressFormat_def MaxAddrLen_def)
  from defi_solvency [OF env0_bech32_laws env0_dec_laws mint_start_inv this] show ?thesis by blast
qed

end
