(* ===== verification/DefaultGenesis.thy ===== *)
theory DefaultGenesis
  imports Defi
begin

section \<open>The chain started from the default genesis\<close>

text \<open>
  The default parameters of the oracle and the default assets of the vault name the same
  tokens differently. This theory follows the consequence through all histories of
  \<open>Defi\<close>: a TWAP is only ever stored for a whitelisted denomination, assets never
  change, so no mint finds a price.
\<close>

definition twaps_within :: "denom list \<Rightarrow> oval kv \<Rightarrow> bool" where
  "twaps_within W st \<longleftrightarrow> kv_inv st \<and> WhitelistedDenoms (oracle_GetParams st) = W
     \<and> (\<forall>d t. kv_get st (twapKey d) = Some (OTwap t) \<longrightarrow> d \<in> set W)"

lemma twaps_within_ops:
  assumes "twaps_within W st"
  shows "twaps_within W (SetPrice e st)" "tw_Denom t \<in> set W \<Longrightarrow> twaps_within W (SetTWAP t st)"
    "twaps_within W (PruneOldPrices h st)"
proof -
  have inv: "kv_inv st" using assms by (simp add: twaps_within_def)
  show "twaps_within W (SetPrice e st)" "tw_Denom t \<in> set W \<Longrightarrow> twaps_within W (SetTWAP t st)"
    using assms unfolding twaps_within_def
    by (auto simp: SetPrice_def SetTWAP_def kv_simps oracle_keys_differ
        oracle_GetParams_ops [unfolded SetPrice_def SetTWAP_def])
  have "kv_inv (PruneOldPrices h st)" using inv by (simp add: PruneOldPrices_def Let_def fold_kv_delete)
  then show "twaps_within W (PruneOldPrices h st)"
    using assms inv unfolding twaps_within_def
    by (auto simp: PruneOldPrices_get [OF inv] split: option.splits oval.splits if_splits)
qed

lemma SubmitPrice_twaps:
  assumes "twaps_within W (oracle_store s)" "SubmitPrice E C m s = (Ret u, t)"
  shows "twaps_within W (oracle_store t)" "coll_store t = coll_store s"
proof -
  obtain st1 st2 where den: "sp_Denom m \<in> set (WhitelistedDenoms (oracle_GetParams (oracle_store s)))"
    and st1: "st1 = SetPrice \<lparr>pe_Denom = sp_Denom m, pe_PriceUSD = sp_PriceUsd m, pe_Submitter = sp_Submitter m,
       pe_Height = block_height C, pe_Timestamp = block_time C\<rparr> (oracle_store s)"
    and st2: "st2 = st1 \<or> (\<exists>tw. ComputeTWAP E C (sp_Denom m) st1 = (Ret tw, st1) \<and> st2 = SetTWAP tw st1)"
    and t: "oracle_store t = PruneOldPrices (block_height C) st2" "coll_store t = coll_store s"
    by (rule SubmitPrice_Ret [OF assms(2)]) (auto intro: that)
  have "twaps_within W st2"
    using st2 twaps_within_ops(1) [OF assms(1)] ComputeTWAP_Ret(2) den assms(1)
    by (auto simp: st1 twaps_within_def [of W "oracle_store s"] intro!: twaps_within_ops(2))
  then show "twaps_within W (oracle_store t)" "coll_store t = coll_store s"
    using twaps_within_ops(3) by (simp_all add: t)
qed

lemma refresh_twaps:
  assumes "gbind (gtry (ComputeTWAP E C d)) (\<lambda>r. case r of Inl _ \<Rightarrow> gret () | Inr twap \<Rightarrow> gmod (SetTWAP twap)) st = (Ret u, st')"
    "d \<in> set W" "twaps_within W st"
  shows "twaps_within W st'"
proof -
  obtain r st1 where r: "gtry (ComputeTWAP E C d) st = (Ret r, st1)"
    and st2: "((case r of Inl _ \<Rightarrow> gret () | Inr twap \<Rightarrow> gmod (SetTWAP twap)) :: unit oracle_op) st1 = (Ret u, st')"
    using assms(1) by (auto simp: go_iffs)
  have st1: "st1 = st"
    using r ComputeTWAP_state [of E C d st] by (auto simp: gtry_def split: prod.splits outcome.splits)
  show ?thesis
  proof (cases r)
    case (Inl e)
    then show ?thesis using st2 st1 assms(3) by (simp add: go_iffs)
  next
    case (Inr tw)
    then have "tw_Denom tw = d" using r ComputeTWAP_Ret(2) by (auto simp: go_iffs)
    then show ?thesis using st2 st1 Inr assms(2) twaps_within_ops(2) [OF assms(3)] by (simp add: go_iffs)
  qed
qed

lemma gfor_keeps:
  assumes "gfor xs f s = (Ret u, t)" "\<And>x s t u. x \<in> set xs \<Longrightarrow> P s \<Longrightarrow> f x s = (Ret u, t) \<Longrightarrow> P t" "P s"
  shows "P t"
  using assms
proof (induction xs arbitrary: s)
  case (Cons x xs)
  obtain s1 where s1: "f x s = (Ret (), s1)" "gfor xs f s1 = (Ret u, t)" using Cons.prems(1) by (auto simp: go_iffs)
  have "P s1" using Cons.prems(2) [OF _ Cons.prems(3) s1(1)] by simp
  then show ?case by (rule Cons.IH [OF s1(2), rotated]) (use Cons.prems(2) in auto)
qed (simp add: go_iffs)

lemma BeginBlock_twaps:
  assumes run: "oracle_BeginBlock E C st = (Ret u, st')" and tw: "twaps_within W st"
  shows "twaps_within W st'"
proof -
  have W: "WhitelistedDenoms (oracle_GetParams st) = W" using tw by (simp add: twaps_within_def)
  have loop: "gfor W (\<lambda>d. gbind (gtry (ComputeTWAP E C d))
      (\<lambda>r. case r of Inl _ \<Rightarrow> gret () | Inr twap \<Rightarrow> gmod (SetTWAP twap))) st = (Ret u, st')"
    using run by (simp add: oracle_BeginBlock_def go_iffs W)
  show ?thesis by (rule gfor_keeps [where P = "twaps_within W", OF loop _ tw]) (rule refresh_twaps)
qed

text \<open>
  All assets of the vault are among \<open>As\<close>, all TWAPs among \<open>W\<close>, and the two sets of
  denominations have nothing in common.
\<close>

definition unpriced :: "denom list \<Rightarrow> denom list \<Rightarrow> chain \<Rightarrow> bool" where
  "unpriced W As s \<longleftrightarrow> twaps_within W (oracle_store s)
     \<and> (\<forall>d a. GetCollateralAsset (coll_store s) d = Inr a \<longrightarrow> d \<in> set As) \<and> set W \<inter> set As = {}"

lemma unpriced_mint_dead:
  assumes "unpriced W As s"
  shows "MintZYTD E C m s \<noteq> (Ret r, t)"
proof
  assume "MintZYTD E C m s = (Ret r, t)"
  then obtain asset tw where a: "GetCollateralAsset (coll_store s) (mm_IbcDenom m) = Inr asset"
    and tw: "GetTWAP (oracle_store s) (mm_IbcDenom m) = Inr tw" by (rule MintZYTD_Ret)
  have "kv_get (oracle_store s) (twapKey (mm_IbcDenom m)) = Some (OTwap tw)"
    using tw by (auto simp: GetTWAP_def split: option.splits oval.splits)
  with assms a show False by (auto simp: unpriced_def twaps_within_def)
qed

lemma unpriced_frame:
  assumes "unpriced W As s" "oracle_store t = oracle_store s"
    "\<And>d. GetCollateralAsset (coll_store t) d = GetCollateralAsset (coll_store s) d"
  shows "unpriced W As t"
  using assms by (simp add: unpriced_def)

lemma unlock_assets:
  assumes B: "bech32_laws E" and inv: "vault_inv E s" and a: "VerifyAddressFormat a"
    and run: "UnlockCollateral E C a d amount s = (Ret u, t)"
  shows "GetCollateralAsset (coll_store t) d' = GetCollateralAsset (coll_store s) d'" "oracle_store t = oracle_store s"
proof -
  have wf: "coll_wf E (coll_store s)" and L: "int_laws E" using inv by (simp_all add: vault_inv_def bank_ok_def)
  show "GetCollateralAsset (coll_store t) d' = GetCollateralAsset (coll_store s) d'" "oracle_store t = oracle_store s"
    by (rule UnlockCollateral_Ret [OF L B wf a run], simp)+
qed

lemma lock_assets:
  assumes B: "bech32_laws E" and inv: "vault_inv E s" and a: "VerifyAddressFormat a"
    and run: "LockCollateral E C a d amount s = (Ret u, t)"
  shows "GetCollateralAsset (coll_store t) d' = GetCollateralAsset (coll_store s) d'" "oracle_store t = oracle_store s"
proof -
  have wf: "coll_wf E (coll_store s)" and L: "int_laws E" using inv by (simp_all add: vault_inv_def bank_ok_def)
  show "GetCollateralAsset (coll_store t) d' = GetCollateralAsset (coll_store s) d'" "oracle_store t = oracle_store s"
    by (rule LockCollateral_Ret [OF L B wf a run], simp)+
qed

lemma unpriced_step:
  assumes B: "bech32_laws E" and D: "dec_laws E" and inv: "debt_inv E s" and ok: "defi_ok E cm"
    and un: "unpriced W As s" and run: "defi_exec E cm s = (Ret u, t)"
  shows "unpriced W As t"
proof -
  obtain C c where cm: "cm = (C, c)" by (cases cm)
  note run = run [unfolded cm]
  have v: "vault_inv E s" and wf: "coll_wf E (coll_store s)" using inv by (simp_all add: debt_inv_def vault_inv_def)
  have tw: "twaps_within W (oracle_store s)" using un by (simp add: unpriced_def)
  show ?thesis
  proof (cases c)
    case (DSubmitPrice m)
    then show ?thesis using run un SubmitPrice_twaps [OF tw] by (simp add: unpriced_def)
  next
    case (DLock m)
    then obtain r where "msg_LockCollateral E C m s = (Ret r, t)" using run by (auto simp: go_iffs)
    then obtain a s1 where a: "AccAddressFromBech32 E (mc_Owner m) = Some a"
      and lock: "LockCollateral E C a (mc_IbcDenom m) (mc_Amount m) s = (Ret (), s1)"
      and t: "oracle_store t = oracle_store s1" "coll_store t = coll_store s1"
      unfolding msg_LockCollateral_def by (clarsimp simp: go_iffs)
    show ?thesis
      by (rule unpriced_frame [OF un]) (use lock_assets [OF B v AccAddressFromBech32_ok [OF a] lock] t in simp_all)
  next
    case (DUnlock m)
    then obtain r where "msg_UnlockCollateral E C m s = (Ret r, t)" using run by (auto simp: go_iffs)
    then obtain a s1 where a: "AccAddressFromBech32 E (mc_Owner m) = Some a"
      and lock: "UnlockCollateral E C a (mc_IbcDenom m) (mc_Amount m) s = (Ret (), s1)"
      and t: "oracle_store t = oracle_store s1" "coll_store t = coll_store s1"
      unfolding msg_UnlockCollateral_def by (clarsimp simp: go_iffs)
    show ?thesis
      by (rule unpriced_frame [OF un]) (use unlock_assets [OF B v AccAddressFromBech32_ok [OF a] lock] t in simp_all)
  next
    case (DMint m)
    then show ?thesis using run unpriced_mint_dead [OF un] by (auto simp: go_iffs)
  next
    case (DBurn m)
    then show ?thesis using run burn_dead [OF B D inv] by (auto simp: go_iffs)
  next
    case (DLiquidate m)
    then show ?thesis using run liquidate_dead [OF B wf] by (auto simp: go_iffs)
  next
    case (DRegisterKey m)
    then have "oracle_store t = oracle_store s" "coll_store t = coll_store s"
      using run by (auto simp: RegisterZYTDKey_def go_iffs)
    then show ?thesis using unpriced_frame [OF un] by simp
  next
    case (DSend f r amt)
    then show ?thesis using run unpriced_frame [OF un] by (auto simp: go_iffs)
  next
    case DBeginBlock
    then have "oracle_BeginBlock E C (oracle_store s) = (Ret (), oracle_store t)" "coll_store t = coll_store s"
      using run by (auto simp: go_iffs)
    moreover from this(1) have "twaps_within W (oracle_store t)"
      using BeginBlock_twaps [OF _ tw] by blast
    ultimately show ?thesis using un by (simp add: unpriced_def)
  next
    case DEndBlock
    then have "oracle_store t = PruneOldPrices (block_height C) (oracle_store s)" "coll_store t = coll_store s"
      using run by (auto simp: go_iffs oracle_EndBlock_def)
    then show ?thesis using un twaps_within_ops(3) [OF tw] by (simp add: unpriced_def)
  qed
qed

interpretation unpriced: tx_system "defi_exec E" "defi_ok E" "\<lambda>s. defi_inv E s \<and> unpriced W As s" for E W As
  by unfold_locales (use unpriced_step defi.keeps in \<open>auto simp: defi_inv_def\<close>)

subsection \<open>The property\<close>

definition genesis_chain :: "env \<Rightarrow> base \<Rightarrow> staking_view \<Rightarrow> chain" where
  "genesis_chain E b sv = \<lparr>base = b, oracle_store = oracle_InitGenesis DefaultOracleParams [],
     coll_store = snd (coll_InitGenesis E coll_DefaultGenesis []),
     sc_store = SetTotalSupply 0 (sc_SetParams DefaultStablecoinParams []), staking = sv\<rparr>"

definition default_coll :: "cval kv" where
  "default_coll = snd (coll_InitGenesis env0 coll_DefaultGenesis [])"

lemma coll_genesis_env: "snd (coll_InitGenesis E coll_DefaultGenesis []) = default_coll"
  by (simp add: default_coll_def coll_InitGenesis_def coll_DefaultGenesis_def DefaultCollateralAssets_def
      RegisterCollateralAsset_def go_simps default_asset_def)

lemma default_coll_facts:
  "kv_inv default_coll" "list_all asset_entry default_coll"
  "list_all (\<lambda>e. case snd e of CAsset a \<Rightarrow> ca_IBCDenom a \<in> set (map ca_IBCDenom DefaultCollateralAssets) | _ \<Rightarrow> False) default_coll"
  unfolding default_coll_def by code_simp+

lemma genesis_unpriced:
  "unpriced (WhitelistedDenoms DefaultOracleParams) (map ca_IBCDenom DefaultCollateralAssets) (genesis_chain E b sv)"
proof -
  have "twaps_within (WhitelistedDenoms DefaultOracleParams) (oracle_InitGenesis DefaultOracleParams [])"
    by (simp add: twaps_within_def oracle_InitGenesis_def oracle_SetParams_def oracle_GetParams_def kv_get_def kv_inv_def
        oracle_keys_differ twapKey_def)
  moreover have "d \<in> set (map ca_IBCDenom DefaultCollateralAssets)" if "GetCollateralAsset default_coll d = Inr a" for d a
  proof -
    have "kv_get default_coll (asset_key d) = Some (CAsset a)"
      using that by (auto simp: GetCollateralAsset_def split: option.splits cval.splits)
    then have m: "(asset_key d, CAsset a) \<in> set default_coll" using default_coll_facts(1) by (simp add: kv_get_mem)
    then have "asset_key d = asset_key (ca_IBCDenom a)"
      using default_coll_facts(2) by (auto simp: list_all_iff asset_entry_def)
    then show ?thesis using m default_coll_facts(3) by (auto simp: list_all_iff coll_keys_differ)
  qed
  moreover have "set (WhitelistedDenoms DefaultOracleParams) \<inter> set (map ca_IBCDenom DefaultCollateralAssets) = {}"
    by (simp add: DefaultOracleParams_def DefaultCollateralAssets_def default_asset_def)
  ultimately show ?thesis by (simp add: unpriced_def genesis_chain_def coll_genesis_env)
qed

lemma genesis_debt:
  assumes "int_laws E" "addr_laws E" "bank_inv b" "supply_of b ZYTDDenom = 0"
  shows "debt_inv E (genesis_chain E b sv)"
proof -
  let ?sc = "SetTotalSupply 0 (sc_SetParams DefaultStablecoinParams [])"
  have sc: "?sc = [(''sc_params'', SParams DefaultStablecoinParams), (''supply'', SSupply 0)]"
    by (simp add: SetTotalSupply_def sc_SetParams_def)
  have wf: "bank_wf b" using assms(3) by (simp add: bank_inv_def)
  note oa = only_assets [OF default_coll_facts(1,2)]
  have "vault_inv E (genesis_chain E b sv)"
    using oa assms wf balance_of_range(1) [OF wf]
    by (simp add: vault_inv_def genesis_chain_def coll_genesis_env bank_ok_def bk.covers_def)
  moreover have "sc_wf E ?sc"
    unfolding sc_wf_def by (auto simp: sc kv_inv_def kv_get_def sval_ok_def split: if_splits)
  moreover have "record_minted E ?sc a d = 0" for a d
    by (simp add: record_minted_def GetMintRecord_def sc kv_get_def)
  moreover have "position_minted E default_coll a d = 0" for a d
    using default_coll_facts(1,2) by (auto simp: position_minted_def GetPosition_def asset_entry_def list_all_iff kv_get_mem
        split: option.splits cval.splits sum.splits dest!: bspec)
  moreover have "GetTotalSupply ?sc = 0 \<and> sum_minted ?sc = 0"
    by (simp add: sc GetTotalSupply_def sum_minted_def kv_sum_def minted_amount_def kv_get_def)
  ultimately show ?thesis using assms by (simp add: debt_inv_def genesis_chain_def coll_genesis_env)
qed

text \<open>
  C12. From the default genesis no ZYTD can ever be minted: whatever the initial balances
  and validators and whatever history follows, every \<open>MintZYTD\<close> fails. The oracle's
  whitelist names tokens by symbol (ZYTC, axlUSDC), the vault by bank denomination (uzytc,
  ibc/axlUSDC), so no TWAP exists for any asset.
\<close>

theorem default_genesis_never_mints:
  assumes "int_laws E" and "addr_laws E" and "bech32_laws E" and "dec_laws E"
    and "bank_inv b" and "supply_of b ZYTDDenom = 0" and "list_all (defi_ok E) ms"
  shows "fst (MintZYTD E C m (defi_run E ms (genesis_chain E b sv))) \<noteq> Ret r"
proof -
  let ?W = "WhitelistedDenoms DefaultOracleParams" and ?A = "map ca_IBCDenom DefaultCollateralAssets"
  have "defi_inv E (genesis_chain E b sv) \<and> unpriced ?W ?A (genesis_chain E b sv)"
    using genesis_debt [OF assms(1,2,5,6)] genesis_unpriced assms(3,4) by (simp add: defi_inv_def)
  then have "unpriced ?W ?A (defi_run E ms (genesis_chain E b sv))"
    using unpriced.history_inv [OF _ assms(7)] by (simp add: defi_run_def unpriced.history_def)
  then show ?thesis using unpriced_mint_dead by (metis prod.collapse)
qed

theorem default_genesis_never_mints_witness:
  "fst (MintZYTD env0 ctx1 mint_msg (defi_run env0 [(ctx1, DBeginBlock), (ctx1, DEndBlock)]
     (genesis_chain env0 bank_example \<lparr>sv_validators = [''val''], sv_bonded_by_power = [''val'']\<rparr>))) \<noteq> Ret 2"
  by (rule default_genesis_never_mints [OF env0_int_laws env0_addr_laws env0_bech32_laws env0_dec_laws bank_example_inv])
    (code_simp, simp)

end
