(* ===== verification/Sha256.thy ===== *)
theory Sha256
  imports Prelude
begin

section \<open>SHA-256\<close>

text \<open>
  The function \<open>crypto/sha256.Sum256\<close> of Go's standard library, which the shard code, the
  Merkle tree and the block payload use, as the published algorithm on byte strings: the
  padding, the message schedule, the compression of 64-byte blocks on 32-bit words. The
  development uses of it that a digest has 32 bytes; where a property depends on the
  absence of collisions it says so by exhibiting the collision.
\<close>

unbundle bit_operations_syntax

definition rotr32 :: "nat \<Rightarrow> 32 word \<Rightarrow> 32 word" where
  "rotr32 n x = drop_bit n x OR push_bit (32 - n) x"

definition sha_Sigma0 :: "32 word \<Rightarrow> 32 word" where
  "sha_Sigma0 x = rotr32 2 x XOR rotr32 13 x XOR rotr32 22 x"

definition sha_Sigma1 :: "32 word \<Rightarrow> 32 word" where
  "sha_Sigma1 x = rotr32 6 x XOR rotr32 11 x XOR rotr32 25 x"

definition sha_sigma0 :: "32 word \<Rightarrow> 32 word" where
  "sha_sigma0 x = rotr32 7 x XOR rotr32 18 x XOR drop_bit 3 x"

definition sha_sigma1 :: "32 word \<Rightarrow> 32 word" where
  "sha_sigma1 x = rotr32 17 x XOR rotr32 19 x XOR drop_bit 10 x"

definition sha_Ch :: "32 word \<Rightarrow> 32 word \<Rightarrow> 32 word \<Rightarrow> 32 word" where
  "sha_Ch x y z = (x AND y) XOR (NOT x AND z)"

definition sha_Maj :: "32 word \<Rightarrow> 32 word \<Rightarrow> 32 word \<Rightarrow> 32 word" where
  "sha_Maj x y z = (x AND y) XOR (x AND z) XOR (y AND z)"

text \<open>
  The round constants and the initial state are the first 32 bits of the fractional parts of
  the cube and square roots of the first primes, computed bit by bit.
\<close>

fun root_bits :: "nat \<Rightarrow> nat \<Rightarrow> int \<Rightarrow> int \<Rightarrow> int" where
  "root_bits e 0 n r = r"
| "root_bits e (Suc b) n r = root_bits e b n (if (r + 2 ^ b) ^ e \<le> n then r + 2 ^ b else r)"

definition sha_primes :: "int list" where
  "sha_primes = filter (\<lambda>n. list_all (\<lambda>d. n mod d \<noteq> 0) [2..n - 1]) [2..311]"

definition sha_K :: "32 word list" where
  "sha_K = map (\<lambda>p. word_of_int (root_bits 3 36 (p * 2 ^ 96) 0)) sha_primes"

type_synonym sha_state =
  "32 word \<times> 32 word \<times> 32 word \<times> 32 word \<times> 32 word \<times> 32 word \<times> 32 word \<times> 32 word"

definition sha_init :: sha_state where
  "sha_init = (case map (\<lambda>p. word_of_int (root_bits 2 36 (p * 2 ^ 64) 0)) (take 8 sha_primes) of
     [a, b, c, d, e, f, g, h] \<Rightarrow> (a, b, c, d, e, f, g, h) | _ \<Rightarrow> (0, 0, 0, 0, 0, 0, 0, 0))"

fun sha_round :: "32 word \<times> 32 word \<Rightarrow> sha_state \<Rightarrow> sha_state" where
  "sha_round (k, w) (a, b, c, d, e, f, g, h) =
     (let t1 = h + sha_Sigma1 e + sha_Ch e f g + k + w;
          t2 = sha_Sigma0 a + sha_Maj a b c
      in (t1 + t2, a, b, c, d + t1, e, f, g))"

text \<open>the schedule, the last word first: each new word is computed from the 16 before it\<close>

fun sha_extend :: "nat \<Rightarrow> 32 word list \<Rightarrow> 32 word list" where
  "sha_extend 0 ws = ws"
| "sha_extend (Suc n) ws = sha_extend n ((sha_sigma1 (ws ! 1) + ws ! 6 + sha_sigma0 (ws ! 14) + ws ! 15) # ws)"

fun be_words :: "string \<Rightarrow> 32 word list" where
  "be_words (a # b # c # d # r) =
     (push_bit 24 (of_char a) OR push_bit 16 (of_char b) OR push_bit 8 (of_char c) OR of_char d) # be_words r"
| "be_words _ = []"

fun sha_add :: "sha_state \<Rightarrow> sha_state \<Rightarrow> sha_state" where
  "sha_add (a, b, c, d, e, f, g, h) (a', b', c', d', e', f', g', h') =
     (a + a', b + b', c + c', d + d', e + e', f + f', g + g', h + h')"

definition sha_compress :: "string \<Rightarrow> sha_state \<Rightarrow> sha_state" where
  "sha_compress block s =
     (let ws = rev (sha_extend 48 (rev (be_words block))) in sha_add s (fold sha_round (zip sha_K ws) s))"

fun sha_blocks :: "nat \<Rightarrow> string \<Rightarrow> sha_state \<Rightarrow> sha_state" where
  "sha_blocks 0 m s = s"
| "sha_blocks (Suc n) m s = sha_blocks n (drop 64 m) (sha_compress (take 64 m) s)"

text \<open>the low \<open>n\<close> bytes of a number, most significant first\<close>

definition be_bytes :: "nat \<Rightarrow> int \<Rightarrow> string" where
  "be_bytes n v = map (\<lambda>i. char_of (v div 256 ^ i)) (rev [0..<n])"

definition sha_pad :: "string \<Rightarrow> string" where
  "sha_pad m = m @ CHR 0x80 # replicate ((119 - length m mod 64) mod 64) CHR 0x00 @ be_bytes 8 (8 * int (length m))"

fun word_bytes :: "32 word \<Rightarrow> string" where
  "word_bytes w = be_bytes 4 (uint w)"

fun sha_digest :: "sha_state \<Rightarrow> string" where
  "sha_digest (a, b, c, d, e, f, g, h) = concat (map word_bytes [a, b, c, d, e, f, g, h])"

definition sha256 :: "string \<Rightarrow> string" where
  "sha256 m = (let p = sha_pad m in sha_digest (sha_blocks (length p div 64) p sha_init))"

lemma length_be_bytes [simp]: "length (be_bytes n v) = n"
  by (simp add: be_bytes_def)

lemma length_sha256 [simp]: "length (sha256 m) = 32"
proof -
  have "length (sha_digest s) = 32" for s by (cases s rule: sha_digest.cases) simp
  then show ?thesis by (simp add: sha256_def Let_def)
qed

text \<open>a collision, the event the security of the trees below excludes\<close>

definition sha256_collision :: "string \<Rightarrow> string \<Rightarrow> bool" where
  "sha256_collision x y \<longleftrightarrow> x \<noteq> y \<and> sha256 x = sha256 y"

end
