(* ===== verification/Erasure.thy ===== *)
theory Erasure
  imports Sha256
begin

section \<open>Erasure coding of ciphertexts\<close>

text \<open>
  \<open>x/privacy/tfhe/erasure.go\<close>: a ciphertext is split into 12 data and 4 parity shards, any
  12 of which give it back. The Reed-Solomon library is a parameter, the record \<open>rs_codec\<close>;
  \<open>rs_laws\<close> states what its documentation promises, and \<open>rs0\<close> is a concrete codec that
  satisfies it.
\<close>

datatype terr = Errf string | WrapE string terr | PanicE string

text \<open>A missing shard is a nil slice: \<open>None\<close>.\<close>

record rs_codec =
  rs_New :: "nat \<Rightarrow> nat \<Rightarrow> terr option"
  rs_Split :: "string \<Rightarrow> terr + string list"
  rs_Encode :: "string list \<Rightarrow> terr + string list"
  rs_Reconstruct :: "string option list \<Rightarrow> terr + string list"
  rs_Verify :: "string list \<Rightarrow> terr + bool"

definition ErasureDataShards :: nat where
  "ErasureDataShards = 12"

definition ErasureParityShards :: nat where
  "ErasureParityShards = 4"

definition ErasureTotalShards :: nat where
  "ErasureTotalShards = ErasureDataShards + ErasureParityShards"

definition CiphertextMaxBytes :: nat where
  "CiphertextMaxBytes = 512 * 1024"

record ShardResult =
  sr_Index :: int
  sr_Data :: string

definition newEncoder :: "rs_codec \<Rightarrow> terr option" where
  "newEncoder R = map_option (WrapE ''erasure: failed to create Reed-Solomon encoder'')
     (rs_New R ErasureDataShards ErasureParityShards)"

definition Split :: "rs_codec \<Rightarrow> string \<Rightarrow> terr + ShardResult list" where
  "Split R data =
     (if data = [] then Inl (Errf ''erasure: data must not be empty'')
      else case newEncoder R of
        Some e \<Rightarrow> Inl e
      | None \<Rightarrow> (case rs_Split R data of
          Inl e \<Rightarrow> Inl (WrapE ''erasure: Split failed'' e)
        | Inr shards \<Rightarrow> (case rs_Encode R shards of
            Inl e \<Rightarrow> Inl (WrapE ''erasure: Encode (parity computation) failed'' e)
          | Inr encoded \<Rightarrow> Inr (map (\<lambda>i. \<lparr>sr_Index = int i, sr_Data = encoded ! i\<rparr>) [0..<length encoded]))))"

definition Reconstruct :: "rs_codec \<Rightarrow> string option list \<Rightarrow> int \<Rightarrow> terr + string" where
  "Reconstruct R shards originalLen =
     (if length shards \<noteq> ErasureTotalShards then Inl (Errf ''erasure: expected 16 shards'')
      else if length (filter (\<lambda>s. s \<noteq> None) shards) < ErasureDataShards then Inl (Errf ''erasure: insufficient shards'')
      else case newEncoder R of
        Some e \<Rightarrow> Inl e
      | None \<Rightarrow> (case rs_Reconstruct R shards of
          Inl e \<Rightarrow> Inl (WrapE ''erasure: Reconstruct failed'' e)
        | Inr full \<Rightarrow> (case rs_Verify R full of
            Inl e \<Rightarrow> Inl (WrapE ''erasure: Verify failed'' e)
          | Inr ok \<Rightarrow>
              if \<not> ok then Inl (Errf ''erasure: reconstructed shards failed integrity check'')
              else (let out = concat (take ErasureDataShards full) in
                    Inr (if 0 < originalLen \<and> originalLen \<le> int (length out) then take (nat originalLen) out else out)))))"

fun place_shards :: "ShardResult list \<Rightarrow> string option list \<Rightarrow> terr + string option list" where
  "place_shards [] shards = Inr shards"
| "place_shards (r # rs) shards =
     (if sr_Index r < 0 \<or> sr_Index r \<ge> int ErasureTotalShards then Inl (Errf ''erasure: invalid shard index'')
      else place_shards rs (shards[nat (sr_Index r) := Some (sr_Data r)]))"

definition ReconstructFromResults :: "rs_codec \<Rightarrow> ShardResult list \<Rightarrow> int \<Rightarrow> terr + string" where
  "ReconstructFromResults R results originalLen =
     (case place_shards results (replicate ErasureTotalShards None) of
        Inl e \<Rightarrow> Inl e
      | Inr shards \<Rightarrow> Reconstruct R shards originalLen)"

subsection \<open>What the library promises\<close>

definition known_part :: "string list \<Rightarrow> string option list \<Rightarrow> bool" where
  "known_part cs known \<longleftrightarrow> length known = length cs \<and> (\<forall>i < length cs. known ! i = None \<or> known ! i = Some (cs ! i))"

definition rs_laws :: "rs_codec \<Rightarrow> bool" where
  "rs_laws R \<longleftrightarrow> rs_New R 12 4 = None \<and>
     (\<forall>data. data \<noteq> [] \<longrightarrow> (\<exists>ds cs pad. rs_Split R data = Inr ds \<and> rs_Encode R ds = Inr cs
        \<and> length cs = 16 \<and> concat (take 12 cs) = data @ pad \<and> rs_Verify R cs = Inr True
        \<and> (\<forall>known. known_part cs known \<and> 12 \<le> length (filter (\<lambda>s. s \<noteq> None) known) \<longrightarrow> rs_Reconstruct R known = Inr cs)))"

subsection \<open>Placing shards\<close>

lemma erasure_params: "ErasureDataShards = 12" "ErasureParityShards = 4" "ErasureTotalShards = 16"
  by (simp_all add: ErasureDataShards_def ErasureParityShards_def ErasureTotalShards_def)

lemma place_shards_known:
  assumes "place_shards rs known = Inr known'" "known_part cs known" "length cs = 16"
    "\<forall>r \<in> set rs. sr_Data r = cs ! nat (sr_Index r)"
  shows "known_part cs known'
    \<and> (\<forall>i < 16. known' ! i \<noteq> None \<longleftrightarrow> known ! i \<noteq> None \<or> int i \<in> sr_Index ` set rs)"
  using assms
proof (induction rs known rule: place_shards.induct)
  case (1 known)
  then show ?case by simp
next
  case (2 r rs known)
  let ?k = "known[nat (sr_Index r) := Some (sr_Data r)]"
  have ok: "0 \<le> sr_Index r" "sr_Index r < 16" and rest: "place_shards rs ?k = Inr known'"
    using "2.prems"(1) by (auto simp: erasure_params split: if_splits)
  have k: "known_part cs ?k" using "2.prems" ok by (auto simp: known_part_def nth_list_update)
  have idx: "(int i = sr_Index r) = (i = nat (sr_Index r))" for i using ok by auto
  have "\<not> (sr_Index r < 0 \<or> sr_Index r \<ge> int ErasureTotalShards)" using ok by (simp add: erasure_params)
  note IH = "2.IH" [OF this rest k "2.prems"(3)]
  have "known' ! i \<noteq> None \<longleftrightarrow> known ! i \<noteq> None \<or> int i \<in> sr_Index ` set (r # rs)" if "i < 16" for i
    using IH that "2.prems"(2,3,4) ok idx [of i]
    by (cases "i = nat (sr_Index r)") (auto simp: known_part_def nth_list_update)
  with IH "2.prems"(4) show ?case by simp
qed

lemma place_shards_range:
  "\<forall>r \<in> set rs. 0 \<le> sr_Index r \<and> sr_Index r < 16 \<Longrightarrow> \<exists>known'. place_shards rs known = Inr known'"
  by (induction rs known rule: place_shards.induct) (auto simp: erasure_params)

lemma filter_count:
  assumes "length known = 16"
  shows "length (filter (\<lambda>s. s \<noteq> None) known) = card {i. i < 16 \<and> known ! i \<noteq> None}"
  using length_filter_conv_card [of "\<lambda>s. s \<noteq> None" known] assms by simp

lemma place_shards_count:
  assumes "place_shards rs (replicate 16 None) = Inr known" "length cs = 16"
    "\<forall>r \<in> set rs. sr_Data r = cs ! nat (sr_Index r)" "\<forall>r \<in> set rs. 0 \<le> sr_Index r \<and> sr_Index r < 16"
  shows "known_part cs known" "length (filter (\<lambda>s. s \<noteq> None) known) = card (sr_Index ` set rs)"
proof -
  have kp: "known_part cs (replicate 16 None)" using assms(2) by (simp add: known_part_def)
  note k = place_shards_known [OF assms(1) kp assms(2,3)]
  then show "known_part cs known" by simp
  have "{i. i < 16 \<and> known ! i \<noteq> None} = nat ` sr_Index ` set rs"
    using k assms(4) by (force simp: image_iff)
  moreover have "inj_on nat (sr_Index ` set rs)" using assms(4) by (auto intro!: inj_onI simp: eq_nat_nat_iff)
  ultimately show "length (filter (\<lambda>s. s \<noteq> None) known) = card (sr_Index ` set rs)"
    using filter_count [of known] k assms(2) by (simp add: known_part_def card_image)
qed

lemma Split_Inr:
  assumes "rs_laws R" "Split R data = Inr rs"
  obtains cs pad where "data \<noteq> []" "length cs = 16" "concat (take 12 cs) = data @ pad" "rs_Verify R cs = Inr True"
    "\<forall>known. known_part cs known \<and> 12 \<le> length (filter (\<lambda>s. s \<noteq> None) known) \<longrightarrow> rs_Reconstruct R known = Inr cs"
    "rs = map (\<lambda>i. \<lparr>sr_Index = int i, sr_Data = cs ! i\<rparr>) [0..<16]"
proof -
  have ne: "data \<noteq> []" using assms(2) by (auto simp: Split_def)
  then obtain ds cs pad where cs: "rs_Split R data = Inr ds" "rs_Encode R ds = Inr cs" "length cs = 16"
    "concat (take 12 cs) = data @ pad" "rs_Verify R cs = Inr True"
    "\<forall>known. known_part cs known \<and> 12 \<le> length (filter (\<lambda>s. s \<noteq> None) known) \<longrightarrow> rs_Reconstruct R known = Inr cs"
    and new: "rs_New R 12 4 = None"
    using assms(1) unfolding rs_laws_def by blast
  have "rs = map (\<lambda>i. \<lparr>sr_Index = int i, sr_Data = cs ! i\<rparr>) [0..<16]"
    using assms(2) ne cs(1,2,3) new by (simp add: Split_def newEncoder_def erasure_params)
  with that ne cs show thesis by blast
qed

lemma reconstruct_selection:
  assumes "rs_laws R" and "Split R data = Inr rs" and "set sub \<subseteq> set rs"
  shows "ReconstructFromResults R sub (int (length data)) =
    (if 12 \<le> card (sr_Index ` set sub) then Inr data else Inl (Errf ''erasure: insufficient shards''))"
proof -
  obtain cs pad where cs: "data \<noteq> []" "length cs = 16" "concat (take 12 cs) = data @ pad" "rs_Verify R cs = Inr True"
    and rec: "\<forall>known. known_part cs known \<and> 12 \<le> length (filter (\<lambda>s. s \<noteq> None) known) \<longrightarrow> rs_Reconstruct R known = Inr cs"
    and rs: "rs = map (\<lambda>i. \<lparr>sr_Index = int i, sr_Data = cs ! i\<rparr>) [0..<16]"
    by (rule Split_Inr [OF assms(1,2)])
  have sub: "\<forall>r \<in> set sub. 0 \<le> sr_Index r \<and> sr_Index r < 16" "\<forall>r \<in> set sub. sr_Data r = cs ! nat (sr_Index r)"
    using assms(3) by (auto simp: rs)
  obtain known where k: "place_shards sub (replicate 16 None) = Inr known" using place_shards_range [OF sub(1)] by blast
  note kp = place_shards_count [OF k cs(2) sub(2,1)]
  have "length known = 16" using kp(1) cs(2) by (simp add: known_part_def)
  moreover have "newEncoder R = None" using assms(1) by (simp add: rs_laws_def newEncoder_def erasure_params)
  moreover have "0 < length data" using cs(1) by simp
  ultimately show ?thesis
    using k kp rec cs by (auto simp: ReconstructFromResults_def Reconstruct_def erasure_params Let_def)
qed

subsection \<open>Properties\<close>

text \<open>
  C13. Any twelve shards are enough and fewer never are: from any selection of the shards
  of a ciphertext, in any order and with repetitions, reconstruction returns exactly the
  ciphertext when at least 12 different indices are present, and an error otherwise.
\<close>

theorem any_twelve_shards_reconstruct:
  assumes "rs_laws R" and "Split R data = Inr rs" and "set sub \<subseteq> set rs"
  shows "ReconstructFromResults R sub (int (length data)) =
    (if 12 \<le> card (sr_Index ` set sub) then Inr data else Inl (Errf ''erasure: insufficient shards''))"
  by (rule reconstruct_selection [OF assms])

subsection \<open>A concrete codec\<close>

text \<open>
  A codec that keeps the law: the data go to the twelve data shards in equal parts,
  padded with zero bytes, and every parity shard repeats the padded data.
\<close>

definition rs0_part :: "string \<Rightarrow> nat \<Rightarrow> string" where
  "rs0_part p i = take (length p div 12) (drop (i * (length p div 12)) p)"

definition rs0_pad :: "string \<Rightarrow> string" where
  "rs0_pad data = data @ replicate ((12 - length data mod 12) mod 12) CHR 0x00"

definition rs0_code :: "string \<Rightarrow> string list" where
  "rs0_code p = map (rs0_part p) [0..<12] @ replicate 4 p"

fun rs0_first :: "string option list \<Rightarrow> string" where
  "rs0_first [] = []"
| "rs0_first (None # r) = rs0_first r"
| "rs0_first (Some p # r) = p"

definition rs0_recover :: "string option list \<Rightarrow> string" where
  "rs0_recover known = (if list_all (\<lambda>s. s = None) (drop 12 known) then concat (map (\<lambda>s. case s of None \<Rightarrow> [] | Some x \<Rightarrow> x) (take 12 known))
     else rs0_first (drop 12 known))"

definition rs0 :: rs_codec where
  "rs0 = \<lparr>rs_New = (\<lambda>d p. None), rs_Split = (\<lambda>data. Inr (rs0_code (rs0_pad data))), rs_Encode = Inr,
     rs_Reconstruct = (\<lambda>known. Inr (rs0_code (rs0_recover known))), rs_Verify = (\<lambda>s. Inr True)\<rparr>"

lemma concat_parts:
  "concat (map (\<lambda>i. take k (drop (i * k) p)) [0..<n]) = take (n * k) p"
proof (induction n)
  case (Suc n)
  have "take (n * k) p @ take k (drop (n * k) p) = take (n * k + k) p" by (simp add: take_add)
  then show ?case by (simp add: Suc add.commute)
qed simp

lemma rs0_join:
  assumes "12 dvd length p"
  shows "concat (take 12 (rs0_code p)) = p"
proof -
  have "concat (take 12 (rs0_code p)) = take (12 * (length p div 12)) p"
    using concat_parts [of "length p div 12" p 12] by (simp add: rs0_code_def rs0_part_def [abs_def])
  with assms show ?thesis by simp
qed

lemma rs0_first_known:
  assumes "\<forall>s \<in> set ks. s = None \<or> s = Some p" "\<not> list_all (\<lambda>s. s = None) ks"
  shows "rs0_first ks = p"
  using assms by (induction ks rule: rs0_first.induct) auto

lemma rs0_recover_known:
  assumes "12 dvd length p" "known_part (rs0_code p) known" "12 \<le> length (filter (\<lambda>s. s \<noteq> None) known)"
  shows "rs0_recover known = p"
proof -
  let ?cs = "rs0_code p"
  have len: "length known = 16" and part: "\<And>i. i < 16 \<Longrightarrow> known ! i = None \<or> known ! i = Some (?cs ! i)"
    using assms(2) by (auto simp: known_part_def rs0_code_def)
  have split: "known = take 12 known @ drop 12 known" by simp
  show ?thesis
  proof (cases "list_all (\<lambda>s. s = None) (drop 12 known)")
    case True
    then have "filter (\<lambda>s. s \<noteq> None) (drop 12 known) = []" by (auto simp: filter_empty_conv list_all_iff)
    then have "length (filter (\<lambda>s. s \<noteq> None) (take 12 known)) = length (take 12 known)"
      using assms(3) len length_filter_le [of "\<lambda>s. s \<noteq> None" "take 12 known"]
      by (subst (asm) split) (simp del: append_take_drop_id)
    then have all: "s \<noteq> None" if "s \<in> set (take 12 known)" for s
      using length_filter_less [OF that, of "\<lambda>s. s \<noteq> None"] by (cases s) simp_all
    have "map (\<lambda>s. case s of None \<Rightarrow> [] | Some x \<Rightarrow> x) (take 12 known) = take 12 ?cs"
    proof (rule nth_equalityI)
      show "length (map (\<lambda>s. case s of None \<Rightarrow> [] | Some x \<Rightarrow> x) (take 12 known)) = length (take 12 ?cs)"
        by (simp add: len rs0_code_def)
      fix i assume "i < length (map (\<lambda>s. case s of None \<Rightarrow> [] | Some x \<Rightarrow> x) (take 12 known))"
      then have i: "i < 12" by simp
      have "known ! i \<in> set (take 12 known)" using nth_mem [of i "take 12 known"] i len by simp
      then have "known ! i = Some (?cs ! i)" using all [of "known ! i"] part [of i] i by auto
      then show "map (\<lambda>s. case s of None \<Rightarrow> [] | Some x \<Rightarrow> x) (take 12 known) ! i = take 12 ?cs ! i"
        using i len by simp
    qed
    with True show ?thesis using rs0_join [OF assms(1)] by (simp add: rs0_recover_def)
  next
    case False
    have "\<forall>s \<in> set (drop 12 known). s = None \<or> s = Some p"
    proof
      fix s assume "s \<in> set (drop 12 known)"
      then obtain j where j: "j < 4" "s = known ! (12 + j)" using len by (auto simp: in_set_conv_nth)
      then have "?cs ! (12 + j) = p" by (simp add: rs0_code_def nth_append)
      then show "s = None \<or> s = Some p" using part [of "12 + j"] j by auto
    qed
    from rs0_first_known [OF this False] show ?thesis using False by (simp add: rs0_recover_def)
  qed
qed

lemma rs0_pad_dvd: "12 dvd length (rs0_pad data)"
proof -
  let ?n = "length data"
  have "length (rs0_pad data) mod 12 = (?n + (12 - ?n mod 12) mod 12) mod 12" by (simp add: rs0_pad_def)
  also have "\<dots> = (?n mod 12 + (12 - ?n mod 12)) mod 12" by (simp only: mod_add_left_eq mod_add_right_eq)
  also have "?n mod 12 + (12 - ?n mod 12) = 12" by simp
  finally show ?thesis by (simp add: mod_0_imp_dvd)
qed

lemma rs0_laws: "rs_laws rs0"
proof -
  note dv = rs0_pad_dvd
  have pad: "concat (take 12 (rs0_code (rs0_pad data))) = data @ replicate ((12 - length data mod 12) mod 12) CHR 0x00" for data
    using rs0_join [OF dv] by (simp add: rs0_pad_def)
  have len: "length (rs0_code p) = 16" for p by (simp add: rs0_code_def)
  have "\<exists>ds cs pad. rs_Split rs0 data = Inr ds \<and> rs_Encode rs0 ds = Inr cs
        \<and> length cs = 16 \<and> concat (take 12 cs) = data @ pad \<and> rs_Verify rs0 cs = Inr True
        \<and> (\<forall>known. known_part cs known \<and> 12 \<le> length (filter (\<lambda>s. s \<noteq> None) known) \<longrightarrow> rs_Reconstruct rs0 known = Inr cs)" for data
  proof (intro exI conjI)
    show "rs_Split rs0 data = Inr (rs0_code (rs0_pad data))" "rs_Encode rs0 (rs0_code (rs0_pad data)) = Inr (rs0_code (rs0_pad data))"
      "rs_Verify rs0 (rs0_code (rs0_pad data)) = Inr True" by (simp_all add: rs0_def)
    show "\<forall>known. known_part (rs0_code (rs0_pad data)) known \<and> 12 \<le> length (filter (\<lambda>s. s \<noteq> None) known) \<longrightarrow>
        rs_Reconstruct rs0 known = Inr (rs0_code (rs0_pad data))"
      using rs0_recover_known [OF dv [of data]] by (simp add: rs0_def)
  qed (rule len, rule pad)
  moreover have "rs_New rs0 12 4 = None" by (simp add: rs0_def)
  ultimately show ?thesis unfolding rs_laws_def by blast
qed

theorem any_twelve_shards_reconstruct_witness:
  "\<exists>rs. Split rs0 ''ciphertext'' = Inr rs
    \<and> ReconstructFromResults rs0 (drop 4 rs) 10 = Inr ''ciphertext''
    \<and> ReconstructFromResults rs0 (drop 5 rs) 10 = Inl (Errf ''erasure: insufficient shards'')"
proof -
  define rs where "rs = map (\<lambda>i. \<lparr>sr_Index = int i, sr_Data = rs0_code (rs0_pad ''ciphertext'') ! i\<rparr>) [0..<16]"
  have s: "Split rs0 ''ciphertext'' = Inr rs"
    by (simp add: Split_def newEncoder_def rs0_def rs_def rs0_code_def)
  have "card (sr_Index ` set (drop k rs)) = 16 - k" if "k \<le> 16" for k
  proof -
    have "sr_Index ` set (drop k rs) = int ` {k..<16}" using that by (auto simp: rs_def drop_map image_image)
    then show ?thesis by (simp add: card_image)
  qed
  then have "card (sr_Index ` set (drop 4 rs)) = 12" "card (sr_Index ` set (drop 5 rs)) = 11" by simp_all
  then show ?thesis
    using any_twelve_shards_reconstruct [OF rs0_laws s, of "drop 4 rs"] any_twelve_shards_reconstruct [OF rs0_laws s, of "drop 5 rs"]
      set_drop_subset [of 4 rs] set_drop_subset [of 5 rs] s by auto
qed

end
