(* ===== verification/Merkle.thy ===== *)
theory Merkle
  imports Erasure
begin

section \<open>The Merkle tree over the shards\<close>

text \<open>
  \<open>x/privacy/tfhe/merkle.go\<close>: the tree over the SHA-256 digests of the 16 shards, the
  proof of a shard and its verification. A \<open>Hash\<close> is an array of 32 bytes, here a string of
  length 32.
\<close>

record MerkleTree =
  mt_nodes :: "string list list"
  mt_depth :: nat
  mt_numLeaves :: nat

record MerkleProof =
  mp_LeafIndex :: int
  mp_Path :: "string list"

definition hashPair :: "string \<Rightarrow> string \<Rightarrow> string" where
  "hashPair left right = sha256 (left @ right)"

fun log2_loop :: "nat \<Rightarrow> nat" where
  "log2_loop n = (if 1 < n then Suc (log2_loop (n div 2)) else 0)"

declare log2_loop.simps [simp del]

definition log2 :: "nat \<Rightarrow> terr + nat" where
  "log2 n = (if n = 0 \<or> n AND (n - 1) \<noteq> 0 then Inl (PanicE ''merkle: log2: not a positive power of two'')
     else Inr (log2_loop n))"

fun leaf_hashes :: "ShardResult list \<Rightarrow> string list \<Rightarrow> terr + string list" where
  "leaf_hashes [] leaves = Inr leaves"
| "leaf_hashes (sr # srs) leaves =
     (if sr_Index sr < 0 \<or> sr_Index sr \<ge> int ErasureTotalShards then Inl (Errf ''merkle: shard index out of range'')
      else leaf_hashes srs (leaves[nat (sr_Index sr) := sha256 (sr_Data sr)]))"

definition parent_level :: "string list \<Rightarrow> string list" where
  "parent_level child = map (\<lambda>i. hashPair (child ! (2 * i)) (child ! (2 * i + 1))) [0..<length child div 2]"

text \<open>the levels above and including the given one, the root level first\<close>

fun build_levels :: "nat \<Rightarrow> string list \<Rightarrow> string list list" where
  "build_levels 0 level = [level]"
| "build_levels (Suc lvl) level = build_levels lvl (parent_level level) @ [level]"

definition BuildMerkleTree :: "ShardResult list \<Rightarrow> terr + MerkleTree" where
  "BuildMerkleTree shards =
     (if length shards \<noteq> ErasureTotalShards then Inl (Errf ''merkle: expected 16 shards'')
      else case leaf_hashes shards (replicate ErasureTotalShards (replicate 32 CHR 0x00)) of
        Inl e \<Rightarrow> Inl e
      | Inr leaves \<Rightarrow> (case log2 ErasureTotalShards of
          Inl e \<Rightarrow> Inl e
        | Inr depth \<Rightarrow> Inr \<lparr>mt_nodes = build_levels depth leaves, mt_depth = depth, mt_numLeaves = ErasureTotalShards\<rparr>))"

definition Root :: "MerkleTree \<Rightarrow> string" where
  "Root t = mt_nodes t ! 0 ! 0"

fun proof_loop :: "string list list \<Rightarrow> nat \<Rightarrow> nat \<Rightarrow> string list" where
  "proof_loop nodes 0 idx = []"
| "proof_loop nodes (Suc lvl) idx = nodes ! Suc lvl ! (idx XOR 1) # proof_loop nodes lvl (idx div 2)"

definition ProofForShard :: "MerkleTree \<Rightarrow> int \<Rightarrow> terr + MerkleProof" where
  "ProofForShard t shardIndex =
     (if shardIndex < 0 \<or> shardIndex \<ge> int (mt_numLeaves t) then Inl (Errf ''merkle: shard index out of range'')
      else Inr \<lparr>mp_LeafIndex = shardIndex, mp_Path = proof_loop (mt_nodes t) (mt_depth t) (nat shardIndex)\<rparr>)"

text \<open>Go's integer division truncates towards zero.\<close>

definition quot2 :: "int \<Rightarrow> int" where
  "quot2 i = sgn i * (\<bar>i\<bar> div 2)"

fun verify_loop :: "string list \<Rightarrow> int \<Rightarrow> string \<Rightarrow> string" where
  "verify_loop [] idx current = current"
| "verify_loop (sibling # path) idx current =
     verify_loop path (quot2 idx) (if even idx then hashPair current sibling else hashPair sibling current)"

definition VerifyProof :: "string \<Rightarrow> int \<Rightarrow> string \<Rightarrow> MerkleProof option \<Rightarrow> terr option" where
  "VerifyProof root shardIndex shardData p = (case p of
     None \<Rightarrow> Some (Errf ''merkle: proof is nil'')
   | Some proof \<Rightarrow>
       if mp_LeafIndex proof \<noteq> shardIndex then Some (Errf ''merkle: proof.LeafIndex != shardIndex'')
       else if verify_loop (mp_Path proof) shardIndex (sha256 shardData) \<noteq> root
       then Some (Errf ''merkle: proof verification failed'')
       else None)"

subsection \<open>Levels\<close>

lemma length_parent_level [simp]: "length (parent_level l) = length l div 2"
  by (simp add: parent_level_def)

lemma length_build_levels [simp]: "length (build_levels n l) = Suc n"
  by (induction n l rule: build_levels.induct) simp_all

lemma build_levels_last [simp]: "build_levels n l ! n = l"
  by (cases n) (simp_all add: nth_append)

lemma length_hashPair [simp]: "length (hashPair a b) = 32"
  by (simp add: hashPair_def)

lemma parent_level_nth:
  "i < length l div 2 \<Longrightarrow> parent_level l ! i = hashPair (l ! (2 * i)) (l ! (2 * i + 1))"
  by (simp add: parent_level_def)

lemma proof_loop_append:
  "n < length xs \<Longrightarrow> proof_loop (xs @ ys) n idx = proof_loop xs n idx"
  by (induction n arbitrary: idx) (simp_all add: nth_append)

lemma nat_xor_1: "n XOR Suc 0 = (if even n then Suc n else n - 1)"
  using xor_one_eq [of n] by auto

lemma quot2_nat [simp]: "quot2 (int n) = int (n div 2)"
  by (simp add: quot2_def zdiv_int sgn_if)

definition level_ok :: "nat \<Rightarrow> string list \<Rightarrow> bool" where
  "level_ok n l \<longleftrightarrow> length l = 2 ^ n \<and> (\<forall>h \<in> set l. length h = 32)"

lemma level_ok_parent: "level_ok (Suc n) l \<Longrightarrow> level_ok n (parent_level l)"
  by (auto simp: level_ok_def parent_level_def)

lemma top_of_levels: "build_levels (Suc n) l ! 0 = build_levels n (parent_level l) ! 0"
  by (simp add: nth_append)

lemma level_ok_nth: "level_ok n l \<Longrightarrow> i < 2 ^ n \<Longrightarrow> length (l ! i) = 32"
  by (simp add: level_ok_def)

lemma sibling_less: "idx < 2 ^ Suc n \<Longrightarrow> idx XOR Suc 0 < 2 ^ Suc n"
  by (auto simp: nat_xor_1 elim!: evenE)

text \<open>the two nodes a verification step combines are the children of the parent node\<close>

lemma sibling_pair:
  assumes "level_ok (Suc n) l" "idx < 2 ^ Suc n"
  shows "parent_level l ! (idx div 2) =
    (if even idx then hashPair (l ! idx) (l ! (idx XOR 1)) else hashPair (l ! (idx XOR 1)) (l ! idx))"
proof -
  have "idx div 2 < length l div 2" using assms by (auto simp: level_ok_def)
  from parent_level_nth [OF this] show ?thesis by (auto simp: nat_xor_1 elim!: evenE oddE)
qed

lemma verify_complete:
  "level_ok n l \<Longrightarrow> idx < 2 ^ n \<Longrightarrow>
    verify_loop (proof_loop (build_levels n l) n idx) (int idx) (l ! idx) = build_levels n l ! 0 ! 0"
proof (induction n arbitrary: l idx)
  case (Suc n)
  have "proof_loop (build_levels (Suc n) l) (Suc n) idx =
      l ! (idx XOR 1) # proof_loop (build_levels n (parent_level l)) n (idx div 2)"
    by (simp add: proof_loop_append nth_append)
  moreover have "idx div 2 < 2 ^ n" using Suc.prems(2) by auto
  ultimately show ?case
    using Suc.IH [OF level_ok_parent [OF Suc.prems(1)], of "idx div 2"] sibling_pair [OF Suc.prems]
    by (simp add: top_of_levels del: build_levels.simps split: if_splits)
qed simp

text \<open>
  Soundness is stated against the byte strings that are hashed: those hashed when a proof is
  verified and those hashed when the tree is built. A forged proof exhibits a collision
  between one of the first and one of the second.
\<close>

fun verify_inputs :: "string list \<Rightarrow> int \<Rightarrow> string \<Rightarrow> string list" where
  "verify_inputs [] idx current = []"
| "verify_inputs (sibling # path) idx current =
     (let pair = (if even idx then current @ sibling else sibling @ current)
      in pair # verify_inputs path (quot2 idx) (sha256 pair))"

fun level_inputs :: "nat \<Rightarrow> string list \<Rightarrow> string list" where
  "level_inputs 0 level = []"
| "level_inputs (Suc lvl) level =
     map (\<lambda>i. level ! (2 * i) @ level ! (2 * i + 1)) [0..<length level div 2] @ level_inputs lvl (parent_level level)"

definition tree_inputs :: "ShardResult list \<Rightarrow> MerkleTree \<Rightarrow> string list" where
  "tree_inputs shards t = map sr_Data shards @ level_inputs (mt_depth t) (mt_nodes t ! mt_depth t)"

definition collides :: "string list \<Rightarrow> string list \<Rightarrow> bool" where
  "collides xs ys \<longleftrightarrow> (\<exists>x \<in> set xs. \<exists>y \<in> set ys. sha256_collision x y)"

lemma collides_mono: "collides xs ys \<Longrightarrow> set xs \<subseteq> set xs' \<Longrightarrow> set ys \<subseteq> set ys' \<Longrightarrow> collides xs' ys'"
  by (auto simp: collides_def)

text \<open>the pair of siblings hashed into the parent of a node\<close>

definition node_pair :: "string list \<Rightarrow> nat \<Rightarrow> string" where
  "node_pair l idx = (if even idx then l ! idx @ l ! (idx XOR 1) else l ! (idx XOR 1) @ l ! idx)"

lemma node_pair_parent:
  assumes "level_ok (Suc n) l" "idx < 2 ^ Suc n"
  shows "parent_level l ! (idx div 2) = sha256 (node_pair l idx)" "node_pair l idx \<in> set (level_inputs (Suc n) l)"
proof -
  show "parent_level l ! (idx div 2) = sha256 (node_pair l idx)"
    using sibling_pair [OF assms] by (simp add: node_pair_def hashPair_def)
  have "node_pair l idx = l ! (2 * (idx div 2)) @ l ! (2 * (idx div 2) + 1)"
    by (auto simp: node_pair_def nat_xor_1 elim!: evenE oddE)
  moreover have "idx div 2 < length l div 2" using assms by (auto simp: level_ok_def)
  ultimately show "node_pair l idx \<in> set (level_inputs (Suc n) l)" by auto
qed

lemma verify_sound:
  "level_ok n l \<Longrightarrow> idx < 2 ^ n \<Longrightarrow> length path = n \<Longrightarrow> \<forall>h \<in> set path. length h = 32 \<Longrightarrow> length h = 32 \<Longrightarrow>
    verify_loop path (int idx) h = build_levels n l ! 0 ! 0 \<Longrightarrow>
    h = l ! idx \<or> collides (verify_inputs path (int idx) h) (level_inputs n l)"
proof (induction n arbitrary: l idx path h)
  case (Suc n)
  obtain sib rest where path: "path = sib # rest" "length rest = n" using Suc.prems(3) by (cases path) auto
  let ?x = "if even idx then h @ sib else sib @ h"
  note pair = node_pair_parent [OF Suc.prems(1,2)]
  have len: "length sib = 32" "length (l ! idx) = 32" "length (l ! (idx XOR 1)) = 32"
    using Suc.prems(4) path level_ok_nth [OF Suc.prems(1,2)] level_ok_nth [OF Suc.prems(1) sibling_less [OF Suc.prems(2)]]
    by simp_all
  have ins: "verify_inputs path (int idx) h = ?x # verify_inputs rest (int (idx div 2)) (sha256 ?x)"
    by (simp add: path Let_def)
  have "verify_loop rest (int (idx div 2)) (sha256 ?x) = build_levels n (parent_level l) ! 0 ! 0"
    using Suc.prems(6) by (simp add: path top_of_levels hashPair_def del: build_levels.simps split: if_splits)
  then have "sha256 ?x = parent_level l ! (idx div 2)
      \<or> collides (verify_inputs rest (int (idx div 2)) (sha256 ?x)) (level_inputs n (parent_level l))"
    by (intro Suc.IH [OF level_ok_parent [OF Suc.prems(1)]]) (use Suc.prems(2,4) path in auto)
  then show ?case
  proof
    assume eq: "sha256 ?x = parent_level l ! (idx div 2)"
    show ?thesis
    proof (cases "?x = node_pair l idx")
      case True
      then show ?thesis using len Suc.prems(5) by (auto simp: node_pair_def split: if_splits)
    next
      case False
      then have "sha256_collision ?x (node_pair l idx)" using eq pair(1) by (simp add: sha256_collision_def)
      then show ?thesis unfolding collides_def ins using pair(2) by (metis list.set_intros(1))
    qed
  next
    assume "collides (verify_inputs rest (int (idx div 2)) (sha256 ?x)) (level_inputs n (parent_level l))"
    then have "collides (verify_inputs path (int idx) h) (level_inputs (Suc n) l)"
      by (rule collides_mono) (auto simp: ins)
    then show ?thesis ..
  qed
qed auto

subsection \<open>Leaves\<close>

lemma leaf_hashes_keep:
  "leaf_hashes srs ls = Inr ls' \<Longrightarrow> length ls' = length ls"
  "leaf_hashes srs ls = Inr ls' \<Longrightarrow> int i \<notin> sr_Index ` set srs \<Longrightarrow> ls' ! i = ls ! i"
  by (induction srs ls rule: leaf_hashes.induct) (auto split: if_splits)

lemma leaf_hashes_length:
  "leaf_hashes srs ls = Inr ls' \<Longrightarrow> (\<And>h. h \<in> set ls \<Longrightarrow> length h = 32) \<Longrightarrow> h \<in> set ls' \<Longrightarrow> length h = 32"
proof (induction srs ls arbitrary: h rule: leaf_hashes.induct)
  case (2 sr srs ls)
  have "length h = 32" if "h \<in> set (ls[nat (sr_Index sr) := sha256 (sr_Data sr)])" for h
    using that "2.prems"(2) set_update_subset_insert [of ls "nat (sr_Index sr)" "sha256 (sr_Data sr)"] by auto
  with "2.IH" "2.prems"(1,3) show ?case by (auto split: if_splits)
qed simp

lemma leaf_hashes_nth:
  assumes "leaf_hashes srs ls = Inr ls'" "distinct (map sr_Index srs)" "sr \<in> set srs" "length ls = 16"
  shows "0 \<le> sr_Index sr \<and> sr_Index sr < 16 \<and> ls' ! nat (sr_Index sr) = sha256 (sr_Data sr)"
  using assms
proof (induction srs ls rule: leaf_hashes.induct)
  case (2 x srs ls)
  let ?ls = "ls[nat (sr_Index x) := sha256 (sr_Data x)]"
  have ok: "0 \<le> sr_Index x" "sr_Index x < 16" and rest: "leaf_hashes srs ?ls = Inr ls'"
    using "2.prems"(1) by (auto simp: erasure_params split: if_splits)
  show ?case
  proof (cases "sr = x")
    case True
    have "ls' ! nat (sr_Index x) = ?ls ! nat (sr_Index x)"
      by (rule leaf_hashes_keep(2) [OF rest]) (use "2.prems"(2) ok in auto)
    with True ok "2.prems"(4) show ?thesis by simp
  next
    case False
    then show ?thesis using "2.IH" [OF _ rest] "2.prems" ok by (auto simp: erasure_params)
  qed
qed simp

lemma log2_16: "log2 16 = Inr 4"
proof -
  have "(16 :: nat) AND 15 = 0" by simp
  moreover have "log2_loop 16 = 4" by (simp add: log2_loop.simps)
  ultimately show ?thesis by (simp add: log2_def)
qed

lemma BuildMerkleTree_Inr:
  assumes "BuildMerkleTree shards = Inr t"
  obtains leaves where "leaf_hashes shards (replicate 16 (replicate 32 CHR 0x00)) = Inr leaves" "level_ok 4 leaves"
    "t = \<lparr>mt_nodes = build_levels 4 leaves, mt_depth = 4, mt_numLeaves = 16\<rparr>" "length shards = 16"
proof -
  obtain leaves where l: "leaf_hashes shards (replicate 16 (replicate 32 CHR 0x00)) = Inr leaves" "length shards = 16"
    "t = \<lparr>mt_nodes = build_levels 4 leaves, mt_depth = 4, mt_numLeaves = 16\<rparr>"
    using assms by (auto simp: BuildMerkleTree_def erasure_params log2_16 split: if_splits sum.splits)
  have "level_ok 4 leaves"
    using leaf_hashes_keep(1) [OF l(1)] leaf_hashes_length [OF l(1)] by (auto simp: level_ok_def)
  with l that show thesis by blast
qed

lemma indices_complete:
  assumes "distinct (map sr_Index srs)" "length srs = 16" "\<forall>sr \<in> set srs. 0 \<le> sr_Index sr \<and> sr_Index sr < 16" "0 \<le> i" "i < 16"
  shows "\<exists>sr \<in> set srs. sr_Index sr = i"
proof -
  have "card (sr_Index ` set srs) = 16" using distinct_card [OF assms(1)] assms(2) by simp
  moreover have "sr_Index ` set srs \<subseteq> {0..<16}" using assms(3) by auto
  ultimately have "sr_Index ` set srs = {0..<16}" by (intro card_subset_eq) simp_all
  then have "i \<in> sr_Index ` set srs" using assms(4,5) by simp
  then show ?thesis by auto
qed

subsection \<open>Proofs of a tree\<close>

lemma proof_loop_length [simp]: "length (proof_loop ns n i) = n"
  by (induction n arbitrary: i) simp_all

lemma proof_loop_hashes:
  "level_ok n l \<Longrightarrow> i < 2 ^ n \<Longrightarrow> h \<in> set (proof_loop (build_levels n l) n i) \<Longrightarrow> length h = 32"
proof (induction n arbitrary: l i)
  case (Suc n)
  have "i div 2 < 2 ^ n" using Suc.prems(2) by auto
  then show ?case
    using Suc.IH [OF level_ok_parent [OF Suc.prems(1)], of "i div 2"] Suc.prems(3)
      level_ok_nth [OF Suc.prems(1) sibling_less [OF Suc.prems(2)]]
    by (auto simp: proof_loop_append nth_append)
qed simp

lemma level_root: "level_ok n l \<Longrightarrow> length (build_levels n l ! 0 ! 0) = 32"
proof (induction n arbitrary: l)
  case (Suc n)
  then show ?case using level_ok_parent by (simp add: top_of_levels del: build_levels.simps)
qed (simp add: level_ok_def)

lemma tree_proof:
  assumes "BuildMerkleTree shards = Inr t" "distinct (map sr_Index shards)" "sr \<in> set shards"
  obtains p where "ProofForShard t (sr_Index sr) = Inr p" "mp_LeafIndex p = sr_Index sr"
    "VerifyProof (Root t) (sr_Index sr) (sr_Data sr) (Some p) = None"
    "length (mp_Path p) = 4" "\<forall>h \<in> set (mp_Path p). length h = 32" "0 \<le> sr_Index sr" "sr_Index sr < 16" "length (Root t) = 32"
proof -
  obtain leaves where l: "leaf_hashes shards (replicate 16 (replicate 32 CHR 0x00)) = Inr leaves" "level_ok 4 leaves"
    and t: "t = \<lparr>mt_nodes = build_levels 4 leaves, mt_depth = 4, mt_numLeaves = 16\<rparr>"
    by (rule BuildMerkleTree_Inr [OF assms(1)])
  let ?p = "\<lparr>mp_LeafIndex = sr_Index sr, mp_Path = proof_loop (build_levels 4 leaves) 4 (nat (sr_Index sr))\<rparr>"
  have i: "0 \<le> sr_Index sr" "sr_Index sr < 16" and h: "leaves ! nat (sr_Index sr) = sha256 (sr_Data sr)"
    using leaf_hashes_nth [OF l(1) assms(2,3)] by simp_all
  have "verify_loop (mp_Path ?p) (sr_Index sr) (sha256 (sr_Data sr)) = Root t"
    using verify_complete [OF l(2), of "nat (sr_Index sr)"] i h by (simp add: Root_def t)
  then have "VerifyProof (Root t) (sr_Index sr) (sr_Data sr) (Some ?p) = None" by (simp add: VerifyProof_def)
  moreover have "ProofForShard t (sr_Index sr) = Inr ?p" using i by (simp add: ProofForShard_def t)
  moreover have "\<forall>h \<in> set (mp_Path ?p). length h = 32" using proof_loop_hashes [OF l(2), of "nat (sr_Index sr)"] i by auto
  moreover have "length (Root t) = 32" using level_root [OF l(2)] by (simp add: Root_def t)
  ultimately show thesis using i by (intro that [of ?p]) simp_all
qed

subsection \<open>Properties\<close>

text \<open>
  Every shard can be proved: for the tree built over shards with different indices,
  the proof for each shard exists and verifies the shard's data against the root.
\<close>

theorem merkle_proof_complete:
  assumes "BuildMerkleTree shards = Inr t" and "distinct (map sr_Index shards)" and "sr \<in> set shards"
  shows "\<exists>p. ProofForShard t (sr_Index sr) = Inr p \<and> VerifyProof (Root t) (sr_Index sr) (sr_Data sr) (Some p) = None"
  by (rule tree_proof [OF assms]) blast

text \<open>
  C14. No other data can be proved: if data verify at a valid index with a path of tree
  depth against the root of such a tree, then they are the data of the shard with that
  index, or one of the strings hashed by the verification collides under SHA-256 with one
  of the strings hashed to build the tree.
\<close>

theorem merkle_proof_sound:
  assumes "BuildMerkleTree shards = Inr t" and "distinct (map sr_Index shards)" and "0 \<le> i" and "i < 16"
    and "length (mp_Path p) = 4" and "\<forall>h \<in> set (mp_Path p). length h = 32"
    and "VerifyProof (Root t) i data (Some p) = None"
  shows "(\<exists>sr \<in> set shards. sr_Index sr = i \<and> sr_Data sr = data)
    \<or> collides (data # verify_inputs (mp_Path p) i (sha256 data)) (tree_inputs shards t)"
proof -
  obtain leaves where l: "leaf_hashes shards (replicate 16 (replicate 32 CHR 0x00)) = Inr leaves" "level_ok 4 leaves"
    and t: "t = \<lparr>mt_nodes = build_levels 4 leaves, mt_depth = 4, mt_numLeaves = 16\<rparr>" and len: "length shards = 16"
    by (rule BuildMerkleTree_Inr [OF assms(1)])
  have ti: "tree_inputs shards t = map sr_Data shards @ level_inputs 4 leaves"
    by (simp add: tree_inputs_def t del: level_inputs.simps)
  note leaf = leaf_hashes_nth [OF l(1) assms(2)]
  obtain sr where sr: "sr \<in> set shards" "sr_Index sr = i"
    using indices_complete [OF assms(2) len _ assms(3,4)] leaf by auto
  have h: "leaves ! nat i = sha256 (sr_Data sr)" using leaf [OF sr(1)] sr(2) by simp
  have "verify_loop (mp_Path p) i (sha256 data) = build_levels 4 leaves ! 0 ! 0"
    using assms(7) by (auto simp: VerifyProof_def Root_def t split: if_splits)
  then have "sha256 data = leaves ! nat i \<or> collides (verify_inputs (mp_Path p) i (sha256 data)) (level_inputs 4 leaves)"
    using verify_sound [OF l(2) _ assms(5,6), of "nat i" "sha256 data"] assms(3,4) by simp
  then show ?thesis
  proof
    assume "sha256 data = leaves ! nat i"
    then have "sr_Data sr = data \<or> sha256_collision data (sr_Data sr)" using h by (auto simp: sha256_collision_def)
    then show ?thesis using sr by (auto simp: collides_def ti)
  next
    assume "collides (verify_inputs (mp_Path p) i (sha256 data)) (level_inputs 4 leaves)"
    then have "collides (data # verify_inputs (mp_Path p) i (sha256 data)) (tree_inputs shards t)"
      by (rule collides_mono) (auto simp: ti)
    then show ?thesis ..
  qed
qed

subsection \<open>Concrete trees\<close>

definition example_shards :: "ShardResult list" where
  "example_shards = map (\<lambda>i. \<lparr>sr_Index = int i, sr_Data = replicate (Suc i) CHR ''x''\<rparr>) [0..<16]"

lemma example_shards_ok: "distinct (map sr_Index example_shards)" "length example_shards = 16"
  by (simp_all add: example_shards_def o_def distinct_map inj_on_def)

lemma leaf_hashes_total:
  "\<forall>sr \<in> set srs. 0 \<le> sr_Index sr \<and> sr_Index sr < 16 \<Longrightarrow> \<exists>ls'. leaf_hashes srs ls = Inr ls'"
  by (induction srs ls rule: leaf_hashes.induct) (auto simp: erasure_params)

lemma example_tree: "\<exists>t. BuildMerkleTree example_shards = Inr t"
proof -
  obtain ls where "leaf_hashes example_shards (replicate 16 (replicate 32 CHR 0x00)) = Inr ls"
    using leaf_hashes_total [of example_shards] by (auto simp: example_shards_def)
  then show ?thesis using example_shards_ok(2) by (simp add: BuildMerkleTree_def erasure_params log2_16)
qed

theorem merkle_proof_complete_witness:
  "\<exists>t p. BuildMerkleTree example_shards = Inr t \<and> ProofForShard t 5 = Inr p
    \<and> VerifyProof (Root t) 5 ''xxxxxx'' (Some p) = None"
proof -
  obtain t where t: "BuildMerkleTree example_shards = Inr t" using example_tree by blast
  have "\<lparr>sr_Index = 5, sr_Data = ''xxxxxx''\<rparr> \<in> set example_shards"
    by (simp add: example_shards_def upt_rec numeral_eq_Suc)
  from merkle_proof_complete [OF t example_shards_ok(1) this] t show ?thesis by auto
qed

text \<open>the honest proof of shard 5 satisfies the hypotheses of soundness\<close>

lemma example_proof:
  assumes "BuildMerkleTree example_shards = Inr t"
  shows "\<exists>p. length (mp_Path p) = 4 \<and> (\<forall>h \<in> set (mp_Path p). length h = 32) \<and> VerifyProof (Root t) 5 ''xxxxxx'' (Some p) = None"
proof -
  have m: "\<lparr>sr_Index = 5, sr_Data = ''xxxxxx''\<rparr> \<in> set example_shards"
    by (simp add: example_shards_def upt_rec numeral_eq_Suc)
  from tree_proof [OF assms example_shards_ok(1) m] show ?thesis by auto
qed

theorem merkle_proof_sound_witness:
  "\<exists>t p. BuildMerkleTree example_shards = Inr t \<and> VerifyProof (Root t) 5 ''xxxxxx'' (Some p) = None
    \<and> ((\<exists>sr \<in> set example_shards. sr_Index sr = 5 \<and> sr_Data sr = ''xxxxxx'')
      \<or> collides (''xxxxxx'' # verify_inputs (mp_Path p) 5 (sha256 ''xxxxxx'')) (tree_inputs example_shards t))"
proof -
  obtain t where t: "BuildMerkleTree example_shards = Inr t" using example_tree by blast
  obtain p where p: "length (mp_Path p) = 4" "\<forall>h \<in> set (mp_Path p). length h = 32"
    "VerifyProof (Root t) 5 ''xxxxxx'' (Some p) = None" using example_proof [OF t] by blast
  have "(\<exists>sr \<in> set example_shards. sr_Index sr = 5 \<and> sr_Data sr = ''xxxxxx'')
      \<or> collides (''xxxxxx'' # verify_inputs (mp_Path p) 5 (sha256 ''xxxxxx'')) (tree_inputs example_shards t)"
    by (rule merkle_proof_sound [OF t example_shards_ok(1) _ _ p]) simp_all
  with t p(3) show ?thesis by blast
qed

end
