(* ===== verification/Shards.thy ===== *)
theory Shards
  imports Merkle Hex KVStore
begin

section \<open>The shard files of a node\<close>

text \<open>
  \<open>x/privacy/tfhe/shard_store.go\<close>: a node keeps the shards it is responsible for in files
  \<open><base>/<hex(commitment)>/<index>.shard\<close> and their signatures in \<open>.sig\<close> files beside them.
  The disk is the list of the files by path; what the operating system permits is given by
  four predicates on paths. Directories only exist through the files below them, and
  \<open>baseDir\<close> is a cleaned path.
\<close>

record ShardStore =
  ss_baseDir :: string
  ss_files :: "string kv"
  ss_mkdir_ok :: "string \<Rightarrow> bool"
  ss_write_ok :: "string \<Rightarrow> bool"
  ss_readdir_ok :: "string \<Rightarrow> bool"
  ss_remove_ok :: "string \<Rightarrow> bool"

text \<open>\<open>filepath.Join\<close> drops empty elements.\<close>

definition path_join :: "string \<Rightarrow> string \<Rightarrow> string" where
  "path_join a b = (if b = [] then a else a @ CHR ''/'' # b)"

text \<open>\<open>%02d\<close>\<close>

definition pad2 :: "int \<Rightarrow> string" where
  "pad2 i = (let s = int_dec i in if length s < 2 then CHR ''0'' # s else s)"

definition NewShardStore :: "ShardStore \<Rightarrow> terr + ShardStore" where
  "NewShardStore s = (if \<not> ss_mkdir_ok s (ss_baseDir s) then Inl (Errf ''shard_store: failed to create base dir'') else Inr s)"

definition shardDir :: "ShardStore \<Rightarrow> string \<Rightarrow> string" where
  "shardDir s commitmentHash = path_join (ss_baseDir s) (hex_EncodeToString commitmentHash)"

definition shardPath :: "ShardStore \<Rightarrow> string \<Rightarrow> int \<Rightarrow> string" where
  "shardPath s commitmentHash shardIndex = path_join (shardDir s commitmentHash) (pad2 shardIndex @ ''.shard'')"

definition StoreShard :: "ShardStore \<Rightarrow> string \<Rightarrow> int \<Rightarrow> string \<Rightarrow> terr option \<times> ShardStore" where
  "StoreShard s commitmentHash shardIndex data =
     (if commitmentHash = [] then (Some (Errf ''shard_store: commitmentHash must not be empty''), s)
      else if shardIndex < 0 \<or> shardIndex \<ge> int ErasureTotalShards then (Some (Errf ''shard_store: invalid shard index''), s)
      else if data = [] then (Some (Errf ''shard_store: shard data must not be empty''), s)
      else if \<not> ss_mkdir_ok s (shardDir s commitmentHash) then (Some (Errf ''shard_store: failed to create shard directory''), s)
      else let path = shardPath s commitmentHash shardIndex in
        if \<not> ss_write_ok s path then (Some (Errf ''shard_store: failed to write shard''), s)
        else (None, s\<lparr>ss_files := kv_set path data (ss_files s)\<rparr>))"

definition LoadShard :: "ShardStore \<Rightarrow> string \<Rightarrow> int \<Rightarrow> string option" where
  "LoadShard s commitmentHash shardIndex = kv_get (ss_files s) (shardPath s commitmentHash shardIndex)"

definition HasShard :: "ShardStore \<Rightarrow> string \<Rightarrow> int \<Rightarrow> bool" where
  "HasShard s commitmentHash shardIndex = kv_has (ss_files s) (shardPath s commitmentHash shardIndex)"

text \<open>\<open>os.RemoveAll\<close> removes the path and everything below it.\<close>

definition DeleteShards :: "ShardStore \<Rightarrow> string \<Rightarrow> terr option \<times> ShardStore" where
  "DeleteShards s commitmentHash =
     (let dir = shardDir s commitmentHash in
      if \<not> ss_remove_ok s dir then (Some (Errf ''shard_store: failed to delete shards''), s)
      else (None, s\<lparr>ss_files := filter (\<lambda>e. fst e \<noteq> dir \<and> \<not> prefix (dir @ ''/'') (fst e)) (ss_files s)\<rparr>))"

text \<open>
  \<open>fmt.Sscanf(name, "%02d.shard", &idx)\<close>: an optional sign and digits, two characters at
  most, then the literal; what follows is not read. Names do not start with blanks.
\<close>

fun scan_digits :: "nat \<Rightarrow> string \<Rightarrow> string \<times> string" where
  "scan_digits (Suc n) (c # cs) =
     (if 48 \<le> (of_char c :: nat) \<and> (of_char c :: nat) \<le> 57
      then (let (ds, r) = scan_digits n cs in (c # ds, r)) else ([], c # cs))"
| "scan_digits _ cs = ([], cs)"

definition sscanf_shard :: "string \<Rightarrow> int option" where
  "sscanf_shard name =
     (let (neg, w, r) = (case name of
            [] \<Rightarrow> (False, 2, [])
          | c # cs \<Rightarrow> if c = CHR ''-'' then (True, 1, cs) else if c = CHR ''+'' then (False, 1, cs) else (False, 2, name));
          (ds, rest) = scan_digits w r
      in if ds = [] \<or> \<not> prefix ''.shard'' rest then None
         else Some (if neg then - int (dec_value ds) else int (dec_value ds)))"

text \<open>the names of the files directly below a directory, in order\<close>

definition dir_entries :: "ShardStore \<Rightarrow> string \<Rightarrow> string list" where
  "dir_entries s dir = map (\<lambda>e. drop (Suc (length dir)) (fst e))
     (filter (\<lambda>e. prefix (dir @ ''/'') (fst e) \<and> CHR ''/'' \<notin> set (drop (Suc (length dir)) (fst e))) (ss_files s))"

definition ListLocalShards :: "ShardStore \<Rightarrow> string \<Rightarrow> terr + int list" where
  "ListLocalShards s commitmentHash =
     (let dir = shardDir s commitmentHash in
      if \<not> ss_readdir_ok s dir then Inl (Errf ''shard_store: failed to list shards'')
      else Inr (List.map_filter sscanf_shard (dir_entries s dir)))"

definition signaturePath :: "ShardStore \<Rightarrow> string \<Rightarrow> int \<Rightarrow> string" where
  "signaturePath s commitmentHash shardIndex = path_join (shardDir s commitmentHash) (pad2 shardIndex @ ''.sig'')"

definition StoreShardSignature :: "ShardStore \<Rightarrow> string \<Rightarrow> int \<Rightarrow> string \<Rightarrow> terr option \<times> ShardStore" where
  "StoreShardSignature s commitmentHash shardIndex sig =
     (if sig = [] then (None, s)
      else if \<not> ss_mkdir_ok s (shardDir s commitmentHash)
      then (Some (Errf ''shard_store: failed to create shard directory for signature''), s)
      else let path = signaturePath s commitmentHash shardIndex in
        if \<not> ss_write_ok s path then (Some (Errf ''shard_store: failed to write signature''), s)
        else (None, s\<lparr>ss_files := kv_set path sig (ss_files s)\<rparr>))"

definition LoadShardSignature :: "ShardStore \<Rightarrow> string \<Rightarrow> int \<Rightarrow> string option" where
  "LoadShardSignature s commitmentHash shardIndex = kv_get (ss_files s) (signaturePath s commitmentHash shardIndex)"

definition ReplicationFactor :: nat where
  "ReplicationFactor = 4"

subsection \<open>Paths are unambiguous\<close>

lemma pad2_small: "0 \<le> i \<Longrightarrow> i < 16 \<Longrightarrow> pad2 i = (if i < 10 then [CHR ''0'', digit_char (nat i)] else [CHR ''1'', digit_char (nat i - 10)])"
proof -
  assume i: "0 \<le> i" "i < 16"
  have two: "n div 10 = 1 \<and> n mod 10 = n - 10" if "10 \<le> n" "n < 16" for n :: nat
    using that by (simp add: le_div_geq le_mod_geq)
  have one: "char_of (49 :: nat) = CHR ''1''" by code_simp
  show ?thesis
    using i two [of "nat i"] one by (auto simp: pad2_def int_dec_def nat_dec.simps digit_char_def)
qed

lemma slash_notin_pad2 [simp]: "CHR ''/'' \<notin> set (pad2 i)"
  by (auto simp: pad2_def Let_def)

lemma pad2_inj:
  assumes "0 \<le> i" "i < 16" "0 \<le> j" "j < 16"
  shows "pad2 i = pad2 j \<longleftrightarrow> i = j"
proof
  assume "pad2 i = pad2 j"
  then have "dec_value (pad2 i) = dec_value (pad2 j)" by simp
  moreover have "dec_value (pad2 k) = nat k" if "0 \<le> k" "k < 16" for k
    using that by (auto simp: pad2_small dec_value_def of_digit_char digit_char_def)
  ultimately show "i = j" using assms by simp
qed simp

lemma join_eq:
  assumes "CHR ''/'' \<notin> set b" "CHR ''/'' \<notin> set b'" "b \<noteq> []" "b' \<noteq> []"
  shows "path_join a b = path_join a' b' \<longleftrightarrow> a = a' \<and> b = b'"
  using assms by (simp add: path_join_def append_sep_eq)

lemma shardDir_eq [simp]:
  "c \<noteq> [] \<Longrightarrow> c' \<noteq> [] \<Longrightarrow> shardDir s c = shardDir s c' \<longleftrightarrow> c = c'"
  by (simp add: shardDir_def join_eq hex_EncodeToString_inj)

lemma shardPath_eq:
  assumes "c \<noteq> []" "c' \<noteq> []" "0 \<le> i" "i < 16" "0 \<le> j" "j < 16"
  shows "shardPath s c i = shardPath s c' j \<longleftrightarrow> c = c' \<and> i = j"
  using assms by (simp add: shardPath_def join_eq pad2_inj)

lemma shard_signature_path [simp]: "shardPath s c i \<noteq> signaturePath s c' j"
proof -
  have "last (pad2 i @ ''.shard'') \<noteq> last (pad2 j @ ''.sig'')" by simp
  then have "pad2 i @ ''.shard'' \<noteq> pad2 j @ ''.sig''" by metis
  then show ?thesis by (simp add: shardPath_def signaturePath_def join_eq)
qed

lemma signaturePath_eq:
  assumes "c \<noteq> []" "c' \<noteq> []" "0 \<le> i" "i < 16" "0 \<le> j" "j < 16"
  shows "signaturePath s c i = signaturePath s c' j \<longleftrightarrow> c = c' \<and> i = j"
  using assms by (simp add: signaturePath_def join_eq pad2_inj)

lemma path_update [simp]:
  "shardDir (s\<lparr>ss_files := f\<rparr>) = shardDir s"
  "shardPath (s\<lparr>ss_files := f\<rparr>) = shardPath s"
  "signaturePath (s\<lparr>ss_files := f\<rparr>) = signaturePath s"
  by (simp_all add: shardDir_def shardPath_def signaturePath_def fun_eq_iff)

subsection \<open>The files a node holds\<close>

text \<open>every file is a shard or a signature of a valid index below a commitment's directory\<close>

definition shard_files_ok :: "ShardStore \<Rightarrow> bool" where
  "shard_files_ok s \<longleftrightarrow> kv_inv (ss_files s) \<and>
     (\<forall>e \<in> set (ss_files s). \<exists>c i. c \<noteq> [] \<and> 0 \<le> i \<and> i < 16 \<and> (fst e = shardPath s c i \<or> fst e = signaturePath s c i))"

lemma scan_names:
  assumes "0 \<le> i" "i < 16"
  shows "sscanf_shard (pad2 i @ ''.shard'') = Some i" "sscanf_shard (pad2 i @ ''.sig'') = None"
proof -
  have "list_all (\<lambda>i. sscanf_shard (pad2 i @ ''.shard'') = Some i \<and> sscanf_shard (pad2 i @ ''.sig'') = None) [0..15]"
    by code_simp
  then show "sscanf_shard (pad2 i @ ''.shard'') = Some i" "sscanf_shard (pad2 i @ ''.sig'') = None"
    using assms by (auto simp: list_all_iff)
qed

lemma shard_files_ok_set:
  assumes "shard_files_ok s" "c \<noteq> []" "0 \<le> i" "i < 16" "p = shardPath s c i \<or> p = signaturePath s c i"
  shows "shard_files_ok (s\<lparr>ss_files := kv_set p v (ss_files s)\<rparr>)"
proof -
  have "\<exists>c i. c \<noteq> [] \<and> 0 \<le> i \<and> i < 16 \<and> (fst e = shardPath s c i \<or> fst e = signaturePath s c i)"
    if "e \<in> set (kv_set p v (ss_files s))" for e
  proof (cases "e = (p, v)")
    case True
    with assms(2-5) show ?thesis by (metis fst_conv)
  next
    case False
    then have "e \<in> set (ss_files s)" using that set_kv_set [of p v "ss_files s"] by blast
    with assms(1) show ?thesis unfolding shard_files_ok_def by blast
  qed
  with assms(1) show ?thesis by (simp add: shard_files_ok_def)
qed

lemma StoreShard_None:
  "StoreShard s c i d = (None, s') \<longleftrightarrow> c \<noteq> [] \<and> 0 \<le> i \<and> i < 16 \<and> d \<noteq> [] \<and> ss_mkdir_ok s (shardDir s c)
     \<and> ss_write_ok s (shardPath s c i) \<and> s' = s\<lparr>ss_files := kv_set (shardPath s c i) d (ss_files s)\<rparr>"
  by (auto simp: StoreShard_def Let_def erasure_params)

lemma StoreShard_keeps:
  assumes "shard_files_ok s"
  shows "shard_files_ok (snd (StoreShard s c i d))"
proof (cases "fst (StoreShard s c i d)")
  case None
  then have "StoreShard s c i d = (None, snd (StoreShard s c i d))" by (metis prod.collapse)
  then show ?thesis unfolding StoreShard_None using shard_files_ok_set [OF assms] by metis
next
  case (Some e)
  then show ?thesis using assms by (auto simp: StoreShard_def Let_def split: if_splits)
qed

lemma StoreShardSignature_keeps:
  assumes "shard_files_ok s" "c \<noteq> []" "0 \<le> i" "i < 16"
  shows "shard_files_ok (snd (StoreShardSignature s c i d))"
  using assms shard_files_ok_set [OF assms, of "signaturePath s c i" d]
  by (auto simp: StoreShardSignature_def Let_def)

lemma DeleteShards_keeps: "shard_files_ok s \<Longrightarrow> shard_files_ok (snd (DeleteShards s c))"
  by (auto simp: DeleteShards_def Let_def shard_files_ok_def)

lemma entry_name:
  assumes "c \<noteq> []" "c' \<noteq> []" "CHR ''/'' \<notin> set nm" "nm \<noteq> []"
    "prefix (shardDir s c @ ''/'') p" "CHR ''/'' \<notin> set (drop (Suc (length (shardDir s c))) p)" "p = path_join (shardDir s c') nm"
  shows "c' = c \<and> drop (Suc (length (shardDir s c))) p = nm"
proof -
  obtain r where r: "p = shardDir s c @ CHR ''/'' # r" using assms(5) by (auto simp: prefix_def)
  then have "CHR ''/'' \<notin> set r" using assms(6) by simp
  with assms(3,4,7) r have "shardDir s c = shardDir s c' \<and> r = nm" by (simp add: path_join_def append_sep_eq)
  with r assms(1,2) show ?thesis by auto
qed

lemma listed_iff:
  assumes ok: "shard_files_ok s" and c: "c \<noteq> []"
  shows "i \<in> set (List.map_filter sscanf_shard (dir_entries s (shardDir s c))) \<longleftrightarrow> 0 \<le> i \<and> i < 16 \<and> HasShard s c i"
proof
  assume "i \<in> set (List.map_filter sscanf_shard (dir_entries s (shardDir s c)))"
  then obtain e where e: "e \<in> set (ss_files s)" "prefix (shardDir s c @ ''/'') (fst e)"
      "CHR ''/'' \<notin> set (drop (Suc (length (shardDir s c))) (fst e))" and
      sc: "sscanf_shard (drop (Suc (length (shardDir s c))) (fst e)) = Some i"
    by (auto simp: map_filter_def dir_entries_def)
  obtain c' j where c': "c' \<noteq> []" "0 \<le> j" "j < 16" "fst e = shardPath s c' j \<or> fst e = signaturePath s c' j"
    using ok e(1) unfolding shard_files_ok_def by blast
  from c'(4) have "fst e = shardPath s c i \<and> 0 \<le> i \<and> i < 16"
  proof
    assume p: "fst e = shardPath s c' j"
    from entry_name [OF c c'(1) _ _ e(2,3), of "pad2 j @ ''.shard''"] p sc scan_names [OF c'(2,3)] c'
    show ?thesis by (auto simp: shardPath_def)
  next
    assume p: "fst e = signaturePath s c' j"
    from entry_name [OF c c'(1) _ _ e(2,3), of "pad2 j @ ''.sig''"] p sc scan_names [OF c'(2,3)]
    show ?thesis by (auto simp: signaturePath_def)
  qed
  then show "0 \<le> i \<and> i < 16 \<and> HasShard s c i"
    using ok e(1) kv_get_mem [of "ss_files s" "fst e" "snd e"]
    by (cases e) (auto simp: HasShard_def kv_has_def shard_files_ok_def)
next
  assume i: "0 \<le> i \<and> i < 16 \<and> HasShard s c i"
  then obtain v where "kv_get (ss_files s) (shardPath s c i) = Some v" by (auto simp: HasShard_def kv_has_def)
  then have m: "(shardPath s c i, v) \<in> set (ss_files s)" using ok by (simp add: kv_get_mem shard_files_ok_def)
  have p: "shardPath s c i = (shardDir s c @ ''/'') @ (pad2 i @ ''.shard'')" by (simp add: shardPath_def path_join_def)
  then have "pad2 i @ ''.shard'' \<in> set (dir_entries s (shardDir s c))"
    unfolding dir_entries_def set_map
    by (intro image_eqI [where x = "(shardPath s c i, v)"]) (use m in \<open>auto simp: prefix_def\<close>)
  then show "i \<in> set (List.map_filter sscanf_shard (dir_entries s (shardDir s c)))"
    using scan_names(1) [of i] i by (force simp: map_filter_def)
qed

text \<open>
  What is stored is found: after a shard is stored under a commitment and an index, it
  is loaded back and listed there, and every other shard and every signature of the node
  reads as before.
\<close>

theorem StoreShard_roundtrip:
  assumes "shard_files_ok s" and "StoreShard s c i d = (None, s')"
    and "c' \<noteq> []" and "0 \<le> j" and "j < 16"
  shows "LoadShard s' c i = Some d \<and> HasShard s' c i
    \<and> LoadShard s' c' j = (if c' = c \<and> j = i then Some d else LoadShard s c' j)
    \<and> LoadShardSignature s' c' j = LoadShardSignature s c' j
    \<and> (ss_readdir_ok s (shardDir s c') \<longrightarrow> (\<exists>is. ListLocalShards s' c' = Inr is \<and> set is = {k. 0 \<le> k \<and> k < 16 \<and> HasShard s' c' k}))"
proof -
  have st: "c \<noteq> []" "0 \<le> i" "i < 16" "s' = s\<lparr>ss_files := kv_set (shardPath s c i) d (ss_files s)\<rparr>"
    using assms(2) by (simp_all add: StoreShard_None)
  have ok: "shard_files_ok s'" using StoreShard_keeps [OF assms(1), of c i d] assms(2) by simp
  have "LoadShard s' c' j = (if c' = c \<and> j = i then Some d else LoadShard s c' j)"
    using shardPath_eq [OF assms(3) st(1) assms(4,5) st(2,3)] by (auto simp: LoadShard_def st(4) kv_simps)
  moreover have "LoadShardSignature s' c' j = LoadShardSignature s c' j"
    using shard_signature_path [of s c i c' j, symmetric] by (simp add: LoadShardSignature_def st(4) kv_simps)
  moreover have "LoadShard s' c i = Some d \<and> HasShard s' c i" by (simp add: LoadShard_def HasShard_def kv_has_def st(4) kv_simps)
  moreover have "\<exists>is. ListLocalShards s' c' = Inr is \<and> set is = {k. 0 \<le> k \<and> k < 16 \<and> HasShard s' c' k}"
    if "ss_readdir_ok s (shardDir s c')"
    using that listed_iff [OF ok assms(3)] by (auto simp: ListLocalShards_def st(4))
  ultimately show ?thesis by blast
qed

definition store0 :: ShardStore where
  "store0 = \<lparr>ss_baseDir = ''/shards'', ss_files = [], ss_mkdir_ok = (\<lambda>_. True), ss_write_ok = (\<lambda>_. True),
     ss_readdir_ok = (\<lambda>_. True), ss_remove_ok = (\<lambda>_. True)\<rparr>"

lemma store0_ok: "shard_files_ok store0"
  by (simp add: shard_files_ok_def store0_def)

theorem StoreShard_roundtrip_witness:
  "\<exists>s'. StoreShard store0 ''h'' 3 ''data'' = (None, s') \<and> LoadShard s' ''h'' 3 = Some ''data''"
proof -
  obtain s' where s': "StoreShard store0 ''h'' 3 ''data'' = (None, s')" by (simp add: StoreShard_None) (simp add: store0_def)
  from StoreShard_roundtrip [OF store0_ok s', of "''h''" 3] s' show ?thesis by simp
qed

end
