(* ===== verification/Distributor.thy ===== *)
theory Distributor
  imports Shards Pqc
begin

section \<open>Distribution of shards between nodes\<close>

text \<open>
  \<open>x/privacy/tfhe/shard_distributor.go\<close>: the rate limiter, the HTTP endpoint that takes
  and serves shards, the placement of the shards of a ciphertext on the nodes of the
  cluster, and the reconstruction from local and remote shards.

  A handler is a function of the request and the node's state to the response and the new
  state; the mutexes make each of its steps atomic. The wall clock is the argument \<open>now\<close>,
  in nanoseconds. The network is a function from the peer and the request to the response,
  \<open>None\<close> when there is none; the environment variables are the function \<open>getenv\<close>. \<open>J\<close> is
  \<open>json.Unmarshal\<close> into a \<open>ShardUpload\<close>; what is used of it is \<open>json_laws\<close>.
\<close>

subsection \<open>Rate limiter\<close>

record rateBucket =
  rb_count :: int
  rb_resetAt :: int

record ShardRateLimiter =
  rl_clients :: "rateBucket kv"
  rl_maxRequests :: int
  rl_window :: int

definition NewShardRateLimiter :: "int \<Rightarrow> int \<Rightarrow> ShardRateLimiter" where
  "NewShardRateLimiter maxRequests window = \<lparr>rl_clients = kv_empty, rl_maxRequests = maxRequests, rl_window = window\<rparr>"

definition Allow :: "int \<Rightarrow> string \<Rightarrow> ShardRateLimiter \<Rightarrow> bool \<times> ShardRateLimiter" where
  "Allow now key r = (case kv_get (rl_clients r) key of
     None \<Rightarrow> (True, r\<lparr>rl_clients := kv_set key \<lparr>rb_count = 1, rb_resetAt = now + rl_window r\<rparr> (rl_clients r)\<rparr>)
   | Some b \<Rightarrow>
       if rb_resetAt b < now
       then (True, r\<lparr>rl_clients := kv_set key \<lparr>rb_count = 1, rb_resetAt = now + rl_window r\<rparr> (rl_clients r)\<rparr>)
       else if rb_count b \<ge> rl_maxRequests r then (False, r)
       else (True, r\<lparr>rl_clients := kv_set key (b\<lparr>rb_count := i64 (rb_count b + 1)\<rparr>) (rl_clients r)\<rparr>))"

subsection \<open>Uploads\<close>

record ShardUpload =
  su_CommitmentHex :: string
  su_Index :: int
  su_DataHex :: string
  su_MerkleRootHex :: string
  su_MerkleProofHex :: string
  su_ProposerPubkeyHex :: string
  su_SignatureHex :: string

text \<open>\<open>json.Marshal\<close> of an upload whose strings need no escapes\<close>

definition json_string_field :: "string \<Rightarrow> string \<Rightarrow> string" where
  "json_string_field name v = CHR 0x22 # name @ [CHR 0x22, CHR '':'', CHR 0x22] @ v @ [CHR 0x22]"

definition json_Marshal :: "ShardUpload \<Rightarrow> string" where
  "json_Marshal u = ''{'' @ json_string_field ''commitment_hex'' (su_CommitmentHex u)
     @ '','' @ CHR 0x22 # ''index'' @ CHR 0x22 # '':'' @ int_dec (su_Index u)
     @ '','' @ json_string_field ''data_hex'' (su_DataHex u)
     @ '','' @ json_string_field ''merkle_root_hex'' (su_MerkleRootHex u)
     @ '','' @ json_string_field ''merkle_proof_hex'' (su_MerkleProofHex u)
     @ (if su_ProposerPubkeyHex u = [] then [] else '','' @ json_string_field ''proposer_pubkey_hex'' (su_ProposerPubkeyHex u))
     @ (if su_SignatureHex u = [] then [] else '','' @ json_string_field ''signature_hex'' (su_SignatureHex u))
     @ ''}''"

subsection \<open>The distributor\<close>

record ShardDistributor =
  sd_store :: ShardStore
  sd_nodeID :: string
  sd_rateLimiter :: ShardRateLimiter
  sd_signingPrivKey :: string
  sd_signingPubKey :: string

definition NewShardDistributor :: "ShardStore \<Rightarrow> string \<Rightarrow> ShardDistributor" where
  "NewShardDistributor store nodeID = \<lparr>sd_store = store, sd_nodeID = nodeID,
     sd_rateLimiter = NewShardRateLimiter 60 60000000000, sd_signingPrivKey = [], sd_signingPubKey = []\<rparr>"

definition WithSigningKey :: "env \<Rightarrow> KeyPair \<Rightarrow> ShardDistributor \<Rightarrow> terr option \<times> ShardDistributor" where
  "WithSigningKey E kp d =
     (if length (kp_PrivateKey kp) \<noteq> mode5_PrivateKeySize E
      then (Some (Errf ''shard_distributor: invalid Dilithium5 private key length''), d)
      else if length (kp_PublicKey kp) \<noteq> mode5_PublicKeySize E
      then (Some (Errf ''shard_distributor: invalid Dilithium5 public key length''), d)
      else (None, d\<lparr>sd_signingPrivKey := kp_PrivateKey kp, sd_signingPubKey := kp_PublicKey kp\<rparr>))"

definition ProposerPubkey :: "ShardDistributor \<Rightarrow> string" where
  "ProposerPubkey d = sd_signingPubKey d"

definition signShardData :: "env \<Rightarrow> ShardDistributor \<Rightarrow> string \<Rightarrow> terr + string" where
  "signShardData E d shardData =
     (if sd_signingPrivKey d = [] then Inr []
      else case pqc_Sign E (sha256 shardData) (sd_signingPrivKey d) of
        None \<Rightarrow> Inl (Errf ''shard_distributor: Dilithium5 sign failed'')
      | Some sig \<Rightarrow> Inr sig)"

subsection \<open>The shard server\<close>

text \<open>\<open>rq_Body\<close> is \<open>None\<close> when reading the body fails.\<close>

record http_request =
  rq_Method :: string
  rq_RemoteAddr :: string
  rq_Authorization :: string
  rq_commitment :: string
  rq_index :: string
  rq_Body :: "string option"

record http_response =
  rp_Status :: nat
  rp_ShardSignature :: string
  rp_Body :: string

type_synonym http_handler = "http_request \<Rightarrow> ShardDistributor \<Rightarrow> http_response \<times> ShardDistributor"

definition http_Error :: "string \<Rightarrow> nat \<Rightarrow> http_response" where
  "http_Error msg code = \<lparr>rp_Status = code, rp_ShardSignature = [], rp_Body = msg @ [CHR 0x0A]\<rparr>"

definition authMiddleware :: "http_handler \<Rightarrow> http_handler" where
  "authMiddleware next r d =
     (let auth = rq_Authorization r in
      if auth = [] then (http_Error ''missing Authorization header'' 401, d)
      else if length auth \<le> length ''Bearer '' then (http_Error ''malformed Authorization header'' 401, d)
      else next r d)"

definition rateLimitMiddleware :: "int \<Rightarrow> http_handler \<Rightarrow> http_handler" where
  "rateLimitMiddleware now next r d =
     (let (ok, rl) = Allow now (rq_RemoteAddr r) (sd_rateLimiter d); d' = d\<lparr>sd_rateLimiter := rl\<rparr> in
      if \<not> ok then (http_Error ''rate limit exceeded'' 429, d') else next r d')"

text \<open>\<open>strconv.Atoi\<close>\<close>

definition is_digit :: "char \<Rightarrow> bool" where
  "is_digit c \<longleftrightarrow> 48 \<le> (of_char c :: nat) \<and> (of_char c :: nat) \<le> 57"

definition atoi :: "string \<Rightarrow> int option" where
  "atoi s =
     (let (neg, ds) = (case s of [] \<Rightarrow> (False, []) | c # cs \<Rightarrow>
            if c = CHR ''-'' then (True, cs) else if c = CHR ''+'' then (False, cs) else (False, s));
          v = (if neg then - int (dec_value ds) else int (dec_value ds))
      in if ds = [] \<or> \<not> list_all is_digit ds \<or> \<not> in_i64 v then None else Some v)"

definition handleGetShard :: http_handler where
  "handleGetShard r d = (case hex_DecodeString (rq_commitment r) of
     None \<Rightarrow> (http_Error ''invalid commitment'' 400, d)
   | Some commitment \<Rightarrow> (case atoi (rq_index r) of
       None \<Rightarrow> (http_Error ''invalid index'' 400, d)
     | Some index \<Rightarrow> (case LoadShard (sd_store d) commitment index of
         None \<Rightarrow> (http_Error ''shard not found'' 404, d)
       | Some data \<Rightarrow>
           (\<lparr>rp_Status = 200,
             rp_ShardSignature = (case LoadShardSignature (sd_store d) commitment index of None \<Rightarrow> [] | Some sig \<Rightarrow> hex_EncodeToString sig),
             rp_Body = data\<rparr>, d))))"

definition max_body :: nat where
  "max_body = 64 * 1024"

text \<open>the decoded fields of an upload, in the order the handler checks them\<close>

definition decode_field :: "string \<Rightarrow> (string \<Rightarrow> bool) \<Rightarrow> string \<Rightarrow> http_response + string" where
  "decode_field h bad msg = (case hex_DecodeString h of
     None \<Rightarrow> Inl (http_Error msg 400)
   | Some b \<Rightarrow> if bad b then Inl (http_Error msg 400) else Inr b)"

definition check_signature :: "env \<Rightarrow> ShardUpload \<Rightarrow> string \<Rightarrow> http_response option" where
  "check_signature E upload shardData =
     (if su_ProposerPubkeyHex upload = [] then None
      else case decode_field (su_ProposerPubkeyHex upload) (\<lambda>b. length b \<noteq> mode5_PublicKeySize E) ''invalid proposer_pubkey_hex'' of
        Inl e \<Rightarrow> Some e
      | Inr proposerPubkey \<Rightarrow>
          if su_SignatureHex upload = []
          then Some (http_Error ''signature_hex is required when proposer_pubkey_hex is present'' 400)
          else (case decode_field (su_SignatureHex upload) (\<lambda>b. length b \<noteq> mode5_SignatureSize E) ''invalid signature_hex'' of
            Inl e \<Rightarrow> Some e
          | Inr sigBytes \<Rightarrow>
              if \<not> pqc_Verify E (sha256 shardData) sigBytes proposerPubkey
              then Some (http_Error ''Dilithium5 signature verification failed'' 403) else None))"

definition tree_depth :: nat where
  "tree_depth = (case log2 ErasureTotalShards of Inl _ \<Rightarrow> 0 | Inr n \<Rightarrow> n)"

definition parse_proof :: "int \<Rightarrow> string \<Rightarrow> MerkleProof" where
  "parse_proof index proofBytes =
     \<lparr>mp_LeafIndex = index, mp_Path = map (\<lambda>i. take 32 (drop (i * 32) proofBytes)) [0..<tree_depth]\<rparr>"

definition handlePostShard :: "env \<Rightarrow> (string \<Rightarrow> ShardUpload option) \<Rightarrow> http_handler" where
  "handlePostShard E J r d = (case rq_Body r of
     None \<Rightarrow> (http_Error ''failed to read body'' 400, d)
   | Some body \<Rightarrow> (case J (take max_body body) of
       None \<Rightarrow> (http_Error ''invalid JSON body'' 400, d)
     | Some upload \<Rightarrow> (case decode_field (su_CommitmentHex upload) (\<lambda>b. b = []) ''invalid commitment_hex'' of
         Inl e \<Rightarrow> (e, d)
       | Inr commitment \<Rightarrow> (case decode_field (su_DataHex upload) (\<lambda>b. b = []) ''invalid data_hex'' of
           Inl e \<Rightarrow> (e, d)
         | Inr shardData \<Rightarrow> (case decode_field (su_MerkleRootHex upload) (\<lambda>b. length b \<noteq> 32) ''invalid merkle_root_hex (must be 32 bytes)'' of
             Inl e \<Rightarrow> (e, d)
           | Inr merkleRootBytes \<Rightarrow> (case decode_field (su_MerkleProofHex upload) (\<lambda>b. False) ''invalid merkle_proof_hex'' of
               Inl e \<Rightarrow> (e, d)
             | Inr merkleProofBytes \<Rightarrow>
                 if su_Index upload < 0 \<or> su_Index upload \<ge> int ErasureTotalShards
                 then (http_Error ''index out of range'' 400, d)
                 else (case check_signature E upload shardData of
                   Some e \<Rightarrow> (e, d)
                 | None \<Rightarrow>
                     if length merkleProofBytes \<noteq> tree_depth * 32 then (http_Error ''merkle proof length'' 400, d)
                     else (case VerifyProof merkleRootBytes (su_Index upload) shardData (Some (parse_proof (su_Index upload) merkleProofBytes)) of
                       Some _ \<Rightarrow> (http_Error ''Merkle proof verification failed'' 403, d)
                     | None \<Rightarrow> (case StoreShard (sd_store d) commitment (su_Index upload) shardData of
                         (Some _, _) \<Rightarrow> (http_Error ''failed to store shard'' 500, d)
                       | (None, s') \<Rightarrow> (\<lparr>rp_Status = 201, rp_ShardSignature = [], rp_Body = []\<rparr>, d\<lparr>sd_store := s'\<rparr>))))))))))"

definition shard_switch :: "env \<Rightarrow> (string \<Rightarrow> ShardUpload option) \<Rightarrow> http_handler" where
  "shard_switch E J r d =
     (if rq_Method r = ''GET'' then handleGetShard r d
      else if rq_Method r = ''POST'' then handlePostShard E J r d
      else (http_Error ''method not allowed'' 405, d))"

definition shard_endpoint :: "env \<Rightarrow> (string \<Rightarrow> ShardUpload option) \<Rightarrow> int \<Rightarrow> http_handler" where
  "shard_endpoint E J now = rateLimitMiddleware now (authMiddleware (shard_switch E J))"

text \<open>\<open>json.NewEncoder(w).Encode(indices)\<close>; a nil slice is \<open>null\<close>.\<close>

fun json_join :: "string list \<Rightarrow> string" where
  "json_join [] = []"
| "json_join [s] = s"
| "json_join (s # ss) = s @ '','' @ json_join ss"

definition json_ints :: "int list \<Rightarrow> string" where
  "json_ints is = (if is = [] then ''null'' else ''['' @ json_join (map int_dec is) @ '']'') @ [CHR 0x0A]"

definition shardmeta_handler :: http_handler where
  "shardmeta_handler r d = (case hex_DecodeString (rq_commitment r) of
     None \<Rightarrow> (http_Error ''invalid commitment'' 400, d)
   | Some commitment \<Rightarrow> (case ListLocalShards (sd_store d) commitment of
       Inl _ \<Rightarrow> (http_Error ''internal error'' 500, d)
     | Inr indices \<Rightarrow> (\<lparr>rp_Status = 200, rp_ShardSignature = [], rp_Body = json_ints indices\<rparr>, d)))"

definition shardmeta_endpoint :: "int \<Rightarrow> http_handler" where
  "shardmeta_endpoint now = rateLimitMiddleware now shardmeta_handler"

subsection \<open>Distribution\<close>

text \<open>\<open>ShardNodeMap\<close> maps an index to the nodes that hold the shard.\<close>

record TFHEShardMeta =
  tm_CommitmentHash :: string
  tm_OriginalLen :: int
  tm_ShardNodeMap :: "int \<Rightarrow> string list option"
  tm_MerkleRoot :: string
  tm_ProposerPubkey :: string

definition serializeProof :: "MerkleProof option \<Rightarrow> string" where
  "serializeProof p = (case p of None \<Rightarrow> [] | Some pr \<Rightarrow> concat (mp_Path pr))"

text \<open>\<open>strings.TrimSpace\<close> on ASCII and \<open>strings.Split(s, ",")\<close>\<close>

definition trim_char :: "char \<Rightarrow> bool" where
  "trim_char c = (c \<in> {CHR 0x09, CHR 0x0A, CHR 0x0B, CHR 0x0C, CHR 0x0D, CHR '' ''})"

definition TrimSpace :: "string \<Rightarrow> string" where
  "TrimSpace s = rev (dropWhile trim_char (rev (dropWhile trim_char s)))"

fun split_on :: "char \<Rightarrow> string \<Rightarrow> string \<Rightarrow> string list" where
  "split_on sep acc [] = [rev acc]"
| "split_on sep acc (c # cs) = (if c = sep then rev acc # split_on sep [] cs else split_on sep (c # acc) cs)"

definition local_node_id :: "(string \<Rightarrow> string) \<Rightarrow> ShardDistributor \<Rightarrow> string" where
  "local_node_id getenv d =
     (if sd_nodeID d \<noteq> [] then sd_nodeID d
      else if getenv ''TFHE_NODE_ID'' \<noteq> [] then getenv ''TFHE_NODE_ID''
      else ''local_node'')"

text \<open>the keys of \<open>clusterMap\<close>, sorted\<close>

definition cluster_nodes :: "(string \<Rightarrow> string) \<Rightarrow> string \<Rightarrow> string list \<Rightarrow> string list" where
  "cluster_nodes getenv nodeID peerAddrs =
     (let envPeers = getenv ''TFHE_PEERS'';
          named = peerAddrs @ (if envPeers = [] then [] else split_on (CHR '','') [] envPeers)
      in sort (remdups (nodeID # filter (\<lambda>p. p \<noteq> []) (map TrimSpace named))))"

definition primary_index :: "string \<Rightarrow> int \<Rightarrow> nat \<Rightarrow> nat" where
  "primary_index commitmentHash index n =
     of_char (hd (sha256 (hex_EncodeToString commitmentHash @ ''_'' @ int_dec index))) mod n"

definition assigned_nodes :: "string list \<Rightarrow> nat \<Rightarrow> string \<Rightarrow> int \<Rightarrow> string list" where
  "assigned_nodes clusterNodes replFactor commitmentHash index =
     map (\<lambda>r. clusterNodes ! ((primary_index commitmentHash index (length clusterNodes) + r) mod length clusterNodes)) [0..<replFactor]"

definition repl_factor :: "string list \<Rightarrow> nat" where
  "repl_factor clusterNodes = (if ReplicationFactor > length clusterNodes then length clusterNodes else ReplicationFactor)"

text \<open>the request \<open>sendShardToPeer\<close> posts; the connection fills in the remote address\<close>

definition shard_request :: "env \<Rightarrow> string \<Rightarrow> string \<Rightarrow> int \<Rightarrow> string \<Rightarrow> string \<Rightarrow> string \<Rightarrow> string \<Rightarrow> string \<Rightarrow> http_request" where
  "shard_request E senderNodeID commitmentHash shardIndex data merkleRoot merkleProofBytes proposerPubkey signature =
     (let upload = \<lparr>su_CommitmentHex = hex_EncodeToString commitmentHash, su_Index = shardIndex,
            su_DataHex = hex_EncodeToString data, su_MerkleRootHex = hex_EncodeToString merkleRoot,
            su_MerkleProofHex = hex_EncodeToString merkleProofBytes,
            su_ProposerPubkeyHex = (if length proposerPubkey = mode5_PublicKeySize E then hex_EncodeToString proposerPubkey else []),
            su_SignatureHex = (if length signature = mode5_SignatureSize E then hex_EncodeToString signature else [])\<rparr>
      in \<lparr>rq_Method = ''POST'', rq_RemoteAddr = [], rq_Authorization = ''Bearer '' @ senderNodeID,
          rq_commitment = [], rq_index = [], rq_Body = Some (json_Marshal upload)\<rparr>)"

definition sendShardToPeer :: "(string \<Rightarrow> http_request \<Rightarrow> http_response option) \<Rightarrow> string \<Rightarrow> http_request \<Rightarrow> terr option" where
  "sendShardToPeer transport peerAddr req = (case transport peerAddr req of
     None \<Rightarrow> Some (Errf ''peer send: HTTP request failed'')
   | Some resp \<Rightarrow> if rp_Status resp \<noteq> 201 \<and> rp_Status resp \<noteq> 200 then Some (Errf ''peer send: unexpected status'') else None)"

text \<open>
  One shard: prove, sign, place, store when this node is assigned, and post to the other
  assigned nodes. The outcomes of the posts are ignored, so they are collected.
\<close>

definition distribute_one ::
    "env \<Rightarrow> MerkleTree \<Rightarrow> string \<Rightarrow> string list \<Rightarrow> string \<Rightarrow> string \<Rightarrow> ShardResult \<Rightarrow> ShardDistributor \<Rightarrow>
     (terr + string list \<times> (string \<times> http_request) list) \<times> ShardDistributor" where
  "distribute_one E tree nodeID clusterNodes commitmentHash pubKey sr d =
     (case ProofForShard tree (sr_Index sr) of
        Inl e \<Rightarrow> (Inl (WrapE ''distributor: proof generation failed'' e), d)
      | Inr prf \<Rightarrow> (case signShardData E d (sr_Data sr) of
          Inl e \<Rightarrow> (Inl (WrapE ''distributor: signing shard failed'' e), d)
        | Inr sig \<Rightarrow>
            let assignedNodes = assigned_nodes clusterNodes (repl_factor clusterNodes) commitmentHash (sr_Index sr);
                posts = map (\<lambda>peerAddr. (peerAddr, shard_request E nodeID commitmentHash (sr_Index sr) (sr_Data sr) (Root tree)
                    (serializeProof (Some prf)) pubKey sig)) (filter (\<lambda>peerAddr. peerAddr \<noteq> nodeID) assignedNodes)
            in if nodeID \<in> set assignedNodes
               then (case StoreShard (sd_store d) commitmentHash (sr_Index sr) (sr_Data sr) of
                   (Some e, s1) \<Rightarrow> (Inl (WrapE ''distributor: failed to store shard locally'' e), d\<lparr>sd_store := s1\<rparr>)
                 | (None, s1) \<Rightarrow> (case StoreShardSignature s1 commitmentHash (sr_Index sr) sig of
                     (Some e, s2) \<Rightarrow> (Inl (WrapE ''distributor: failed to store signature'' e), d\<lparr>sd_store := s2\<rparr>)
                   | (None, s2) \<Rightarrow> (Inr (assignedNodes, posts), d\<lparr>sd_store := s2\<rparr>)))
               else (Inr (assignedNodes, posts), d)))"

fun distribute_loop ::
    "env \<Rightarrow> MerkleTree \<Rightarrow> string \<Rightarrow> string list \<Rightarrow> string \<Rightarrow> string \<Rightarrow> ShardResult list \<Rightarrow> ShardDistributor \<Rightarrow> TFHEShardMeta \<Rightarrow>
     (string \<times> http_request) list \<Rightarrow> (terr + TFHEShardMeta) \<times> ShardDistributor \<times> (string \<times> http_request) list" where
  "distribute_loop E tree nodeID clusterNodes commitmentHash pubKey [] d meta posted = (Inr meta, d, posted)"
| "distribute_loop E tree nodeID clusterNodes commitmentHash pubKey (sr # srs) d meta posted =
     (case distribute_one E tree nodeID clusterNodes commitmentHash pubKey sr d of
        (Inl e, d') \<Rightarrow> (Inl e, d', posted)
      | (Inr (assignedNodes, posts), d') \<Rightarrow>
          distribute_loop E tree nodeID clusterNodes commitmentHash pubKey srs d'
            (meta\<lparr>tm_ShardNodeMap := (tm_ShardNodeMap meta)(sr_Index sr \<mapsto> assignedNodes)\<rparr>) (posted @ posts))"

definition DistributeShards ::
    "env \<Rightarrow> (string \<Rightarrow> string) \<Rightarrow> ShardResult list \<Rightarrow> string \<Rightarrow> string list \<Rightarrow> ShardDistributor \<Rightarrow>
     (terr + TFHEShardMeta) \<times> ShardDistributor \<times> (string \<times> http_request) list" where
  "DistributeShards E getenv shards commitmentHash peerAddrs d =
     (if length shards \<noteq> ErasureTotalShards then (Inl (Errf ''distributor: expected 16 shards''), d, [])
      else case BuildMerkleTree shards of
        Inl e \<Rightarrow> (Inl (WrapE ''distributor: Merkle tree construction failed'' e), d, [])
      | Inr tree \<Rightarrow>
          let nodeID = local_node_id getenv d in
          distribute_loop E tree nodeID (cluster_nodes getenv nodeID peerAddrs) commitmentHash (sd_signingPubKey d) shards d
            \<lparr>tm_CommitmentHash = commitmentHash, tm_OriginalLen = 0, tm_ShardNodeMap = Map.empty,
             tm_MerkleRoot = Root tree, tm_ProposerPubkey = sd_signingPubKey d\<rparr> [])"

subsection \<open>Reconstruction\<close>

definition fetchShardFromPeer ::
    "(string \<Rightarrow> http_request \<Rightarrow> http_response option) \<Rightarrow> string \<Rightarrow> string \<Rightarrow> string \<Rightarrow> int \<Rightarrow> terr + (string \<times> string)" where
  "fetchShardFromPeer transport peerAddr senderNodeID commitmentHash shardIndex =
     (let req = \<lparr>rq_Method = ''GET'', rq_RemoteAddr = [], rq_Authorization = ''Bearer '' @ senderNodeID,
            rq_commitment = hex_EncodeToString commitmentHash, rq_index = int_dec shardIndex, rq_Body = Some []\<rparr>
      in case transport peerAddr req of
        None \<Rightarrow> Inl (Errf ''peer fetch: HTTP request failed'')
      | Some resp \<Rightarrow>
          if rp_Status resp = 404 then Inl (Errf ''peer fetch: shard not found on peer'')
          else if rp_Status resp \<noteq> 200 then Inl (Errf ''peer fetch: unexpected status'')
          else Inr (take max_body (rp_Body resp),
                    if rp_ShardSignature resp = [] then []
                    else case hex_DecodeString (rp_ShardSignature resp) of None \<Rightarrow> [] | Some sig \<Rightarrow> sig))"

fun collect_local :: "ShardStore \<Rightarrow> string \<Rightarrow> int list \<Rightarrow> ShardResult list \<Rightarrow> ShardResult list" where
  "collect_local s c [] collected = collected"
| "collect_local s c (idx # is) collected =
     (let collected' = (case LoadShard s c idx of None \<Rightarrow> collected | Some data \<Rightarrow> collected @ [\<lparr>sr_Index = idx, sr_Data = data\<rparr>])
      in if ErasureDataShards \<le> length collected' then collected' else collect_local s c is collected')"

text \<open>the first peer whose answer is accepted\<close>

fun fetch_peers ::
    "env \<Rightarrow> (string \<Rightarrow> http_request \<Rightarrow> http_response option) \<Rightarrow> string \<Rightarrow> TFHEShardMeta \<Rightarrow> int \<Rightarrow> string list \<Rightarrow> string option" where
  "fetch_peers E transport nodeID meta idx [] = None"
| "fetch_peers E transport nodeID meta idx (peer # peers) =
     (if peer = nodeID then fetch_peers E transport nodeID meta idx peers
      else case fetchShardFromPeer transport peer nodeID (tm_CommitmentHash meta) idx of
        Inl _ \<Rightarrow> fetch_peers E transport nodeID meta idx peers
      | Inr (data, sig) \<Rightarrow>
          if length (tm_ProposerPubkey meta) = mode5_PublicKeySize E \<and> length sig = mode5_SignatureSize E
             \<and> \<not> pqc_Verify E (sha256 data) sig (tm_ProposerPubkey meta)
          then fetch_peers E transport nodeID meta idx peers
          else Some data)"

fun collect_remote ::
    "env \<Rightarrow> (string \<Rightarrow> http_request \<Rightarrow> http_response option) \<Rightarrow> string \<Rightarrow> TFHEShardMeta \<Rightarrow> int set \<Rightarrow> int list \<Rightarrow>
     ShardResult list \<Rightarrow> ShardStore \<Rightarrow> ShardResult list \<times> ShardStore" where
  "collect_remote E transport nodeID meta have [] collected s = (collected, s)"
| "collect_remote E transport nodeID meta have (idx # is) collected s =
     (if ErasureDataShards \<le> length collected then (collected, s)
      else if idx \<in> have then collect_remote E transport nodeID meta have is collected s
      else case fetch_peers E transport nodeID meta idx (case tm_ShardNodeMap meta idx of None \<Rightarrow> [] | Some ps \<Rightarrow> ps) of
        None \<Rightarrow> collect_remote E transport nodeID meta have is collected s
      | Some data \<Rightarrow> collect_remote E transport nodeID meta have is (collected @ [\<lparr>sr_Index = idx, sr_Data = data\<rparr>])
          (snd (StoreShard s (tm_CommitmentHash meta) idx data)))"

definition ReconstructCiphertext ::
    "env \<Rightarrow> rs_codec \<Rightarrow> (string \<Rightarrow> http_request \<Rightarrow> http_response option) \<Rightarrow> TFHEShardMeta option \<Rightarrow> ShardDistributor \<Rightarrow>
     (terr + string) \<times> ShardDistributor" where
  "ReconstructCiphertext E R transport m d = (case m of
     None \<Rightarrow> (Inl (Errf ''distributor: shard meta is nil''), d)
   | Some meta \<Rightarrow>
       let local = collect_local (sd_store d) (tm_CommitmentHash meta) [0..int ErasureTotalShards - 1] [];
           (collected, s') = (if length local < ErasureDataShards
             then collect_remote E transport (sd_nodeID d) meta (sr_Index ` set local) [0..int ErasureTotalShards - 1] local (sd_store d)
             else (local, sd_store d));
           d' = d\<lparr>sd_store := s'\<rparr>
       in if length collected < ErasureDataShards
          then (Inl (Errf ''distributor: cannot reconstruct''), d')
          else (ReconstructFromResults R collected (tm_OriginalLen meta), d'))"

end
