(* ===== verification/RateLimit.thy ===== *)
theory RateLimit
  imports Distributor
begin

section \<open>What the rate limiter guarantees\<close>

text \<open>
  The limiter counts the requests of a client in windows that start with a request, so an
  interval as long as a window can hold almost twice the configured maximum: the request
  that opens a window is early enough to fall out of it, all the others count.
\<close>

text \<open>serving requests in turn, with the verdict on each\<close>

fun limiter_run :: "ShardRateLimiter \<Rightarrow> (int \<times> string) list \<Rightarrow> (int \<times> string \<times> bool) list" where
  "limiter_run rl [] = []"
| "limiter_run rl ((t, k) # rs) = (let (ok, rl') = Allow t k rl in (t, k, ok) # limiter_run rl' rs)"

definition accepted :: "string \<Rightarrow> int \<Rightarrow> int \<Rightarrow> (int \<times> string \<times> bool) list \<Rightarrow> nat" where
  "accepted k a b log = length (filter (\<lambda>(t, k', ok). ok \<and> k' = k \<and> a \<le> t \<and> t \<le> b) log)"

text \<open>the limiter's bucket for a client holds at most the maximum\<close>

definition limiter_ok :: "int \<Rightarrow> int \<Rightarrow> string \<Rightarrow> ShardRateLimiter \<Rightarrow> bool" where
  "limiter_ok m w k rl \<longleftrightarrow> rl_maxRequests rl = m \<and> rl_window rl = w \<and> 1 \<le> m \<and> m < 2 ^ 63 \<and> 0 \<le> w \<and>
     (\<forall>b. kv_get (rl_clients rl) k = Some b \<longrightarrow> 1 \<le> rb_count b \<and> rb_count b \<le> m)"

definition bucket :: "ShardRateLimiter \<Rightarrow> string \<Rightarrow> rateBucket option" where
  "bucket rl k = kv_get (rl_clients rl) k"

lemma accepted_simps [simp]:
  "accepted k a b [] = 0"
  "accepted k a b ((t, k', ok) # log) = (if ok \<and> k' = k \<and> a \<le> t \<and> t \<le> b then Suc (accepted k a b log) else accepted k a b log)"
  by (simp_all add: accepted_def)

text \<open>the three outcomes of a request of the client itself, and the frame for the others\<close>

lemma Allow_other:
  "k' \<noteq> k \<Longrightarrow> Allow t k' rl = (ok, rl') \<Longrightarrow> bucket rl' k = bucket rl k \<and> (limiter_ok m w k rl \<longrightarrow> limiter_ok m w k rl')"
  by (auto simp: Allow_def bucket_def limiter_ok_def kv_simps split: option.splits if_splits)

lemma Allow_new:
  assumes "limiter_ok m w k rl" "bucket rl k = None \<or> bucket rl k = Some b \<and> rb_resetAt b < t" "Allow t k rl = (ok, rl')"
  shows "ok \<and> bucket rl' k = Some \<lparr>rb_count = 1, rb_resetAt = t + w\<rparr> \<and> limiter_ok m w k rl'"
  using assms by (auto simp: Allow_def bucket_def limiter_ok_def kv_simps)

lemma Allow_full:
  assumes "limiter_ok m w k rl" "bucket rl k = Some b" "t \<le> rb_resetAt b" "rb_count b = m" "Allow t k rl = (ok, rl')"
  shows "\<not> ok \<and> rl' = rl"
  using assms by (auto simp: Allow_def bucket_def limiter_ok_def)

lemma Allow_more:
  assumes "limiter_ok m w k rl" "bucket rl k = Some b" "t \<le> rb_resetAt b" "rb_count b < m" "Allow t k rl = (ok, rl')"
  shows "ok \<and> bucket rl' k = Some (b\<lparr>rb_count := rb_count b + 1\<rparr>) \<and> limiter_ok m w k rl'"
proof -
  have "i64 (rb_count b + 1) = rb_count b + 1"
    using assms(1,2,4) by (intro i64_id) (auto simp: limiter_ok_def bucket_def in_i64_def)
  then show ?thesis using assms by (auto simp: Allow_def bucket_def limiter_ok_def kv_simps)
qed

lemma late_requests: "\<forall>r \<in> set rs. b < fst r \<Longrightarrow> accepted k a b (limiter_run rl rs) = 0"
  by (induction rl rs rule: limiter_run.induct) (auto split: prod.splits)

lemma accepted_mono: "b \<le> b' \<Longrightarrow> accepted k a b log \<le> accepted k a b' log"
  by (induction log) auto

text \<open>within the current window of the client\<close>

lemma within_window:
  "limiter_ok m w k rl \<Longrightarrow> bucket rl k = Some b \<Longrightarrow> sorted (map fst rs) \<Longrightarrow>
    int (accepted k a (rb_resetAt b) (limiter_run rl rs)) \<le> m - rb_count b"
proof (induction rs arbitrary: rl b)
  case Nil
  then show ?case by (auto simp: limiter_ok_def bucket_def)
next
  case (Cons r rs)
  obtain t k' ok rl' where r: "r = (t, k')" and al: "Allow t k' rl = (ok, rl')" by (metis prod.collapse)
  have srt: "sorted (map fst rs)" "\<forall>x \<in> set rs. t \<le> fst x" using Cons.prems(3) r by auto
  have c: "rb_count b \<le> m" using Cons.prems(1,2) by (auto simp: limiter_ok_def bucket_def)
  consider "k' \<noteq> k" | "k' = k" "rb_resetAt b < t" | "k' = k" "t \<le> rb_resetAt b" "rb_count b = m"
    | "k' = k" "t \<le> rb_resetAt b" "rb_count b < m" using c by linarith
  then show ?case
  proof cases
    case 1
    with Allow_other [OF 1 al] Cons.IH [of rl' b] Cons.prems srt(1) show ?thesis by (simp add: r al)
  next
    case 2
    then have "\<forall>x \<in> set rs. rb_resetAt b < fst x" using srt(2) by fastforce
    then show ?thesis using 2 c al late_requests [of rs "rb_resetAt b" k a rl'] by (auto simp: r)
  next
    case 3
    with Allow_full [OF Cons.prems(1,2) 3(2,3)] al Cons.IH [OF Cons.prems(1,2) srt(1)] show ?thesis by (simp add: r)
  next
    case 4
    have step: "bucket rl' k = Some (b\<lparr>rb_count := rb_count b + 1\<rparr>)" "limiter_ok m w k rl'"
      using Allow_more [OF Cons.prems(1,2) 4(2,3)] al 4(1) by auto
    show ?thesis using Cons.IH [OF step(2,1) srt(1)] by (simp add: r al)
  qed
qed

text \<open>up to one window after the current one\<close>

lemma within_next_window:
  "limiter_ok m w k rl \<Longrightarrow> bucket rl k = Some b \<Longrightarrow> sorted (map fst rs) \<Longrightarrow> T \<le> rb_resetAt b + w \<Longrightarrow>
    int (accepted k a T (limiter_run rl rs)) \<le> m - rb_count b + m"
proof (induction rs arbitrary: rl b)
  case Nil
  then show ?case by (auto simp: limiter_ok_def bucket_def)
next
  case (Cons r rs)
  obtain t k' ok rl' where r: "r = (t, k')" and al: "Allow t k' rl = (ok, rl')" by (metis prod.collapse)
  have srt: "sorted (map fst rs)" using Cons.prems(3) r by auto
  have c: "rb_count b \<le> m" using Cons.prems(1,2) by (auto simp: limiter_ok_def bucket_def)
  consider "k' \<noteq> k" | "k' = k" "rb_resetAt b < t" | "k' = k" "t \<le> rb_resetAt b" "rb_count b = m"
    | "k' = k" "t \<le> rb_resetAt b" "rb_count b < m" using c by linarith
  then show ?case
  proof cases
    case 1
    with Allow_other [OF 1 al] Cons.IH [of rl' b] Cons.prems srt show ?thesis by (simp add: r al)
  next
    case 2
    have n: "bucket rl' k = Some \<lparr>rb_count = 1, rb_resetAt = t + w\<rparr>" "limiter_ok m w k rl'"
      using Allow_new [OF Cons.prems(1), of b t] Cons.prems(2) 2 al by auto
    have "accepted k a T (limiter_run rl' rs) \<le> accepted k a (t + w) (limiter_run rl' rs)"
      by (rule accepted_mono) (use 2 Cons.prems(4) in linarith)
    then show ?thesis using within_window [OF n(2,1) srt, of a] c by (simp add: r al)
  next
    case 3
    with Allow_full [OF Cons.prems(1,2) 3(2,3)] al Cons.IH [OF Cons.prems(1,2) srt Cons.prems(4)] show ?thesis by (simp add: r)
  next
    case 4
    have step: "bucket rl' k = Some (b\<lparr>rb_count := rb_count b + 1\<rparr>)" "limiter_ok m w k rl'"
      using Allow_more [OF Cons.prems(1,2) 4(2,3)] al 4(1) by auto
    show ?thesis using Cons.IH [OF step(2,1) srt] Cons.prems(4) by (simp add: r al)
  qed
qed

lemma any_window:
  "limiter_ok m w k rl \<Longrightarrow> sorted (map fst rs) \<Longrightarrow> int (accepted k a (a + w) (limiter_run rl rs)) \<le> 2 * m - 1"
proof (induction rs arbitrary: rl)
  case Nil
  then show ?case by (auto simp: limiter_ok_def)
next
  case (Cons r rs)
  obtain t k' ok rl' where r: "r = (t, k')" and al: "Allow t k' rl = (ok, rl')" by (metis prod.collapse)
  have srt: "sorted (map fst rs)" and m: "1 \<le> m" using Cons.prems r by (auto simp: limiter_ok_def)
  consider "k' \<noteq> k" | b where "k' = k" "bucket rl k = None \<or> bucket rl k = Some b \<and> rb_resetAt b < t"
    | b where "k' = k" "bucket rl k = Some b" "t \<le> rb_resetAt b"
    by (cases "bucket rl k") force+
  then show ?case
  proof cases
    case 1
    with Allow_other [OF 1 al] Cons.IH [of rl'] Cons.prems srt show ?thesis by (simp add: r al)
  next
    case (2 b)
    have n: "bucket rl' k = Some \<lparr>rb_count = 1, rb_resetAt = t + w\<rparr>" "limiter_ok m w k rl'"
      using Allow_new [OF Cons.prems(1), of b t] 2 al by auto
    have "int (accepted k a (a + w) (limiter_run rl' rs)) \<le> m - 1" if "a \<le> t"
    proof -
      have "accepted k a (a + w) (limiter_run rl' rs) \<le> accepted k a (t + w) (limiter_run rl' rs)"
        by (rule accepted_mono) (use that in linarith)
      then show ?thesis using within_window [OF n(2,1) srt, of a] by simp
    qed
    then show ?thesis using Cons.IH [OF n(2) srt] m by (auto simp: r al)
  next
    case (3 b)
    have b: "rb_count b \<le> m" "1 \<le> rb_count b" using Cons.prems(1) 3(2) by (auto simp: limiter_ok_def bucket_def)
    have le: "a + w \<le> rb_resetAt b + w" if "a \<le> t" using that 3(3) by linarith
    show ?thesis
    proof (cases "rb_count b = m")
      case True
      with Allow_full [OF Cons.prems(1) 3(2,3)] al 3(1) Cons.IH [OF Cons.prems(1) srt] show ?thesis by (simp add: r)
    next
      case False
      then have step: "bucket rl' k = Some (b\<lparr>rb_count := rb_count b + 1\<rparr>)" "limiter_ok m w k rl'"
        using Allow_more [OF Cons.prems(1) 3(2,3)] al 3(1) b by auto
      show ?thesis
        using Cons.IH [OF step(2) srt] within_next_window [OF step(2,1) srt, of "a + w" a] le b(2) by (auto simp: r al)
    qed
  qed
qed

text \<open>
  C15. However requests arrive (in the order of the clock), the limiter of a new
  distributor lets through at most 119 requests of one client address in any minute: a
  limiter lets through less than twice its maximum in any interval as long as its window,
  and the bound is reached.
\<close>

theorem rate_limit_bound:
  assumes "1 \<le> m" and "m < 2 ^ 63" and "0 \<le> w" and "sorted (map fst rs)"
  shows "int (accepted k a (a + w) (limiter_run (NewShardRateLimiter m w) rs)) \<le> 2 * m - 1"
  by (rule any_window)
    (use assms in \<open>simp_all add: limiter_ok_def NewShardRateLimiter_def kv_empty_def kv_simps\<close>)

theorem rate_limit_bound_witness:
  "int (accepted ''ip'' 50 110 (limiter_run (NewShardRateLimiter 2 60)
      [(0, ''ip''), (55, ''ip''), (60, ''ip''), (61, ''ip''), (62, ''ip''), (100, ''ip'')])) = 3
   \<and> int (accepted ''ip'' 50 (50 + 60) (limiter_run (NewShardRateLimiter 2 60)
      [(0, ''ip''), (55, ''ip''), (60, ''ip''), (61, ''ip''), (62, ''ip''), (100, ''ip'')])) \<le> 2 * 2 - 1"
proof
  show "int (accepted ''ip'' 50 110 (limiter_run (NewShardRateLimiter 2 60)
      [(0, ''ip''), (55, ''ip''), (60, ''ip''), (61, ''ip''), (62, ''ip''), (100, ''ip'')])) = 3"
    by code_simp
  show "int (accepted ''ip'' 50 (50 + 60) (limiter_run (NewShardRateLimiter 2 60)
      [(0, ''ip''), (55, ''ip''), (60, ''ip''), (61, ''ip''), (62, ''ip''), (100, ''ip'')])) \<le> 2 * 2 - 1"
    by (rule rate_limit_bound) simp_all
qed

end
