(* ===== verification/Lwr.thy ===== *)
theory Lwr
  imports Pqc Sha256
begin

section \<open>The lattice block hash\<close>

text \<open>
  \<open>x/privacy/pqc/lwr_hash.go\<close>, \<open>hashing.go\<close>, \<open>povl.go\<close>, \<open>block.go\<close> and \<open>simd_opt.go\<close>: the
  learning-with-rounding hash of a payload, the SHA3 block hash, the chain of sequential
  states built on the first, and signed blocks. SHA3-256 and the output stream of SHAKE-256
  come from \<open>golang.org/x/crypto\<close> and are fields of \<open>env\<close>.

  Coefficients are \<open>int32\<close>: every sum and product is wrapped by \<open>i32\<close>. Sampling reads the
  stream until 256 values below \<open>q\<close> are found, so it is a partial function whose value
  \<open>None\<close> is a run that does not end.
\<close>

subsection \<open>Signed 32-bit arithmetic\<close>

definition i32 :: "int \<Rightarrow> int" where
  "i32 x = signed_take_bit 31 x"

lemma i32_id: "- (2 ^ 31) \<le> x \<Longrightarrow> x < 2 ^ 31 \<Longrightarrow> i32 x = x"
  by (simp add: i32_def signed_take_bit_int_eq_self)

text \<open>Go's \<open>%\<close> and \<open>/\<close> truncate towards zero.\<close>

definition go_rem :: "int \<Rightarrow> int \<Rightarrow> int" where
  "go_rem a b = sgn a * (\<bar>a\<bar> mod \<bar>b\<bar>)"

definition go_quo :: "int \<Rightarrow> int \<Rightarrow> int" where
  "go_quo a b = sgn a * sgn b * (\<bar>a\<bar> div \<bar>b\<bar>)"

subsection \<open>Parameters and sampling\<close>

definition LWRHashSize :: nat where
  "LWRHashSize = 96"

definition lwrN :: nat where
  "lwrN = 256"

definition lwrQ :: int where
  "lwrQ = 3329"

definition lwrP :: int where
  "lwrP = 256"

definition lwrOutputCoeffs :: nat where
  "lwrOutputCoeffs = 64"

definition computeSeed :: "env \<Rightarrow> string \<Rightarrow> string \<Rightarrow> string" where
  "computeSeed E input prevHash = sha3_256 E (input @ prevHash)"

definition le16 :: "(nat \<Rightarrow> char) \<Rightarrow> nat \<Rightarrow> int" where
  "le16 xof pos = of_char (xof pos) + 256 * of_char (xof (Suc pos))"

partial_function (option) expand_loop :: "(nat \<Rightarrow> char) \<Rightarrow> nat \<Rightarrow> int list \<Rightarrow> int list option" where
  [code]: "expand_loop xof pos a =
     (if length a = lwrN then Some a
      else let v = le16 xof pos in expand_loop xof (pos + 2) (if v < lwrQ then a @ [v] else a))"

definition expandMatrix :: "env \<Rightarrow> string \<Rightarrow> int list option" where
  "expandMatrix E seed = expand_loop (shake256 E (''A'' @ seed)) 0 []"

definition byte_bit :: "char \<Rightarrow> nat \<Rightarrow> nat" where
  "byte_bit c n = of_char c div 2 ^ n mod 2"

definition inputToSecret :: "string \<Rightarrow> int list" where
  "inputToSecret input =
     (if input = [] then replicate lwrN 0
      else map (\<lambda>i. let bitIdx = 2 * i; byteIdx = bitIdx div 8 mod length input; shift = bitIdx mod 8;
                        b0 = byte_bit (input ! byteIdx) shift;
                        b1 = byte_bit (input ! ((byteIdx + 1) mod length input)) ((shift + 1) mod 8);
                        two = b0 + 2 * b1
                    in if two = 0 then - 1 else if two = 3 then 1 else 0) [0..<lwrN])"

subsection \<open>Multiplication and rounding\<close>

definition poly_step :: "int list \<Rightarrow> int list \<Rightarrow> nat \<times> nat \<Rightarrow> int list \<Rightarrow> int list" where
  "poly_step a s ij b = (case ij of (i, j) \<Rightarrow>
     let k = (i + j) mod lwrN; prod = i32 (a ! i * s ! j)
     in b[k := i32 (if i + j \<ge> lwrN then b ! k - prod else b ! k + prod)])"

definition poly_mul :: "int list \<Rightarrow> int list \<Rightarrow> int list" where
  "poly_mul a s = fold (poly_step a s) (List.product [0..<lwrN] [0..<lwrN]) (replicate lwrN 0)"

definition round_coeff :: "int \<Rightarrow> int" where
  "round_coeff x =
     (let val = go_rem (i32 (go_rem x lwrQ + lwrQ)) lwrQ;
          rounded = go_quo (i32 (val * lwrP)) lwrQ
      in go_rem rounded lwrP)"

definition polyMulRound :: "int list \<Rightarrow> int list \<Rightarrow> int list" where
  "polyMulRound a s = map round_coeff (poly_mul a s)"

definition GenerateLWRBlockHash :: "env \<Rightarrow> string \<Rightarrow> string \<Rightarrow> string option" where
  "GenerateLWRBlockHash E input prevHash =
     (let seed = computeSeed E input prevHash in
      map_option (\<lambda>a. let b = polyMulRound a (inputToSecret input)
        in take 32 seed @ map (\<lambda>i. char_of (b ! i mod 256)) [0..<lwrOutputCoeffs]) (expandMatrix E seed))"

text \<open>\<open>ValidateLWRHash\<close> compares a byte with 256.\<close>

definition ValidateLWRHash :: "string \<Rightarrow> string option" where
  "ValidateLWRHash h =
     (if length h \<noteq> LWRHashSize then Some ''invalid LWR hash: length''
      else if list_ex (\<lambda>i. of_char (h ! (32 + i)) \<ge> lwrP) [0..<lwrOutputCoeffs]
      then Some ''invalid LWR hash: coefficient out of range'' else None)"

subsection \<open>The block hash\<close>

record BlockHashInput =
  bh_Height :: int
  bh_PrevHash :: string
  bh_AppHash :: string
  bh_Transactions :: "string list"
  bh_PoVLStateRoot :: string
  bh_PoVLProof :: string
  bh_PoVLStepCount :: int

definition zeroPad32 :: "string \<Rightarrow> string" where
  "zeroPad32 b = take 32 (b @ replicate 32 CHR 0x00)"

definition canonicalise :: "BlockHashInput \<Rightarrow> string" where
  "canonicalise input = be_bytes 8 (bh_Height input) @ be_bytes 8 (bh_PoVLStepCount input)
     @ zeroPad32 (bh_PrevHash input) @ zeroPad32 (bh_PoVLStateRoot input)
     @ bh_AppHash input @ bh_PoVLProof input @ concat (bh_Transactions input)"

definition blockHashDomain :: string where
  "blockHashDomain = ''ZYTHERION_BLOCK_HASH_V1''"

definition GenerateBlockHash :: "env \<Rightarrow> BlockHashInput \<Rightarrow> string" where
  "GenerateBlockHash E input =
     (let data = canonicalise input;
          expansion = map (shake256 E (blockHashDomain @ data)) [0..<128]
      in sha3_256 E (blockHashDomain @ data @ expansion))"

text \<open>The LWR hash never returns an error, so the fallback is not taken.\<close>

definition GenerateLWRBlockHashWithFallback :: "env \<Rightarrow> BlockHashInput \<Rightarrow> string option" where
  "GenerateLWRBlockHashWithFallback E input = GenerateLWRBlockHash E (canonicalise input) (bh_PrevHash input)"

subsection \<open>The sequential states\<close>

definition PoVLStateSize :: nat where
  "PoVLStateSize = 32"

definition GeneratePoVLState :: "env \<Rightarrow> string \<Rightarrow> string option" where
  "GeneratePoVLState E prevState =
     (let currentState = zeroPad32 (if prevState = [] then replicate PoVLStateSize CHR 0x00 else prevState) in
      map_option (\<lambda>lwrMix. sha3_256 E (lwrMix @ currentState)) (GenerateLWRBlockHash E currentState currentState))"

fun povl_loop :: "env \<Rightarrow> nat \<Rightarrow> string \<Rightarrow> string option" where
  "povl_loop E 0 state = Some state"
| "povl_loop E (Suc n) state = Option.bind (GeneratePoVLState E state) (povl_loop E n)"

definition ComputePoVLChain :: "env \<Rightarrow> string \<Rightarrow> 64 word \<Rightarrow> string option" where
  "ComputePoVLChain E initialState nSteps = povl_loop E (unat nSteps) (zeroPad32 initialState)"

definition VerifyPoVLChain :: "env \<Rightarrow> string \<Rightarrow> string \<Rightarrow> 64 word \<Rightarrow> bool option" where
  "VerifyPoVLChain E initialState expectedFinalState nSteps =
     map_option (\<lambda>computed. computed = expectedFinalState) (ComputePoVLChain E initialState nSteps)"

subsection \<open>Signed blocks\<close>

record Block =
  bl_Height :: int
  bl_PrevHash :: string
  bl_AppHash :: string
  bl_Transactions :: "string list"
  bl_Hash :: string
  bl_PoVLStateRoot :: string
  bl_PoVLProof :: string
  bl_PoVLStepCount :: int

record SignedBlock =
  sb_Block :: Block
  sb_ValidatorSignature :: string

definition computeHash :: "env \<Rightarrow> Block \<Rightarrow> string" where
  "computeHash E b = GenerateBlockHash E \<lparr>bh_Height = bl_Height b, bh_PrevHash = bl_PrevHash b, bh_AppHash = bl_AppHash b,
     bh_Transactions = bl_Transactions b, bh_PoVLStateRoot = bl_PoVLStateRoot b, bh_PoVLProof = bl_PoVLProof b,
     bh_PoVLStepCount = bl_PoVLStepCount b\<rparr>"

definition NewBlock :: "env \<Rightarrow> int \<Rightarrow> string \<Rightarrow> string \<Rightarrow> string list \<Rightarrow> Block" where
  "NewBlock E height prevHash appHash txs =
     (let b = \<lparr>bl_Height = height, bl_PrevHash = zeroPad32 prevHash, bl_AppHash = appHash, bl_Transactions = txs,
        bl_Hash = [], bl_PoVLStateRoot = replicate PoVLStateSize CHR 0x00, bl_PoVLProof = [], bl_PoVLStepCount = 0\<rparr>
      in b\<lparr>bl_Hash := computeHash E b\<rparr>)"

definition SignBlock :: "env \<Rightarrow> Block \<Rightarrow> string \<Rightarrow> string + SignedBlock" where
  "SignBlock E b privKeyBytes =
     (if bl_Hash b = [] then Inl ''sign block: block hash is empty; call NewBlock first''
      else case pqc_Sign E (bl_Hash b) privKeyBytes of
        None \<Rightarrow> Inl ''sign block''
      | Some sig \<Rightarrow> Inr \<lparr>sb_Block = b, sb_ValidatorSignature = sig\<rparr>)"

definition VerifySignedBlock :: "env \<Rightarrow> SignedBlock \<Rightarrow> string \<Rightarrow> bool" where
  "VerifySignedBlock E sb pubKeyBytes =
     (if bl_Hash (sb_Block sb) = [] \<or> sb_ValidatorSignature sb = [] then False
      else pqc_Verify E (bl_Hash (sb_Block sb)) (sb_ValidatorSignature sb) pubKeyBytes)"

subsection \<open>Sampling ends\<close>

text \<open>
  What is relied on: SHA3-256 digests have 32 bytes, and the stream of SHAKE-256 never stops
  giving 16-bit values below \<open>q\<close>. The second is an idealisation: a uniform stream has
  the property with probability one, the standard does not promise it for every message.
\<close>

definition xof_laws :: "env \<Rightarrow> bool" where
  "xof_laws E \<longleftrightarrow> (\<forall>m. length (sha3_256 E m) = 32) \<and> (\<forall>m n. \<exists>k \<ge> n. le16 (shake256 E m) (2 * k) < 3329)"

lemma le16_nonneg [simp]: "0 \<le> le16 xof pos"
proof -
  have "of_char c = int (of_char c)" for c by (simp add: of_nat_of_char)
  then show ?thesis by (metis le16_def of_nat_0_le_iff of_nat_add of_nat_mult of_nat_numeral)
qed

lemma expand_loop_total:
  assumes "\<forall>n. \<exists>k \<ge> n. le16 xof (2 * k) < 3329"
  shows "length a + d = 256 \<Longrightarrow> \<exists>r. expand_loop xof (2 * m) a = Some r"
proof (induction d arbitrary: m a)
  case 0
  then show ?case by (subst expand_loop.simps) (simp add: lwrN_def)
next
  case (Suc d)
  obtain k where k: "m \<le> k" "le16 xof (2 * k) < 3329" using assms by blast
  have "length a + Suc d = 256 \<Longrightarrow> m + e = k \<Longrightarrow> \<exists>r. expand_loop xof (2 * m) a = Some r" for e
  proof (induction e arbitrary: m)
    case 0
    then show ?case
      using Suc.IH [of "a @ [le16 xof (2 * m)]" "Suc m"] k(2) by (subst expand_loop.simps) (simp add: lwrN_def lwrQ_def Let_def)
  next
    case (Suc e)
    then show ?case
      using Suc.IH [of "Suc m"] \<open>\<And>m a. length a + d = 256 \<Longrightarrow> \<exists>r. expand_loop xof (2 * m) a = Some r\<close> [of "a @ [le16 xof (2 * m)]" "Suc m"]
      by (subst expand_loop.simps) (simp add: lwrN_def lwrQ_def Let_def)
  qed
  from this [OF Suc.prems, of "k - m"] k(1) show ?case by simp
qed

lemma expand_loop_range:
  assumes "expand_loop xof pos a = Some r" "\<forall>v \<in> set a. 0 \<le> v \<and> v < 3329"
  shows "length r = 256 \<and> (\<forall>v \<in> set r. 0 \<le> v \<and> v < 3329)"
proof -
  have "(\<forall>v \<in> set a. 0 \<le> v \<and> v < 3329) \<longrightarrow> length r = 256 \<and> (\<forall>v \<in> set r. 0 \<le> v \<and> v < 3329)"
  proof (rule expand_loop.raw_induct [where P = "\<lambda>xof pos a r.
      (\<forall>v \<in> set a. 0 \<le> v \<and> v < 3329) \<longrightarrow> length r = 256 \<and> (\<forall>v \<in> set r. 0 \<le> v \<and> v < 3329)", OF _ assms(1)])
    fix loop xof pos a r
    assume IH: "\<And>xof pos a r. loop xof pos a = Some r \<Longrightarrow>
        (\<forall>v \<in> set a. 0 \<le> v \<and> v < 3329) \<longrightarrow> length r = 256 \<and> (\<forall>v \<in> set r. 0 \<le> v \<and> v < 3329)"
      and eq: "(if length a = lwrN then Some a
        else let v = le16 xof pos in loop xof (pos + 2) (if v < lwrQ then a @ [v] else a)) = Some r"
    show "(\<forall>v \<in> set a. 0 \<le> v \<and> v < 3329) \<longrightarrow> length r = 256 \<and> (\<forall>v \<in> set r. 0 \<le> v \<and> v < 3329)"
    proof (cases "length a = lwrN")
      case True
      then show ?thesis using eq by (simp add: lwrN_def)
    next
      case False
      define a' where "a' = (if le16 xof pos < lwrQ then a @ [le16 xof pos] else a)"
      have "loop xof (pos + 2) a' = Some r" using eq False unfolding a'_def Let_def by (simp only: if_False)
      note IH' = IH [OF this]
      have "\<forall>v \<in> set a'. 0 \<le> v \<and> v < 3329" if "\<forall>v \<in> set a. 0 \<le> v \<and> v < 3329"
        using that unfolding a'_def lwrQ_def by auto
      with IH' show ?thesis by blast
    qed
  qed
  with assms(2) show ?thesis by blast
qed

lemma inputToSecret_range: "length (inputToSecret input) = 256 \<and> (\<forall>v \<in> set (inputToSecret input). v \<in> {- 1, 0, 1})"
proof -
  have "length (inputToSecret input) = lwrN \<and> (\<forall>v \<in> set (inputToSecret input). v \<in> {- 1, 0, 1})"
    by (auto simp: inputToSecret_def Let_def)
  then show ?thesis unfolding lwrN_def .
qed

subsection \<open>Multiplication in the ring\<close>

text \<open>coefficient \<open>k\<close> of the product of two polynomials modulo \<open>X ^ 256 + 1\<close>\<close>

definition negacyclic :: "int list \<Rightarrow> int list \<Rightarrow> nat \<Rightarrow> int" where
  "negacyclic a s k = (\<Sum>i<256. if i \<le> k then a ! i * s ! (k - i) else - (a ! i * s ! (256 + k - i)))"

definition poly_term :: "int list \<Rightarrow> int list \<Rightarrow> nat \<times> nat \<Rightarrow> int" where
  "poly_term a s ij = (if fst ij + snd ij \<ge> 256 then - (a ! fst ij * s ! snd ij) else a ! fst ij * s ! snd ij)"

definition small_coeffs :: "int list \<Rightarrow> int list \<Rightarrow> bool" where
  "small_coeffs a s \<longleftrightarrow> length a = 256 \<and> length s = 256 \<and> (\<forall>x \<in> set a. 0 \<le> x \<and> x < 3329) \<and> (\<forall>x \<in> set s. x \<in> {- 1, 0, 1})"

lemma small_product:
  assumes "small_coeffs a s" "i < 256" "j < 256"
  shows "\<bar>a ! i * s ! j\<bar> \<le> 3328"
proof -
  have "0 \<le> a ! i" "a ! i < 3329" "s ! j \<in> {- 1, 0, 1}" using assms by (auto simp: small_coeffs_def)
  then show ?thesis by auto
qed

lemma poly_step_exact:
  assumes "small_coeffs a s" "fst ij < 256" "snd ij < 256" "\<bar>b ! ((fst ij + snd ij) mod 256)\<bar> \<le> 3328 * 65535"
  shows "poly_step a s ij b = b[(fst ij + snd ij) mod 256 := b ! ((fst ij + snd ij) mod 256) + poly_term a s ij]"
proof -
  have p: "\<bar>a ! fst ij * s ! snd ij\<bar> \<le> 3328" using small_product [OF assms(1-3)] .
  have small: "i32 x = x" if "\<bar>x\<bar> \<le> 3328 * 65536" for x by (rule i32_id) (use that in \<open>simp_all add: abs_le_iff\<close>)
  from p have "i32 (a ! fst ij * s ! snd ij) = a ! fst ij * s ! snd ij" by (intro small) linarith
  moreover have "i32 (b ! ((fst ij + snd ij) mod 256) - a ! fst ij * s ! snd ij) = b ! ((fst ij + snd ij) mod 256) - a ! fst ij * s ! snd ij"
    "i32 (b ! ((fst ij + snd ij) mod 256) + a ! fst ij * s ! snd ij) = b ! ((fst ij + snd ij) mod 256) + a ! fst ij * s ! snd ij"
    using p assms(4) by (auto intro!: small simp: abs_le_iff)
  ultimately show ?thesis
    by (cases "256 \<le> fst ij + snd ij") (simp_all add: poly_step_def poly_term_def lwrN_def Let_def split_def)
qed

lemma fold_poly_step:
  assumes "small_coeffs a s"
  shows "\<forall>ij \<in> set ps. fst ij < 256 \<and> snd ij < 256 \<Longrightarrow> length b = 256 \<Longrightarrow> \<forall>k < 256. \<bar>b ! k\<bar> \<le> 3328 * int c \<Longrightarrow>
    c + length ps \<le> 65536 \<Longrightarrow> k < 256 \<Longrightarrow>
    length (fold (poly_step a s) ps b) = 256
    \<and> fold (poly_step a s) ps b ! k = b ! k + sum_list (map (\<lambda>ij. if (fst ij + snd ij) mod 256 = k then poly_term a s ij else 0) ps)
    \<and> \<bar>fold (poly_step a s) ps b ! k\<bar> \<le> 3328 * int (c + length ps)"
proof (induction ps arbitrary: b c)
  case (Cons ij ps)
  let ?m = "(fst ij + snd ij) mod 256" and ?t = "poly_term a s ij"
  define b' where "b' = b[?m := b ! ?m + ?t]"
  have ij: "fst ij < 256" "snd ij < 256" and m: "?m < 256" using Cons.prems(1) by auto
  have t: "\<bar>?t\<bar> \<le> 3328" using small_product [OF assms ij] by (auto simp: poly_term_def)
  have "\<bar>b ! ?m\<bar> \<le> 3328 * int c" using Cons.prems(3) m by blast
  moreover have "int c \<le> 65535" using Cons.prems(4) by simp
  ultimately have step: "poly_step a s ij b = b'" unfolding b'_def by (intro poly_step_exact [OF assms ij]) linarith
  have b': "length b' = 256" "\<forall>k < 256. \<bar>b' ! k\<bar> \<le> 3328 * int (Suc c)" "b' ! k = b ! k + (if ?m = k then ?t else 0)"
    using Cons.prems(2,3,5) t by (auto simp: b'_def nth_list_update abs_le_iff algebra_simps)
  have ps: "\<forall>ij \<in> set ps. fst ij < 256 \<and> snd ij < 256" "Suc c + length ps \<le> 65536" using Cons.prems(1,4) by simp_all
  note IH = Cons.IH [OF ps(1) b'(1,2) ps(2) Cons.prems(5)]
  have "fold (poly_step a s) (ij # ps) b = fold (poly_step a s) ps b'" by (simp add: step)
  moreover have "Suc c + length ps = c + length (ij # ps)" by simp
  moreover have "b ! k + sum_list (map (\<lambda>ij. if (fst ij + snd ij) mod 256 = k then poly_term a s ij else 0) (ij # ps))
      = b' ! k + sum_list (map (\<lambda>ij. if (fst ij + snd ij) mod 256 = k then poly_term a s ij else 0) ps)"
    by (simp add: b'(3))
  ultimately show ?case using IH by metis
qed auto

lemma sum_list_product: "sum_list (map f (List.product xs ys)) = sum_list (map (\<lambda>x. sum_list (map (\<lambda>y. f (x, y)) ys)) xs)"
  by (induction xs) (simp_all add: o_def)

lemma partner:
  assumes "i < (256 :: nat)" "k < 256" "j < 256"
  shows "(i + j) mod 256 = k \<longleftrightarrow> j = (if i \<le> k then k - i else 256 + k - i)"
proof -
  have "(i + j) mod 256 = (if i + j < 256 then i + j else i + j - 256)" using assms by (simp add: mod_if)
  with assms show ?thesis by auto
qed

lemma poly_mul_negacyclic:
  assumes "small_coeffs a s" "k < 256"
  shows "length (poly_mul a s) = 256" "poly_mul a s ! k = negacyclic a s k" "\<bar>poly_mul a s ! k\<bar> \<le> 3328 * 65536"
proof -
  let ?ps = "List.product [0..<256] [0..<256]"
  have ps: "\<forall>ij \<in> set ?ps. fst ij < 256 \<and> snd ij < 256" "length ?ps = 65536" by auto
  have pm: "poly_mul a s = fold (poly_step a s) ?ps (replicate 256 0)" by (simp add: poly_mul_def lwrN_def)
  have prem: "length (replicate 256 0 :: int list) = 256" "\<forall>k < 256. \<bar>(replicate 256 0 :: int list) ! k\<bar> \<le> 3328 * int 0"
    "0 + length ?ps \<le> 65536" by simp_all
  note f = fold_poly_step [OF assms(1) ps(1) prem assms(2), folded pm]
  from f show "length (poly_mul a s) = 256" by (rule conjunct1)
  from conjunct2 [OF conjunct2 [OF f]] show "\<bar>poly_mul a s ! k\<bar> \<le> 3328 * 65536" unfolding ps(2) by simp
  have inner: "(\<Sum>j<256. if (i + j) mod 256 = k then poly_term a s (i, j) else 0)
      = (if i \<le> k then a ! i * s ! (k - i) else - (a ! i * s ! (256 + k - i)))" if i: "i < 256" for i
  proof -
    let ?j = "if i \<le> k then k - i else 256 + k - i"
    have "(\<Sum>j<256. if (i + j) mod 256 = k then poly_term a s (i, j) else 0) = (\<Sum>j<256. if j = ?j then poly_term a s (i, j) else 0)"
      by (rule sum.cong) (use partner [OF i assms(2)] in auto)
    also have "\<dots> = poly_term a s (i, ?j)"
    proof -
      have "?j < 256" using i assms(2) by auto
      then show ?thesis by (simp only: sum.delta finite_lessThan lessThan_iff if_True)
    qed
    also have "\<dots> = (if i \<le> k then a ! i * s ! (k - i) else - (a ! i * s ! (256 + k - i)))"
      using i assms(2) by (simp add: poly_term_def)
    finally show ?thesis .
  qed
  have "poly_mul a s ! k = (\<Sum>i<256. \<Sum>j<256. if (i + j) mod 256 = k then poly_term a s (i, j) else 0)"
    using conjunct1 [OF conjunct2 [OF f]] assms(2) by (simp add: sum_list_product interv_sum_list_conv_sum_set_nat atLeast0LessThan)
  then show "poly_mul a s ! k = negacyclic a s k" using inner by (simp add: negacyclic_def)
qed

lemma round_coeff_exact:
  assumes "\<bar>x\<bar> \<le> 3328 * 65536"
  shows "round_coeff x = (x mod 3329) * 256 div 3329" "0 \<le> round_coeff x" "round_coeff x < 256"
proof -
  have r: "- 3329 < go_rem x 3329" "go_rem x 3329 < 3329"
    using pos_mod_bound [of 3329 "\<bar>x\<bar>"] pos_mod_sign [of 3329 "\<bar>x\<bar>"] by (auto simp: go_rem_def sgn_if)
  have "go_rem (i32 (go_rem x 3329 + 3329)) 3329 = (go_rem x 3329 + 3329) mod 3329"
    using r by (simp add: i32_id go_rem_def [of "go_rem x 3329 + 3329"] sgn_if)
  also have "\<dots> = x mod 3329"
    using mod_minus_eq [of "- x" "3329 :: int"] by (auto simp: go_rem_def sgn_if)
  finally have val: "go_rem (i32 (go_rem x 3329 + 3329)) 3329 = x mod 3329" .
  define v where "v = x mod 3329"
  have v: "0 \<le> v" "v < 3329" by (simp_all add: v_def)
  have "go_quo (i32 (v * 256)) 3329 = v * 256 div 3329" using v by (auto simp: i32_id go_quo_def sgn_if)
  moreover have d: "0 \<le> v * 256 div 3329" "v * 256 div 3329 < 256"
    using v zdiv_mono1 [of "v * 256" "3328 * 256" 3329] by (simp_all add: pos_imp_zdiv_nonneg_iff)
  moreover have "go_rem (v * 256 div 3329) 256 = v * 256 div 3329" using d by (auto simp: go_rem_def sgn_if)
  ultimately show "round_coeff x = (x mod 3329) * 256 div 3329" "0 \<le> round_coeff x" "round_coeff x < 256"
    using val by (simp_all add: round_coeff_def lwrQ_def lwrP_def v_def Let_def)
qed

lemma polyMulRound_coeff:
  assumes "small_coeffs a s" "k < 256"
  shows "polyMulRound a s ! k = (negacyclic a s k mod 3329) * 256 div 3329" "0 \<le> polyMulRound a s ! k" "polyMulRound a s ! k < 256"
  using poly_mul_negacyclic [OF assms] round_coeff_exact [of "poly_mul a s ! k"] assms(2) by (simp_all add: polyMulRound_def)

lemma ValidateLWRHash_length: "ValidateLWRHash h = None \<longleftrightarrow> length h = 96"
proof -
  have "\<not> 256 \<le> (of_char c :: int)" for c
    using of_char_less_256 [of c] by (metis not_le of_nat_less_iff of_nat_numeral of_nat_of_char)
  then show ?thesis by (simp add: ValidateLWRHash_def LWRHashSize_def lwrP_def list_ex_iff)
qed

lemma hash_total:
  assumes "xof_laws E"
  obtains h a where "GenerateLWRBlockHash E input prevHash = Some h" "expandMatrix E (sha3_256 E (input @ prevHash)) = Some a"
    "small_coeffs a (inputToSecret input)" "length h = 96" "take 32 h = sha3_256 E (input @ prevHash)"
    "\<forall>k < 64. of_char (h ! (32 + k)) = (negacyclic a (inputToSecret input) k mod 3329) * 256 div 3329"
proof -
  let ?seed = "sha3_256 E (input @ prevHash)" and ?s = "inputToSecret input"
  have len: "length ?seed = 32" and fair: "\<forall>n. \<exists>k \<ge> n. le16 (shake256 E (''A'' @ ?seed)) (2 * k) < 3329"
    using assms by (simp_all add: xof_laws_def)
  obtain a where a: "expandMatrix E ?seed = Some a"
    using expand_loop_total [OF fair, of "[]" 256 0] by (auto simp: expandMatrix_def)
  then have sm: "small_coeffs a ?s"
    using expand_loop_range [of _ 0 "[]" a] inputToSecret_range [of input] by (auto simp: expandMatrix_def small_coeffs_def)
  define h where "h = ?seed @ map (\<lambda>i. char_of (polyMulRound a ?s ! i mod 256)) [0..<lwrOutputCoeffs]"
  have run: "GenerateLWRBlockHash E input prevHash = Some h"
    using len by (simp add: GenerateLWRBlockHash_def computeSeed_def a h_def)
  have "of_char (h ! (32 + k)) = (negacyclic a ?s k mod 3329) * 256 div 3329" if "k < 64" for k
  proof -
    have "h ! (32 + k) = char_of (polyMulRound a ?s ! k mod 256)" using that len by (simp add: h_def nth_append lwrOutputCoeffs_def)
    moreover have "of_char (char_of (v mod 256)) = v" if "0 \<le> v" "v < 256" for v :: int using that by simp
    ultimately show ?thesis using polyMulRound_coeff [OF sm, of k] that by simp
  qed
  moreover have "length h = 96" "take 32 h = ?seed" using len by (simp_all add: h_def lwrOutputCoeffs_def)
  ultimately show thesis using that [OF run a sm] by blast
qed

lemma povl_total:
  assumes "xof_laws E"
  shows "length state = 32 \<Longrightarrow> \<exists>r. povl_loop E n state = Some r \<and> length r = 32"
proof (induction n arbitrary: state)
  case (Suc n)
  obtain h where "GenerateLWRBlockHash E state state = Some h" by (rule hash_total [OF assms])
  then have "GeneratePoVLState E state = Some (sha3_256 E (h @ state))"
    using Suc.prems by (auto simp: GeneratePoVLState_def Let_def zeroPad32_def)
  then show ?case using Suc.IH assms by (simp add: xof_laws_def)
qed simp

lemma length_zeroPad32 [simp]: "length (zeroPad32 b) = 32"
  by (simp add: zeroPad32_def)

lemma zeroPad32_id: "length b = 32 \<Longrightarrow> zeroPad32 b = b"
  by (simp add: zeroPad32_def)

lemma ComputePoVLChain_total:
  assumes "xof_laws E"
  obtains r where "ComputePoVLChain E s n = Some r" "length r = 32"
  using povl_total [OF assms, of "zeroPad32 s" "unat n"] by (auto simp: ComputePoVLChain_def)

lemma env0_xof_laws: "xof_laws env0"
proof -
  have "le16 (shake256 env0 m) (2 * n) < 3329" for m n by (simp add: le16_def env0_def)
  moreover have "length (sha3_256 env0 m) = 32" for m by (simp add: env0_def)
  ultimately show ?thesis unfolding xof_laws_def by blast
qed

subsection \<open>Properties\<close>

text \<open>
  C18. The optimised multiplication is multiplication in the ring: for coefficients in the
  sampled ranges the double loop over wrapped 32-bit integers computes, for every \<open>k\<close>,
  coefficient \<open>k\<close> of the product modulo \<open>X ^ 256 + 1\<close> and \<open>q\<close>, scaled to \<open>[0, p)\<close> by exact
  floor division.
\<close>

theorem polyMulRound_exact:
  assumes "length a = 256" and "length s = 256" and "\<forall>x \<in> set a. 0 \<le> x \<and> x < lwrQ" and "\<forall>x \<in> set s. x \<in> {- 1, 0, 1}" and "k < 256"
  shows "polyMulRound a s ! k = (negacyclic a s k mod lwrQ) * lwrP div lwrQ \<and> 0 \<le> polyMulRound a s ! k \<and> polyMulRound a s ! k < lwrP"
proof -
  have "small_coeffs a s" using assms(1-4) by (simp add: small_coeffs_def lwrQ_def)
  from polyMulRound_coeff [OF this assms(5)] show ?thesis by (simp add: lwrQ_def lwrP_def)
qed

theorem polyMulRound_exact_witness:
  "polyMulRound (replicate 256 3000) (replicate 256 (- 1)) ! 255 = (negacyclic (replicate 256 3000) (replicate 256 (- 1)) 255 mod lwrQ) * lwrP div lwrQ"
proof -
  have "polyMulRound (replicate 256 3000) (replicate 256 (- 1)) ! 255 = (negacyclic (replicate 256 3000) (replicate 256 (- 1)) 255 mod lwrQ) * lwrP div lwrQ
    \<and> 0 \<le> polyMulRound (replicate 256 3000) (replicate 256 (- 1)) ! 255 \<and> polyMulRound (replicate 256 3000) (replicate 256 (- 1)) ! 255 < lwrP"
    by (rule polyMulRound_exact) (simp_all add: lwrQ_def)
  then show ?thesis by (rule conjunct1)
qed

text \<open>
  C19. Hashing ends: the sampling loop finds its 256 coefficients, and the hash of every
  payload is the 32-byte seed followed by 64 bytes, each a rounded coefficient of the
  product of the sampled and the secret polynomial. The result is accepted by
  \<open>ValidateLWRHash\<close>, which accepts every string of that length.
\<close>

theorem GenerateLWRBlockHash_total:
  assumes "xof_laws E"
  shows "\<exists>h a. GenerateLWRBlockHash E input prevHash = Some h \<and> expandMatrix E (computeSeed E input prevHash) = Some a
    \<and> length a = 256 \<and> (\<forall>v \<in> set a. 0 \<le> v \<and> v < lwrQ) \<and> take 32 h = computeSeed E input prevHash \<and> ValidateLWRHash h = None
    \<and> (\<forall>k < 64. of_char (h ! (32 + k)) = (negacyclic a (inputToSecret input) k mod lwrQ) * lwrP div lwrQ)"
proof -
  obtain h a where "GenerateLWRBlockHash E input prevHash = Some h" "expandMatrix E (sha3_256 E (input @ prevHash)) = Some a"
    "small_coeffs a (inputToSecret input)" "length h = 96" "take 32 h = sha3_256 E (input @ prevHash)"
    "\<forall>k < 64. of_char (h ! (32 + k)) = (negacyclic a (inputToSecret input) k mod 3329) * 256 div 3329"
    by (rule hash_total [OF assms])
  then show ?thesis
    by (intro exI [of _ h] exI [of _ a]) (simp add: computeSeed_def lwrQ_def lwrP_def ValidateLWRHash_length small_coeffs_def)
qed

theorem GenerateLWRBlockHash_total_witness:
  "\<exists>h. GenerateLWRBlockHash env0 ''payload'' ''prev'' = Some h \<and> ValidateLWRHash h = None"
  using GenerateLWRBlockHash_total [OF env0_xof_laws, of "''payload''" "''prev''"] by blast

text \<open>
  Signed blocks: a new block can be signed with a key of the scheme, and the signed
  block verifies under its public key; its hash is the one computed from its fields.
\<close>

theorem signed_block_verifies:
  assumes "key_pair_ok E kp" and "xof_laws E"
  shows "\<exists>sb. SignBlock E (NewBlock E height prevHash appHash txs) (kp_PrivateKey kp) = Inr sb
    \<and> VerifySignedBlock E sb (kp_PublicKey kp) \<and> bl_Hash (sb_Block sb) = computeHash E (sb_Block sb)"
proof -
  let ?b = "NewBlock E height prevHash appHash txs"
  have "length (bl_Hash ?b) = 32" using assms(2) by (simp add: NewBlock_def Let_def computeHash_def GenerateBlockHash_def xof_laws_def)
  then have ne: "bl_Hash ?b \<noteq> []" by auto
  obtain sig where sig: "pqc_Sign E (bl_Hash ?b) (kp_PrivateKey kp) = Some sig" "pqc_Verify E (bl_Hash ?b) sig (kp_PublicKey kp)"
    using sign_verify [OF assms(1)] by blast
  have "length sig = mode5_SignatureSize E" "0 < mode5_SignatureSize E"
    using sig(2) assms(1) by (auto simp: pqc_Verify_def key_pair_ok_def split: if_splits)
  then have "sig \<noteq> []" by auto
  with sig ne show ?thesis by (simp add: SignBlock_def VerifySignedBlock_def) (simp add: NewBlock_def Let_def computeHash_def)
qed

theorem signed_block_verifies_witness:
  "\<exists>sb. SignBlock env0 (NewBlock env0 7 [] ''app'' [''tx'']) ''keys'' = Inr sb \<and> VerifySignedBlock env0 sb ''keys''"
  using signed_block_verifies [OF env0_key_pair env0_xof_laws, of 7 "[]" "''app''" "[''tx'']"] by auto

end
