(* ===== verification/Proposal.thy ===== *)
theory Proposal
  imports Lwr Hex
begin

section \<open>Block proposals\<close>

text \<open>
  \<open>app/lwr_proposal.go\<close>, \<open>app/pqc_apphash.go\<close>, the overrides of \<open>DeliverTx\<close> and \<open>CheckTx\<close> in
  \<open>app/app.go\<close> and \<open>EndBlock\<close> of \<open>x/privacy/module.go\<close>: a proposer puts a sentinel in front of
  the transactions, with the lattice hash of their bytes, the end of the chain of sequential
  states that starts at the seed of the hash, and a proof; every validator recomputes them.

  The state is the privacy store (its byte values). \<open>None\<close> as a result is a run that does
  not end, which the hash excludes; a slice out of range is a panic. A slice expression is
  bounded by the length of the transaction: the decoder gives it no spare capacity.
\<close>

definition LatestPQCHashKey :: string where
  "LatestPQCHashKey = ''pqc_hash/latest''"

definition lwrMarkerUint32 :: int where
  "lwrMarkerUint32 = 0x4C575248"

definition lwrVersion :: int where
  "lwrVersion = 1"

definition lwrHeaderSize :: nat where
  "lwrHeaderSize = 4 + 4"

definition povlRootSize :: nat where
  "povlRootSize = PoVLStateSize"

definition povlStepSize :: nat where
  "povlStepSize = 8"

definition mock_proof :: string where
  "mock_proof = ''mock-groth16-proof-for-povl''"

text \<open>\<open>binary.BigEndian.Uint32\<close> and \<open>Uint64\<close>\<close>

definition be_value :: "string \<Rightarrow> int" where
  "be_value s = foldl (\<lambda>a c. 256 * a + of_char c) 0 s"

definition slice :: "nat \<Rightarrow> nat \<Rightarrow> string \<Rightarrow> string" where
  "slice i j s = take (j - i) (drop i s)"

definition buildTxPayload :: "string list \<Rightarrow> string" where
  "buildTxPayload txs = concat txs"

definition getPrevPQCHash :: "string kv \<Rightarrow> string" where
  "getPrevPQCHash st = (case kv_get st LatestPQCHashKey of None \<Rightarrow> replicate 32 CHR 0x00 | Some h \<Rightarrow> h)"

definition GetLatestPQCHash :: "string kv \<Rightarrow> string option" where
  "GetLatestPQCHash st = kv_get st LatestPQCHashKey"

definition commitLWRHash :: "string \<Rightarrow> string kv \<Rightarrow> string kv" where
  "commitLWRHash h st = kv_set ''lwr_proposal_hash'' h st"

text \<open>Each part is copied into its slot of a zeroed buffer.\<close>

definition fit :: "nat \<Rightarrow> string \<Rightarrow> string" where
  "fit n s = take n (s @ replicate n CHR 0x00)"

definition buildPoVLSentinel :: "string \<Rightarrow> string \<Rightarrow> 64 word \<Rightarrow> string \<Rightarrow> string" where
  "buildPoVLSentinel lwrHash povlRoot steps pf =
     be_bytes 4 lwrMarkerUint32 @ be_bytes 4 lwrVersion @ fit LWRHashSize lwrHash @ fit povlRootSize povlRoot
     @ be_bytes 8 (uint steps) @ be_bytes 4 (int (length pf)) @ pf"

definition LWRPrepareProposal :: "env \<Rightarrow> string kv \<Rightarrow> string list \<Rightarrow> string list option" where
  "LWRPrepareProposal E st txs =
     Option.bind (GenerateLWRBlockHash E (buildTxPayload txs) (getPrevPQCHash st)) (\<lambda>lwrHash.
     Option.bind (ComputePoVLChain E (take 32 lwrHash) 10) (\<lambda>povlRoot.
     Some (buildPoVLSentinel lwrHash povlRoot 10 mock_proof # txs)))"

datatype proposal_status = ACCEPT | REJECT string | PANIC

definition LWRProcessProposal :: "env \<Rightarrow> string list \<Rightarrow> string kv \<Rightarrow> (proposal_status \<times> string kv) option" where
  "LWRProcessProposal E txs st = (case txs of
     [] \<Rightarrow> Some (REJECT ''no transactions (missing PoVL sentinel)'', st)
   | sentinel # userTxs \<Rightarrow>
       if length sentinel < lwrHeaderSize then Some (REJECT ''sentinel too short'', st)
       else if be_value (slice 0 4 sentinel) \<noteq> lwrMarkerUint32 then Some (REJECT ''sentinel magic mismatch'', st)
       else if length sentinel < lwrHeaderSize + LWRHashSize + povlRootSize + povlStepSize
       then Some (REJECT ''sentinel payload too short'', st)
       else let offset1 = lwrHeaderSize; claimedHash = slice offset1 (offset1 + LWRHashSize) sentinel;
                offset2 = offset1 + LWRHashSize; claimedPoVLRoot = slice offset2 (offset2 + povlRootSize) sentinel;
                offset3 = offset2 + povlRootSize; claimedSteps = word_of_int (be_value (slice offset3 (offset3 + povlStepSize) sentinel)) :: 64 word;
                offset4 = offset3 + povlStepSize
            in if length sentinel < offset4 + 4 then Some (PANIC, st)
               else let proofLen = nat (be_value (slice offset4 (offset4 + 4) sentinel)); offset5 = offset4 + 4
                    in if length sentinel < offset5 + proofLen then Some (REJECT ''sentinel proof length exceeds bounds'', st)
                       else let claimedProof = slice offset5 (offset5 + proofLen) sentinel in
                         Option.bind (GenerateLWRBlockHash E (buildTxPayload userTxs) (getPrevPQCHash st)) (\<lambda>expectedHash.
                           if claimedHash \<noteq> expectedHash then Some (REJECT ''LWR hash mismatch'', st)
                           else case ValidateLWRHash expectedHash of
                             Some _ \<Rightarrow> Some (REJECT ''LWR hash validation failed'', st)
                           | None \<Rightarrow>
                               if claimedProof \<noteq> mock_proof then Some (REJECT ''PoVL proof verification failed'', st)
                               else Option.bind (VerifyPoVLChain E (take 32 expectedHash) claimedPoVLRoot claimedSteps) (\<lambda>ok.
                                 if \<not> ok then Some (REJECT ''PoVL sequential state evolution mismatch'', st)
                                 else Some (ACCEPT, commitLWRHash expectedHash st))))"

subsection \<open>Transactions that look like a sentinel\<close>

definition is_sentinel :: "string \<Rightarrow> bool" where
  "is_sentinel tx \<longleftrightarrow> 8 \<le> length tx \<and> be_value (slice 0 4 tx) = 0x4C575248"

text \<open>The SDK's own handler is the argument \<open>base\<close>; a response is its code and log.\<close>

definition DeliverTx :: "(string \<Rightarrow> 's \<Rightarrow> (nat \<times> string) \<times> 's) \<Rightarrow> string \<Rightarrow> 's \<Rightarrow> (nat \<times> string) \<times> 's" where
  "DeliverTx base tx s =
     (if is_sentinel tx then ((0, ''PoVL Sentinel processed deterministically''), s) else base tx s)"

definition CheckTx :: "(string \<Rightarrow> 's \<Rightarrow> (nat \<times> string) \<times> 's) \<Rightarrow> string \<Rightarrow> 's \<Rightarrow> (nat \<times> string) \<times> 's" where
  "CheckTx base tx s =
     (if is_sentinel tx then ((1, ''PoVL Sentinel cannot be submitted via mempool''), s) else base tx s)"

subsection \<open>The chain of block hashes\<close>

definition privacy_EndBlock :: "env \<Rightarrow> int \<Rightarrow> string \<Rightarrow> string \<Rightarrow> string kv \<Rightarrow> string kv option" where
  "privacy_EndBlock E height dataHash appHash st =
     (let prev = (case kv_get st LatestPQCHashKey of None \<Rightarrow> [] | Some h \<Rightarrow> h) in
      map_option (\<lambda>h. kv_set LatestPQCHashKey h st)
        (GenerateLWRBlockHashWithFallback E \<lparr>bh_Height = height, bh_PrevHash = prev, bh_AppHash = appHash,
           bh_Transactions = [dataHash], bh_PoVLStateRoot = [], bh_PoVLProof = [], bh_PoVLStepCount = 0\<rparr>))"

subsection \<open>Reading the sentinel\<close>

lemma length_fit [simp]: "length (fit n s) = n"
  by (simp add: fit_def)

lemma fit_id: "length s = n \<Longrightarrow> fit n s = s"
  by (simp add: fit_def)

lemma be_value_snoc: "be_value (s @ [c]) = 256 * be_value s + of_char c"
  by (simp add: be_value_def)

lemma be_bytes_Suc: "be_bytes (Suc n) v = be_bytes n (v div 256) @ [char_of v]"
proof -
  have "map (\<lambda>i. char_of (v div 256 ^ i)) (rev [0..<Suc n]) = map (\<lambda>i. char_of (v div 256 ^ Suc i)) (rev [0..<n]) @ [char_of v]"
  proof -
    have "[0..<Suc n] = 0 # map Suc [0..<n]" by (metis upt_conv_Cons map_Suc_upt zero_less_Suc)
    then show ?thesis by (simp add: rev_map o_def)
  qed
  then show ?thesis by (simp add: be_bytes_def div_mult2_eq zdiv_zmult2_eq)
qed

lemma be_value_bytes: "be_value (be_bytes n v) = v mod 256 ^ n"
proof (induction n arbitrary: v)
  case 0
  then show ?case by (simp add: be_value_def be_bytes_def)
next
  case (Suc n)
  have "be_value (be_bytes (Suc n) v) = 256 * (v div 256 mod 256 ^ n) + v mod 256"
    by (simp add: be_bytes_Suc be_value_snoc Suc of_char_of)
  also have "\<dots> = v mod (256 * 256 ^ n)" by (simp add: zmod_zmult2_eq)
  finally show ?case by simp
qed

lemma be_value_mod: "0 \<le> v \<Longrightarrow> v < 256 ^ n \<Longrightarrow> be_value (be_bytes n v) = v"
  by (simp add: be_value_bytes)

lemma slice_parts:
  assumes "length a = i" "length b = j - i" "i \<le> j"
  shows "slice i j (a @ b @ c) = b"
  using assms by (simp add: slice_def)

lemma sentinel_parts:
  assumes "length h = 96" "length r = 32" "length pf < 2 ^ 32"
  shows "length (buildPoVLSentinel h r n pf) = 148 + length pf" "be_value (slice 0 4 (buildPoVLSentinel h r n pf)) = lwrMarkerUint32"
    "slice 8 104 (buildPoVLSentinel h r n pf) = h" "slice 104 136 (buildPoVLSentinel h r n pf) = r"
    "be_value (slice 136 144 (buildPoVLSentinel h r n pf)) = uint n" "be_value (slice 144 148 (buildPoVLSentinel h r n pf)) = int (length pf)"
    "slice 148 (148 + length pf) (buildPoVLSentinel h r n pf) = pf"
proof -
  have "uint n < 256 ^ 8" using uint_lt2p [of n] by simp
  moreover have "int (length pf) < 256 ^ 4" using assms(3) by simp
  ultimately have v: "be_value (be_bytes 8 (uint n)) = uint n" "be_value (be_bytes 4 (int (length pf))) = int (length pf)"
    "be_value (be_bytes 4 lwrMarkerUint32) = lwrMarkerUint32"
    by (simp_all add: be_value_mod lwrMarkerUint32_def)
  show "length (buildPoVLSentinel h r n pf) = 148 + length pf" "be_value (slice 0 4 (buildPoVLSentinel h r n pf)) = lwrMarkerUint32"
    "slice 8 104 (buildPoVLSentinel h r n pf) = h" "slice 104 136 (buildPoVLSentinel h r n pf) = r"
    "be_value (slice 136 144 (buildPoVLSentinel h r n pf)) = uint n" "be_value (slice 144 148 (buildPoVLSentinel h r n pf)) = int (length pf)"
    "slice 148 (148 + length pf) (buildPoVLSentinel h r n pf) = pf"
    using assms v by (simp_all add: slice_def buildPoVLSentinel_def LWRHashSize_def povlRootSize_def PoVLStateSize_def fit_id)
qed

text \<open>what the handler requires of the first transaction\<close>

definition sentinel_ok :: "env \<Rightarrow> string \<Rightarrow> string \<Rightarrow> bool" where
  "sentinel_ok E s h \<longleftrightarrow> 148 \<le> length s \<and> be_value (slice 0 4 s) = lwrMarkerUint32 \<and> slice 8 104 s = h
     \<and> 148 + nat (be_value (slice 144 148 s)) \<le> length s
     \<and> slice 148 (148 + nat (be_value (slice 144 148 s))) s = mock_proof
     \<and> ComputePoVLChain E (take 32 h) (word_of_int (be_value (slice 136 144 s))) = Some (slice 104 136 s)"

lemmas proposal_sizes = lwrHeaderSize_def LWRHashSize_def povlRootSize_def PoVLStateSize_def povlStepSize_def

lemma process_exact:
  assumes "xof_laws E" "GenerateLWRBlockHash E (buildTxPayload txs) (getPrevPQCHash st) = Some h"
  shows "if sentinel_ok E s h then LWRProcessProposal E (s # txs) st = Some (ACCEPT, commitLWRHash h st)
    else \<exists>r. LWRProcessProposal E (s # txs) st = Some (r, st) \<and> r \<noteq> ACCEPT"
proof -
  obtain h' where "GenerateLWRBlockHash E (buildTxPayload txs) (getPrevPQCHash st) = Some h'" "length h' = 96"
    by (rule hash_total [OF assms(1)])
  then have len: "ValidateLWRHash h = None" using assms(2) by (simp add: ValidateLWRHash_length)
  obtain r where r: "ComputePoVLChain E (take 32 h) (word_of_int (be_value (slice 136 144 s))) = Some r"
    by (rule ComputePoVLChain_total [OF assms(1)])
  show ?thesis
    using assms(2) len r by (auto simp: LWRProcessProposal_def sentinel_ok_def proposal_sizes VerifyPoVLChain_def Let_def)
qed

text \<open>
  C20. An honest proposal is accepted: on every state and for all transactions the proposer
  finishes, and every validator with the same state accepts what it proposed and records
  the hash of the transactions.
\<close>

theorem honest_proposal_accepted:
  assumes "xof_laws E"
  shows "\<exists>s h. LWRPrepareProposal E st txs = Some (s # txs) \<and> GenerateLWRBlockHash E (buildTxPayload txs) (getPrevPQCHash st) = Some h
    \<and> LWRProcessProposal E (s # txs) st = Some (ACCEPT, commitLWRHash h st) \<and> DeliverTx base s x = ((0, ''PoVL Sentinel processed deterministically''), x)"
proof -
  obtain h where h: "GenerateLWRBlockHash E (buildTxPayload txs) (getPrevPQCHash st) = Some h" "length h = 96"
    by (rule hash_total [OF assms])
  obtain r where r: "ComputePoVLChain E (take 32 h) 10 = Some r" "length r = 32" by (rule ComputePoVLChain_total [OF assms])
  let ?s = "buildPoVLSentinel h r 10 mock_proof"
  have m: "length mock_proof < 2 ^ 32" by (simp add: mock_proof_def)
  note p = sentinel_parts [OF h(2) r(2) m, of 10]
  have "sentinel_ok E ?s h" using p r(1) by (simp add: sentinel_ok_def)
  then have "LWRProcessProposal E (?s # txs) st = Some (ACCEPT, commitLWRHash h st)"
    using process_exact [OF assms h(1), of ?s] by simp
  moreover have "DeliverTx base ?s x = ((0, ''PoVL Sentinel processed deterministically''), x)"
    using p(1,2) by (simp add: DeliverTx_def is_sentinel_def lwrMarkerUint32_def)
  ultimately show ?thesis using h(1) r(1) by (auto simp: LWRPrepareProposal_def)
qed

theorem honest_proposal_accepted_witness:
  "\<exists>s h. LWRPrepareProposal env0 [] [''tx1'', ''tx2''] = Some [s, ''tx1'', ''tx2'']
    \<and> LWRProcessProposal env0 [s, ''tx1'', ''tx2''] [] = Some (ACCEPT, commitLWRHash h [])"
  using honest_proposal_accepted [OF env0_xof_laws, of "[]" "[''tx1'', ''tx2'']" "\<lambda>t x. ((0, []), x)" "()"] by blast

text \<open>
  C21. Exactly the right sentinels are accepted: the handler always ends; it accepts iff the
  first transaction carries the marker, the hash of the other transactions on this state,
  the end of the sequential chain for the step count it names, and the expected proof
  within its length; otherwise nothing is recorded.
\<close>

theorem proposal_accepted_iff:
  assumes "xof_laws E"
  shows "\<exists>r st' h. LWRProcessProposal E (s # txs) st = Some (r, st') \<and> GenerateLWRBlockHash E (buildTxPayload txs) (getPrevPQCHash st) = Some h
    \<and> (r = ACCEPT \<longleftrightarrow> sentinel_ok E s h) \<and> st' = (if r = ACCEPT then commitLWRHash h st else st)"
proof -
  obtain h where h: "GenerateLWRBlockHash E (buildTxPayload txs) (getPrevPQCHash st) = Some h" by (rule hash_total [OF assms])
  from process_exact [OF assms h, of s] h show ?thesis by (cases "sentinel_ok E s h") auto
qed

theorem proposal_accepted_iff_witness:
  "\<exists>r. LWRProcessProposal env0 [''short'', ''tx''] [] = Some (r, []) \<and> r \<noteq> ACCEPT"
proof -
  have "\<not> sentinel_ok env0 ''short'' h" for h by (simp add: sentinel_ok_def)
  then show ?thesis using proposal_accepted_iff [OF env0_xof_laws, of "''short''" "[''tx'']" "[]"] by force
qed

text \<open>
  The hash covers the concatenation of the transactions, not their boundaries: a sentinel
  stays valid when the bytes of the block are cut into transactions differently.
\<close>

lemma proposal_boundaries: "concat txs = concat txs' \<Longrightarrow> LWRProcessProposal E (s # txs) st = LWRProcessProposal E (s # txs') st"
  by (simp only: LWRProcessProposal_def buildTxPayload_def list.case)

text \<open>A sentinel of 144 to 147 bytes with the right marker makes the handler panic.\<close>

lemma proposal_panics:
  assumes "144 \<le> length s" "length s < 148" "be_value (slice 0 4 s) = lwrMarkerUint32"
  shows "LWRProcessProposal E (s # txs) st = Some (PANIC, st)"
  using assms by (simp add: LWRProcessProposal_def proposal_sizes Let_def)

end
