(* ===== verification/GreenBft.thy ===== *)
theory GreenBft
  imports Proposal
begin

section \<open>Adaptive commit timeout\<close>

text \<open>
  \<open>app/greenbft/adaptive_commit.go\<close>, \<open>base_ante_decorator.go\<close> and the end of \<open>EndBlocker\<close> in
  \<open>app/app.go\<close>: transactions that pass the ante chain are counted, a ring buffer keeps the
  counts of the last ten blocks, and the average decides the recommended timeout. The
  average is a quotient of two \<open>float64\<close> values compared with 5; sums of counts below
  \<open>2 ^ 53\<close> are exact there and the comparison is the exact one, \<open>sum < 5 * size\<close>.
\<close>

definition DefaultCommitTimeout :: int where
  "DefaultCommitTimeout = 1000000000"

definition IdleCommitTimeout :: int where
  "IdleCommitTimeout = 5 * 1000000000"

definition LowTxThreshold :: int where
  "LowTxThreshold = 5"

definition rollingWindow :: nat where
  "rollingWindow = 10"

definition adaptiveTimeoutKey :: string where
  "adaptiveTimeoutKey = ''greenbft/timeout_ns''"

record AdaptiveTimeoutManager =
  at_txTotal :: int
  at_txCounts :: "int list"
  at_head :: nat
  at_filled :: bool

definition NewAdaptiveTimeoutManager :: AdaptiveTimeoutManager where
  "NewAdaptiveTimeoutManager = \<lparr>at_txTotal = 0, at_txCounts = replicate rollingWindow 0, at_head = 0, at_filled = False\<rparr>"

definition AddTx :: "AdaptiveTimeoutManager \<Rightarrow> AdaptiveTimeoutManager" where
  "AddTx m = m\<lparr>at_txTotal := i64 (at_txTotal m + 1)\<rparr>"

definition DrainTxCount :: "AdaptiveTimeoutManager \<Rightarrow> int \<times> AdaptiveTimeoutManager" where
  "DrainTxCount m = (at_txTotal m, m\<lparr>at_txTotal := 0\<rparr>)"

definition rolling_size :: "AdaptiveTimeoutManager \<Rightarrow> nat" where
  "rolling_size m = (if at_filled m then rollingWindow else at_head m)"

definition rolling_sum :: "AdaptiveTimeoutManager \<Rightarrow> int" where
  "rolling_sum m = fold (\<lambda>i sum. i64 (sum + at_txCounts m ! i)) [0..<rolling_size m] 0"

text \<open>\<open>rollingAvg() < LowTxThreshold\<close>; the average of nothing is 0\<close>

definition rollingAvg_low :: "AdaptiveTimeoutManager \<Rightarrow> bool" where
  "rollingAvg_low m \<longleftrightarrow> rolling_size m = 0 \<or> rolling_sum m < LowTxThreshold * int (rolling_size m)"

definition SuggestedCommitTimeout :: "AdaptiveTimeoutManager \<Rightarrow> int" where
  "SuggestedCommitTimeout m = (if rollingAvg_low m then IdleCommitTimeout else DefaultCommitTimeout)"

definition GetRecommendedTimeout :: "AdaptiveTimeoutManager \<Rightarrow> int" where
  "GetRecommendedTimeout m = SuggestedCommitTimeout m"

definition RecordBlockLoad :: "int \<Rightarrow> AdaptiveTimeoutManager \<Rightarrow> string kv \<Rightarrow> AdaptiveTimeoutManager \<times> string kv" where
  "RecordBlockLoad txCount m st =
     (let head' = (at_head m + 1) mod rollingWindow;
          m' = m\<lparr>at_txCounts := (at_txCounts m)[at_head m := txCount], at_head := head', at_filled := at_filled m \<or> head' = 0\<rparr>
      in (m', kv_set adaptiveTimeoutKey (be_bytes 8 (SuggestedCommitTimeout m')) st))"

definition GetPersistedTimeout :: "string kv \<Rightarrow> int" where
  "GetPersistedTimeout st = (case kv_get st adaptiveTimeoutKey of
     None \<Rightarrow> DefaultCommitTimeout
   | Some bz \<Rightarrow> if length bz < 8 then DefaultCommitTimeout else i64 (be_value (take 8 bz)))"

text \<open>\<open>BaseAnteDecorator.AnteHandle\<close> around the SDK's handler\<close>

definition BaseAnteHandle :: "('c \<Rightarrow> 't \<Rightarrow> bool \<Rightarrow> 'e option \<times> 'c) \<Rightarrow> 'c \<Rightarrow> 't \<Rightarrow> bool \<Rightarrow> AdaptiveTimeoutManager option \<Rightarrow> ('e option \<times> 'c) \<times> AdaptiveTimeoutManager option" where
  "BaseAnteHandle handler ctx tx simulate manager =
     (let (err, newCtx) = handler ctx tx simulate in
      if err \<noteq> None then ((err, newCtx), manager)
      else ((None, newCtx), if simulate then manager else map_option AddTx manager))"

text \<open>\<open>itoa\<close> of \<open>app/app.go\<close>: the digits in reverse, then the sign; negation wraps\<close>

fun itoa_digits :: "nat \<Rightarrow> int \<Rightarrow> string" where
  "itoa_digits 0 v = []"
| "itoa_digits (Suc fuel) v = (if v > 0 then char_of (48 + v mod 10) # itoa_digits fuel (v div 10) else [])"

definition itoa :: "int \<Rightarrow> string" where
  "itoa v =
     (if v = 0 then ''0''
      else let neg = v < 0; v' = (if neg then i64 (- v) else v); buf = rev (itoa_digits 20 v')
           in if neg then CHR ''-'' # buf else buf)"

definition greenBFTMode :: "int \<Rightarrow> string" where
  "greenBFTMode d = (if d \<ge> IdleCommitTimeout then ''idle'' else ''busy'')"

text \<open>
  The steps of \<open>EndBlocker\<close> around the modules' end blockers, which are the argument
  \<open>mm\<close>: the attributes of the event and \<open>Block.MaxGas\<close>.
\<close>

definition EndBlocker :: "(string kv \<Rightarrow> string kv) \<Rightarrow> AdaptiveTimeoutManager \<Rightarrow> string kv \<Rightarrow> (string \<times> string) list \<times> int \<times> AdaptiveTimeoutManager \<times> string kv" where
  "EndBlocker mm m st =
     (let (txCount, m1) = DrainTxCount m;
          (m2, st1) = RecordBlockLoad txCount m1 st;
          recommended = GetRecommendedTimeout m2;
          st2 = mm st1
      in ([(''recommended_timeout_ms'', itoa (go_quo recommended 1000000)), (''block_tx_count'', itoa txCount), (''mode'', greenBFTMode recommended)],
          - 1, m2, st2))"

subsection \<open>The ring buffer refines the list of the last ten counts\<close>

text \<open>the specification: a list of block counts, newest first, cut to ten\<close>

definition spec_record :: "int \<Rightarrow> int list \<Rightarrow> int list" where
  "spec_record c w = take 10 (c # w)"

definition spec_low :: "int list \<Rightarrow> bool" where
  "spec_low w \<longleftrightarrow> w = [] \<or> sum_list w < 5 * int (length w)"

text \<open>the abstraction: the buffer read backwards from its head\<close>

definition window :: "AdaptiveTimeoutManager \<Rightarrow> int list" where
  "window m = rev (take (at_head m) (at_txCounts m)) @ (if at_filled m then rev (drop (at_head m) (at_txCounts m)) else [])"

definition ring_ok :: "AdaptiveTimeoutManager \<Rightarrow> bool" where
  "ring_ok m \<longleftrightarrow> length (at_txCounts m) = 10 \<and> at_head m < 10 \<and> (\<forall>c \<in> set (at_txCounts m). 0 \<le> c \<and> c < 2 ^ 53)"

lemma ring_new: "ring_ok NewAdaptiveTimeoutManager" "window NewAdaptiveTimeoutManager = []"
  by (simp_all add: ring_ok_def NewAdaptiveTimeoutManager_def rollingWindow_def window_def)

lemma RecordBlockLoad_ring:
  assumes "ring_ok m" "0 \<le> c" "c < 2 ^ 53"
  shows "ring_ok (fst (RecordBlockLoad c m st))" "window (fst (RecordBlockLoad c m st)) = spec_record c (window m)"
proof -
  let ?b = "at_txCounts m" and ?h = "at_head m"
  have len: "length ?b = 10" "?h < 10" using assms(1) by (auto simp: ring_ok_def)
  have "c' \<in> set (?b[?h := c]) \<Longrightarrow> 0 \<le> c' \<and> c' < 2 ^ 53" for c'
    using assms set_update_subset_insert [of ?b ?h c] by (auto simp: ring_ok_def)
  then show "ring_ok (fst (RecordBlockLoad c m st))"
    using len by (simp add: ring_ok_def RecordBlockLoad_def rollingWindow_def Let_def)
  have split: "?b[?h := c] = take ?h ?b @ c # drop (Suc ?h) ?b" using len by (simp add: upd_conv_take_nth_drop)
  have full: "?b = take ?h ?b @ ?b ! ?h # drop (Suc ?h) ?b" using len by (simp add: id_take_nth_drop)
  have dr: "drop ?h ?b = ?b ! ?h # drop (Suc ?h) ?b" using len by (simp add: Cons_nth_drop_Suc)
  show "window (fst (RecordBlockLoad c m st)) = spec_record c (window m)"
  proof (cases "?h = 9")
    case True
    then have "drop (Suc ?h) ?b = []" using len by simp
    with True show ?thesis using len split dr
      by (auto simp: window_def RecordBlockLoad_def spec_record_def rollingWindow_def Let_def)
  next
    case False
    then have h: "(?h + 1) mod 10 = Suc ?h" using len by simp
    have t: "take (Suc ?h) (?b[?h := c]) = take ?h ?b @ [c]" "drop (Suc ?h) (?b[?h := c]) = drop (Suc ?h) ?b"
      using len by (simp_all add: split)
    show ?thesis using len h t dr False
      by (auto simp: window_def RecordBlockLoad_def spec_record_def rollingWindow_def Let_def)
  qed
qed

lemma rolling_sum_exact:
  assumes "ring_ok m"
  shows "rolling_sum m = sum_list (take (rolling_size m) (at_txCounts m))" "rolling_size m \<le> 10"
proof -
  show n: "rolling_size m \<le> 10" using assms by (auto simp: rolling_size_def ring_ok_def rollingWindow_def)
  have len: "length (at_txCounts m) = 10" using assms by (simp add: ring_ok_def)
  have "fold (\<lambda>i sum. i64 (sum + at_txCounts m ! i)) [0..<k] 0 = sum_list (take k (at_txCounts m))
      \<and> 0 \<le> sum_list (take k (at_txCounts m)) \<and> sum_list (take k (at_txCounts m)) \<le> int k * 2 ^ 53" if "k \<le> 10" for k
    using that
  proof (induction k)
    case (Suc k)
    have c: "0 \<le> at_txCounts m ! k" "at_txCounts m ! k < 2 ^ 53" using assms Suc.prems len by (auto simp: ring_ok_def)
    have "take (Suc k) (at_txCounts m) = take k (at_txCounts m) @ [at_txCounts m ! k]"
      using Suc.prems len by (simp add: take_Suc_conv_app_nth)
    moreover have "in_i64 (sum_list (take k (at_txCounts m)) + at_txCounts m ! k)"
      using Suc c by (simp add: in_i64_def)
    ultimately show ?case using Suc c by (simp add: i64_id algebra_simps)
  qed simp
  from this [OF n] show "rolling_sum m = sum_list (take (rolling_size m) (at_txCounts m))" by (simp add: rolling_sum_def)
qed

lemma low_window:
  assumes "ring_ok m"
  shows "rollingAvg_low m = spec_low (window m)"
proof -
  have len: "length (at_txCounts m) = 10" "at_head m < 10" using assms by (auto simp: ring_ok_def)
  have "sum_list (rev (take n b)) + sum_list (rev (drop n b)) = sum_list b" for n and b :: "int list"
    by (simp only: sum_list_rev sum_list_append [symmetric] append_take_drop_id)
  then have "sum_list (window m) = sum_list (take (rolling_size m) (at_txCounts m))" "length (window m) = rolling_size m"
    using len by (simp_all add: window_def rolling_size_def rollingWindow_def sum_list_rev)
  then show ?thesis
    using rolling_sum_exact [OF assms] by (auto simp: rollingAvg_low_def spec_low_def LowTxThreshold_def)
qed

text \<open>
  A component that simulates a specification step by step simulates it along every
  history.
\<close>

locale stepwise_refinement =
  fixes inv :: "'s \<Rightarrow> bool" and ok :: "'c \<Rightarrow> bool" and abs :: "'s \<Rightarrow> 'a" and step :: "'c \<Rightarrow> 's \<Rightarrow> 's" and spec :: "'c \<Rightarrow> 'a \<Rightarrow> 'a"
  assumes step_inv: "inv s \<Longrightarrow> ok c \<Longrightarrow> inv (step c s)"
    and step_abs: "inv s \<Longrightarrow> ok c \<Longrightarrow> abs (step c s) = spec c (abs s)"
begin

lemma history_refines: "inv s \<Longrightarrow> list_all ok cs \<Longrightarrow> inv (fold step cs s) \<and> abs (fold step cs s) = fold spec cs (abs s)"
  by (induction cs arbitrary: s) (simp_all add: step_inv step_abs)

end

definition block_count_ok :: "int \<Rightarrow> bool" where
  "block_count_ok c \<longleftrightarrow> 0 \<le> c \<and> c < 2 ^ 53"

definition record_step :: "int \<Rightarrow> AdaptiveTimeoutManager \<times> string kv \<Rightarrow> AdaptiveTimeoutManager \<times> string kv" where
  "record_step c s = RecordBlockLoad c (fst s) (snd s)"

interpretation ring: stepwise_refinement "\<lambda>s. ring_ok (fst s)" block_count_ok "\<lambda>s. window (fst s)" record_step spec_record
  by unfold_locales (auto simp: record_step_def block_count_ok_def RecordBlockLoad_ring)

lemma fold_spec_record: "fold spec_record cs w = take 10 (rev cs @ w)" if "length w \<le> 10"
  using that
proof (induction cs arbitrary: w)
  case (Cons c cs)
  have "take 10 (a @ take 10 x) = take 10 (a @ x)" for a x :: "int list" by (simp add: min_def)
  then have "take 10 (rev cs @ take 10 (c # w)) = take 10 (rev cs @ c # w)" .
  with Cons.IH [of "spec_record c w"] show ?case by (simp add: spec_record_def)
qed simp

lemma persisted_timeout: "GetPersistedTimeout (snd (RecordBlockLoad c m st)) = SuggestedCommitTimeout (fst (RecordBlockLoad c m st))"
proof -
  have "be_value (be_bytes 8 (SuggestedCommitTimeout m')) = SuggestedCommitTimeout m'" "in_i64 (SuggestedCommitTimeout m')" for m'
    by (simp_all add: SuggestedCommitTimeout_def IdleCommitTimeout_def DefaultCommitTimeout_def be_value_mod in_i64_def)
  then show ?thesis by (simp add: RecordBlockLoad_def GetPersistedTimeout_def Let_def kv_simps i64_id)
qed

text \<open>
  C22. The ring buffer refines a sliding window: after any history of blocks the manager
  holds the counts of the last ten, newest first, the recommendation is idle exactly when
  their average is below five, and the recommendation is what a reader finds in the store.
\<close>

theorem timeout_refines_window:
  assumes "list_all block_count_ok cs" and "cs \<noteq> []"
  shows "let (m, st) = fold record_step cs (NewAdaptiveTimeoutManager, st0); w = take 10 (rev cs) in
    window m = w \<and> SuggestedCommitTimeout m = (if sum_list w < 5 * int (length w) then IdleCommitTimeout else DefaultCommitTimeout)
    \<and> GetPersistedTimeout st = SuggestedCommitTimeout m"
proof -
  define s where "s = fold record_step cs (NewAdaptiveTimeoutManager, st0)"
  have r: "ring_ok (fst s)" "window (fst s) = take 10 (rev cs)"
    using ring.history_refines [of "(NewAdaptiveTimeoutManager, st0)" cs] assms(1) ring_new by (simp_all add: s_def fold_spec_record)
  obtain cs' c where cs: "cs = cs' @ [c]" using assms(2) by (metis rev_exhaust)
  have "GetPersistedTimeout (snd s) = SuggestedCommitTimeout (fst s)"
    by (simp add: s_def cs record_step_def persisted_timeout)
  moreover have "SuggestedCommitTimeout (fst s) = (if spec_low (take 10 (rev cs)) then IdleCommitTimeout else DefaultCommitTimeout)"
    using low_window [OF r(1)] r(2) by (simp add: SuggestedCommitTimeout_def)
  moreover have "take 10 (rev cs) \<noteq> []" using assms(2) by simp
  ultimately show ?thesis using r(2) unfolding s_def [symmetric] by (cases s) (simp add: spec_low_def)
qed

theorem timeout_refines_window_witness:
  "SuggestedCommitTimeout (fst (fold record_step [100, 0, 0, 0, 0, 0, 0, 0, 0, 0, 40] (NewAdaptiveTimeoutManager, []))) = IdleCommitTimeout"
proof -
  have "list_all block_count_ok [100, 0, 0, 0, 0, 0, 0, 0, 0, 0, 40]" by (simp add: block_count_ok_def)
  from timeout_refines_window [OF this, of "[]"] show ?thesis by (auto split: prod.splits)
qed

subsection \<open>Decimal strings\<close>

lemma itoa_digits_rev: "0 \<le> v \<Longrightarrow> v < 10 ^ fuel \<Longrightarrow> rev (itoa_digits fuel v) = (if v = 0 then [] else nat_dec (nat v))"
proof (induction fuel arbitrary: v)
  case (Suc fuel)
  show ?case
  proof (cases "v = 0")
    case False
    then have v: "0 < v" using Suc.prems(1) by simp
    have IH: "rev (itoa_digits fuel (v div 10)) = (if v div 10 = 0 then [] else nat_dec (nat (v div 10)))"
      using Suc.prems by (intro Suc.IH) (simp_all add: div_less_iff_less_mult pos_imp_zdiv_nonneg_iff)
    have d: "char_of (48 + v mod 10) = digit_char (nat v mod 10)"
    proof -
      have "digit_char (nat v mod 10) = char_of (int (48 + nat v mod 10))" by (simp only: digit_char_def char_of_nat)
      also have "int (48 + nat v mod 10) = 48 + v mod 10" using v by (simp add: nat_mod_distrib zmod_int)
      finally show ?thesis by simp
    qed
    have q: "nat (v div 10) = nat v div 10" using v by (simp add: nat_div_distrib)
    show ?thesis
    proof (cases "v < 10")
      case True
      then have "v div 10 = 0" "nat v < 10" using v by simp_all
      then show ?thesis using v d IH by (subst nat_dec.simps) simp
    next
      case False
      then have "v div 10 \<noteq> 0" "\<not> nat v < 10" using v by auto
      then show ?thesis using v d IH q by (subst nat_dec.simps) simp
    qed
  qed simp
qed simp

text \<open>
  The hand-written conversion prints every 64-bit value in decimal, except the least
  one: its negation wraps to itself and only the sign is printed.
\<close>

theorem itoa_exact:
  assumes "in_i64 v"
  shows "itoa v = (if v = - (2 ^ 63) then ''-'' else int_dec v)"
proof -
  consider "v = 0" | "v = - (2 ^ 63)" | "v \<noteq> - (2 ^ 63)" "v < 0" | "0 < v" by linarith
  then show ?thesis
  proof cases
    case 1
    have "digit_char 0 = CHR ''0''" by code_simp
    with 1 show ?thesis by (simp add: itoa_def int_dec_def nat_dec.simps)
  next
    case 2
    have "i64 (2 ^ 63) = - (2 ^ 63)" by (simp add: i64_def signed_take_bit_eq_if_negative)
    moreover have "itoa_digits n (- (2 ^ 63)) = []" for n by (cases n) simp_all
    ultimately show ?thesis using 2 by (simp add: itoa_def)
  next
    case 3
    then have "i64 (- v) = - v" using assms by (intro i64_id) (simp add: in_i64_def)
    with 3 assms show ?thesis using itoa_digits_rev [of "- v" 20] by (simp add: itoa_def int_dec_def in_i64_def)
  next
    case 4
    with assms show ?thesis using itoa_digits_rev [of v 20] by (simp add: itoa_def int_dec_def in_i64_def)
  qed
qed

theorem itoa_exact_witness: "itoa (- 1234) = int_dec (- 1234) \<and> itoa (- (2 ^ 63)) = ''-''"
  using itoa_exact [of "- 1234"] itoa_exact [of "- (2 ^ 63)"] by (simp add: in_i64_def)

end
