(* ===== verification/Sharding.thy ===== *)
theory Sharding
  imports Distributor
begin

section \<open>Distribution and reconstruction work together\<close>

text \<open>
  What a node posts is accepted and stored by every node that can write it, each shard is
  placed on different nodes of the cluster, and shards collected from the disk and from
  peers give the ciphertext back.
\<close>

subsection \<open>JSON\<close>

text \<open>
  What is used of \<open>json.Unmarshal\<close>: it gives back an upload whose strings are hexadecimal,
  and it refuses a text that is cut before its closing brace.
\<close>

definition hex_text :: "string \<Rightarrow> bool" where
  "hex_text s \<longleftrightarrow> (\<exists>b. s = hex_EncodeToString b)"

definition hex_upload :: "ShardUpload \<Rightarrow> bool" where
  "hex_upload u \<longleftrightarrow> in_i64 (su_Index u) \<and> hex_text (su_CommitmentHex u) \<and> hex_text (su_DataHex u) \<and> hex_text (su_MerkleRootHex u)
     \<and> hex_text (su_MerkleProofHex u) \<and> hex_text (su_ProposerPubkeyHex u) \<and> hex_text (su_SignatureHex u)"

definition json_laws :: "(string \<Rightarrow> ShardUpload option) \<Rightarrow> bool" where
  "json_laws J \<longleftrightarrow> (\<forall>u. hex_upload u \<longrightarrow> J (json_Marshal u) = Some u) \<and> (\<forall>s. CHR ''}'' \<notin> set s \<longrightarrow> J s = None)"

subsection \<open>Proof bytes\<close>

lemma tree_depth_4 [simp]: "tree_depth = 4"
  by (simp add: tree_depth_def erasure_params log2_16)

lemma concat_chunks:
  assumes "\<forall>h \<in> set hs. length h = (32 :: nat)" "i < length hs"
  shows "take 32 (drop (i * 32) (concat hs)) = hs ! i"
  using assms
proof (induction hs arbitrary: i)
  case (Cons h hs)
  then show ?case by (cases i) simp_all
qed simp

lemma length_concat_32: "\<forall>h \<in> set hs. length h = (32 :: nat) \<Longrightarrow> length (concat hs) = 32 * length hs"
  by (induction hs) simp_all

lemma parse_serialize:
  assumes "length (mp_Path p) = 4" "\<forall>h \<in> set (mp_Path p). length h = 32"
  shows "parse_proof (mp_LeafIndex p) (serializeProof (Some p)) = p" "length (serializeProof (Some p)) = 128"
proof -
  have "map (\<lambda>i. take 32 (drop (i * 32) (concat (mp_Path p)))) [0..<4] = mp_Path p"
    by (rule nth_equalityI) (use assms concat_chunks [OF assms(2)] in simp_all)
  then show "parse_proof (mp_LeafIndex p) (serializeProof (Some p)) = p"
    by (simp add: parse_proof_def serializeProof_def)
  show "length (serializeProof (Some p)) = 128"
    using assms length_concat_32 [OF assms(2)] by (simp add: serializeProof_def)
qed

subsection \<open>Receiving what was posted\<close>

lemma decode_field_hex: "decode_field (hex_EncodeToString b) bad msg = (if bad b then Inl (http_Error msg 400) else Inr b)"
  by (simp add: decode_field_def)

text \<open>a distributor without keys, or with a key pair of the scheme\<close>

definition signer_ok :: "env \<Rightarrow> ShardDistributor \<Rightarrow> bool" where
  "signer_ok E d \<longleftrightarrow>
     sd_signingPrivKey d = [] \<and> sd_signingPubKey d = [] \<and> 0 < mode5_PublicKeySize E \<and> 0 < mode5_SignatureSize E
     \<or> key_pair_ok E \<lparr>kp_PublicKey = sd_signingPubKey d, kp_PrivateKey = sd_signingPrivKey d\<rparr>"

text \<open>the upload inside a posted request\<close>

definition upload_of :: "env \<Rightarrow> string \<Rightarrow> int \<Rightarrow> string \<Rightarrow> string \<Rightarrow> string \<Rightarrow> string \<Rightarrow> string \<Rightarrow> ShardUpload" where
  "upload_of E c i data root pf pk sig = \<lparr>su_CommitmentHex = hex_EncodeToString c, su_Index = i,
     su_DataHex = hex_EncodeToString data, su_MerkleRootHex = hex_EncodeToString root,
     su_MerkleProofHex = hex_EncodeToString pf,
     su_ProposerPubkeyHex = (if length pk = mode5_PublicKeySize E then hex_EncodeToString pk else []),
     su_SignatureHex = (if length sig = mode5_SignatureSize E then hex_EncodeToString sig else [])\<rparr>"

lemma hex_text_simps [simp]: "hex_text (hex_EncodeToString b)" "hex_text []"
  by (auto simp: hex_text_def intro: exI [of _ "[]"])

lemma hex_upload_of [simp]: "in_i64 i \<Longrightarrow> hex_upload (upload_of E c i data root pf pk sig)"
  by (simp add: hex_upload_def upload_of_def)

lemma shard_request_body: "rq_Body (shard_request E n c i data root pf pk sig) = Some (json_Marshal (upload_of E c i data root pf pk sig))"
  by (simp add: shard_request_def upload_of_def Let_def)

lemma signed_upload:
  assumes "signer_ok E d" "signShardData E d data = Inr sig"
  shows "check_signature E (upload_of E c i data root pf (sd_signingPubKey d) sig) data = None"
proof -
  consider "sd_signingPrivKey d = []" "sd_signingPubKey d = []" "0 < mode5_PublicKeySize E"
    | "key_pair_ok E \<lparr>kp_PublicKey = sd_signingPubKey d, kp_PrivateKey = sd_signingPrivKey d\<rparr>"
    using assms(1) by (auto simp: signer_ok_def)
  then show ?thesis
  proof cases
    case 1
    then show ?thesis by (simp add: check_signature_def upload_of_def)
  next
    case 2
    then have "sig = mode5_Sign E (sd_signingPrivKey d) (sha256 data)"
      using assms(2) by (auto simp: signShardData_def pqc_Sign_def key_pair_ok_def split: if_splits)
    with 2 show ?thesis
      by (auto simp: check_signature_def upload_of_def key_pair_ok_def decode_field_hex pqc_Verify_def simp flip: length_greater_0_conv)
  qed
qed

lemma post_accepted:
  assumes "json_laws J" "signer_ok E d" "signShardData E d (sr_Data sr) = Inr sig"
    and tree: "BuildMerkleTree shards = Inr tree" "distinct (map sr_Index shards)" "sr \<in> set shards"
      "ProofForShard tree (sr_Index sr) = Inr pf"
    and req: "r = shard_request E n c (sr_Index sr) (sr_Data sr) (Root tree) (serializeProof (Some pf)) (sd_signingPubKey d) sig"
    and fits: "rq_Body r = Some body" "length body \<le> max_body"
    and store: "StoreShard (sd_store d2) c (sr_Index sr) (sr_Data sr) = (None, s')"
  shows "handlePostShard E J (r\<lparr>rq_RemoteAddr := a\<rparr>) d2 = (\<lparr>rp_Status = 201, rp_ShardSignature = [], rp_Body = []\<rparr>, d2\<lparr>sd_store := s'\<rparr>)"
proof -
  let ?u = "upload_of E c (sr_Index sr) (sr_Data sr) (Root tree) (serializeProof (Some pf)) (sd_signingPubKey d) sig"
  have ne: "c \<noteq> []" "sr_Data sr \<noteq> []" using store by (simp_all add: StoreShard_None)
  have p: "mp_LeafIndex pf = sr_Index sr" "VerifyProof (Root tree) (sr_Index sr) (sr_Data sr) (Some pf) = None"
    "length (mp_Path pf) = 4" "\<forall>h \<in> set (mp_Path pf). length h = 32" "0 \<le> sr_Index sr" "sr_Index sr < 16" "length (Root tree) = 32"
    using tree_proof [OF tree(1-3)] tree(4) by auto
  note ser = parse_serialize [OF p(3,4)]
  have "rq_Body (r\<lparr>rq_RemoteAddr := a\<rparr>) = Some body" "body = json_Marshal ?u"
    using fits(1) shard_request_body by (simp_all add: req)
  moreover have "in_i64 (sr_Index sr)" using p(5,6) by (simp add: in_i64_def)
  then have "J (json_Marshal ?u) = Some ?u" using assms(1) by (simp add: json_laws_def)
  moreover have "su_CommitmentHex ?u = hex_EncodeToString c" "su_DataHex ?u = hex_EncodeToString (sr_Data sr)"
    "su_MerkleRootHex ?u = hex_EncodeToString (Root tree)" "su_MerkleProofHex ?u = hex_EncodeToString (serializeProof (Some pf))"
    "su_Index ?u = sr_Index sr" by (simp_all add: upload_of_def)
  ultimately show ?thesis
    using ne p ser fits(2) store signed_upload [OF assms(2,3), of c "sr_Index sr" "Root tree" "serializeProof (Some pf)"]
    by (simp add: handlePostShard_def decode_field_hex erasure_params)
qed

subsection \<open>The distribution loop\<close>

text \<open>what one round adds\<close>

definition posted_for :: "env \<Rightarrow> MerkleTree \<Rightarrow> string \<Rightarrow> string list \<Rightarrow> string \<Rightarrow> ShardDistributor \<Rightarrow> ShardResult \<Rightarrow> string \<times> http_request \<Rightarrow> bool" where
  "posted_for E tree n cn c d sr x \<longleftrightarrow> (\<exists>pf sig. ProofForShard tree (sr_Index sr) = Inr pf \<and> signShardData E d (sr_Data sr) = Inr sig
     \<and> fst x \<in> set (assigned_nodes cn (repl_factor cn) c (sr_Index sr)) \<and> fst x \<noteq> n
     \<and> snd x = shard_request E n c (sr_Index sr) (sr_Data sr) (Root tree) (serializeProof (Some pf)) (sd_signingPubKey d) sig)"

definition same_keys :: "ShardDistributor \<Rightarrow> ShardDistributor \<Rightarrow> bool" where
  "same_keys d d' \<longleftrightarrow> sd_signingPrivKey d' = sd_signingPrivKey d \<and> sd_signingPubKey d' = sd_signingPubKey d"

lemma same_keys_cong: "same_keys d d' \<Longrightarrow> posted_for E tree n cn c d' sr x = posted_for E tree n cn c d sr x"
  by (simp add: same_keys_def posted_for_def signShardData_def)

lemma StoreShardSignature_loads:
  "StoreShardSignature s c i sig = (None, s') \<Longrightarrow> LoadShard s' c' j = LoadShard s c' j"
  by (auto simp: StoreShardSignature_def Let_def LoadShard_def kv_simps split: if_splits)

lemma distribute_one_Inr:
  assumes "distribute_one E tree n cn c (sd_signingPubKey d) sr d = (Inr (ns, posts), d')"
  shows "ns = assigned_nodes cn (repl_factor cn) c (sr_Index sr)" "same_keys d d'"
    "x \<in> set posts \<longleftrightarrow> posted_for E tree n cn c d sr x" "fst ` set posts = set ns - {n}"
    "if n \<in> set ns then \<exists>s1. StoreShard (sd_store d) c (sr_Index sr) (sr_Data sr) = (None, s1)
       \<and> (\<forall>c' j. LoadShard (sd_store d') c' j = LoadShard s1 c' j) else d' = d"
proof -
  let ?ns = "assigned_nodes cn (repl_factor cn) c (sr_Index sr)"
  obtain pf sig where ps: "ProofForShard tree (sr_Index sr) = Inr pf" "signShardData E d (sr_Data sr) = Inr sig"
    using assms by (auto simp: distribute_one_def split: sum.splits)
  define req where "req = shard_request E n c (sr_Index sr) (sr_Data sr) (Root tree) (serializeProof (Some pf)) (sd_signingPubKey d) sig"
  have run: "(if n \<in> set ?ns
      then (case StoreShard (sd_store d) c (sr_Index sr) (sr_Data sr) of
          (Some e, s1) \<Rightarrow> (Inl (WrapE ''distributor: failed to store shard locally'' e), d\<lparr>sd_store := s1\<rparr>)
        | (None, s1) \<Rightarrow> (case StoreShardSignature s1 c (sr_Index sr) sig of
            (Some e, s2) \<Rightarrow> (Inl (WrapE ''distributor: failed to store signature'' e), d\<lparr>sd_store := s2\<rparr>)
          | (None, s2) \<Rightarrow> (Inr (?ns, map (\<lambda>p. (p, req)) (filter (\<lambda>p. p \<noteq> n) ?ns)), d\<lparr>sd_store := s2\<rparr>)))
      else (Inr (?ns, map (\<lambda>p. (p, req)) (filter (\<lambda>p. p \<noteq> n) ?ns)), d)) = (Inr (ns, posts), d')"
    using assms by (simp only: distribute_one_def ps sum.case Let_def req_def)
  then have eq: "ns = ?ns" "posts = map (\<lambda>p. (p, req)) (filter (\<lambda>p. p \<noteq> n) ?ns)"
    by (auto split: if_splits prod.splits option.splits)
  then show "ns = ?ns" "fst ` set posts = set ns - {n}" by (auto simp: image_image)
  show "same_keys d d'" using run by (auto simp: same_keys_def split: if_splits prod.splits option.splits)
  show "x \<in> set posts \<longleftrightarrow> posted_for E tree n cn c d sr x"
    by (cases x) (auto simp: eq posted_for_def ps req_def)
  show "if n \<in> set ns then \<exists>s1. StoreShard (sd_store d) c (sr_Index sr) (sr_Data sr) = (None, s1)
       \<and> (\<forall>c' j. LoadShard (sd_store d') c' j = LoadShard s1 c' j) else d' = d"
    using run by (auto simp: eq(1) dest: StoreShardSignature_loads split: if_splits prod.splits option.splits)
qed

lemma distribute_loop_Cons:
  assumes "distribute_loop E tree n cn c (sd_signingPubKey d) (sr # srs) d meta posted = (Inr meta', d', posted')"
  obtains posts d1 where
    "distribute_one E tree n cn c (sd_signingPubKey d) sr d = (Inr (assigned_nodes cn (repl_factor cn) c (sr_Index sr), posts), d1)"
    "same_keys d d1"
    "distribute_loop E tree n cn c (sd_signingPubKey d1) srs d1
       (meta\<lparr>tm_ShardNodeMap := (tm_ShardNodeMap meta)(sr_Index sr \<mapsto> assigned_nodes cn (repl_factor cn) c (sr_Index sr))\<rparr>)
       (posted @ posts) = (Inr meta', d', posted')"
proof -
  obtain ns posts d1 where one: "distribute_one E tree n cn c (sd_signingPubKey d) sr d = (Inr (ns, posts), d1)"
    and rest: "distribute_loop E tree n cn c (sd_signingPubKey d) srs d1
       (meta\<lparr>tm_ShardNodeMap := (tm_ShardNodeMap meta)(sr_Index sr \<mapsto> ns)\<rparr>) (posted @ posts) = (Inr meta', d', posted')"
    using assms by (auto split: prod.splits sum.splits)
  with that [of posts d1] distribute_one_Inr(1,2) [OF one] show thesis by (simp add: same_keys_def)
qed

lemma loop_posts:
  "distribute_loop E tree n cn c (sd_signingPubKey d) srs d meta posted = (Inr meta', d', posted') \<Longrightarrow>
    x \<in> set posted' \<longleftrightarrow> x \<in> set posted \<or> (\<exists>sr \<in> set srs. posted_for E tree n cn c d sr x)"
proof (induction srs arbitrary: d meta posted)
  case (Cons sr srs)
  obtain posts d1 where one: "distribute_one E tree n cn c (sd_signingPubKey d) sr d = (Inr (assigned_nodes cn (repl_factor cn) c (sr_Index sr), posts), d1)"
    "same_keys d d1"
    and rest: "distribute_loop E tree n cn c (sd_signingPubKey d1) srs d1
       (meta\<lparr>tm_ShardNodeMap := (tm_ShardNodeMap meta)(sr_Index sr \<mapsto> assigned_nodes cn (repl_factor cn) c (sr_Index sr))\<rparr>)
       (posted @ posts) = (Inr meta', d', posted')"
    by (rule distribute_loop_Cons [OF Cons.prems])
  from Cons.IH [OF rest] distribute_one_Inr(3) [OF one(1), of x] show ?case by (auto simp: same_keys_cong [OF one(2)])
qed simp

lemma loop_meta:
  "distribute_loop E tree n cn c (sd_signingPubKey d) srs d meta posted = (Inr meta', d', posted') \<Longrightarrow>
    tm_ShardNodeMap meta' i = (if i \<in> sr_Index ` set srs then Some (assigned_nodes cn (repl_factor cn) c i) else tm_ShardNodeMap meta i)
    \<and> tm_MerkleRoot meta' = tm_MerkleRoot meta \<and> tm_CommitmentHash meta' = tm_CommitmentHash meta"
proof (induction srs arbitrary: d meta posted)
  case (Cons sr srs)
  obtain posts d1 where rest: "distribute_loop E tree n cn c (sd_signingPubKey d1) srs d1
       (meta\<lparr>tm_ShardNodeMap := (tm_ShardNodeMap meta)(sr_Index sr \<mapsto> assigned_nodes cn (repl_factor cn) c (sr_Index sr))\<rparr>)
       (posted @ posts) = (Inr meta', d', posted')"
    by (rule distribute_loop_Cons [OF Cons.prems])
  from Cons.IH [OF rest] show ?case by auto
qed simp

lemma loop_sends:
  assumes "distribute_loop E tree n cn c (sd_signingPubKey d) srs d meta posted = (Inr meta', d', posted')" "sr \<in> set srs"
    "p \<in> set (assigned_nodes cn (repl_factor cn) c (sr_Index sr))" "p \<noteq> n"
  shows "\<exists>r. (p, r) \<in> set posted' \<and> posted_for E tree n cn c d sr (p, r)"
  using assms
proof (induction srs arbitrary: d meta posted)
  case (Cons s srs)
  obtain posts d1 where one: "distribute_one E tree n cn c (sd_signingPubKey d) s d = (Inr (assigned_nodes cn (repl_factor cn) c (sr_Index s), posts), d1)"
    "same_keys d d1"
    and rest: "distribute_loop E tree n cn c (sd_signingPubKey d1) srs d1
       (meta\<lparr>tm_ShardNodeMap := (tm_ShardNodeMap meta)(sr_Index s \<mapsto> assigned_nodes cn (repl_factor cn) c (sr_Index s))\<rparr>)
       (posted @ posts) = (Inr meta', d', posted')"
    by (rule distribute_loop_Cons [OF Cons.prems(1)])
  show ?case
  proof (cases "sr = s")
    case True
    then have "p \<in> fst ` set posts" using distribute_one_Inr(4) [OF one(1)] Cons.prems(3,4) by simp
    then obtain r where r: "(p, r) \<in> set posts" by auto
    then have "(p, r) \<in> set posted'" using loop_posts [OF rest, of "(p, r)"] by simp
    with r True show ?thesis using distribute_one_Inr(3) [OF one(1), of "(p, r)"] by blast
  next
    case False
    then show ?thesis using Cons.IH [OF rest] Cons.prems(2-4) by (auto simp: same_keys_cong [OF one(2)])
  qed
qed simp

lemma one_stores:
  assumes "distribute_one E tree n cn c (sd_signingPubKey d) sr d = (Inr (ns, posts), d')" "0 \<le> i" "i < 16"
  shows "LoadShard (sd_store d') c i = (if n \<in> set ns \<and> i = sr_Index sr then Some (sr_Data sr) else LoadShard (sd_store d) c i)"
proof (cases "n \<in> set ns")
  case True
  then obtain s1 where s1: "StoreShard (sd_store d) c (sr_Index sr) (sr_Data sr) = (None, s1)"
      "LoadShard (sd_store d') c i = LoadShard s1 c i"
    using distribute_one_Inr(5) [OF assms(1)] by auto
  from s1(1) have "c \<noteq> []" "0 \<le> sr_Index sr" "sr_Index sr < 16"
      "s1 = (sd_store d)\<lparr>ss_files := kv_set (shardPath (sd_store d) c (sr_Index sr)) (sr_Data sr) (ss_files (sd_store d))\<rparr>"
    by (simp_all add: StoreShard_None)
  then show ?thesis using True s1(2) shardPath_eq [of c c i "sr_Index sr" "sd_store d"] assms(2,3)
    by (auto simp: LoadShard_def kv_simps)
next
  case False
  then show ?thesis using distribute_one_Inr(5) [OF assms(1)] by simp
qed

lemma loop_stores:
  assumes "distribute_loop E tree n cn c (sd_signingPubKey d) srs d meta posted = (Inr meta', d', posted')"
    "distinct (map sr_Index srs)" "0 \<le> i" "i < 16"
  shows "LoadShard (sd_store d') c i =
    (case find (\<lambda>sr. sr_Index sr = i \<and> n \<in> set (assigned_nodes cn (repl_factor cn) c i)) srs of
       Some sr \<Rightarrow> Some (sr_Data sr) | None \<Rightarrow> LoadShard (sd_store d) c i)"
  using assms
proof (induction srs arbitrary: d meta posted)
  case (Cons s srs)
  obtain posts d1 where one: "distribute_one E tree n cn c (sd_signingPubKey d) s d = (Inr (assigned_nodes cn (repl_factor cn) c (sr_Index s), posts), d1)"
    and rest: "distribute_loop E tree n cn c (sd_signingPubKey d1) srs d1
       (meta\<lparr>tm_ShardNodeMap := (tm_ShardNodeMap meta)(sr_Index s \<mapsto> assigned_nodes cn (repl_factor cn) c (sr_Index s))\<rparr>)
       (posted @ posts) = (Inr meta', d', posted')"
    by (rule distribute_loop_Cons [OF Cons.prems(1)])
  have IH: "LoadShard (sd_store d') c i =
    (case find (\<lambda>sr. sr_Index sr = i \<and> n \<in> set (assigned_nodes cn (repl_factor cn) c i)) srs of
       Some sr \<Rightarrow> Some (sr_Data sr) | None \<Rightarrow> LoadShard (sd_store d1) c i)"
    using Cons.IH [OF rest] Cons.prems(2-4) by simp
  note st = one_stores [OF one Cons.prems(3,4)]
  show ?case
  proof (cases "i = sr_Index s")
    case True
    then have "find (\<lambda>sr. sr_Index sr = i \<and> n \<in> set (assigned_nodes cn (repl_factor cn) c i)) srs = None"
      using Cons.prems(2) by (auto simp: find_None_iff image_iff)
    moreover have "find (\<lambda>sr. False) srs = None" by (simp add: find_None_iff)
    ultimately show ?thesis using IH st True by simp
  next
    case False
    with IH st show ?thesis by (auto split: option.splits)
  qed
qed simp

subsection \<open>Placement\<close>

lemma mod_shift_inj:
  assumes "x < m" "y < m" "(p + x) mod m = (p + y) mod (m :: nat)"
  shows "x = y"
proof -
  have le: "b \<le> a" if "a < m" "b < m" "(p + a) mod m = (p + b) mod m" for a b
  proof (rule ccontr)
    assume "\<not> b \<le> a"
    moreover from this have "m dvd b - a" using that(3) mod_eq_dvd_iff_nat [of "p + a" "p + b" m] by simp
    ultimately show False using that(2) dvd_imp_le [of m "b - a"] by simp
  qed
  show ?thesis using le [OF assms] le [OF assms(2,1) assms(3) [symmetric]] by simp
qed

lemma assigned_distinct:
  assumes "distinct cn" "r \<le> length cn"
  shows "distinct (assigned_nodes cn r c i)" "length (assigned_nodes cn r c i) = r" "set (assigned_nodes cn r c i) \<subseteq> set cn"
proof -
  let ?p = "primary_index c i (length cn)"
  have "inj_on (\<lambda>k. cn ! ((?p + k) mod length cn)) {0..<r}"
  proof (rule inj_onI)
    fix x y assume xy: "x \<in> {0..<r}" "y \<in> {0..<r}" "cn ! ((?p + x) mod length cn) = cn ! ((?p + y) mod length cn)"
    then have len: "0 < length cn" "x < length cn" "y < length cn" using assms(2) by auto
    then have "(?p + x) mod length cn = (?p + y) mod length cn"
      using xy(3) assms(1) by (simp add: nth_eq_iff_index_eq)
    with len show "x = y" by (intro mod_shift_inj [of x "length cn" y ?p])
  qed
  then show "distinct (assigned_nodes cn r c i)" by (simp add: assigned_nodes_def distinct_map)
  show "length (assigned_nodes cn r c i) = r" by (simp add: assigned_nodes_def)
  have "cn ! ((?p + x) mod length cn) \<in> set cn" if "x < r" for x
    by (rule nth_mem, rule mod_less_divisor) (use that assms(2) in linarith)
  then show "set (assigned_nodes cn r c i) \<subseteq> set cn" by (auto simp: assigned_nodes_def)
qed

lemma cluster_nodes_facts: "distinct (cluster_nodes getenv n peers)" "n \<in> set (cluster_nodes getenv n peers)"
  by (simp_all add: cluster_nodes_def Let_def del: remdups.simps)

lemma local_node_id_ne [simp]: "local_node_id getenv d \<noteq> []"
  by (simp add: local_node_id_def)

lemma repl_factor_min: "repl_factor cn = min 4 (length cn)"
  by (simp add: repl_factor_def ReplicationFactor_def)

lemma DistributeShards_Inr:
  assumes "DistributeShards E getenv shards c peers d = (Inr meta, d', posted)"
  obtains tree where "BuildMerkleTree shards = Inr tree"
    "distribute_loop E tree (local_node_id getenv d) (cluster_nodes getenv (local_node_id getenv d) peers) c (sd_signingPubKey d) shards d
       \<lparr>tm_CommitmentHash = c, tm_OriginalLen = 0, tm_ShardNodeMap = Map.empty, tm_MerkleRoot = Root tree,
        tm_ProposerPubkey = sd_signingPubKey d\<rparr> [] = (Inr meta, d', posted)"
  using assms that by (auto simp: DistributeShards_def Let_def split: if_splits sum.splits)

lemma placed_locally:
  assumes "DistributeShards E getenv shards c peers d = (Inr meta, d', posted)" "distinct (map sr_Index shards)" "sr \<in> set shards"
    "n = local_node_id getenv d" "cn = cluster_nodes getenv n peers" "n \<in> set (assigned_nodes cn (repl_factor cn) c (sr_Index sr))"
  shows "LoadShard (sd_store d') c (sr_Index sr) = Some (sr_Data sr)"
proof -
  let ?ns = "assigned_nodes cn (repl_factor cn) c (sr_Index sr)"
  obtain tree where tree: "BuildMerkleTree shards = Inr tree" and run: "distribute_loop E tree n cn c (sd_signingPubKey d) shards d
       \<lparr>tm_CommitmentHash = c, tm_OriginalLen = 0, tm_ShardNodeMap = Map.empty, tm_MerkleRoot = Root tree,
        tm_ProposerPubkey = sd_signingPubKey d\<rparr> [] = (Inr meta, d', posted)"
    using DistributeShards_Inr [OF assms(1)] by (metis assms(4,5))
  have i: "0 \<le> sr_Index sr" "sr_Index sr < 16" using tree_proof [OF tree assms(2,3)] by metis+
  obtain sr' where f: "find (\<lambda>s. sr_Index s = sr_Index sr \<and> n \<in> set ?ns) shards = Some sr'"
    using assms(3,6) by (cases "find (\<lambda>s. sr_Index s = sr_Index sr \<and> n \<in> set ?ns) shards") (auto simp: find_None_iff)
  then have "sr' \<in> set shards" "sr_Index sr' = sr_Index sr" by (auto simp: find_Some_iff)
  then have "sr' = sr" using assms(2,3) by (auto simp: distinct_map dest: inj_onD)
  with f loop_stores [OF run assms(2) i] show ?thesis by simp
qed

text \<open>
  C16. Placement: when a distribution succeeds, every shard is recorded on exactly
  \<open>min 4 n\<close> different nodes of the cluster of \<open>n\<close> nodes; the distributing node has stored
  the shard if it is one of them, and to each of the others the upload of this very shard was
  posted: its index and data, the root of the shards' Merkle tree, the shard's proof in that
  tree and the node's signature of the data.
\<close>

theorem shards_placed:
  assumes "DistributeShards E getenv shards c peers d = (Inr meta, d', posted)"
    and "distinct (map sr_Index shards)" and "sr \<in> set shards"
  shows "let n = local_node_id getenv d; cn = cluster_nodes getenv n peers in
    \<exists>ns. tm_ShardNodeMap meta (sr_Index sr) = Some ns \<and> distinct ns \<and> length ns = min 4 (length cn) \<and> set ns \<subseteq> set cn
      \<and> (n \<in> set ns \<longrightarrow> LoadShard (sd_store d') c (sr_Index sr) = Some (sr_Data sr))
      \<and> (\<forall>p \<in> set ns. p \<noteq> n \<longrightarrow> (\<exists>tree pf sig. BuildMerkleTree shards = Inr tree \<and> ProofForShard tree (sr_Index sr) = Inr pf
           \<and> signShardData E d (sr_Data sr) = Inr sig
           \<and> (p, shard_request E n c (sr_Index sr) (sr_Data sr) (Root tree) (serializeProof (Some pf)) (sd_signingPubKey d) sig) \<in> set posted))"
proof -
  define n cn where "n = local_node_id getenv d" and "cn = cluster_nodes getenv n peers"
  let ?ns = "assigned_nodes cn (repl_factor cn) c (sr_Index sr)"
  obtain tree where tree: "BuildMerkleTree shards = Inr tree" and run: "distribute_loop E tree n cn c (sd_signingPubKey d) shards d
       \<lparr>tm_CommitmentHash = c, tm_OriginalLen = 0, tm_ShardNodeMap = Map.empty, tm_MerkleRoot = Root tree,
        tm_ProposerPubkey = sd_signingPubKey d\<rparr> [] = (Inr meta, d', posted)"
    using DistributeShards_Inr [OF assms(1)] by (metis n_def cn_def)
  have ns: "tm_ShardNodeMap meta (sr_Index sr) = Some ?ns" using loop_meta [OF run, of "sr_Index sr"] assms(3) by simp
  have pl: "distinct ?ns" "length ?ns = min 4 (length cn)" "set ?ns \<subseteq> set cn"
    using assigned_distinct [of cn "repl_factor cn" c "sr_Index sr"] cluster_nodes_facts(1) by (simp_all add: repl_factor_min cn_def)
  have "LoadShard (sd_store d') c (sr_Index sr) = Some (sr_Data sr)" if "n \<in> set ?ns"
    by (rule placed_locally [OF assms n_def cn_def that])
  moreover have "\<exists>tree pf sig. BuildMerkleTree shards = Inr tree \<and> ProofForShard tree (sr_Index sr) = Inr pf \<and> signShardData E d (sr_Data sr) = Inr sig
      \<and> (p, shard_request E n c (sr_Index sr) (sr_Data sr) (Root tree) (serializeProof (Some pf)) (sd_signingPubKey d) sig) \<in> set posted"
    if "p \<in> set ?ns" "p \<noteq> n" for p
    using loop_sends [OF run assms(3) that] tree by (auto simp: posted_for_def)
  ultimately show ?thesis using ns pl unfolding Let_def n_def [symmetric] cn_def [symmetric] by blast
qed

text \<open>
  Every request that a distribution posts is accepted: a node that lets the client
  through, can write the file and receives a body within the limit answers 201 and then
  serves exactly the shard's data. The node keeps its keys and its rate limiter counts the
  request.
\<close>

theorem posted_shard_accepted:
  assumes "DistributeShards E getenv shards c peers d = (Inr meta, d', posted)" and "distinct (map sr_Index shards)"
    and "json_laws J" and "signer_ok E d" and "(p, r) \<in> set posted"
  shows "\<exists>sr \<in> set shards. \<forall>now a d2 rl s' body.
    rq_Body r = Some body \<and> length body \<le> max_body \<and> Allow now a (sd_rateLimiter d2) = (True, rl)
      \<and> StoreShard (sd_store d2) c (sr_Index sr) (sr_Data sr) = (None, s') \<longrightarrow>
    shard_endpoint E J now (r\<lparr>rq_RemoteAddr := a\<rparr>) d2
      = (\<lparr>rp_Status = 201, rp_ShardSignature = [], rp_Body = []\<rparr>, d2\<lparr>sd_rateLimiter := rl, sd_store := s'\<rparr>)
    \<and> LoadShard s' c (sr_Index sr) = Some (sr_Data sr)"
proof -
  obtain tree where tree: "BuildMerkleTree shards = Inr tree" and run: "distribute_loop E tree (local_node_id getenv d)
       (cluster_nodes getenv (local_node_id getenv d) peers) c (sd_signingPubKey d) shards d
       \<lparr>tm_CommitmentHash = c, tm_OriginalLen = 0, tm_ShardNodeMap = Map.empty, tm_MerkleRoot = Root tree,
        tm_ProposerPubkey = sd_signingPubKey d\<rparr> [] = (Inr meta, d', posted)"
    by (rule DistributeShards_Inr [OF assms(1)])
  obtain sr where sr: "sr \<in> set shards"
    "posted_for E tree (local_node_id getenv d) (cluster_nodes getenv (local_node_id getenv d) peers) c d sr (p, r)"
    using loop_posts [OF run, of "(p, r)"] assms(5) by auto
  then obtain pf sig where ps: "ProofForShard tree (sr_Index sr) = Inr pf" "signShardData E d (sr_Data sr) = Inr sig"
    "r = shard_request E (local_node_id getenv d) c (sr_Index sr) (sr_Data sr) (Root tree) (serializeProof (Some pf)) (sd_signingPubKey d) sig"
    by (auto simp: posted_for_def)
  have hdr: "rq_Method r = ''POST''" "rq_Authorization r = ''Bearer '' @ local_node_id getenv d"
    by (simp_all add: ps(3) shard_request_def Let_def)
  have "shard_endpoint E J now (r\<lparr>rq_RemoteAddr := a\<rparr>) d2
      = (\<lparr>rp_Status = 201, rp_ShardSignature = [], rp_Body = []\<rparr>, d2\<lparr>sd_rateLimiter := rl, sd_store := s'\<rparr>)
    \<and> LoadShard s' c (sr_Index sr) = Some (sr_Data sr)"
    if h: "rq_Body r = Some body" "length body \<le> max_body" "Allow now a (sd_rateLimiter d2) = (True, rl)"
      "StoreShard (sd_store d2) c (sr_Index sr) (sr_Data sr) = (None, s')" for now a d2 rl s' body
  proof
    have "handlePostShard E J (r\<lparr>rq_RemoteAddr := a\<rparr>) (d2\<lparr>sd_rateLimiter := rl\<rparr>)
        = (\<lparr>rp_Status = 201, rp_ShardSignature = [], rp_Body = []\<rparr>, d2\<lparr>sd_rateLimiter := rl, sd_store := s'\<rparr>)"
      by (rule post_accepted [OF assms(3,4) ps(2) tree assms(2) sr(1) ps(1,3) h(1,2)]) (simp add: h(4))
    then show "shard_endpoint E J now (r\<lparr>rq_RemoteAddr := a\<rparr>) d2
        = (\<lparr>rp_Status = 201, rp_ShardSignature = [], rp_Body = []\<rparr>, d2\<lparr>sd_rateLimiter := rl, sd_store := s'\<rparr>)"
      using h(3) hdr by (simp add: shard_endpoint_def rateLimitMiddleware_def authMiddleware_def shard_switch_def)
    show "LoadShard s' c (sr_Index sr) = Some (sr_Data sr)"
      using h(4) by (auto simp: StoreShard_None LoadShard_def kv_simps)
  qed
  with sr(1) show ?thesis by blast
qed

subsection \<open>Reconstruction\<close>

lemma collect_local_spec:
  assumes "distinct is" "distinct (map sr_Index col)" "sr_Index ` set col \<inter> set is = {}"
  shows "distinct (map sr_Index (collect_local s c is col))"
    "\<forall>x \<in> set (collect_local s c is col). x \<in> set col \<or> sr_Index x \<in> set is \<and> LoadShard s c (sr_Index x) = Some (sr_Data x)"
    "length (collect_local s c is col) < 12 \<Longrightarrow> i \<in> set is \<Longrightarrow> LoadShard s c i \<noteq> None \<Longrightarrow> i \<in> sr_Index ` set (collect_local s c is col)"
    "set col \<subseteq> set (collect_local s c is col)"
proof -
  have "distinct (map sr_Index (collect_local s c is col))
    \<and> (\<forall>x \<in> set (collect_local s c is col). x \<in> set col \<or> sr_Index x \<in> set is \<and> LoadShard s c (sr_Index x) = Some (sr_Data x))
    \<and> (length (collect_local s c is col) < 12 \<longrightarrow> (\<forall>i \<in> set is. LoadShard s c i \<noteq> None \<longrightarrow> i \<in> sr_Index ` set (collect_local s c is col)))
    \<and> set col \<subseteq> set (collect_local s c is col)"
    using assms
  proof (induction "is" arbitrary: col)
    case (Cons j js)
    define col' where "col' = (case LoadShard s c j of None \<Rightarrow> col | Some data \<Rightarrow> col @ [\<lparr>sr_Index = j, sr_Data = data\<rparr>])"
    have step: "collect_local s c (j # js) col = (if 12 \<le> length col' then col' else collect_local s c js col')"
      by (simp add: col'_def Let_def erasure_params)
    have c': "distinct (map sr_Index col')" "sr_Index ` set col' \<inter> set js = {}" "set col \<subseteq> set col'"
      "\<forall>x \<in> set col'. x \<in> set col \<or> sr_Index x = j \<and> LoadShard s c j = Some (sr_Data x)"
      "LoadShard s c j \<noteq> None \<longrightarrow> j \<in> sr_Index ` set col'"
      using Cons.prems by (auto simp: col'_def split: option.splits)
    show ?case
    proof (cases "12 \<le> length col'")
      case True
      with c' show ?thesis unfolding step by auto
    next
      case False
      let ?r = "collect_local s c js col'"
      have r: "collect_local s c (j # js) col = ?r" using False step by simp
      have IH: "distinct (map sr_Index ?r)" "\<forall>x \<in> set ?r. x \<in> set col' \<or> sr_Index x \<in> set js \<and> LoadShard s c (sr_Index x) = Some (sr_Data x)"
        "length ?r < 12 \<Longrightarrow> \<forall>i \<in> set js. LoadShard s c i \<noteq> None \<longrightarrow> i \<in> sr_Index ` set ?r" "set col' \<subseteq> set ?r"
        using Cons.IH [OF _ c'(1,2)] Cons.prems(1) by simp_all
      have "\<forall>x \<in> set ?r. x \<in> set col \<or> sr_Index x \<in> set (j # js) \<and> LoadShard s c (sr_Index x) = Some (sr_Data x)"
        using IH(2) c'(4) by auto
      moreover have "\<forall>i \<in> set (j # js). LoadShard s c i \<noteq> None \<longrightarrow> i \<in> sr_Index ` set ?r" if "length ?r < 12"
        using IH(3) [OF that] image_mono [OF IH(4), of sr_Index] c'(5) by auto
      moreover have "set col \<subseteq> set ?r" using c'(3) IH(4) by (rule subset_trans)
      ultimately show ?thesis unfolding r using IH(1) by (intro conjI impI)
    qed
  qed auto
  then show "distinct (map sr_Index (collect_local s c is col))"
    "\<forall>x \<in> set (collect_local s c is col). x \<in> set col \<or> sr_Index x \<in> set is \<and> LoadShard s c (sr_Index x) = Some (sr_Data x)"
    "length (collect_local s c is col) < 12 \<Longrightarrow> i \<in> set is \<Longrightarrow> LoadShard s c i \<noteq> None \<Longrightarrow> i \<in> sr_Index ` set (collect_local s c is col)"
    "set col \<subseteq> set (collect_local s c is col)" by blast+
qed

text \<open>the nodes recorded for an index and what they answer\<close>

definition remote_shard :: "env \<Rightarrow> (string \<Rightarrow> http_request \<Rightarrow> http_response option) \<Rightarrow> string \<Rightarrow> TFHEShardMeta \<Rightarrow> int \<Rightarrow> string option" where
  "remote_shard E transport n meta i =
     fetch_peers E transport n meta i (case tm_ShardNodeMap meta i of None \<Rightarrow> [] | Some ps \<Rightarrow> ps)"

lemma collect_remote_spec:
  assumes "distinct is" "distinct (map sr_Index col)" "sr_Index ` set col \<inter> set is \<subseteq> have"
  shows "let res = fst (collect_remote E transport n meta have is col s) in distinct (map sr_Index res)
    \<and> (\<forall>x \<in> set res. x \<in> set col \<or> sr_Index x \<in> set is \<and> remote_shard E transport n meta (sr_Index x) = Some (sr_Data x))
    \<and> (length res < 12 \<longrightarrow> (\<forall>i \<in> set is. i \<notin> have \<longrightarrow> remote_shard E transport n meta i \<noteq> None \<longrightarrow> i \<in> sr_Index ` set res))
    \<and> set col \<subseteq> set res"
  using assms
proof (induction "is" arbitrary: col s)
  case (Cons j js)
  have js: "distinct js" "j \<notin> set js" "sr_Index ` set col \<inter> set js \<subseteq> have" using Cons.prems by auto
  consider "12 \<le> length col" | "length col < 12" "j \<in> have \<or> remote_shard E transport n meta j = None"
    | data where "length col < 12" "j \<notin> have" "remote_shard E transport n meta j = Some data" by force
  then show ?case
  proof cases
    case 1
    with Cons.prems(2) show ?thesis by (simp add: erasure_params)
  next
    case 2
    then have "collect_remote E transport n meta have (j # js) col s = collect_remote E transport n meta have js col s"
      by (auto simp: erasure_params remote_shard_def)
    with Cons.IH [OF js(1) Cons.prems(2) js(3), of s] 2(2) show ?thesis unfolding Let_def by auto
  next
    case (3 data)
    let ?col = "col @ [\<lparr>sr_Index = j, sr_Data = data\<rparr>]" and ?s = "snd (StoreShard s (tm_CommitmentHash meta) j data)"
    have st: "collect_remote E transport n meta have (j # js) col s = collect_remote E transport n meta have js ?col ?s"
      using 3 by (simp add: erasure_params remote_shard_def)
    have "j \<notin> sr_Index ` set col" using Cons.prems(3) 3(2) by auto
    then have c': "distinct (map sr_Index ?col)" "sr_Index ` set ?col \<inter> set js \<subseteq> have" using Cons.prems(2) js by auto
    have sub: "set ?col \<subseteq> set (fst (collect_remote E transport n meta have js ?col ?s))"
      using Cons.IH [OF js(1) c', of ?s] by (auto simp: Let_def)
    then have "j \<in> sr_Index ` set (fst (collect_remote E transport n meta have js ?col ?s))" by force
    with Cons.IH [OF js(1) c', of ?s] 3(3) sub show ?thesis unfolding st Let_def by auto
  qed
qed simp

lemma reconstruct_complete:
  assumes "rs_laws R" and "Split R ct = Inr shards" and "tm_OriginalLen meta = int (length ct)"
    and "\<forall>i \<in> {0..15}. \<forall>data. LoadShard (sd_store d) (tm_CommitmentHash meta) i = Some data
      \<or> remote_shard E transport (sd_nodeID d) meta i = Some data \<longrightarrow> \<lparr>sr_Index = i, sr_Data = data\<rparr> \<in> set shards"
    and "12 \<le> card {i \<in> {0..15}. LoadShard (sd_store d) (tm_CommitmentHash meta) i \<noteq> None \<or> remote_shard E transport (sd_nodeID d) meta i \<noteq> None}"
  shows "fst (ReconstructCiphertext E R transport (Some meta) d) = Inr ct"
proof -
  let ?c = "tm_CommitmentHash meta" and ?s = "sd_store d" and ?n = "sd_nodeID d"
  define loc where "loc = collect_local ?s ?c [0..15] []"
  define res where "res = (if length loc < 12 then fst (collect_remote E transport ?n meta (sr_Index ` set loc) [0..15] loc ?s) else loc)"
  have loc: "distinct (map sr_Index loc)" "\<forall>x \<in> set loc. sr_Index x \<in> {0..15} \<and> LoadShard ?s ?c (sr_Index x) = Some (sr_Data x)"
    "length loc < 12 \<Longrightarrow> i \<in> {0..15} \<Longrightarrow> LoadShard ?s ?c i \<noteq> None \<Longrightarrow> i \<in> sr_Index ` set loc" for i
    using collect_local_spec [of "[0..15]" "[]" ?s ?c] by (auto simp: loc_def)
  have rem: "distinct (map sr_Index res)"
    "\<forall>x \<in> set res. x \<in> set loc \<or> sr_Index x \<in> {0..15} \<and> remote_shard E transport ?n meta (sr_Index x) = Some (sr_Data x)"
    "length res < 12 \<Longrightarrow> \<forall>i \<in> {0..15}. i \<notin> sr_Index ` set loc \<longrightarrow> remote_shard E transport ?n meta i \<noteq> None \<longrightarrow> i \<in> sr_Index ` set res"
    "set loc \<subseteq> set res"
    using collect_remote_spec [of "[0..15]" loc "sr_Index ` set loc" E transport ?n meta ?s] loc(1)
    by (auto simp: res_def Let_def split: if_splits)
  have "set res \<subseteq> set shards"
  proof
    fix x assume "x \<in> set res"
    then have "sr_Index x \<in> {0..15} \<and> (LoadShard ?s ?c (sr_Index x) = Some (sr_Data x) \<or> remote_shard E transport ?n meta (sr_Index x) = Some (sr_Data x))"
      using rem(2) loc(2) by blast
    then have "\<lparr>sr_Index = sr_Index x, sr_Data = sr_Data x\<rparr> \<in> set shards" using assms(4) by blast
    then show "x \<in> set shards" by (cases x) simp
  qed
  moreover have card: "card (sr_Index ` set res) = length res" using distinct_card [OF rem(1)] by simp
  moreover have "12 \<le> length res"
  proof (rule ccontr)
    assume "\<not> 12 \<le> length res"
    then have short: "length res < 12" "length loc < 12" by (auto simp: res_def split: if_splits)
    have "{i \<in> {0..15}. LoadShard ?s ?c i \<noteq> None \<or> remote_shard E transport ?n meta i \<noteq> None} \<subseteq> sr_Index ` set res"
      using loc(3) [OF short(2)] rem(3) [OF short(1)] image_mono [OF rem(4), of sr_Index] by fastforce
    then have "12 \<le> card (sr_Index ` set res)" using assms(5) card_mono by (meson List.finite_set finite_imageI le_trans)
    with card short(1) show False by simp
  qed
  ultimately have "ReconstructFromResults R res (tm_OriginalLen meta) = Inr ct"
    using reconstruct_selection [OF assms(1,2)] assms(3) by simp
  then show ?thesis
    using \<open>12 \<le> length res\<close> by (auto simp: ReconstructCiphertext_def erasure_params Let_def res_def loc_def split: prod.splits if_splits)
qed

text \<open>
  C17. Reconstruction: if the node's own shards and every answer of a peer that it accepts
  are genuine shards of the ciphertext, and at least twelve different shards are on its
  disk or are served by some recorded node, then the ciphertext is returned.
\<close>

theorem ReconstructCiphertext_complete:
  assumes "rs_laws R" and "Split R ct = Inr shards" and "tm_OriginalLen meta = int (length ct)"
    and "\<forall>i \<in> {0..15}. \<forall>data. LoadShard (sd_store d) (tm_CommitmentHash meta) i = Some data
      \<or> remote_shard E transport (sd_nodeID d) meta i = Some data \<longrightarrow> \<lparr>sr_Index = i, sr_Data = data\<rparr> \<in> set shards"
    and "12 \<le> card {i \<in> {0..15}. LoadShard (sd_store d) (tm_CommitmentHash meta) i \<noteq> None \<or> remote_shard E transport (sd_nodeID d) meta i \<noteq> None}"
  shows "fst (ReconstructCiphertext E R transport (Some meta) d) = Inr ct"
  using assms by (rule reconstruct_complete)

subsection \<open>Size limits\<close>

lemma json_Marshal_brace: "\<exists>t. json_Marshal u = t @ ''}'' \<and> (hex_upload u \<longrightarrow> CHR ''}'' \<notin> set t) \<and> length (su_DataHex u) < length t"
proof -
  have hx: "CHR ''}'' \<notin> set s" if "hex_text s" for s
    using that hex_chars [of "CHR ''}''"] by (auto simp: hex_text_def)
  have dec: "CHR ''}'' \<notin> set (int_dec i)" for i
    using nat_dec_digits [of "CHR ''}''"] by (auto simp: int_dec_def)
  show ?thesis
    by (rule exI [of _ "butlast (json_Marshal u)"])
      (auto simp: json_Marshal_def json_string_field_def hex_upload_def butlast_append hx dec)
qed

text \<open>
  A shard of 32768 bytes or more can never be posted: its request is longer than the
  64 KiB the receiving handler reads, the cut text is not JSON, and the answer is always
  400 with nothing stored.
\<close>

theorem large_shard_rejected:
  assumes "json_laws J" and "32768 \<le> length data" and "in_i64 i"
  shows "handlePostShard E J ((shard_request E n c i data root pf pk sig)\<lparr>rq_RemoteAddr := a\<rparr>) d = (http_Error ''invalid JSON body'' 400, d)"
proof -
  let ?u = "upload_of E c i data root pf pk sig"
  obtain t where t: "json_Marshal ?u = t @ ''}''" "CHR ''}'' \<notin> set t" "length (su_DataHex ?u) < length t"
    using json_Marshal_brace [of ?u] hex_upload_of [OF assms(3)] by blast
  have "max_body \<le> length t" using t(3) assms(2) by (simp add: upload_of_def max_body_def)
  then have "take max_body (json_Marshal ?u) = take max_body t" by (simp add: t(1))
  then have "CHR ''}'' \<notin> set (take max_body (json_Marshal ?u))" using t(2) by (metis in_set_takeD)
  then have "J (take max_body (json_Marshal ?u)) = None" using assms(1) by (simp add: json_laws_def)
  then show ?thesis using shard_request_body [of E n c i data root pf pk sig] by (simp add: handlePostShard_def)
qed

subsection \<open>A decoder that keeps the laws\<close>

text \<open>
  The text is split at its quotes; a field is the second piece after its name, the index
  stands in the piece after its name.
\<close>

fun json_after :: "string \<Rightarrow> string list \<Rightarrow> string list" where
  "json_after nm [] = []"
| "json_after nm (a # r) = (if a = nm then r else json_after nm r)"

definition json_value :: "string \<Rightarrow> string list \<Rightarrow> string" where
  "json_value nm ps = (case json_after nm ps of _ # v # _ \<Rightarrow> v | _ \<Rightarrow> [])"

definition json0 :: "string \<Rightarrow> ShardUpload option" where
  "json0 s = (if CHR ''}'' \<notin> set s then None
     else let ps = split_on (CHR 0x22) [] s in
       case json_after ''index'' ps of
         [] \<Rightarrow> None
       | t # _ \<Rightarrow> map_option (\<lambda>i. \<lparr>su_CommitmentHex = json_value ''commitment_hex'' ps, su_Index = i,
           su_DataHex = json_value ''data_hex'' ps, su_MerkleRootHex = json_value ''merkle_root_hex'' ps,
           su_MerkleProofHex = json_value ''merkle_proof_hex'' ps,
           su_ProposerPubkeyHex = json_value ''proposer_pubkey_hex'' ps,
           su_SignatureHex = json_value ''signature_hex'' ps\<rparr>) (atoi (butlast (tl t))))"

lemma split_on_append:
  "sep \<notin> set a \<Longrightarrow> split_on sep acc (a @ sep # b) = (rev acc @ a) # split_on sep [] b"
  "sep \<notin> set a \<Longrightarrow> split_on sep acc a = [rev acc @ a]"
  by (induction a arbitrary: acc) auto

lemma atoi_int_dec: "in_i64 i \<Longrightarrow> atoi (int_dec i) = Some i"
proof -
  assume i: "in_i64 i"
  have digits: "list_all is_digit (nat_dec n)" for n
    using nat_dec_digits [of _ n] by (fastforce simp: list_all_iff is_digit_def)
  have ne: "nat_dec n \<noteq> []" for n by (subst nat_dec.simps) simp
  have hd: "nat_dec n = x # xs \<Longrightarrow> x \<noteq> CHR ''-'' \<and> x \<noteq> CHR ''+''" for n x xs
    using nat_dec_no_char [of "CHR ''-''" n] nat_dec_no_char [of "CHR ''+''" n] by force
  show ?thesis
  proof (cases "i < 0")
    case True
    then show ?thesis using i digits ne by (simp add: atoi_def int_dec_def)
  next
    case False
    obtain x xs where x: "nat_dec (nat i) = x # xs" using ne by (cases "nat_dec (nat i)") auto
    have "atoi (x # xs) = (let ds = x # xs; v = int (dec_value ds) in if ds = [] \<or> \<not> list_all is_digit ds \<or> \<not> in_i64 v then None else Some v)"
      using hd [OF x] by (simp add: atoi_def)
    also have "\<dots> = Some i" using False i digits [of "nat i"] dec_value_nat_dec [of "nat i"] by (simp add: x [symmetric] Let_def ne)
    finally show ?thesis using False x by (simp add: int_dec_def)
  qed
qed

lemma hex_text_not:
  assumes "hex_text v"
  shows "CHR 0x22 \<notin> set v" "CHR ''_'' \<notin> set v" "CHR ''x'' \<notin> set v"
  using assms hex_chars [of "CHR 0x22"] hex_chars [of "CHR ''_''"] hex_chars [of "CHR ''x''"] by (auto simp: hex_text_def)

lemma hex_text_name: "hex_text v \<Longrightarrow> CHR ''_'' \<in> set nm \<or> CHR ''x'' \<in> set nm \<Longrightarrow> (v = nm) = False"
  using hex_text_not by blast

lemma json0_laws: "json_laws json0"
proof -
  have "json0 (json_Marshal u) = Some u" if h: "hex_upload u" for u
  proof -
    have q: "CHR 0x22 \<notin> set (int_dec i)" for i
      using nat_dec_no_char [of "CHR 0x22"] by (auto simp: int_dec_def)
    note hx = h [unfolded hex_upload_def]
    have nq: "CHR 0x22 \<notin> set (su_CommitmentHex u)" "CHR 0x22 \<notin> set (su_DataHex u)" "CHR 0x22 \<notin> set (su_MerkleRootHex u)"
      "CHR 0x22 \<notin> set (su_MerkleProofHex u)" "CHR 0x22 \<notin> set (su_ProposerPubkeyHex u)" "CHR 0x22 \<notin> set (su_SignatureHex u)"
      using hx hex_text_not(1) by blast+
    have ps: "split_on (CHR 0x22) [] (json_Marshal u) = [''{'', ''commitment_hex'', '':'', su_CommitmentHex u, '','', ''index'',
        CHR '':'' # int_dec (su_Index u) @ '','', ''data_hex'', '':'', su_DataHex u, '','', ''merkle_root_hex'', '':'', su_MerkleRootHex u,
        '','', ''merkle_proof_hex'', '':'', su_MerkleProofHex u]
        @ (if su_ProposerPubkeyHex u = [] then [] else ['','', ''proposer_pubkey_hex'', '':'', su_ProposerPubkeyHex u])
        @ (if su_SignatureHex u = [] then [] else ['','', ''signature_hex'', '':'', su_SignatureHex u]) @ [''}'']"
      using nq q split_on_append(1) [where a = "int_dec (su_Index u) @ '',''" and b = b and sep = "CHR 0x22" for b]
      by (simp add: json_Marshal_def json_string_field_def split_on_append)
    have "CHR ''}'' \<in> set (json_Marshal u)" by (simp add: json_Marshal_def)
    then show ?thesis
      using hx by (simp add: json0_def ps json_value_def hex_text_name atoi_int_dec butlast_append Let_def)
  qed
  then show ?thesis by (simp add: json_laws_def json0_def)
qed

subsection \<open>A cluster of three nodes\<close>

definition permissive :: "ShardStore \<Rightarrow> bool" where
  "permissive s \<longleftrightarrow> (\<forall>p. ss_mkdir_ok s p \<and> ss_write_ok s p)"

lemma distribute_total:
  assumes "c \<noteq> []" "\<forall>sr \<in> set srs. 0 \<le> sr_Index sr \<and> sr_Index sr < 16 \<and> sr_Data sr \<noteq> [] \<and> (\<exists>pf. ProofForShard tree (sr_Index sr) = Inr pf)"
    "sd_signingPrivKey d = []" "permissive (sd_store d)"
  shows "\<exists>m d' p. distribute_loop E tree n cn c pk srs d meta posted = (Inr m, d', p)"
  using assms(2-)
proof (induction srs arbitrary: d meta posted)
  case (Cons sr srs)
  then obtain pf where pf: "ProofForShard tree (sr_Index sr) = Inr pf" by auto
  obtain s1 where s1: "StoreShard (sd_store d) c (sr_Index sr) (sr_Data sr) = (None, s1)" "permissive s1"
    using Cons.prems assms(1) by (auto simp: StoreShard_None permissive_def)
  have "\<exists>x d1. distribute_one E tree n cn c pk sr d = (Inr x, d1) \<and> sd_signingPrivKey d1 = [] \<and> permissive (sd_store d1)"
    using Cons.prems(2,3) s1 by (auto simp: distribute_one_def pf signShardData_def Let_def StoreShardSignature_def)
  then obtain ns posts d1 where "distribute_one E tree n cn c pk sr d = (Inr (ns, posts), d1)" "sd_signingPrivKey d1 = []" "permissive (sd_store d1)"
    by auto
  with Cons.IH [of d1] Cons.prems(1) show ?case by auto
qed simp

lemma all_assigned:
  assumes "distinct cn" "length cn \<le> 4"
  shows "set (assigned_nodes cn (repl_factor cn) c i) = set cn"
proof -
  have r: "repl_factor cn = length cn" using assms(2) by (simp add: repl_factor_min)
  note a = assigned_distinct [OF assms(1), of "length cn" c i]
  have "card (set (assigned_nodes cn (length cn) c i)) = card (set cn)"
    using a distinct_card [OF assms(1)] distinct_card [of "assigned_nodes cn (length cn) c i"] by simp
  then show ?thesis unfolding r using a(3) by (intro card_subset_eq) simp_all
qed

definition node_me :: ShardDistributor where
  "node_me = NewShardDistributor store0 ''me''"

lemma cluster3:
  "local_node_id (\<lambda>_. []) node_me = ''me''" "set (cluster_nodes (\<lambda>_. []) ''me'' [''a'', ''b'']) = {''me'', ''a'', ''b''}"
  "length (cluster_nodes (\<lambda>_. []) ''me'' [''a'', ''b'']) = 3"
  by (auto simp: local_node_id_def node_me_def NewShardDistributor_def cluster_nodes_def TrimSpace_def trim_char_def)

lemma json_Marshal_length:
  "length (json_Marshal u) \<le> 200 + length (su_CommitmentHex u) + length (int_dec (su_Index u)) + length (su_DataHex u)
     + length (su_MerkleRootHex u) + length (su_MerkleProofHex u) + length (su_ProposerPubkeyHex u) + length (su_SignatureHex u)"
  by (simp add: json_Marshal_def json_string_field_def)

lemma upload_length:
  "length (json_Marshal (upload_of E c i data root pf pk sig))
     \<le> 200 + length (int_dec i) + 2 * (length c + length data + length root + length pf + length pk + length sig)"
  using json_Marshal_length [of "upload_of E c i data root pf pk sig"] by (simp add: upload_of_def split: if_splits)

lemma example_ranges: "sr \<in> set example_shards \<Longrightarrow> 0 \<le> sr_Index sr \<and> sr_Index sr < 16 \<and> sr_Data sr \<noteq> []"
  by (auto simp: example_shards_def)

lemma cluster3_run:
  obtains meta d' posted r body where "DistributeShards env0 (\<lambda>_. []) example_shards ''h'' [''a'', ''b''] node_me = (Inr meta, d', posted)"
    "(''a'', r) \<in> set posted" "rq_Body r = Some body" "length body \<le> max_body"
proof -
  let ?cn = "cluster_nodes (\<lambda>_. []) ''me'' [''a'', ''b'']"
  obtain tree where t: "BuildMerkleTree example_shards = Inr tree" using example_tree by blast
  have all: "\<forall>sr \<in> set example_shards. 0 \<le> sr_Index sr \<and> sr_Index sr < 16 \<and> sr_Data sr \<noteq> [] \<and> (\<exists>pf. ProofForShard tree (sr_Index sr) = Inr pf)"
  proof
    fix sr assume sr: "sr \<in> set example_shards"
    from example_ranges [OF this] tree_proof [OF t example_shards_ok(1) sr] show "0 \<le> sr_Index sr \<and> sr_Index sr < 16 \<and> sr_Data sr \<noteq> [] \<and> (\<exists>pf. ProofForShard tree (sr_Index sr) = Inr pf)"
      by metis
  qed
  let ?m = "\<lparr>tm_CommitmentHash = ''h'', tm_OriginalLen = 0, tm_ShardNodeMap = Map.empty, tm_MerkleRoot = Root tree,
        tm_ProposerPubkey = sd_signingPubKey node_me\<rparr>"
  have me: "sd_signingPrivKey node_me = []" "permissive (sd_store node_me)"
    by (simp_all add: node_me_def NewShardDistributor_def permissive_def store0_def)
  obtain meta d' posted where run: "distribute_loop env0 tree ''me'' ?cn ''h'' (sd_signingPubKey node_me) example_shards node_me ?m [] = (Inr meta, d', posted)"
    using distribute_total [OF _ all me] by blast
  then have ds: "DistributeShards env0 (\<lambda>_. []) example_shards ''h'' [''a'', ''b''] node_me = (Inr meta, d', posted)"
    using t example_shards_ok(2) by (simp add: DistributeShards_def erasure_params cluster3(1))
  have sr: "\<lparr>sr_Index = 5, sr_Data = ''xxxxxx''\<rparr> \<in> set example_shards" by (simp add: example_shards_def upt_rec numeral_eq_Suc)
  have "''a'' \<in> set (assigned_nodes ?cn (repl_factor ?cn) ''h'' 5)"
    using all_assigned [of ?cn "''h''" 5] cluster_nodes_facts(1) by (simp add: cluster3)
  then obtain r where r: "(''a'', r) \<in> set posted" "posted_for env0 tree ''me'' ?cn ''h'' node_me \<lparr>sr_Index = 5, sr_Data = ''xxxxxx''\<rparr> (''a'', r)"
    using loop_sends [OF run sr, of "''a''"] by auto
  then obtain pf sig where pf: "ProofForShard tree 5 = Inr pf" "sig = []"
    "r = shard_request env0 ''me'' ''h'' 5 ''xxxxxx'' (Root tree) (serializeProof (Some pf)) (sd_signingPubKey node_me) sig"
    using me(1) by (auto simp: posted_for_def signShardData_def)
  have "length (serializeProof (Some pf)) = 128" "length (Root tree) = 32"
    using tree_proof [OF t example_shards_ok(1) sr] parse_serialize(2) [of pf] pf(1) by auto
  moreover have "length (int_dec 5) = 1" by code_simp
  ultimately have "length (json_Marshal (upload_of env0 ''h'' 5 ''xxxxxx'' (Root tree) (serializeProof (Some pf)) (sd_signingPubKey node_me) sig)) \<le> max_body"
    using upload_length [of env0 "''h''" 5 "''xxxxxx''" "Root tree" "serializeProof (Some pf)" "sd_signingPubKey node_me" sig] pf(2)
    by (simp add: max_body_def node_me_def NewShardDistributor_def)
  with ds r(1) that show thesis by (metis pf(3) shard_request_body)
qed

theorem shards_placed_witness:
  "\<exists>meta d' posted ns. DistributeShards env0 (\<lambda>_. []) example_shards ''h'' [''a'', ''b''] node_me = (Inr meta, d', posted)
    \<and> tm_ShardNodeMap meta 5 = Some ns \<and> distinct ns \<and> length ns = 3 \<and> LoadShard (sd_store d') ''h'' 5 = Some ''xxxxxx''"
proof -
  obtain meta d' posted where run: "DistributeShards env0 (\<lambda>_. []) example_shards ''h'' [''a'', ''b''] node_me = (Inr meta, d', posted)"
    by (rule cluster3_run)
  have sr: "\<lparr>sr_Index = 5, sr_Data = ''xxxxxx''\<rparr> \<in> set example_shards" by (simp add: example_shards_def upt_rec numeral_eq_Suc)
  have "''me'' \<in> set (cluster_nodes (\<lambda>_. []) ''me'' [''a'', ''b''])" by (simp add: cluster3)
  moreover obtain ns where ns: "tm_ShardNodeMap meta 5 = Some ns" "distinct ns" "length ns = 3" "set ns \<subseteq> set (cluster_nodes (\<lambda>_. []) ''me'' [''a'', ''b''])"
    "''me'' \<in> set ns \<longrightarrow> LoadShard (sd_store d') ''h'' 5 = Some ''xxxxxx''"
    using shards_placed [OF run example_shards_ok(1) sr] by (auto simp: cluster3 Let_def)
  moreover have "set ns = set (cluster_nodes (\<lambda>_. []) ''me'' [''a'', ''b''])"
    using ns(2-4) distinct_card [OF ns(2)] distinct_card [OF cluster_nodes_facts(1), of "\<lambda>_. []" "''me''" "[''a'', ''b'']"]
    by (intro card_subset_eq) (simp_all add: cluster3(3))
  ultimately show ?thesis using run by auto
qed

theorem posted_shard_accepted_witness:
  "\<exists>meta d' posted r. DistributeShards env0 (\<lambda>_. []) example_shards ''h'' [''a'', ''b''] node_me = (Inr meta, d', posted)
    \<and> (''a'', r) \<in> set posted \<and> rp_Status (fst (shard_endpoint env0 json0 0 (r\<lparr>rq_RemoteAddr := ''me:1''\<rparr>) node_me)) = 201"
proof -
  obtain meta d' posted r body where run: "DistributeShards env0 (\<lambda>_. []) example_shards ''h'' [''a'', ''b''] node_me = (Inr meta, d', posted)"
    and r: "(''a'', r) \<in> set posted" "rq_Body r = Some body" "length body \<le> max_body" by (rule cluster3_run)
  have "signer_ok env0 node_me" by (simp add: signer_ok_def node_me_def NewShardDistributor_def env0_def)
  from posted_shard_accepted [OF run example_shards_ok(1) json0_laws this r(1)]
  obtain sr where sr: "sr \<in> set example_shards" and ok: "\<forall>now a d2 rl s' body.
    rq_Body r = Some body \<and> length body \<le> max_body \<and> Allow now a (sd_rateLimiter d2) = (True, rl)
      \<and> StoreShard (sd_store d2) ''h'' (sr_Index sr) (sr_Data sr) = (None, s') \<longrightarrow>
    shard_endpoint env0 json0 now (r\<lparr>rq_RemoteAddr := a\<rparr>) d2
      = (\<lparr>rp_Status = 201, rp_ShardSignature = [], rp_Body = []\<rparr>, d2\<lparr>sd_rateLimiter := rl, sd_store := s'\<rparr>)
    \<and> LoadShard s' ''h'' (sr_Index sr) = Some (sr_Data sr)" by blast
  obtain rl where "Allow 0 ''me:1'' (sd_rateLimiter node_me) = (True, rl)"
    by (simp add: Allow_def node_me_def NewShardDistributor_def NewShardRateLimiter_def kv_simps)
  moreover obtain s' where "StoreShard (sd_store node_me) ''h'' (sr_Index sr) (sr_Data sr) = (None, s')"
    using example_ranges [OF sr] by (simp add: StoreShard_None) (simp add: node_me_def NewShardDistributor_def store0_def)
  ultimately have "fst (shard_endpoint env0 json0 0 (r\<lparr>rq_RemoteAddr := ''me:1''\<rparr>) node_me) = \<lparr>rp_Status = 201, rp_ShardSignature = [], rp_Body = []\<rparr>"
    using ok [rule_format, of body 0 "''me:1''" node_me rl s'] r by simp
  with run r(1) show ?thesis by auto
qed

theorem large_shard_rejected_witness:
  "handlePostShard env0 json0 ((shard_request env0 ''me'' ''h'' 3 (replicate 40000 CHR ''x'') [] [] [] [])\<lparr>rq_RemoteAddr := ''a''\<rparr>) node_me
     = (http_Error ''invalid JSON body'' 400, node_me)"
  by (rule large_shard_rejected [OF json0_laws]) (simp_all add: in_i64_def)

text \<open>a network whose single node \<open>a\<close> serves the shards of a ciphertext\<close>

definition ct_shard :: "int \<Rightarrow> string" where
  "ct_shard i = rs0_code (rs0_pad ''ciphertext'') ! nat i"

definition honest_net :: "string \<Rightarrow> http_request \<Rightarrow> http_response option" where
  "honest_net p r = (case atoi (rq_index r) of None \<Rightarrow> None
     | Some i \<Rightarrow> Some \<lparr>rp_Status = 200, rp_ShardSignature = [], rp_Body = ct_shard i\<rparr>)"

definition ct_meta :: TFHEShardMeta where
  "ct_meta = \<lparr>tm_CommitmentHash = ''h'', tm_OriginalLen = 10, tm_ShardNodeMap = (\<lambda>i. Some [''a'']), tm_MerkleRoot = [], tm_ProposerPubkey = []\<rparr>"

lemma ct_shard_length:
  assumes "i \<in> {0..15}"
  shows "length (ct_shard i) \<le> max_body"
proof -
  have "list_all (\<lambda>x. length x \<le> 12) (rs0_code (rs0_pad ''ciphertext''))" by code_simp
  moreover have "nat i < length (rs0_code (rs0_pad ''ciphertext''))" using assms by (auto simp: rs0_code_def)
  ultimately have "length (ct_shard i) \<le> 12" by (simp add: ct_shard_def list_all_length)
  then show ?thesis by (simp add: max_body_def)
qed

lemma no_local_shard: "LoadShard (sd_store node_me) c i = None"
  by (simp add: LoadShard_def node_me_def NewShardDistributor_def store0_def kv_simps)

theorem ReconstructCiphertext_complete_witness:
  "fst (ReconstructCiphertext env0 rs0 honest_net (Some ct_meta) node_me) = Inr ''ciphertext''"
proof -
  define rs where "rs = map (\<lambda>i. \<lparr>sr_Index = int i, sr_Data = rs0_code (rs0_pad ''ciphertext'') ! i\<rparr>) [0..<16]"
  have s: "Split rs0 ''ciphertext'' = Inr rs" by (simp add: Split_def newEncoder_def rs0_def rs_def rs0_code_def)
  have rem: "remote_shard env0 honest_net (sd_nodeID node_me) ct_meta i = Some (ct_shard i)" if "i \<in> {0..15}" for i
    using ct_shard_length [OF that] that
    by (simp add: remote_shard_def ct_meta_def fetchShardFromPeer_def honest_net_def atoi_int_dec in_i64_def node_me_def NewShardDistributor_def env0_def)
  have "\<lparr>sr_Index = i, sr_Data = ct_shard i\<rparr> \<in> set rs" if "i \<in> {0..15}" for i
    using that by (auto simp: rs_def ct_shard_def intro!: image_eqI [of _ _ "nat i"])
  moreover have "{i \<in> {0..15}. LoadShard (sd_store node_me) (tm_CommitmentHash ct_meta) i \<noteq> None
      \<or> remote_shard env0 honest_net (sd_nodeID node_me) ct_meta i \<noteq> None} = {0..15}"
    using rem by auto
  ultimately show ?thesis
    by (intro ReconstructCiphertext_complete [OF rs0_laws s]) (auto simp: rem no_local_shard, simp add: ct_meta_def)
qed

text \<open>
  What a peer answers is not compared with the commitment: the Merkle root of the metadata
  has no influence on a reconstruction, and an answer without a signature is taken even when the
  proposer's key is known, so that one such answer makes a reconstruction give another text.
\<close>

lemma fetch_peers_root: "fetch_peers E transport n (meta\<lparr>tm_MerkleRoot := r\<rparr>) i ps = fetch_peers E transport n meta i ps"
  by (induction ps) (simp_all split: sum.splits)

lemma collect_remote_root:
  "collect_remote E transport n (meta\<lparr>tm_MerkleRoot := r\<rparr>) have is xs s = collect_remote E transport n meta have is xs s"
  by (induction "is" arbitrary: xs s) (simp_all add: fetch_peers_root split: option.splits)

theorem merkle_root_never_checked:
  "ReconstructCiphertext E R transport (Some (meta\<lparr>tm_MerkleRoot := r\<rparr>)) d = ReconstructCiphertext E R transport (Some meta) d"
  by (simp add: ReconstructCiphertext_def collect_remote_root Let_def split: prod.splits)

definition forging_net :: "string \<Rightarrow> http_request \<Rightarrow> http_response option" where
  "forging_net p r = (if rq_index r = ''0'' then Some \<lparr>rp_Status = 200, rp_ShardSignature = [], rp_Body = ''x''\<rparr> else honest_net p r)"

lemma forged_shard:
  assumes "i \<in> {0..15}"
  shows "fetch_peers env0 forging_net (sd_nodeID node_me) (ct_meta\<lparr>tm_ProposerPubkey := pk\<rparr>) i [''a''] = Some (if i = 0 then ''x'' else ct_shard i)"
proof -
  have z: "int_dec 0 = ''0''" by code_simp
  have "atoi (int_dec i) = Some i" "atoi (int_dec 0) = Some 0" using assms by (auto intro!: atoi_int_dec simp: in_i64_def)
  with z have "int_dec i = ''0'' \<longleftrightarrow> i = 0" by (metis option.inject)
  then show ?thesis using ct_shard_length [OF assms] assms
    by (simp add: ct_meta_def fetchShardFromPeer_def forging_net_def honest_net_def atoi_int_dec in_i64_def node_me_def NewShardDistributor_def env0_def)
      (simp add: max_body_def)?
qed

lemma reconstruct_remotely:
  assumes "\<And>c is. collect_local (sd_store d) c is [] = []" and "ErasureDataShards \<le> length got"
    and "collect_remote E transport (sd_nodeID d) meta {} [0..int ErasureTotalShards - 1] [] (sd_store d) = (got, s')"
  shows "ReconstructCiphertext E R transport (Some meta) d = (ReconstructFromResults R got (tm_OriginalLen meta), d\<lparr>sd_store := s'\<rparr>)"
proof -
  have "0 < ErasureDataShards" by (simp add: erasure_params)
  then show ?thesis using assms by (simp add: ReconstructCiphertext_def)
qed

theorem unsigned_answer_accepted:
  "fst (ReconstructCiphertext env0 rs0 forging_net (Some (ct_meta\<lparr>tm_ProposerPubkey := ''pubk''\<rparr>)) node_me) = Inr ''xiphertext''"
proof -
  let ?m = "ct_meta\<lparr>tm_ProposerPubkey := ''pubk''\<rparr>"
  define got where "got = map (\<lambda>i. \<lparr>sr_Index = i, sr_Data = (if i = 0 then ''x'' else ct_shard i)\<rparr>) [0..11]"
  have local: "collect_local (sd_store node_me) c is [] = []" for c "is"
    by (induction "is") (simp_all add: no_local_shard erasure_params)
  have node: "tm_ShardNodeMap ct_meta i = Some [''a'']" for i by (simp add: ct_meta_def)
  have up: "[0..int ErasureTotalShards - 1] = [0, 1, 2, 3, 4, 5, 6, 7, 8, 9, 10, 11, 12, 13, 14, 15]" by (simp add: erasure_params upto_rec1)
  have "fst (collect_remote env0 forging_net (sd_nodeID node_me) ?m {} [0..int ErasureTotalShards - 1] [] s) = got" for s
    unfolding up by (simp add: node forged_shard erasure_params got_def upto_rec1 del: fetch_peers.simps)
  then obtain s' where "collect_remote env0 forging_net (sd_nodeID node_me) ?m {} [0..int ErasureTotalShards - 1] [] (sd_store node_me) = (got, s')"
    by (metis prod.collapse)
  moreover have "ReconstructFromResults rs0 got 10 = Inr ''xiphertext''" unfolding got_def by code_simp
  moreover have "ErasureDataShards \<le> length got" "tm_OriginalLen ?m = 10" by (simp_all add: got_def ct_meta_def erasure_params)
  ultimately show ?thesis using reconstruct_remotely [OF local, of got env0 forging_net ?m s' rs0] by simp
qed

end
