(* ===== verification/Privacy.thy ===== *)
theory Privacy
  imports Bank GreenBft Sharding
begin

section \<open>The privacy module\<close>

text \<open>
  \<open>x/privacy/keeper\<close> and \<open>x/privacy/types\<close>: commitments, shard metadata, cached results and
  submission quotas, the message handlers for ciphertexts and commitments, the query that
  reconstructs a ciphertext, and the rent for stored data.

  The store holds byte strings and the JSON documents of the module, one constructor per
  document type. A node's state also has its own distributor with the shard files, and the
  requests it posted; these belong to the node, not to the chain (the keeper's own distributor
  exists, that is, the shard directory could be created). The parser of coin strings,
  \<open>sdk.ParseCoinNormalized\<close>, is the argument \<open>parseCoin\<close>.

  In a transaction every access to the store charges the transaction's gas meter, which has a
  limit beyond which it panics (so does a sum beyond 64 bits): the message handlers read and write through \<open>gas_get\<close> and
  \<open>gas_set\<close>. The length of an encoded document is the argument \<open>jsonLen\<close>; the gas that the
  reads of the staking keeper and of the bank charge to the same meter are the arguments
  \<open>valsGas\<close> and \<open>bankGas\<close>. A query runs with an unlimited meter on a cached store that is
  dropped afterwards (\<open>pv_query\<close>). The rent operations, which no message, hook or query calls,
  are modelled without a meter.
\<close>

subsection \<open>Keys and documents\<close>

record shardMetaJSON =
  mj_CommitmentHash :: string
  mj_OriginalLen :: int
  mj_ShardNodeMap :: "string \<Rightarrow> string list option"
  mj_MerkleRoot :: string
  mj_ProposerPubkey :: string

record StateRentParams =
  RentRatePerBytePerBlock :: int
  MaxFreeSizeBytes :: int
  GracePeriodBlocks :: int

datatype pval = PBytes string | PMeta shardMetaJSON | PHeight int | PRent StateRentParams

record privacy =
  pv_base :: base
  pv_store :: "pval kv"
  pv_node :: ShardDistributor
  pv_posted :: "(string \<times> http_request) list"
  pv_gas :: int
  pv_gas_limit :: int

type_synonym 'a pv_op = "(privacy, err, 'a) go"

definition pv_on_base :: "'a base_op \<Rightarrow> 'a pv_op" where
  "pv_on_base m = (\<lambda>s. let (r, b) = m (pv_base s) in (r, s\<lparr>pv_base := b\<rparr>))"

definition pv_set :: "string \<Rightarrow> pval \<Rightarrow> unit pv_op" where
  "pv_set k v = gmod (\<lambda>s. s\<lparr>pv_store := kv_set k v (pv_store s)\<rparr>)"

definition pv_delete :: "string \<Rightarrow> unit pv_op" where
  "pv_delete k = gmod (\<lambda>s. s\<lparr>pv_store := kv_delete k (pv_store s)\<rparr>)"

definition pv_bytes :: "pval kv \<Rightarrow> string \<Rightarrow> string option" where
  "pv_bytes st k = (case kv_get st k of Some (PBytes b) \<Rightarrow> Some b | _ \<Rightarrow> None)"

text \<open>the length in bytes of a stored blob; \<open>jsonLen\<close> is the length of an encoded document\<close>

definition blob_size :: "(pval \<Rightarrow> nat) \<Rightarrow> pval \<Rightarrow> int" where
  "blob_size jsonLen v = (case v of PBytes b \<Rightarrow> int (length b) | _ \<Rightarrow> int (jsonLen v))"

definition pv_ConsumeGas :: "int \<Rightarrow> unit pv_op" where
  "pv_ConsumeGas n = gbind (gmod (\<lambda>s. s\<lparr>pv_gas := pv_gas s + n\<rparr>)) (\<lambda>_.
     gbind (gget (\<lambda>s. pv_gas s > pv_gas_limit s)) (\<lambda>over. if over then gpanic ''out of gas'' else gret ()))"

definition gas_get :: "(pval \<Rightarrow> nat) \<Rightarrow> string \<Rightarrow> pval option pv_op" where
  "gas_get jsonLen k =
     gbind (pv_ConsumeGas 1000) (\<lambda>_.
     gbind (gget (\<lambda>s. kv_get (pv_store s) k)) (\<lambda>v.
     gbind (pv_ConsumeGas (3 * int (length k))) (\<lambda>_.
     gbind (pv_ConsumeGas (3 * (case v of None \<Rightarrow> 0 | Some x \<Rightarrow> blob_size jsonLen x))) (\<lambda>_.
     gret v))))"

definition gas_set :: "(pval \<Rightarrow> nat) \<Rightarrow> string \<Rightarrow> pval \<Rightarrow> unit pv_op" where
  "gas_set jsonLen k v =
     gbind (pv_ConsumeGas 2000) (\<lambda>_.
     gbind (pv_ConsumeGas (30 * int (length k))) (\<lambda>_.
     gbind (pv_ConsumeGas (30 * blob_size jsonLen v)) (\<lambda>_.
     pv_set k v)))"

definition CommitmentKey :: "addr \<Rightarrow> string" where
  "CommitmentKey a = ''commitment/'' @ a"

definition TFHEMetaKey :: "string \<Rightarrow> string" where
  "TFHEMetaKey h = ''tfhe_meta/'' @ h"

definition TFHEResultKey :: "string \<Rightarrow> string" where
  "TFHEResultKey h = ''tfhe_result/'' @ h"

definition TFHEQuotaKey :: "addr \<Rightarrow> string" where
  "TFHEQuotaKey a = ''tfhe_quota/'' @ a"

subsection \<open>The keeper\<close>

text \<open>\<open>strconv.Itoa\<close> of the indices gives the keys of the encoded map.\<close>

definition marshalTFHEMeta :: "TFHEShardMeta \<Rightarrow> shardMetaJSON" where
  "marshalTFHEMeta meta = \<lparr>mj_CommitmentHash = hex_EncodeToString (tm_CommitmentHash meta), mj_OriginalLen = tm_OriginalLen meta,
     mj_ShardNodeMap = (\<lambda>k. case atoi k of None \<Rightarrow> None | Some i \<Rightarrow> if int_dec i = k then tm_ShardNodeMap meta i else None),
     mj_MerkleRoot = hex_EncodeToString (tm_MerkleRoot meta), mj_ProposerPubkey = hex_EncodeToString (tm_ProposerPubkey meta)\<rparr>"

text \<open>The keys of an encoded map are those \<open>marshalTFHEMeta\<close> writes, one per index.\<close>

definition unmarshalTFHEMeta :: "shardMetaJSON \<Rightarrow> TFHEShardMeta" where
  "unmarshalTFHEMeta m = \<lparr>tm_CommitmentHash = (case hex_DecodeString (mj_CommitmentHash m) of None \<Rightarrow> [] | Some c \<Rightarrow> c),
     tm_OriginalLen = mj_OriginalLen m,
     tm_ShardNodeMap = (\<lambda>i. if in_i64 i then mj_ShardNodeMap m (int_dec i) else None),
     tm_MerkleRoot = (case hex_DecodeString (mj_MerkleRoot m) of None \<Rightarrow> [] | Some r \<Rightarrow> r),
     tm_ProposerPubkey = (case hex_DecodeString (mj_ProposerPubkey m) of None \<Rightarrow> [] | Some k \<Rightarrow> k)\<rparr>"

definition SetTFHEMeta :: "(pval \<Rightarrow> nat) \<Rightarrow> TFHEShardMeta \<Rightarrow> unit pv_op" where
  "SetTFHEMeta jsonLen meta =
     gbind (gfail_if (tm_CommitmentHash meta = []) (Errorf ''SetTFHEMeta: meta is nil or has empty commitment hash'')) (\<lambda>_.
     gas_set jsonLen (TFHEMetaKey (tm_CommitmentHash meta)) (PMeta (marshalTFHEMeta meta)))"

definition GetTFHEMeta :: "pval kv \<Rightarrow> string \<Rightarrow> TFHEShardMeta option" where
  "GetTFHEMeta st h = (case kv_get st (TFHEMetaKey h) of Some (PMeta m) \<Rightarrow> Some (unmarshalTFHEMeta m) | _ \<Rightarrow> None)"

definition SetTFHEResult :: "string \<Rightarrow> string \<Rightarrow> unit pv_op" where
  "SetTFHEResult h ct = pv_set (TFHEResultKey h) (PBytes ct)"

definition GetTFHEResult :: "pval kv \<Rightarrow> string \<Rightarrow> string option" where
  "GetTFHEResult st h = pv_bytes st (TFHEResultKey h)"

definition SetCommitment :: "(pval \<Rightarrow> nat) \<Rightarrow> addr \<Rightarrow> string \<Rightarrow> unit pv_op" where
  "SetCommitment jsonLen a commitment =
     gbind (gfail_if (length commitment \<noteq> 32) (Errorf ''SetCommitment: commitment must be 32 bytes'')) (\<lambda>_.
     gas_set jsonLen (CommitmentKey a) (PBytes commitment))"

definition GetCommitment :: "pval kv \<Rightarrow> addr \<Rightarrow> string option" where
  "GetCommitment st a = pv_bytes st (CommitmentKey a)"

definition HasCommitment :: "pval kv \<Rightarrow> addr \<Rightarrow> bool" where
  "HasCommitment st a = kv_has st (CommitmentKey a)"

text \<open>the counter in a store, and the metered read of it\<close>

definition quota_of :: "pval option \<Rightarrow> 64 word" where
  "quota_of v = (case v of Some (PBytes bz) \<Rightarrow> if length bz \<noteq> 8 then 0 else word_of_int (be_value bz) | _ \<Rightarrow> 0)"

definition stored_quota :: "pval kv \<Rightarrow> addr \<Rightarrow> 64 word" where
  "stored_quota st a = quota_of (kv_get st (TFHEQuotaKey a))"

definition GetTFHEQuota :: "(pval \<Rightarrow> nat) \<Rightarrow> addr \<Rightarrow> 64 word pv_op" where
  "GetTFHEQuota jsonLen a = gbind (gas_get jsonLen (TFHEQuotaKey a)) (\<lambda>bz. gret (quota_of bz))"

definition setTFHEQuota :: "(pval \<Rightarrow> nat) \<Rightarrow> addr \<Rightarrow> 64 word \<Rightarrow> unit pv_op" where
  "setTFHEQuota jsonLen a count = gas_set jsonLen (TFHEQuotaKey a) (PBytes (be_bytes 8 (uint count)))"

definition IncrTFHEQuota :: "(pval \<Rightarrow> nat) \<Rightarrow> addr \<Rightarrow> unit pv_op" where
  "IncrTFHEQuota jsonLen a = gbind (GetTFHEQuota jsonLen a) (\<lambda>q. setTFHEQuota jsonLen a (q + 1))"

definition DecrTFHEQuota :: "(pval \<Rightarrow> nat) \<Rightarrow> addr \<Rightarrow> unit pv_op" where
  "DecrTFHEQuota jsonLen a = gbind (GetTFHEQuota jsonLen a) (\<lambda>cur. if cur > 0 then setTFHEQuota jsonLen a (cur - 1) else gret ())"

definition countAllActiveCommitments :: "pval kv \<Rightarrow> 64 word" where
  "countAllActiveCommitments st = sum_list (map (\<lambda>e. case snd e of
     PBytes bz \<Rightarrow> if length bz = 8 then word_of_int (be_value bz) else 0 | _ \<Rightarrow> 0) (kv_prefix_iterator st ''tfhe_quota/''))"

definition GetValidatorMonikers :: "string list option \<Rightarrow> string list" where
  "GetValidatorMonikers vals = (case vals of None \<Rightarrow> [] | Some ms \<Rightarrow> filter (\<lambda>m. m \<noteq> []) ms)"

text \<open>the staking keeper's reads are charged when there is one\<close>

definition validators_op :: "nat \<Rightarrow> string list option \<Rightarrow> string list pv_op" where
  "validators_op valsGas vals =
     gbind (if vals = None then gret () else pv_ConsumeGas (int valsGas)) (\<lambda>_. gret (GetValidatorMonikers vals))"

subsection \<open>Ciphertext submission\<close>

definition TFHEGasPerKB :: int where
  "TFHEGasPerKB = 1500"

definition MinCiphertextSize :: nat where
  "MinCiphertextSize = 1 * 1024"

definition MaxCiphertextSize :: nat where
  "MaxCiphertextSize = CiphertextMaxBytes"

definition TFHEMaxActiveCommitments :: "64 word" where
  "TFHEMaxActiveCommitments = 1"

record MsgTFHESubmit =
  ts_Sender :: string
  ts_Ciphertext :: string

definition TFHESubmit_ValidateBasic :: "env \<Rightarrow> MsgTFHESubmit \<Rightarrow> err option" where
  "TFHESubmit_ValidateBasic E msg =
     (if AccAddressFromBech32 E (ts_Sender msg) = None then Some ErrInvalidAddress
      else if ts_Ciphertext msg = [] then Some (Errorf ''ciphertext must not be empty'')
      else if length (ts_Ciphertext msg) > 32 * 1024 then Some (Errorf ''ciphertext too large'')
      else None)"

definition ErrShardOperationFailed :: err where
  "ErrShardOperationFailed = Errorf ''ErrShardOperationFailed''"

definition gsum_err :: "'e \<Rightarrow> 'x + 'a \<Rightarrow> ('s, 'e, 'a) go" where
  "gsum_err e x = (case x of Inl _ \<Rightarrow> gerr e | Inr a \<Rightarrow> gret a)"

text \<open>the call of \<open>DistributeShards\<close> on the node's own distributor\<close>

definition distribute_op :: "env \<Rightarrow> (string \<Rightarrow> string) \<Rightarrow> ShardResult list \<Rightarrow> string \<Rightarrow> string list \<Rightarrow> TFHEShardMeta pv_op" where
  "distribute_op E getenv shards h peers = (\<lambda>s.
     let (r, d, posts) = DistributeShards E getenv shards h peers (pv_node s); s' = s\<lparr>pv_node := d, pv_posted := pv_posted s @ posts\<rparr>
     in case r of Inl _ \<Rightarrow> (Err ErrShardOperationFailed, s') | Inr m \<Rightarrow> (Ret m, s'))"

definition TFHESubmit :: "env \<Rightarrow> rs_codec \<Rightarrow> (pval \<Rightarrow> nat) \<Rightarrow> nat \<Rightarrow> (string \<Rightarrow> string) \<Rightarrow> string list option \<Rightarrow> MsgTFHESubmit \<Rightarrow>
    (string \<times> nat) pv_op" where
  "TFHESubmit E R jsonLen valsGas getenv vals msg =
     gbind (gopt_err ErrInvalidAddress (AccAddressFromBech32 E (ts_Sender msg))) (\<lambda>senderAddr.
     gbind (gfail_if (length (ts_Ciphertext msg) < MinCiphertextSize) (Errorf ''ErrInvalidCiphertext: ciphertext too small'')) (\<lambda>_.
     gbind (gfail_if (length (ts_Ciphertext msg) > MaxCiphertextSize) (Errorf ''ErrInvalidCiphertext: ciphertext too large'')) (\<lambda>_.
     gbind (GetTFHEQuota jsonLen senderAddr) (\<lambda>quota.
     gbind (gfail_if (quota \<ge> TFHEMaxActiveCommitments) (Errorf ''ErrTFHEQuotaExceeded'')) (\<lambda>_.
     gbind (gret (sha256 (ts_Ciphertext msg))) (\<lambda>commitmentHash.
     gbind (gsum_err ErrShardOperationFailed (Split R (ts_Ciphertext msg))) (\<lambda>shards.
     gbind (gsum_err ErrShardOperationFailed (BuildMerkleTree shards)) (\<lambda>merkleTree.
     gbind (validators_op valsGas vals) (\<lambda>peerAddrs.
     gbind (distribute_op E getenv shards commitmentHash peerAddrs) (\<lambda>m.
     gbind (gget (\<lambda>s. ProposerPubkey (pv_node s))) (\<lambda>pubkey.
     gbind (gret (m\<lparr>tm_OriginalLen := int (length (ts_Ciphertext msg)), tm_MerkleRoot := Root merkleTree, tm_ProposerPubkey := pubkey\<rparr>)) (\<lambda>shardMeta.
     gbind (SetTFHEMeta jsonLen shardMeta) (\<lambda>_.
     gbind (SetCommitment jsonLen senderAddr commitmentHash) (\<lambda>_.
     gbind (IncrTFHEQuota jsonLen senderAddr) (\<lambda>_.
     gbind (pv_ConsumeGas (int ((length (ts_Ciphertext msg) + 1023) div 1024) * TFHEGasPerKB)) (\<lambda>_.
     gbind (pv_on_base (EmitEvent ''tfhe_submit'' [(''sender'', AStr (ts_Sender msg)), (''commitment_hash'', AStr (hex_EncodeToString commitmentHash)),
        (''ciphertext_size_bytes'', AInt (int (length (ts_Ciphertext msg)))), (''shards_total'', AInt (int ErasureTotalShards)),
        (''merkle_root'', AStr (hex_EncodeToString (Root merkleTree)))])) (\<lambda>_.
     gret (commitmentHash, ErasureTotalShards))))))))))))))))))"

text \<open>the query that gives the ciphertext back; \<open>pv_query\<close> below runs it the way \<open>baseapp\<close> does\<close>

definition TFHEResult :: "env \<Rightarrow> rs_codec \<Rightarrow> (string \<Rightarrow> http_request \<Rightarrow> http_response option) \<Rightarrow> string \<Rightarrow> string \<Rightarrow> (string \<times> string \<times> int) pv_op" where
  "TFHEResult E R transport hash hashHex =
     gbind (if hash = [] \<and> hashHex \<noteq> [] then gopt_err (Errorf ''invalid hex commitment hash'') (hex_DecodeString hashHex) else gret hash) (\<lambda>h.
     gbind (gfail_if (length h \<noteq> 32) (Errorf ''commitment hash must be 32 bytes'')) (\<lambda>_.
     gbind (gget (\<lambda>s. GetTFHEResult (pv_store s) h)) (\<lambda>cached. case cached of
       Some ct \<Rightarrow> gret (h, ct, 0)
     | None \<Rightarrow>
         gbind (gget (\<lambda>s. GetTFHEMeta (pv_store s) h)) (\<lambda>found.
         gbind (gopt_err (Errorf ''no TFHE ciphertext found for commitment'') found) (\<lambda>meta.
         gbind (\<lambda>s. let (r, d) = ReconstructCiphertext E R transport (Some meta) (pv_node s) in (Ret r, s\<lparr>pv_node := d\<rparr>)) (\<lambda>r.
         gbind (gsum_err (Errorf ''shard reconstruction failed'') r) (\<lambda>ct.
         gbind (SetTFHEResult h ct) (\<lambda>_.
         gret (h, ct, tm_OriginalLen meta mod 2 ^ 32)))))))))"

subsection \<open>Commitments\<close>

record MsgInitCommitment =
  ic_Creator :: string
  ic_Amount :: string
  ic_Commitment :: string

definition validateCommitmentBytes :: "string \<Rightarrow> bool" where
  "validateCommitmentBytes commitment \<longleftrightarrow> length commitment = 32 \<and> \<not> list_all (\<lambda>b. b = CHR 0x00) commitment"

definition InitCommitment_ValidateBasic :: "env \<Rightarrow> (string \<Rightarrow> coin option) \<Rightarrow> MsgInitCommitment \<Rightarrow> err option" where
  "InitCommitment_ValidateBasic E parseCoin msg =
     (if AccAddressFromBech32 E (ic_Creator msg) = None then Some ErrInvalidAddress
      else case parseCoin (ic_Amount msg) of
        None \<Rightarrow> Some (Errorf ''ErrInvalidDepositAmount'')
      | Some coin \<Rightarrow>
          if \<not> c_amount coin > 0 then Some (Errorf ''ErrInvalidDepositAmount'')
          else if length (ic_Commitment msg) \<noteq> 32 then Some (Errorf ''ErrInvalidCommitment'') else None)"

definition InitCommitment :: "env \<Rightarrow> (string \<Rightarrow> coin option) \<Rightarrow> (pval \<Rightarrow> nat) \<Rightarrow> nat \<Rightarrow> ctx \<Rightarrow> MsgInitCommitment \<Rightarrow> unit pv_op" where
  "InitCommitment E parseCoin jsonLen bankGas C msg =
     gbind (gopt_err ErrInvalidAddress (AccAddressFromBech32 E (ic_Creator msg))) (\<lambda>creatorAddr.
     gbind (gopt_err (Errorf ''ErrInvalidDepositAmount'') (parseCoin (ic_Amount msg))) (\<lambda>coin.
     gbind (gfail_if (\<not> c_amount coin > 0) (Errorf ''ErrInvalidDepositAmount'')) (\<lambda>_.
     gbind (gopt_panic ''invalid coins'' (NewCoins [coin])) (\<lambda>coins.
     gbind (pv_ConsumeGas (int bankGas)) (\<lambda>_.
     gbind (gmap_err (Wrap ''ErrInsufficientBalance'') (pv_on_base (SendCoinsFromAccountToModule E C creatorAddr ''privacy'' coins))) (\<lambda>_.
     gbind (gfail_if (\<not> validateCommitmentBytes (ic_Commitment msg)) (Errorf ''ErrInvalidCommitment'')) (\<lambda>_.
     gbind (SetCommitment jsonLen creatorAddr (ic_Commitment msg)) (\<lambda>_.
     pv_on_base (EmitEvent ''init_commitment'' [(''creator'', AStr (ic_Creator msg)), (''deposit_denom'', AStr (c_denom coin))])))))))))"

definition QueryCommitment :: "env \<Rightarrow> pval kv \<Rightarrow> string \<Rightarrow> err + (string \<times> string)" where
  "QueryCommitment E st addrStr = (case AccAddressFromBech32 E addrStr of
     None \<Rightarrow> Inl ErrInvalidAddress
   | Some a \<Rightarrow> (case GetCommitment st a of
       None \<Rightarrow> Inl (Errorf ''no commitment registered'')
     | Some c \<Rightarrow> Inr (addrStr, hex_EncodeToString c)))"

subsection \<open>State rent\<close>

definition StateRentDenom :: denom where
  "StateRentDenom = ''uzytc''"

definition DefaultStateRentParams :: StateRentParams where
  "DefaultStateRentParams = \<lparr>RentRatePerBytePerBlock = 1, MaxFreeSizeBytes = 1024, GracePeriodBlocks = 14400\<rparr>"

text \<open>\<open>NewInt64Coin\<close> panics on a negative amount, which the wrapped product can be.\<close>

definition RentDue :: "StateRentParams \<Rightarrow> int \<Rightarrow> int \<Rightarrow> coin option" where
  "RentDue p sizeBytes blocks =
     (let billableBytes = i64 (sizeBytes - MaxFreeSizeBytes p) in
      if billableBytes \<le> 0 \<or> blocks \<le> 0 then NewCoin StateRentDenom 0
      else NewCoin StateRentDenom (i64 (i64 (billableBytes * RentRatePerBytePerBlock p) * blocks)))"

definition stateRentParamsKey :: string where
  "stateRentParamsKey = ''state_rent_params''"

definition rentLastKey :: "string \<Rightarrow> string" where
  "rentLastKey k = ''rent_last/'' @ k"

definition rentGraceKey :: "string \<Rightarrow> string" where
  "rentGraceKey k = ''rent_grace/'' @ k"

definition GetStateRentParams :: "pval kv \<Rightarrow> StateRentParams" where
  "GetStateRentParams st = (case kv_get st stateRentParamsKey of Some (PRent p) \<Rightarrow> p | _ \<Rightarrow> DefaultStateRentParams)"

definition SetStateRentParams :: "StateRentParams \<Rightarrow> unit pv_op" where
  "SetStateRentParams p = pv_set stateRentParamsKey (PRent p)"

definition getRentLastCharged :: "ctx \<Rightarrow> pval kv \<Rightarrow> string \<Rightarrow> int" where
  "getRentLastCharged C st k = (case kv_get st (rentLastKey k) of Some (PHeight h) \<Rightarrow> h | _ \<Rightarrow> block_height C)"

definition setRentLastCharged :: "string \<Rightarrow> int \<Rightarrow> unit pv_op" where
  "setRentLastCharged k h = pv_set (rentLastKey k) (PHeight h)"

definition getGraceStart :: "pval kv \<Rightarrow> string \<Rightarrow> int" where
  "getGraceStart st k = (case kv_get st (rentGraceKey k) of Some (PHeight h) \<Rightarrow> h | _ \<Rightarrow> 0)"

definition setGraceStart :: "string \<Rightarrow> int \<Rightarrow> unit pv_op" where
  "setGraceStart k h = pv_set (rentGraceKey k) (PHeight h)"

definition clearGracePeriod :: "string \<Rightarrow> unit pv_op" where
  "clearGracePeriod k = pv_delete (rentGraceKey k)"

definition handleRentDefault :: "env \<Rightarrow> string \<Rightarrow> addr \<Rightarrow> int \<Rightarrow> StateRentParams \<Rightarrow> unit pv_op" where
  "handleRentDefault E k owner currentHeight p =
     gbind (gget (\<lambda>s. getGraceStart (pv_store s) k)) (\<lambda>g.
     if g = 0 then gbind (setGraceStart k currentHeight) (\<lambda>_.
       pv_on_base (EmitEvent ''rent_default'' [(''commitment_key'', AStr k), (''owner'', AStr (acc_String E owner)),
         (''grace_period_blocks'', AInt (GracePeriodBlocks p)), (''eviction_at_block'', AInt (i64 (currentHeight + GracePeriodBlocks p)))]))
     else gret ())"

definition CollectRent :: "env \<Rightarrow> ctx \<Rightarrow> string \<Rightarrow> addr \<Rightarrow> int \<Rightarrow> unit pv_op" where
  "CollectRent E C commitmentKey owner sizeBytes =
     gbind (gget (\<lambda>s. GetStateRentParams (pv_store s))) (\<lambda>p.
     gbind (gget (\<lambda>s. getRentLastCharged C (pv_store s) commitmentKey)) (\<lambda>lastCharged.
     if i64 (block_height C - lastCharged) \<le> 0 then gret ()
     else
       gbind (gopt_panic ''negative coin amount'' (RentDue p sizeBytes (i64 (block_height C - lastCharged)))) (\<lambda>rentDue.
       if c_amount rentDue = 0 then setRentLastCharged commitmentKey (block_height C)
       else
         gbind (gopt_panic ''invalid coins'' (NewCoins [rentDue])) (\<lambda>coins.
         gbind (gtry (pv_on_base (SendCoinsFromAccountToModule E C owner ''privacy'' coins))) (\<lambda>r. case r of
           Inl e \<Rightarrow> gbind (handleRentDefault E commitmentKey owner (block_height C) p) (\<lambda>_. gerr (Wrap ''privacy: rent collection failed'' e))
         | Inr _ \<Rightarrow>
             gbind (gtry (pv_on_base (BurnCoins E C ''privacy'' coins))) (\<lambda>_.
             gbind (setRentLastCharged commitmentKey (block_height C)) (\<lambda>_.
             gbind (clearGracePeriod commitmentKey) (\<lambda>_.
             pv_on_base (EmitEvent ''rent_collected'' [(''commitment_key'', AStr commitmentKey), (''owner'', AStr (acc_String E owner)),
               (''amount'', ACoins coins), (''size_bytes'', AInt sizeBytes)])))))))))"

definition CheckAndEvict :: "(pval \<Rightarrow> nat) \<Rightarrow> ctx \<Rightarrow> string \<Rightarrow> bool pv_op" where
  "CheckAndEvict jsonLen C commitmentKey =
     gbind (gget (\<lambda>s. getGraceStart (pv_store s) commitmentKey)) (\<lambda>graceStart.
     if graceStart = 0 then gret False
     else
       gbind (gget (\<lambda>s. GetStateRentParams (pv_store s))) (\<lambda>p.
       if i64 (block_height C - graceStart) < GracePeriodBlocks p then gret False
       else
         gbind (gget (\<lambda>s. kv_get (pv_store s) commitmentKey)) (\<lambda>blob.
         gbind (case blob of None \<Rightarrow> gret () | Some v \<Rightarrow>
           gbind (pv_on_base (EmitEvent ''commitment_evicted'' [(''commitment_key'', AStr commitmentKey), (''grace_started_at'', AInt graceStart),
             (''evicted_at'', AInt (block_height C)), (''data_size_bytes'', AInt (blob_size jsonLen v))])) (\<lambda>_. pv_delete commitmentKey)) (\<lambda>_.
         gbind (pv_delete (rentLastKey commitmentKey)) (\<lambda>_.
         gbind (pv_delete (rentGraceKey commitmentKey)) (\<lambda>_.
         gret True))))))"

subsection \<open>Histories\<close>

text \<open>
  A message runs in a transaction: when it fails, its writes to the stores are discarded,
  while what it did on the node (shard files, posts) stays. Between messages other modules
  change the bank, a new transaction starts with its own gas meter, and rent parameters may
  be set. \<open>DecrTFHEQuota\<close> has no caller. A query's writes to the stores are discarded too, even
  when it succeeds: it runs on a cached copy of a committed state.
\<close>

definition pv_tx :: "'a pv_op \<Rightarrow> 'a pv_op" where
  "pv_tx m = (\<lambda>s. case m s of (Ret a, t) \<Rightarrow> (Ret a, t) | (r, t) \<Rightarrow> (r, s\<lparr>pv_node := pv_node t, pv_posted := pv_posted t\<rparr>))"

definition pv_query :: "'a pv_op \<Rightarrow> 'a pv_op" where
  "pv_query m = (\<lambda>s. case m s of (r, t) \<Rightarrow> (r, s\<lparr>pv_node := pv_node t\<rparr>))"

inductive pv_steps :: "env \<Rightarrow> rs_codec \<Rightarrow> (string \<Rightarrow> coin option) \<Rightarrow> privacy \<Rightarrow> privacy \<Rightarrow> bool" for E R parseCoin s where
  start: "pv_steps E R parseCoin s s"
| submit: "pv_steps E R parseCoin s t \<Longrightarrow> pv_steps E R parseCoin s (snd (pv_tx (TFHESubmit E R jsonLen valsGas getenv vals msg) t))"
| init: "pv_steps E R parseCoin s t \<Longrightarrow> pv_steps E R parseCoin s (snd (pv_tx (InitCommitment E parseCoin jsonLen bankGas C im) t))"
| query: "pv_steps E R parseCoin s t \<Longrightarrow> pv_steps E R parseCoin s (snd (pv_query (TFHEResult E R transport h hx) t))"
| rent: "pv_steps E R parseCoin s t \<Longrightarrow> pv_steps E R parseCoin s (snd (CollectRent E C k owner n t))"
| evict: "pv_steps E R parseCoin s t \<Longrightarrow> pv_steps E R parseCoin s (snd (CheckAndEvict jsonLen C k t))"
| params: "pv_steps E R parseCoin s t \<Longrightarrow> pv_steps E R parseCoin s (snd (SetStateRentParams p t))"
| other: "pv_steps E R parseCoin s t \<Longrightarrow> pv_steps E R parseCoin s (t\<lparr>pv_base := b, pv_node := d, pv_gas := g, pv_gas_limit := l\<rparr>)"

subsection \<open>Reading and writing the store\<close>

lemma pv_eval [go_simps]:
  "pv_set k v s = (Ret (), s\<lparr>pv_store := kv_set k v (pv_store s)\<rparr>)"
  "pv_delete k s = (Ret (), s\<lparr>pv_store := kv_delete k (pv_store s)\<rparr>)"
  "gsum_err e (Inl x) = gerr e" "gsum_err e (Inr a) = gret a"
  by (simp_all add: pv_set_def pv_delete_def go_simps gsum_err_def)

lemma pv_on_base_store [simp]: "pv_store (snd (pv_on_base m s)) = pv_store s"
  by (simp add: pv_on_base_def split: prod.splits)

lemma pv_inv [go_iffs]:
  "pv_set k v s = (Ret u, t) \<longleftrightarrow> t = s\<lparr>pv_store := kv_set k v (pv_store s)\<rparr>"
  "gsum_err e x s = (Ret a, t) \<longleftrightarrow> x = Inr a \<and> t = s"
  by (auto simp: pv_eval gsum_err_def go_iffs split: sum.splits)

lemma pv_ConsumeGas_eval: "pv_ConsumeGas n s = (if pv_gas s + n \<le> pv_gas_limit s then Ret () else Panic ''out of gas'', s\<lparr>pv_gas := pv_gas s + n\<rparr>)"
  by (simp add: pv_ConsumeGas_def go_simps gbind_def gget_def gmod_def)

definition get_cost :: "(pval \<Rightarrow> nat) \<Rightarrow> pval kv \<Rightarrow> string \<Rightarrow> int" where
  "get_cost jsonLen st k = 1000 + 3 * int (length k) + 3 * (case kv_get st k of None \<Rightarrow> 0 | Some v \<Rightarrow> blob_size jsonLen v)"

definition set_cost :: "(pval \<Rightarrow> nat) \<Rightarrow> string \<Rightarrow> pval \<Rightarrow> int" where
  "set_cost jsonLen k v = 2000 + 30 * int (length k) + 30 * blob_size jsonLen v"

lemma blob_size_nonneg: "0 \<le> blob_size jsonLen v"
  by (simp add: blob_size_def split: pval.splits)

lemma gas_inv [go_iffs]:
  "pv_ConsumeGas n s = (Ret u, t) \<longleftrightarrow> pv_gas s + n \<le> pv_gas_limit s \<and> t = s\<lparr>pv_gas := pv_gas s + n\<rparr>"
  by (auto simp: pv_ConsumeGas_eval)

lemma gas_get_Ret [go_iffs]: "gas_get jsonLen k s = (Ret v, t) \<longleftrightarrow>
    v = kv_get (pv_store s) k \<and> pv_gas s + get_cost jsonLen (pv_store s) k \<le> pv_gas_limit s \<and> t = s\<lparr>pv_gas := pv_gas s + get_cost jsonLen (pv_store s) k\<rparr>"
proof -
  have b: "0 \<le> (case kv_get (pv_store s) k of None \<Rightarrow> 0 | Some v \<Rightarrow> blob_size jsonLen v)" by (simp add: blob_size_nonneg split: option.splits)
  show ?thesis using b by (auto simp: gas_get_def go_iffs get_cost_def)
qed

lemma gas_set_Ret [go_iffs]: "gas_set jsonLen k v s = (Ret u, t) \<longleftrightarrow> pv_gas s + set_cost jsonLen k v \<le> pv_gas_limit s
    \<and> t = s\<lparr>pv_gas := pv_gas s + set_cost jsonLen k v, pv_store := kv_set k v (pv_store s)\<rparr>"
  using blob_size_nonneg [of jsonLen v] by (auto simp: gas_set_def go_iffs set_cost_def)

lemma pv_on_base_Ret: "pv_on_base m s = (Ret a, t) \<Longrightarrow> pv_store t = pv_store s \<and> pv_node t = pv_node s \<and> pv_gas t = pv_gas s"
  by (auto simp: pv_on_base_def split: prod.splits)

text \<open>
  An operation that spends \<open>c\<close>: with the gas it takes the state from \<open>s\<close> to \<open>t\<close> and returns
  \<open>a\<close>, without it panics. Costs add up along a sequence of operations.
\<close>

definition spends :: "'a pv_op \<Rightarrow> privacy \<Rightarrow> int \<Rightarrow> 'a \<Rightarrow> privacy \<Rightarrow> bool" where
  "spends m s c a t \<longleftrightarrow> 0 \<le> c \<and> pv_gas t = pv_gas s + c \<and> pv_gas_limit t = pv_gas_limit s
     \<and> (pv_gas t \<le> pv_gas_limit s \<longrightarrow> m s = (Ret a, t))
     \<and> (pv_gas s \<le> pv_gas_limit s \<and> pv_gas_limit s < pv_gas t \<longrightarrow> fst (m s) = Panic ''out of gas'')"

lemma spends_gbind:
  assumes "spends m s c a t" and "spends (f a) t c' b u"
  shows "spends (gbind m f) s (c + c') b u"
  using assms by (cases "pv_gas t \<le> pv_gas_limit s") (auto simp: spends_def gbind_def split: prod.splits outcome.splits)

lemma spends_ret: "spends (gret a) s 0 a s"
  by (simp add: spends_def gret_def)

text \<open>a step that touches no gas\<close>

definition gasless :: "'a pv_op \<Rightarrow> privacy \<Rightarrow> 'a \<Rightarrow> privacy \<Rightarrow> bool" where
  "gasless m s a t \<longleftrightarrow> m s = (Ret a, t) \<and> pv_gas t = pv_gas s \<and> pv_gas_limit t = pv_gas_limit s"

lemma spends_skip:
  assumes "gasless m s a t" "spends (f a) t c b u"
  shows "spends (gbind m f) s c b u"
  using assms by (simp add: spends_def gbind_def gasless_def)

lemma gasless_simple:
  "gasless (gret a) s a s" "gasless (gfail_if False e) s () s" "gasless (gopt_err e (Some a)) s a s" "gasless (gsum_err e (Inr a)) s a s"
  "gasless (gget h) s (h s) s"
  by (simp_all add: gasless_def gret_def gfail_if_def gopt_err_def gsum_err_def gget_def)

lemma gasless_event:
  "gasless (pv_on_base (EmitEvent ty as)) s () (s\<lparr>pv_base := (pv_base s)\<lparr>evs := evs (pv_base s) @ [Event ty as]\<rparr>\<rparr>)"
  by (simp add: gasless_def pv_on_base_def EmitEvent_def go_simps)

lemma spends_pv_ConsumeGas: "0 \<le> n \<Longrightarrow> spends (pv_ConsumeGas n) s n () (s\<lparr>pv_gas := pv_gas s + n\<rparr>)"
  by (simp add: spends_def pv_ConsumeGas_eval)

lemma spends_gas_get:
  "spends (gas_get jsonLen k) s (get_cost jsonLen (pv_store s) k) (kv_get (pv_store s) k) (s\<lparr>pv_gas := pv_gas s + get_cost jsonLen (pv_store s) k\<rparr>)"
proof -
  have b: "0 \<le> (case kv_get (pv_store s) k of None \<Rightarrow> 0 | Some v \<Rightarrow> blob_size jsonLen v)" by (simp add: blob_size_nonneg split: option.splits)
  then show ?thesis by (auto simp: spends_def gas_get_Ret get_cost_def gas_get_def gbind_def pv_ConsumeGas_eval gget_def gret_def)
qed

lemma spends_gas_set:
  "spends (gas_set jsonLen k v) s (set_cost jsonLen k v) () (s\<lparr>pv_gas := pv_gas s + set_cost jsonLen k v, pv_store := kv_set k v (pv_store s)\<rparr>)"
  using blob_size_nonneg [of jsonLen v]
  by (auto simp: spends_def gas_set_Ret set_cost_def gas_set_def gbind_def pv_ConsumeGas_eval pv_set_def gmod_def)

lemma gas_get_frame: "\<exists>g. snd (gas_get jsonLen k s) = s\<lparr>pv_gas := g\<rparr>"
  by (auto simp: gas_get_def gbind_def pv_ConsumeGas_eval gget_def gret_def)

lemma distribute_op_Ret: "distribute_op E getenv shards h peers s = (Ret m, t) \<longleftrightarrow>
    (\<exists>d posts. DistributeShards E getenv shards h peers (pv_node s) = (Inr m, d, posts)
      \<and> t = s\<lparr>pv_node := d, pv_posted := pv_posted s @ posts\<rparr>)"
  by (auto simp: distribute_op_def Let_def split: prod.splits sum.splits)

lemmas pv_keys = CommitmentKey_def TFHEMetaKey_def TFHEResultKey_def TFHEQuotaKey_def rentLastKey_def rentGraceKey_def stateRentParamsKey_def

lemma meta_roundtrip:
  assumes "\<And>i. tm_ShardNodeMap m i \<noteq> None \<Longrightarrow> in_i64 i"
  shows "unmarshalTFHEMeta (marshalTFHEMeta m) = m"
proof -
  have "(if in_i64 i then mj_ShardNodeMap (marshalTFHEMeta m) (int_dec i) else None) = tm_ShardNodeMap m i" for i
    using assms [of i] by (cases "tm_ShardNodeMap m i") (auto simp: marshalTFHEMeta_def atoi_int_dec)
  then show ?thesis by (simp add: unmarshalTFHEMeta_def) (simp add: marshalTFHEMeta_def)
qed

lemma quota_read: "stored_quota (kv_set (TFHEQuotaKey a) (PBytes (be_bytes 8 (uint q))) st) a = q"
proof -
  have "be_value (be_bytes 8 (uint q)) = uint q" using uint_lt2p [of q] by (intro be_value_mod) simp_all
  then show ?thesis by (simp add: stored_quota_def quota_of_def kv_simps)
qed

lemma quota_set [simp]:
  "k \<noteq> TFHEQuotaKey a \<Longrightarrow> stored_quota (kv_set k v st) a = stored_quota st a"
  by (simp add: stored_quota_def kv_simps)

lemma GetTFHEQuota_Ret [go_iffs]: "GetTFHEQuota jsonLen a s = (Ret q, t) \<longleftrightarrow> q = stored_quota (pv_store s) a
    \<and> pv_gas s + get_cost jsonLen (pv_store s) (TFHEQuotaKey a) \<le> pv_gas_limit s
    \<and> t = s\<lparr>pv_gas := pv_gas s + get_cost jsonLen (pv_store s) (TFHEQuotaKey a)\<rparr>"
  by (auto simp: GetTFHEQuota_def go_iffs stored_quota_def)

lemma validators_op_Ret: "validators_op valsGas vals s = (Ret ps, t) \<Longrightarrow> ps = GetValidatorMonikers vals \<and> (\<exists>g. t = s\<lparr>pv_gas := g\<rparr>)"
  by (cases vals) (auto simp: validators_op_def go_iffs go_simps intro: exI [of _ "pv_gas s"])

lemma key_neq [simp]:
  "CommitmentKey a \<noteq> TFHEQuotaKey b" "TFHEMetaKey h \<noteq> TFHEQuotaKey b" "TFHEResultKey h \<noteq> TFHEQuotaKey b"
  "stateRentParamsKey \<noteq> TFHEQuotaKey b" "TFHEQuotaKey a = TFHEQuotaKey b \<longleftrightarrow> a = b"
  "CommitmentKey a \<noteq> TFHEMetaKey h" "CommitmentKey a \<noteq> TFHEResultKey h" "TFHEMetaKey h \<noteq> CommitmentKey a"
  "TFHEQuotaKey b \<noteq> TFHEMetaKey h" "TFHEQuotaKey b \<noteq> CommitmentKey a" "TFHEResultKey h \<noteq> TFHEMetaKey h'"
  by (simp_all add: pv_keys)

subsection \<open>What a submission stores\<close>

lemma TFHESubmit_Ret:
  assumes "TFHESubmit E R jsonLen valsGas getenv vals msg s = (Ret r, t)"
  obtains a shards tree m d posts st where "AccAddressFromBech32 E (ts_Sender msg) = Some a"
    "stored_quota (pv_store s) a = 0" "Split R (ts_Ciphertext msg) = Inr shards" "BuildMerkleTree shards = Inr tree"
    "DistributeShards E getenv shards (sha256 (ts_Ciphertext msg)) (GetValidatorMonikers vals) (pv_node s) = (Inr m, d, posts)"
    "st = kv_set (CommitmentKey a) (PBytes (sha256 (ts_Ciphertext msg))) (kv_set (TFHEMetaKey (tm_CommitmentHash m))
       (PMeta (marshalTFHEMeta (m\<lparr>tm_OriginalLen := int (length (ts_Ciphertext msg)), tm_MerkleRoot := Root tree, tm_ProposerPubkey := ProposerPubkey d\<rparr>))) (pv_store s))"
    "pv_store t = kv_set (TFHEQuotaKey a) (PBytes (be_bytes 8 1)) st" "pv_node t = d"
    "r = (sha256 (ts_Ciphertext msg), 16)"
proof -
  have q: "\<not> 1 \<le> x \<longleftrightarrow> x = 0" for x :: "64 word" by (simp add: not_le word_less_1)
  show thesis
    using assms q that
    by (clarsimp simp: TFHESubmit_def TFHEMaxActiveCommitments_def go_iffs distribute_op_Ret SetTFHEMeta_def SetCommitment_def
        IncrTFHEQuota_def setTFHEQuota_def erasure_params split: if_splits dest!: pv_on_base_Ret validators_op_Ret)
qed

subsection \<open>Rent\<close>

text \<open>no commitment has a last-charged height or a grace period\<close>

definition rent_free :: "pval kv \<Rightarrow> bool" where
  "rent_free st \<longleftrightarrow> (\<forall>k. kv_get st (rentLastKey k) = None \<and> kv_get st (rentGraceKey k) = None)"

lemma rent_free_set:
  assumes "rent_free st" "\<not> prefix ''rent_'' k"
  shows "rent_free (kv_set k v st)"
  using assms by (auto simp: rent_free_def kv_simps rentLastKey_def rentGraceKey_def)

lemma rent_keys [simp]:
  "\<not> prefix ''rent_'' (CommitmentKey a)" "\<not> prefix ''rent_'' (TFHEMetaKey h)" "\<not> prefix ''rent_'' (TFHEResultKey h)"
  "\<not> prefix ''rent_'' (TFHEQuotaKey a)" "\<not> prefix ''rent_'' stateRentParamsKey"
  by (simp_all add: pv_keys)

lemma no_rent:
  assumes "rent_free (pv_store s)"
  shows "CollectRent E C k owner n s = (Ret (), s)" "CheckAndEvict jsonLen C k s = (Ret False, s)"
  using assms by (simp_all add: rent_free_def CollectRent_def CheckAndEvict_def go_simps getRentLastCharged_def getGraceStart_def i64_id in_i64_def)

text \<open>
  What the store keeps in every history without rent records: a property that setting any
  other key than a quota keeps, and that a submission keeps, holds for ever.
\<close>

lemma InitCommitment_Ret:
  assumes "InitCommitment E parseCoin jsonLen bankGas C msg s = (Ret u, t)"
  obtains a where "pv_store t = kv_set (CommitmentKey a) (PBytes (ic_Commitment msg)) (pv_store s)"
  using assms that by (clarsimp simp: InitCommitment_def SetCommitment_def go_iffs dest!: pv_on_base_Ret)

lemma pv_query_store [simp]: "pv_store (snd (pv_query m s)) = pv_store s"
  by (simp add: pv_query_def split: prod.splits)

lemma history_keeps:
  assumes "pv_steps E R parseCoin s t" "rent_free (pv_store s)" "P (pv_store s)"
    and set: "\<And>st k v. P st \<Longrightarrow> (\<forall>a. k \<noteq> TFHEQuotaKey a) \<Longrightarrow> P (kv_set k v st)"
    and quota: "\<And>st a. P st \<Longrightarrow> stored_quota st a = 0 \<Longrightarrow> P (kv_set (TFHEQuotaKey a) (PBytes (be_bytes 8 1)) st)"
  shows "rent_free (pv_store t) \<and> P (pv_store t)"
  using assms(1-3)
proof (induction rule: pv_steps.induct)
  case (submit t jsonLen valsGas getenv vals msg)
  then have IH: "rent_free (pv_store t)" "P (pv_store t)" by auto
  show ?case
  proof (cases "fst (TFHESubmit E R jsonLen valsGas getenv vals msg t)")
    case (Ret r)
    then obtain u where u: "TFHESubmit E R jsonLen valsGas getenv vals msg t = (Ret r, u)" by (metis prod.collapse)
    then show ?thesis
      by (rule TFHESubmit_Ret) (simp add: u pv_tx_def IH set quota rent_free_set)
  qed (use IH in \<open>auto simp: pv_tx_def split: prod.splits outcome.splits\<close>)
next
  case (init t jsonLen bankGas C im)
  then have IH: "rent_free (pv_store t)" "P (pv_store t)" by auto
  show ?case
  proof (cases "fst (InitCommitment E parseCoin jsonLen bankGas C im t)")
    case (Ret r)
    then obtain u where u: "InitCommitment E parseCoin jsonLen bankGas C im t = (Ret r, u)" by (metis prod.collapse)
    then show ?thesis
      by (rule InitCommitment_Ret) (simp add: u pv_tx_def IH set rent_free_set)
  qed (use IH in \<open>auto simp: pv_tx_def split: prod.splits outcome.splits\<close>)
next
  case (params t p)
  then show ?case by (simp add: SetStateRentParams_def go_simps set rent_free_set)
qed (simp_all add: no_rent)

text \<open>
  C23. Rent is never collected and no commitment is ever evicted: from a store without rent
  records, such as the one of genesis, no history of the module creates one, and in every
  state of it \<open>CollectRent\<close> returns without charging or recording anything and
  \<open>CheckAndEvict\<close> answers that nothing was evicted. (A commitment without a record counts as
  charged at the current height, and the early return keeps the record from being made.)
\<close>

theorem rent_never_collected:
  assumes "rent_free (pv_store s)" and "pv_steps E R parseCoin s t"
  shows "CollectRent E' C k owner n t = (Ret (), t) \<and> CheckAndEvict jsonLen C k t = (Ret False, t)"
  using history_keeps [OF assms(2,1), of "\<lambda>_. True"] by (simp add: no_rent)

lemma one_submission:
  assumes "TFHESubmit E R jsonLen valsGas getenv vals msg s = (Ret r, t)" "AccAddressFromBech32 E (ts_Sender msg) = Some a"
    "rent_free (pv_store s)" "pv_steps E R parseCoin t u"
  shows "stored_quota (pv_store u) a = 1"
proof -
  have t: "stored_quota (pv_store t) a = 1" "rent_free (pv_store t)"
    by (rule TFHESubmit_Ret [OF assms(1)]; use assms(2,3) quota_read [of a 1] in \<open>simp add: rent_free_set\<close>)+
  have "stored_quota (kv_set (TFHEQuotaKey b) v st) a = 1" if "stored_quota st a = 1" "stored_quota st b = 0" for st b v
    using that by (cases "b = a") simp_all
  with history_keeps [OF assms(4) t(2), of "\<lambda>st. stored_quota st a = 1"] t(1) show ?thesis by simp
qed

lemma quota_refusal:
  assumes "AccAddressFromBech32 E (ts_Sender msg) = Some a" and "stored_quota (pv_store u) a = 1"
    and "MinCiphertextSize \<le> length (ts_Ciphertext msg)" and "length (ts_Ciphertext msg) \<le> MaxCiphertextSize"
  shows "pv_gas u + get_cost jsonLen (pv_store u) (TFHEQuotaKey a) \<le> pv_gas_limit u \<Longrightarrow>
      TFHESubmit E R jsonLen valsGas getenv vals msg u =
        (Err (Errorf ''ErrTFHEQuotaExceeded''), u\<lparr>pv_gas := pv_gas u + get_cost jsonLen (pv_store u) (TFHEQuotaKey a)\<rparr>)"
    and "pv_gas u \<le> pv_gas_limit u \<Longrightarrow> pv_gas_limit u < pv_gas u + get_cost jsonLen (pv_store u) (TFHEQuotaKey a) \<Longrightarrow>
      fst (TFHESubmit E R jsonLen valsGas getenv vals msg u) = Panic ''out of gas''"
    and "\<exists>g. snd (TFHESubmit E R jsonLen valsGas getenv vals msg u) = u\<lparr>pv_gas := g\<rparr>"
proof -
  let ?k = "TFHEQuotaKey a"
  have sub: "TFHESubmit E R jsonLen valsGas getenv vals msg u =
      (case gas_get jsonLen ?k u of (Ret v, t) \<Rightarrow> (Err (Errorf ''ErrTFHEQuotaExceeded''), t) | (Err e, t) \<Rightarrow> (Err e, t) | (Panic p, t) \<Rightarrow> (Panic p, t))"
    using assms by (auto simp: TFHESubmit_def go_simps GetTFHEQuota_def gbind_def gas_get_Ret TFHEMaxActiveCommitments_def stored_quota_def
        gfail_if_def gerr_def gret_def split: prod.splits outcome.splits)
  note run = spends_gas_get [of jsonLen ?k u, unfolded spends_def]
  show "pv_gas u + get_cost jsonLen (pv_store u) ?k \<le> pv_gas_limit u \<Longrightarrow> TFHESubmit E R jsonLen valsGas getenv vals msg u =
      (Err (Errorf ''ErrTFHEQuotaExceeded''), u\<lparr>pv_gas := pv_gas u + get_cost jsonLen (pv_store u) ?k\<rparr>)"
    using run by (simp add: sub)
  show "pv_gas u \<le> pv_gas_limit u \<Longrightarrow> pv_gas_limit u < pv_gas u + get_cost jsonLen (pv_store u) ?k \<Longrightarrow>
      fst (TFHESubmit E R jsonLen valsGas getenv vals msg u) = Panic ''out of gas''"
    using run by (auto simp: sub split: prod.splits outcome.splits)
  show "\<exists>g. snd (TFHESubmit E R jsonLen valsGas getenv vals msg u) = u\<lparr>pv_gas := g\<rparr>"
    using gas_get_frame [of jsonLen ?k u] by (auto simp: sub split: prod.splits outcome.splits)
qed

text \<open>
  C24. Once an address has submitted a ciphertext it can never submit another: in every later
  history of the module its quota stays used up, and each further submission of acceptable
  size is refused with the quota error, changing nothing but the gas of the read of the
  quota; a transaction without gas for that read panics. Either way the transaction leaves
  the state as it was.
\<close>

theorem single_submission_for_ever:
  assumes "TFHESubmit E R jsonLen valsGas getenv vals msg s = (Ret r, t)" and "rent_free (pv_store s)" and "pv_steps E R parseCoin t u"
    and "AccAddressFromBech32 E (ts_Sender msg') = AccAddressFromBech32 E (ts_Sender msg)"
    and "MinCiphertextSize \<le> length (ts_Ciphertext msg')" and "length (ts_Ciphertext msg') \<le> MaxCiphertextSize"
  shows "\<exists>a. AccAddressFromBech32 E (ts_Sender msg) = Some a
    \<and> (let submit = TFHESubmit E R jsonLen' valsGas' getenv' vals' msg'; g = pv_gas u + get_cost jsonLen' (pv_store u) (TFHEQuotaKey a) in
       (g \<le> pv_gas_limit u \<longrightarrow> submit u = (Err (Errorf ''ErrTFHEQuotaExceeded''), u\<lparr>pv_gas := g\<rparr>))
       \<and> (pv_gas u \<le> pv_gas_limit u \<and> pv_gas_limit u < g \<longrightarrow> fst (submit u) = Panic ''out of gas'')
       \<and> (pv_gas u \<le> pv_gas_limit u \<longrightarrow> snd (pv_tx submit u) = u))"
proof -
  obtain a where a: "AccAddressFromBech32 E (ts_Sender msg) = Some a" by (rule TFHESubmit_Ret [OF assms(1)])
  then have a': "AccAddressFromBech32 E (ts_Sender msg') = Some a" using assms(4) by simp
  let ?submit = "TFHESubmit E R jsonLen' valsGas' getenv' vals' msg'"
  note q = quota_refusal [OF a' one_submission [OF assms(1) a assms(2,3)] assms(5,6), where R = R and jsonLen = jsonLen' and valsGas = valsGas'
      and getenv = getenv' and vals = vals']
  have "fst (?submit u) \<noteq> Ret x" if "pv_gas u \<le> pv_gas_limit u" for x
    using q(1,2) that by (cases "pv_gas u + get_cost jsonLen' (pv_store u) (TFHEQuotaKey a) \<le> pv_gas_limit u") simp_all
  moreover obtain o' g where "?submit u = (o', u\<lparr>pv_gas := g\<rparr>)" using q(3) by (metis prod.collapse)
  ultimately have "snd (pv_tx ?submit u) = u" if "pv_gas u \<le> pv_gas_limit u" using that by (auto simp: pv_tx_def split: outcome.splits)
  with a q(1,2) show ?thesis by (auto simp: Let_def)
qed

subsection \<open>Submitting and reading back\<close>

text \<open>The codec's shards all have the size \<open>ceil(n / 12)\<close>, so none is empty.\<close>

definition rs_nonempty :: "rs_codec \<Rightarrow> bool" where
  "rs_nonempty R \<longleftrightarrow> (\<forall>data ds cs. data \<noteq> [] \<and> rs_Split R data = Inr ds \<and> rs_Encode R ds = Inr cs \<longrightarrow> [] \<notin> set cs)"

lemma Split_total:
  assumes "rs_laws R" "rs_nonempty R" "data \<noteq> []"
  obtains rs where "Split R data = Inr rs" "map sr_Index rs = [0..15]" "\<forall>x \<in> set rs. sr_Data x \<noteq> []"
proof -
  obtain ds cs where cs: "rs_Split R data = Inr ds" "rs_Encode R ds = Inr cs" "length cs = 16" and new: "rs_New R 12 4 = None"
    using assms(1,3) unfolding rs_laws_def by blast
  have ne: "[] \<notin> set cs" using assms(2,3) cs unfolding rs_nonempty_def by blast
  let ?rs = "map (\<lambda>i. \<lparr>sr_Index = int i, sr_Data = cs ! i\<rparr>) [0..<16]"
  have "Split R data = Inr ?rs" using assms(3) cs new by (simp add: Split_def newEncoder_def erasure_params)
  moreover have "map sr_Index ?rs = [0..15]" by (simp add: upto_rec1 upt_rec numeral_eq_Suc)
  moreover have "\<forall>x \<in> set ?rs. sr_Data x \<noteq> []" using ne cs(3) by (auto simp: in_set_conv_nth)
  ultimately show thesis by (rule that)
qed

lemma index_facts:
  assumes "map sr_Index rs = [0..15]"
  shows "length rs = 16" "distinct (map sr_Index rs)" "sr_Index ` set rs = {0..15}"
proof -
  show "length rs = 16" using arg_cong [OF assms, of length] by simp
  show "sr_Index ` set rs = {0..15}" using arg_cong [OF assms, of set] by simp
qed (simp add: assms)

lemma tree_total:
  assumes "map sr_Index rs = [0..15]"
  obtains t where "BuildMerkleTree rs = Inr t"
proof -
  note ix = index_facts [OF assms]
  from ix(3) have "\<forall>sr \<in> set rs. 0 \<le> sr_Index sr \<and> sr_Index sr < 16" by force
  then obtain ls where "leaf_hashes rs (replicate 16 (replicate 32 CHR 0x00)) = Inr ls" using leaf_hashes_total by blast
  then show thesis using that ix(1) by (simp add: BuildMerkleTree_def erasure_params log2_16)
qed

lemma DistributeShards_total:
  assumes "map sr_Index rs = [0..15]" "\<forall>x \<in> set rs. sr_Data x \<noteq> []" "c \<noteq> []" "sd_signingPrivKey d = []" "permissive (sd_store d)"
  obtains m d' posts where "DistributeShards E getenv rs c peers d = (Inr m, d', posts)" "tm_CommitmentHash m = c"
proof -
  obtain t where t: "BuildMerkleTree rs = Inr t" by (rule tree_total [OF assms(1)])
  note dist = index_facts(2,1) [OF assms(1)]
  have all: "\<forall>sr \<in> set rs. 0 \<le> sr_Index sr \<and> sr_Index sr < 16 \<and> sr_Data sr \<noteq> [] \<and> (\<exists>pf. ProofForShard t (sr_Index sr) = Inr pf)"
    using tree_proof [OF t dist(1)] assms(2) by metis
  let ?n = "local_node_id getenv d"
  obtain m d' posts where run: "distribute_loop E t ?n (cluster_nodes getenv ?n peers) c (sd_signingPubKey d) rs d
      \<lparr>tm_CommitmentHash = c, tm_OriginalLen = 0, tm_ShardNodeMap = Map.empty, tm_MerkleRoot = Root t, tm_ProposerPubkey = sd_signingPubKey d\<rparr> []
      = (Inr m, d', posts)"
    using distribute_total [OF assms(3) all assms(4,5)] by blast
  then have "DistributeShards E getenv rs c peers d = (Inr m, d', posts)"
    using t dist(2) by (simp add: DistributeShards_def erasure_params Let_def)
  with that loop_meta [OF run] show thesis by simp
qed


lemma sha256_ne [simp]: "sha256 x \<noteq> []"
  using length_sha256 [of x] by (metis list.size(3) zero_neq_numeral)

text \<open>
  The gas a submission costs: two reads of the quota, the staking keeper's reads, the writes
  of the metadata it computes, of the commitment and of the quota, and 1500 per kilobyte.
\<close>

definition submission_meta :: "env \<Rightarrow> rs_codec \<Rightarrow> (string \<Rightarrow> string) \<Rightarrow> string list option \<Rightarrow> string \<Rightarrow> ShardDistributor \<Rightarrow> TFHEShardMeta option" where
  "submission_meta E R getenv vals ct d = (case Split R ct of
     Inl _ \<Rightarrow> None
   | Inr shards \<Rightarrow> (case (BuildMerkleTree shards, DistributeShards E getenv shards (sha256 ct) (GetValidatorMonikers vals) d) of
       (Inr tree, Inr m, d', _) \<Rightarrow> Some (m\<lparr>tm_OriginalLen := int (length ct), tm_MerkleRoot := Root tree, tm_ProposerPubkey := ProposerPubkey d'\<rparr>)
     | _ \<Rightarrow> None))"

definition submission_gas :: "env \<Rightarrow> rs_codec \<Rightarrow> (pval \<Rightarrow> nat) \<Rightarrow> nat \<Rightarrow> (string \<Rightarrow> string) \<Rightarrow> string list option \<Rightarrow> addr \<Rightarrow> string \<Rightarrow> privacy \<Rightarrow> int" where
  "submission_gas E R jsonLen valsGas getenv vals a ct s =
     2 * get_cost jsonLen (pv_store s) (TFHEQuotaKey a)
     + (if vals = None then 0 else int valsGas)
     + (case submission_meta E R getenv vals ct (pv_node s) of
          None \<Rightarrow> 0 | Some m \<Rightarrow> set_cost jsonLen (TFHEMetaKey (sha256 ct)) (PMeta (marshalTFHEMeta m)))
     + set_cost jsonLen (CommitmentKey a) (PBytes (sha256 ct))
     + set_cost jsonLen (TFHEQuotaKey a) (PBytes (be_bytes 8 1))
     + 1500 * ((int (length ct) + 1023) div 1024)"

lemma get_cost_set [simp]: "k' \<noteq> k \<Longrightarrow> get_cost jsonLen (kv_set k' v st) k = get_cost jsonLen st k"
  by (simp add: get_cost_def kv_simps)

lemma spends_quota:
  "spends (GetTFHEQuota jsonLen a) s (get_cost jsonLen (pv_store s) (TFHEQuotaKey a)) (stored_quota (pv_store s) a)
     (s\<lparr>pv_gas := pv_gas s + get_cost jsonLen (pv_store s) (TFHEQuotaKey a)\<rparr>)"
  unfolding GetTFHEQuota_def stored_quota_def
  using spends_gbind [OF spends_gas_get spends_ret] by simp

lemma spends_validators:
  "spends (validators_op valsGas vals) s (if vals = None then 0 else int valsGas) (GetValidatorMonikers vals)
     (s\<lparr>pv_gas := pv_gas s + (if vals = None then 0 else int valsGas)\<rparr>)"
  by (cases vals) (auto simp: spends_def validators_op_def gbind_def gret_def pv_ConsumeGas_eval)

lemma spends_SetTFHEMeta:
  "tm_CommitmentHash m \<noteq> [] \<Longrightarrow> spends (SetTFHEMeta jsonLen m) s (set_cost jsonLen (TFHEMetaKey (tm_CommitmentHash m)) (PMeta (marshalTFHEMeta m))) ()
     (s\<lparr>pv_gas := pv_gas s + set_cost jsonLen (TFHEMetaKey (tm_CommitmentHash m)) (PMeta (marshalTFHEMeta m)),
        pv_store := kv_set (TFHEMetaKey (tm_CommitmentHash m)) (PMeta (marshalTFHEMeta m)) (pv_store s)\<rparr>)"
  by (simp add: SetTFHEMeta_def go_simps spends_gas_set)

lemma spends_SetCommitment:
  "length c = 32 \<Longrightarrow> spends (SetCommitment jsonLen a c) s (set_cost jsonLen (CommitmentKey a) (PBytes c)) ()
     (s\<lparr>pv_gas := pv_gas s + set_cost jsonLen (CommitmentKey a) (PBytes c), pv_store := kv_set (CommitmentKey a) (PBytes c) (pv_store s)\<rparr>)"
  by (simp add: SetCommitment_def go_simps spends_gas_set)

lemma spends_IncrTFHEQuota:
  assumes "stored_quota (pv_store s) a = q" and "c = get_cost jsonLen (pv_store s) (TFHEQuotaKey a) + set_cost jsonLen (TFHEQuotaKey a) (PBytes (be_bytes 8 (uint (q + 1))))"
  shows "spends (IncrTFHEQuota jsonLen a) s c () (s\<lparr>pv_gas := pv_gas s + c, pv_store := kv_set (TFHEQuotaKey a) (PBytes (be_bytes 8 (uint (q + 1)))) (pv_store s)\<rparr>)"
  unfolding IncrTFHEQuota_def setTFHEQuota_def
  using spends_gbind [OF spends_quota [of jsonLen a s], where f = "\<lambda>q. gas_set jsonLen (TFHEQuotaKey a) (PBytes (be_bytes 8 (uint (q + 1))))",
      OF spends_gas_set] assms
  by (simp add: add.assoc)

lemma submit_spends:
  assumes "AccAddressFromBech32 E (ts_Sender msg) = Some a" "stored_quota (pv_store s) a = 0"
    and "MinCiphertextSize \<le> length (ts_Ciphertext msg)" "length (ts_Ciphertext msg) \<le> MaxCiphertextSize"
    and "Split R (ts_Ciphertext msg) = Inr shards" "BuildMerkleTree shards = Inr tree"
    and "DistributeShards E getenv shards (sha256 (ts_Ciphertext msg)) (GetValidatorMonikers vals) (pv_node s) = (Inr m, d, posts)"
    and "tm_CommitmentHash m = sha256 (ts_Ciphertext msg)"
  shows "\<exists>t. spends (TFHESubmit E R jsonLen valsGas getenv vals msg) s
    (submission_gas E R jsonLen valsGas getenv vals a (ts_Ciphertext msg) s) (sha256 (ts_Ciphertext msg), 16) t"
proof -
  define ct h where "ct = ts_Ciphertext msg" and "h = sha256 ct"
  define qk where "qk = TFHEQuotaKey a"
  define meta where "meta = m\<lparr>tm_OriginalLen := int (length ct), tm_MerkleRoot := Root tree, tm_ProposerPubkey := ProposerPubkey d\<rparr>"
  define q v g where "q = get_cost jsonLen (pv_store s) qk" and "v = (if vals = None then 0 else int valsGas)"
    and "g = int ((length ct + 1023) div 1024) * TFHEGasPerKB"
  define s1 where "s1 = s\<lparr>pv_gas := pv_gas s + q\<rparr>"
  define s2 where "s2 = s1\<lparr>pv_gas := pv_gas s1 + v\<rparr>"
  define s3 where "s3 = s2\<lparr>pv_node := d, pv_posted := pv_posted s2 @ posts\<rparr>"
  note ss = s1_def s2_def s3_def
  have 1: "spends (GetTFHEQuota jsonLen a) s q 0 s1" using spends_quota [of jsonLen a s] assms(2) by (simp add: q_def qk_def s1_def)
  have 2: "spends (validators_op valsGas vals) s1 v (GetValidatorMonikers vals) s2" using spends_validators [of valsGas vals s1] by (simp add: s2_def v_def)
  have 3: "gasless (distribute_op E getenv shards h (GetValidatorMonikers vals)) s2 m s3"
    using assms(7) by (simp add: gasless_def distribute_op_Ret ss h_def ct_def)
  have mh: "tm_CommitmentHash meta = h" "h \<noteq> []" "length h = 32" using assms(8) by (simp_all add: meta_def h_def ct_def)
  define s4 where "s4 = s3\<lparr>pv_gas := pv_gas s3 + set_cost jsonLen (TFHEMetaKey h) (PMeta (marshalTFHEMeta meta)),
    pv_store := kv_set (TFHEMetaKey h) (PMeta (marshalTFHEMeta meta)) (pv_store s3)\<rparr>"
  define s5 where "s5 = s4\<lparr>pv_gas := pv_gas s4 + set_cost jsonLen (CommitmentKey a) (PBytes h), pv_store := kv_set (CommitmentKey a) (PBytes h) (pv_store s4)\<rparr>"
  have 4: "spends (SetTFHEMeta jsonLen (m\<lparr>tm_OriginalLen := int (length ct), tm_MerkleRoot := Root tree, tm_ProposerPubkey := ProposerPubkey d\<rparr>)) s3
      (set_cost jsonLen (TFHEMetaKey h) (PMeta (marshalTFHEMeta meta))) () s4"
    using spends_SetTFHEMeta [of meta jsonLen s3] mh unfolding s4_def meta_def [symmetric] by simp
  have 5: "spends (SetCommitment jsonLen a h) s4 (set_cost jsonLen (CommitmentKey a) (PBytes h)) () s5"
    using spends_SetCommitment [OF mh(3)] by (simp add: s5_def)
  have st5: "stored_quota (pv_store s5) a = 0" "get_cost jsonLen (pv_store s5) qk = q"
    using assms(2) by (simp_all add: s5_def s4_def ss q_def qk_def)
  obtain s6 where 6: "spends (IncrTFHEQuota jsonLen a) s5 (q + set_cost jsonLen qk (PBytes (be_bytes 8 1))) () s6"
    using spends_IncrTFHEQuota [OF st5(1) refl, of jsonLen] st5(2) by (auto simp: qk_def)
  have g: "g = 1500 * ((int (length ct) + 1023) div 1024)" "0 \<le> g" by (simp_all add: g_def TFHEGasPerKB_def zdiv_int)
  have ok: "gasless (gopt_err e (AccAddressFromBech32 E (ts_Sender msg))) s a s"
    "gasless (gfail_if (length ct < MinCiphertextSize) e) s () s" "gasless (gfail_if (length ct > MaxCiphertextSize) e) s () s"
    "gasless (gfail_if ((0 :: 64 word) \<ge> TFHEMaxActiveCommitments) e) s1 () s1"
    "gasless (gsum_err e (Split R ct)) s1 shards s1" "gasless (gsum_err e (BuildMerkleTree shards)) s1 tree s1"
    "gasless (gget (\<lambda>s. ProposerPubkey (pv_node s))) s3 (ProposerPubkey d) s3" for e
    using assms(1,3-6) gasless_simple(5) [of "\<lambda>s. ProposerPubkey (pv_node s)" s3]
    by (simp_all add: gasless_simple ct_def TFHEMaxActiveCommitments_def not_less s3_def)
  have "\<exists>t. spends (TFHESubmit E R jsonLen valsGas getenv vals msg) s
      (q + (v + (set_cost jsonLen (TFHEMetaKey h) (PMeta (marshalTFHEMeta meta)) + (set_cost jsonLen (CommitmentKey a) (PBytes h)
        + ((q + set_cost jsonLen qk (PBytes (be_bytes 8 1))) + (g + 0)))))) (h, ErasureTotalShards) t"
    unfolding TFHESubmit_def ct_def [symmetric] h_def [symmetric] g_def [symmetric]
    by (intro exI spends_skip [OF ok(1)] spends_skip [OF ok(2)] spends_skip [OF ok(3)] spends_gbind [OF 1] spends_skip [OF ok(4)]
        spends_skip [OF ok(5)] spends_skip [OF ok(6)] spends_gbind [OF 2] spends_skip [OF 3] spends_skip [OF ok(7)]
        spends_gbind [OF 4] spends_gbind [OF 5] spends_gbind [OF 6] spends_gbind [OF spends_pv_ConsumeGas [OF g(2)]]
        spends_skip [OF gasless_event] spends_skip [OF gasless_simple(1)]) (rule spends_ret)
  moreover have "submission_meta E R getenv vals ct (pv_node s) = Some meta"
    using assms(5-7) by (simp add: submission_meta_def ct_def h_def meta_def)
  ultimately show ?thesis
    by (simp add: submission_gas_def ct_def [symmetric] h_def [symmetric] qk_def [symmetric] q_def [symmetric] v_def [symmetric] g(1) [symmetric]
        erasure_params algebra_simps)
qed

lemma submit_total:
  assumes "rs_laws R" "rs_nonempty R" "AccAddressFromBech32 E (ts_Sender msg) = Some a" "stored_quota (pv_store s) a = 0"
    and "MinCiphertextSize \<le> length (ts_Ciphertext msg)" "length (ts_Ciphertext msg) \<le> MaxCiphertextSize"
    and "permissive (sd_store (pv_node s))" "sd_signingPrivKey (pv_node s) = []"
  obtains t where "spends (TFHESubmit E R jsonLen valsGas getenv vals msg) s
    (submission_gas E R jsonLen valsGas getenv vals a (ts_Ciphertext msg) s) (sha256 (ts_Ciphertext msg), 16) t"
proof -
  let ?ct = "ts_Ciphertext msg" and ?h = "sha256 (ts_Ciphertext msg)"
  have "?ct \<noteq> []" using assms(5) by (auto simp: MinCiphertextSize_def)
  then obtain shards where sh: "Split R ?ct = Inr shards" "map sr_Index shards = [0..15]" "\<forall>x \<in> set shards. sr_Data x \<noteq> []"
    by (rule Split_total [OF assms(1,2)])
  obtain tree where tree: "BuildMerkleTree shards = Inr tree" by (rule tree_total [OF sh(2)])
  obtain m d posts where ds: "DistributeShards E getenv shards ?h (GetValidatorMonikers vals) (pv_node s) = (Inr m, d, posts)" "tm_CommitmentHash m = ?h"
    by (rule DistributeShards_total [OF sh(2,3) sha256_ne assms(8,7)])
  show thesis using submit_spends [OF assms(3-6) sh(1) tree ds] that by blast
qed



text \<open>
  The metadata a node writes on the chain names the node itself: two nodes with different
  ids and no peers that run the same submission on the same store end with different stores.
\<close>

lemma submission_depends_on_node:
  assumes "rs_laws R" "TFHESubmit E R jsonLen valsGas getenv vals msg s = (Ret r, t)" "TFHESubmit E R jsonLen valsGas getenv vals msg s' = (Ret r', t')"
    and "pv_store s = pv_store s'" "sd_nodeID (pv_node s) \<noteq> sd_nodeID (pv_node s')" "sd_nodeID (pv_node s) \<noteq> []" "sd_nodeID (pv_node s') \<noteq> []"
    and "GetValidatorMonikers vals = []" "getenv ''TFHE_PEERS'' = []"
  shows "pv_store t \<noteq> pv_store t'"
proof -
  let ?h = "sha256 (ts_Ciphertext msg)"
  have rec: "\<exists>mj. kv_get (pv_store v) (TFHEMetaKey ?h) = Some (PMeta mj) \<and> mj_ShardNodeMap mj (int_dec 0) = Some [sd_nodeID (pv_node w)]"
    if run: "TFHESubmit E R jsonLen valsGas getenv vals msg w = (Ret q, v)" and id: "sd_nodeID (pv_node w) \<noteq> []" for w v q
  proof -
    obtain a shards tree m d posts st where a: "Split R (ts_Ciphertext msg) = Inr shards"
      "DistributeShards E getenv shards ?h (GetValidatorMonikers vals) (pv_node w) = (Inr m, d, posts)"
      "st = kv_set (CommitmentKey a) (PBytes ?h) (kv_set (TFHEMetaKey (tm_CommitmentHash m))
       (PMeta (marshalTFHEMeta (m\<lparr>tm_OriginalLen := int (length (ts_Ciphertext msg)), tm_MerkleRoot := Root tree, tm_ProposerPubkey := ProposerPubkey d\<rparr>))) (pv_store w))"
      "pv_store v = kv_set (TFHEQuotaKey a) (PBytes (be_bytes 8 1)) st"
      by (rule TFHESubmit_Ret [OF run])
    have cn: "local_node_id getenv (pv_node w) = sd_nodeID (pv_node w)" "cluster_nodes getenv (sd_nodeID (pv_node w)) [] = [sd_nodeID (pv_node w)]"
      using id assms(9) by (simp_all add: local_node_id_def cluster_nodes_def)
    have "0 \<in> sr_Index ` set shards" by (rule Split_Inr [OF assms(1) a(1)]) force
    then have m: "tm_ShardNodeMap m 0 = Some [sd_nodeID (pv_node w)]" "tm_CommitmentHash m = ?h"
      using a(2) assms(8) by (elim DistributeShards_Inr; use loop_meta [of _ _ _ _ _ "pv_node w" shards _ _ m _ _ 0] in
        \<open>force simp: cn assigned_nodes_def repl_factor_min\<close>)+
    have "atoi (int_dec 0) = Some 0" by (simp add: atoi_int_dec in_i64_def)
    with m show ?thesis by (simp add: a(3,4) kv_simps marshalTFHEMeta_def)
  qed
  from rec [OF assms(2,6)] rec [OF assms(3,7)] assms(5) show ?thesis by auto
qed

subsection \<open>Examples\<close>

definition ct1k :: string where
  "ct1k = replicate 1024 CHR ''x''"

definition submit0 :: MsgTFHESubmit where
  "submit0 = \<lparr>ts_Sender = acc_String env0 ''alice'', ts_Ciphertext = ct1k\<rparr>"

definition privacy0 :: privacy where
  "privacy0 = \<lparr>pv_base = base_empty, pv_store = kv_empty, pv_node = node_me, pv_posted = [], pv_gas = 0, pv_gas_limit = 100000\<rparr>"

lemma rs0_nonempty: "rs_nonempty rs0"
proof -
  have "[] \<notin> set (rs0_code (rs0_pad data))" if "data \<noteq> []" for data
  proof -
    let ?p = "rs0_pad data"
    have "12 \<le> length ?p" using that by (intro dvd_imp_le rs0_pad_dvd) (simp add: rs0_pad_def)
    then have "rs0_part ?p i \<noteq> []" if "i < 12" for i
    proof -
      obtain q where q: "length ?p = 12 * q" by (rule dvdE [OF rs0_pad_dvd])
      with \<open>12 \<le> length ?p\<close> have "i * q < 12 * q" using that by simp
      with q show ?thesis by (simp add: rs0_part_def)
    qed
    moreover have "?p \<noteq> []" using that by (simp add: rs0_pad_def)
    ultimately show ?thesis by (auto simp: rs0_code_def) (metis)
  qed
  then show ?thesis by (simp add: rs_nonempty_def rs0_def)
qed

lemma privacy0_facts:
  "AccAddressFromBech32 env0 (ts_Sender submit0) = Some ''alice''" "stored_quota (pv_store privacy0) ''alice'' = 0"
  "MinCiphertextSize \<le> length (ts_Ciphertext submit0)" "length (ts_Ciphertext submit0) \<le> MaxCiphertextSize"
  "permissive (sd_store (pv_node privacy0))" "sd_signingPrivKey (pv_node privacy0) = []"
  "length (cluster_nodes (\<lambda>_. []) (local_node_id (\<lambda>_. []) (pv_node privacy0)) (GetValidatorMonikers (Some [''a'', ''b'']))) \<le> 4"
  "GetTFHEResult (pv_store privacy0) h = None" "rent_free (pv_store privacy0)"
  using AccAddress_roundtrip [OF env0_bech32_laws, of "''alice''"] cluster3
  by (simp_all add: submit0_def privacy0_def stored_quota_def quota_of_def GetTFHEResult_def pv_bytes_def kv_simps ct1k_def MinCiphertextSize_def MaxCiphertextSize_def
      CiphertextMaxBytes_def permissive_def node_me_def NewShardDistributor_def store0_def GetValidatorMonikers_def rent_free_def VerifyAddressFormat_def MaxAddrLen_def)

text \<open>Documents of 2000 bytes and 5000 gas for the reads of the staking keeper.\<close>

definition len0 :: "pval \<Rightarrow> nat" where
  "len0 v = 2000"

lemma gas0:
  "submission_gas env0 rs0 len0 5000 (\<lambda>_. []) (Some [''a'', ''b'']) ''alice'' (ts_Ciphertext submit0) privacy0 \<le> 80000"
  by (simp add: submission_gas_def get_cost_def set_cost_def blob_size_def len0_def pv_keys privacy0_def kv_simps submit0_def ct1k_def split: option.splits)


lemma privacy0_run:
  obtains t where "TFHESubmit env0 rs0 len0 5000 (\<lambda>_. []) (Some [''a'', ''b'']) submit0 privacy0 = (Ret (sha256 ct1k, 16), t)"
    "pv_gas t \<le> 80000" "pv_gas_limit t = 100000"
proof (rule submit_total [OF rs0_laws rs0_nonempty privacy0_facts(1-6)])
  fix t assume t: "spends (TFHESubmit env0 rs0 len0 5000 (\<lambda>_. []) (Some [''a'', ''b'']) submit0) privacy0
      (submission_gas env0 rs0 len0 5000 (\<lambda>_. []) (Some [''a'', ''b'']) ''alice'' (ts_Ciphertext submit0) privacy0) (sha256 (ts_Ciphertext submit0), 16) t"
  show thesis by (rule that [of t]) (use t gas0 in \<open>auto simp: spends_def privacy0_def submit0_def\<close>)
qed

definition ctx9 :: ctx where
  "ctx9 = \<lparr>block_height = 9, block_time = 0\<rparr>"

theorem rent_never_collected_witness:
  "\<exists>r t. TFHESubmit env0 rs0 len0 5000 (\<lambda>_. []) (Some [''a'', ''b'']) submit0 privacy0 = (Ret r, t)
    \<and> CollectRent env0 ctx9 (CommitmentKey ''alice'') ''alice'' 4096 t = (Ret (), t)
    \<and> CheckAndEvict (\<lambda>_. 0) ctx9 (CommitmentKey ''alice'') t = (Ret False, t)"
proof -
  obtain t where t: "TFHESubmit env0 rs0 len0 5000 (\<lambda>_. []) (Some [''a'', ''b'']) submit0 privacy0 = (Ret (sha256 ct1k, 16), t)" by (rule privacy0_run)
  have "pv_steps env0 rs0 (\<lambda>_. None) privacy0 (snd (pv_tx (TFHESubmit env0 rs0 len0 5000 (\<lambda>_. []) (Some [''a'', ''b'']) submit0) privacy0))"
    by (intro pv_steps.intros)
  then have "pv_steps env0 rs0 (\<lambda>_. None) privacy0 t" by (simp add: pv_tx_def t)
  from rent_never_collected [OF privacy0_facts(9) this] t show ?thesis by blast
qed

theorem single_submission_for_ever_witness:
  "\<exists>r t u. TFHESubmit env0 rs0 len0 5000 (\<lambda>_. []) (Some [''a'', ''b'']) submit0 privacy0 = (Ret r, t)
    \<and> TFHESubmit env0 rs0 len0 5000 (\<lambda>_. []) None submit0 t = (Err (Errorf ''ErrTFHEQuotaExceeded''), u)"
proof -
  obtain t where t: "TFHESubmit env0 rs0 len0 5000 (\<lambda>_. []) (Some [''a'', ''b'']) submit0 privacy0 = (Ret (sha256 ct1k, 16), t)"
    and g: "pv_gas t \<le> 80000" "pv_gas_limit t = 100000" by (rule privacy0_run)
  have "kv_get (pv_store t) (TFHEQuotaKey ''alice'') = Some (PBytes (be_bytes 8 1))"
    by (rule TFHESubmit_Ret [OF t]) (use privacy0_facts(1) in \<open>auto simp: kv_simps\<close>)
  then have "get_cost len0 (pv_store t) (TFHEQuotaKey ''alice'') \<le> 10000"
    by (simp add: get_cost_def blob_size_def) (simp add: pv_keys)
  with single_submission_for_ever [OF t privacy0_facts(9) pv_steps.start refl privacy0_facts(3,4), of len0 5000 "\<lambda>_. []" None] privacy0_facts(1) g t
  show ?thesis by (auto simp: Let_def)
qed

end
