(* ===== verification/Keys.thy ===== *)
theory Keys
  imports Pqc Sha256
begin

section \<open>Key material\<close>

text \<open>
  \<open>crypto/kyber1024\<close>, \<open>crypto/dilithium5\<close> and \<open>x/privacy/pqc/hybrid_kem.go\<close>: the wire format
  of keys, file encryption, the hybrid handshake and keys derived from a mnemonic.

  Kyber1024, AES-GCM, X25519, HKDF and BIP-39 are the fields of \<open>suite\<close>. What is drawn from
  \<open>crypto/rand\<close> is an argument, \<open>None\<close> when the source fails. A byte is a character, a
  \<open>uint64\<close> a word.
\<close>

unbundle bit_operations_syntax

datatype kerr = KErr string | KPanic string

record suite =
  kyber_derive :: "string \<Rightarrow> string \<times> string"
  kyber_generate :: "string \<Rightarrow> string \<times> string"
  kyber_priv_ok :: "string \<Rightarrow> bool"
  kyber_pub_ok :: "string \<Rightarrow> bool"
  kyber_public :: "string \<Rightarrow> string"
  kyber_encaps :: "string \<Rightarrow> string \<Rightarrow> (string \<times> string) option"
  kyber_decaps :: "string \<Rightarrow> string \<Rightarrow> string option"
  gcm_Seal :: "string \<Rightarrow> string \<Rightarrow> string \<Rightarrow> string"
  gcm_Open :: "string \<Rightarrow> string \<Rightarrow> string \<Rightarrow> string option"
  x25519_public :: "string \<Rightarrow> string"
  x25519_pub_ok :: "string \<Rightarrow> bool"
  x25519_ECDH :: "string \<Rightarrow> string \<Rightarrow> string option"
  hkdf_read :: "string \<Rightarrow> string \<Rightarrow> nat \<Rightarrow> string option"
  bip39_valid :: "string \<Rightarrow> bool"
  bip39_seed :: "string \<Rightarrow> string \<Rightarrow> string"
  mode5_keygen :: "(nat \<Rightarrow> char) \<Rightarrow> (string \<times> string) option"
  mode5_public :: "string \<Rightarrow> string"

subsection \<open>Wire format\<close>

text \<open>\<open>byte(v)\<close> and \<open>uint64(c)\<close>\<close>

definition low_byte :: "64 word \<Rightarrow> char" where
  "low_byte v = char_of (unat (v AND 0xFF))"

definition byte_word :: "char \<Rightarrow> 64 word" where
  "byte_word c = of_nat (of_char c)"

function encodeVarint :: "64 word \<Rightarrow> string" where
  "encodeVarint v = (if v \<ge> 0x80 then low_byte (v OR 0x80) # encodeVarint (drop_bit 7 v) else [low_byte v])"
  by auto
termination
proof (relation "measure unat", simp, goal_cases)
  case (1 v)
  then have "0 < unat v" by (simp add: word_le_nat_alt)
  then have "unat v div 2 ^ 7 < unat v" by (intro div_less_dividend) simp_all
  then show ?case by (simp add: unat_div drop_bit_eq_div)
qed

declare encodeVarint.simps [simp del]

fun decodeVarint_loop :: "nat \<Rightarrow> 64 word \<Rightarrow> nat \<Rightarrow> string \<Rightarrow> 64 word \<times> int" where
  "decodeVarint_loop i x s [] = (0, 0)"
| "decodeVarint_loop i x s (c # b) =
     (if i = 10 then (0, - 1)
      else if byte_word c < 0x80 then (x OR push_bit s (byte_word c), int (i + 1))
      else decodeVarint_loop (i + 1) (x OR push_bit s (byte_word c AND 0x7F)) (s + 7) b)"

definition decodeVarint :: "string \<Rightarrow> 64 word \<times> int" where
  "decodeVarint b = decodeVarint_loop 0 0 0 b"

definition marshalBytesField1 :: "string \<Rightarrow> string" where
  "marshalBytesField1 b = (if b = [] then [] else [CHR 0x0A] @ encodeVarint (of_nat (length b)) @ b)"

definition unmarshalBytesField1 :: "string \<Rightarrow> kerr + string" where
  "unmarshalBytesField1 dAtA = (case dAtA of
     [] \<Rightarrow> Inr []
   | t # rest \<Rightarrow>
       if t \<noteq> CHR 0x0A then Inl (KErr ''unexpected tag byte'')
       else let (len, n) = decodeVarint rest in
         if n \<le> 0 then Inl (KErr ''invalid varint for length'')
         else let d = drop (nat n) rest in
           if of_nat (length d) < len then Inl (KErr ''buffer too short'') else Inr (take (unat len) d))"

record PublicKey =
  pk_Key :: string

record PrivateKey =
  sk_Key :: string

definition kyber_Marshal :: "PublicKey \<Rightarrow> string" where
  "kyber_Marshal pk = marshalBytesField1 (pk_Key pk)"

text \<open>\<open>copy(dAtA, b)\<close> fills as much as fits; the whole length is reported.\<close>

definition go_copy :: "string \<Rightarrow> string \<Rightarrow> string" where
  "go_copy dst src = take (length dst) src @ drop (length src) dst"

definition kyber_MarshalTo :: "PublicKey \<Rightarrow> string \<Rightarrow> string \<times> nat" where
  "kyber_MarshalTo pk dAtA = (let b = marshalBytesField1 (pk_Key pk) in (go_copy dAtA b, length b))"

definition kyber_MarshalToSizedBuffer :: "PublicKey \<Rightarrow> string \<Rightarrow> kerr + (string \<times> nat)" where
  "kyber_MarshalToSizedBuffer pk dAtA =
     (let b = marshalBytesField1 (pk_Key pk) in
      if length b > length dAtA then Inl (KPanic ''slice bounds out of range'')
      else let k = length dAtA - length b in Inr (take k dAtA @ go_copy (drop k dAtA) b, length b))"

definition kyber_Unmarshal :: "string \<Rightarrow> PublicKey \<Rightarrow> kerr option \<times> PublicKey" where
  "kyber_Unmarshal dAtA pk = (case unmarshalBytesField1 dAtA of
     Inl e \<Rightarrow> (Some e, pk) | Inr key \<Rightarrow> (None, pk\<lparr>pk_Key := key\<rparr>))"

definition kyber_Size :: "PublicKey \<Rightarrow> nat" where
  "kyber_Size pk = length (marshalBytesField1 (pk_Key pk))"

subsection \<open>Encapsulation and files\<close>

definition GenKeyPair :: "suite \<Rightarrow> string option \<Rightarrow> kerr + (string \<times> string)" where
  "GenKeyPair S rand = (case rand of None \<Rightarrow> Inl (KErr ''kyber1024: key generation failed'') | Some r \<Rightarrow> Inr (kyber_generate S r))"

definition GenKeyPairFromSeed :: "suite \<Rightarrow> string \<Rightarrow> kerr + (string \<times> string)" where
  "GenKeyPairFromSeed S seed =
     (if length seed < 64 then Inl (KErr ''kyber1024: seed must be at least 64 bytes'') else Inr (kyber_derive S (take 64 seed)))"

definition PublicKeyFromPrivate :: "suite \<Rightarrow> string \<Rightarrow> kerr + string" where
  "PublicKeyFromPrivate S priv =
     (if \<not> kyber_priv_ok S priv then Inl (KErr ''kyber1024: unmarshal private key'') else Inr (kyber_public S priv))"

definition Encapsulate :: "suite \<Rightarrow> string option \<Rightarrow> string \<Rightarrow> kerr + (string \<times> string)" where
  "Encapsulate S rand pub =
     (if \<not> kyber_pub_ok S pub then Inl (KErr ''kyber1024: unmarshal public key'')
      else case Option.bind rand (kyber_encaps S pub) of
        None \<Rightarrow> Inl (KErr ''kyber1024: encapsulate'') | Some r \<Rightarrow> Inr r)"

definition Decapsulate :: "suite \<Rightarrow> string \<Rightarrow> string \<Rightarrow> kerr + string" where
  "Decapsulate S priv ct =
     (if \<not> kyber_priv_ok S priv then Inl (KErr ''kyber1024: unmarshal private key'')
      else case kyber_decaps S priv ct of None \<Rightarrow> Inl (KErr ''kyber1024: decapsulate'') | Some ss \<Rightarrow> Inr ss)"

text \<open>\<open>aes.NewCipher\<close> accepts keys of 16, 24 and 32 bytes.\<close>

definition aes_key_ok :: "string \<Rightarrow> bool" where
  "aes_key_ok k \<longleftrightarrow> length k \<in> {16, 24, 32}"

definition EncryptFile :: "suite \<Rightarrow> string option \<Rightarrow> string option \<Rightarrow> string \<Rightarrow> string \<Rightarrow> kerr + string" where
  "EncryptFile S rand nonceRand pub plaintext = (case Encapsulate S rand pub of
     Inl e \<Rightarrow> Inl e
   | Inr (kemCT, sharedSecret) \<Rightarrow>
       if \<not> aes_key_ok sharedSecret then Inl (KErr ''kyber1024: AES init'')
       else case nonceRand of
         None \<Rightarrow> Inl (KErr ''kyber1024: nonce generation'')
       | Some nonce \<Rightarrow>
           let ctLen = length kemCT
           in Inr ([char_of (ctLen div 256), char_of ctLen] @ kemCT @ nonce @ gcm_Seal S sharedSecret nonce plaintext))"

definition DecryptFile :: "suite \<Rightarrow> string \<Rightarrow> string \<Rightarrow> kerr + string" where
  "DecryptFile S priv blob =
     (if length blob < 2 then Inl (KErr ''kyber1024: blob too short'')
      else let ctLen = of_char (blob ! 0) * 256 + of_char (blob ! 1) in
        if length blob < 2 + ctLen + 12 then Inl (KErr ''kyber1024: blob truncated'')
        else let kemCT = take ctLen (drop 2 blob); rest = drop (2 + ctLen) blob in
          case Decapsulate S priv kemCT of
            Inl e \<Rightarrow> Inl e
          | Inr sharedSecret \<Rightarrow>
              if \<not> aes_key_ok sharedSecret then Inl (KErr ''kyber1024: AES init'')
              else if length rest < 12 then Inl (KErr ''kyber1024: blob missing nonce'')
              else case gcm_Open S sharedSecret (take 12 rest) (drop 12 rest) of
                None \<Rightarrow> Inl (KErr ''kyber1024: AES-GCM decrypt failed'') | Some plaintext \<Rightarrow> Inr plaintext)"

subsection \<open>The hybrid handshake\<close>

definition HybridSessionKeySize :: nat where
  "HybridSessionKeySize = 32"

definition hybridHKDFInfo :: string where
  "hybridHKDFInfo = ''zytherion/hybrid-kem/kyber1024+x25519/v1''"

record HybridKEMResult =
  hk_SessionKey :: string
  hk_KyberCiphertext :: string
  hk_X25519PubKey :: string

definition deriveSessionKey :: "suite \<Rightarrow> string \<Rightarrow> string \<Rightarrow> kerr + string" where
  "deriveSessionKey S kyberSS x25519SS =
     (let ikm = kyberSS @ (if 0 < length x25519SS then x25519SS else []) in
      case hkdf_read S ikm hybridHKDFInfo HybridSessionKeySize of
        None \<Rightarrow> Inl (KErr ''hybrid KEM: HKDF failed'') | Some key \<Rightarrow> Inr key)"

definition HybridEncapsulate :: "suite \<Rightarrow> string option \<Rightarrow> string option \<Rightarrow> string \<Rightarrow> kerr + HybridKEMResult" where
  "HybridEncapsulate S rand xrand responderKyberPub = (case Encapsulate S rand responderKyberPub of
     Inl e \<Rightarrow> Inl (KErr ''hybrid KEM: kyber encapsulate'')
   | Inr (kyberCT, kyberSS) \<Rightarrow> (case xrand of
       None \<Rightarrow> Inl (KErr ''hybrid KEM: x25519 keygen'')
     | Some x25519Priv \<Rightarrow> (case deriveSessionKey S kyberSS [] of
         Inl e \<Rightarrow> Inl (KErr ''hybrid KEM: session key derivation'')
       | Inr sessionKey \<Rightarrow> Inr \<lparr>hk_SessionKey = sessionKey, hk_KyberCiphertext = kyberCT,
           hk_X25519PubKey = x25519_public S x25519Priv\<rparr>)))"

definition HybridDecapsulate :: "suite \<Rightarrow> string option \<Rightarrow> string \<Rightarrow> string \<Rightarrow> string \<Rightarrow> kerr + string" where
  "HybridDecapsulate S xrand responderKyberPriv kyberCT initiatorX25519Pub = (case Decapsulate S responderKyberPriv kyberCT of
     Inl e \<Rightarrow> Inl (KErr ''hybrid KEM: kyber decapsulate'')
   | Inr kyberSS \<Rightarrow>
       (case (if length initiatorX25519Pub = 32
              then (case xrand of
                  None \<Rightarrow> Inl (KErr ''hybrid KEM: x25519 keygen'')
                | Some priv \<Rightarrow>
                    if \<not> x25519_pub_ok S initiatorX25519Pub then Inl (KErr ''hybrid KEM: x25519 parse pub'')
                    else case x25519_ECDH S priv initiatorX25519Pub of
                      None \<Rightarrow> Inl (KErr ''hybrid KEM: x25519 ECDH'') | Some ss \<Rightarrow> Inr ss)
              else Inr []) of
          Inl e \<Rightarrow> Inl e
        | Inr x25519SS \<Rightarrow> (case deriveSessionKey S kyberSS x25519SS of
            Inl e \<Rightarrow> Inl (KErr ''hybrid KEM: session key derivation'') | Inr sk \<Rightarrow> Inr sk)))"

subsection \<open>Dilithium5 account keys\<close>

definition PubKeySize :: nat where
  "PubKeySize = 2592"

definition PrivKeySize :: nat where
  "PrivKeySize = 4864"

record deterministicReader =
  dr_seed :: string
  dr_pos :: nat

definition newDeterministicReader :: "string \<Rightarrow> deterministicReader" where
  "newDeterministicReader seed = \<lparr>dr_seed = seed, dr_pos = 0\<rparr>"

text \<open>\<open>Read\<close> of \<open>n\<close> bytes; an empty seed divides by zero.\<close>

fun reader_Read :: "nat \<Rightarrow> deterministicReader \<Rightarrow> (kerr + string) \<times> deterministicReader" where
  "reader_Read 0 r = (Inr [], r)"
| "reader_Read (Suc n) r =
     (if dr_seed r = [] then (Inl (KPanic ''integer divide by zero''), r)
      else (case reader_Read n (r\<lparr>dr_pos := dr_pos r + 1\<rparr>) of
          (Inl e, r') \<Rightarrow> (Inl e, r')
        | (Inr p, r') \<Rightarrow> (Inr (dr_seed r ! (dr_pos r mod length (dr_seed r)) # p), r')))"

definition GenPrivKeyFromSecret :: "suite \<Rightarrow> string \<Rightarrow> kerr + string" where
  "GenPrivKeyFromSecret S secret =
     (if length secret < 32 then Inl (KErr ''dilithium5 GenPrivKeyFromSecret: secret must be at least 32 bytes'')
      else case mode5_keygen S (\<lambda>i. secret ! (i mod length secret)) of
        None \<Rightarrow> Inl (KErr ''dilithium5 deterministic keygen'') | Some (pub, priv) \<Rightarrow> Inr priv)"

definition PrivKeyFromBytes :: "string \<Rightarrow> kerr + string" where
  "PrivKeyFromBytes bz = (if length bz \<noteq> PrivKeySize then Inl (KErr ''dilithium5: invalid private key size'') else Inr bz)"

definition PubKeyFromBytes :: "string \<Rightarrow> kerr + string" where
  "PubKeyFromBytes bz = (if length bz \<noteq> PubKeySize then Inl (KErr ''dilithium5: invalid public key size'') else Inr bz)"

definition PrivKey_PubKey :: "suite \<Rightarrow> string \<Rightarrow> kerr + string" where
  "PrivKey_PubKey S sk = (if length sk \<noteq> PrivKeySize then Inl (KPanic ''dilithium5.PrivKey.PubKey: invalid private key size'') else Inr (mode5_public S sk))"

definition PrivKey_Sign :: "env \<Rightarrow> string \<Rightarrow> string \<Rightarrow> kerr + string" where
  "PrivKey_Sign E sk msg = (case pqc_Sign E msg sk of None \<Rightarrow> Inl (KErr ''dilithium5 sign'') | Some sig \<Rightarrow> Inr sig)"

definition VerifySignature :: "env \<Rightarrow> string \<Rightarrow> string \<Rightarrow> string \<Rightarrow> bool" where
  "VerifySignature E pk msg sig = pqc_Verify E msg sig pk"

definition dilithium_domain :: string where
  "dilithium_domain = ''zytherion/dilithium5/v1''"

definition kyber_domain :: string where
  "kyber_domain = ''zytherion/kyber1024/v1''"

definition algo_Derive :: "suite \<Rightarrow> string \<Rightarrow> string \<Rightarrow> string \<Rightarrow> kerr + string" where
  "algo_Derive S mnemonic pass hdPath =
     (if \<not> bip39_valid S mnemonic then Inl (KErr ''dilithium5 derive: invalid BIP-39 mnemonic'')
      else case hkdf_read S (bip39_seed S mnemonic pass) (dilithium_domain @ ''/'' @ hdPath) 32 of
        None \<Rightarrow> Inl (KErr ''dilithium5 derive hkdf'') | Some entropy \<Rightarrow> Inr entropy)"

definition algo_Generate :: "suite \<Rightarrow> string \<Rightarrow> kerr + string" where
  "algo_Generate S bz = (case GenPrivKeyFromSecret S bz of Inl e \<Rightarrow> Inl (KPanic ''dilithium5 Generate'') | Inr k \<Rightarrow> Inr k)"

definition DeriveFromMnemonic :: "suite \<Rightarrow> string \<Rightarrow> string \<Rightarrow> string \<Rightarrow> kerr + (string \<times> string)" where
  "DeriveFromMnemonic S mnemonic pass hdPath =
     (if \<not> bip39_valid S mnemonic then Inl (KErr ''kyber1024 derive: invalid BIP-39 mnemonic'')
      else case hkdf_read S (bip39_seed S mnemonic pass) (kyber_domain @ ''/'' @ hdPath) 64 of
        None \<Rightarrow> Inl (KErr ''kyber1024 derive hkdf'') | Some entropy \<Rightarrow> GenKeyPairFromSeed S entropy)"

subsection \<open>Reading back what was written\<close>

lemma low_bits: "v AND 0x7F = take_bit 7 (v :: 64 word)" "v AND 0xFF = take_bit 8 v" "(0x80 :: 64 word) = push_bit 7 1"
proof -
  have "(0x7F :: 64 word) = mask 7" "(0xFF :: 64 word) = mask 8" by (simp_all add: mask_eq_exp_minus_1)
  then show "v AND 0x7F = take_bit 7 v" "v AND 0xFF = take_bit 8 v" by (simp_all only: take_bit_eq_mask)
qed simp

lemma byte_word_low: "byte_word (low_byte v) = take_bit 8 v"
proof -
  have "unat (take_bit 8 v) < 256" by (simp add: take_bit_eq_mod unat_mod)
  then show ?thesis by (simp add: byte_word_def low_byte_def low_bits of_char_of)
qed

lemma varint_split: "take_bit 7 v OR push_bit 7 (drop_bit 7 v) = (v :: 64 word)"
proof (rule bit_word_eqI)
  fix n assume "n < LENGTH(64)"
  then show "bit (take_bit 7 v OR push_bit 7 (drop_bit 7 v)) n = bit v n" by (cases "n < 7") (auto simp: bit_simps)
qed

lemma continued_byte:
  "take_bit 7 (take_bit 8 (v OR 0x80)) = take_bit 7 (v :: 64 word)" "\<not> take_bit 8 (v OR 0x80) < (0x80 :: 64 word)"
proof -
  show "take_bit 7 (take_bit 8 (v OR 0x80)) = take_bit 7 v"
    unfolding low_bits(3) by (rule bit_word_eqI) (auto simp: bit_simps)
  have "take_bit 8 (v OR 0x80) = take_bit 8 v OR 0x80"
    unfolding low_bits(3) by (rule bit_word_eqI) (auto simp: bit_simps)
  then show "\<not> take_bit 8 (v OR 0x80) < (0x80 :: 64 word)" by (metis le_word_or1 not_le or.commute)
qed

lemma decode_encode:
  assumes "unat v < 2 ^ (64 - 7 * i)" "i < 10"
  shows "decodeVarint_loop i x (7 * i) (encodeVarint v @ rest) = (x OR push_bit (7 * i) v, int (i + length (encodeVarint v)))"
  using assms
proof (induction v arbitrary: i x rule: encodeVarint.induct)
  case (1 v)
  show ?case
  proof (cases "v \<ge> 0x80")
    case False
    then have "take_bit 8 v = v" by (simp add: take_bit_eq_mod word_unat_eq_iff unat_mod word_le_nat_alt)
    moreover have "v < 0x80" using False by simp
    ultimately show ?thesis using "1.prems"(2) False by (subst (1 2) encodeVarint.simps) (simp add: byte_word_low)
  next
    case True
    then have big: "2 ^ 7 \<le> unat v" by (simp add: word_le_nat_alt)
    then have "(2 :: nat) ^ 7 < 2 ^ (64 - 7 * i)" using "1.prems"(1) by linarith
    then have i: "7 < 64 - 7 * i" by (rule power_less_imp_less_exp [rotated]) simp
    then have "64 - 7 * i = (64 - 7 * Suc i) + 7" by simp
    then have "unat v < 2 ^ (64 - 7 * Suc i) * 2 ^ 7" using "1.prems"(1) by (simp only: power_add)
    then have "unat v div 2 ^ 7 < 2 ^ (64 - 7 * Suc i)" by (rule less_mult_imp_div_less)
    then have lt: "unat (drop_bit 7 v) < 2 ^ (64 - 7 * Suc i)" by (simp add: unat_div drop_bit_eq_div)
    have "Suc i < 10" using i by simp
    note IH = "1.IH" [OF True lt this, of "x OR push_bit (7 * i) (take_bit 7 v)"]
    have "push_bit (7 * i) (take_bit 7 v) OR push_bit (7 * Suc i) (drop_bit 7 v) = push_bit (7 * i) (take_bit 7 v OR push_bit 7 (drop_bit 7 v))"
      by (simp add: push_bit_or add.commute)
    then have "x OR push_bit (7 * i) (take_bit 7 v) OR push_bit (7 * Suc i) (drop_bit 7 v) = x OR push_bit (7 * i) v"
      by (simp only: varint_split or.assoc)
    moreover have enc: "encodeVarint v = low_byte (v OR 0x80) # encodeVarint (drop_bit 7 v)"
      by (subst encodeVarint.simps) (simp only: True if_True)
    have "decodeVarint_loop i x (7 * i) (encodeVarint v @ rest)
        = decodeVarint_loop (Suc i) (x OR push_bit (7 * i) (take_bit 7 v)) (7 * Suc i) (encodeVarint (drop_bit 7 v) @ rest)"
      using "1.prems"(2) continued_byte [of v] unfolding enc by (simp only: append_Cons decodeVarint_loop.simps byte_word_low low_bits(1)) (simp add: add.commute)
    ultimately show ?thesis using IH enc by (simp add: or.assoc)
  qed
qed

text \<open>The ten bytes of the buffer are enough.\<close>

lemma encodeVarint_length: "unat v < 2 ^ (7 * Suc k) \<Longrightarrow> length (encodeVarint v) \<le> Suc k"
proof (induction k arbitrary: v)
  case 0
  then have "v < 0x80" by (simp add: word_less_nat_alt)
  then show ?case by (subst encodeVarint.simps) simp
next
  case (Suc k)
  have "unat v < 2 ^ (7 * Suc k) * 2 ^ 7" using Suc.prems by (simp add: power_add)
  then have "unat v div 2 ^ 7 < 2 ^ (7 * Suc k)" by (rule less_mult_imp_div_less)
  then have "unat (drop_bit 7 v) < 2 ^ (7 * Suc k)" by (simp add: unat_div drop_bit_eq_div)
  from Suc.IH [OF this] show ?case by (subst encodeVarint.simps) simp
qed

lemma encodeVarint_fits: "length (encodeVarint v) \<le> 10"
  using encodeVarint_length [of v 9] unsigned_less [of v, where ?'a = nat] by simp

lemma decodeVarint_encode: "decodeVarint (encodeVarint v @ rest) = (v, int (length (encodeVarint v)))"
  using decode_encode [of v 0 0 rest] unsigned_less [of v, where ?'a = nat] by (simp add: decodeVarint_def)

lemma encodeVarint_ne [simp]: "encodeVarint v \<noteq> []"
  by (subst encodeVarint.simps) simp

lemma unmarshal_marshal:
  assumes "length b + length rest < 2 ^ 64" "b \<noteq> []"
  shows "unmarshalBytesField1 (marshalBytesField1 b @ rest) = Inr b"
proof -
  let ?v = "of_nat (length b) :: 64 word"
  have u: "unat ?v = length b" using assms(1) by (simp add: unat_of_nat)
  have "\<not> of_nat (length b + length rest) < ?v"
    unfolding word_less_nat_alt u using assms(1) by (simp add: unat_of_nat del: of_nat_add)
  then show ?thesis
    using assms(2) u decodeVarint_encode [of ?v "b @ rest"] by (simp add: unmarshalBytesField1_def marshalBytesField1_def)
qed

text \<open>
  Writing and reading a key: for a buffer of the size the key reports, both ways of
  writing fill exactly the buffer with the encoded key, and reading the encoding gives the
  key back.
\<close>

theorem key_wire_roundtrip:
  assumes "length (pk_Key pk) < 2 ^ 64" and "length buf = kyber_Size pk"
  shows "kyber_MarshalTo pk buf = (kyber_Marshal pk, kyber_Size pk)
    \<and> kyber_MarshalToSizedBuffer pk buf = Inr (kyber_Marshal pk, kyber_Size pk)
    \<and> kyber_Unmarshal (kyber_Marshal pk) pk' = (None, pk)"
proof -
  have "unmarshalBytesField1 (kyber_Marshal pk) = Inr (pk_Key pk)"
  proof (cases "pk_Key pk = []")
    case True
    then show ?thesis by (simp add: kyber_Marshal_def marshalBytesField1_def unmarshalBytesField1_def)
  next
    case False
    then show ?thesis using unmarshal_marshal [of "pk_Key pk" "[]"] assms(1) by (simp add: kyber_Marshal_def)
  qed
  then show ?thesis
    using assms(2) by (simp add: kyber_Unmarshal_def kyber_MarshalTo_def kyber_MarshalToSizedBuffer_def go_copy_def kyber_Size_def kyber_Marshal_def Let_def)
qed

theorem key_wire_roundtrip_witness:
  "kyber_Marshal \<lparr>pk_Key = ''key''\<rparr> = [CHR 0x0A, CHR 0x03] @ ''key'' \<and> kyber_Unmarshal (kyber_Marshal \<lparr>pk_Key = ''key''\<rparr>) \<lparr>pk_Key = []\<rparr> = (None, \<lparr>pk_Key = ''key''\<rparr>)"
proof -
  have m: "kyber_Marshal \<lparr>pk_Key = ''key''\<rparr> = [CHR 0x0A, CHR 0x03] @ ''key''" by code_simp
  have "length (pk_Key \<lparr>pk_Key = ''key''\<rparr>) < 2 ^ 64" "length (replicate 5 CHR 0x00) = kyber_Size \<lparr>pk_Key = ''key''\<rparr>"
    using m by (simp_all add: kyber_Size_def kyber_Marshal_def)
  from key_wire_roundtrip [OF this, of "\<lparr>pk_Key = []\<rparr>"] m show ?thesis by simp
qed

subsection \<open>Files\<close>

text \<open>what Kyber1024 promises of a key pair, and AES-GCM of sealed data\<close>

definition kem_pair :: "suite \<Rightarrow> string \<Rightarrow> string \<Rightarrow> bool" where
  "kem_pair S pub priv \<longleftrightarrow> kyber_pub_ok S pub \<and> kyber_priv_ok S priv
     \<and> (\<forall>r. \<exists>ct ss. kyber_encaps S pub r = Some (ct, ss) \<and> kyber_decaps S priv ct = Some ss \<and> length ct = 1568 \<and> length ss = 32)"

definition gcm_laws :: "suite \<Rightarrow> bool" where
  "gcm_laws S \<longleftrightarrow> (\<forall>k n p. length n = 12 \<longrightarrow> gcm_Open S k n (gcm_Seal S k n p) = Some p)"

lemma kem_pairE:
  assumes "kem_pair S pub priv"
  obtains ct ss where "Encapsulate S (Some r) pub = Inr (ct, ss)" "Decapsulate S priv ct = Inr ss" "length ct = 1568" "length ss = 32"
proof -
  obtain ct ss where "kyber_encaps S pub r = Some (ct, ss)" "kyber_decaps S priv ct = Some ss" "length ct = 1568" "length ss = 32"
    using assms unfolding kem_pair_def by blast
  with assms that [of ct ss] show thesis by (simp add: kem_pair_def Encapsulate_def Decapsulate_def)
qed

text \<open>
  An encrypted file is decrypted to the plaintext with the private key of the pair, and
  every cut of it that is shorter than the header with the encapsulated key and the nonce is
  refused with an error.
\<close>

theorem file_roundtrip:
  assumes "kem_pair S pub priv" and "gcm_laws S" and "length nonce = 12"
  shows "\<exists>blob. EncryptFile S (Some r) (Some nonce) pub plaintext = Inr blob \<and> DecryptFile S priv blob = Inr plaintext
    \<and> (\<forall>n < 1582. \<exists>m. DecryptFile S priv (take n blob) = Inl (KErr m))"
proof -
  obtain ct ss where k: "Encapsulate S (Some r) pub = Inr (ct, ss)" "Decapsulate S priv ct = Inr ss" "length ct = 1568" "length ss = 32"
    by (rule kem_pairE [OF assms(1)])
  define blob where "blob = [CHR 0x06, CHR 0x20] @ ct @ nonce @ gcm_Seal S ss nonce plaintext"
  have "char_of (of_char (CHR 0x06) :: nat) = CHR 0x06" "char_of (of_char (CHR 0x20) :: nat) = CHR 0x20" by (rule char_of_char)+
  then have hdr: "char_of (6 :: nat) = CHR 0x06" "char_of (1568 :: nat) = CHR 0x20" using char_of_mod_256 [of "1568 :: nat"] by simp_all
  have "EncryptFile S (Some r) (Some nonce) pub plaintext = Inr blob"
    using k hdr by (simp add: EncryptFile_def aes_key_ok_def blob_def)
  moreover have "DecryptFile S priv blob = Inr plaintext"
  proof -
    let ?c = "gcm_Seal S ss nonce plaintext"
    have b: "blob ! 0 = CHR 0x06" "blob ! 1 = CHR 0x20" "drop 2 blob = ct @ nonce @ ?c" by (simp_all add: blob_def)
    have len: "length blob = 1582 + length ?c" using k(3) assms(3) by (simp add: blob_def)
    have "take 1568 (drop 2 blob) = ct" unfolding b(3) k(3) [symmetric] by simp
    moreover have "drop 1570 blob = nonce @ ?c"
    proof -
      have "drop 1570 blob = drop 1568 (drop 2 blob)" by (simp only: drop_drop) simp
      then show ?thesis unfolding b(3) using k(3) by (simp only: drop_append) simp
    qed
    ultimately show ?thesis
      unfolding DecryptFile_def Let_def using b(1,2) len k(2,4) assms(2,3) by (simp add: aes_key_ok_def gcm_laws_def)
  qed
  moreover have "\<exists>m. DecryptFile S priv (take n blob) = Inl (KErr m)" if "n < 1582" for n
  proof (cases "n < 2")
    case False
    then have "take n blob ! 0 = CHR 0x06" "take n blob ! 1 = CHR 0x20" by (simp_all add: blob_def)
    moreover have "length (take n blob) < 1582" using that by simp
    ultimately show ?thesis unfolding DecryptFile_def Let_def by simp
  qed (simp add: DecryptFile_def min_less_iff_disj)
  ultimately show ?thesis by blast
qed

subsection \<open>Session keys\<close>

definition hkdf_ok :: "suite \<Rightarrow> bool" where
  "hkdf_ok S \<longleftrightarrow> (\<forall>ikm info n. n \<le> 255 * 32 \<longrightarrow> (\<exists>k. hkdf_read S ikm info n = Some k \<and> length k = n))"

lemma hkdf_okE:
  assumes "hkdf_ok S" "n \<le> 8160"
  obtains k where "hkdf_read S ikm info n = Some k" "length k = n"
  using assms that by (auto simp: hkdf_ok_def)

text \<open>
  C26. The two sides of the handshake. The initiator always obtains a session key of 32 bytes,
  the HKDF of the Kyber secret \<open>ss\<close> that the responder decapsulates, and the responder derives
  the same key from the ciphertext when it is given no X25519 key. Given the initiator's X25519
  key, as the protocol describes, the responder fails when it has no randomness, rejects the
  key or the exchange fails; otherwise its key is the HKDF of \<open>ss @ dh\<close>, where \<open>dh\<close> is the 32-byte
  secret of an exchange with a fresh key of its own, which the initiator never has. So the two
  agree exactly when HKDF maps these two different inputs, \<open>ss\<close> and \<open>ss @ dh\<close>, to the same key.
\<close>

theorem hybrid_session_keys:
  assumes "kem_pair S pub priv" and "hkdf_ok S" and "length (x25519_public S x) = 32"
    and "\<forall>y p ss. x25519_ECDH S y p = Some ss \<longrightarrow> length ss = 32"
  shows "\<exists>res ss. HybridEncapsulate S (Some r) (Some x) pub = Inr res \<and> length (hk_SessionKey res) = HybridSessionKeySize
    \<and> Decapsulate S priv (hk_KyberCiphertext res) = Inr ss \<and> hkdf_read S ss hybridHKDFInfo 32 = Some (hk_SessionKey res)
    \<and> HybridDecapsulate S xr priv (hk_KyberCiphertext res) [] = Inr (hk_SessionKey res)
    \<and> (let respond = HybridDecapsulate S xr priv (hk_KyberCiphertext res) (hk_X25519PubKey res) in
       case xr of None \<Rightarrow> \<exists>e. respond = Inl e
       | Some y \<Rightarrow> if \<not> x25519_pub_ok S (hk_X25519PubKey res) then \<exists>e. respond = Inl e
           else case x25519_ECDH S y (hk_X25519PubKey res) of None \<Rightarrow> \<exists>e. respond = Inl e
           | Some dh \<Rightarrow> length dh = 32 \<and> ss @ dh \<noteq> ss
               \<and> (\<exists>key. hkdf_read S (ss @ dh) hybridHKDFInfo 32 = Some key \<and> respond = Inr key)
               \<and> (respond = Inr (hk_SessionKey res) \<longleftrightarrow> hkdf_read S (ss @ dh) hybridHKDFInfo 32 = hkdf_read S ss hybridHKDFInfo 32))"
proof -
  obtain ct ss where k: "Encapsulate S (Some r) pub = Inr (ct, ss)" "Decapsulate S priv ct = Inr ss"
    by (rule kem_pairE [OF assms(1)])
  obtain key where key: "hkdf_read S ss hybridHKDFInfo 32 = Some key" "length key = 32"
    using hkdf_okE [OF assms(2), of 32] by auto
  define res where "res = \<lparr>hk_SessionKey = key, hk_KyberCiphertext = ct, hk_X25519PubKey = x25519_public S x\<rparr>"
  have res: "hk_SessionKey res = key" "hk_KyberCiphertext res = ct" "hk_X25519PubKey res = x25519_public S x" by (simp_all add: res_def)
  have enc: "HybridEncapsulate S (Some r) (Some x) pub = Inr res"
    using k key by (simp add: HybridEncapsulate_def deriveSessionKey_def HybridSessionKeySize_def res_def)
  have dec: "HybridDecapsulate S xr priv ct [] = Inr key"
    using k key by (simp add: HybridDecapsulate_def deriveSessionKey_def HybridSessionKeySize_def)
  have fails: "\<exists>e. HybridDecapsulate S xr priv ct (x25519_public S x) = Inl e"
    if "xr = None \<or> (\<exists>y. xr = Some y \<and> (\<not> x25519_pub_ok S (x25519_public S x) \<or> x25519_ECDH S y (x25519_public S x) = None))"
    using that k(2) assms(3) by (auto simp: HybridDecapsulate_def)
  have runs: "length dh = 32 \<and> ss @ dh \<noteq> ss \<and> (\<exists>key'. hkdf_read S (ss @ dh) hybridHKDFInfo 32 = Some key' \<and>
      HybridDecapsulate S xr priv ct (x25519_public S x) = Inr key')
      \<and> (HybridDecapsulate S xr priv ct (x25519_public S x) = Inr key \<longleftrightarrow> hkdf_read S (ss @ dh) hybridHKDFInfo 32 = Some key)"
    if "xr = Some y" "x25519_pub_ok S (x25519_public S x)" "x25519_ECDH S y (x25519_public S x) = Some dh" for y dh
  proof -
    have dh: "length dh = 32" "dh \<noteq> []" using assms(4) that(3) by force+
    obtain key' where "hkdf_read S (ss @ dh) hybridHKDFInfo 32 = Some key'" using hkdf_okE [OF assms(2), of 32 "ss @ dh" hybridHKDFInfo] by auto
    then show ?thesis using that k(2) assms(3) dh by (simp add: HybridDecapsulate_def deriveSessionKey_def HybridSessionKeySize_def)
  qed
  show ?thesis
    using enc dec k(2) key fails runs
    by (intro exI [of _ res] exI [of _ ss]) (auto simp: res HybridSessionKeySize_def Let_def split: option.splits)
qed

subsection \<open>Keys from a mnemonic\<close>

text \<open>the reader gives the bytes of the repeated seed, however the reads are cut\<close>

lemma reader_Read_stream:
  assumes "dr_seed r \<noteq> []"
  shows "reader_Read n r = (Inr (map (\<lambda>i. dr_seed r ! ((dr_pos r + i) mod length (dr_seed r))) [0..<n]), r\<lparr>dr_pos := dr_pos r + n\<rparr>)"
  using assms
proof (induction n arbitrary: r)
  case (Suc n)
  define f where "f k = dr_seed r ! (k mod length (dr_seed r))" for k
  have "map (\<lambda>i. f (dr_pos r + i)) [0..<Suc n] = f (dr_pos r) # map (\<lambda>i. f (dr_pos r + 1 + i)) [0..<n]"
    by (subst upt_conv_Cons) (simp_all add: map_Suc_upt [symmetric] del: upt_Suc)
  with Suc show ?case by (simp add: f_def)
qed simp

lemma mnemonic_key_total:
  assumes "bip39_valid S m" "hkdf_ok S" "\<And>f. mode5_keygen S f \<noteq> None"
  shows "\<exists>e k. algo_Derive S m p path = Inr e \<and> algo_Generate S e = Inr k"
proof -
  obtain e where "hkdf_read S (bip39_seed S m p) (dilithium_domain @ ''/'' @ path) 32 = Some e" "length e = 32"
    using hkdf_okE [OF assms(2), of 32] by auto
  then show ?thesis using assms(1) assms(3) [of "\<lambda>i. e ! (i mod 32)"] by (cases "mode5_keygen S (\<lambda>i. e ! (i mod 32))") (auto simp: algo_Derive_def algo_Generate_def GenPrivKeyFromSecret_def split: prod.splits)
qed

subsection \<open>A concrete suite\<close>

text \<open>The encapsulated key is the random input, sealing is the identity, HKDF takes the last bytes.\<close>

definition pad_to :: "nat \<Rightarrow> string \<Rightarrow> string" where
  "pad_to n s = take n (s @ replicate n CHR 0x00)"

definition suite0 :: suite where
  "suite0 = \<lparr>kyber_derive = (\<lambda>s. (s, s)), kyber_generate = (\<lambda>s. (s, s)), kyber_priv_ok = (\<lambda>_. True), kyber_pub_ok = (\<lambda>_. True),
     kyber_public = id, kyber_encaps = (\<lambda>pub r. Some (pad_to 1568 (pad_to 32 r), pad_to 32 r)), kyber_decaps = (\<lambda>priv ct. Some (take 32 ct)),
     gcm_Seal = (\<lambda>k n p. p), gcm_Open = (\<lambda>k n c. Some c), x25519_public = pad_to 32, x25519_pub_ok = (\<lambda>_. True),
     x25519_ECDH = (\<lambda>a b. Some (pad_to 32 (a @ b))), hkdf_read = (\<lambda>ikm info n. Some (pad_to n (rev ikm))), bip39_valid = (\<lambda>_. True),
     bip39_seed = (\<lambda>m p. m @ p), mode5_keygen = (\<lambda>f. Some (map f [0..<32], map f [0..<32])), mode5_public = id\<rparr>"

lemma suite0_laws: "kem_pair suite0 pub priv" "gcm_laws suite0" "hkdf_ok suite0" "length (x25519_public suite0 x) = 32"
  "\<forall>y p ss. x25519_ECDH suite0 y p = Some ss \<longrightarrow> length ss = 32"
  by (auto simp: suite0_def kem_pair_def gcm_laws_def hkdf_ok_def pad_to_def)

theorem file_roundtrip_witness:
  "\<exists>blob. EncryptFile suite0 (Some ''r'') (Some ''abcdefghijkl'') ''pub'' ''secret text'' = Inr blob \<and> DecryptFile suite0 ''priv'' blob = Inr ''secret text''"
  using file_roundtrip [OF suite0_laws(1,2), of "''abcdefghijkl''"] by fastforce

theorem hybrid_session_keys_witness:
  "\<exists>res key. HybridEncapsulate suite0 (Some ''r'') (Some ''x'') ''pub'' = Inr res
    \<and> HybridDecapsulate suite0 (Some ''y'') ''priv'' (hk_KyberCiphertext res) [] = Inr (hk_SessionKey res)
    \<and> HybridDecapsulate suite0 (Some ''y'') ''priv'' (hk_KyberCiphertext res) (hk_X25519PubKey res) = Inr key \<and> key \<noteq> hk_SessionKey res"
proof -
  let ?ss = "pad_to 32 ''r''"
  have len: "length (pad_to n s) = n" for n s by (simp add: pad_to_def)
  have enc: "HybridEncapsulate suite0 (Some ''r'') (Some ''x'') ''pub'' = Inr \<lparr>hk_SessionKey = rev ?ss, hk_KyberCiphertext = pad_to 1568 ?ss, hk_X25519PubKey = pad_to 32 ''x''\<rparr>"
    by (simp add: HybridEncapsulate_def Encapsulate_def deriveSessionKey_def suite0_def HybridSessionKeySize_def) (simp add: pad_to_def)
  have ok: "x25519_pub_ok suite0 p" "x25519_ECDH suite0 y p = Some (pad_to 32 (y @ p))" for y p by (simp_all add: suite0_def)
  from hybrid_session_keys [OF suite0_laws(1,3,4,5), where xr = "Some ''y''" and r = "''r''" and x = "''x''" and pub = "''pub''" and priv = "''priv''"]
  obtain res key where res: "HybridEncapsulate suite0 (Some ''r'') (Some ''x'') ''pub'' = Inr res"
    "HybridDecapsulate suite0 (Some ''y'') ''priv'' (hk_KyberCiphertext res) [] = Inr (hk_SessionKey res)"
    "HybridDecapsulate suite0 (Some ''y'') ''priv'' (hk_KyberCiphertext res) (hk_X25519PubKey res) = Inr key"
    by (auto simp: ok Let_def)
  have "Decapsulate suite0 ''priv'' (pad_to 1568 ?ss) = Inr ?ss"
    by (simp add: Decapsulate_def suite0_def len) (simp add: pad_to_def)
  with res(3) enc res(1) have "key = pad_to 32 (rev (?ss @ pad_to 32 (''y'' @ pad_to 32 ''x'')))"
    by (simp add: HybridDecapsulate_def deriveSessionKey_def HybridSessionKeySize_def len ok) (simp add: suite0_def)
  then have "key \<noteq> rev ?ss" by (simp add: pad_to_def numeral_eq_Suc)
  then show ?thesis using res enc by auto
qed

end
