(* ===== verification/MergeIterator.thy ===== *)
theory MergeIterator
  imports KVStore
begin

section \<open>Iterators of the caching store\<close>

text \<open>
  The pieces of \<open>cosmos-sdk/store/cachekv\<close> below the store itself: the two binary searches
  of \<open>store.go\<close>, the B-tree wrapper and its iterator (\<open>internal/btree.go\<close>,
  \<open>internal/memiterator.go\<close>) and the iterator that merges a parent with a cache
  (\<open>internal/mergeiterator.go\<close>).

  The B-tree itself is the package \<open>tidwall/btree\<close>, a record of operations with
  the laws \<open>btree_laws\<close>: the items of a tree are in ascending key order and its iterator is
  a cursor over them. A \<open>nil\<close> byte slice is \<open>None\<close>; an item with the value \<open>None\<close> marks a
  deletion. What a consumer sees of an iterator is the list of the pairs it reads in the loop
  \<open>for ; it.Valid(); it.Next()\<close>, which \<open>drain\<close> computes.
\<close>

type_synonym 'v item = "string \<times> 'v option"

subsection \<open>Binary search\<close>

fun scan_left :: "('a \<Rightarrow> bool) \<Rightarrow> 'a list \<Rightarrow> nat \<Rightarrow> int" where
  "scan_left P xs 0 = 0"
| "scan_left P xs (Suc i) = (if P (xs ! i) then int i + 1 else scan_left P xs i)"

function find_start_loop :: "string list \<Rightarrow> string \<Rightarrow> int \<Rightarrow> int \<Rightarrow> int" where
  "find_start_loop strL startQ left right =
     (if left \<le> right then
        let mid = (left + right) div 2; midStr = strL ! nat mid in
        if midStr = startQ then scan_left (\<lambda>s. s \<noteq> midStr) strL (nat mid)
        else if midStr < startQ then find_start_loop strL startQ (mid + 1) right
        else find_start_loop strL startQ left (mid - 1)
      else if 0 \<le> left \<and> left < int (length strL) \<and> startQ \<le> strL ! nat left then left
      else -1)"
  by pat_completeness auto
termination by (relation "measure (\<lambda>(_, _, left, right). nat (right - left + 1))") auto

definition findStartIndex :: "string list \<Rightarrow> string \<Rightarrow> int" where
  "findStartIndex strL startQ =
     (if strL = [] then -1 else find_start_loop strL startQ 0 (int (length strL) - 1))"

fun scan_down :: "('a \<Rightarrow> bool) \<Rightarrow> 'a list \<Rightarrow> nat \<Rightarrow> int" where
  "scan_down P xs 0 = -1"
| "scan_down P xs (Suc i) = (if P (xs ! i) then int i else scan_down P xs i)"

function find_end_loop :: "string list \<Rightarrow> string \<Rightarrow> int \<Rightarrow> int \<Rightarrow> int" where
  "find_end_loop strL endQ left right =
     (if left \<le> right then
        let mid = (left + right) div 2; midStr = strL ! nat mid in
        if midStr = endQ then scan_left (\<lambda>s. s < midStr) strL (nat mid)
        else if midStr < endQ then find_end_loop strL endQ (mid + 1) right
        else find_end_loop strL endQ left (mid - 1)
      else scan_down (\<lambda>s. s < endQ) strL (nat (right + 1)))"
  by pat_completeness auto
termination by (relation "measure (\<lambda>(_, _, left, right). nat (right - left + 1))") auto

definition findEndIndex :: "string list \<Rightarrow> string \<Rightarrow> int" where
  "findEndIndex strL endQ =
     (if strL = [] then -1 else find_end_loop strL endQ 0 (int (length strL) - 1))"

declare find_start_loop.simps [simp del] find_end_loop.simps [simp del]

subsection \<open>The B-tree and its iterator\<close>

record ('t, 'it, 'v) btree_lib =
  bt_New :: 't
  bt_Set :: "'v item \<Rightarrow> 't \<Rightarrow> 't"
  bt_Get :: "string \<Rightarrow> 't \<Rightarrow> 'v item option"
  bt_Delete :: "string \<Rightarrow> 't \<Rightarrow> 't"
  bt_Len :: "'t \<Rightarrow> nat"
  bt_Iter :: "'t \<Rightarrow> 'it"
  it_Seek :: "string \<Rightarrow> 'it \<Rightarrow> bool \<times> 'it"
  it_First :: "'it \<Rightarrow> bool \<times> 'it"
  it_Last :: "'it \<Rightarrow> bool \<times> 'it"
  it_Next :: "'it \<Rightarrow> bool \<times> 'it"
  it_Prev :: "'it \<Rightarrow> bool \<times> 'it"
  it_Item :: "'it \<Rightarrow> 'v item"

definition NewBTree :: "('t, 'it, 'v) btree_lib \<Rightarrow> 't" where
  "NewBTree B = bt_New B"

definition BTree_Set :: "('t, 'it, 'v) btree_lib \<Rightarrow> string \<Rightarrow> 'v option \<Rightarrow> 't \<Rightarrow> 't" where
  "BTree_Set B key value t = bt_Set B (key, value) t"

definition BTree_Get :: "('t, 'it, 'v) btree_lib \<Rightarrow> string \<Rightarrow> 't \<Rightarrow> 'v option" where
  "BTree_Get B key t = (case bt_Get B key t of None \<Rightarrow> None | Some i \<Rightarrow> snd i)"

definition BTree_Delete :: "('t, 'it, 'v) btree_lib \<Rightarrow> string \<Rightarrow> 't \<Rightarrow> 't" where
  "BTree_Delete B key t = bt_Delete B key t"

record 'it memIterator =
  mi_iter :: 'it
  mi_start :: "string option"
  mi_end :: "string option"
  mi_ascending :: bool
  mi_valid :: bool

definition keyInRange :: "'it memIterator \<Rightarrow> string \<Rightarrow> bool" where
  "keyInRange mi key =
     (if mi_ascending mi \<and> (case mi_end mi of None \<Rightarrow> False | Some e \<Rightarrow> e \<le> key) then False
      else if \<not> mi_ascending mi \<and> (case mi_start mi of None \<Rightarrow> False | Some s \<Rightarrow> key < s) then False
      else True)"

definition mi_Key :: "('t, 'it, 'v) btree_lib \<Rightarrow> 'it memIterator \<Rightarrow> string" where
  "mi_Key B mi = fst (it_Item B (mi_iter mi))"

definition mi_Value :: "('t, 'it, 'v) btree_lib \<Rightarrow> 'it memIterator \<Rightarrow> 'v option" where
  "mi_Value B mi = snd (it_Item B (mi_iter mi))"

text \<open>the check that follows a move of the cursor, in the constructor and in \<open>Next\<close>\<close>

definition mi_check :: "('t, 'it, 'v) btree_lib \<Rightarrow> 'it memIterator \<Rightarrow> 'it memIterator" where
  "mi_check B mi = (if mi_valid mi then mi\<lparr>mi_valid := keyInRange mi (mi_Key B mi)\<rparr> else mi)"

definition newMemIterator :: "('t, 'it, 'v) btree_lib \<Rightarrow> string option \<Rightarrow> string option \<Rightarrow> 't \<Rightarrow> bool \<Rightarrow> 'it memIterator" where
  "newMemIterator B start e t ascending =
     (let iter = bt_Iter B t;
          (valid, iter) =
            (if ascending then (case start of Some s \<Rightarrow> it_Seek B s iter | None \<Rightarrow> it_First B iter)
             else (case e of
                Some k \<Rightarrow> (let (valid, iter) = it_Seek B k iter in
                           if \<not> valid then it_Last B iter else it_Prev B iter)
              | None \<Rightarrow> it_Last B iter))
      in mi_check B \<lparr>mi_iter = iter, mi_start = start, mi_end = e, mi_ascending = ascending, mi_valid = valid\<rparr>)"

text \<open>\<open>None\<close> is the panic of \<open>assertValid\<close>\<close>

definition mi_Next :: "('t, 'it, 'v) btree_lib \<Rightarrow> 'it memIterator \<Rightarrow> 'it memIterator option" where
  "mi_Next B mi =
     (if \<not> mi_valid mi then None
      else let (valid, iter) = (if mi_ascending mi then it_Next B (mi_iter mi) else it_Prev B (mi_iter mi))
           in Some (mi_check B (mi\<lparr>mi_iter := iter, mi_valid := valid\<rparr>)))"

text \<open>\<open>Iterator\<close> and \<open>ReverseIterator\<close> of the wrapper; \<open>None\<close> is \<open>errKeyEmpty\<close>\<close>

definition BTree_Iterator :: "('t, 'it, 'v) btree_lib \<Rightarrow> string option \<Rightarrow> string option \<Rightarrow> 't \<Rightarrow> 'it memIterator option" where
  "BTree_Iterator B start e t =
     (if start = Some [] \<or> e = Some [] then None else Some (newMemIterator B start e t True))"

definition BTree_ReverseIterator :: "('t, 'it, 'v) btree_lib \<Rightarrow> string option \<Rightarrow> string option \<Rightarrow> 't \<Rightarrow> 'it memIterator option" where
  "BTree_ReverseIterator B start e t =
     (if start = Some [] \<or> e = Some [] then None else Some (newMemIterator B start e t False))"

subsection \<open>The consumer of an iterator\<close>

fun drain :: "('i \<Rightarrow> ('x \<times> 'i) option) \<Rightarrow> nat \<Rightarrow> 'i \<Rightarrow> 'x list" where
  "drain step 0 it = []"
| "drain step (Suc n) it = (case step it of None \<Rightarrow> [] | Some (x, it') \<Rightarrow> x # drain step n it')"

definition mi_step :: "('t, 'it, 'v) btree_lib \<Rightarrow> 'it memIterator \<Rightarrow> ('v item \<times> 'it memIterator) option" where
  "mi_step B mi =
     (if mi_valid mi then (case mi_Next B mi of None \<Rightarrow> None | Some mi' \<Rightarrow> Some ((mi_Key B mi, mi_Value B mi), mi'))
      else None)"

text \<open>a tree with \<open>n\<close> items has nothing more to deliver after \<open>n\<close> steps\<close>

definition mi_items :: "('t, 'it, 'v) btree_lib \<Rightarrow> 't \<Rightarrow> 'it memIterator \<Rightarrow> 'v item list" where
  "mi_items B t mi = drain (mi_step B) (bt_Len B t) mi"

subsection \<open>The merging iterator\<close>

record 'v cacheMergeIterator =
  cm_parent :: "'v item list"
  cm_cache :: "'v item list"
  cm_ascending :: bool
  cm_valid :: bool

definition bytes_Compare :: "string \<Rightarrow> string \<Rightarrow> int" where
  "bytes_Compare a b = (if a < b then -1 else if a = b then 0 else 1)"

definition cm_compare :: "bool \<Rightarrow> string \<Rightarrow> string \<Rightarrow> int" where
  "cm_compare ascending a b = (if ascending then bytes_Compare a b else bytes_Compare a b * -1)"

fun skipCacheDeletes :: "bool \<Rightarrow> string option \<Rightarrow> 'v item list \<Rightarrow> 'v item list" where
  "skipCacheDeletes ascending until [] = []"
| "skipCacheDeletes ascending until ((k, v) # cache) =
     (if v = None \<and> (case until of None \<Rightarrow> True | Some u \<Rightarrow> cm_compare ascending k u < 0)
      then skipCacheDeletes ascending until cache else (k, v) # cache)"

lemma skipCacheDeletes_length: "length (skipCacheDeletes asc u c) \<le> length c"
  by (induction asc u c rule: skipCacheDeletes.induct) auto

lemma cm_compare_1: "cm_compare asc a b \<noteq> -1 \<Longrightarrow> cm_compare asc a b \<noteq> 0 \<Longrightarrow> cm_compare asc b a < 0"
  by (auto simp: cm_compare_def bytes_Compare_def split: if_splits)

text \<open>the loop of \<open>skipUntilExistsOrInvalid\<close>: both iterators and the validity it returns\<close>

function skipUntilExistsOrInvalid :: "bool \<Rightarrow> 'v item list \<Rightarrow> 'v item list \<Rightarrow> 'v item list \<times> 'v item list \<times> bool" where
  "skipUntilExistsOrInvalid asc parent cache =
     (if parent = [] then (let cache' = skipCacheDeletes asc None cache in (parent, cache', cache' \<noteq> []))
      else if cache = [] then (parent, cache, True)
      else let keyP = fst (hd parent); keyC = fst (hd cache); valueC = snd (hd cache) in
        if cm_compare asc keyP keyC = -1 then (parent, cache, True)
        else if cm_compare asc keyP keyC = 0 then
          (if valueC = None then skipUntilExistsOrInvalid asc (tl parent) (tl cache) else (parent, cache, True))
        else
          (if valueC = None then skipUntilExistsOrInvalid asc parent (skipCacheDeletes asc (Some keyP) cache)
           else (parent, cache, True)))"
  by pat_completeness auto
termination
proof (relation "measure (\<lambda>(_, p, c). length p + length c)", goal_cases)
  case (2 asc parent cache keyP keyC valueC)
  then show ?case by (cases parent; cases cache) simp_all
next
  case (3 asc parent cache keyP keyC valueC)
  then obtain c where c: "cache = (keyC, None) # c" by (cases cache) auto
  have "cm_compare asc keyC keyP < 0" using cm_compare_1 [OF 3(6,7)] .
  then have "length (skipCacheDeletes asc (Some keyP) cache) < length cache"
    using skipCacheDeletes_length [of asc "Some keyP" c] by (simp add: c)
  then show ?case by simp
qed simp

declare skipUntilExistsOrInvalid.simps [simp del]

definition cm_skip :: "'v cacheMergeIterator \<Rightarrow> 'v cacheMergeIterator" where
  "cm_skip iter = (let (p, c, valid) = skipUntilExistsOrInvalid (cm_ascending iter) (cm_parent iter) (cm_cache iter)
     in iter\<lparr>cm_parent := p, cm_cache := c, cm_valid := valid\<rparr>)"

definition NewCacheMergeIterator :: "'v item list \<Rightarrow> 'v item list \<Rightarrow> bool \<Rightarrow> 'v cacheMergeIterator" where
  "NewCacheMergeIterator parent cache ascending =
     cm_skip \<lparr>cm_parent = parent, cm_cache = cache, cm_ascending = ascending, cm_valid = False\<rparr>"

definition cm_Next :: "'v cacheMergeIterator \<Rightarrow> 'v cacheMergeIterator option" where
  "cm_Next iter =
     (if \<not> cm_valid iter then None
      else Some (cm_skip
        (if cm_parent iter = [] then iter\<lparr>cm_cache := tl (cm_cache iter)\<rparr>
         else if cm_cache iter = [] then iter\<lparr>cm_parent := tl (cm_parent iter)\<rparr>
         else let c = cm_compare (cm_ascending iter) (fst (hd (cm_parent iter))) (fst (hd (cm_cache iter))) in
           if c = -1 then iter\<lparr>cm_parent := tl (cm_parent iter)\<rparr>
           else if c = 0 then iter\<lparr>cm_parent := tl (cm_parent iter), cm_cache := tl (cm_cache iter)\<rparr>
           else iter\<lparr>cm_cache := tl (cm_cache iter)\<rparr>)))"

definition cm_Key :: "'v cacheMergeIterator \<Rightarrow> string option" where
  "cm_Key iter =
     (if \<not> cm_valid iter then None
      else if cm_parent iter = [] then Some (fst (hd (cm_cache iter)))
      else if cm_cache iter = [] then Some (fst (hd (cm_parent iter)))
      else let keyP = fst (hd (cm_parent iter)); keyC = fst (hd (cm_cache iter)); cmp = cm_compare (cm_ascending iter) keyP keyC in
        if cmp = -1 then Some keyP else if cmp = 0 then Some keyP else Some keyC)"

definition cm_Value :: "'v cacheMergeIterator \<Rightarrow> 'v option option" where
  "cm_Value iter =
     (if \<not> cm_valid iter then None
      else if cm_parent iter = [] then Some (snd (hd (cm_cache iter)))
      else if cm_cache iter = [] then Some (snd (hd (cm_parent iter)))
      else let cmp = cm_compare (cm_ascending iter) (fst (hd (cm_parent iter))) (fst (hd (cm_cache iter))) in
        if cmp = -1 then Some (snd (hd (cm_parent iter)))
        else if cmp = 0 then Some (snd (hd (cm_cache iter))) else Some (snd (hd (cm_cache iter))))"

definition cm_step :: "'v cacheMergeIterator \<Rightarrow> ('v item \<times> 'v cacheMergeIterator) option" where
  "cm_step iter =
     (if cm_valid iter
      then (case (cm_Key iter, cm_Value iter, cm_Next iter) of (Some k, Some v, Some iter') \<Rightarrow> Some ((k, v), iter') | _ \<Rightarrow> None)
      else None)"

definition cm_items :: "'v cacheMergeIterator \<Rightarrow> 'v item list" where
  "cm_items iter = drain cm_step (length (cm_parent iter) + length (cm_cache iter)) iter"

subsection \<open>The searches find the ends of a range\<close>

definition below :: "string \<Rightarrow> string list \<Rightarrow> nat" where
  "below q L = length (takeWhile (\<lambda>s. s < q) L)"

lemma below_le: "below q L \<le> length L"
  by (simp add: below_def length_takeWhile_le)

lemma below_iff: "sorted_wrt (<) L \<Longrightarrow> i < length L \<Longrightarrow> L ! i < q \<longleftrightarrow> i < below q L"
proof (induction L arbitrary: i)
  case (Cons x L)
  show ?case
  proof (cases i)
    case 0
    then show ?thesis by (simp add: below_def)
  next
    case (Suc j)
    with Cons have "L ! j < q \<longleftrightarrow> j < below q L" and "x < L ! j" by auto
    then show ?thesis using Suc by (auto simp: below_def)
  qed
qed simp

lemma below_found:
  assumes "sorted_wrt (<) L" "i < length L" "L ! i = q"
  shows "below q L = i"
proof (rule antisym)
  show "below q L \<le> i" using below_iff [OF assms(1,2), of q] assms(3) by simp
  show "i \<le> below q L"
  proof (cases i)
    case (Suc j)
    then have "L ! j < q" using sorted_wrt_nth_less [OF assms(1), of j i] assms(2,3) by simp
    then show ?thesis using below_iff [OF assms(1), of j q] Suc assms(2) by simp
  qed simp
qed

lemma scan_left_first: "0 < i \<longrightarrow> P (xs ! (i - 1)) \<Longrightarrow> scan_left P xs i = int i"
  by (cases i) simp_all

lemma strict_nth_pred:
  assumes "sorted_wrt (<) (L :: string list)" "i < length L" "0 < i"
  shows "L ! (i - 1) < L ! i"
  using sorted_wrt_nth_less [OF assms(1), of "i - 1" i] assms(2,3) by simp

text \<open>one round of either search keeps the boundary between the two pointers\<close>

lemma search_round:
  assumes "sorted_wrt (<) L" "0 \<le> left" "left \<le> right" "right < int (length L)"
    and "mid = (left + right) div 2" "left \<le> int (below q L)" "int (below q L) \<le> right + 1"
  shows "nat mid < length L" "0 \<le> mid"
    and "L ! nat mid = q \<Longrightarrow> below q L = nat mid"
    and "L ! nat mid < q \<Longrightarrow> mid + 1 \<le> int (below q L)"
    and "L ! nat mid \<noteq> q \<Longrightarrow> \<not> L ! nat mid < q \<Longrightarrow> int (below q L) \<le> mid - 1 + 1"
proof -
  have m: "0 \<le> mid" "mid \<le> right" using assms(2,3,5) by auto
  then show n: "nat mid < length L" "0 \<le> mid" using assms(4) by auto
  show "L ! nat mid = q \<Longrightarrow> below q L = nat mid" using below_found [OF assms(1) n(1)] .
  show "L ! nat mid < q \<Longrightarrow> mid + 1 \<le> int (below q L)" using below_iff [OF assms(1) n(1), of q] m by auto
  show "L ! nat mid \<noteq> q \<Longrightarrow> \<not> L ! nat mid < q \<Longrightarrow> int (below q L) \<le> mid - 1 + 1"
    using below_iff [OF assms(1) n(1), of q] m by auto
qed

lemma find_start_loop_below:
  "sorted_wrt (<) L \<Longrightarrow> 0 \<le> left \<Longrightarrow> right < int (length L) \<Longrightarrow> left \<le> int (below q L) \<Longrightarrow> int (below q L) \<le> right + 1 \<Longrightarrow>
    find_start_loop L q left right = (if below q L < length L then int (below q L) else -1)"
proof (induction L q left right rule: find_start_loop.induct)
  case (1 L q left right)
  note step = find_start_loop.simps [of L q left right]
  show ?case
  proof (cases "left \<le> right")
    case True
    define mid where "mid = (left + right) div 2"
    note r = search_round [OF "1.prems"(1,2) True "1.prems"(3) mid_def "1.prems"(4,5)]
    have mid: "left \<le> mid" "mid \<le> right" using True by (simp_all add: mid_def)
    consider "L ! nat mid = q" | "L ! nat mid \<noteq> q" "L ! nat mid < q" | "L ! nat mid \<noteq> q" "\<not> L ! nat mid < q" by blast
    then show ?thesis
    proof cases
      case 1
      have "0 < nat mid \<longrightarrow> L ! (nat mid - 1) < L ! nat mid"
        using strict_nth_pred [OF "1.prems"(1) r(1)] by blast
      then have "scan_left (\<lambda>s. s \<noteq> L ! nat mid) L (nat mid) = int (nat mid)" by (intro scan_left_first) auto
      then show ?thesis using 1 True r(1-3) by (simp add: step Let_def flip: mid_def)
    next
      case 2
      then show ?thesis using "1.IH"(1) [OF True mid_def refl] "1.prems" True r(2,4) by (simp add: step Let_def flip: mid_def)
    next
      case 3
      then show ?thesis using "1.IH"(2) [OF True mid_def refl] "1.prems" mid True r(2,5) by (simp add: step Let_def flip: mid_def)
    qed
  next
    case False
    then have b: "left = int (below q L)" "right + 1 = int (below q L)" using "1.prems" by auto
    have "below q L < length L \<Longrightarrow> q \<le> L ! below q L"
      using below_iff [OF "1.prems"(1), of "below q L" q] by auto
    then show ?thesis using False b(1) step by auto
  qed
qed

lemma below_mem: "sorted_wrt (<) L \<Longrightarrow> q \<in> set L \<Longrightarrow> below q L < length L \<and> L ! below q L = q"
  by (metis below_found in_set_conv_nth)

lemma find_end_loop_below:
  "sorted_wrt (<) L \<Longrightarrow> 0 \<le> left \<Longrightarrow> right < int (length L) \<Longrightarrow> left \<le> int (below q L) \<Longrightarrow> int (below q L) \<le> right + 1 \<Longrightarrow>
    (q \<in> set L \<longrightarrow> int (below q L) \<le> right) \<Longrightarrow>
    find_end_loop L q left right = (if q \<in> set L then int (below q L) else int (below q L) - 1)"
proof (induction L q left right rule: find_end_loop.induct)
  case (1 L q left right)
  note step = find_end_loop.simps [of L q left right]
  show ?case
  proof (cases "left \<le> right")
    case True
    define mid where "mid = (left + right) div 2"
    note r = search_round [OF "1.prems"(1,2) True "1.prems"(3) mid_def "1.prems"(4,5)]
    have mid: "left \<le> mid" "mid \<le> right" using True by (simp_all add: mid_def)
    consider "L ! nat mid = q" | "L ! nat mid \<noteq> q" "L ! nat mid < q" | "L ! nat mid \<noteq> q" "\<not> L ! nat mid < q" by blast
    then show ?thesis
    proof cases
      case 1
      have "0 < nat mid \<longrightarrow> L ! (nat mid - 1) < L ! nat mid"
        using strict_nth_pred [OF "1.prems"(1) r(1)] by blast
      then show ?thesis using 1 True r(1-3) nth_mem [OF r(1)] scan_left_first [of "nat mid" "\<lambda>s. s < L ! nat mid" L]
        by (simp add: step Let_def flip: mid_def)
    next
      case 2
      then show ?thesis using "1.IH"(1) [OF True mid_def refl] "1.prems" True r(2,4) by (simp add: step Let_def flip: mid_def)
    next
      case 3
      then have "q \<in> set L \<longrightarrow> below q L \<noteq> nat mid" using below_mem [OF "1.prems"(1), of q] by metis
      then have "q \<in> set L \<longrightarrow> int (below q L) \<le> mid - 1" using r(2,5) 3 by auto
      then show ?thesis using 3 "1.IH"(2) [OF True mid_def refl] "1.prems" mid True r(2,5) by (simp add: step Let_def flip: mid_def)
    qed
  next
    case False
    then have b: "left = int (below q L)" "right + 1 = int (below q L)" using "1.prems" by auto
    have "scan_down (\<lambda>s. s < q) L (below q L) = int (below q L) - 1"
      using below_iff [OF "1.prems"(1), of "below q L - 1" q] below_le [of q L] by (cases "below q L") auto
    then show ?thesis using False b "1.prems"(6) step by auto
  qed
qed

text \<open>
  The searches return the first index at or above \<open>startQ\<close>, and the index of \<open>endQ\<close> or of the
  last string below it.
\<close>

lemma findStartIndex_below:
  assumes "sorted_wrt (<) L"
  shows "findStartIndex L q = (if below q L < length L then int (below q L) else -1)"
  using find_start_loop_below [OF assms, of 0 "int (length L) - 1" q] below_le [of q L]
  by (simp add: findStartIndex_def)

lemma findEndIndex_below:
  assumes "sorted_wrt (<) L"
  shows "findEndIndex L q = (if q \<in> set L then int (below q L) else int (below q L) - 1)"
  using find_end_loop_below [OF assms, of 0 "int (length L) - 1" q] below_le [of q L] below_mem [OF assms, of q]
  by (cases "L = []") (auto simp: findEndIndex_def below_def)

subsection \<open>What the B-tree promises\<close>

text \<open>
  \<open>contents\<close> lists the items of a tree and \<open>cur\<close> gives the items and the position of a
  cursor; the laws are the documented behaviour of the package.
\<close>

definition btree_laws :: "('t, 'it, 'v) btree_lib \<Rightarrow> ('t \<Rightarrow> 'v item list) \<Rightarrow> ('it \<Rightarrow> 'v item list \<times> nat) \<Rightarrow> bool" where
  "btree_laws B contents cur \<longleftrightarrow>
     contents (bt_New B) = [] \<and>
     (\<forall>t k v. kv_inv (contents t) \<longrightarrow> contents (bt_Set B (k, v) t) = kv_set k v (contents t)) \<and>
     (\<forall>t. bt_Len B t = length (contents t)) \<and>
     (\<forall>t. fst (cur (bt_Iter B t)) = contents t) \<and>
     (\<forall>it k xs i. cur it = (xs, i) \<longrightarrow> kv_inv xs \<longrightarrow>
        fst (it_Seek B k it) = (below k (map fst xs) < length xs) \<and> cur (snd (it_Seek B k it)) = (xs, below k (map fst xs))) \<and>
     (\<forall>it xs i. cur it = (xs, i) \<longrightarrow> fst (it_First B it) = (xs \<noteq> []) \<and> cur (snd (it_First B it)) = (xs, 0)) \<and>
     (\<forall>it xs i. cur it = (xs, i) \<longrightarrow> fst (it_Last B it) = (xs \<noteq> []) \<and> cur (snd (it_Last B it)) = (xs, length xs - 1)) \<and>
     (\<forall>it xs i. cur it = (xs, i) \<longrightarrow> i < length xs \<longrightarrow> fst (it_Next B it) = (Suc i < length xs) \<and>
        (Suc i < length xs \<longrightarrow> cur (snd (it_Next B it)) = (xs, Suc i))) \<and>
     (\<forall>it xs i. cur it = (xs, i) \<longrightarrow> i < length xs \<longrightarrow> fst (it_Prev B it) = (0 < i) \<and>
        (0 < i \<longrightarrow> cur (snd (it_Prev B it)) = (xs, i - 1))) \<and>
     (\<forall>it xs i. cur it = (xs, i) \<longrightarrow> i < length xs \<longrightarrow> it_Item B it = xs ! i)"

text \<open>a law-abiding instance: a tree is the list of its items, a cursor a list and an index\<close>

definition list_btree :: "('v item list, 'v item list \<times> nat, 'v) btree_lib" where
  "list_btree = \<lparr>bt_New = [], bt_Set = (\<lambda>(k, v). kv_set k v), bt_Get = (\<lambda>k t. map_option (\<lambda>v. (k, v)) (kv_get t k)),
     bt_Delete = kv_delete, bt_Len = length, bt_Iter = (\<lambda>t. (t, 0)),
     it_Seek = (\<lambda>k (t, i). let n = below k (map fst t) in (n < length t, (t, n))),
     it_First = (\<lambda>(t, i). (t \<noteq> [], (t, 0))), it_Last = (\<lambda>(t, i). (t \<noteq> [], (t, length t - 1))),
     it_Next = (\<lambda>(t, i). (Suc i < length t, (t, Suc i))), it_Prev = (\<lambda>(t, i). (0 < i, (t, i - 1))),
     it_Item = (\<lambda>(t, i). t ! i)\<rparr>"

lemma list_btree_laws: "btree_laws list_btree id id"
  by (simp add: btree_laws_def list_btree_def Let_def)

subsection \<open>An iterator over a tree delivers a range\<close>

definition in_range :: "string option \<Rightarrow> string option \<Rightarrow> string \<Rightarrow> bool" where
  "in_range start e k \<longleftrightarrow> (case start of None \<Rightarrow> True | Some s \<Rightarrow> s \<le> k) \<and> (case e of None \<Rightarrow> True | Some h \<Rightarrow> k < h)"

definition range_items :: "bool \<Rightarrow> string option \<Rightarrow> string option \<Rightarrow> (string \<times> 'a) list \<Rightarrow> (string \<times> 'a) list" where
  "range_items ascending start e xs =
     (let ys = filter (\<lambda>x. in_range start e (fst x)) xs in if ascending then ys else rev ys)"

lemma kv_inv_append: "kv_inv (xs @ ys) \<longleftrightarrow> kv_inv xs \<and> kv_inv ys \<and> (\<forall>x \<in> set xs. \<forall>y \<in> set ys. fst x < fst y)"
  by (auto simp: kv_inv_def sorted_wrt_append)

lemma filter_upto: "kv_inv xs \<Longrightarrow> filter (\<lambda>x. fst x < h) xs = takeWhile (\<lambda>x. fst x < h) xs"
proof (induction xs)
  case (Cons x xs)
  show ?case
  proof (cases "fst x < h")
    case False
    then have "\<forall>y \<in> set xs. \<not> fst y < h" using Cons.prems by (fastforce simp: kv_inv_Cons)
    with False show ?thesis by simp
  qed (use Cons in \<open>simp add: kv_inv_Cons\<close>)
qed simp

lemma filter_from: "kv_inv xs \<Longrightarrow> filter (\<lambda>x. s \<le> fst x) xs = dropWhile (\<lambda>x. fst x < s) xs"
proof (induction xs)
  case (Cons x xs)
  show ?case
  proof (cases "fst x < s")
    case False
    then have "\<forall>y \<in> set xs. s \<le> fst y" using Cons.prems by (fastforce simp: kv_inv_Cons)
    with False show ?thesis by (simp add: leI)
  qed (use Cons in \<open>auto simp: kv_inv_Cons\<close>)
qed simp

lemma drop_below: "drop (below s (map fst xs)) xs = dropWhile (\<lambda>x. fst x < s) xs"
  by (simp add: below_def takeWhile_map o_def dropWhile_eq_drop)

lemma take_below: "take (below s (map fst xs)) xs = takeWhile (\<lambda>x. fst x < s) xs"
  by (simp add: below_def takeWhile_map o_def takeWhile_eq_take [symmetric])

lemma range_items_asc:
  assumes "kv_inv xs"
  shows "range_items True start e xs =
    takeWhile (\<lambda>x. case e of None \<Rightarrow> True | Some h \<Rightarrow> fst x < h)
      (drop (case start of None \<Rightarrow> 0 | Some s \<Rightarrow> below s (map fst xs)) xs)"
proof -
  define ys where "ys = drop (case start of None \<Rightarrow> 0 | Some s \<Rightarrow> below s (map fst xs)) xs"
  have ys: "ys = filter (\<lambda>x. case start of None \<Rightarrow> True | Some s \<Rightarrow> s \<le> fst x) xs"
    using filter_from [OF assms] by (auto simp: ys_def drop_below split: option.splits)
  then have "kv_inv ys" using assms by simp
  then have "takeWhile (\<lambda>x. case e of None \<Rightarrow> True | Some h \<Rightarrow> fst x < h) ys
      = filter (\<lambda>x. case e of None \<Rightarrow> True | Some h \<Rightarrow> fst x < h) ys"
    by (cases e) (simp_all add: filter_upto takeWhile_eq_all_conv)
  then show ?thesis unfolding ys_def [symmetric] by (simp add: ys range_items_def in_range_def conj_commute)
qed

lemma range_items_desc:
  assumes "kv_inv xs"
  shows "range_items False start e xs =
    takeWhile (\<lambda>x. case start of None \<Rightarrow> True | Some s \<Rightarrow> s \<le> fst x)
      (rev (take (case e of None \<Rightarrow> length xs | Some h \<Rightarrow> below h (map fst xs)) xs))"
proof -
  define ys where "ys = take (case e of None \<Rightarrow> length xs | Some h \<Rightarrow> below h (map fst xs)) xs"
  have ys: "ys = filter (\<lambda>x. case e of None \<Rightarrow> True | Some h \<Rightarrow> fst x < h) xs"
    using filter_upto [OF assms] by (auto simp: ys_def take_below split: option.splits)
  then have ik: "kv_inv ys" using assms by simp
  have "takeWhile (\<lambda>x. s \<le> fst x) (rev ys) = rev (filter (\<lambda>x. s \<le> fst x) ys)" for s
    using ik
  proof (induction ys rule: rev_induct)
    case (snoc y ys)
    show ?case
    proof (cases "s \<le> fst y")
      case False
      then have "\<forall>z \<in> set ys. \<not> s \<le> fst z" using snoc.prems by (fastforce simp: kv_inv_append)
      with False show ?thesis by simp
    qed (use snoc in \<open>simp add: kv_inv_append\<close>)
  qed simp
  then have "takeWhile (\<lambda>x. case start of None \<Rightarrow> True | Some s \<Rightarrow> s \<le> fst x) (rev ys)
      = rev (filter (\<lambda>x. case start of None \<Rightarrow> True | Some s \<Rightarrow> s \<le> fst x) ys)"
    by (cases start) (simp_all add: takeWhile_eq_all_conv)
  then show ?thesis unfolding ys_def [symmetric] by (simp add: ys range_items_def in_range_def conj_commute)
qed

lemma btree_moves:
  assumes "btree_laws B contents cur" and "cur it = (xs, i)"
  shows "i < length xs \<Longrightarrow> it_Item B it = xs ! i"
    and "i < length xs \<Longrightarrow> it_Next B it = (b, it') \<Longrightarrow> b = (Suc i < length xs) \<and> (b \<longrightarrow> cur it' = (xs, Suc i))"
    and "i < length xs \<Longrightarrow> it_Prev B it = (b, it') \<Longrightarrow> b = (0 < i) \<and> (b \<longrightarrow> cur it' = (xs, i - 1))"
    and "kv_inv xs \<Longrightarrow> it_Seek B k it = (b, it') \<Longrightarrow>
      b = (below k (map fst xs) < length xs) \<and> cur it' = (xs, below k (map fst xs))"
    and "it_First B it = (b, it') \<Longrightarrow> b = (xs \<noteq> []) \<and> cur it' = (xs, 0)"
    and "it_Last B it = (b, it') \<Longrightarrow> b = (xs \<noteq> []) \<and> cur it' = (xs, length xs - 1)"
  using assms unfolding btree_laws_def by (metis fst_conv snd_conv)+

lemmas mi_defs = mi_step_def mi_Next_def mi_Key_def mi_Value_def keyInRange_def

text \<open>the rest of an iteration, from a cursor that has just moved\<close>

lemma mi_items_asc:
  assumes L: "btree_laws B contents cur"
  shows "mi_ascending mi \<Longrightarrow> mi_valid mi = (i < length xs) \<Longrightarrow> (i < length xs \<longrightarrow> cur (mi_iter mi) = (xs, i)) \<Longrightarrow> length xs \<le> i + n \<Longrightarrow>
    drain (mi_step B) n (mi_check B mi) =
      takeWhile (\<lambda>x. case mi_end mi of None \<Rightarrow> True | Some h \<Rightarrow> fst x < h) (drop i xs)"
proof (induction n arbitrary: mi i)
  case (Suc n)
  show ?case
  proof (cases "i < length xs")
    case True
    obtain b it' where nx: "it_Next B (mi_iter mi) = (b, it')" by fastforce
    note b = btree_moves(2) [OF L _ True nx]
    note it = btree_moves(1) [OF L, of "mi_iter mi" xs i]
    have IH: "drain (mi_step B) n (mi_check B (mi\<lparr>mi_iter := it', mi_valid := b\<rparr>)) =
      takeWhile (\<lambda>x. case mi_end mi of None \<Rightarrow> True | Some h \<Rightarrow> fst x < h) (drop (Suc i) xs)"
      using Suc.IH [of "mi\<lparr>mi_iter := it', mi_valid := b\<rparr>" "Suc i"] Suc.prems True b by simp
    have "mi_step B (mi_check B mi) = (if case mi_end mi of None \<Rightarrow> True | Some h \<Rightarrow> fst (xs ! i) < h
        then Some (xs ! i, mi_check B (mi\<lparr>mi_iter := it', mi_valid := b\<rparr>)) else None)"
      using Suc.prems True nx it by (auto simp: mi_check_def [of B mi] mi_defs not_le split: option.splits)
    then show ?thesis using IH True by (simp add: Cons_nth_drop_Suc [symmetric])
  next
    case False
    then show ?thesis using Suc.prems by (simp add: mi_check_def mi_step_def)
  qed
qed simp

lemma mi_items_desc:
  assumes L: "btree_laws B contents cur"
  shows "\<not> mi_ascending mi \<Longrightarrow> mi_valid mi = (0 < i) \<Longrightarrow> (0 < i \<longrightarrow> cur (mi_iter mi) = (xs, i - 1)) \<Longrightarrow> i \<le> length xs \<Longrightarrow> i \<le> n \<Longrightarrow>
    drain (mi_step B) n (mi_check B mi) =
      takeWhile (\<lambda>x. case mi_start mi of None \<Rightarrow> True | Some s \<Rightarrow> s \<le> fst x) (rev (take i xs))"
proof (induction n arbitrary: mi i)
  case (Suc n)
  show ?case
  proof (cases i)
    case (Suc j)
    then have j: "j < length xs" using Suc.prems by simp
    obtain b it' where nx: "it_Prev B (mi_iter mi) = (b, it')" by fastforce
    note b = btree_moves(3) [OF L _ j nx]
    note it = btree_moves(1) [OF L, of "mi_iter mi" xs j]
    have IH: "drain (mi_step B) n (mi_check B (mi\<lparr>mi_iter := it', mi_valid := b\<rparr>)) =
      takeWhile (\<lambda>x. case mi_start mi of None \<Rightarrow> True | Some s \<Rightarrow> s \<le> fst x) (rev (take j xs))"
      using Suc.IH [of "mi\<lparr>mi_iter := it', mi_valid := b\<rparr>" j] Suc.prems Suc b by simp
    have "mi_step B (mi_check B mi) = (if case mi_start mi of None \<Rightarrow> True | Some s \<Rightarrow> s \<le> fst (xs ! j)
        then Some (xs ! j, mi_check B (mi\<lparr>mi_iter := it', mi_valid := b\<rparr>)) else None)"
      using Suc.prems Suc nx it j by (auto simp: mi_check_def [of B mi] mi_defs not_less split: option.splits)
    then show ?thesis using IH Suc j by (simp add: take_Suc_conv_app_nth)
  next
    case 0
    then show ?thesis using Suc.prems by (simp add: mi_check_def mi_step_def)
  qed
qed simp

lemma newMemIterator_range:
  assumes L: "btree_laws B contents cur" and inv: "kv_inv (contents t)"
  shows "mi_items B t (newMemIterator B start e t asc) = range_items asc start e (contents t)"
proof -
  define xs where "xs = contents t"
  have "fst (cur (bt_Iter B t)) = xs" using L by (simp add: btree_laws_def xs_def)
  then obtain i0 where c0: "cur (bt_Iter B t) = (xs, i0)" by (metis prod.collapse)
  have len: "bt_Len B t = length xs" and ix: "kv_inv xs" using L inv by (auto simp: btree_laws_def xs_def)
  show ?thesis
  proof (cases asc)
    case True
    let ?i = "case start of None \<Rightarrow> 0 | Some s \<Rightarrow> below s (map fst xs)"
    obtain b it where m: "(case start of Some s \<Rightarrow> it_Seek B s (bt_Iter B t) | None \<Rightarrow> it_First B (bt_Iter B t)) = (b, it)" by fastforce
    then have "b = (?i < length xs)" "cur it = (xs, ?i)"
      using btree_moves(4,5) [OF L c0] ix by (auto split: option.splits)
    then show ?thesis
      using mi_items_asc [OF L, of "\<lparr>mi_iter = it, mi_start = start, mi_end = e, mi_ascending = asc, mi_valid = b\<rparr>" ?i xs "length xs"]
      by (simp add: mi_items_def newMemIterator_def len m True range_items_asc [OF ix] flip: xs_def)
  next
    case False
    let ?i = "case e of None \<Rightarrow> length xs | Some h \<Rightarrow> below h (map fst xs)"
    obtain b it where m: "(case e of Some k \<Rightarrow> (let (valid, iter) = it_Seek B k (bt_Iter B t) in
        if \<not> valid then it_Last B iter else it_Prev B iter) | None \<Rightarrow> it_Last B (bt_Iter B t)) = (b, it)" by fastforce
    then have "b = (0 < ?i) \<and> (0 < ?i \<longrightarrow> cur it = (xs, ?i - 1))"
    proof (cases e)
      case None
      then show ?thesis using m btree_moves(6) [OF L c0] by auto
    next
      case (Some k)
      obtain v it1 where s: "it_Seek B k (bt_Iter B t) = (v, it1)" by fastforce
      note k = btree_moves(4) [OF L c0 ix s]
      show ?thesis
      proof (cases v)
        case True
        then show ?thesis using m s k Some btree_moves(3) [OF L, of it1 xs "below k (map fst xs)"] by auto
      next
        case False
        then have "below k (map fst xs) = length xs" using k below_le [of k "map fst xs"] by simp
        then show ?thesis using m s k Some False btree_moves(6) [OF L, of it1] by auto
      qed
    qed
    moreover have "?i \<le> length xs" using below_le [of _ "map fst xs"] by (auto split: option.splits)
    ultimately show ?thesis
      using mi_items_desc [OF L, of "\<lparr>mi_iter = it, mi_start = start, mi_end = e, mi_ascending = asc, mi_valid = b\<rparr>" ?i xs "length xs"]
      by (simp add: mi_items_def newMemIterator_def len m False range_items_desc [OF ix] flip: xs_def)
  qed
qed

subsection \<open>Merging a parent with a cache\<close>

text \<open>the order of an iteration, and the merge that the iterator carries out step by step\<close>

definition before :: "bool \<Rightarrow> string \<Rightarrow> string \<Rightarrow> bool" where
  "before asc a b = (if asc then a < b else b < a)"

lemma cm_compare_before:
  "cm_compare asc a b = -1 \<longleftrightarrow> before asc a b"
  "cm_compare asc a b = 0 \<longleftrightarrow> a = b"
  "cm_compare asc a b < 0 \<longleftrightarrow> before asc a b"
  by (auto simp: cm_compare_def bytes_Compare_def before_def)

fun merge :: "bool \<Rightarrow> 'v item list \<Rightarrow> 'v item list \<Rightarrow> 'v item list" where
  "merge asc [] c = filter (\<lambda>x. snd x \<noteq> None) c"
| "merge asc (x # p) [] = x # p"
| "merge asc (x # p) (y # c) =
     (if before asc (fst x) (fst y) then x # merge asc p (y # c)
      else if fst x = fst y then (if snd y = None then merge asc p c else y # merge asc p c)
      else (if snd y = None then merge asc (x # p) c else y # merge asc (x # p) c))"

lemma merge_Nil2 [simp]: "merge asc p [] = p"
  by (cases p) simp_all

lemma merge_skip: "merge asc [] (skipCacheDeletes asc None c) = merge asc [] c"
  by (induction asc "None :: string option" c rule: skipCacheDeletes.induct) auto

lemma merge_skip_until:
  "merge asc (x # p) (skipCacheDeletes asc (Some (fst x)) c) = merge asc (x # p) c"
  by (induction asc "Some (fst x)" c rule: skipCacheDeletes.induct) (auto simp: cm_compare_before before_def)

lemma skipCacheDeletes_live: "skipCacheDeletes asc None c = [] \<or> snd (hd (skipCacheDeletes asc None c)) \<noteq> None"
  by (induction asc "None :: string option" c rule: skipCacheDeletes.induct) auto

text \<open>where the skipping stops: the next item is there and is not a deletion\<close>

definition settled :: "bool \<Rightarrow> 'v item list \<Rightarrow> 'v item list \<Rightarrow> bool" where
  "settled asc p c \<longleftrightarrow> (c = [] \<or> snd (hd c) \<noteq> None \<or> p \<noteq> [] \<and> before asc (fst (hd p)) (fst (hd c)))"

lemma skipUntil_eval:
  "skipUntilExistsOrInvalid asc [] c = ([], skipCacheDeletes asc None c, skipCacheDeletes asc None c \<noteq> [])"
  "skipUntilExistsOrInvalid asc (x # p) [] = (x # p, [], True)"
  "skipUntilExistsOrInvalid asc (x # p) (y # c) =
     (if snd y \<noteq> None \<or> before asc (fst x) (fst y) then (x # p, y # c, True)
      else if fst x = fst y then skipUntilExistsOrInvalid asc p c
      else skipUntilExistsOrInvalid asc (x # p) (skipCacheDeletes asc (Some (fst x)) (y # c)))"
  by (subst skipUntilExistsOrInvalid.simps, simp add: cm_compare_before Let_def)+

lemma skipUntil_settled:
  "skipUntilExistsOrInvalid asc p c = (p', c', b) \<Longrightarrow>
    settled asc p' c' \<and> b = (p' \<noteq> [] \<or> c' \<noteq> []) \<and> merge asc p' c' = merge asc p c \<and> length p' + length c' \<le> length p + length c"
proof (induction asc p c rule: skipUntilExistsOrInvalid.induct)
  case (1 asc p c)
  show ?case
  proof (cases p)
    case Nil
    then show ?thesis
      using "1.prems" skipCacheDeletes_live [of asc c] merge_skip [of asc c] skipCacheDeletes_length [of asc None c]
      by (auto simp: skipUntil_eval settled_def)
  next
    case p: (Cons x ps)
    show ?thesis
    proof (cases c)
      case Nil
      then show ?thesis using "1.prems" p by (auto simp: skipUntil_eval settled_def)
    next
      case c: (Cons y cs)
      consider "snd y \<noteq> None \<or> before asc (fst x) (fst y)" | "snd y = None" "\<not> before asc (fst x) (fst y)" "fst x = fst y"
        | "snd y = None" "\<not> before asc (fst x) (fst y)" "fst x \<noteq> fst y" by blast
      then show ?thesis
      proof cases
        case 1
        then show ?thesis using "1.prems" by (auto simp: p c skipUntil_eval settled_def)
      next
        case 2
        have "skipUntilExistsOrInvalid asc ps cs = (p', c', b)" using "1.prems" 2 by (simp add: p c skipUntil_eval)
        then have "settled asc p' c' \<and> b = (p' \<noteq> [] \<or> c' \<noteq> []) \<and> merge asc p' c' = merge asc ps cs \<and>
            length p' + length c' \<le> length ps + length cs"
          using "1.IH"(1) 2 by (simp add: p c cm_compare_before)
        then show ?thesis using 2 by (auto simp: p c)
      next
        case 3
        let ?c = "skipCacheDeletes asc (Some (fst x)) (y # cs)"
        have "skipUntilExistsOrInvalid asc (x # ps) ?c = (p', c', b)" using "1.prems" 3 by (simp add: p c skipUntil_eval)
        then have "settled asc p' c' \<and> b = (p' \<noteq> [] \<or> c' \<noteq> []) \<and> merge asc p' c' = merge asc (x # ps) ?c \<and>
            length p' + length c' \<le> length (x # ps) + length ?c"
          using "1.IH"(2) 3 by (simp add: p c cm_compare_before)
        then show ?thesis
          using merge_skip_until [of asc x ps "y # cs"] skipCacheDeletes_length [of asc "Some (fst x)" "y # cs"] by (simp add: p c)
      qed
    qed
  qed
qed

text \<open>one read of a settled iterator takes the head of the merge\<close>

definition advance :: "bool \<Rightarrow> 'v item list \<Rightarrow> 'v item list \<Rightarrow> 'v item list \<times> 'v item list" where
  "advance asc p c =
     (if p = [] then (p, tl c) else if c = [] \<or> before asc (fst (hd p)) (fst (hd c)) then (tl p, c)
      else if fst (hd p) = fst (hd c) then (tl p, tl c) else (p, tl c))"

lemma cm_step_merge:
  assumes "settled asc p c" "p \<noteq> [] \<or> c \<noteq> []" "advance asc p c = (p', c')"
  shows "\<exists>x. cm_step \<lparr>cm_parent = p, cm_cache = c, cm_ascending = asc, cm_valid = True\<rparr>
      = Some (x, cm_skip \<lparr>cm_parent = p', cm_cache = c', cm_ascending = asc, cm_valid = True\<rparr>) \<and>
      merge asc p c = x # merge asc p' c' \<and> length p' + length c' < length p + length c"
proof -
  note ops = cm_step_def cm_Key_def cm_Value_def cm_Next_def Let_def cm_compare_before settled_def advance_def
  consider y cs where "p = []" "c = y # cs" | x ps where "p = x # ps" "c = []" | x ps y cs where "p = x # ps" "c = y # cs"
    using assms(2) by (metis neq_Nil_conv)
  then show ?thesis
  proof cases
    case 1
    then show ?thesis using assms by (auto simp: ops)
  next
    case 2
    then show ?thesis using assms by (auto simp: ops)
  next
    case 3
    then show ?thesis using assms by (cases x; cases y) (auto simp: ops split: if_splits)
  qed
qed

lemma cm_items_settled:
  "settled asc p c \<Longrightarrow> length p + length c \<le> n \<Longrightarrow>
    drain cm_step n \<lparr>cm_parent = p, cm_cache = c, cm_ascending = asc, cm_valid = (p \<noteq> [] \<or> c \<noteq> [])\<rparr> = merge asc p c"
proof (induction n arbitrary: p c)
  case (Suc n)
  show ?case
  proof (cases "p \<noteq> [] \<or> c \<noteq> []")
    case True
    obtain p' c' where a: "advance asc p c = (p', c')" by fastforce
    then obtain x where s: "cm_step \<lparr>cm_parent = p, cm_cache = c, cm_ascending = asc, cm_valid = True\<rparr>
        = Some (x, cm_skip \<lparr>cm_parent = p', cm_cache = c', cm_ascending = asc, cm_valid = True\<rparr>)"
      "merge asc p c = x # merge asc p' c'" "length p' + length c' < length p + length c"
      using cm_step_merge [OF Suc.prems(1) True a] by blast
    obtain p'' c'' b where k: "skipUntilExistsOrInvalid asc p' c' = (p'', c'', b)" by (metis prod.collapse)
    note u = skipUntil_settled [OF k]
    show ?thesis using True s Suc.prems(2) u Suc.IH [of p'' c''] by (simp add: cm_skip_def k)
  next
    case False
    then show ?thesis by (simp add: cm_step_def)
  qed
qed simp

lemma NewCacheMergeIterator_merge: "cm_items (NewCacheMergeIterator p c asc) = merge asc p c"
proof -
  obtain p' c' b where k: "skipUntilExistsOrInvalid asc p c = (p', c', b)" by (metis prod.collapse)
  show ?thesis using skipUntil_settled [OF k] cm_items_settled [of asc p' c'] 
    by (simp add: cm_items_def NewCacheMergeIterator_def cm_skip_def k)
qed

subsection \<open>The merge is the parent with the cache laid over it\<close>

text \<open>writing the items of a cache to a store: a value is set, a deletion deletes\<close>

definition write_item :: "'v item \<Rightarrow> 'v kv \<Rightarrow> 'v kv" where
  "write_item x st = (case snd x of None \<Rightarrow> kv_delete (fst x) st | Some v \<Rightarrow> kv_set (fst x) v st)"

definition overlay :: "'v item list \<Rightarrow> 'v kv \<Rightarrow> 'v kv" where
  "overlay c st = fold write_item c st"

lemma kv_get_write_item [kv_simps]: "kv_get (write_item x st) k = (if k = fst x then snd x else kv_get st k)"
  by (simp add: write_item_def kv_simps split: option.split)

lemma kv_inv_write_item [simp]: "kv_inv st \<Longrightarrow> kv_inv (write_item x st)"
  by (simp add: write_item_def split: option.split)

lemma kv_inv_overlay [simp]: "kv_inv st \<Longrightarrow> kv_inv (overlay c st)"
  unfolding overlay_def by (induction c arbitrary: st) simp_all

lemma kv_get_overlay:
  "distinct (map fst c) \<Longrightarrow> kv_get (overlay c st) k = (case map_of c k of None \<Rightarrow> kv_get st k | Some v \<Rightarrow> v)"
  unfolding overlay_def
proof (induction c arbitrary: st)
  case (Cons x c)
  then have "k = fst x \<Longrightarrow> map_of c k = None" by (auto simp: map_of_eq_None_iff)
  with Cons show ?case by (cases x) (auto simp: kv_simps split: option.splits)
qed simp

definition somes :: "'v kv \<Rightarrow> 'v item list" where
  "somes st = map (\<lambda>(k, v). (k, Some v)) st"

text \<open>the order of the items, and that it determines them\<close>

definition ordered :: "bool \<Rightarrow> 'v item list \<Rightarrow> bool" where
  "ordered asc xs = sorted_wrt (before asc) (map fst xs)"

lemma before_trans: "before asc a b \<Longrightarrow> before asc b c \<Longrightarrow> before asc a c"
  by (auto simp: before_def split: if_splits)

lemma before_irrefl [simp]: "\<not> before asc a a"
  by (simp add: before_def)

lemma before_linear: "\<not> before asc a b \<Longrightarrow> a \<noteq> b \<Longrightarrow> before asc b a"
  by (auto simp: before_def split: if_splits)

lemma ordered_Cons: "ordered asc (x # xs) \<longleftrightarrow> (\<forall>y \<in> set xs. before asc (fst x) (fst y)) \<and> ordered asc xs"
  by (auto simp: ordered_def)

lemma ordered_not_mem:
  "ordered asc (z # c) \<Longrightarrow> before asc k (fst z) \<Longrightarrow> k \<notin> fst ` set (z # c)"
  using before_trans [of asc k "fst z"] by (fastforce simp: ordered_Cons)

lemma set_merge:
  "ordered asc p \<Longrightarrow> ordered asc c \<Longrightarrow>
    x \<in> set (merge asc p c) \<longleftrightarrow> (x \<in> set c \<and> snd x \<noteq> None) \<or> (x \<in> set p \<and> fst x \<notin> fst ` set c)"
proof (induction asc p c rule: merge.induct)
  case (3 asc y p z c)
  have o: "ordered asc p" "ordered asc c" using "3.prems" by (simp_all add: ordered_Cons)
  consider "before asc (fst y) (fst z)" | "fst y = fst z" | "before asc (fst z) (fst y)" "\<not> before asc (fst y) (fst z)" "fst y \<noteq> fst z"
    using before_linear by blast
  then show ?case
  proof cases
    case 1
    then show ?thesis
      using "3.IH"(1) [OF 1 o(1) "3.prems"(2)] ordered_not_mem [OF "3.prems"(2) 1] by auto
  next
    case 2
    have "fst z \<notin> fst ` set p" using "3.prems"(1) 2 by (force simp: ordered_Cons)
    then show ?thesis using "3.IH"(2,3) o 2 by (cases "snd z = None") (auto simp: image_iff)
  next
    case 3
    then show ?thesis
      using "3.IH"(4,5) o(2) "3.prems"(1) ordered_not_mem [OF "3.prems"(1) 3(1)] by (cases "snd z = None") (auto simp: image_iff)
  qed
qed (auto simp: ordered_def)

lemma ordered_merge: "ordered asc p \<Longrightarrow> ordered asc c \<Longrightarrow> ordered asc (merge asc p c)"
proof (induction asc p c rule: merge.induct)
  case (3 asc y p z c)
  have o: "ordered asc p" "ordered asc c" using "3.prems" by (simp_all add: ordered_Cons)
  note bt = before_trans [of asc]
  consider "before asc (fst y) (fst z)" | "fst y = fst z" | "before asc (fst z) (fst y)" "\<not> before asc (fst y) (fst z)" "fst y \<noteq> fst z"
    using before_linear by blast
  then show ?case
  proof cases
    case 1
    then show ?thesis
      using "3.IH"(1) [OF 1 o(1) "3.prems"(2)] "3.prems" set_merge [OF o(1) "3.prems"(2)]
      by (fastforce simp: ordered_Cons dest: bt)
  next
    case 2
    then show ?thesis
      using "3.IH"(2,3) o "3.prems" set_merge [OF o] by (cases "snd z = None") (auto simp: ordered_Cons)
  next
    case 3
    then show ?thesis
      using "3.IH"(4,5) o(2) "3.prems" set_merge [OF "3.prems"(1) o(2)]
      by (cases "snd z = None") (fastforce simp: ordered_Cons dest: bt)+
  qed
qed (auto simp: ordered_def sorted_wrt_map sorted_wrt_filter)

text \<open>items in order are determined by their set\<close>

lemma ordered_unique: "ordered asc xs \<Longrightarrow> ordered asc ys \<Longrightarrow> set xs = set ys \<Longrightarrow> xs = ys"
proof (induction xs arbitrary: ys)
  case (Cons x xs)
  then obtain y zs where ys: "ys = y # zs" by (cases ys) auto
  have "x = y"
  proof (rule ccontr)
    assume "x \<noteq> y"
    then have "y \<in> set xs" "x \<in> set zs" using Cons.prems(3) ys by auto
    then have "before asc (fst x) (fst y)" "before asc (fst y) (fst x)" using Cons.prems(1,2) ys by (auto simp: ordered_Cons)
    then show False using before_trans by fastforce
  qed
  moreover have "x \<notin> set xs" "y \<notin> set zs" using Cons.prems(1,2) ys by (auto simp: ordered_Cons)
  ultimately have "set xs = set zs" using Cons.prems(3) ys by auto
  then show ?case using Cons \<open>x = y\<close> ys by (simp add: ordered_Cons)
qed simp

lemma ordered_range_items:
  assumes "kv_inv xs"
  shows "ordered asc (range_items asc start e xs)"
proof -
  have "kv_inv (filter (\<lambda>x. in_range start e (fst x)) xs)" using assms by simp
  then show ?thesis
    by (cases asc) (simp_all add: range_items_def ordered_def kv_inv_def before_def [abs_def] Let_def rev_map [symmetric] sorted_wrt_rev)
qed

lemma set_range_items: "x \<in> set (range_items asc start e xs) \<longleftrightarrow> x \<in> set xs \<and> in_range start e (fst x)"
  by (simp add: range_items_def Let_def conj_commute)

lemma kv_inv_somes [simp]: "kv_inv (somes st) = kv_inv st"
  by (simp add: kv_inv_def somes_def o_def case_prod_beta)

lemma mem_somes: "(k, v) \<in> set (somes st) \<longleftrightarrow> (\<exists>w. v = Some w \<and> (k, w) \<in> set st)"
  by (force simp: somes_def)

text \<open>merging the ranges of a store and of a cache gives the range of the overlaid store\<close>

lemma merge_overlay:
  assumes st: "kv_inv st" and c: "kv_inv c"
    and sub: "\<And>k v. (k, v) \<in> set c \<Longrightarrow> in_range start e k \<Longrightarrow> map_of d k = Some v"
    and sup: "\<And>k v. map_of d k = Some v \<Longrightarrow> in_range start e k \<Longrightarrow> (k, v) \<in> set c" and d: "distinct (map fst d)"
  shows "merge asc (range_items asc start e (somes st)) (range_items asc start e c)
    = range_items asc start e (somes (overlay d st))"
proof (rule ordered_unique)
  let ?p = "range_items asc start e (somes st)" and ?c = "range_items asc start e c"
  have o: "ordered asc ?p" "ordered asc ?c" using st c by (simp_all add: ordered_range_items)
  then show "ordered asc (merge asc ?p ?c)" by (rule ordered_merge)
  show "ordered asc (range_items asc start e (somes (overlay d st)))" using st by (simp add: ordered_range_items)
  have mem: "(k, w) \<in> set (overlay d st) \<longleftrightarrow> (case map_of d k of None \<Rightarrow> (k, w) \<in> set st | Some v \<Rightarrow> v = Some w)" for k w
    using st kv_get_overlay [OF d, of st k] by (auto simp flip: kv_get_mem split: option.splits)
  have c_iff: "in_range start e k \<Longrightarrow> (k, v) \<in> set c \<longleftrightarrow> map_of d k = Some v" for k v using sub sup by blast
  have "x \<in> set (merge asc ?p ?c) \<longleftrightarrow> x \<in> set (range_items asc start e (somes (overlay d st)))" for x
  proof (cases x)
    case (Pair k v)
    have "k \<in> fst ` set ?c \<longleftrightarrow> (\<exists>v. (k, v) \<in> set ?c)" by force
    then have "k \<in> fst ` set ?c \<longleftrightarrow> in_range start e k \<and> (\<exists>v. map_of d k = Some v)"
      using c_iff [of k] by (auto simp: set_range_items)
    then show ?thesis
      unfolding Pair set_merge [OF o] by (auto simp: set_range_items mem_somes mem c_iff split: option.splits)
  qed
  then show "set (merge asc ?p ?c) = set (range_items asc start e (somes (overlay d st)))" by blast
qed

end
