(* ===== verification/CacheKV.thy ===== *)
theory CacheKV
  imports MergeIterator
begin

section \<open>The caching store\<close>

text \<open>
  \<open>cosmos-sdk/store/cachekv/store.go\<close>: the store in which a transaction runs. Reads are
  cached, writes stay in the cache until \<open>Write\<close> hands them to the parent in key order, and an
  iterator merges the parent with the written keys, which move from an unsorted set to a B-tree
  when a range that may contain them is asked for.

  A store is an object with the methods of \<open>types.KVStore\<close>, here a record of operations on
  its state, because the parent of a cache can be any store and in particular another
  cache. The locale \<open>kv_layer\<close> is the contract of such an object: there is an ordered map
  behind its state, and every method acts as on that map. A cache fulfils the contract when
  its parent does.
\<close>

subsection \<open>Stores as objects\<close>

record ('p, 'v) KVStore_if =
  ks_Get :: "string \<Rightarrow> ('p, unit, 'v option) go"
  ks_Has :: "string \<Rightarrow> ('p, unit, bool) go"
  ks_Set :: "string \<Rightarrow> 'v option \<Rightarrow> ('p, unit, unit) go"
  ks_Delete :: "string \<Rightarrow> ('p, unit, unit) go"
  ks_Iterator :: "string option \<Rightarrow> string option \<Rightarrow> ('p, unit, 'v item list) go"
  ks_ReverseIterator :: "string option \<Rightarrow> string option \<Rightarrow> ('p, unit, 'v item list) go"

definition AssertValidKey :: "string \<Rightarrow> ('s, unit, unit) go" where
  "AssertValidKey key = (if key = [] then gpanic ''key is nil'' else gret ())"

definition AssertValidValue :: "'v option \<Rightarrow> ('s, unit, unit) go" where
  "AssertValidValue value = (if value = None then gpanic ''value is nil'' else gret ())"

subsection \<open>The store and its cache\<close>

record 'v cValue =
  cv_value :: "'v option"
  cv_dirty :: bool

record ('p, 't, 'v) cStore =
  cs_cache :: "'v cValue kv"
  cs_unsortedCache :: "unit kv"
  cs_sortedCache :: 't
  cs_parent :: 'p

definition cs_NewStore :: "('t, 'it, 'v) btree_lib \<Rightarrow> 'p \<Rightarrow> ('p, 't, 'v) cStore" where
  "cs_NewStore B parent = \<lparr>cs_cache = [], cs_unsortedCache = [], cs_sortedCache = NewBTree B, cs_parent = parent\<rparr>"

definition on_parent :: "('p, 'e, 'a) go \<Rightarrow> (('p, 't, 'v) cStore, 'e, 'a) go" where
  "on_parent m = (\<lambda>s. case m (cs_parent s) of (r, p) \<Rightarrow> (r, s\<lparr>cs_parent := p\<rparr>))"

definition setCacheValue :: "string \<Rightarrow> 'v option \<Rightarrow> bool \<Rightarrow> ('p, 't, 'v) cStore \<Rightarrow> ('p, 't, 'v) cStore" where
  "setCacheValue key value dirty s =
     (let s = s\<lparr>cs_cache := kv_set key \<lparr>cv_value = value, cv_dirty = dirty\<rparr> (cs_cache s)\<rparr>
      in if dirty then s\<lparr>cs_unsortedCache := kv_set key () (cs_unsortedCache s)\<rparr> else s)"

definition cs_Get :: "('p, 'v) KVStore_if \<Rightarrow> string \<Rightarrow> (('p, 't, 'v) cStore, unit, 'v option) go" where
  "cs_Get P key =
     gbind (AssertValidKey key) (\<lambda>_.
     gbind (gget (\<lambda>s. kv_get (cs_cache s) key)) (\<lambda>cacheValue. case cacheValue of
       None \<Rightarrow> gbind (on_parent (ks_Get P key)) (\<lambda>value.
               gbind (gmod (setCacheValue key value False)) (\<lambda>_. gret value))
     | Some cv \<Rightarrow> gret (cv_value cv)))"

definition cs_Set :: "string \<Rightarrow> 'v option \<Rightarrow> (('p, 't, 'v) cStore, unit, unit) go" where
  "cs_Set key value =
     gbind (AssertValidKey key) (\<lambda>_. gbind (AssertValidValue value) (\<lambda>_. gmod (setCacheValue key value True)))"

definition cs_Has :: "('p, 'v) KVStore_if \<Rightarrow> string \<Rightarrow> (('p, 't, 'v) cStore, unit, bool) go" where
  "cs_Has P key = gbind (cs_Get P key) (\<lambda>value. gret (value \<noteq> None))"

definition cs_Delete :: "string \<Rightarrow> (('p, 't, 'v) cStore, unit, unit) go" where
  "cs_Delete key = gbind (AssertValidKey key) (\<lambda>_. gmod (setCacheValue key None True))"

subsection \<open>Writing the cache to the parent\<close>

definition dirty_keys :: "'v cValue kv \<Rightarrow> string list" where
  "dirty_keys cache = sort (map fst (filter (\<lambda>(k, cv). cv_dirty cv) cache))"

definition write_key :: "('p, 'v) KVStore_if \<Rightarrow> string \<Rightarrow> (('p, 't, 'v) cStore, unit, unit) go" where
  "write_key P key =
     gbind (gget (\<lambda>s. kv_get (cs_cache s) key)) (\<lambda>cacheValue. case cacheValue of
       None \<Rightarrow> gpanic ''nil pointer dereference''
     | Some cv \<Rightarrow> (case cv_value cv of
         Some v \<Rightarrow> on_parent (ks_Set P key (Some v))
       | None \<Rightarrow> on_parent (ks_Delete P key)))"

definition cs_Write :: "('t, 'it, 'v) btree_lib \<Rightarrow> ('p, 'v) KVStore_if \<Rightarrow> (('p, 't, 'v) cStore, unit, unit) go" where
  "cs_Write B P = (\<lambda>s.
     if cs_cache s = [] \<and> cs_unsortedCache s = [] then (Ret (), s\<lparr>cs_sortedCache := NewBTree B\<rparr>)
     else gbind (gfor (dirty_keys (cs_cache s)) (write_key P)) (\<lambda>_.
       gmod (\<lambda>s. s\<lparr>cs_cache := [], cs_unsortedCache := [], cs_sortedCache := NewBTree B\<rparr>)) s)"

subsection \<open>Iteration\<close>

datatype sortState = stateUnsorted | stateAlreadySorted

definition minSortSize :: int where
  "minSortSize = 1024"

definition clearUnsortedCacheSubset :: "('t, 'it, 'v) btree_lib \<Rightarrow> 'v item list \<Rightarrow> sortState \<Rightarrow> ('p, 't, 'v) cStore \<Rightarrow> ('p, 't, 'v) cStore" where
  "clearUnsortedCacheSubset B unsorted st s =
     (let n = length (cs_unsortedCache s);
          s = (if length unsorted = n then s\<lparr>cs_unsortedCache := []\<rparr>
               else s\<lparr>cs_unsortedCache := fold (\<lambda>x. kv_delete (fst x)) unsorted (cs_unsortedCache s)\<rparr>);
          unsorted = (if st = stateUnsorted then sort_key fst unsorted else unsorted)
      in s\<lparr>cs_sortedCache := fold (\<lambda>x. BTree_Set B (fst x) (snd x)) unsorted (cs_sortedCache s)\<rparr>)"

text \<open>\<open>kv.Pair\<close>s of keys and their cached values; \<open>None\<close> is a nil dereference\<close>

fun cached_pairs :: "'v cValue kv \<Rightarrow> string list \<Rightarrow> 'v item list option" where
  "cached_pairs cache [] = Some []"
| "cached_pairs cache (key # keys) = (case kv_get cache key of
     None \<Rightarrow> None
   | Some cv \<Rightarrow> map_option (\<lambda>ps. (key, cv_value cv) # ps) (cached_pairs cache keys))"

text \<open>the indices of the keys to sort in when there are many, from the two searches\<close>

definition dirty_range :: "string list \<Rightarrow> string \<Rightarrow> string option \<Rightarrow> int \<times> int" where
  "dirty_range strL startStr e =
     (let last = int (length strL) - 1;
          startIndex = findStartIndex strL startStr;
          startIndex = (if startIndex < 0 then 0 else startIndex);
          endIndex = (case e of None \<Rightarrow> last | Some endStr \<Rightarrow> findEndIndex strL endStr);
          endIndex = (if endIndex < 0 then last else endIndex)
      in if endIndex - startIndex < minSortSize then
           let endIndex = min (startIndex + minSortSize) last
           in if endIndex - startIndex < minSortSize then (max (endIndex - minSortSize) 0, endIndex)
              else (startIndex, endIndex)
         else (startIndex, endIndex))"

definition dirtyItems :: "('t, 'it, 'v) btree_lib \<Rightarrow> (string \<Rightarrow> string option \<Rightarrow> string option \<Rightarrow> bool) \<Rightarrow>
    string option \<Rightarrow> string option \<Rightarrow> (('p, 't, 'v) cStore, unit, unit) go" where
  "dirtyItems B IsKeyInDomain start e =
     (let startStr = (case start of None \<Rightarrow> [] | Some s \<Rightarrow> s) in
      if (case e of None \<Rightarrow> False | Some endStr \<Rightarrow> endStr < startStr) then gret ()
      else gbind (gget (\<lambda>s. (map fst (cs_unsortedCache s), cs_cache s))) (\<lambda>(keys, cache).
        if int (length keys) < minSortSize then
          gbind (gopt_panic ''nil pointer dereference'' (cached_pairs cache (filter (\<lambda>key. IsKeyInDomain key start e) keys)))
            (\<lambda>unsorted. gmod (clearUnsortedCacheSubset B unsorted stateUnsorted))
        else
          let strL = sort keys; (startIndex, endIndex) = dirty_range strL startStr e
          in gbind (gopt_panic ''nil pointer dereference'' (cached_pairs cache (map (\<lambda>i. strL ! nat i) [startIndex..endIndex])))
            (\<lambda>kvL. gmod (clearUnsortedCacheSubset B kvL stateAlreadySorted))))"

definition cs_iterator :: "('t, 'it, 'v) btree_lib \<Rightarrow> (string \<Rightarrow> string option \<Rightarrow> string option \<Rightarrow> bool) \<Rightarrow> ('p, 'v) KVStore_if \<Rightarrow>
    string option \<Rightarrow> string option \<Rightarrow> bool \<Rightarrow> (('p, 't, 'v) cStore, unit, 'v item list) go" where
  "cs_iterator B IsKeyInDomain P start e ascending =
     gbind (dirtyItems B IsKeyInDomain start e) (\<lambda>_.
     gbind (gget cs_sortedCache) (\<lambda>isoSortedCache.
     gbind (on_parent (if ascending then ks_Iterator P start e else ks_ReverseIterator P start e)) (\<lambda>parent.
     gbind (gopt_panic ''key cannot be empty''
       (if ascending then BTree_Iterator B start e isoSortedCache else BTree_ReverseIterator B start e isoSortedCache)) (\<lambda>cache.
     gret (cm_items (NewCacheMergeIterator parent (mi_items B isoSortedCache cache) ascending))))))"

definition cachekv :: "('t, 'it, 'v) btree_lib \<Rightarrow> (string \<Rightarrow> string option \<Rightarrow> string option \<Rightarrow> bool) \<Rightarrow> ('p, 'v) KVStore_if \<Rightarrow>
    (('p, 't, 'v) cStore, 'v) KVStore_if" where
  "cachekv B IsKeyInDomain P = \<lparr>ks_Get = cs_Get P, ks_Has = cs_Has P, ks_Set = cs_Set, ks_Delete = cs_Delete,
     ks_Iterator = (\<lambda>start e. cs_iterator B IsKeyInDomain P start e True),
     ks_ReverseIterator = (\<lambda>start e. cs_iterator B IsKeyInDomain P start e False)\<rparr>"

subsection \<open>The contract of a store object\<close>

text \<open>what a reader may expect: the methods that read agree with the map and leave it alone\<close>

locale kv_reader =
  fixes S :: "('p, 'v) KVStore_if" and inv :: "'p \<Rightarrow> bool" and abs :: "'p \<Rightarrow> 'v kv"
  assumes abs_inv: "inv s \<Longrightarrow> kv_inv (abs s)"
    and get: "inv s \<Longrightarrow> k \<noteq> [] \<Longrightarrow> \<exists>t. ks_Get S k s = (Ret (kv_get (abs s) k), t) \<and> inv t \<and> abs t = abs s"
    and has: "inv s \<Longrightarrow> k \<noteq> [] \<Longrightarrow> \<exists>t. ks_Has S k s = (Ret (kv_has (abs s) k), t) \<and> inv t \<and> abs t = abs s"
    and iter: "inv s \<Longrightarrow> start \<noteq> Some [] \<Longrightarrow> e \<noteq> Some [] \<Longrightarrow>
      \<exists>t. ks_Iterator S start e s = (Ret (range_items True start e (somes (abs s))), t) \<and> inv t \<and> abs t = abs s"
    and riter: "inv s \<Longrightarrow> start \<noteq> Some [] \<Longrightarrow> e \<noteq> Some [] \<Longrightarrow>
      \<exists>t. ks_ReverseIterator S start e s = (Ret (range_items False start e (somes (abs s))), t) \<and> inv t \<and> abs t = abs s"

locale kv_layer = kv_reader +
  assumes put: "inv s \<Longrightarrow> k \<noteq> [] \<Longrightarrow> \<exists>t. ks_Set S k (Some v) s = (Ret (), t) \<and> inv t \<and> abs t = kv_set k v (abs s)"
    and delete: "inv s \<Longrightarrow> k \<noteq> [] \<Longrightarrow> \<exists>t. ks_Delete S k s = (Ret (), t) \<and> inv t \<and> abs t = kv_delete k (abs s)"

text \<open>a program of calls, on a store object and on the map itself\<close>

datatype 'v kv_call =
    CallGet string | CallHas string | CallSet string 'v | CallDelete string
  | CallIterator "string option" "string option" | CallReverseIterator "string option" "string option"

datatype 'v kv_answer = Value "'v option" | Truth bool | Done | Items "'v item list"

fun call_ok :: "'v kv_call \<Rightarrow> bool" where
  "call_ok (CallIterator start e) = (start \<noteq> Some [] \<and> e \<noteq> Some [])"
| "call_ok (CallReverseIterator start e) = (start \<noteq> Some [] \<and> e \<noteq> Some [])"
| "call_ok (CallGet k) = (k \<noteq> [])"
| "call_ok (CallHas k) = (k \<noteq> [])"
| "call_ok (CallSet k v) = (k \<noteq> [])"
| "call_ok (CallDelete k) = (k \<noteq> [])"

fun run_call :: "('p, 'v) KVStore_if \<Rightarrow> 'v kv_call \<Rightarrow> ('p, unit, 'v kv_answer) go" where
  "run_call S (CallGet k) = gbind (ks_Get S k) (\<lambda>v. gret (Value v))"
| "run_call S (CallHas k) = gbind (ks_Has S k) (\<lambda>b. gret (Truth b))"
| "run_call S (CallSet k v) = gbind (ks_Set S k (Some v)) (\<lambda>_. gret Done)"
| "run_call S (CallDelete k) = gbind (ks_Delete S k) (\<lambda>_. gret Done)"
| "run_call S (CallIterator start e) = gbind (ks_Iterator S start e) (\<lambda>xs. gret (Items xs))"
| "run_call S (CallReverseIterator start e) = gbind (ks_ReverseIterator S start e) (\<lambda>xs. gret (Items xs))"

fun kv_calls :: "('p, 'v) KVStore_if \<Rightarrow> 'v kv_call list \<Rightarrow> ('p, unit, 'v kv_answer list) go" where
  "kv_calls S [] = gret []"
| "kv_calls S (c # cs) = gbind (run_call S c) (\<lambda>a. gbind (kv_calls S cs) (\<lambda>as. gret (a # as)))"

fun map_call :: "'v kv_call \<Rightarrow> 'v kv \<Rightarrow> 'v kv_answer \<times> 'v kv" where
  "map_call (CallGet k) m = (Value (kv_get m k), m)"
| "map_call (CallHas k) m = (Truth (kv_has m k), m)"
| "map_call (CallSet k v) m = (Done, kv_set k v m)"
| "map_call (CallDelete k) m = (Done, kv_delete k m)"
| "map_call (CallIterator start e) m = (Items (range_items True start e (somes m)), m)"
| "map_call (CallReverseIterator start e) m = (Items (range_items False start e (somes m)), m)"

fun map_calls :: "'v kv_call list \<Rightarrow> 'v kv \<Rightarrow> 'v kv_answer list \<times> 'v kv" where
  "map_calls [] m = ([], m)"
| "map_calls (c # cs) m = (let (a, m1) = map_call c m; (as, m2) = map_calls cs m1 in (a # as, m2))"

context kv_layer
begin

lemma call_refines:
  assumes "inv s" "call_ok c"
  shows "\<exists>t. run_call S c s = (Ret (fst (map_call c (abs s))), t) \<and> inv t \<and> abs t = snd (map_call c (abs s))"
proof (cases c)
  case (CallGet k)
  then show ?thesis using get [OF assms(1), of k] assms(2) by (auto simp: gbind_def go_simps)
next
  case (CallHas k)
  then show ?thesis using has [OF assms(1), of k] assms(2) by (auto simp: gbind_def go_simps)
next
  case (CallSet k v)
  then show ?thesis using put [OF assms(1), of k v] assms(2) by (auto simp: gbind_def go_simps)
next
  case (CallDelete k)
  then show ?thesis using delete [OF assms(1), of k] assms(2) by (auto simp: gbind_def go_simps)
next
  case (CallIterator start e)
  then show ?thesis using iter [OF assms(1), of start e] assms(2) by (auto simp: gbind_def go_simps)
next
  case (CallReverseIterator start e)
  then show ?thesis using riter [OF assms(1), of start e] assms(2) by (auto simp: gbind_def go_simps)
qed

lemma calls_refine:
  "inv s \<Longrightarrow> \<forall>c \<in> set cs. call_ok c \<Longrightarrow>
    \<exists>t. kv_calls S cs s = (Ret (fst (map_calls cs (abs s))), t) \<and> inv t \<and> abs t = snd (map_calls cs (abs s))"
proof (induction cs arbitrary: s)
  case (Cons c cs)
  obtain t where t: "run_call S c s = (Ret (fst (map_call c (abs s))), t)" "inv t" "abs t = snd (map_call c (abs s))"
    using call_refines [OF Cons.prems(1)] Cons.prems(2) by auto
  obtain u where "kv_calls S cs t = (Ret (fst (map_calls cs (abs t))), u)" "inv u" "abs u = snd (map_calls cs (abs t))"
    using Cons.IH [OF t(2)] Cons.prems(2) by auto
  then show ?case using t by (simp add: gbind_eval go_simps Let_def case_prod_beta)
qed (simp add: go_simps)

text \<open>seen as a reader of one particular map\<close>

lemma frozen: "kv_reader S (\<lambda>s. inv s \<and> abs s = m) abs"
proof (unfold_locales, goal_cases)
  case (1 s)
  then show ?case using abs_inv [of s] by simp
next
  case (2 s k)
  then show ?case using get [of s k] by auto
next
  case (3 s k)
  then show ?case using has [of s k] by auto
next
  case (4 s start e)
  then show ?case using iter [of s start e] by auto
next
  case (5 s start e)
  then show ?case using riter [of s start e] by auto
qed

end

text \<open>the bottom of a stack of stores: the ordered map itself\<close>

definition base_store :: "('v kv, 'v) KVStore_if" where
  "base_store = \<lparr>ks_Get = (\<lambda>k. gget (\<lambda>s. kv_get s k)), ks_Has = (\<lambda>k. gget (\<lambda>s. kv_has s k)),
     ks_Set = (\<lambda>k v. gbind (AssertValidValue v) (\<lambda>_. gmod (kv_set k (the v)))), ks_Delete = (\<lambda>k. gmod (kv_delete k)),
     ks_Iterator = (\<lambda>start e. gget (\<lambda>s. range_items True start e (somes s))),
     ks_ReverseIterator = (\<lambda>start e. gget (\<lambda>s. range_items False start e (somes s)))\<rparr>"

interpretation base: kv_layer base_store kv_inv id
  by unfold_locales (simp_all add: base_store_def go_simps AssertValidValue_def)

subsection \<open>The map behind a cache\<close>

definition dirty_items :: "'v cValue kv \<Rightarrow> 'v item list" where
  "dirty_items cache = map (\<lambda>(k, cv). (k, cv_value cv)) (filter (\<lambda>(k, cv). cv_dirty cv) cache)"

definition is_dirty :: "'v cValue kv \<Rightarrow> string \<Rightarrow> bool" where
  "is_dirty cache k = (case kv_get cache k of None \<Rightarrow> False | Some cv \<Rightarrow> cv_dirty cv)"

definition cache_abs :: "('p \<Rightarrow> 'v kv) \<Rightarrow> ('p, 't, 'v) cStore \<Rightarrow> 'v kv" where
  "cache_abs pabs s = overlay (dirty_items (cs_cache s)) (pabs (cs_parent s))"

definition cache_inv :: "('t \<Rightarrow> 'v item list) \<Rightarrow> ('p \<Rightarrow> bool) \<Rightarrow> ('p \<Rightarrow> 'v kv) \<Rightarrow> ('p, 't, 'v) cStore \<Rightarrow> bool" where
  "cache_inv contents pinv pabs s \<longleftrightarrow>
     pinv (cs_parent s) \<and> kv_inv (cs_cache s) \<and> kv_inv (cs_unsortedCache s) \<and> kv_inv (contents (cs_sortedCache s)) \<and>
     (\<forall>k cv. kv_get (cs_cache s) k = Some cv \<longrightarrow> k \<noteq> [] \<and> (cv_dirty cv \<or> cv_value cv = kv_get (pabs (cs_parent s)) k)) \<and>
     (\<forall>k. kv_get (cs_unsortedCache s) k \<noteq> None \<longrightarrow> is_dirty (cs_cache s) k) \<and>
     (\<forall>k. kv_get (contents (cs_sortedCache s)) k \<noteq> None \<longrightarrow> is_dirty (cs_cache s) k) \<and>
     (\<forall>k cv. kv_get (cs_cache s) k = Some cv \<longrightarrow> cv_dirty cv \<longrightarrow> kv_get (cs_unsortedCache s) k = None \<longrightarrow>
        kv_get (contents (cs_sortedCache s)) k = Some (cv_value cv))"

lemma kv_ext:
  assumes "kv_inv a" "kv_inv b" "\<And>k. kv_get a k = kv_get b k"
  shows "a = b"
proof -
  have "set a = set b" using assms by (auto simp flip: kv_get_mem)
  then have "somes a = somes b"
    using assms(1,2) by (intro ordered_unique [of True]) (simp_all add: somes_def ordered_def kv_inv_def before_def [abs_def] o_def case_prod_beta)
  moreover have "inj (\<lambda>(k :: string, v :: 'a). (k, Some v))" by (auto simp: inj_on_def)
  ultimately show ?thesis by (simp add: somes_def inj_map_eq_map)
qed

lemma map_of_dirty_items:
  assumes "kv_inv cache"
  shows "map_of (dirty_items cache) k = (case kv_get cache k of None \<Rightarrow> None | Some cv \<Rightarrow> if cv_dirty cv then Some (cv_value cv) else None)"
  using assms
proof (induction cache)
  case (Cons x cache)
  then have "kv_get cache (fst x) = None" by (intro kv_get_less [of x]) simp_all
  with Cons show ?case by (cases x) (auto simp: dirty_items_def kv_get_def kv_inv_Cons)
qed (simp add: dirty_items_def kv_get_def)

lemma keys_dirty_items: "map fst (dirty_items cache) = map fst (filter (\<lambda>(k, cv). cv_dirty cv) cache)"
  by (simp add: dirty_items_def o_def case_prod_beta)

lemma kv_inv_dirty_items: "kv_inv cache \<Longrightarrow> kv_inv (dirty_items cache)"
  using kv_inv_filter [of cache "\<lambda>(k, cv). cv_dirty cv"] by (simp add: kv_inv_def keys_dirty_items)

lemma kv_get_cache_abs:
  assumes "kv_inv (cs_cache s)"
  shows "kv_get (cache_abs pabs s) k =
    (case kv_get (cs_cache s) k of None \<Rightarrow> kv_get (pabs (cs_parent s)) k
     | Some cv \<Rightarrow> if cv_dirty cv then cv_value cv else kv_get (pabs (cs_parent s)) k)"
  using kv_inv_distinct [OF kv_inv_dirty_items [OF assms]] map_of_dirty_items [OF assms]
  by (auto simp: cache_abs_def kv_get_overlay split: option.split)

subsection \<open>Which keys an iteration sorts in\<close>

lemma in_range_start: "in_range start e k \<longleftrightarrow> (case start of None \<Rightarrow> [] | Some s \<Rightarrow> s) \<le> k \<and> (case e of None \<Rightarrow> True | Some h \<Rightarrow> k < h)"
  by (auto simp: in_range_def split: option.splits)

lemma dirty_range_covers:
  assumes L: "sorted_wrt (<) L" and r: "dirty_range L (case start of None \<Rightarrow> [] | Some s \<Rightarrow> s) e = (a, b)"
  shows "0 \<le> a \<and> b < int (length L)"
    and "i < length L \<Longrightarrow> in_range start e (L ! i) \<Longrightarrow> a \<le> int i \<and> int i \<le> b"
proof -
  define q where "q = (case start of None \<Rightarrow> [] | Some s \<Rightarrow> s)"
  define a0 where "a0 = (if findStartIndex L q < 0 then 0 else findStartIndex L q)"
  define e0 where "e0 = (case e of None \<Rightarrow> int (length L) - 1 | Some h \<Rightarrow> findEndIndex L h)"
  define b0 where "b0 = (if e0 < 0 then int (length L) - 1 else e0)"
  have ab: "(a = a0 \<and> b = b0) \<or>
      (b0 - a0 < minSortSize \<and> b = min (a0 + minSortSize) (int (length L) - 1) \<and>
        (a = a0 \<or> b - a0 < minSortSize \<and> a = max (b - minSortSize) 0))"
    using r unfolding dirty_range_def Let_def q_def [symmetric] a0_def [symmetric] e0_def [symmetric] b0_def [symmetric]
    by (auto split: if_splits)
  have a0: "0 \<le> a0" "a0 \<le> int (below q L)"
    by (simp_all add: a0_def findStartIndex_below [OF L])
  have "e0 < int (length L)"
  proof (cases e)
    case (Some h)
    then show ?thesis using below_le [of h L] below_mem [OF L, of h] by (simp add: e0_def findEndIndex_below [OF L])
  qed (simp add: e0_def)
  then have b0: "b0 < int (length L)" by (simp add: b0_def)
  show "0 \<le> a \<and> b < int (length L)" using ab a0 b0 by auto
  show "a \<le> int i \<and> int i \<le> b" if i: "i < length L" "in_range start e (L ! i)"
  proof -
    have lo: "a0 \<le> int i" using i below_iff [OF L i(1), of q] a0 by (auto simp: in_range_start q_def)
    have hi: "int i \<le> b0"
    proof (cases e)
      case None
      then show ?thesis using i(1) by (auto simp: b0_def e0_def)
    next
      case (Some h)
      then have "i < below h L" using i below_iff [OF L i(1), of h] by (simp add: in_range_def)
      then show ?thesis by (simp add: b0_def e0_def Some findEndIndex_below [OF L])
    qed
    show ?thesis using ab lo hi a0 b0 i by (auto simp: minSortSize_def)
  qed
qed

lemma dirty_range_keys:
  assumes L: "sorted_wrt (<) L" and r: "dirty_range L (case start of None \<Rightarrow> [] | Some s \<Rightarrow> s) e = (a, b)"
    and ks: "ks = map (\<lambda>i. L ! nat i) [a..b]"
  shows "sorted_wrt (<) ks" "set ks \<subseteq> set L" "k \<in> set L \<Longrightarrow> in_range start e k \<Longrightarrow> k \<in> set ks"
proof -
  note cov = dirty_range_covers [OF L r]
  have "sorted_wrt (\<lambda>i j. L ! nat i < L ! nat j) [a..b]"
  proof (rule sorted_wrt_mono_rel [OF _ sorted_wrt_upto])
    fix i j
    assume "i \<in> set [a..b]" "j \<in> set [a..b]" "i < j"
    then have "nat i < nat j" "nat j < length L" using cov(1) by auto
    then show "L ! nat i < L ! nat j" by (rule sorted_wrt_nth_less [OF L])
  qed
  then show "sorted_wrt (<) ks" by (simp add: ks sorted_wrt_map)
  have "L ! nat i \<in> set L" if "i \<in> set [a..b]" for i
  proof (rule nth_mem)
    show "nat i < length L" using that cov(1) by auto
  qed
  then show "set ks \<subseteq> set L" unfolding ks set_map by (rule image_subsetI)
  assume k: "k \<in> set L" "in_range start e k"
  then obtain i where i: "i < length L" "L ! i = k" by (metis in_set_conv_nth)
  then have "int i \<in> set [a..b]" using cov(2) [of i] k(2) by simp
  then have "L ! nat (int i) \<in> set ks" unfolding ks set_map by (rule imageI)
  then show "k \<in> set ks" using i(2) by simp
qed

lemma cached_pairs_Some:
  "\<forall>k \<in> set ks. kv_get cache k \<noteq> None \<Longrightarrow>
    cached_pairs cache ks = Some (map (\<lambda>k. (k, cv_value (the (kv_get cache k)))) ks)"
  by (induction ks) (auto split: option.split)

lemma sort_keys: "kv_inv st \<Longrightarrow> sort (map fst st) = map fst st"
  unfolding kv_inv_def by (rule sorted_sort_id) (simp add: strict_sorted_iff)

text \<open>the keys that leave the unsorted set, and their arrival in the tree\<close>

lemma kv_get_fold_set: "distinct (map fst xs) \<Longrightarrow> kv_get (fold (\<lambda>x. kv_set (fst x) (snd x)) xs st) k =
    (case map_of xs k of None \<Rightarrow> kv_get st k | Some v \<Rightarrow> Some v)"
proof (induction xs arbitrary: st)
  case (Cons x xs)
  then have "k = fst x \<Longrightarrow> map_of xs k = None" by (auto simp: map_of_eq_None_iff)
  with Cons show ?case by (cases x) (auto simp: kv_simps split: option.splits)
qed simp

lemma kv_inv_fold_set: "kv_inv st \<Longrightarrow> kv_inv (fold (\<lambda>x. kv_set (fst x) (snd x)) xs st)"
  by (induction xs arbitrary: st) simp_all

lemma contents_fold_Set:
  assumes "btree_laws B contents cur"
  shows "kv_inv (contents t) \<Longrightarrow>
    contents (fold (\<lambda>x. BTree_Set B (fst x) (snd x)) xs t) = fold (\<lambda>x. kv_set (fst x) (snd x)) xs (contents t)"
proof (induction xs arbitrary: t)
  case (Cons x xs)
  have "contents (BTree_Set B (fst x) (snd x) t) = kv_set (fst x) (snd x) (contents t)"
    using assms Cons.prems by (cases x) (simp add: btree_laws_def BTree_Set_def)
  with Cons show ?case by simp
qed simp

lemma fold_kv_delete_keys: "fold (\<lambda>x. kv_delete (fst x)) xs st = filter (\<lambda>e. fst e \<notin> fst ` set xs) st"
proof -
  have "fold (\<lambda>x. kv_delete (fst x)) xs st = fold kv_delete (map fst xs) st"
    by (induction xs arbitrary: st) simp_all
  then show ?thesis by (simp add: fold_kv_delete)
qed

lemma kv_get_filter: "kv_get (filter (\<lambda>e. P (fst e)) st) k = (if P k then kv_get st k else None)"
  by (induction st) (auto simp: kv_get_def)

lemma sort_key_keys: "kv_inv xs \<Longrightarrow> sort_key fst xs = xs"
  by (rule sort_key_id_if_sorted) (simp add: kv_inv_def strict_sorted_iff)

lemma clearUnsorted_unsorted:
  assumes inv: "kv_inv (cs_unsortedCache s)" and us: "distinct (map fst us)" "fst ` set us \<subseteq> fst ` set (cs_unsortedCache s)"
  shows "cs_unsortedCache (clearUnsortedCacheSubset B us st s) = filter (\<lambda>e. fst e \<notin> fst ` set us) (cs_unsortedCache s)"
proof (cases "length us = length (cs_unsortedCache s)")
  case True
  then have "card (fst ` set us) = card (fst ` set (cs_unsortedCache s))"
    using us(1) kv_inv_distinct [OF inv] by (metis distinct_card image_set length_map)
  then have "fst ` set us = fst ` set (cs_unsortedCache s)" using us(2) by (intro card_subset_eq) simp_all
  then show ?thesis by (simp add: clearUnsortedCacheSubset_def Let_def True filter_empty_conv)
qed (simp add: clearUnsortedCacheSubset_def Let_def fold_kv_delete_keys)

lemma clearUnsorted_inv:
  assumes L: "btree_laws B contents cur" and inv: "cache_inv contents pinv pabs s" and us: "kv_inv us"
    and mem: "\<And>k v. (k, v) \<in> set us \<Longrightarrow> kv_get (cs_unsortedCache s) k \<noteq> None \<and> v = cv_value (the (kv_get (cs_cache s) k))"
    and t: "t = clearUnsortedCacheSubset B us st s"
  shows "cache_inv contents pinv pabs t" "cs_cache t = cs_cache s" "cs_parent t = cs_parent s"
    and "kv_get (cs_unsortedCache t) k = (if k \<in> fst ` set us then None else kv_get (cs_unsortedCache s) k)"
proof -
  have same: "cs_cache t = cs_cache s" "cs_parent t = cs_parent s"
    by (simp_all add: t clearUnsortedCacheSubset_def Let_def)
  then show "cs_cache t = cs_cache s" "cs_parent t = cs_parent s" .
  have sub: "fst ` set us \<subseteq> fst ` set (cs_unsortedCache s)"
    using mem by (force simp: kv_get_def map_of_eq_None_iff)
  have un: "cs_unsortedCache t = filter (\<lambda>e. fst e \<notin> fst ` set us) (cs_unsortedCache s)"
    using clearUnsorted_unsorted [OF _ kv_inv_distinct [OF us] sub] inv by (simp add: t cache_inv_def)
  show g: "kv_get (cs_unsortedCache t) k = (if k \<in> fst ` set us then None else kv_get (cs_unsortedCache s) k)" for k
    unfolding un kv_get_filter [of "\<lambda>k. k \<notin> fst ` set us"] by simp
  have c: "contents (cs_sortedCache t) = fold (\<lambda>x. kv_set (fst x) (snd x)) us (contents (cs_sortedCache s))"
    using contents_fold_Set [OF L, of "cs_sortedCache s" us] inv
    by (simp add: t clearUnsortedCacheSubset_def Let_def sort_key_keys [OF us] cache_inv_def)
  have gs: "kv_get (contents (cs_sortedCache t)) k =
      (if k \<in> fst ` set us then Some (cv_value (the (kv_get (cs_cache s) k))) else kv_get (contents (cs_sortedCache s)) k)" for k
  proof -
    have "map_of us k = (if k \<in> fst ` set us then Some (cv_value (the (kv_get (cs_cache s) k))) else None)"
      using mem kv_inv_distinct [OF us] by (force simp: map_of_eq_None_iff)
    then show ?thesis by (simp add: c kv_get_fold_set [OF kv_inv_distinct [OF us]])
  qed
  have "kv_inv (cs_unsortedCache t)" "kv_inv (contents (cs_sortedCache t))"
    using inv by (simp_all add: un c kv_inv_fold_set cache_inv_def)
  moreover have "is_dirty (cs_cache s) k" if "k \<in> fst ` set us" for k
    using that mem inv by (force simp: cache_inv_def)
  ultimately show "cache_inv contents pinv pabs t"
    using inv unfolding cache_inv_def same g gs by (simp split: if_splits)
qed

subsection \<open>A cache over a store fulfils the contract\<close>

locale cache_layer = kv_reader P pinv pabs for P :: "('p, 'v) KVStore_if" and pinv :: "'p \<Rightarrow> bool" and pabs :: "'p \<Rightarrow> 'v kv" +
  fixes B :: "('t, 'it, 'v) btree_lib" and contents :: "'t \<Rightarrow> 'v item list" and cur :: "'it \<Rightarrow> 'v item list \<times> nat"
    and IsKeyInDomain :: "string \<Rightarrow> string option \<Rightarrow> string option \<Rightarrow> bool"
  assumes laws: "btree_laws B contents cur" and dom: "IsKeyInDomain k start e = in_range start e k"
begin

lemma cache_abs_kv_inv: "cache_inv contents pinv pabs s \<Longrightarrow> kv_inv (cache_abs pabs s)"
  by (simp add: cache_inv_def cache_abs_def abs_inv)

lemma cache_new:
  assumes "pinv p"
  shows "cache_inv contents pinv pabs (cs_NewStore B p)" "cache_abs pabs (cs_NewStore B p) = pabs p"
proof -
  have "contents (NewBTree B) = []" using laws by (simp add: btree_laws_def NewBTree_def)
  then show "cache_inv contents pinv pabs (cs_NewStore B p)" "cache_abs pabs (cs_NewStore B p) = pabs p"
    using assms by (simp_all add: cache_inv_def cs_NewStore_def kv_get_def cache_abs_def dirty_items_def overlay_def)
qed

lemma get_cached:
  "cache_inv contents pinv pabs s \<Longrightarrow> kv_get (cs_cache s) k = Some cv \<Longrightarrow> kv_get (cache_abs pabs s) k = cv_value cv"
  using kv_get_cache_abs [of s pabs k] unfolding cache_inv_def by (auto split: if_splits) metis

text \<open>the three ways in which the state changes: a value read, a value written, the parent's own change\<close>

lemma cache_read:
  assumes "cache_inv contents pinv pabs s" "k \<noteq> []" "kv_get (cs_cache s) k = None" "v = kv_get (pabs (cs_parent s)) k"
  shows "cache_inv contents pinv pabs (setCacheValue k v False s) \<and> cache_abs pabs (setCacheValue k v False s) = cache_abs pabs s"
proof
  have nd: "\<not> is_dirty (cs_cache s) k" using assms(3) by (simp add: is_dirty_def)
  have "is_dirty (kv_set k \<lparr>cv_value = v, cv_dirty = False\<rparr> (cs_cache s)) j = is_dirty (cs_cache s) j" for j
    using assms(3) by (simp add: is_dirty_def kv_simps)
  then show inv: "cache_inv contents pinv pabs (setCacheValue k v False s)"
    using assms nd unfolding cache_inv_def by (simp add: setCacheValue_def kv_simps)
  have "kv_inv (cs_cache s)" using assms(1) by (simp add: cache_inv_def)
  then show "cache_abs pabs (setCacheValue k v False s) = cache_abs pabs s"
    using assms cache_abs_kv_inv [OF inv] cache_abs_kv_inv [OF assms(1)]
    by (intro kv_ext) (simp_all add: kv_get_cache_abs setCacheValue_def kv_simps split: option.split)
qed

lemma cache_write:
  assumes "cache_inv contents pinv pabs s" "k \<noteq> []"
  shows "cache_inv contents pinv pabs (setCacheValue k v True s) \<and> cache_abs pabs (setCacheValue k v True s) = write_item (k, v) (cache_abs pabs s)"
proof
  show inv: "cache_inv contents pinv pabs (setCacheValue k v True s)"
    using assms by (auto simp: cache_inv_def setCacheValue_def kv_simps is_dirty_def split: option.splits if_splits)
  have "kv_inv (cs_cache s)" using assms(1) by (simp add: cache_inv_def)
  then show "cache_abs pabs (setCacheValue k v True s) = write_item (k, v) (cache_abs pabs s)"
    using assms cache_abs_kv_inv [OF inv] cache_abs_kv_inv [OF assms(1)]
    by (intro kv_ext) (simp_all add: kv_get_cache_abs setCacheValue_def kv_simps split: option.split)
qed

lemma cache_parent:
  assumes "cache_inv contents pinv pabs s" "pinv p" "pabs p = pabs (cs_parent s)"
  shows "cache_inv contents pinv pabs (s\<lparr>cs_parent := p\<rparr>) \<and> cache_abs pabs (s\<lparr>cs_parent := p\<rparr>) = cache_abs pabs s"
  using assms by (simp add: cache_inv_def cache_abs_def)

lemma cs_Get_contract:
  assumes "cache_inv contents pinv pabs s" "k \<noteq> []"
  shows "\<exists>t. cs_Get P k s = (Ret (kv_get (cache_abs pabs s) k), t) \<and> cache_inv contents pinv pabs t \<and> cache_abs pabs t = cache_abs pabs s"
proof (cases "kv_get (cs_cache s) k")
  case None
  have "kv_inv (cs_cache s)" "pinv (cs_parent s)" using assms(1) by (simp_all add: cache_inv_def)
  then have v: "kv_get (cache_abs pabs s) k = kv_get (pabs (cs_parent s)) k" by (simp add: kv_get_cache_abs None)
  obtain p where p: "ks_Get P k (cs_parent s) = (Ret (kv_get (pabs (cs_parent s)) k), p)" "pinv p" "pabs p = pabs (cs_parent s)"
    using get [OF \<open>pinv (cs_parent s)\<close> assms(2)] by blast
  note q = cache_parent [OF assms(1) p(2,3)]
  then show ?thesis
    using cache_read [of "s\<lparr>cs_parent := p\<rparr>" k "kv_get (pabs (cs_parent s)) k"] assms(2) None p
    by (simp add: cs_Get_def AssertValidKey_def go_simps on_parent_def gbind_def v)
next
  case (Some cv)
  then show ?thesis using assms get_cached [OF assms(1) Some] by (simp add: cs_Get_def AssertValidKey_def go_simps)
qed

lemma cs_Has_contract:
  assumes "cache_inv contents pinv pabs s" "k \<noteq> []"
  shows "\<exists>t. cs_Has P k s = (Ret (kv_has (cache_abs pabs s) k), t) \<and> cache_inv contents pinv pabs t \<and> cache_abs pabs t = cache_abs pabs s"
  using cs_Get_contract [OF assms] by (auto simp: cs_Has_def gbind_def go_simps kv_has_def)

lemma cs_Set_contract:
  assumes "cache_inv contents pinv pabs s" "k \<noteq> []"
  shows "\<exists>t. cs_Set k (Some v) s = (Ret (), t) \<and> cache_inv contents pinv pabs t \<and> cache_abs pabs t = kv_set k v (cache_abs pabs s)"
  using cache_write [OF assms, of "Some v"] assms(2) by (simp add: cs_Set_def AssertValidKey_def AssertValidValue_def go_simps write_item_def)

lemma cs_Delete_contract:
  assumes "cache_inv contents pinv pabs s" "k \<noteq> []"
  shows "\<exists>t. cs_Delete k s = (Ret (), t) \<and> cache_inv contents pinv pabs t \<and> cache_abs pabs t = kv_delete k (cache_abs pabs s)"
  using cache_write [OF assms, of None] assms(2) by (simp add: cs_Delete_def AssertValidKey_def go_simps write_item_def)

text \<open>sorting in a part of the unsorted keys that contains those of a range\<close>

lemma sort_in:
  assumes inv: "cache_inv contents pinv pabs s" and ks: "sorted_wrt (<) ks" "set ks \<subseteq> set (map fst (cs_unsortedCache s))"
    and all: "\<And>k. in_range start e k \<Longrightarrow> k \<in> set (map fst (cs_unsortedCache s)) \<Longrightarrow> k \<in> set ks"
  shows "\<exists>us. cached_pairs (cs_cache s) ks = Some us \<and> (let t = clearUnsortedCacheSubset B us st s in
      cache_inv contents pinv pabs t \<and> cs_cache t = cs_cache s \<and> cs_parent t = cs_parent s \<and>
      (\<forall>k. in_range start e k \<longrightarrow> kv_get (cs_unsortedCache t) k = None))"
proof -
  let ?pair = "\<lambda>k. (k, cv_value (the (kv_get (cs_cache s) k)))"
  have keys: "k \<in> set (map fst (cs_unsortedCache s)) \<longleftrightarrow> kv_get (cs_unsortedCache s) k \<noteq> None" for k
    by (simp add: kv_get_def map_of_eq_None_iff)
  have "kv_inv (map ?pair ks)" using ks(1) by (simp add: kv_inv_def o_def)
  note c = clearUnsorted_inv [OF laws inv this _ refl, of st]
  have m: "kv_get (cs_unsortedCache s) k \<noteq> None \<and> v = cv_value (the (kv_get (cs_cache s) k))" if "(k, v) \<in> set (map ?pair ks)" for k v
  proof -
    have "k \<in> set ks" "v = cv_value (the (kv_get (cs_cache s) k))" using that by auto
    then show ?thesis using ks(2) keys by blast
  qed
  have "kv_get (cs_cache s) k \<noteq> None" if "k \<in> set ks" for k
  proof -
    have "kv_get (cs_unsortedCache s) k \<noteq> None" using that ks(2) keys by blast
    then have "is_dirty (cs_cache s) k" using inv by (simp add: cache_inv_def)
    then show ?thesis by (auto simp: is_dirty_def split: option.splits)
  qed
  then have "cached_pairs (cs_cache s) ks = Some (map ?pair ks)" by (simp add: cached_pairs_Some)
  moreover have "in_range start e k \<Longrightarrow> k \<notin> set ks \<Longrightarrow> kv_get (cs_unsortedCache s) k = None" for k
    using all keys by blast
  ultimately show ?thesis using c [OF m] by (auto simp: image_image Let_def)
qed

text \<open>after sorting in, every written key of the range is in the tree\<close>

lemma dirtyItems_contract:
  assumes inv: "cache_inv contents pinv pabs s"
  shows "\<exists>t. dirtyItems B IsKeyInDomain start e s = (Ret (), t) \<and> cache_inv contents pinv pabs t \<and>
    cs_cache t = cs_cache s \<and> cs_parent t = cs_parent s \<and> (\<forall>k. in_range start e k \<longrightarrow> kv_get (cs_unsortedCache t) k = None)"
proof -
  let ?start = "case start of None \<Rightarrow> [] | Some s \<Rightarrow> s" and ?L = "map fst (cs_unsortedCache s)"
  let ?empty = "case e of None \<Rightarrow> False | Some h \<Rightarrow> h < ?start"
  have un: "kv_inv (cs_unsortedCache s)" using inv by (simp add: cache_inv_def)
  then have sorted: "sorted_wrt (<) ?L" by (simp add: kv_inv_def)
  consider ?empty | "\<not> ?empty" "int (length (cs_unsortedCache s)) < minSortSize"
    | "\<not> ?empty" "\<not> int (length (cs_unsortedCache s)) < minSortSize" by blast
  then show ?thesis
  proof cases
    case 1
    then have "\<not> in_range start e k" for k by (auto simp: in_range_start split: option.splits)
    then show ?thesis using 1 inv by (auto simp: dirtyItems_def go_simps)
  next
    case 2
    let ?ks = "filter (\<lambda>k. in_range start e k) ?L"
    obtain us where us: "cached_pairs (cs_cache s) ?ks = Some us" "let t = clearUnsortedCacheSubset B us stateUnsorted s in
      cache_inv contents pinv pabs t \<and> cs_cache t = cs_cache s \<and> cs_parent t = cs_parent s \<and>
      (\<forall>k. in_range start e k \<longrightarrow> kv_get (cs_unsortedCache t) k = None)"
      using sort_in [OF inv sorted_wrt_filter [OF sorted] filter_is_subset, of start e "\<lambda>k. in_range start e k" stateUnsorted]
      by (metis (mono_tags, lifting) filter_set mem_Collect_eq set_filter)
    then show ?thesis using 2 by (simp add: dirtyItems_def Let_def dom go_simps gopt_panic_def)
  next
    case 3
    obtain a b where r: "dirty_range ?L ?start e = (a, b)" by fastforce
    note ks = dirty_range_keys [OF sorted r refl]
    obtain us where us: "cached_pairs (cs_cache s) (map (\<lambda>i. ?L ! nat i) [a..b]) = Some us"
      "let t = clearUnsortedCacheSubset B us stateAlreadySorted s in
      cache_inv contents pinv pabs t \<and> cs_cache t = cs_cache s \<and> cs_parent t = cs_parent s \<and>
      (\<forall>k. in_range start e k \<longrightarrow> kv_get (cs_unsortedCache t) k = None)"
      using sort_in [OF inv ks(1,2) ks(3), of start e stateAlreadySorted] by blast
    then show ?thesis using 3 by (simp add: dirtyItems_def Let_def dom go_simps gopt_panic_def sort_keys [OF un] r)
  qed
qed

lemma cs_iterator_contract:
  assumes inv: "cache_inv contents pinv pabs s" and se: "start \<noteq> Some []" "e \<noteq> Some []"
  shows "\<exists>t. cs_iterator B IsKeyInDomain P start e asc s = (Ret (range_items asc start e (somes (cache_abs pabs s))), t) \<and>
    cache_inv contents pinv pabs t \<and> cache_abs pabs t = cache_abs pabs s"
proof -
  obtain t where t: "dirtyItems B IsKeyInDomain start e s = (Ret (), t)" "cache_inv contents pinv pabs t"
    "cs_cache t = cs_cache s" "cs_parent t = cs_parent s" "\<And>k. in_range start e k \<Longrightarrow> kv_get (cs_unsortedCache t) k = None"
    using dirtyItems_contract [OF inv] by blast
  have I: "pinv (cs_parent t)" "kv_inv (cs_cache t)" "kv_inv (contents (cs_sortedCache t))"
    using t(2) by (simp_all add: cache_inv_def)
  obtain p where p: "(if asc then ks_Iterator P start e else ks_ReverseIterator P start e) (cs_parent t)
      = (Ret (range_items asc start e (somes (pabs (cs_parent t)))), p)" "pinv p" "pabs p = pabs (cs_parent t)"
    using iter [OF I(1) se] riter [OF I(1) se] by (cases asc) auto
  let ?d = "dirty_items (cs_cache t)"
  have d: "map_of ?d k = Some v \<longleftrightarrow> kv_get (contents (cs_sortedCache t)) k = Some v" if "in_range start e k" for k v
  proof -
    have "is_dirty (cs_cache t) k" if "kv_get (contents (cs_sortedCache t)) k \<noteq> None"
      using t(2) that by (simp add: cache_inv_def)
    moreover have "kv_get (contents (cs_sortedCache t)) k = Some (cv_value cv)" if "kv_get (cs_cache t) k = Some cv" "cv_dirty cv" for cv
      using t(2) t(5) [OF \<open>in_range start e k\<close>] that by (simp add: cache_inv_def)
    ultimately show ?thesis by (auto simp: map_of_dirty_items [OF I(2)] is_dirty_def split: option.splits)
  qed
  have "merge asc (range_items asc start e (somes (pabs (cs_parent t)))) (range_items asc start e (contents (cs_sortedCache t)))
      = range_items asc start e (somes (overlay ?d (pabs (cs_parent t))))"
    using d by (intro merge_overlay [OF abs_inv [OF I(1)] I(3)])
      (simp_all add: kv_inv_distinct [OF kv_inv_dirty_items [OF I(2)]] kv_get_mem [OF I(3)])
  moreover have "cache_abs pabs t = cache_abs pabs s" using t(3,4) by (simp add: cache_abs_def)
  ultimately show ?thesis
    using t(1) p se cache_parent [OF t(2) p(2,3)] newMemIterator_range [OF laws I(3), of start e asc]
    by (cases asc) (simp_all add: cs_iterator_def go_simps gbind_eval(1) on_parent_def gopt_panic_def
      BTree_Iterator_def BTree_ReverseIterator_def NewCacheMergeIterator_merge cache_abs_def gbind_def)
qed

end

sublocale cache_layer \<subseteq> cache: kv_layer "cachekv B IsKeyInDomain P" "cache_inv contents pinv pabs" "cache_abs pabs"
proof unfold_locales
  fix s :: "('p, 't, 'v) cStore" and k :: string and v :: 'v and start e :: "string option"
  assume inv: "cache_inv contents pinv pabs s"
  then show "kv_inv (cache_abs pabs s)" by (rule cache_abs_kv_inv)
  {
    assume "k \<noteq> []"
    note c = inv this
    show "\<exists>t. ks_Get (cachekv B IsKeyInDomain P) k s = (Ret (kv_get (cache_abs pabs s) k), t) \<and> cache_inv contents pinv pabs t \<and> cache_abs pabs t = cache_abs pabs s"
      using cs_Get_contract [OF c] by (simp add: cachekv_def)
    show "\<exists>t. ks_Has (cachekv B IsKeyInDomain P) k s = (Ret (kv_has (cache_abs pabs s) k), t) \<and> cache_inv contents pinv pabs t \<and> cache_abs pabs t = cache_abs pabs s"
      using cs_Has_contract [OF c] by (simp add: cachekv_def)
    show "\<exists>t. ks_Set (cachekv B IsKeyInDomain P) k (Some v) s = (Ret (), t) \<and> cache_inv contents pinv pabs t \<and> cache_abs pabs t = kv_set k v (cache_abs pabs s)"
      using cs_Set_contract [OF c] by (simp add: cachekv_def)
    show "\<exists>t. ks_Delete (cachekv B IsKeyInDomain P) k s = (Ret (), t) \<and> cache_inv contents pinv pabs t \<and> cache_abs pabs t = kv_delete k (cache_abs pabs s)"
      using cs_Delete_contract [OF c] by (simp add: cachekv_def)
  }
  {
    assume "start \<noteq> Some []" "e \<noteq> Some []"
    note c = inv this
    show "\<exists>t. ks_Iterator (cachekv B IsKeyInDomain P) start e s = (Ret (range_items True start e (somes (cache_abs pabs s))), t) \<and>
        cache_inv contents pinv pabs t \<and> cache_abs pabs t = cache_abs pabs s"
      using cs_iterator_contract [OF c] by (simp add: cachekv_def)
    show "\<exists>t. ks_ReverseIterator (cachekv B IsKeyInDomain P) start e s = (Ret (range_items False start e (somes (cache_abs pabs s))), t) \<and>
        cache_inv contents pinv pabs t \<and> cache_abs pabs t = cache_abs pabs s"
      using cs_iterator_contract [OF c] by (simp add: cachekv_def)
  }
qed

context cache_layer
begin

lemma fresh_calls:
  assumes "pinv p" "\<forall>c \<in> set cs. call_ok c"
  shows "\<exists>t. kv_calls (cachekv B IsKeyInDomain P) cs (cs_NewStore B p) = (Ret (fst (map_calls cs (pabs p))), t) \<and>
    cache_inv contents pinv pabs t \<and> cache_abs pabs t = snd (map_calls cs (pabs p))"
  using cache.calls_refine [OF cache_new(1) [OF assms(1)] assms(2)] by (simp add: cache_new(2) [OF assms(1)])

end

locale write_layer = cache_layer P pinv pabs B contents cur IsKeyInDomain + kv_layer P pinv pabs
  for P :: "('p, 'v) KVStore_if" and pinv :: "'p \<Rightarrow> bool" and pabs :: "'p \<Rightarrow> 'v kv"
    and B :: "('t, 'it, 'v) btree_lib" and contents :: "'t \<Rightarrow> 'v item list" and cur :: "'it \<Rightarrow> 'v item list \<times> nat"
    and IsKeyInDomain :: "string \<Rightarrow> string option \<Rightarrow> string option \<Rightarrow> bool"
begin

text \<open>writing back: the parent's map becomes the map behind the cache, and nothing is left in the cache\<close>

lemma write_keys:
  assumes "cache_inv contents pinv pabs s" "xs = map (\<lambda>k. (k, cv_value (the (kv_get (cs_cache s) k)))) ks"
    and "\<forall>k \<in> set ks. kv_get (cs_cache s) k \<noteq> None" "pinv p"
  shows "\<exists>q. gfor ks (write_key P) (s\<lparr>cs_parent := p\<rparr>) = (Ret (), s\<lparr>cs_parent := q\<rparr>) \<and> pinv q \<and> pabs q = overlay xs (pabs p)"
  using assms(2-)
proof (induction ks arbitrary: p xs)
  case Nil
  then show ?case by (auto simp: go_simps overlay_def)
next
  case (Cons k ks)
  then obtain cv where cv: "kv_get (cs_cache s) k = Some cv" by auto
  then have k: "k \<noteq> []" using assms(1) by (auto simp: cache_inv_def)
  obtain p1 where p1: "write_key P k (s\<lparr>cs_parent := p\<rparr>) = (Ret (), s\<lparr>cs_parent := p1\<rparr>)" "pinv p1" "pabs p1 = write_item (k, cv_value cv) (pabs p)"
    using put [OF Cons.prems(3) k] delete [OF Cons.prems(3) k] cv
    by (cases "cv_value cv") (force simp: write_key_def go_simps on_parent_def write_item_def)+
  obtain q where "gfor ks (write_key P) (s\<lparr>cs_parent := p1\<rparr>) = (Ret (), s\<lparr>cs_parent := q\<rparr>)" "pinv q"
      "pabs q = overlay (map (\<lambda>k. (k, cv_value (the (kv_get (cs_cache s) k)))) ks) (pabs p1)"
    using Cons.IH [OF refl _ p1(2)] Cons.prems(2) by auto
  then show ?case using p1 cv Cons.prems(1) by (auto simp: gbind_eval overlay_def)
qed

lemma dirty_items_pairs:
  assumes "kv_inv cache"
  shows "dirty_items cache = map (\<lambda>k. (k, cv_value (the (kv_get cache k)))) (dirty_keys cache)"
proof -
  have "dirty_keys cache = map fst (filter (\<lambda>(k, cv). cv_dirty cv) cache)"
    using sort_keys [OF kv_inv_filter [OF assms]] by (simp add: dirty_keys_def)
  moreover have "kv_get cache k = Some cv" if "(k, cv) \<in> set cache" for k cv using that kv_get_mem [OF assms] by simp
  ultimately show ?thesis by (auto simp: dirty_items_def case_prod_beta)
qed

lemma cs_Write_contract:
  assumes inv: "cache_inv contents pinv pabs s"
  shows "\<exists>q. cs_Write B P s = (Ret (), cs_NewStore B q) \<and> pinv q \<and> pabs q = cache_abs pabs s \<and>
    cache_inv contents pinv pabs (cs_NewStore B q) \<and> cache_abs pabs (cs_NewStore B q) = cache_abs pabs s"
proof -
  have I: "kv_inv (cs_cache s)" "pinv (cs_parent s)" using inv by (simp_all add: cache_inv_def)
  have mem: "\<forall>k \<in> set (dirty_keys (cs_cache s)). kv_get (cs_cache s) k \<noteq> None"
    using set_filter by (auto simp: dirty_keys_def kv_get_def map_of_eq_None_iff intro: rev_image_eqI)
  obtain q where q: "gfor (dirty_keys (cs_cache s)) (write_key P) s = (Ret (), s\<lparr>cs_parent := q\<rparr>)" "pinv q" "pabs q = cache_abs pabs s"
    using write_keys [OF inv dirty_items_pairs [OF I(1)] mem I(2)] by (auto simp: cache_abs_def)
  show ?thesis
  proof (cases "cs_cache s = [] \<and> cs_unsortedCache s = []")
    case True
    then have "cs_Write B P s = (Ret (), cs_NewStore B (cs_parent s))" by (simp add: cs_Write_def cs_NewStore_def)
    moreover have "pabs (cs_parent s) = cache_abs pabs s" using True by (simp add: cache_abs_def dirty_items_def overlay_def)
    ultimately show ?thesis using I(2) cache_new by auto
  next
    case False
    then have "cs_Write B P s = (Ret (), cs_NewStore B q)" using q(1) by (auto simp: cs_Write_def gbind_eval go_simps cs_NewStore_def)
    then show ?thesis using q cache_new by auto
  qed
qed

end

subsection \<open>A transaction in a cache\<close>

text \<open>
  C27. A program of calls that runs in a fresh cache gets the answers it would get from the
  parent's map, leaves that map alone while it runs, and has exactly its effect when the cache
  is written: whatever store the parent is, caches included.
\<close>

theorem cache_transaction:
  assumes P: "kv_layer P pinv pabs" and B: "btree_laws B contents cur"
    and dom: "\<And>k start e. IsKeyInDomain k start e = in_range start e k"
    and p: "pinv p" and cs: "\<forall>c \<in> set cs. call_ok c"
  shows "\<exists>t q. kv_calls (cachekv B IsKeyInDomain P) cs (cs_NewStore B p) = (Ret (fst (map_calls cs (pabs p))), t) \<and>
    pabs (cs_parent t) = pabs p \<and>
    cs_Write B P t = (Ret (), cs_NewStore B q) \<and> pinv q \<and> pabs q = snd (map_calls cs (pabs p))"
proof -
  let ?pinv = "\<lambda>s. pinv s \<and> pabs s = pabs p"
  have "cache_layer P ?pinv pabs B contents cur IsKeyInDomain"
    using kv_layer.frozen [OF P] B dom by (simp add: cache_layer_def cache_layer_axioms_def)
  then obtain t where t: "kv_calls (cachekv B IsKeyInDomain P) cs (cs_NewStore B p) = (Ret (fst (map_calls cs (pabs p))), t)"
      "cache_inv contents ?pinv pabs t" "cache_abs pabs t = snd (map_calls cs (pabs p))"
    using cache_layer.fresh_calls [OF _ _ cs, of P ?pinv pabs B contents cur IsKeyInDomain p] p by auto
  have iso: "pabs (cs_parent t) = pabs p" using t(2) by (simp add: cache_inv_def)
  have inv: "cache_inv contents pinv pabs t" using t(2) unfolding cache_inv_def by blast
  have "write_layer P pinv pabs B contents cur IsKeyInDomain"
    using P B dom by (simp add: write_layer_def cache_layer_def cache_layer_axioms_def kv_layer_def)
  from write_layer.cs_Write_contract [OF this inv] show ?thesis using t iso by auto
qed

text \<open>
  The store of a block is a cache over the committed store, the store of a transaction a
  cache over that one.
\<close>

interpretation block_cache: write_layer base_store kv_inv id list_btree id id "\<lambda>k start e. in_range start e k"
  by unfold_locales (simp_all add: list_btree_laws)

interpretation tx_cache: write_layer "cachekv list_btree (\<lambda>k start e. in_range start e k) base_store"
  "cache_inv id kv_inv id" "cache_abs id" list_btree id id "\<lambda>k start e. in_range start e k"
  by unfold_locales (simp_all add: list_btree_laws)

definition block_example :: "(nat kv, nat item list, nat) cStore" where
  "block_example = setCacheValue ''e'' (Some 5) True (cs_NewStore list_btree [(''c'', 3), (''d'', 4)])"

lemma block_example_inv:
  "cache_inv id kv_inv id block_example" "cache_abs id block_example = [(''c'', 3), (''d'', 4), (''e'', 5)]"
proof -
  have "kv_inv [(''c'', 3 :: nat), (''d'', 4)]" by (simp add: kv_inv_def)
  from block_cache.cache_write [OF block_cache.cache_new(1) [OF this], of "''e''" "Some 5"] block_cache.cache_new(2) [OF this]
  show "cache_inv id kv_inv id block_example" "cache_abs id block_example = [(''c'', 3), (''d'', 4), (''e'', 5)]"
    by (simp_all add: block_example_def write_item_def)
qed

theorem cache_transaction_witness:
  "\<exists>t q. kv_calls (cachekv list_btree (\<lambda>k start e. in_range start e k) (cachekv list_btree (\<lambda>k start e. in_range start e k) base_store))
      [CallSet ''b'' 1, CallDelete ''c'', CallSet ''d'' 7, CallIterator (Some ''b'') None, CallReverseIterator None (Some ''e''), CallHas ''c'']
      (cs_NewStore list_btree block_example)
    = (Ret [Done, Done, Done, Items [(''b'', Some 1), (''d'', Some 7), (''e'', Some 5)], Items [(''d'', Some 7), (''b'', Some 1)], Truth False], t) \<and>
    cache_abs id (cs_parent t) = [(''c'', 3), (''d'', 4), (''e'', 5)] \<and>
    cs_Write list_btree (cachekv list_btree (\<lambda>k start e. in_range start e k) base_store) t = (Ret (), cs_NewStore list_btree q) \<and>
    cache_abs id q = [(''b'', 1), (''d'', 7), (''e'', 5)]"
  using cache_transaction [OF block_cache.cache.kv_layer_axioms list_btree_laws refl block_example_inv(1),
      of "[CallSet ''b'' 1, CallDelete ''c'', CallSet ''d'' 7, CallIterator (Some ''b'') None, CallReverseIterator None (Some ''e''), CallHas ''c'']"]
  by (auto simp: block_example_inv(2) kv_delete_def range_items_def in_range_def somes_def kv_has_def kv_get_def)

end
