(* ===== verification/PrefixStore.thy ===== *)
theory PrefixStore
  imports CacheKV
begin

section \<open>Stores behind a prefix\<close>

text \<open>
  \<open>cosmos-sdk/store/prefix/store.go\<close>: the view of a store that a keeper gets when it works
  below a key prefix. Every key is prepended with the prefix on the way to the parent
  and stripped on the way back, and an iteration is an iteration of the parent between the
  prefixed ends. The store is a layer in the sense of \<open>CacheKV\<close>, for the part of the map
  that has the prefix; what it writes is invisible through another prefix.
\<close>

subsection \<open>The store\<close>

definition ps_key :: "string \<Rightarrow> string \<Rightarrow> string" where
  "ps_key pre key = pre @ key"

definition ps_Get :: "('p, 'v) KVStore_if \<Rightarrow> string \<Rightarrow> string \<Rightarrow> ('p, unit, 'v option) go" where
  "ps_Get P pre key = ks_Get P (ps_key pre key)"

definition ps_Has :: "('p, 'v) KVStore_if \<Rightarrow> string \<Rightarrow> string \<Rightarrow> ('p, unit, bool) go" where
  "ps_Has P pre key = ks_Has P (ps_key pre key)"

definition ps_Set :: "('p, 'v) KVStore_if \<Rightarrow> string \<Rightarrow> string \<Rightarrow> 'v option \<Rightarrow> ('p, unit, unit) go" where
  "ps_Set P pre key value =
     gbind (AssertValidKey key) (\<lambda>_. gbind (AssertValidValue value) (\<lambda>_. ks_Set P (ps_key pre key) value))"

definition ps_Delete :: "('p, 'v) KVStore_if \<Rightarrow> string \<Rightarrow> string \<Rightarrow> ('p, unit, unit) go" where
  "ps_Delete P pre key = ks_Delete P (ps_key pre key)"

subsection \<open>Its iterator\<close>

record 'v prefixIterator =
  pi_prefix :: string
  pi_iter :: "'v item list"
  pi_valid :: bool

definition newPrefixIterator :: "string \<Rightarrow> 'v item list \<Rightarrow> 'v prefixIterator" where
  "newPrefixIterator pre parent =
     \<lparr>pi_prefix = pre, pi_iter = parent, pi_valid = (parent \<noteq> [] \<and> prefix pre (fst (hd parent)))\<rparr>"

definition pi_Valid :: "'v prefixIterator \<Rightarrow> bool" where
  "pi_Valid pi = (pi_valid pi \<and> pi_iter pi \<noteq> [])"

text \<open>\<open>None\<close> is a panic\<close>

definition pi_Next :: "'v prefixIterator \<Rightarrow> 'v prefixIterator option" where
  "pi_Next pi =
     (if \<not> pi_valid pi then None
      else let iter = tl (pi_iter pi) in
        Some (if iter = [] \<or> \<not> prefix (pi_prefix pi) (fst (hd iter)) then pi\<lparr>pi_iter := iter, pi_valid := False\<rparr>
              else pi\<lparr>pi_iter := iter\<rparr>))"

definition stripPrefix :: "string \<Rightarrow> string \<Rightarrow> string option" where
  "stripPrefix key pre =
     (if length key < length pre \<or> take (length pre) key \<noteq> pre then None else Some (drop (length pre) key))"

definition pi_Key :: "'v prefixIterator \<Rightarrow> string option" where
  "pi_Key pi = (if \<not> pi_valid pi then None else stripPrefix (fst (hd (pi_iter pi))) (pi_prefix pi))"

definition pi_Value :: "'v prefixIterator \<Rightarrow> 'v option option" where
  "pi_Value pi = (if \<not> pi_valid pi then None else Some (snd (hd (pi_iter pi))))"

definition pi_step :: "'v prefixIterator \<Rightarrow> ('v item \<times> 'v prefixIterator) option" where
  "pi_step pi =
     (if pi_Valid pi
      then (case (pi_Key pi, pi_Value pi, pi_Next pi) of (Some k, Some v, Some pi') \<Rightarrow> Some ((k, v), pi') | _ \<Rightarrow> None)
      else None)"

definition pi_items :: "'v prefixIterator \<Rightarrow> 'v item list" where
  "pi_items pi = drain pi_step (length (pi_iter pi)) pi"

definition ps_ends :: "string \<Rightarrow> string option \<Rightarrow> string option \<Rightarrow> string option \<times> string option" where
  "ps_ends pre start e =
     (Some (pre @ (case start of None \<Rightarrow> [] | Some s \<Rightarrow> s)),
      (case e of None \<Rightarrow> PrefixEndBytes pre | Some h \<Rightarrow> Some (pre @ h)))"

definition ps_Iterator :: "('p, 'v) KVStore_if \<Rightarrow> string \<Rightarrow> string option \<Rightarrow> string option \<Rightarrow> ('p, unit, 'v item list) go" where
  "ps_Iterator P pre start e =
     (let (newstart, newend) = ps_ends pre start e in
      gbind (ks_Iterator P newstart newend) (\<lambda>iter. gret (pi_items (newPrefixIterator pre iter))))"

definition ps_ReverseIterator :: "('p, 'v) KVStore_if \<Rightarrow> string \<Rightarrow> string option \<Rightarrow> string option \<Rightarrow> ('p, unit, 'v item list) go" where
  "ps_ReverseIterator P pre start e =
     (let (newstart, newend) = ps_ends pre start e in
      gbind (ks_ReverseIterator P newstart newend) (\<lambda>iter. gret (pi_items (newPrefixIterator pre iter))))"

definition prefix_store :: "('p, 'v) KVStore_if \<Rightarrow> string \<Rightarrow> ('p, 'v) KVStore_if" where
  "prefix_store P pre = \<lparr>ks_Get = ps_Get P pre, ks_Has = ps_Has P pre, ks_Set = ps_Set P pre, ks_Delete = ps_Delete P pre,
     ks_Iterator = ps_Iterator P pre, ks_ReverseIterator = ps_ReverseIterator P pre\<rparr>"

subsection \<open>The part of a map below a prefix\<close>

definition strip :: "string \<Rightarrow> string \<times> 'a \<Rightarrow> string \<times> 'a" where
  "strip pre x = (drop (length pre) (fst x), snd x)"

definition submap :: "string \<Rightarrow> 'v kv \<Rightarrow> 'v kv" where
  "submap pre m = map (strip pre) (filter (\<lambda>x. prefix pre (fst x)) m)"

lemma append_less_iff: "pre @ a < pre @ (b :: string) \<longleftrightarrow> a < b"
  by (induction pre) simp_all

lemma append_le_iff: "pre @ a \<le> pre @ (b :: string) \<longleftrightarrow> a \<le> b"
  by (induction pre) simp_all

lemma between_prefix: "pre @ a \<le> k \<Longrightarrow> k < pre @ (b :: string) \<Longrightarrow> prefix pre k"
proof (induction pre arbitrary: k)
  case (Cons c pre)
  then show ?case by (cases k) auto
qed simp

lemma kv_get_submap: "kv_get (submap pre m) k = kv_get m (pre @ k)"
  by (induction m) (auto simp: submap_def kv_get_def strip_def prefix_def dest: sym)

lemma kv_inv_submap: "kv_inv m \<Longrightarrow> kv_inv (submap pre m)"
proof (induction m)
  case (Cons x m)
  have "drop (length pre) (fst x) < drop (length pre) (fst y)"
    if "fst x < fst y" "prefix pre (fst x)" "prefix pre (fst y)" for y :: "string \<times> 'a"
    using that by (auto simp: prefix_def append_less_iff)
  with Cons show ?case by (auto simp: submap_def kv_inv_Cons strip_def)
qed (simp add: submap_def)

lemma submap_set: "kv_inv m \<Longrightarrow> submap pre (kv_set (pre @ k) v m) = kv_set k v (submap pre m)"
  by (rule kv_ext) (simp_all add: kv_inv_submap kv_get_submap kv_simps)

lemma submap_delete: "kv_inv m \<Longrightarrow> submap pre (kv_delete (pre @ k) m) = kv_delete k (submap pre m)"
  by (rule kv_ext) (simp_all add: kv_inv_submap kv_get_submap kv_simps)

lemma somes_submap: "somes (submap pre m) = map (strip pre) (filter (\<lambda>x. prefix pre (fst x)) (somes m))"
  by (simp add: somes_def submap_def strip_def filter_map o_def case_prod_beta)

lemma in_range_ends:
  "in_range (fst (ps_ends pre start e)) (snd (ps_ends pre start e)) k \<longleftrightarrow>
    prefix pre k \<and> in_range start e (drop (length pre) k)"
proof -
  have le: "pre \<le> pre @ s" for s by (induction pre) simp_all
  have None: "prefix pre k" if "pre @ s \<le> k" "e = None" "in_range (Some (pre @ s)) (PrefixEndBytes pre) k" for s
    using that le [of s] prefix_range [of pre k] by (auto simp: in_range_def split: option.splits)
  have Some: "prefix pre k" if "in_range (Some (pre @ s)) (Some (pre @ h)) k" for s h
    using that between_prefix by (auto simp: in_range_def)
  have upper: "in_range None (PrefixEndBytes pre) (pre @ r)" for r
    using prefix_range [of pre "pre @ r"] by (auto simp: in_range_def split: option.splits)
  show ?thesis
  proof (cases "prefix pre k")
    case True
    then obtain r where "k = pre @ r" by (auto simp: prefix_def)
    then show ?thesis using upper [of r]
      by (auto simp: ps_ends_def in_range_def append_less_iff append_le_iff split: option.splits)
  next
    case False
    let ?s = "case start of None \<Rightarrow> [] | Some s \<Rightarrow> s"
    from False show ?thesis using None [of ?s] Some [of ?s] by (cases e) (auto simp: ps_ends_def in_range_def)
  qed
qed

lemma range_items_submap:
  "range_items asc start e (somes (submap pre m)) =
    map (strip pre) (range_items asc (fst (ps_ends pre start e)) (snd (ps_ends pre start e)) (somes m))"
  by (simp add: range_items_def Let_def somes_submap filter_map o_def in_range_ends strip_def rev_map conj_commute)

text \<open>the strip of an iteration whose keys all have the prefix, from any point of it\<close>

lemma pi_items_strip:
  assumes "\<forall>x \<in> set xs. prefix pre (fst x)"
  shows "pi_items (newPrefixIterator pre xs) = map (strip pre) xs"
proof -
  have "drain pi_step (length ys) \<lparr>pi_prefix = pre, pi_iter = ys, pi_valid = (ys \<noteq> [])\<rparr> = map (strip pre) ys"
    if "\<forall>x \<in> set ys. prefix pre (fst x)" for ys :: "'a item list"
    using that
  proof (induction ys)
    case (Cons y ys)
    then have "stripPrefix (fst y) pre = Some (drop (length pre) (fst y))" by (auto simp: stripPrefix_def prefix_def)
    moreover have "ys \<noteq> [] \<Longrightarrow> prefix pre (fst (hd ys))" using Cons.prems by (cases ys) auto
    ultimately have "pi_step \<lparr>pi_prefix = pre, pi_iter = y # ys, pi_valid = True\<rparr>
        = Some (strip pre y, \<lparr>pi_prefix = pre, pi_iter = ys, pi_valid = (ys \<noteq> [])\<rparr>)"
      by (auto simp: pi_step_def pi_Valid_def pi_Key_def pi_Value_def pi_Next_def strip_def)
    with Cons show ?case by simp
  qed simp
  moreover have "xs \<noteq> [] \<Longrightarrow> prefix pre (fst (hd xs))" using assms by (cases xs) auto
  then have "newPrefixIterator pre xs = \<lparr>pi_prefix = pre, pi_iter = xs, pi_valid = (xs \<noteq> [])\<rparr>"
    by (auto simp: newPrefixIterator_def)
  ultimately show ?thesis using assms by (simp add: pi_items_def)
qed

lemma prefix_end_loop_nonempty: "prefix_end_loop r = Some h \<Longrightarrow> h \<noteq> []"
  by (induction r) (auto split: if_splits)

subsection \<open>The contract, for the part below the prefix\<close>

locale prefix_layer = kv_layer P pinv pabs for P :: "('p, 'v) KVStore_if" and pinv :: "'p \<Rightarrow> bool" and pabs :: "'p \<Rightarrow> 'v kv" +
  fixes pre :: string
  assumes pre: "pre \<noteq> []"
begin

lemma ends_ok: "e \<noteq> Some [] \<Longrightarrow> fst (ps_ends pre start e) \<noteq> Some [] \<and> snd (ps_ends pre start e) \<noteq> Some []"
  using pre prefix_end_loop_nonempty [of "rev pre"] by (auto simp: ps_ends_def PrefixEndBytes_def split: option.split)

lemma range_prefixed:
  "\<forall>x \<in> set (range_items asc (fst (ps_ends pre start e)) (snd (ps_ends pre start e)) xs). prefix pre (fst x)"
  by (auto simp: set_range_items in_range_ends)

lemma ps_iter_contract:
  assumes "pinv s" "e \<noteq> Some []"
  shows "\<exists>t. ps_Iterator P pre start e s = (Ret (range_items True start e (somes (submap pre (pabs s)))), t) \<and> pinv t \<and> pabs t = pabs s"
    and "\<exists>t. ps_ReverseIterator P pre start e s = (Ret (range_items False start e (somes (submap pre (pabs s)))), t) \<and> pinv t \<and> pabs t = pabs s"
  using iter [OF assms(1), of "fst (ps_ends pre start e)" "snd (ps_ends pre start e)"]
    riter [OF assms(1), of "fst (ps_ends pre start e)" "snd (ps_ends pre start e)"] ends_ok [OF assms(2), of start]
  by (auto simp: ps_Iterator_def ps_ReverseIterator_def case_prod_beta gbind_def go_simps pi_items_strip [OF range_prefixed] range_items_submap)

text \<open>the store keeps whatever writes below the prefix keep of the parent's map\<close>

lemma framed:
  assumes Q: "\<And>m k v. kv_inv m \<Longrightarrow> Q m \<Longrightarrow> Q (kv_set (pre @ k) v m)" "\<And>m k. kv_inv m \<Longrightarrow> Q m \<Longrightarrow> Q (kv_delete (pre @ k) m)"
  shows "kv_layer (prefix_store P pre) (\<lambda>s. pinv s \<and> Q (pabs s)) (\<lambda>s. submap pre (pabs s))"
proof (unfold_locales, goal_cases)
  case (1 s)
  then show ?case by (simp add: kv_inv_submap abs_inv)
next
  case (2 s k)
  then show ?case using get [of s "pre @ k"] by (auto simp: prefix_store_def ps_Get_def ps_key_def kv_get_submap)
next
  case (3 s k)
  then show ?case using has [of s "pre @ k"] by (auto simp: prefix_store_def ps_Has_def ps_key_def kv_has_def kv_get_submap)
next
  case (4 s start e)
  then show ?case using ps_iter_contract(1) [of s e start] by (auto simp: prefix_store_def)
next
  case (5 s start e)
  then show ?case using ps_iter_contract(2) [of s e start] by (auto simp: prefix_store_def)
next
  case (6 s k v)
  then show ?case using put [of s "pre @ k" v] Q(1) [OF abs_inv]
    by (auto simp: prefix_store_def ps_Set_def ps_key_def AssertValidKey_def AssertValidValue_def go_simps submap_set abs_inv)
next
  case (7 s k)
  then show ?case using delete [of s "pre @ k"] Q(2) [OF abs_inv]
    by (auto simp: prefix_store_def ps_Delete_def ps_key_def submap_delete abs_inv)
qed

end

sublocale prefix_layer \<subseteq> sub: kv_layer "prefix_store P pre" pinv "\<lambda>s. submap pre (pabs s)"
  using framed [of "\<lambda>_. True"] by simp

subsection \<open>Two prefixes do not interfere\<close>

lemma incomparable_append: "\<not> prefix pre q \<Longrightarrow> \<not> prefix q pre \<Longrightarrow> q @ b \<noteq> pre @ a"
  by (metis prefix_def prefix_same_cases)

text \<open>two maps that agree outside a prefix look the same through every prefix incomparable to it\<close>

lemma submap_other:
  assumes "kv_inv m" "kv_inv m'" "\<not> prefix pre q" "\<not> prefix q pre" "\<And>k. \<not> prefix pre k \<Longrightarrow> kv_get m' k = kv_get m k"
  shows "submap q m' = submap q m"
proof -
  have "\<not> prefix pre (q @ k)" for k using incomparable_append [OF assms(3,4)] by (metis prefixE)
  then show ?thesis using assms by (auto intro!: kv_ext simp: kv_inv_submap kv_get_submap)
qed

text \<open>
  C28. A program of calls through a prefix acts as on a map of its own; every key that does not
  start with the prefix keeps its value, and so what is seen through a prefix incomparable
  to it does not change.
\<close>

theorem prefix_isolation:
  assumes P: "kv_layer P pinv pabs" and pre: "pre \<noteq> []" and p: "pinv p" and cs: "\<forall>c \<in> set cs. call_ok c"
  shows "\<exists>t. kv_calls (prefix_store P pre) cs p = (Ret (fst (map_calls cs (submap pre (pabs p)))), t) \<and> pinv t \<and>
    submap pre (pabs t) = snd (map_calls cs (submap pre (pabs p))) \<and>
    (\<forall>k. \<not> prefix pre k \<longrightarrow> kv_get (pabs t) k = kv_get (pabs p) k) \<and>
    (\<forall>other. \<not> prefix pre other \<and> \<not> prefix other pre \<longrightarrow> submap other (pabs t) = submap other (pabs p))"
proof -
  let ?Q = "\<lambda>m. \<forall>k. \<not> prefix pre k \<longrightarrow> kv_get m k = kv_get (pabs p) k"
  have "prefix_layer P pinv pabs pre" using P pre by (simp add: prefix_layer_def prefix_layer_axioms_def)
  from prefix_layer.framed [OF this, of ?Q]
  have "kv_layer (prefix_store P pre) (\<lambda>s. pinv s \<and> ?Q (pabs s)) (\<lambda>s. submap pre (pabs s))"
    by (auto simp: kv_simps)
  from kv_layer.calls_refine [OF this, of p cs] p cs
  obtain t where t: "kv_calls (prefix_store P pre) cs p = (Ret (fst (map_calls cs (submap pre (pabs p)))), t)" "pinv t"
    "submap pre (pabs t) = snd (map_calls cs (submap pre (pabs p)))" "?Q (pabs t)" by auto
  have "submap other (pabs t) = submap other (pabs p)" if "\<not> prefix pre other" "\<not> prefix other pre" for other
    using submap_other [OF _ _ that, of "pabs p" "pabs t"] kv_reader.abs_inv [OF kv_layer.axioms(1) [OF P]] p t(2,4) by auto
  with t show ?thesis by blast
qed

interpretation balances: prefix_layer base_store kv_inv id "''balances/''"
  by unfold_locales simp

theorem prefix_isolation_witness:
  "\<exists>t. kv_calls (prefix_store base_store ''balances/'') [CallSet ''bob'' 4, CallIterator None None] [(''balance'', 7), (''balances/al'', 1), (''supply/u'', 1)]
      = (Ret [Done, Items [(''al'', Some 1), (''bob'', Some (4 :: nat))]], t) \<and> kv_inv t \<and>
    submap ''balances/'' t = [(''al'', 1), (''bob'', 4)] \<and> submap ''supply/'' t = [(''u'', 1)] \<and> kv_get t ''balance'' = Some 7"
proof -
  let ?m = "[(''balance'', 7), (''balances/al'', 1 :: nat), (''supply/u'', 1)]"
  have "kv_inv ?m" by (simp add: kv_inv_def)
  from prefix_isolation [where P = base_store and pinv = kv_inv and pabs = id and pre = "''balances/''" and p = ?m
      and cs = "[CallSet ''bob'' 4, CallIterator None None]", OF base.kv_layer_axioms _ this]
  obtain t where t: "kv_calls (prefix_store base_store ''balances/'') [CallSet ''bob'' 4, CallIterator None None] ?m
      = (Ret (fst (map_calls [CallSet ''bob'' 4, CallIterator None None] (submap ''balances/'' ?m))), t)" "kv_inv t"
    "submap ''balances/'' t = snd (map_calls [CallSet ''bob'' 4, CallIterator None None] (submap ''balances/'' ?m))"
    "\<forall>k. \<not> prefix ''balances/'' k \<longrightarrow> kv_get t k = kv_get ?m k" "submap ''supply/'' t = submap ''supply/'' ?m" by auto
  have "kv_get t ''balance'' = Some 7" using t(4) by (simp add: kv_get_def)
  with t(1-3,5) show ?thesis by (simp add: submap_def strip_def range_items_def in_range_def somes_def)
qed

end
