(* ===== verification/WorkerPool.thy ===== *)
theory WorkerPool
  imports Confidential "HOL-Library.Multiset"
begin

section \<open>The pool of evaluation workers\<close>

text \<open>
  \<open>x/privacy/tfhe/worker_pool.go\<close> and the engine calls that use it: \<open>Submit\<close> sends a job on a
  channel that buffers 256 jobs and waits on a result channel of its own; workers take
  jobs, run them and send the error back, while the closure stores the ciphertext in a
  variable of the caller. Clients are goroutines that make engine calls in turn. Every
  interleaving of the channel operations of clients and workers is a run of the step relation
  \<open>pool_step\<close>; \<open>InitWorkerPool\<close> may happen at any point, and calls before it run directly.

  The start of the workers is one step, because the pool is published only after
  all of them have reported. The Rust functions behind the engine set the server key of their
  thread themselves, so they are functions of their arguments. \<open>mul\<close> is
  the function \<open>tfhe_mul_scalar_u32\<close>.
\<close>

subsection \<open>Engine calls\<close>

type_synonym mul_ffi = "string \<Rightarrow> string \<Rightarrow> 32 word \<Rightarrow> string option"

datatype tfhe_op = OpAdd string string string | OpSub string string string | OpMul string string "32 word"

definition addUint32Direct :: "env \<Rightarrow> string \<Rightarrow> string \<Rightarrow> string \<Rightarrow> err + string" where
  "addUint32Direct E serverKey ct1 ct2 = ffi_result ''tfhe: homomorphic add failed'' (ffi_add_u32 E serverKey ct1 ct2)"

definition subUint32Direct :: "env \<Rightarrow> string \<Rightarrow> string \<Rightarrow> string \<Rightarrow> err + string" where
  "subUint32Direct E serverKey ct1 ct2 = ffi_result ''tfhe: homomorphic sub failed'' (ffi_sub_u32 E serverKey ct1 ct2)"

definition multiplyScalarDirect :: "mul_ffi \<Rightarrow> string \<Rightarrow> string \<Rightarrow> 32 word \<Rightarrow> err + string" where
  "multiplyScalarDirect mul serverKey ct scalar = ffi_result ''tfhe: scalar multiply failed'' (mul serverKey ct scalar)"

fun op_direct :: "env \<Rightarrow> mul_ffi \<Rightarrow> tfhe_op \<Rightarrow> err + string" where
  "op_direct E mul (OpAdd serverKey ct1 ct2) = addUint32Direct E serverKey ct1 ct2"
| "op_direct E mul (OpSub serverKey ct1 ct2) = subUint32Direct E serverKey ct1 ct2"
| "op_direct E mul (OpMul serverKey ct scalar) = multiplyScalarDirect mul serverKey ct scalar"

text \<open>the checks at the head of \<open>AddUint32\<close>, \<open>SubUint32\<close> and \<open>MultiplyScalarUint32\<close>\<close>

fun op_check :: "tfhe_op \<Rightarrow> err option" where
  "op_check (OpAdd serverKey ct1 ct2) =
     (if serverKey = [] then Some (Errorf ''tfhe: server key is empty'')
      else if ct1 = [] \<or> ct2 = [] then Some (Errorf ''tfhe: ciphertext inputs must not be empty'') else None)"
| "op_check (OpSub serverKey ct1 ct2) =
     (if serverKey = [] then Some (Errorf ''tfhe: server key is empty'')
      else if ct1 = [] \<or> ct2 = [] then Some (Errorf ''tfhe: ciphertext inputs must not be empty'') else None)"
| "op_check (OpMul serverKey ct scalar) =
     (if serverKey = [] then Some (Errorf ''tfhe: server key is empty'')
      else if ct = [] then Some (Errorf ''tfhe: ciphertext must not be empty'') else None)"

text \<open>what a call gives when nothing else happens\<close>

definition op_call :: "env \<Rightarrow> mul_ffi \<Rightarrow> tfhe_op \<Rightarrow> err + string" where
  "op_call E mul oper = (case op_check oper of Some e \<Rightarrow> Inl e | None \<Rightarrow> op_direct E mul oper)"

subsection \<open>The pool\<close>

definition DefaultWorkerQueueDepth :: nat where
  "DefaultWorkerQueueDepth = 256"

text \<open>a job: the closure, which is the operation and the frame it writes to, and the result channel of that frame\<close>

record tfheJob =
  tj_client :: nat
  tj_op :: tfhe_op

datatype worker = Ready | Running tfheJob | Sending_result nat "err option"

record TFHEWorkerPool =
  wp_jobs :: "tfheJob list"
  wp_size :: int
  wp_workers :: "worker list"

definition pool_size :: "int \<Rightarrow> int \<Rightarrow> int" where
  "pool_size numCPU sz = (if sz \<le> 0 then (if numCPU - 2 < 1 then 1 else numCPU - 2) else sz)"

text \<open>the argument and the second result are the global pool; \<open>sync.Once\<close> has fired when it is there\<close>

definition InitWorkerPool :: "int \<Rightarrow> string \<Rightarrow> int \<Rightarrow> TFHEWorkerPool option \<Rightarrow> (err + TFHEWorkerPool option) \<times> TFHEWorkerPool option" where
  "InitWorkerPool numCPU serverKey sz globalPool =
     (if serverKey = [] then (Inl (Errorf ''tfhe: InitWorkerPool requires a non-empty server key''), globalPool)
      else let pool = (case globalPool of
             Some p \<Rightarrow> Some p
           | None \<Rightarrow> let n = pool_size numCPU sz
                     in Some \<lparr>wp_jobs = [], wp_size = n, wp_workers = replicate (nat n) Ready\<rparr>)
        in (Inr pool, pool))"

definition PoolSize :: "TFHEWorkerPool option \<Rightarrow> int" where
  "PoolSize globalPool = (case globalPool of None \<Rightarrow> 0 | Some p \<Rightarrow> wp_size p)"

subsection \<open>Clients and steps\<close>

datatype client_pc = Idle | Submitting | Receiving

record client =
  cl_todo :: "tfhe_op list"
  cl_pc :: client_pc
  cl_result :: string
  cl_chan :: "err option option"
  cl_returned :: "(err + string) list"

record system =
  sy_pool :: "TFHEWorkerPool option"
  sy_clients :: "client list"

definition new_client :: "tfhe_op list \<Rightarrow> client" where
  "new_client ops = \<lparr>cl_todo = ops, cl_pc = Idle, cl_result = [], cl_chan = None, cl_returned = []\<rparr>"

definition returns :: "err + string \<Rightarrow> client \<Rightarrow> client" where
  "returns r c = c\<lparr>cl_todo := tl (cl_todo c), cl_pc := Idle, cl_chan := None, cl_returned := cl_returned c @ [r]\<rparr>"

text \<open>entering an engine call: checks, direct execution without a pool, otherwise \<open>Submit\<close>\<close>

definition begin_call :: "env \<Rightarrow> mul_ffi \<Rightarrow> TFHEWorkerPool option \<Rightarrow> client \<Rightarrow> client" where
  "begin_call E mul globalPool c =
     (case op_check (hd (cl_todo c)) of
        Some e \<Rightarrow> returns (Inl e) c
      | None \<Rightarrow> (case globalPool of
          None \<Rightarrow> returns (op_direct E mul (hd (cl_todo c))) c
        | Some _ \<Rightarrow> c\<lparr>cl_pc := Submitting, cl_result := [], cl_chan := None\<rparr>))"

text \<open>the closure: it sets \<open>result\<close> in the caller's frame and returns \<open>opErr\<close>\<close>

definition run_job :: "env \<Rightarrow> mul_ffi \<Rightarrow> tfheJob \<Rightarrow> client \<Rightarrow> err option \<times> client" where
  "run_job E mul job c = (case op_direct E mul (tj_op job) of
     Inl e \<Rightarrow> (Some e, c\<lparr>cl_result := []\<rparr>)
   | Inr ct \<Rightarrow> (None, c\<lparr>cl_result := ct\<rparr>))"

inductive pool_step :: "env \<Rightarrow> mul_ffi \<Rightarrow> int \<Rightarrow> system \<Rightarrow> system \<Rightarrow> bool" for E mul numCPU where
  start: "sy_pool s = None \<Longrightarrow> InitWorkerPool numCPU serverKey sz None = (Inr (Some p), Some p) \<Longrightarrow>
    pool_step E mul numCPU s (s\<lparr>sy_pool := Some p\<rparr>)"
| enter: "i < length (sy_clients s) \<Longrightarrow> sy_clients s ! i = c \<Longrightarrow> cl_pc c = Idle \<Longrightarrow> cl_todo c \<noteq> [] \<Longrightarrow>
    pool_step E mul numCPU s (s\<lparr>sy_clients := (sy_clients s)[i := begin_call E mul (sy_pool s) c]\<rparr>)"
| send: "i < length (sy_clients s) \<Longrightarrow> sy_clients s ! i = c \<Longrightarrow> cl_pc c = Submitting \<Longrightarrow> sy_pool s = Some p \<Longrightarrow>
    length (wp_jobs p) < DefaultWorkerQueueDepth \<Longrightarrow>
    pool_step E mul numCPU s (s\<lparr>sy_pool := Some (p\<lparr>wp_jobs := wp_jobs p @ [\<lparr>tj_client = i, tj_op = hd (cl_todo c)\<rparr>]\<rparr>),
      sy_clients := (sy_clients s)[i := c\<lparr>cl_pc := Receiving\<rparr>]\<rparr>)"
| take: "sy_pool s = Some p \<Longrightarrow> w < length (wp_workers p) \<Longrightarrow> wp_workers p ! w = Ready \<Longrightarrow> wp_jobs p = job # jobs \<Longrightarrow>
    pool_step E mul numCPU s (s\<lparr>sy_pool := Some (p\<lparr>wp_jobs := jobs, wp_workers := (wp_workers p)[w := Running job]\<rparr>)\<rparr>)"
| run: "sy_pool s = Some p \<Longrightarrow> w < length (wp_workers p) \<Longrightarrow> wp_workers p ! w = Running job \<Longrightarrow> tj_client job < length (sy_clients s) \<Longrightarrow>
    run_job E mul job (sy_clients s ! tj_client job) = (e, c) \<Longrightarrow>
    pool_step E mul numCPU s (s\<lparr>sy_pool := Some (p\<lparr>wp_workers := (wp_workers p)[w := Sending_result (tj_client job) e]\<rparr>),
      sy_clients := (sy_clients s)[tj_client job := c]\<rparr>)"
| deliver: "sy_pool s = Some p \<Longrightarrow> w < length (wp_workers p) \<Longrightarrow> wp_workers p ! w = Sending_result i e \<Longrightarrow> i < length (sy_clients s) \<Longrightarrow>
    sy_clients s ! i = c \<Longrightarrow> cl_chan c = None \<Longrightarrow>
    pool_step E mul numCPU s (s\<lparr>sy_pool := Some (p\<lparr>wp_workers := (wp_workers p)[w := Ready]\<rparr>),
      sy_clients := (sy_clients s)[i := c\<lparr>cl_chan := Some e\<rparr>]\<rparr>)"
| receive: "i < length (sy_clients s) \<Longrightarrow> sy_clients s ! i = c \<Longrightarrow> cl_pc c = Receiving \<Longrightarrow> cl_chan c = Some e \<Longrightarrow>
    pool_step E mul numCPU s (s\<lparr>sy_clients := (sy_clients s)[i := returns (case e of Some x \<Rightarrow> Inl x | None \<Rightarrow> Inr (cl_result c)) c]\<rparr>)"

definition start_system :: "tfhe_op list list \<Rightarrow> system" where
  "start_system opss = \<lparr>sy_pool = None, sy_clients = map new_client opss\<rparr>"

subsection \<open>Who holds which job\<close>

fun job_clients :: "worker \<Rightarrow> nat list" where
  "job_clients Ready = []"
| "job_clients (Running job) = [tj_client job]"
| "job_clients (Sending_result i e) = [i]"

definition outstanding :: "TFHEWorkerPool \<Rightarrow> nat multiset" where
  "outstanding p = mset (map tj_client (wp_jobs p)) + mset (concat (map job_clients (wp_workers p)))"

definition waiting :: "client \<Rightarrow> bool" where
  "waiting c \<longleftrightarrow> cl_pc c = Receiving \<and> cl_chan c = None"

definition outcome_of :: "env \<Rightarrow> mul_ffi \<Rightarrow> client \<Rightarrow> err option \<Rightarrow> bool" where
  "outcome_of E mul c e \<longleftrightarrow> op_direct E mul (hd (cl_todo c)) = (case e of Some x \<Rightarrow> Inl x | None \<Rightarrow> Inr (cl_result c))"

definition client_ok :: "env \<Rightarrow> mul_ffi \<Rightarrow> tfhe_op list \<Rightarrow> client \<Rightarrow> bool" where
  "client_ok E mul ops c \<longleftrightarrow>
     cl_returned c @ map (op_call E mul) (cl_todo c) = map (op_call E mul) ops \<and>
     (cl_pc c \<noteq> Idle \<longrightarrow> cl_todo c \<noteq> [] \<and> op_check (hd (cl_todo c)) = None) \<and>
     (\<forall>e. cl_chan c = Some e \<longrightarrow> cl_pc c = Receiving \<and> outcome_of E mul c e)"

definition job_ok :: "client list \<Rightarrow> tfheJob \<Rightarrow> bool" where
  "job_ok cs job \<longleftrightarrow> tj_op job = hd (cl_todo (cs ! tj_client job))"

fun worker_ok :: "env \<Rightarrow> mul_ffi \<Rightarrow> client list \<Rightarrow> worker \<Rightarrow> bool" where
  "worker_ok E mul cs Ready = True"
| "worker_ok E mul cs (Running job) = job_ok cs job"
| "worker_ok E mul cs (Sending_result i e) = outcome_of E mul (cs ! i) e"

definition jobs_ok :: "env \<Rightarrow> mul_ffi \<Rightarrow> client list \<Rightarrow> TFHEWorkerPool \<Rightarrow> bool" where
  "jobs_ok E mul cs p \<longleftrightarrow>
     wp_workers p \<noteq> [] \<and> int (length (wp_workers p)) = wp_size p \<and> length (wp_jobs p) \<le> DefaultWorkerQueueDepth \<and>
     (\<forall>i. count (outstanding p) i = (if i < length cs \<and> waiting (cs ! i) then 1 else 0)) \<and>
     (\<forall>job \<in> set (wp_jobs p). job_ok cs job) \<and> (\<forall>w < length (wp_workers p). worker_ok E mul cs (wp_workers p ! w))"

definition pool_inv :: "env \<Rightarrow> mul_ffi \<Rightarrow> tfhe_op list list \<Rightarrow> system \<Rightarrow> bool" where
  "pool_inv E mul opss s \<longleftrightarrow>
     length (sy_clients s) = length opss \<and> (\<forall>i < length opss. client_ok E mul (opss ! i) (sy_clients s ! i)) \<and>
     (case sy_pool s of None \<Rightarrow> \<forall>c \<in> set (sy_clients s). cl_pc c = Idle | Some p \<Rightarrow> jobs_ok E mul (sy_clients s) p)"

lemma mset_concat_update:
  "w < length ws \<Longrightarrow> mset (concat (map f (ws[w := x]))) + mset (f (ws ! w)) = mset (concat (map f ws)) + mset (f x)"
proof (induction ws arbitrary: w)
  case (Cons y ws)
  then show ?case by (cases w) (auto simp: ac_simps)
qed simp

lemma outstanding_worker:
  assumes "w < length (wp_workers p)"
  shows "outstanding (p\<lparr>wp_workers := (wp_workers p)[w := x]\<rparr>) + mset (job_clients (wp_workers p ! w)) = outstanding p + mset (job_clients x)"
  using mset_concat_update [OF assms, of job_clients x] by (simp add: outstanding_def add.assoc)

lemma not_outstanding:
  assumes "count (outstanding p) i = 0"
  shows "job \<in> set (wp_jobs p) \<Longrightarrow> tj_client job \<noteq> i" "w < length (wp_workers p) \<Longrightarrow> i \<notin> set (job_clients (wp_workers p ! w))"
  using assms by (auto simp: outstanding_def count_eq_zero_iff)

lemma outstanding_busy: "w < length (wp_workers p) \<Longrightarrow> i \<in> set (job_clients (wp_workers p ! w)) \<Longrightarrow> 0 < count (outstanding p) i"
  by (auto simp: outstanding_def intro: nth_mem)

text \<open>a change of a client that nobody works for disturbs nobody\<close>

lemma job_ok_other: "job_ok cs job \<Longrightarrow> tj_client job \<noteq> i \<Longrightarrow> job_ok (cs[i := c]) job"
  by (simp add: job_ok_def)

lemma worker_ok_other: "worker_ok E mul cs w \<Longrightarrow> i \<notin> set (job_clients w) \<Longrightarrow> worker_ok E mul (cs[i := c]) w"
  by (cases w) (auto simp: job_ok_other)

lemma jobs_ok_count: "jobs_ok E mul cs p \<Longrightarrow> count (outstanding p) i = (if i < length cs \<and> waiting (cs ! i) then 1 else 0)"
  by (simp add: jobs_ok_def)

lemma jobs_ok_client:
  assumes "jobs_ok E mul cs p" "i < length cs" "\<not> waiting (cs ! i)" "\<not> waiting c"
  shows "jobs_ok E mul (cs[i := c]) p"
proof -
  have z: "count (outstanding p) i = 0" using assms(1,3) by (simp add: jobs_ok_def)
  have "count (outstanding p) j = (if j < length (cs[i := c]) \<and> waiting (cs[i := c] ! j) then 1 else 0)" for j
    using assms by (cases "j = i") (simp_all add: jobs_ok_def)
  then show ?thesis
    using assms(1) not_outstanding [OF z] job_ok_other worker_ok_other unfolding jobs_ok_def by (metis (no_types, lifting))
qed

lemma returns_ok:
  assumes "client_ok E mul ops c" "cl_todo c \<noteq> []" "r = op_call E mul (hd (cl_todo c))"
  shows "client_ok E mul ops (returns r c)"
  using assms by (cases "cl_todo c") (auto simp: client_ok_def returns_def)

subsection \<open>The invariant\<close>

lemma begin_call_ok:
  assumes "client_ok E mul ops c" "cl_pc c = Idle" "cl_todo c \<noteq> []"
  shows "client_ok E mul ops (begin_call E mul g c)" "\<not> waiting (begin_call E mul g c)"
    and "g = None \<Longrightarrow> cl_pc (begin_call E mul g c) = Idle"
  using assms returns_ok [OF assms(1,3)]
  by (auto simp: begin_call_def op_call_def waiting_def returns_def client_ok_def split: option.splits)

lemma inv_client:
  assumes inv: "pool_inv E mul opss s" and i: "i < length (sy_clients s)" and ok: "client_ok E mul (opss ! i) c"
    and p: "case sy_pool t of None \<Rightarrow> \<forall>c \<in> set (sy_clients t). cl_pc c = Idle | Some p \<Rightarrow> jobs_ok E mul (sy_clients t) p"
    and t: "sy_clients t = (sy_clients s)[i := c]"
  shows "pool_inv E mul opss t"
  using assms by (auto simp: pool_inv_def nth_list_update)

lemma step_client:
  assumes inv: "pool_inv E mul opss s" and i: "i < length (sy_clients s)" and ok: "client_ok E mul (opss ! i) c"
    and w: "\<not> waiting (sy_clients s ! i)" "\<not> waiting c" and idle: "sy_pool s = None \<Longrightarrow> cl_pc c = Idle"
  shows "pool_inv E mul opss (s\<lparr>sy_clients := (sy_clients s)[i := c]\<rparr>)"
proof (rule inv_client [OF inv i ok])
  show "case sy_pool (s\<lparr>sy_clients := (sy_clients s)[i := c]\<rparr>) of
      None \<Rightarrow> \<forall>c \<in> set (sy_clients (s\<lparr>sy_clients := (sy_clients s)[i := c]\<rparr>)). cl_pc c = Idle
    | Some p \<Rightarrow> jobs_ok E mul (sy_clients (s\<lparr>sy_clients := (sy_clients s)[i := c]\<rparr>)) p"
    using inv i w idle jobs_ok_client [OF _ i w] set_update_subset_insert [of "sy_clients s" i c]
    by (auto simp: pool_inv_def split: option.splits)
qed simp

text \<open>the channel operations, one lemma each\<close>

lemma jobs_ok_send:
  assumes J: "jobs_ok E mul cs p" and i: "i < length cs" "cl_pc (cs ! i) = Submitting" "cl_chan (cs ! i) = None"
    and len: "length (wp_jobs p) < DefaultWorkerQueueDepth"
  shows "jobs_ok E mul (cs[i := (cs ! i)\<lparr>cl_pc := Receiving\<rparr>])
    (p\<lparr>wp_jobs := wp_jobs p @ [\<lparr>tj_client = i, tj_op = hd (cl_todo (cs ! i))\<rparr>]\<rparr>)"
proof -
  have z: "count (outstanding p) i = 0" using J i by (simp add: jobs_ok_def waiting_def)
  have "outstanding (p\<lparr>wp_jobs := wp_jobs p @ [\<lparr>tj_client = i, tj_op = hd (cl_todo (cs ! i))\<rparr>]\<rparr>) = add_mset i (outstanding p)"
    by (simp add: outstanding_def)
  moreover have "count (outstanding p) j = (if j < length cs \<and> waiting (cs ! j) then 1 else 0)" for j using J by (simp add: jobs_ok_def)
  ultimately show ?thesis
    using J i z len not_outstanding [OF z] by (auto simp: jobs_ok_def nth_list_update waiting_def job_ok_def worker_ok_other)
qed

lemma jobs_ok_take:
  assumes J: "jobs_ok E mul cs p" and w: "w < length (wp_workers p)" "wp_workers p ! w = Ready" and j: "wp_jobs p = job # jobs"
  shows "jobs_ok E mul cs (p\<lparr>wp_jobs := jobs, wp_workers := (wp_workers p)[w := Running job]\<rparr>)"
proof -
  have "outstanding (p\<lparr>wp_jobs := jobs, wp_workers := (wp_workers p)[w := Running job]\<rparr>) = outstanding p"
    using mset_concat_update [OF w(1), of job_clients "Running job"] w(2) j by (simp add: outstanding_def)
  then show ?thesis using J w j by (auto simp: jobs_ok_def nth_list_update)
qed

text \<open>the only worker with a job of a client: after it puts the job down, nobody has one\<close>

lemma sole_worker:
  assumes J: "jobs_ok E mul cs p" and w: "w < length (wp_workers p)" "job_clients (wp_workers p ! w) = [i]"
  shows "i < length cs" "waiting (cs ! i)" "job \<in> set (wp_jobs p) \<Longrightarrow> tj_client job \<noteq> i"
    and "v < length (wp_workers p) \<Longrightarrow> v \<noteq> w \<Longrightarrow> i \<notin> set (job_clients (wp_workers p ! v))"
proof -
  have "0 < count (outstanding p) i" using outstanding_busy [OF w(1)] w(2) by simp
  then show "i < length cs" "waiting (cs ! i)" using J by (auto simp: jobs_ok_def split: if_splits)
  then have "count (outstanding p) i = 1" using J by (simp add: jobs_ok_def)
  then have z: "count (outstanding (p\<lparr>wp_workers := (wp_workers p)[w := Ready]\<rparr>)) i = 0"
    using arg_cong [OF outstanding_worker [OF w(1), of Ready], of "\<lambda>m. count m i"] w(2) by simp
  show "job \<in> set (wp_jobs p) \<Longrightarrow> tj_client job \<noteq> i" using not_outstanding(1) [OF z] by simp
  show "v < length (wp_workers p) \<Longrightarrow> v \<noteq> w \<Longrightarrow> i \<notin> set (job_clients (wp_workers p ! v))"
    using not_outstanding(2) [OF z, of v] by simp
qed

lemma jobs_ok_run:
  assumes J: "jobs_ok E mul cs p" and w: "w < length (wp_workers p)" "wp_workers p ! w = Running job"
    and r: "run_job E mul job (cs ! tj_client job) = (e, c)"
  shows "jobs_ok E mul (cs[tj_client job := c]) (p\<lparr>wp_workers := (wp_workers p)[w := Sending_result (tj_client job) e]\<rparr>)"
proof -
  let ?i = "tj_client job"
  note sole = sole_worker [OF J w(1), of ?i, simplified w(2), simplified]
  have "job_ok cs job" using J w by (auto simp: jobs_ok_def dest: spec [of _ w])
  then have c: "outcome_of E mul c e" "waiting c = waiting (cs ! ?i)" "cl_todo c = cl_todo (cs ! ?i)"
    using r by (auto simp: run_job_def job_ok_def outcome_of_def waiting_def split: sum.splits)
  have "outstanding (p\<lparr>wp_workers := (wp_workers p)[w := Sending_result ?i e]\<rparr>) = outstanding p"
    using outstanding_worker [OF w(1), of "Sending_result ?i e"] w(2) by simp
  then have "\<forall>j. count (outstanding (p\<lparr>wp_workers := (wp_workers p)[w := Sending_result ?i e]\<rparr>)) j =
      (if j < length (cs[?i := c]) \<and> waiting (cs[?i := c] ! j) then 1 else 0)"
    using jobs_ok_count [OF J] c(2) sole(1) by (auto simp: nth_list_update)
  moreover have "\<forall>j \<in> set (wp_jobs p). job_ok (cs[?i := c]) j" using J sole(3) by (simp add: jobs_ok_def job_ok_other)
  moreover have "worker_ok E mul (cs[?i := c]) ((wp_workers p)[w := Sending_result ?i e] ! v)" if "v < length (wp_workers p)" for v
    using J w(1) that sole(1,4) c(1) by (cases "v = w") (simp_all add: jobs_ok_def worker_ok_other)
  ultimately show ?thesis using J by (simp add: jobs_ok_def)
qed

lemma jobs_ok_deliver:
  assumes J: "jobs_ok E mul cs p" and w: "w < length (wp_workers p)" "wp_workers p ! w = Sending_result i e"
  shows "jobs_ok E mul (cs[i := (cs ! i)\<lparr>cl_chan := Some e\<rparr>]) (p\<lparr>wp_workers := (wp_workers p)[w := Ready]\<rparr>)"
proof -
  let ?c = "(cs ! i)\<lparr>cl_chan := Some e\<rparr>"
  note sole = sole_worker [OF J w(1), of i, simplified w(2), simplified]
  have "count (outstanding (p\<lparr>wp_workers := (wp_workers p)[w := Ready]\<rparr>)) j =
      (if j < length (cs[i := ?c]) \<and> waiting (cs[i := ?c] ! j) then 1 else 0)" for j
    using arg_cong [OF outstanding_worker [OF w(1), of Ready], of "\<lambda>m. count m j"] w(2) jobs_ok_count [OF J, of j] sole(1,2)
    by (cases "j = i") (simp_all add: waiting_def split: if_splits)
  moreover have "\<forall>j \<in> set (wp_jobs p). job_ok (cs[i := ?c]) j" using J sole(3) by (simp add: jobs_ok_def job_ok_other)
  moreover have "worker_ok E mul (cs[i := ?c]) ((wp_workers p)[w := Ready] ! v)" if "v < length (wp_workers p)" for v
    using J w(1) that sole(4) by (cases "v = w") (simp_all add: jobs_ok_def worker_ok_other)
  ultimately show ?thesis using J by (simp add: jobs_ok_def)
qed

lemma InitWorkerPool_new:
  assumes "InitWorkerPool numCPU k sz None = (Inr (Some p), Some p)"
  shows "wp_jobs p = [] \<and> wp_workers p = replicate (nat (wp_size p)) Ready \<and> 1 \<le> wp_size p"
  using assms by (auto simp: InitWorkerPool_def pool_size_def Let_def split: if_splits)

lemma pool_step_inv:
  assumes "pool_step E mul numCPU s t" "pool_inv E mul opss s"
  shows "pool_inv E mul opss t"
  using assms
proof (induction rule: pool_step.induct)
  case (start s k sz p)
  have "outstanding p = {#}" using InitWorkerPool_new [OF start(2)] by (simp add: outstanding_def replicate_mset_eq_empty_iff)
  moreover have "\<not> waiting (sy_clients s ! i)" if "i < length (sy_clients s)" for i
    using start that by (simp add: pool_inv_def waiting_def)
  ultimately have "jobs_ok E mul (sy_clients s) p"
    using InitWorkerPool_new [OF start(2)] by (auto simp: jobs_ok_def DefaultWorkerQueueDepth_def)
  then show ?case using start(3) by (simp add: pool_inv_def)
next
  case (enter i s c)
  have ok: "client_ok E mul (opss ! i) c" using enter by (auto simp: pool_inv_def)
  show ?case
    using begin_call_ok [OF ok enter(3,4)] enter by (intro step_client [OF enter(5,1)]) (simp_all add: waiting_def)
next
  case (send i s c p)
  have ok: "client_ok E mul (opss ! i) c" and J: "jobs_ok E mul (sy_clients s) p" using send by (auto simp: pool_inv_def)
  have "cl_chan c = None" using ok send(3) by (auto simp: client_ok_def)
  then show ?case
    using jobs_ok_send [OF J send(1)] send ok
    by (intro inv_client [OF send(6,1), of "c\<lparr>cl_pc := Receiving\<rparr>"]) (auto simp: client_ok_def)
next
  case (take s p w job jobs)
  then show ?case using jobs_ok_take [of E mul "sy_clients s" p w job jobs] by (simp add: pool_inv_def)
next
  case (run s p w job e c)
  then have J: "jobs_ok E mul (sy_clients s) p" and ok: "client_ok E mul (opss ! tj_client job) (sy_clients s ! tj_client job)"
    by (auto simp: pool_inv_def)
  have "waiting (sy_clients s ! tj_client job)" using sole_worker(2) [OF J run(2)] run(3) by simp
  then have "client_ok E mul (opss ! tj_client job) c"
    using ok run(5) by (auto simp: client_ok_def run_job_def waiting_def split: sum.splits)
  then show ?case using jobs_ok_run [OF J run(2,3,5)] run(6) by (intro inv_client [OF run(6,4)]) simp_all
next
  case (deliver s p w i e c)
  then have J: "jobs_ok E mul (sy_clients s) p" and ok: "client_ok E mul (opss ! i) c" by (auto simp: pool_inv_def)
  have "cl_pc c = Receiving" using sole_worker(2) [OF J deliver(2)] deliver(3,5) by (simp add: waiting_def)
  moreover have "outcome_of E mul c e" using J deliver(2,3,5) by (auto simp: jobs_ok_def dest: spec [of _ w])
  ultimately have "client_ok E mul (opss ! i) (c\<lparr>cl_chan := Some e\<rparr>)" using ok by (auto simp: client_ok_def outcome_of_def split: option.splits)
  then show ?case using jobs_ok_deliver [OF J deliver(2,3)] deliver(5) by (intro inv_client [OF deliver(7,4)]) simp_all
next
  case (receive i s c e)
  have ok: "client_ok E mul (opss ! i) c" using receive by (auto simp: pool_inv_def)
  then have "(case e of Some x \<Rightarrow> Inl x | None \<Rightarrow> Inr (cl_result c)) = op_call E mul (hd (cl_todo c))" "cl_todo c \<noteq> []"
    using receive(3,4) by (auto simp: client_ok_def outcome_of_def op_call_def)
  with returns_ok [OF ok] show ?case
    using receive by (intro step_client [OF receive(5,1)]) (simp_all add: waiting_def returns_def)
qed

lemma start_system_inv: "pool_inv E mul opss (start_system opss)"
  by (auto simp: pool_inv_def start_system_def new_client_def client_ok_def)

lemma reachable_inv: "(pool_step E mul numCPU)\<^sup>*\<^sup>* (start_system opss) t \<Longrightarrow> pool_inv E mul opss t"
  by (induction rule: rtranclp_induct) (auto simp: start_system_inv pool_step_inv)

subsection \<open>Progress\<close>

text \<open>a worker can move whenever it has a job or there is one to take\<close>

lemma worker_moves:
  assumes inv: "pool_inv E mul opss s" and p: "sy_pool s = Some p" and w: "w < length (wp_workers p)"
    and busy: "wp_jobs p \<noteq> [] \<or> wp_workers p ! w \<noteq> Ready"
  shows "\<exists>t. pool_step E mul numCPU s t"
proof -
  have J: "jobs_ok E mul (sy_clients s) p" using inv p by (simp add: pool_inv_def)
  show ?thesis
  proof (cases "wp_workers p ! w")
    case Ready
    then obtain job jobs where "wp_jobs p = job # jobs" using busy by (cases "wp_jobs p") auto
    then show ?thesis using pool_step.take [OF p w Ready] by blast
  next
    case (Running job)
    then show ?thesis using pool_step.run [OF p w Running] sole_worker(1) [OF J w] by (metis job_clients.simps(2) prod.collapse)
  next
    case (Sending_result i e)
    then show ?thesis
      using pool_step.deliver [OF p w Sending_result _ refl] sole_worker(1,2) [OF J w] by (metis job_clients.simps(3) waiting_def)
  qed
qed

lemma pool_progress:
  assumes inv: "pool_inv E mul opss s" and i: "i < length (sy_clients s)" "cl_todo (sy_clients s ! i) \<noteq> []"
  shows "\<exists>t. pool_step E mul numCPU s t"
proof (cases "cl_pc (sy_clients s ! i) = Idle")
  case True
  then show ?thesis using pool_step.enter [OF i(1) refl _ i(2)] by blast
next
  case False
  then obtain p where p: "sy_pool s = Some p" using inv i(1) by (force simp: pool_inv_def split: option.splits)
  then have J: "jobs_ok E mul (sy_clients s) p" using inv by (simp add: pool_inv_def)
  then have ws: "0 < length (wp_workers p)" by (simp add: jobs_ok_def)
  show ?thesis
  proof (cases "cl_pc (sy_clients s ! i)")
    case Submitting
    show ?thesis
    proof (cases "length (wp_jobs p) < DefaultWorkerQueueDepth")
      case False
      then have "wp_jobs p \<noteq> []" by (auto simp: DefaultWorkerQueueDepth_def)
      then show ?thesis using worker_moves [OF inv p ws] by blast
    qed (use pool_step.send [OF i(1) refl Submitting p] in blast)
  next
    case Receiving
    show ?thesis
    proof (cases "cl_chan (sy_clients s ! i)")
      case None
      then have "i \<in># outstanding p" using jobs_ok_count [OF J, of i] i(1) Receiving by (simp add: waiting_def flip: count_greater_zero_iff)
      then have "wp_jobs p \<noteq> [] \<or> (\<exists>W \<in> set (wp_workers p). W \<noteq> Ready)"
        by (auto simp: outstanding_def) (metis emptyE job_clients.simps(1) list.set(1))
      then show ?thesis using worker_moves [OF inv p] ws by (metis in_set_conv_nth)
    next
      case (Some e)
      then show ?thesis using pool_step.receive [OF i(1) refl Receiving Some] by blast
    qed
  qed (use False in simp)
qed

subsection \<open>The work that is left\<close>

definition client_work :: "client \<Rightarrow> nat" where
  "client_work c = (case cl_pc c of
     Idle \<Rightarrow> 6 * length (cl_todo c)
   | Submitting \<Rightarrow> 6 * length (tl (cl_todo c)) + 5
   | Receiving \<Rightarrow> 6 * length (tl (cl_todo c)) + (if cl_chan c = None then 0 else 1))"

fun worker_work :: "worker \<Rightarrow> nat" where
  "worker_work Ready = 0"
| "worker_work (Running job) = 3"
| "worker_work (Sending_result i e) = 2"

definition pool_work :: "TFHEWorkerPool \<Rightarrow> nat" where
  "pool_work p = 4 * length (wp_jobs p) + sum_list (map worker_work (wp_workers p))"

definition work :: "system \<Rightarrow> nat" where
  "work s = sum_list (map client_work (sy_clients s)) + (case sy_pool s of None \<Rightarrow> 1 | Some p \<Rightarrow> pool_work p)"

lemma sum_list_update_nth:
  "i < length xs \<Longrightarrow> sum_list (map f (xs[i := y])) + f (xs ! i) = sum_list (map f xs) + (f y :: nat)"
proof (induction xs arbitrary: i)
  case (Cons x xs)
  then show ?case by (cases i) auto
qed simp

lemma begin_call_work:
  assumes "cl_pc c = Idle" "cl_todo c \<noteq> []"
  shows "client_work (begin_call E mul g c) < client_work c"
  using assms by (cases "cl_todo c") (auto simp: begin_call_def client_work_def returns_def split: option.splits)

lemma pool_step_work:
  assumes "pool_step E mul numCPU s t" "pool_inv E mul opss s"
  shows "work t < work s"
  using assms
proof (induction rule: pool_step.induct)
  case (start s k sz p)
  then show ?case using InitWorkerPool_new [OF start(2)] by (simp add: work_def pool_work_def sum_list_replicate)
next
  case (enter i s c)
  then show ?case using begin_call_work [OF enter(3,4), of E mul "sy_pool s"]
      sum_list_update_nth [OF enter(1), of client_work "begin_call E mul (sy_pool s) c"] by (simp add: work_def)
next
  case (send i s c p)
  have ok: "cl_todo c \<noteq> []" "cl_chan c = None" using send by (auto simp: pool_inv_def client_ok_def)
  then show ?case using sum_list_update_nth [OF send(1), of client_work "c\<lparr>cl_pc := Receiving\<rparr>"] send
    by (simp add: work_def pool_work_def client_work_def)
next
  case (take s p w job jobs)
  then show ?case using sum_list_update_nth [OF take(2), of worker_work "Running job"] by (simp add: work_def pool_work_def)
next
  case (run s p w job e c)
  have "client_work c = client_work (sy_clients s ! tj_client job)"
    using run(5) by (auto simp: run_job_def client_work_def split: sum.splits client_pc.splits)
  then show ?case
    using run sum_list_update_nth [OF run(2), of worker_work "Sending_result (tj_client job) e"]
      sum_list_update_nth [OF run(4), of client_work c] by (simp add: work_def pool_work_def)
next
  case (deliver s p w i e c)
  then have "jobs_ok E mul (sy_clients s) p" by (simp add: pool_inv_def)
  then have "cl_pc c = Receiving" using sole_worker(2) [OF _ deliver(2)] deliver(3,5) by (force simp: waiting_def)
  then show ?case
    using deliver sum_list_update_nth [OF deliver(2), of worker_work Ready]
      sum_list_update_nth [OF deliver(4), of client_work "c\<lparr>cl_chan := Some e\<rparr>"] by (simp add: work_def pool_work_def client_work_def)
next
  case (receive i s c e)
  then show ?case
    using sum_list_update_nth [OF receive(1), of client_work "returns (case e of Some x \<Rightarrow> Inl x | None \<Rightarrow> Inr (cl_result c)) c"]
    by (simp add: work_def client_work_def returns_def)
qed

text \<open>the calls of the engine that other modules make are such operations\<close>

lemma op_call_engine:
  "op_call E mul (OpAdd serverKey ct1 ct2) = AddUint32 E serverKey ct1 ct2"
  "op_call E mul (OpSub serverKey ct1 ct2) = SubUint32 E serverKey ct1 ct2"
  by (simp_all add: op_call_def AddUint32_def SubUint32_def addUint32Direct_def subUint32Direct_def)

text \<open>
  C37. However the operations of clients and workers interleave, and whenever the pool is
  started, what a client has got back is what its calls give on their own, in order; the
  queue never exceeds 256 jobs.
\<close>

theorem pool_results:
  assumes "(pool_step E mul numCPU)\<^sup>*\<^sup>* (start_system opss) t" "i < length opss"
  shows "(\<exists>n. cl_returned (sy_clients t ! i) = map (op_call E mul) (take n (opss ! i))) \<and>
    (\<forall>p. sy_pool t = Some p \<longrightarrow> length (wp_jobs p) \<le> 256 \<and> 1 \<le> wp_size p \<and> int (length (wp_workers p)) = wp_size p)"
proof -
  note inv = reachable_inv [OF assms(1)]
  have "client_ok E mul (opss ! i) (sy_clients t ! i)" using inv assms(2) by (simp add: pool_inv_def)
  then have "cl_returned (sy_clients t ! i) = map (op_call E mul) (take (length (cl_returned (sy_clients t ! i))) (opss ! i))"
    unfolding client_ok_def by (metis append_eq_conv_conj take_map)
  moreover have "length (wp_jobs p) \<le> 256 \<and> 1 \<le> wp_size p \<and> int (length (wp_workers p)) = wp_size p" if "sy_pool t = Some p" for p
    using inv that by (auto simp: pool_inv_def jobs_ok_def DefaultWorkerQueueDepth_def Suc_le_eq simp flip: length_greater_0_conv)
  ultimately show ?thesis by blast
qed

lemma run_work: "(pool_step E mul numCPU ^^ k) s t \<Longrightarrow> pool_inv E mul opss s \<Longrightarrow> k + work t \<le> work s \<and> pool_inv E mul opss t"
proof (induction k arbitrary: t)
  case (Suc k)
  then obtain u where "(pool_step E mul numCPU ^^ k) s u" "pool_step E mul numCPU u t" by auto
  then show ?case using Suc.IH [of u] Suc.prems(2) pool_step_work pool_step_inv by fastforce
qed simp

text \<open>
  C38. No run of the pool goes on for ever and none gets stuck with calls open: it has at most
  six steps for each call, and one for the start of the pool, and when no step is left
  every client has the results of all its calls.
\<close>

theorem pool_completes:
  assumes "(pool_step E mul numCPU ^^ k) (start_system opss) t"
  shows "k \<le> 6 * sum_list (map length opss) + 1 \<and>
    ((\<nexists>u. pool_step E mul numCPU t u) \<longrightarrow>
      (\<forall>i < length opss. cl_returned (sy_clients t ! i) = map (op_call E mul) (opss ! i)))"
proof -
  note r = run_work [OF assms start_system_inv]
  have "work (start_system opss) = 6 * sum_list (map length opss) + 1"
    by (simp add: work_def start_system_def client_work_def new_client_def o_def sum_list_const_mult)
  moreover have "cl_returned (sy_clients t ! i) = map (op_call E mul) (opss ! i)" if "\<nexists>u. pool_step E mul numCPU t u" "i < length opss" for i
  proof -
    have "client_ok E mul (opss ! i) (sy_clients t ! i)" "i < length (sy_clients t)" using r that(2) by (simp_all add: pool_inv_def)
    moreover have "cl_todo (sy_clients t ! i) = []" using pool_progress [of E mul opss t i numCPU] r that calculation(2) by blast
    ultimately show ?thesis by (simp add: client_ok_def)
  qed
  ultimately show ?thesis using r by auto
qed

text \<open>a run: the pool starts, a client's only call goes through it\<close>

definition mul_example :: mul_ffi where
  "mul_example serverKey ct scalar = Some (ct @ ''!'')"

definition call_example :: tfhe_op where
  "call_example = OpMul ''sk'' ''ct'' 3"

definition pool_example :: "tfheJob list \<Rightarrow> worker \<Rightarrow> TFHEWorkerPool option" where
  "pool_example jobs w = Some \<lparr>wp_jobs = jobs, wp_size = 1, wp_workers = [w]\<rparr>"

definition client_example :: "tfhe_op list \<Rightarrow> client_pc \<Rightarrow> string \<Rightarrow> err option option \<Rightarrow> (err + string) list \<Rightarrow> client" where
  "client_example todo pc r ch rs = \<lparr>cl_todo = todo, cl_pc = pc, cl_result = r, cl_chan = ch, cl_returned = rs\<rparr>"

definition example_states :: "system list" where
  "example_states = (let job = \<lparr>tj_client = 0, tj_op = call_example\<rparr> in
     [start_system [[call_example]],
      \<lparr>sy_pool = pool_example [] Ready, sy_clients = [client_example [call_example] Idle [] None []]\<rparr>,
      \<lparr>sy_pool = pool_example [] Ready, sy_clients = [client_example [call_example] Submitting [] None []]\<rparr>,
      \<lparr>sy_pool = pool_example [job] Ready, sy_clients = [client_example [call_example] Receiving [] None []]\<rparr>,
      \<lparr>sy_pool = pool_example [] (Running job), sy_clients = [client_example [call_example] Receiving [] None []]\<rparr>,
      \<lparr>sy_pool = pool_example [] (Sending_result 0 None), sy_clients = [client_example [call_example] Receiving ''ct!'' None []]\<rparr>,
      \<lparr>sy_pool = pool_example [] Ready, sy_clients = [client_example [call_example] Receiving ''ct!'' (Some None) []]\<rparr>,
      \<lparr>sy_pool = pool_example [] Ready, sy_clients = [client_example [] Idle ''ct!'' None [Inr ''ct!'']]\<rparr>])"

lemmas example_defs = example_states_def Let_def pool_example_def client_example_def call_example_def start_system_def new_client_def
  op_call_def multiplyScalarDirect_def ffi_result_def mul_example_def

lemma example_run: "i < 7 \<Longrightarrow> pool_step env0 mul_example 3 (example_states ! i) (example_states ! Suc i)"
proof -
  note D = example_defs
  have "InitWorkerPool 3 ''sk'' 0 None = (Inr (pool_example [] Ready), pool_example [] Ready)"
    by (simp add: InitWorkerPool_def pool_size_def pool_example_def Let_def)
  then have 0: "pool_step env0 mul_example 3 (example_states ! 0) (example_states ! 1)"
    using pool_step.start [of "example_states ! 0" 3 "''sk''" 0] by (simp add: D)
  have 1: "pool_step env0 mul_example 3 (example_states ! 1) (example_states ! 2)"
    using pool_step.enter [where i = 0 and s = "example_states ! 1" and c = "sy_clients (example_states ! 1) ! 0" and E = env0 and mul = mul_example and numCPU = 3]
    by (simp add: D begin_call_def)
  have 2: "pool_step env0 mul_example 3 (example_states ! 2) (example_states ! 3)"
    using pool_step.send [where i = 0 and s = "example_states ! 2" and c = "sy_clients (example_states ! 2) ! 0" and p = "the (pool_example [] Ready)"
      and E = env0 and mul = mul_example and numCPU = 3]
    by (simp add: D DefaultWorkerQueueDepth_def)
  have 3: "pool_step env0 mul_example 3 (example_states ! 3) (example_states ! 4)"
    using pool_step.take [where w = 0 and s = "example_states ! 3" and p = "the (sy_pool (example_states ! 3))" and job = "\<lparr>tj_client = 0, tj_op = call_example\<rparr>"
      and jobs = "[]" and E = env0 and mul = mul_example and numCPU = 3]
    by (simp add: D)
  have 4: "pool_step env0 mul_example 3 (example_states ! 4) (example_states ! 5)"
    using pool_step.run [where w = 0 and s = "example_states ! 4" and p = "the (sy_pool (example_states ! 4))" and job = "\<lparr>tj_client = 0, tj_op = call_example\<rparr>"
      and e = None and c = "sy_clients (example_states ! 5) ! 0" and E = env0 and mul = mul_example and numCPU = 3]
    by (simp add: D run_job_def)
  have 5: "pool_step env0 mul_example 3 (example_states ! 5) (example_states ! 6)"
    using pool_step.deliver [where w = 0 and s = "example_states ! 5" and p = "the (sy_pool (example_states ! 5))" and i = 0
      and e = None and c = "sy_clients (example_states ! 5) ! 0" and E = env0 and mul = mul_example and numCPU = 3]
    by (simp add: D)
  have 6: "pool_step env0 mul_example 3 (example_states ! 6) (example_states ! 7)"
    using pool_step.receive [where i = 0 and s = "example_states ! 6" and c = "sy_clients (example_states ! 6) ! 0" and e = None and E = env0 and mul = mul_example and numCPU = 3]
    by (simp add: D returns_def)
  assume "i < 7"
  then consider "i = 0" | "i = 1" | "i = 2" | "i = 3" | "i = 4" | "i = 5" | "i = 6" by linarith
  then show ?thesis using 0 1 2 3 4 5 6 by cases (simp_all add: eval_nat_numeral)
qed

lemma example_steps: "k \<le> 7 \<Longrightarrow> (pool_step env0 mul_example 3 ^^ k) (example_states ! 0) (example_states ! k)"
proof (induction k)
  case (Suc k)
  then show ?case using example_run [of k] by (auto intro: relcomppI)
qed simp

theorem pool_results_witness:
  "\<exists>n. cl_returned (sy_clients (example_states ! 7) ! 0) = map (op_call env0 mul_example) (take n ([[call_example]] ! 0))"
proof -
  have "(pool_step env0 mul_example 3)\<^sup>*\<^sup>* (start_system [[call_example]]) (example_states ! 7)"
    using example_steps [of 7] by (simp add: relpowp_imp_rtranclp example_states_def Let_def)
  from pool_results [OF this, of 0] show ?thesis by simp
qed

theorem pool_completes_witness:
  "(7 :: nat) \<le> 6 * sum_list (map length [[call_example]]) + 1 \<and>
    cl_returned (sy_clients (example_states ! 7) ! 0) = [op_call env0 mul_example call_example]"
proof -
  have run: "(pool_step env0 mul_example 3 ^^ 7) (start_system [[call_example]]) (example_states ! 7)"
    using example_steps [of 7] by (simp add: example_states_def Let_def)
  have "work (example_states ! 7) = 0" by (simp add: example_defs work_def pool_work_def client_work_def)
  then have "\<nexists>u. pool_step env0 mul_example 3 (example_states ! 7) u"
    using pool_step_work run_work [OF run start_system_inv] by fastforce
  with pool_completes [OF run] show ?thesis by simp
qed

end
