(* ===== verification/NodeKeys.thy ===== *)
theory NodeKeys
  imports WorkerPool
begin

section \<open>Node keys and the contract query plugin\<close>

text \<open>
  \<open>x/privacy/tfhe/node_keys.go\<close>: the TFHE keys of a node, cached by the process and kept in two
  files; and \<open>x/privacy/tfhe/cosmwasm/query_plugin.go\<close>: the queries by which contracts encrypt,
  add, multiply and decrypt, with a key cache and key files of their own. The files are a
  store by path, \<open>nd_write_ok\<close> says which writes the system permits, and a refused write leaves
  the file as it was. What a key generation gives, should a call need one, is an argument of
  the call; the JSON decoder and the Rust functions for decryption and multiplication are
  arguments too. Responses are the values that are marshalled.
\<close>

record node =
  nd_files :: "string kv"
  nd_home :: "string option"
  nd_write_ok :: "string \<Rightarrow> bool"
  nd_cache :: "string \<times> string"
  nd_plugin_cache :: "string \<times> string"

type_synonym keygen = "err + string \<times> string"

subsection \<open>Loading and generating\<close>

definition keyPaths :: "string option \<Rightarrow> string \<Rightarrow> string \<times> string" where
  "keyPaths userHome nodeHome =
     (if nodeHome \<noteq> [] then (nodeHome @ ''/tfhe_client.key'', nodeHome @ ''/tfhe_server.key'')
      else let home = (case userHome of None \<Rightarrow> ''.'' | Some h \<Rightarrow> h)
        in (home @ ''/'' @ ''.zytherion_tfhe_client.key'', home @ ''/'' @ ''.zytherion_tfhe_server.key''))"

definition write_file :: "string \<Rightarrow> string \<Rightarrow> node \<Rightarrow> node" where
  "write_file path data n = (if nd_write_ok n path then n\<lparr>nd_files := kv_set path data (nd_files n)\<rparr> else n)"

text \<open>the part that both functions have in common: files with keys are used, otherwise keys are generated and written\<close>

definition load_or_generate :: "keygen \<Rightarrow> string \<times> string \<Rightarrow> (node, err, string \<times> string) go" where
  "load_or_generate fresh = (\<lambda>(ckPath, skPath) n.
     case (kv_get (nd_files n) ckPath, kv_get (nd_files n) skPath) of
       (Some (c # ck), Some (d # sk)) \<Rightarrow> (Ret (c # ck, d # sk), n)
     | _ \<Rightarrow> (case fresh of
         Inl e \<Rightarrow> (Err (Wrap ''tfhe: key generation failed'' e), n)
       | Inr (ck, sk) \<Rightarrow> (Ret (ck, sk), write_file skPath sk (write_file ckPath ck n))))"

definition EnsureNodeKeys :: "keygen \<Rightarrow> string \<Rightarrow> (node, err, string \<times> string) go" where
  "EnsureNodeKeys fresh nodeHome = (\<lambda>n.
     if fst (nd_cache n) \<noteq> [] then (Ret (nd_cache n), n)
     else gbind (load_or_generate fresh (keyPaths (nd_home n) nodeHome)) (\<lambda>keys.
       gbind (gmod (nd_cache_update (\<lambda>_. keys))) (\<lambda>_. gret keys)) n)"

definition ensureKeys :: "keygen \<Rightarrow> (node, err, string \<times> string) go" where
  "ensureKeys fresh = (\<lambda>n.
     if fst (nd_plugin_cache n) \<noteq> [] then (Ret (nd_plugin_cache n), n)
     else gbind (load_or_generate fresh (keyPaths (nd_home n) [])) (\<lambda>keys.
       gbind (gmod (nd_plugin_cache_update (\<lambda>_. keys))) (\<lambda>_. gret keys)) n)"

subsection \<open>The plugin\<close>

record TFHECustomQuery =
  q_Encrypt :: "32 word option"
  q_Decrypt :: "string option"
  q_AddCT :: "(string \<times> string) option"
  q_MulScalar :: "(string \<times> 32 word) option"
  q_VerifyCT :: "string option"

datatype plugin_response =
    TFHECiphertextResponse string int
  | TFHEPlaintextResponse "32 word"
  | TFHEVerifyResponse bool int string

definition DecryptUint32 :: "(string \<Rightarrow> string \<Rightarrow> int) \<Rightarrow> string \<Rightarrow> string \<Rightarrow> err + 32 word" where
  "DecryptUint32 decrypt clientKey ciphertext =
     (if clientKey = [] then Inl (Errorf ''tfhe: client key is empty'')
      else if ciphertext = [] then Inl (Errorf ''tfhe: ciphertext is empty'')
      else let result = decrypt clientKey ciphertext in
        if result < 0 then Inl (Errorf ''tfhe: decryption failed'') else Inr (word_of_int result))"

definition reply :: "string \<Rightarrow> ('a \<Rightarrow> plugin_response) \<Rightarrow> err + 'a \<Rightarrow> (node, err, plugin_response) go" where
  "reply what f r = (case r of Inl e \<Rightarrow> gerr (Wrap what e) | Inr x \<Rightarrow> gret (f x))"

definition ciphertext_reply :: "string \<Rightarrow> plugin_response" where
  "ciphertext_reply ct = TFHECiphertextResponse ct (int (length ct))"

definition handleEncrypt :: "env \<Rightarrow> keygen \<Rightarrow> 32 word \<Rightarrow> (node, err, plugin_response) go" where
  "handleEncrypt E fresh v =
     gbind (gmap_err (Wrap ''tfhe_encrypt: key error'') (ensureKeys fresh)) (\<lambda>(ck, _).
     reply ''tfhe_encrypt: encryption failed'' ciphertext_reply (EncryptUint32 E ck v))"

definition handleDecrypt :: "(string \<Rightarrow> string \<Rightarrow> int) \<Rightarrow> keygen \<Rightarrow> string \<Rightarrow> (node, err, plugin_response) go" where
  "handleDecrypt decrypt fresh ct =
     gbind (gfail_if (ct = []) (Errorf ''tfhe_decrypt: ciphertext is empty'')) (\<lambda>_.
     gbind (gmap_err (Wrap ''tfhe_decrypt: key error'') (ensureKeys fresh)) (\<lambda>(ck, _).
     reply ''tfhe_decrypt: decryption failed'' TFHEPlaintextResponse (DecryptUint32 decrypt ck ct)))"

definition handleAdd :: "env \<Rightarrow> keygen \<Rightarrow> string \<times> string \<Rightarrow> (node, err, plugin_response) go" where
  "handleAdd E fresh = (\<lambda>(ct1, ct2).
     gbind (gfail_if (ct1 = [] \<or> ct2 = []) (Errorf ''tfhe_add: both ct1 and ct2 must be non-empty'')) (\<lambda>_.
     gbind (gmap_err (Wrap ''tfhe_add: key error'') (ensureKeys fresh)) (\<lambda>(_, sk).
     reply ''tfhe_add: homomorphic addition failed'' ciphertext_reply (AddUint32 E sk ct1 ct2))))"

definition handleMulScalar :: "env \<Rightarrow> mul_ffi \<Rightarrow> keygen \<Rightarrow> string \<times> 32 word \<Rightarrow> (node, err, plugin_response) go" where
  "handleMulScalar E mul fresh = (\<lambda>(ct, scalar).
     gbind (gfail_if (ct = []) (Errorf ''tfhe_mul_scalar: ciphertext is empty'')) (\<lambda>_.
     gbind (gmap_err (Wrap ''tfhe_mul_scalar: key error'') (ensureKeys fresh)) (\<lambda>(_, sk).
     reply ''tfhe_mul_scalar: multiplication failed'' ciphertext_reply (op_call E mul (OpMul sk ct scalar)))))"

definition handleVerify :: "string \<Rightarrow> (node, err, plugin_response) go" where
  "handleVerify ct =
     (let size = int (length ct); minSize = 8 * 1024; maxSize = 32 * 1024 * 1024 in
      gret (if ct = [] then TFHEVerifyResponse False 0 ''ciphertext is empty''
            else if size < minSize \<or> size > maxSize
            then TFHEVerifyResponse False size (''ciphertext size '' @ int_dec size @ '' bytes out of expected range ['' @ int_dec minSize @ '', '' @ int_dec maxSize @ '']'')
            else TFHEVerifyResponse True size ''ciphertext appears well-formed''))"

definition NewTFHEQueryPlugin :: "env \<Rightarrow> mul_ffi \<Rightarrow> (string \<Rightarrow> string \<Rightarrow> int) \<Rightarrow> (string \<Rightarrow> err + TFHECustomQuery) \<Rightarrow> keygen \<Rightarrow>
    string \<Rightarrow> (node, err, plugin_response) go" where
  "NewTFHEQueryPlugin E mul decrypt unmarshal fresh request = (case unmarshal request of
     Inl e \<Rightarrow> gerr (Wrap ''tfhe: invalid custom query JSON'' e)
   | Inr query \<Rightarrow>
       (case q_Encrypt query of Some v \<Rightarrow> handleEncrypt E fresh v | None \<Rightarrow>
       case q_Decrypt query of Some ct \<Rightarrow> handleDecrypt decrypt fresh ct | None \<Rightarrow>
       case q_AddCT query of Some cts \<Rightarrow> handleAdd E fresh cts | None \<Rightarrow>
       case q_MulScalar query of Some q \<Rightarrow> handleMulScalar E mul fresh q | None \<Rightarrow>
       case q_VerifyCT query of Some ct \<Rightarrow> handleVerify ct | None \<Rightarrow>
       gerr (Errorf ''tfhe: unknown custom query'')))"

subsection \<open>The keys of a node stay the same\<close>

datatype key_event = KeeperCall keygen | PluginCall keygen | Restart

fun key_step :: "string \<Rightarrow> key_event \<Rightarrow> node \<Rightarrow> node" where
  "key_step nodeHome (KeeperCall fresh) n = snd (EnsureNodeKeys fresh nodeHome n)"
| "key_step nodeHome (PluginCall fresh) n = snd (ensureKeys fresh n)"
| "key_step nodeHome Restart n = n\<lparr>nd_cache := ([], []), nd_plugin_cache := ([], [])\<rparr>"

text \<open>the files hold the keys \<open>k\<close>, and the cache holds them or nothing\<close>

definition holds_keys :: "string \<Rightarrow> string \<times> string \<Rightarrow> node \<Rightarrow> bool" where
  "holds_keys nodeHome k n \<longleftrightarrow> fst k \<noteq> [] \<and> snd k \<noteq> [] \<and> (nd_cache n = k \<or> nd_cache n = ([], [])) \<and>
     kv_get (nd_files n) (fst (keyPaths (nd_home n) nodeHome)) = Some (fst k) \<and>
     kv_get (nd_files n) (snd (keyPaths (nd_home n) nodeHome)) = Some (snd k)"

lemma append_last_neq: "length v = length w \<Longrightarrow> v \<noteq> w \<Longrightarrow> xs @ v \<noteq> ys @ w"
  by simp

lemma keyPaths_differ:
  "fst (keyPaths h x) \<noteq> snd (keyPaths h y)"
  "x \<noteq> [] \<Longrightarrow> fst (keyPaths h x) \<noteq> fst (keyPaths h []) \<and> snd (keyPaths h x) \<noteq> snd (keyPaths h [])"
proof -
  have "\<exists>c d. fst (keyPaths h x) = c @ ''client.key'' \<and> snd (keyPaths h y) = d @ ''server.key''"
    by (cases h) (auto simp: keyPaths_def Let_def intro: exI [of _ "_ @ ''/tfhe_''"] exI [of _ "_ @ ''/.zytherion_tfhe_''"])
  then obtain c d where "fst (keyPaths h x) = c @ ''client.key''" "snd (keyPaths h y) = d @ ''server.key''" by blast
  then show "fst (keyPaths h x) \<noteq> snd (keyPaths h y)" using append_last_neq [of "''client.key''" "''server.key''" c d] by simp
  assume "x \<noteq> []"
  then have "fst (keyPaths h x) = x @ ''/tfhe_client.key''" "snd (keyPaths h x) = x @ ''/tfhe_server.key''" by (simp_all add: keyPaths_def)
  moreover obtain c where "fst (keyPaths h []) = c @ ''_tfhe_client.key''" "snd (keyPaths h []) = c @ ''_tfhe_server.key''"
    by (cases h) (auto simp: keyPaths_def Let_def intro: that [of "_ @ ''/.zytherion''"])
  ultimately show "fst (keyPaths h x) \<noteq> fst (keyPaths h []) \<and> snd (keyPaths h x) \<noteq> snd (keyPaths h [])"
    using append_last_neq [of "''/tfhe_client.key''" "''_tfhe_client.key''"] append_last_neq [of "''/tfhe_server.key''" "''_tfhe_server.key''"] by simp
qed

lemma write_file_simps [simp]:
  "nd_home (write_file p d n) = nd_home n" "nd_cache (write_file p d n) = nd_cache n" "nd_write_ok (write_file p d n) = nd_write_ok n"
  "nd_plugin_cache (write_file p d n) = nd_plugin_cache n"
  "kv_get (nd_files (write_file p d n)) q = (if q = p \<and> nd_write_ok n p then Some d else kv_get (nd_files n) q)"
  by (simp_all add: write_file_def kv_simps)

lemma load_or_generate_keeps:
  assumes "load_or_generate fresh (p, q) n = (r, n')"
  shows "nd_home n' = nd_home n \<and> nd_cache n' = nd_cache n \<and> nd_plugin_cache n' = nd_plugin_cache n \<and>
    (\<forall>x. x \<noteq> p \<and> x \<noteq> q \<longrightarrow> kv_get (nd_files n') x = kv_get (nd_files n) x)"
  using assms by (auto simp: load_or_generate_def split: option.splits list.splits sum.splits)

lemma load_or_generate_loads:
  assumes "kv_get (nd_files n) p = Some ck" "kv_get (nd_files n) q = Some sk" "ck \<noteq> []" "sk \<noteq> []"
  shows "load_or_generate fresh (p, q) n = (Ret (ck, sk), n)"
  using assms by (cases ck; cases sk) (simp_all add: load_or_generate_def)

lemma load_or_generate_writes:
  assumes "load_or_generate fresh (p, q) n = (Ret k, n')" "p \<noteq> q" "nd_write_ok n p" "nd_write_ok n q"
  shows "kv_get (nd_files n') p = Some (fst k) \<and> kv_get (nd_files n') q = Some (snd k)"
  using assms by (auto simp: load_or_generate_def split: option.splits list.splits sum.splits)

lemma EnsureNodeKeys_holds:
  assumes "holds_keys nodeHome k n"
  shows "fst (EnsureNodeKeys fresh nodeHome n) = Ret k \<and> holds_keys nodeHome k (snd (EnsureNodeKeys fresh nodeHome n))"
proof (cases "fst (nd_cache n) = []")
  case True
  then have "load_or_generate fresh (keyPaths (nd_home n) nodeHome) n = (Ret k, n)"
    using assms load_or_generate_loads [of n "fst (keyPaths (nd_home n) nodeHome)" "fst k" "snd (keyPaths (nd_home n) nodeHome)" "snd k"]
    by (simp add: holds_keys_def)
  then show ?thesis using True assms by (simp add: EnsureNodeKeys_def gbind_def gmod_def gret_def holds_keys_def)
next
  case False
  then show ?thesis using assms by (auto simp: EnsureNodeKeys_def holds_keys_def)
qed

lemma ensureKeys_holds:
  assumes "holds_keys nodeHome k n"
  shows "holds_keys nodeHome k (snd (ensureKeys fresh n))"
proof -
  obtain r n' where lg: "load_or_generate fresh (keyPaths (nd_home n) []) n = (r, n')" by fastforce
  have "holds_keys nodeHome k n'"
  proof (cases "nodeHome = []")
    case True
    then have "n' = n"
      using lg assms load_or_generate_loads [of n "fst (keyPaths (nd_home n) [])" "fst k" "snd (keyPaths (nd_home n) [])" "snd k"]
      by (simp add: holds_keys_def)
    then show ?thesis using assms by simp
  next
    case False
    obtain p q where pq: "keyPaths (nd_home n) [] = (p, q)" by fastforce
    have "nd_home n' = nd_home n \<and> nd_cache n' = nd_cache n \<and> (\<forall>x. x \<noteq> p \<and> x \<noteq> q \<longrightarrow> kv_get (nd_files n') x = kv_get (nd_files n) x)"
      using load_or_generate_keeps [of fresh p q n r n'] lg by (simp add: pq)
    moreover have "fst (keyPaths (nd_home n) nodeHome) \<noteq> p" "snd (keyPaths (nd_home n) nodeHome) \<noteq> q"
        "fst (keyPaths (nd_home n) nodeHome) \<noteq> q" "snd (keyPaths (nd_home n) nodeHome) \<noteq> p"
      using keyPaths_differ(2) [OF False, of "nd_home n"] keyPaths_differ(1) [of "nd_home n" nodeHome "[]"]
        keyPaths_differ(1) [of "nd_home n" "[]" nodeHome] by (auto simp: pq)
    ultimately show ?thesis using assms by (simp add: holds_keys_def)
  qed
  then show ?thesis
    using assms lg by (cases r) (auto simp: ensureKeys_def gbind_def gmod_def gret_def holds_keys_def)
qed

text \<open>
  Once \<open>EnsureNodeKeys\<close> has returned a pair of keys on a node that can write its files, it
  returns the same pair after any calls, of the keeper and of the plugin, and any restarts.
\<close>

theorem node_keys_persist:
  assumes "EnsureNodeKeys fresh nodeHome n = (Ret k, n')" "nd_cache n = ([], [])" "\<forall>p. nd_write_ok n p" "fst k \<noteq> []" "snd k \<noteq> []"
  shows "fst (EnsureNodeKeys fresh' nodeHome (fold (key_step nodeHome) events n')) = Ret k"
proof -
  obtain p q where pq: "keyPaths (nd_home n) nodeHome = (p, q)" by fastforce
  obtain n1 where n1: "load_or_generate fresh (p, q) n = (Ret k, n1)" "n' = n1\<lparr>nd_cache := k\<rparr>"
    using assms(1,2) by (auto simp: EnsureNodeKeys_def pq go_iffs go_simps)
  have "p \<noteq> q" using keyPaths_differ(1) [of "nd_home n" nodeHome nodeHome] by (simp add: pq)
  then have "holds_keys nodeHome k n'"
    using load_or_generate_writes [OF n1(1)] load_or_generate_keeps [OF n1(1)] assms(3-5) n1(2) by (simp add: holds_keys_def pq)
  moreover have "holds_keys nodeHome k (fold (key_step nodeHome) events m)" if "holds_keys nodeHome k m" for m
    using that
  proof (induction events arbitrary: m)
    case (Cons ev events)
    have "holds_keys nodeHome k (key_step nodeHome ev m)"
    proof (cases ev)
      case Restart
      then show ?thesis using Cons.prems by (simp add: holds_keys_def)
    qed (simp_all add: EnsureNodeKeys_holds ensureKeys_holds Cons.prems)
    then show ?case using Cons.IH by simp
  qed simp
  ultimately show ?thesis using EnsureNodeKeys_holds by blast
qed

text \<open>
  The keeper and the plugin do not share keys: on a node whose home is given, as \<open>app.go\<close>
  gives it, each generates a pair of its own.
\<close>

theorem two_key_pairs:
  assumes "nodeHome \<noteq> []" "nd_files n = []" "nd_cache n = ([], [])" "nd_plugin_cache n = ([], [])"
  shows "fst (EnsureNodeKeys (Inr k1) nodeHome n) = Ret k1 \<and>
    fst (ensureKeys (Inr k2) (snd (EnsureNodeKeys (Inr k1) nodeHome n))) = Ret k2"
proof -
  obtain p q where pq: "keyPaths (nd_home n) nodeHome = (p, q)" by fastforce
  obtain p' q' where pq': "keyPaths (nd_home n) [] = (p', q')" by fastforce
  have d: "p' \<noteq> p" "p' \<noteq> q"
    using keyPaths_differ(2) [OF assms(1), of "nd_home n"] keyPaths_differ(1) [of "nd_home n" "[]" nodeHome] by (auto simp: pq pq')
  define n1 where "n1 = write_file q (snd k1) (write_file p (fst k1) n)"
  have 1: "EnsureNodeKeys (Inr k1) nodeHome n = (Ret k1, n1\<lparr>nd_cache := k1\<rparr>)"
    using assms by (cases k1) (simp add: EnsureNodeKeys_def pq load_or_generate_def kv_get_def n1_def gbind_def gmod_def gret_def)
  have "kv_get (nd_files n) p' = None" using assms(2) by (simp add: kv_get_def)
  then have "kv_get (nd_files n1) p' = None" using d by (simp add: n1_def)
  then have "fst (ensureKeys (Inr k2) (n1\<lparr>nd_cache := k1\<rparr>)) = Ret k2"
    using assms(4) by (cases k2) (simp add: ensureKeys_def n1_def pq' load_or_generate_def gbind_def gmod_def gret_def)
  with 1 show ?thesis by simp
qed

subsection \<open>What contracts compute\<close>

lemma reply_Ret: "reply what f r n = (Ret x, n') \<longleftrightarrow> (\<exists>y. r = Inr y \<and> x = f y) \<and> n' = n"
  by (auto simp: reply_def gerr_def gret_def split: sum.splits)

lemma ensureKeys_cached: "fst (nd_plugin_cache n) \<noteq> [] \<Longrightarrow> ensureKeys fresh n = (Ret (nd_plugin_cache n), n)"
  by (simp add: ensureKeys_def)

lemma ensureKeys_Ret: "ensureKeys fresh n = (Ret k, n') \<Longrightarrow> nd_plugin_cache n' = k"
  by (auto simp: ensureKeys_def go_iffs split: if_splits)

lemma handleEncrypt_Ret:
  assumes "handleEncrypt E fresh v n = (Ret (TFHECiphertextResponse c m), n')"
  shows "EncryptUint32 E (fst (nd_plugin_cache n')) v = Inr c" "fst (nd_plugin_cache n') \<noteq> []"
  using assms by (auto simp: handleEncrypt_def go_iffs reply_Ret ciphertext_reply_def EncryptUint32_def split: prod.splits if_splits dest!: ensureKeys_Ret)

text \<open>
  A contract that encrypts two numbers, adds the ciphertexts and decrypts the sum by the
  plugin gets the sum modulo \<open>2 ^ 32\<close>, if the plugin's server key was generated with its
  client key, the engine is homomorphic for the ciphertexts of one client key, and
  decrypts them.
\<close>

theorem plugin_sum:
  assumes T: "tfhe_laws E T" "\<forall>ck c x. tk_plain T ck c = Some x \<longrightarrow> decrypt ck c = uint x"
    and enc: "handleEncrypt E f1 a n = (Ret (TFHECiphertextResponse c1 m1), n1)" "handleEncrypt E f2 b n1 = (Ret (TFHECiphertextResponse c2 m2), n2)"
    and add: "handleAdd E f3 (c1, c2) n2 = (Ret (TFHECiphertextResponse c m), n3)" and dec: "handleDecrypt decrypt f4 c n3 = (Ret x, n4)"
    and pair: "tk_of_server T (snd (nd_plugin_cache n1)) = fst (nd_plugin_cache n1)"
  shows "x = TFHEPlaintextResponse (a + b)"
proof -
  obtain ck sk where k: "nd_plugin_cache n1 = (ck, sk)" by fastforce
  have ck: "ck \<noteq> []" and c1: "tk_plain T ck c1 = Some a"
    using handleEncrypt_Ret [OF enc(1)] wrappers_Inr(1) [OF T(1)] by (simp_all add: k)
  note cached = ensureKeys_cached [of n1] k
  have n2: "n2 = n1" using enc(2) ck cached by (auto simp: handleEncrypt_def go_iffs reply_Ret split: prod.splits)
  have c2: "tk_plain T ck c2 = Some b"
    using handleEncrypt_Ret [OF enc(2)] wrappers_Inr(1) [OF T(1)] by (simp add: n2 k)
  have sum: "AddUint32 E sk c1 c2 = Inr c" "n3 = n1"
    using add ck cached by (auto simp: n2 handleAdd_def go_iffs reply_Ret ciphertext_reply_def split: prod.splits)
  have "tk_plain T ck c = Some (a + b)"
    using evaluated_Inr(3) [OF T(1) sum(1), of a b] c1 c2 pair by (simp add: k)
  then have "decrypt ck c = uint (a + b)" using T(2) by simp
  then show ?thesis
    using dec ck cached by (auto simp: sum(2) handleDecrypt_def go_iffs reply_Ret DecryptUint32_def Let_def split: prod.splits if_splits)
qed

end
