(* ===== verification/GasKV.thy ===== *)
theory GasKV
  imports CacheKV
begin

section \<open>Gas meters and metered stores\<close>

text \<open>
  \<open>cosmos-sdk/store/types/gas.go\<close> and \<open>store/gaskv/store.go\<close>: a meter counts gas in 64 bits
  and panics when a limit is passed or the counter would overflow; the store that a message
  handler sees charges every access before, or around, passing it to the parent.
  An iterator charges for the item it stands on when it is opened and at every step, so the
  first item of an iteration is paid twice.
\<close>

type_synonym u64 = "64 word"

subsection \<open>Meters\<close>

datatype GasMeter = basicGasMeter (gm_limit: u64) (gm_consumed: u64) | infiniteGasMeter (gm_consumed: u64)

definition NewGasMeter :: "u64 \<Rightarrow> GasMeter" where
  "NewGasMeter limit = basicGasMeter limit 0"

definition NewInfiniteGasMeter :: GasMeter where
  "NewInfiniteGasMeter = infiniteGasMeter 0"

definition GasConsumed :: "GasMeter \<Rightarrow> u64" where
  "GasConsumed g = gm_consumed g"

fun IsPastLimit :: "GasMeter \<Rightarrow> bool" where
  "IsPastLimit (basicGasMeter limit consumed) = (limit < consumed)"
| "IsPastLimit (infiniteGasMeter consumed) = False"

fun IsOutOfGas :: "GasMeter \<Rightarrow> bool" where
  "IsOutOfGas (basicGasMeter limit consumed) = (limit \<le> consumed)"
| "IsOutOfGas (infiniteGasMeter consumed) = False"

fun Limit :: "GasMeter \<Rightarrow> u64" where
  "Limit (basicGasMeter limit consumed) = limit"
| "Limit (infiniteGasMeter consumed) = -1"

fun GasRemaining :: "GasMeter \<Rightarrow> u64" where
  "GasRemaining (basicGasMeter limit consumed) = (if limit < consumed then 0 else limit - consumed)"
| "GasRemaining (infiniteGasMeter consumed) = -1"

fun GasConsumedToLimit :: "GasMeter \<Rightarrow> u64" where
  "GasConsumedToLimit (basicGasMeter limit consumed) = (if limit < consumed then limit else consumed)"
| "GasConsumedToLimit (infiniteGasMeter consumed) = consumed"

definition addUint64Overflow :: "u64 \<Rightarrow> u64 \<Rightarrow> u64 \<times> bool" where
  "addUint64Overflow a b = (if -1 - a < b then (0, True) else (a + b, False))"

fun ConsumeGas :: "u64 \<Rightarrow> string \<Rightarrow> (GasMeter, unit, unit) go" where
  "ConsumeGas amount descriptor (basicGasMeter limit consumed) =
     (let (consumed, overflow) = addUint64Overflow consumed amount in
      if overflow then (Panic (''ErrorGasOverflow: '' @ descriptor), basicGasMeter limit (-1))
      else if limit < consumed then (Panic (''ErrorOutOfGas: '' @ descriptor), basicGasMeter limit consumed)
      else (Ret (), basicGasMeter limit consumed))"
| "ConsumeGas amount descriptor (infiniteGasMeter consumed) =
     (let (consumed, overflow) = addUint64Overflow consumed amount in
      if overflow then (Panic (''ErrorGasOverflow: '' @ descriptor), infiniteGasMeter consumed)
      else (Ret (), infiniteGasMeter consumed))"

fun RefundGas :: "u64 \<Rightarrow> string \<Rightarrow> (GasMeter, unit, unit) go" where
  "RefundGas amount descriptor (basicGasMeter limit consumed) =
     (if consumed < amount then (Panic (''ErrorNegativeGasConsumed: '' @ descriptor), basicGasMeter limit consumed)
      else (Ret (), basicGasMeter limit (consumed - amount)))"
| "RefundGas amount descriptor (infiniteGasMeter consumed) =
     (if consumed < amount then (Panic (''ErrorNegativeGasConsumed: '' @ descriptor), infiniteGasMeter consumed)
      else (Ret (), infiniteGasMeter (consumed - amount)))"

record GasConfig =
  HasCost :: u64
  DeleteCost :: u64
  ReadCostFlat :: u64
  ReadCostPerByte :: u64
  WriteCostFlat :: u64
  WriteCostPerByte :: u64
  IterNextCostFlat :: u64

definition KVGasConfig :: GasConfig where
  "KVGasConfig = \<lparr>HasCost = 1000, DeleteCost = 1000, ReadCostFlat = 1000, ReadCostPerByte = 3,
     WriteCostFlat = 2000, WriteCostPerByte = 30, IterNextCostFlat = 30\<rparr>"

definition TransientGasConfig :: GasConfig where
  "TransientGasConfig = \<lparr>HasCost = 100, DeleteCost = 100, ReadCostFlat = 100, ReadCostPerByte = 0,
     WriteCostFlat = 200, WriteCostPerByte = 3, IterNextCostFlat = 3\<rparr>"

subsection \<open>The metered store\<close>

type_synonym 'p gas_state = "GasMeter \<times> 'p"

definition on_meter :: "(GasMeter, unit, 'a) go \<Rightarrow> ('p gas_state, unit, 'a) go" where
  "on_meter f = (\<lambda>(m, p). case f m of (r, m') \<Rightarrow> (r, (m', p)))"

definition on_store :: "('p, unit, 'a) go \<Rightarrow> ('p gas_state, unit, 'a) go" where
  "on_store f = (\<lambda>(m, p). case f p of (r, p') \<Rightarrow> (r, (m, p')))"

definition value_len :: "string option \<Rightarrow> nat" where
  "value_len v = (case v of None \<Rightarrow> 0 | Some s \<Rightarrow> length s)"

definition gs_Get :: "GasConfig \<Rightarrow> ('p, string) KVStore_if \<Rightarrow> string \<Rightarrow> ('p gas_state, unit, string option) go" where
  "gs_Get cfg P key =
     gbind (on_meter (ConsumeGas (ReadCostFlat cfg) ''ReadFlat'')) (\<lambda>_.
     gbind (on_store (ks_Get P key)) (\<lambda>value.
     gbind (on_meter (ConsumeGas (ReadCostPerByte cfg * of_nat (length key)) ''ReadPerByte'')) (\<lambda>_.
     gbind (on_meter (ConsumeGas (ReadCostPerByte cfg * of_nat (value_len value)) ''ReadPerByte'')) (\<lambda>_.
     gret value))))"

definition gs_Set :: "GasConfig \<Rightarrow> ('p, string) KVStore_if \<Rightarrow> string \<Rightarrow> string option \<Rightarrow> ('p gas_state, unit, unit) go" where
  "gs_Set cfg P key value =
     gbind (AssertValidKey key) (\<lambda>_.
     gbind (AssertValidValue value) (\<lambda>_.
     gbind (on_meter (ConsumeGas (WriteCostFlat cfg) ''WriteFlat'')) (\<lambda>_.
     gbind (on_meter (ConsumeGas (WriteCostPerByte cfg * of_nat (length key)) ''WritePerByte'')) (\<lambda>_.
     gbind (on_meter (ConsumeGas (WriteCostPerByte cfg * of_nat (value_len value)) ''WritePerByte'')) (\<lambda>_.
     on_store (ks_Set P key value))))))"

definition gs_Has :: "GasConfig \<Rightarrow> ('p, string) KVStore_if \<Rightarrow> string \<Rightarrow> ('p gas_state, unit, bool) go" where
  "gs_Has cfg P key = gbind (on_meter (ConsumeGas (HasCost cfg) ''Has'')) (\<lambda>_. on_store (ks_Has P key))"

definition gs_Delete :: "GasConfig \<Rightarrow> ('p, string) KVStore_if \<Rightarrow> string \<Rightarrow> ('p gas_state, unit, unit) go" where
  "gs_Delete cfg P key = gbind (on_meter (ConsumeGas (DeleteCost cfg) ''Delete'')) (\<lambda>_. on_store (ks_Delete P key))"

definition consumeSeekGas :: "GasConfig \<Rightarrow> string item list \<Rightarrow> ('p gas_state, unit, unit) go" where
  "consumeSeekGas cfg iter =
     gbind (case iter of
         [] \<Rightarrow> gret ()
       | (key, value) # _ \<Rightarrow>
           gbind (on_meter (ConsumeGas (ReadCostPerByte cfg * of_nat (length key)) ''ValuePerByte'')) (\<lambda>_.
           on_meter (ConsumeGas (ReadCostPerByte cfg * of_nat (value_len value)) ''ValuePerByte''))) (\<lambda>_.
     on_meter (ConsumeGas (IterNextCostFlat cfg) ''IterNextFlat''))"

text \<open>the consumer's loop: \<open>Next\<close> charges for the item it leaves\<close>

fun gi_loop :: "GasConfig \<Rightarrow> string item list \<Rightarrow> ('p gas_state, unit, string item list) go" where
  "gi_loop cfg [] = gret []"
| "gi_loop cfg (x # iter) = gbind (consumeSeekGas cfg (x # iter)) (\<lambda>_. gbind (gi_loop cfg iter) (\<lambda>xs. gret (x # xs)))"

definition gs_iterator :: "GasConfig \<Rightarrow> ('p, string) KVStore_if \<Rightarrow> string option \<Rightarrow> string option \<Rightarrow> bool \<Rightarrow> ('p gas_state, unit, string item list) go" where
  "gs_iterator cfg P start e ascending =
     gbind (on_store (if ascending then ks_Iterator P start e else ks_ReverseIterator P start e)) (\<lambda>parent.
     gbind (consumeSeekGas cfg parent) (\<lambda>_. gi_loop cfg parent))"

definition gaskv :: "GasConfig \<Rightarrow> ('p, string) KVStore_if \<Rightarrow> ('p gas_state, string) KVStore_if" where
  "gaskv cfg P = \<lparr>ks_Get = gs_Get cfg P, ks_Has = gs_Has cfg P, ks_Set = gs_Set cfg P, ks_Delete = gs_Delete cfg P,
     ks_Iterator = (\<lambda>start e. gs_iterator cfg P start e True), ks_ReverseIterator = (\<lambda>start e. gs_iterator cfg P start e False)\<rparr>"

subsection \<open>Charging\<close>

definition within :: "GasMeter \<Rightarrow> bool" where
  "within m \<longleftrightarrow> GasConsumed m \<le> Limit m"

text \<open>both meters succeed exactly when the sum, taken in the integers, is within the limit\<close>

lemma addUint64Overflow_exact:
  "addUint64Overflow a b = (if unat a + unat b < 2 ^ 64 then (a + b, False) else (0, True))"
proof -
  have "unat (-1 - a) = 2 ^ 64 - 1 - unat a" by (simp add: unat_sub unsigned_minus_1_eq_mask mask_eq_exp_minus_1)
  then have "-1 - a < b \<longleftrightarrow> 2 ^ 64 \<le> unat a + unat b"
    using unsigned_less [of a, where ?'a = nat] by (auto simp: word_less_nat_alt)
  then show ?thesis by (simp add: addUint64Overflow_def)
qed

lemma ConsumeGas_exact:
  assumes "within m"
  shows "if unat (GasConsumed m) + unat a \<le> unat (Limit m)
    then \<exists>m'. ConsumeGas a d m = (Ret (), m') \<and> within m' \<and> Limit m' = Limit m \<and> unat (GasConsumed m') = unat (GasConsumed m) + unat a
    else \<exists>msg m'. ConsumeGas a d m = (Panic msg, m')"
proof -
  have top: "unat (-1 :: u64) = 2 ^ 64 - 1" by (simp add: unsigned_minus_1_eq_mask mask_eq_exp_minus_1)
  have sum: "unat (c + a) = unat c + unat a" if "unat c + unat a < 2 ^ 64" for c :: u64
    using that by (simp add: unat_word_ariths)
  show ?thesis
  proof (cases m)
    case (basicGasMeter l c)
    have "unat l < 2 ^ 64" using unsigned_less [of l, where ?'a = nat] by simp
    then show ?thesis using sum [of c]
      by (auto simp: basicGasMeter addUint64Overflow_exact GasConsumed_def within_def word_less_nat_alt word_le_nat_alt)
  next
    case (infiniteGasMeter c)
    then show ?thesis using sum [of c] top
      by (auto simp: addUint64Overflow_exact GasConsumed_def within_def word_le_nat_alt)
  qed
qed

text \<open>
  \<open>pays n f s R\<close>: with enough gas left, \<open>f\<close> returns, has consumed \<open>n\<close> and its result and
  store satisfy \<open>R\<close>; otherwise it panics.
\<close>

definition pays :: "nat \<Rightarrow> ('p gas_state, unit, 'a) go \<Rightarrow> 'p gas_state \<Rightarrow> ('a \<Rightarrow> 'p \<Rightarrow> bool) \<Rightarrow> bool" where
  "pays n f s R \<longleftrightarrow>
     (if unat (GasConsumed (fst s)) + n \<le> unat (Limit (fst s))
      then \<exists>a m p. f s = (Ret a, (m, p)) \<and> within m \<and> Limit m = Limit (fst s) \<and>
        unat (GasConsumed m) = unat (GasConsumed (fst s)) + n \<and> R a p
      else \<exists>msg t. f s = (Panic msg, t))"

lemma pays_bind:
  assumes f: "pays n f s R" and g: "\<And>a m p. within m \<Longrightarrow> R a p \<Longrightarrow> pays k (g a) (m, p) Q"
  shows "pays (n + k) (gbind f g) s Q"
proof (cases "unat (GasConsumed (fst s)) + n \<le> unat (Limit (fst s))")
  case True
  then obtain a m p where r: "f s = (Ret a, (m, p))" "within m" "Limit m = Limit (fst s)"
    "unat (GasConsumed m) = unat (GasConsumed (fst s)) + n" "R a p"
    using f by (auto simp: pays_def)
  then show ?thesis using g [OF r(2,5)] by (auto simp: pays_def gbind_eval add.assoc split: if_splits)
next
  case False
  then show ?thesis using f by (auto simp: pays_def gbind_eval)
qed

lemma pays_meter: "within m \<Longrightarrow> pays (unat a) (on_meter (ConsumeGas a d)) (m, p) (\<lambda>_ q. q = p)"
  using ConsumeGas_exact [of m a d] by (auto simp: pays_def on_meter_def split: if_splits)

text \<open>rules that follow the shape of the methods\<close>

lemma pays_charge:
  assumes "within m" "\<And>m'. within m' \<Longrightarrow> pays k f (m', p) Q"
  shows "pays (unat a + k) (gbind (on_meter (ConsumeGas a d)) (\<lambda>_. f)) (m, p) Q"
  by (rule pays_bind [OF pays_meter [OF assms(1)]]) (use assms(2) in simp)

lemma pays_access: "f p = (Ret a, q) \<Longrightarrow> pays k (g a) (m, q) Q \<Longrightarrow> pays k (gbind (on_store f) g) (m, p) Q"
  by (auto simp: pays_def on_store_def gbind_def split: if_splits)

lemma pays_store: "within m \<Longrightarrow> f p = (Ret a, q) \<Longrightarrow> Q a q \<Longrightarrow> pays 0 (on_store f) (m, p) Q"
  by (auto simp: pays_def on_store_def within_def word_le_nat_alt)

lemma pays_ret: "within m \<Longrightarrow> Q a p \<Longrightarrow> pays 0 (gret a) (m, p) Q"
  by (auto simp: pays_def go_simps within_def word_le_nat_alt)

lemma pays_map: "pays n f s R \<Longrightarrow> (\<And>a q. R a q \<Longrightarrow> Q (h a) q) \<Longrightarrow> pays n (gbind f (\<lambda>a. gret (h a))) s Q"
  by (auto simp: pays_def gbind_def go_simps split: if_splits)

definition item_cost :: "GasConfig \<Rightarrow> string item \<Rightarrow> nat" where
  "item_cost cfg x = unat (ReadCostPerByte cfg * of_nat (length (fst x))) + unat (ReadCostPerByte cfg * of_nat (value_len (snd x)))"

definition scan_cost :: "GasConfig \<Rightarrow> string item list \<Rightarrow> nat" where
  "scan_cost cfg xs = (if xs = [] then 0 else item_cost cfg (hd xs)) + unat (IterNextCostFlat cfg) +
     sum_list (map (\<lambda>x. item_cost cfg x + unat (IterNextCostFlat cfg)) xs)"

fun call_cost :: "GasConfig \<Rightarrow> string kv_call \<Rightarrow> string kv \<Rightarrow> nat" where
  "call_cost cfg (CallGet k) m = unat (ReadCostFlat cfg) + item_cost cfg (k, kv_get m k)"
| "call_cost cfg (CallHas k) m = unat (HasCost cfg)"
| "call_cost cfg (CallSet k v) m =
     unat (WriteCostFlat cfg) + unat (WriteCostPerByte cfg * of_nat (length k)) + unat (WriteCostPerByte cfg * of_nat (length v))"
| "call_cost cfg (CallDelete k) m = unat (DeleteCost cfg)"
| "call_cost cfg (CallIterator start e) m = scan_cost cfg (range_items True start e (somes m))"
| "call_cost cfg (CallReverseIterator start e) m = scan_cost cfg (range_items False start e (somes m))"

fun calls_cost :: "GasConfig \<Rightarrow> string kv_call list \<Rightarrow> string kv \<Rightarrow> nat" where
  "calls_cost cfg [] m = 0"
| "calls_cost cfg (c # cs) m = call_cost cfg c m + calls_cost cfg cs (snd (map_call c m))"

lemma pays_seek:
  assumes "within m"
  shows "pays ((if xs = [] then 0 else item_cost cfg (hd xs)) + unat (IterNextCostFlat cfg)) (consumeSeekGas cfg xs) (m, p) (\<lambda>_ q. q = p)"
proof (cases xs)
  case Nil
  then show ?thesis using pays_meter [OF assms] by (simp add: consumeSeekGas_def go_simps)
next
  case (Cons x ys)
  have "pays (item_cost cfg x) (gbind (on_meter (ConsumeGas (ReadCostPerByte cfg * of_nat (length (fst x))) ''ValuePerByte''))
      (\<lambda>_. on_meter (ConsumeGas (ReadCostPerByte cfg * of_nat (value_len (snd x))) ''ValuePerByte''))) (m, p) (\<lambda>_ q. q = p)"
    unfolding item_cost_def by (rule pays_charge [OF assms], rule pays_meter)
  from pays_bind [OF this, of "unat (IterNextCostFlat cfg)" "\<lambda>_. on_meter (ConsumeGas (IterNextCostFlat cfg) ''IterNextFlat'')" "\<lambda>_ q. q = p"]
  show ?thesis by (simp add: Cons consumeSeekGas_def case_prod_beta pays_meter)
qed

lemma pays_loop:
  "within m \<Longrightarrow> pays (sum_list (map (\<lambda>x. item_cost cfg x + unat (IterNextCostFlat cfg)) xs)) (gi_loop cfg xs) (m, p) (\<lambda>ys q. ys = xs \<and> q = p)"
proof (induction xs arbitrary: m)
  case Nil
  then show ?case by (simp add: pays_ret)
next
  case (Cons x xs)
  let ?tail = "gbind (gi_loop cfg xs) (\<lambda>ys. gret (x # ys))"
  have "pays (sum_list (map (\<lambda>x. item_cost cfg x + unat (IterNextCostFlat cfg)) xs)) ?tail (m', p) (\<lambda>ys q. ys = x # xs \<and> q = p)"
    if "within m'" for m' by (rule pays_map [OF Cons.IH [OF that]]) simp
  with pays_bind [OF pays_seek [OF Cons.prems, of "x # xs" cfg p], of _ "\<lambda>_. ?tail" "\<lambda>ys q. ys = x # xs \<and> q = p"]
  show ?case by simp
qed

lemma pays_scan:
  assumes m: "within m" and it: "(if asc then ks_Iterator P start e else ks_ReverseIterator P start e) p = (Ret xs, q)" and Q: "Q xs q"
  shows "pays (scan_cost cfg xs) (gs_iterator cfg P start e asc) (m, p) Q"
proof -
  have "pays (scan_cost cfg xs) (gbind (consumeSeekGas cfg xs) (\<lambda>_. gi_loop cfg xs)) (m, q) (\<lambda>ys r. ys = xs \<and> r = q)"
    unfolding scan_cost_def by (rule pays_bind [OF pays_seek [OF m]]) (simp add: pays_loop)
  then have "pays (scan_cost cfg xs) (gbind (consumeSeekGas cfg xs) (\<lambda>_. gi_loop cfg xs)) (m, q) Q"
    using Q by (auto simp: pays_def split: if_splits)
  with it show ?thesis unfolding gs_iterator_def by (intro pays_access)
qed

lemma pays_call:
  assumes P: "kv_layer P pinv pabs" and p: "pinv p" and c: "call_ok c" and m: "within m"
  shows "pays (call_cost cfg c (pabs p)) (run_call (gaskv cfg P) c) (m, p)
    (\<lambda>a q. a = fst (map_call c (pabs p)) \<and> pinv q \<and> pabs q = snd (map_call c (pabs p)))"
proof -
  note R = kv_layer.axioms(1) [OF P]
  show ?thesis
  proof (cases c)
    case (CallGet k)
    obtain q where q: "ks_Get P k p = (Ret (kv_get (pabs p) k), q)" "pinv q" "pabs q = pabs p"
      using kv_reader.get [OF R p, of k] c CallGet by auto
    have "pays (unat (ReadCostFlat cfg) + (unat (ReadCostPerByte cfg * of_nat (length k)) +
        (unat (ReadCostPerByte cfg * of_nat (value_len (kv_get (pabs p) k))) + 0))) (gs_Get cfg P k) (m, p)
        (\<lambda>a r. a = kv_get (pabs p) k \<and> pinv r \<and> pabs r = pabs p)"
      unfolding gs_Get_def by (intro pays_charge pays_access [of "ks_Get P k", OF q(1)] pays_ret m) (simp_all add: q)
    then show ?thesis by (auto simp: CallGet gaskv_def item_cost_def add.assoc intro: pays_map)
  next
    case (CallHas k)
    obtain q where q: "ks_Has P k p = (Ret (kv_has (pabs p) k), q)" "pinv q" "pabs q = pabs p"
      using kv_reader.has [OF R p, of k] c CallHas by auto
    have "pays (unat (HasCost cfg) + 0) (gs_Has cfg P k) (m, p) (\<lambda>a r. a = kv_has (pabs p) k \<and> pinv r \<and> pabs r = pabs p)"
      unfolding gs_Has_def by (intro pays_charge pays_store [of _ "ks_Has P k", OF _ q(1)] m) (simp_all add: q)
    then show ?thesis by (auto simp: CallHas gaskv_def intro: pays_map)
  next
    case (CallSet k v)
    obtain q where q: "ks_Set P k (Some v) p = (Ret (), q)" "pinv q" "pabs q = kv_set k v (pabs p)"
      using kv_layer.put [OF P p, of k v] c CallSet by auto
    have "pays (unat (WriteCostFlat cfg) + (unat (WriteCostPerByte cfg * of_nat (length k)) +
        (unat (WriteCostPerByte cfg * of_nat (value_len (Some v))) + 0))) (gs_Set cfg P k (Some v)) (m, p)
        (\<lambda>a r. pinv r \<and> pabs r = kv_set k v (pabs p))"
      unfolding gs_Set_def AssertValidKey_def AssertValidValue_def using c CallSet
      by (simp only: call_ok.simps if_False gbind_basic option.distinct)
        (intro pays_charge pays_store [of _ "ks_Set P k (Some v)", OF _ q(1)] m; simp add: q)
    then show ?thesis by (auto simp: CallSet gaskv_def value_len_def add.assoc intro: pays_map)
  next
    case (CallDelete k)
    obtain q where q: "ks_Delete P k p = (Ret (), q)" "pinv q" "pabs q = kv_delete k (pabs p)"
      using kv_layer.delete [OF P p, of k] c CallDelete by auto
    have "pays (unat (DeleteCost cfg) + 0) (gs_Delete cfg P k) (m, p) (\<lambda>a r. pinv r \<and> pabs r = kv_delete k (pabs p))"
      unfolding gs_Delete_def by (intro pays_charge pays_store [of _ "ks_Delete P k", OF _ q(1)] m) (simp_all add: q)
    then show ?thesis by (auto simp: CallDelete gaskv_def intro: pays_map)
  next
    case (CallIterator start e)
    obtain q where q: "ks_Iterator P start e p = (Ret (range_items True start e (somes (pabs p))), q)" "pinv q" "pabs q = pabs p"
      using kv_reader.iter [OF R p, of start e] c CallIterator by auto
    have "pays (scan_cost cfg (range_items True start e (somes (pabs p)))) (gs_iterator cfg P start e True) (m, p)
        (\<lambda>a r. a = range_items True start e (somes (pabs p)) \<and> pinv r \<and> pabs r = pabs p)"
      by (rule pays_scan [OF m, of True P start e p _ q]) (simp_all add: q)
    then show ?thesis by (auto simp: CallIterator gaskv_def intro: pays_map)
  next
    case (CallReverseIterator start e)
    obtain q where q: "ks_ReverseIterator P start e p = (Ret (range_items False start e (somes (pabs p))), q)" "pinv q" "pabs q = pabs p"
      using kv_reader.riter [OF R p, of start e] c CallReverseIterator by auto
    have "pays (scan_cost cfg (range_items False start e (somes (pabs p)))) (gs_iterator cfg P start e False) (m, p)
        (\<lambda>a r. a = range_items False start e (somes (pabs p)) \<and> pinv r \<and> pabs r = pabs p)"
      by (rule pays_scan [OF m, of False P start e p _ q]) (simp_all add: q)
    then show ?thesis by (auto simp: CallReverseIterator gaskv_def intro: pays_map)
  qed
qed

text \<open>
  C29. A metered program of calls has the answers and the effect of the unmetered one, and has
  consumed exactly its cost, when consumption and cost together are within the limit of the
  meter; otherwise it panics. This holds for both kinds of meters, the limit of the infinite one
  being the largest 64-bit number.
\<close>

theorem metered_calls:
  assumes P: "kv_layer P pinv pabs" and p: "pinv p" and cs: "\<forall>c \<in> set cs. call_ok c" and m: "GasConsumed m \<le> Limit m"
  shows "if unat (GasConsumed m) + calls_cost cfg cs (pabs p) \<le> unat (Limit m)
    then \<exists>m' q. kv_calls (gaskv cfg P) cs (m, p) = (Ret (fst (map_calls cs (pabs p))), (m', q)) \<and>
      unat (GasConsumed m') = unat (GasConsumed m) + calls_cost cfg cs (pabs p) \<and> pinv q \<and> pabs q = snd (map_calls cs (pabs p))
    else \<exists>msg t. kv_calls (gaskv cfg P) cs (m, p) = (Panic msg, t)"
proof -
  have "pays (calls_cost cfg cs (pabs p)) (kv_calls (gaskv cfg P) cs) (m, p)
      (\<lambda>as q. as = fst (map_calls cs (pabs p)) \<and> pinv q \<and> pabs q = snd (map_calls cs (pabs p)))"
    using p cs m [folded within_def]
  proof (induction cs arbitrary: p m)
    case Nil
    then show ?case by (simp add: pays_ret)
  next
    case (Cons c cs)
    let ?m = "snd (map_call c (pabs p))"
    let ?R = "\<lambda>a q. a = fst (map_call c (pabs p)) \<and> pinv q \<and> pabs q = ?m"
    have "pays (call_cost cfg c (pabs p) + calls_cost cfg cs ?m) (kv_calls (gaskv cfg P) (c # cs)) (m, p)
        (\<lambda>as q. as = fst (map_calls (c # cs) (pabs p)) \<and> pinv q \<and> pabs q = snd (map_calls (c # cs) (pabs p)))"
      unfolding kv_calls.simps
    proof (rule pays_bind [where R = ?R])
      show "pays (call_cost cfg c (pabs p)) (run_call (gaskv cfg P) c) (m, p) ?R"
        using pays_call [OF P] Cons.prems by simp
      fix a m' q
      assume "within m'" "?R a q"
      then show "pays (calls_cost cfg cs ?m) (gbind (kv_calls (gaskv cfg P) cs) (\<lambda>as. gret (a # as))) (m', q)
          (\<lambda>as q. as = fst (map_calls (c # cs) (pabs p)) \<and> pinv q \<and> pabs q = snd (map_calls (c # cs) (pabs p)))"
        using Cons.IH [of q m'] Cons.prems(2) by (auto simp: Let_def case_prod_beta intro!: pays_map)
    qed
    then show ?case by simp
  qed
  then show ?thesis by (auto simp: pays_def split: if_splits)
qed

theorem metered_calls_witness:
  "\<exists>m q. kv_calls (gaskv KVGasConfig base_store) [CallSet ''ab'' ''xyz'', CallGet ''ab'', CallIterator None None] (NewGasMeter 5000, [])
      = (Ret [Done, Value (Some ''xyz''), Items [(''ab'', Some ''xyz'')]], (m, q)) \<and> unat (GasConsumed m) = 3255 \<and> q = [(''ab'', ''xyz'')]"
proof -
  let ?cs = "[CallSet ''ab'' ''xyz'', CallGet ''ab'', CallIterator None None]"
  have c: "calls_cost KVGasConfig ?cs [] = 3255"
    by (simp add: KVGasConfig_def item_cost_def scan_cost_def value_len_def kv_get_def somes_def range_items_def in_range_def)
  have m: "map_calls ?cs [] = ([Done, Value (Some ''xyz''), Items [(''ab'', Some ''xyz'')]], [(''ab'', ''xyz'')])"
    by (simp add: kv_get_def somes_def range_items_def in_range_def)
  show ?thesis
    using metered_calls [OF base.kv_layer_axioms, of "[]" ?cs "NewGasMeter 5000" KVGasConfig] c m
    by (auto simp: NewGasMeter_def GasConsumed_def simp del: kv_calls.simps calls_cost.simps map_calls.simps)
qed

end
