(* ===== verification/BaseApp.thy ===== *)
theory BaseApp
  imports GasKV
begin

section \<open>Running a transaction\<close>

text \<open>
  \<open>cosmos-sdk/baseapp/baseapp.go\<close>: \<open>runTx\<close> with its two branches of the multistore,
  the deferred consumption of block gas and the recovery from panics, \<open>runMsgs\<close>, the block
  gas meter and \<open>DeliverTx\<close> over a block. A branch of the store is a copy of its state
  and \<open>Write\<close> puts the copy back, which is what \<open>CacheKV\<close> proves of caches. A gas
  meter is shared by the contexts that point to it, so what a handler has consumed stays
  consumed when its writes are dropped.

  The application is a record of its parts: decoder, ante and post handlers, message
  handlers and mempool. An ante handler returns its error, if any, and the gas meter of the
  context it returns (\<open>None\<close> for the zero context). Events, logs and telemetry are left out.
\<close>

datatype runTxMode = runTxModeCheck | runTxModeReCheck | runTxModeSimulate | runTxModeDeliver | runTxPrepareProposal | runTxProcessProposal

datatype 'e tx_err =
    AppErr 'e | MsgFailed nat 'e | NoBlockGas | NoMessages | Unroutable nat | NilResponse nat | MarshalFailed
  | MempoolErr 'e | AnteAndMempool 'e 'e | ErrOutOfGas string | ErrPanic string

record ('s, 'tx, 'msg, 'r, 'm, 'e) BaseApp =
  ba_txDecoder :: "string \<Rightarrow> 'e + 'tx"
  ba_GetMsgs :: "'tx \<Rightarrow> 'msg list"
  ba_ValidateBasic :: "'msg \<Rightarrow> 'e option"
  ba_anteHandler :: "('tx \<Rightarrow> bool \<Rightarrow> (GasMeter \<times> 's, unit, 'e option \<times> GasMeter option) go) option"
  ba_Handler :: "'msg \<Rightarrow> ('msg \<Rightarrow> (GasMeter \<times> 's, 'e, 'r option list) go) option"
  ba_postHandler :: "('tx \<Rightarrow> bool \<Rightarrow> (GasMeter \<times> 's, 'e, unit) go) option"
  ba_marshal :: "'r list \<Rightarrow> string option"
  ba_mempool_Insert :: "'tx \<Rightarrow> ('m, 'e, unit) go"
  ba_mempool_Remove :: "'tx \<Rightarrow> ('m, 'e, unit) go"
  ba_is_ErrTxNotFound :: "'e \<Rightarrow> bool"

record ('s, 'm) tx_state =
  ts_gas :: GasMeter
  ts_blockGas :: GasMeter
  ts_ms :: 's
  ts_mempool :: 'm
  ts_gasWanted :: u64
  ts_blockGasConsumed :: bool

type_synonym ('s, 'm, 'e, 'a) tx = "(('s, 'm) tx_state, 'e tx_err, 'a) go"

definition on_mempool :: "('m, 'e, 'a) go \<Rightarrow> ('s, 'm, 'e, 'e + 'a) tx" where
  "on_mempool f = (\<lambda>s. case f (ts_mempool s) of
     (Ret a, m) \<Rightarrow> (Ret (Inr a), s\<lparr>ts_mempool := m\<rparr>)
   | (Err e, m) \<Rightarrow> (Ret (Inl e), s\<lparr>ts_mempool := m\<rparr>)
   | (Panic p, m) \<Rightarrow> (Panic p, s\<lparr>ts_mempool := m\<rparr>))"

fun validateBasicTxMsgs_loop :: "('s, 'tx, 'msg, 'r, 'm, 'e) BaseApp \<Rightarrow> 'msg list \<Rightarrow> 'e option" where
  "validateBasicTxMsgs_loop A [] = None"
| "validateBasicTxMsgs_loop A (msg # msgs) = (case ba_ValidateBasic A msg of Some e \<Rightarrow> Some e | None \<Rightarrow> validateBasicTxMsgs_loop A msgs)"

definition validateBasicTxMsgs :: "('s, 'tx, 'msg, 'r, 'm, 'e) BaseApp \<Rightarrow> 'msg list \<Rightarrow> 'e tx_err option" where
  "validateBasicTxMsgs A msgs = (if msgs = [] then Some NoMessages else map_option AppErr (validateBasicTxMsgs_loop A msgs))"

text \<open>the loop of \<open>runMsgs\<close> from message \<open>i\<close> on, with the responses collected so far\<close>

fun runMsgs_loop :: "('s, 'tx, 'msg, 'r, 'm, 'e) BaseApp \<Rightarrow> runTxMode \<Rightarrow> nat \<Rightarrow> 'msg list \<Rightarrow> 'r list \<Rightarrow> (GasMeter \<times> 's, 'e tx_err, 'r list) go" where
  "runMsgs_loop A mode i [] msgResponses = gret msgResponses"
| "runMsgs_loop A mode i (msg # msgs) msgResponses =
     (if mode \<noteq> runTxModeDeliver \<and> mode \<noteq> runTxModeSimulate then gret msgResponses
      else case ba_Handler A msg of
        None \<Rightarrow> gerr (Unroutable i)
      | Some handler \<Rightarrow> gbind (gmap_err (MsgFailed i) (handler msg)) (\<lambda>msgResult. case msgResult of
            [] \<Rightarrow> runMsgs_loop A mode (Suc i) msgs msgResponses
          | None # _ \<Rightarrow> gerr (NilResponse i)
          | Some r # _ \<Rightarrow> runMsgs_loop A mode (Suc i) msgs (msgResponses @ [r])))"

definition runMsgs :: "('s, 'tx, 'msg, 'r, 'm, 'e) BaseApp \<Rightarrow> 'msg list \<Rightarrow> runTxMode \<Rightarrow> (GasMeter \<times> 's, 'e tx_err, string) go" where
  "runMsgs A msgs mode = gbind (runMsgs_loop A mode 0 msgs []) (\<lambda>msgResponses. gopt_err MarshalFailed (ba_marshal A msgResponses))"

definition consumeBlockGas :: "('s, 'm, 'e, unit) tx" where
  "consumeBlockGas = (\<lambda>s.
     if ts_blockGasConsumed s then (Ret (), s)
     else case ConsumeGas (GasConsumedToLimit (ts_gas s)) ''block gas meter'' (ts_blockGas s) of
       (Panic p, g) \<Rightarrow> (Panic p, s\<lparr>ts_blockGasConsumed := True, ts_blockGas := g\<rparr>)
     | (_, g) \<Rightarrow> (Ret (), s\<lparr>ts_blockGasConsumed := True, ts_blockGas := g\<rparr>))"

text \<open>the ante handler on a branch that is written when it succeeds\<close>

definition runAnte :: "('s, 'tx, 'msg, 'r, 'm, 'e) BaseApp \<Rightarrow> runTxMode \<Rightarrow> 'tx \<Rightarrow> ('s, 'm, 'e, unit) tx" where
  "runAnte A mode t = (case ba_anteHandler A of
     None \<Rightarrow> gret ()
   | Some anteHandler \<Rightarrow> (\<lambda>s. case anteHandler t (mode = runTxModeSimulate) (ts_gas s, ts_ms s) of
       (Ret (err, newCtx), (g, ms)) \<Rightarrow>
         (let gas = (case newCtx of Some g' \<Rightarrow> g' | None \<Rightarrow> g);
              s = s\<lparr>ts_gas := gas, ts_gasWanted := Limit gas\<rparr>
          in case err of
               Some e \<Rightarrow>
                 (if mode = runTxModeReCheck
                  then gbind (on_mempool (ba_mempool_Remove A t)) (\<lambda>r. case r of Inl m \<Rightarrow> gerr (AnteAndMempool e m) | Inr _ \<Rightarrow> gerr (AppErr e)) s
                  else (Err (AppErr e), s))
             | None \<Rightarrow> (Ret (), s\<lparr>ts_ms := ms\<rparr>))
     | (Err _, (g, ms)) \<Rightarrow> (Panic ''unreachable'', s\<lparr>ts_gas := g\<rparr>)
     | (Panic p, (g, ms)) \<Rightarrow> (Panic p, s\<lparr>ts_gas := g\<rparr>)))"

definition updateMempool :: "('s, 'tx, 'msg, 'r, 'm, 'e) BaseApp \<Rightarrow> runTxMode \<Rightarrow> 'tx \<Rightarrow> ('s, 'm, 'e, unit) tx" where
  "updateMempool A mode t =
     (if mode = runTxModeCheck then
        gbind (on_mempool (ba_mempool_Insert A t)) (\<lambda>r. case r of Inl e \<Rightarrow> gerr (MempoolErr e) | Inr _ \<Rightarrow> gret ())
      else if mode = runTxModeDeliver then
        gbind (on_mempool (ba_mempool_Remove A t)) (\<lambda>r. case r of
            Inl e \<Rightarrow> (if ba_is_ErrTxNotFound A e then gret () else gerr (MempoolErr e))
          | Inr _ \<Rightarrow> gret ())
      else gret ())"

text \<open>messages and post handler on a second branch, written only when a block is delivered\<close>

definition runBranch :: "('s, 'tx, 'msg, 'r, 'm, 'e) BaseApp \<Rightarrow> runTxMode \<Rightarrow> 'tx \<Rightarrow> 'msg list \<Rightarrow> ('s, 'm, 'e, string) tx" where
  "runBranch A mode t msgs = (\<lambda>s.
     case gbind (runMsgs A msgs mode) (\<lambda>result. case ba_postHandler A of
            None \<Rightarrow> gret result
          | Some postHandler \<Rightarrow> gbind (gmap_err AppErr (postHandler t (mode = runTxModeSimulate))) (\<lambda>_. gret result))
          (ts_gas s, ts_ms s) of
       (Ret result, (g, ms)) \<Rightarrow>
         (let s = s\<lparr>ts_gas := g\<rparr> in
          if mode = runTxModeDeliver then gbind consumeBlockGas (\<lambda>_. gbind (gmod (\<lambda>s. s\<lparr>ts_ms := ms\<rparr>)) (\<lambda>_. gret result)) s
          else (Ret result, s))
     | (Err e, (g, ms)) \<Rightarrow> (Err e, s\<lparr>ts_gas := g\<rparr>)
     | (Panic p, (g, ms)) \<Rightarrow> (Panic p, s\<lparr>ts_gas := g\<rparr>))"

definition runTx_body :: "('s, 'tx, 'msg, 'r, 'm, 'e) BaseApp \<Rightarrow> runTxMode \<Rightarrow> string \<Rightarrow> ('s, 'm, 'e, string) tx" where
  "runTx_body A mode txBytes = (case ba_txDecoder A txBytes of
     Inl e \<Rightarrow> gerr (AppErr e)
   | Inr t \<Rightarrow> (let msgs = ba_GetMsgs A t in
       case validateBasicTxMsgs A msgs of
         Some e \<Rightarrow> gerr e
       | None \<Rightarrow>
           gbind (runAnte A mode t) (\<lambda>_.
           gbind (updateMempool A mode t) (\<lambda>_.
           runBranch A mode t msgs))))"

text \<open>the deferred functions: block gas first, then the recovery; a panic there replaces the outcome\<close>

definition deferred_block_gas :: "runTxMode \<Rightarrow> ('e tx_err, 'a) outcome \<times> ('s, 'm) tx_state \<Rightarrow> ('e tx_err, 'a) outcome \<times> ('s, 'm) tx_state" where
  "deferred_block_gas mode rs =
     (if mode = runTxModeDeliver then
        (case (consumeBlockGas :: ('s, 'm, 'e, unit) tx) (snd rs) of
           (Panic p, s) \<Rightarrow> (Panic p, s)
         | (_, s) \<Rightarrow> (fst rs, s))
      else rs)"

definition recovered :: "string \<Rightarrow> 'e tx_err" where
  "recovered p = (if take 15 p = ''ErrorOutOfGas: '' then ErrOutOfGas (drop 15 p) else ErrPanic p)"

record GasInfo =
  gi_GasWanted :: u64
  gi_GasUsed :: u64

definition runTx :: "('s, 'tx, 'msg, 'r, 'm, 'e) BaseApp \<Rightarrow> runTxMode \<Rightarrow> string \<Rightarrow> ('s, 'm) tx_state \<Rightarrow>
    (GasInfo \<times> ('e tx_err + string)) \<times> ('s, 'm) tx_state" where
  "runTx A mode txBytes s0 =
     (let s = s0\<lparr>ts_gasWanted := 0, ts_blockGasConsumed := False\<rparr> in
      if mode = runTxModeDeliver \<and> IsOutOfGas (ts_blockGas s) then ((\<lparr>gi_GasWanted = 0, gi_GasUsed = 0\<rparr>, Inl NoBlockGas), s)
      else let (r, t) = deferred_block_gas mode (runTx_body A mode txBytes s);
               gInfo = \<lparr>gi_GasWanted = ts_gasWanted t, gi_GasUsed = GasConsumed (ts_gas t)\<rparr>;
               t = (if mode = runTxModeSimulate then t\<lparr>ts_ms := ts_ms s0\<rparr> else t)
           in case r of
                Ret result \<Rightarrow> ((gInfo, Inr result), t)
              | Err e \<Rightarrow> ((gInfo, Inl e), t)
              | Panic p \<Rightarrow> ((gInfo, Inl (recovered p)), t))"

subsection \<open>A block of transactions\<close>

text \<open>\<open>GetMaximumBlockGas\<close> of the consensus parameters (\<open>None\<close> when there are none) and the meter made from it\<close>

definition GetMaximumBlockGas :: "int option \<Rightarrow> u64 option" where
  "GetMaximumBlockGas maxGas = (case maxGas of
     None \<Rightarrow> Some 0
   | Some g \<Rightarrow> if g < -1 then None else if g = -1 then Some 0 else Some (word_of_int g))"

definition getBlockGasMeter :: "int option \<Rightarrow> GasMeter option" where
  "getBlockGasMeter maxGas = map_option (\<lambda>g. if 0 < g then NewGasMeter g else NewInfiniteGasMeter) (GetMaximumBlockGas maxGas)"

text \<open>delivering transactions in turn, each with the gas meter its context has at that point\<close>

fun deliver_block :: "('s, 'tx, 'msg, 'r, 'm, 'e) BaseApp \<Rightarrow> (GasMeter \<times> string) list \<Rightarrow> ('s, 'm) tx_state \<Rightarrow>
    (GasInfo \<times> ('e tx_err + string)) list \<times> ('s, 'm) tx_state" where
  "deliver_block A [] s = ([], s)"
| "deliver_block A ((g, txBytes) # txs) s =
     (let (r, t) = runTx A runTxModeDeliver txBytes (s\<lparr>ts_gas := g\<rparr>); (rs, u) = deliver_block A txs t in (r # rs, u))"

subsection \<open>What the phases leave behind\<close>

text \<open>the store and meter after a successful ante handler, and the run of the messages from there\<close>

definition ante_effect :: "('s, 'tx, 'msg, 'r, 'm, 'e) BaseApp \<Rightarrow> runTxMode \<Rightarrow> 'tx \<Rightarrow> GasMeter \<times> 's \<Rightarrow> (GasMeter \<times> 's) option" where
  "ante_effect A mode t gs = (case ba_anteHandler A of
     None \<Rightarrow> Some gs
   | Some h \<Rightarrow> (case h t (mode = runTxModeSimulate) gs of
       (Ret (None, newCtx), (g, ms)) \<Rightarrow> Some (case newCtx of Some g' \<Rightarrow> g' | None \<Rightarrow> g, ms)
     | _ \<Rightarrow> None))"

definition branch_run :: "('s, 'tx, 'msg, 'r, 'm, 'e) BaseApp \<Rightarrow> runTxMode \<Rightarrow> 'tx \<Rightarrow> (GasMeter \<times> 's, 'e tx_err, string) go" where
  "branch_run A mode t =
     gbind (runMsgs A (ba_GetMsgs A t) mode) (\<lambda>result. case ba_postHandler A of
       None \<Rightarrow> gret result
     | Some postHandler \<Rightarrow> gbind (gmap_err AppErr (postHandler t (mode = runTxModeSimulate))) (\<lambda>_. gret result))"

lemma gbind_cases:
  assumes "gbind m f s = (r, u)"
  obtains (Ret) a t where "m s = (Ret a, t)" "f a t = (r, u)" | (Err) e where "m s = (Err e, u)" "r = Err e" | (Panic) p where "m s = (Panic p, u)" "r = Panic p"
  using assms by (cases "m s"; cases "fst (m s)") (auto simp: gbind_def)

abbreviation same_block :: "('s, 'm) tx_state \<Rightarrow> ('s, 'm) tx_state \<Rightarrow> bool" where
  "same_block s t \<equiv> ts_blockGas t = ts_blockGas s \<and> ts_blockGasConsumed t = ts_blockGasConsumed s"

lemma on_mempool_frame: "on_mempool f s = (r, t) \<Longrightarrow> same_block s t \<and> ts_ms t = ts_ms s \<and> ts_gas t = ts_gas s"
  by (auto simp: on_mempool_def split: prod.splits outcome.splits)

lemma runAnte_frame:
  assumes "runAnte A mode tr s = (r, t)"
  shows "same_block s t \<and> (case r of
      Ret _ \<Rightarrow> ante_effect A mode tr (ts_gas s, ts_ms s) = Some (ts_gas t, ts_ms t)
    | _ \<Rightarrow> ts_ms t = ts_ms s)"
proof (cases "ba_anteHandler A")
  case None
  then show ?thesis using assms by (auto simp: runAnte_def ante_effect_def go_simps)
next
  case (Some h)
  obtain o1 g ms where h: "h tr (mode = runTxModeSimulate) (ts_gas s, ts_ms s) = (o1, (g, ms))" by (metis prod.collapse)
  show ?thesis
  proof (cases o1)
    case (Ret p)
    obtain err nc where p: "p = (err, nc)" by fastforce
    show ?thesis
      using assms h Ret p Some
      by (cases err) (auto simp: runAnte_def ante_effect_def Let_def go_simps split: if_splits sum.splits elim!: gbind_cases dest!: on_mempool_frame)
  qed (use assms h Some in \<open>auto simp: runAnte_def\<close>)
qed

lemma updateMempool_frame: "updateMempool A mode tr s = (r, t) \<Longrightarrow> same_block s t \<and> ts_ms t = ts_ms s \<and> ts_gas t = ts_gas s"
  by (auto simp: updateMempool_def go_simps split: if_splits sum.splits elim!: gbind_cases dest!: on_mempool_frame)

text \<open>what \<open>consumeBlockGas\<close> does with the meter of the transaction\<close>

abbreviation block_charge :: "GasMeter \<Rightarrow> GasMeter \<Rightarrow> (unit, unit) outcome \<times> GasMeter" where
  "block_charge g bg \<equiv> ConsumeGas (GasConsumedToLimit g) ''block gas meter'' bg"

definition charged :: "('s, 'm) tx_state \<Rightarrow> ('s, 'm) tx_state \<Rightarrow> bool" where
  "charged s t \<longleftrightarrow> ts_blockGasConsumed t \<and> ts_blockGas t = snd (block_charge (ts_gas t) (ts_blockGas s))"

lemma ConsumeGas_cases:
  obtains (Ret) g where "ConsumeGas a d m = (Ret (), g)" | (Panic) p g where "ConsumeGas a d m = (Panic p, g)"
proof -
  have "(\<exists>g. ConsumeGas a d m = (Ret (), g)) \<or> (\<exists>p g. ConsumeGas a d m = (Panic p, g))"
    by (cases m) (simp_all add: case_prod_beta Let_def)
  then show ?thesis using Ret Panic by blast
qed

lemma consumeBlockGas_cases:
  assumes "consumeBlockGas s = (r, t)" "\<not> ts_blockGasConsumed s"
  shows "charged s t \<and> ts_ms t = ts_ms s \<and> ts_gas t = ts_gas s \<and>
    (case r of Ret _ \<Rightarrow> fst (block_charge (ts_gas s) (ts_blockGas s)) = Ret () | Err _ \<Rightarrow> False
     | Panic p \<Rightarrow> fst (block_charge (ts_gas s) (ts_blockGas s)) = Panic p)"
  using assms by (cases rule: ConsumeGas_cases [of "GasConsumedToLimit (ts_gas s)" "''block gas meter''" "ts_blockGas s"])
    (auto simp: consumeBlockGas_def charged_def)

lemma runBranch_run:
  "runBranch A mode tr (ba_GetMsgs A tr) s = (case branch_run A mode tr (ts_gas s, ts_ms s) of
       (Ret result, (g, ms)) \<Rightarrow> (let s = s\<lparr>ts_gas := g\<rparr> in
          if mode = runTxModeDeliver then gbind consumeBlockGas (\<lambda>_. gbind (gmod (\<lambda>s. s\<lparr>ts_ms := ms\<rparr>)) (\<lambda>_. gret result)) s
          else (Ret result, s))
     | (Err e, (g, ms)) \<Rightarrow> (Err e, s\<lparr>ts_gas := g\<rparr>)
     | (Panic p, (g, ms)) \<Rightarrow> (Panic p, s\<lparr>ts_gas := g\<rparr>))"
  by (simp only: runBranch_def branch_run_def)

lemma runBranch_frame:
  assumes "runBranch A mode tr (ba_GetMsgs A tr) s = (r, u)" "\<not> ts_blockGasConsumed s"
  shows "(case r of
      Ret result \<Rightarrow> \<exists>ms. branch_run A mode tr (ts_gas s, ts_ms s) = (Ret result, (ts_gas u, ms)) \<and>
        ts_ms u = (if mode = runTxModeDeliver then ms else ts_ms s)
    | _ \<Rightarrow> ts_ms u = ts_ms s) \<and>
    (if ts_blockGasConsumed u
     then mode = runTxModeDeliver \<and> charged s u \<and> (\<forall>x. r = Ret x \<longrightarrow> fst (block_charge (ts_gas u) (ts_blockGas s)) = Ret ())
     else ts_blockGas u = ts_blockGas s \<and> (mode = runTxModeDeliver \<longrightarrow> (\<forall>x. r \<noteq> Ret x)))"
proof -
  obtain b g ms where b: "branch_run A mode tr (ts_gas s, ts_ms s) = (b, (g, ms))" by (metis prod.collapse)
  have run: "(r, u) = (case b of
       Ret result \<Rightarrow> (let s = s\<lparr>ts_gas := g\<rparr> in
          if mode = runTxModeDeliver then gbind consumeBlockGas (\<lambda>_. gbind (gmod (\<lambda>s. s\<lparr>ts_ms := ms\<rparr>)) (\<lambda>_. gret result)) s
          else (Ret result, s))
     | Err e \<Rightarrow> (Err e, s\<lparr>ts_gas := g\<rparr>)
     | Panic p \<Rightarrow> (Panic p, s\<lparr>ts_gas := g\<rparr>))"
    using assms(1) b by (cases b) (auto simp: runBranch_run)
  show ?thesis
  proof (cases "mode = runTxModeDeliver \<and> (\<exists>x. b = Ret x)")
    case True
    then obtain x where x: "b = Ret x" "mode = runTxModeDeliver" by blast
    let ?s = "s\<lparr>ts_gas := g\<rparr>"
    have "gbind consumeBlockGas (\<lambda>_. gbind (gmod (\<lambda>s. s\<lparr>ts_ms := ms\<rparr>)) (\<lambda>_. gret x)) ?s = (r, u)"
      using run x by (simp add: Let_def)
    then show ?thesis
    proof (cases rule: gbind_cases)
      case (Ret c t)
      then show ?thesis using consumeBlockGas_cases [OF Ret(1)] assms(2) x b by (auto simp: gbind_def go_simps charged_def)
    next
      case (Panic p)
      then show ?thesis using consumeBlockGas_cases [OF Panic(1)] assms(2) x by (auto simp: charged_def)
    qed (use assms(2) in \<open>auto dest!: consumeBlockGas_cases\<close>)
  next
    case False
    then show ?thesis using run b assms(2) by (cases b) (auto simp: Let_def)
  qed
qed

lemma runTx_body_frame:
  assumes "runTx_body A mode txBytes s = (r, u)" "\<not> ts_blockGasConsumed s"
  shows "(case r of
      Ret result \<Rightarrow> \<exists>tr g ms ms'. ba_txDecoder A txBytes = Inr tr \<and> validateBasicTxMsgs A (ba_GetMsgs A tr) = None \<and>
        ante_effect A mode tr (ts_gas s, ts_ms s) = Some (g, ms) \<and> branch_run A mode tr (g, ms) = (Ret result, (ts_gas u, ms')) \<and>
        ts_ms u = (if mode = runTxModeDeliver then ms' else ms)
    | _ \<Rightarrow> ts_ms u = ts_ms s \<or> (\<exists>tr g. ba_txDecoder A txBytes = Inr tr \<and> ante_effect A mode tr (ts_gas s, ts_ms s) = Some (g, ts_ms u))) \<and>
    (if ts_blockGasConsumed u
     then mode = runTxModeDeliver \<and> charged s u \<and> (\<forall>x. r = Ret x \<longrightarrow> fst (block_charge (ts_gas u) (ts_blockGas s)) = Ret ())
     else ts_blockGas u = ts_blockGas s \<and> (mode = runTxModeDeliver \<longrightarrow> (\<forall>x. r \<noteq> Ret x)))"
proof (cases "\<exists>tr. ba_txDecoder A txBytes = Inr tr \<and> validateBasicTxMsgs A (ba_GetMsgs A tr) = None")
  case False
  then show ?thesis
    using assms by (cases "ba_txDecoder A txBytes") (auto simp: runTx_body_def Let_def go_simps split: option.splits)
next
  case True
  then obtain tr where tr: "ba_txDecoder A txBytes = Inr tr" "validateBasicTxMsgs A (ba_GetMsgs A tr) = None" by blast
  have run: "gbind (runAnte A mode tr) (\<lambda>_. gbind (updateMempool A mode tr) (\<lambda>_. runBranch A mode tr (ba_GetMsgs A tr))) s = (r, u)"
    using assms(1) tr by (simp add: runTx_body_def)
  then show ?thesis
  proof (cases rule: gbind_cases)
    case (Ret a t)
    have t: "same_block s t" "ante_effect A mode tr (ts_gas s, ts_ms s) = Some (ts_gas t, ts_ms t)"
      using runAnte_frame [OF Ret(1)] by simp_all
    from Ret(2) show ?thesis
    proof (cases rule: gbind_cases)
      case (Ret a' v)
      have v: "same_block s v" "ts_ms v = ts_ms t" "ts_gas v = ts_gas t"
        using updateMempool_frame [OF Ret(1)] t(1) by simp_all
      have "\<not> ts_blockGasConsumed v" using assms(2) v(1) by simp
      from runBranch_frame [OF Ret(2) this] show ?thesis using tr t(2) v by (cases r) (auto simp: charged_def)
    qed (use updateMempool_frame t tr assms(2) in \<open>auto dest!: updateMempool_frame\<close>)
  qed (use runAnte_frame tr assms(2) in \<open>auto dest!: runAnte_frame\<close>)
qed

subsection \<open>Atomicity and the block gas limit\<close>

lemma deferred_block_gas_frame:
  fixes r r' :: "('e tx_err, 'a) outcome"
  assumes "deferred_block_gas runTxModeDeliver (r, u) = (r', t)"
    "if ts_blockGasConsumed u
     then charged s u \<and> (\<forall>x. r = Ret x \<longrightarrow> fst (block_charge (ts_gas u) (ts_blockGas s)) = Ret ())
     else ts_blockGas u = ts_blockGas s \<and> (\<forall>x. r \<noteq> Ret x)"
  shows "charged s t \<and> ts_ms t = ts_ms u \<and> ts_gas t = ts_gas u \<and>
    (\<forall>x. (r' = Ret x) = (r = Ret x)) \<and> (\<forall>x. r' = Ret x \<longrightarrow> fst (block_charge (ts_gas t) (ts_blockGas s)) = Ret ())"
proof (cases "ts_blockGasConsumed u")
  case True
  then show ?thesis using assms by (auto simp: deferred_block_gas_def consumeBlockGas_def)
next
  case False
  obtain c v where c: "consumeBlockGas u = (c :: ('e tx_err, unit) outcome, v)" by fastforce
  have "charged u v \<and> ts_ms v = ts_ms u \<and> ts_gas v = ts_gas u \<and> (\<forall>e. c \<noteq> Err e)"
    using consumeBlockGas_cases [OF c False] by (auto split: outcome.splits)
  then show ?thesis using assms False c by (cases c) (auto simp: deferred_block_gas_def charged_def)
qed

lemma runTx_deliver_charge:
  assumes "runTx A runTxModeDeliver txBytes s = ((gi, res), t)" "\<not> IsOutOfGas (ts_blockGas s)"
  shows "ts_blockGas t = snd (block_charge (ts_gas t) (ts_blockGas s)) \<and>
    (\<forall>x. res = Inr x \<longrightarrow> fst (block_charge (ts_gas t) (ts_blockGas s)) = Ret ())"
proof -
  let ?s = "s\<lparr>ts_gasWanted := 0, ts_blockGasConsumed := False\<rparr>"
  obtain r u where b: "runTx_body A runTxModeDeliver txBytes ?s = (r, u)" by fastforce
  obtain r' v where d: "deferred_block_gas runTxModeDeliver (r, u) = (r', v)" by fastforce
  note f = runTx_body_frame [OF b, simplified]
  have v: "charged ?s v \<and> ts_ms v = ts_ms u \<and> ts_gas v = ts_gas u \<and>
      (\<forall>x. (r' = Ret x) = (r = Ret x)) \<and> (\<forall>x. r' = Ret x \<longrightarrow> fst (block_charge (ts_gas v) (ts_blockGas ?s)) = Ret ())"
    by (rule deferred_block_gas_frame [OF d]) (use f in \<open>auto split: if_splits\<close>)
  have "v = t \<and> (\<forall>x. res = Inr x \<longrightarrow> r' = Ret x)"
    using assms b d by (auto simp: runTx_def Let_def split: outcome.splits)
  then show ?thesis using v by (auto simp: charged_def)
qed

text \<open>the phases that succeed\<close>

lemma runAnte_ok:
  assumes "ante_effect A mode tr (ts_gas s, ts_ms s) = Some (g, ms)"
  obtains gw where "runAnte A mode tr s = (Ret (), s\<lparr>ts_gas := g, ts_gasWanted := gw, ts_ms := ms\<rparr>)"
proof (cases "ba_anteHandler A")
  case None
  then show ?thesis using assms that [of "ts_gasWanted s"] by (auto simp: runAnte_def ante_effect_def go_simps)
next
  case (Some h)
  then show ?thesis
    using assms that [of "Limit g"]
    by (auto simp: runAnte_def ante_effect_def Let_def split: prod.splits outcome.splits option.splits)
qed

definition removes :: "('s, 'tx, 'msg, 'r, 'm, 'e) BaseApp \<Rightarrow> 'tx \<Rightarrow> 'm \<Rightarrow> bool" where
  "removes A tr m \<longleftrightarrow> (case fst (ba_mempool_Remove A tr m) of Ret _ \<Rightarrow> True | Err e \<Rightarrow> ba_is_ErrTxNotFound A e | Panic _ \<Rightarrow> False)"

lemma updateMempool_ok:
  assumes "removes A tr (ts_mempool s)"
  obtains m where "updateMempool A runTxModeDeliver tr s = (Ret (), s\<lparr>ts_mempool := m\<rparr>)"
proof -
  obtain o1 m where "ba_mempool_Remove A tr (ts_mempool s) = (o1, m)" by fastforce
  then show ?thesis
    using assms that [of m]
    by (cases o1) (auto simp: updateMempool_def on_mempool_def removes_def gbind_def go_simps split: if_splits)
qed

lemma runTx_body_ok:
  assumes "ba_txDecoder A txBytes = Inr tr" "validateBasicTxMsgs A (ba_GetMsgs A tr) = None"
    "ante_effect A runTxModeDeliver tr (ts_gas s, ts_ms s) = Some (g, ms)" "removes A tr (ts_mempool s)"
  obtains gw m where "runTx_body A runTxModeDeliver txBytes s =
    runBranch A runTxModeDeliver tr (ba_GetMsgs A tr) (s\<lparr>ts_gas := g, ts_gasWanted := gw, ts_ms := ms, ts_mempool := m\<rparr>)"
proof -
  obtain gw where a: "runAnte A runTxModeDeliver tr s = (Ret (), s\<lparr>ts_gas := g, ts_gasWanted := gw, ts_ms := ms\<rparr>)"
    using runAnte_ok [OF assms(3)] by blast
  obtain m where "updateMempool A runTxModeDeliver tr (s\<lparr>ts_gas := g, ts_gasWanted := gw, ts_ms := ms\<rparr>)
      = (Ret (), s\<lparr>ts_gas := g, ts_gasWanted := gw, ts_ms := ms, ts_mempool := m\<rparr>)"
    using updateMempool_ok [of A tr "s\<lparr>ts_gas := g, ts_gasWanted := gw, ts_ms := ms\<rparr>"] assms(4) by auto
  then show ?thesis using that a assms(1,2) by (simp add: runTx_body_def gbind_def)
qed

lemma runTx_store:
  assumes "\<not> IsOutOfGas (ts_blockGas s)" "runTx_body A runTxModeDeliver txBytes (s\<lparr>ts_gasWanted := 0, ts_blockGasConsumed := False\<rparr>) = (r, u)"
  shows "ts_ms (snd (runTx A runTxModeDeliver txBytes s)) = ts_ms u"
proof -
  obtain r' v where d: "deferred_block_gas runTxModeDeliver (r, u) = (r', v)" by fastforce
  have "ts_ms v = ts_ms u"
    using deferred_block_gas_frame [OF d, of "s\<lparr>ts_gasWanted := 0, ts_blockGasConsumed := False\<rparr>"] runTx_body_frame [OF assms(2)] 
    by (auto split: if_splits)
  then show ?thesis using assms d by (simp add: runTx_def Let_def split: outcome.split)
qed

lemma runTx_effects:
  assumes "runTx A mode txBytes s = ((gi, res), t)"
  shows "case res of
      Inr result \<Rightarrow> \<exists>tr g ms g' ms'. ba_txDecoder A txBytes = Inr tr \<and> validateBasicTxMsgs A (ba_GetMsgs A tr) = None \<and>
        ante_effect A mode tr (ts_gas s, ts_ms s) = Some (g, ms) \<and> branch_run A mode tr (g, ms) = (Ret result, (g', ms')) \<and>
        ts_ms t = (if mode = runTxModeDeliver then ms' else if mode = runTxModeSimulate then ts_ms s else ms)
    | Inl e \<Rightarrow> ts_ms t = ts_ms s \<or> mode \<noteq> runTxModeSimulate \<and>
        (\<exists>tr g. ba_txDecoder A txBytes = Inr tr \<and> ante_effect A mode tr (ts_gas s, ts_ms s) = Some (g, ts_ms t))"
proof (cases "mode = runTxModeDeliver \<and> IsOutOfGas (ts_blockGas s)")
  case True
  then show ?thesis using assms by (auto simp: runTx_def)
next
  case False
  let ?s = "s\<lparr>ts_gasWanted := 0, ts_blockGasConsumed := False\<rparr>"
  obtain r u where b: "runTx_body A mode txBytes ?s = (r, u)" by fastforce
  obtain r' v where d: "deferred_block_gas mode (r, u) = (r', v)" by fastforce
  note f = runTx_body_frame [OF b, simplified]
  have v: "ts_ms v = ts_ms u \<and> (\<forall>x. (r' = Ret x) = (r = Ret x))"
  proof (cases "mode = runTxModeDeliver")
    case True
    have "charged ?s v \<and> ts_ms v = ts_ms u \<and> ts_gas v = ts_gas u \<and>
        (\<forall>x. (r' = Ret x) = (r = Ret x)) \<and> (\<forall>x. r' = Ret x \<longrightarrow> fst (block_charge (ts_gas v) (ts_blockGas ?s)) = Ret ())"
      by (rule deferred_block_gas_frame [of r u r' v ?s]) (use True d f in \<open>auto split: if_splits\<close>)
    then show ?thesis by blast
  qed (use d in \<open>auto simp: deferred_block_gas_def\<close>)
  have run: "((gi, res), t) =
      (let gInfo = \<lparr>gi_GasWanted = ts_gasWanted v, gi_GasUsed = GasConsumed (ts_gas v)\<rparr>;
           w = (if mode = runTxModeSimulate then v\<lparr>ts_ms := ts_ms s\<rparr> else v)
       in case r' of Ret x \<Rightarrow> ((gInfo, Inr x), w) | Err e \<Rightarrow> ((gInfo, Inl e), w) | Panic p \<Rightarrow> ((gInfo, Inl (recovered p)), w))"
    using assms False b d unfolding runTx_def Let_def by (simp split del: if_split)
  have "ts_ms t = (if mode = runTxModeSimulate then ts_ms s else ts_ms v)" "\<And>x. (res = Inr x) = (r' = Ret x)"
    using run by (cases r'; auto simp: Let_def)+
  then have t: "ts_ms t = (if mode = runTxModeSimulate then ts_ms s else ts_ms u)" "\<And>x. (res = Inr x) = (r = Ret x)"
    using v by (simp, blast)
  show ?thesis
  proof (cases res)
    case (Inr x)
    then have "r = Ret x" using t(2) by simp
    then show ?thesis using f t(1) Inr by (cases "mode = runTxModeDeliver") auto
  next
    case (Inl e)
    then have "r \<noteq> Ret x" for x using t(2) [of x] by simp
    then have "ts_ms u = ts_ms s \<or> (\<exists>tr g. ba_txDecoder A txBytes = Inr tr \<and> ante_effect A mode tr (ts_gas s, ts_ms s) = Some (g, ts_ms u))"
      using f by (cases r) auto
    then show ?thesis using Inl t by auto
  qed
qed

text \<open>
  C30. A transaction is all or nothing. When \<open>runTx\<close> returns a result, the bytes decoded, the
  messages passed their checks, the ante handler succeeded and the messages and the post
  handler ran to the end from the store it left; the store then holds exactly their effect
  when a block is delivered, only the ante handler's when a transaction is checked, and
  nothing when it is simulated. When \<open>runTx\<close> returns an error, for whatever reason (a failed
  message, a panic, gas), no write of any message is left: the store is the one before, or
  the one a successful ante handler left.
\<close>

theorem runTx_atomic:
  assumes "runTx A mode txBytes s = ((gi, res), t)"
  shows "case res of
      Inr result \<Rightarrow> \<exists>tr g ms g' ms'. ba_txDecoder A txBytes = Inr tr \<and> validateBasicTxMsgs A (ba_GetMsgs A tr) = None \<and>
        ante_effect A mode tr (ts_gas s, ts_ms s) = Some (g, ms) \<and> branch_run A mode tr (g, ms) = (Ret result, (g', ms')) \<and>
        ts_ms t = (if mode = runTxModeDeliver then ms' else if mode = runTxModeSimulate then ts_ms s else ms)
    | Inl e \<Rightarrow> ts_ms t = ts_ms s \<or> mode \<noteq> runTxModeSimulate \<and>
        (\<exists>tr g. ba_txDecoder A txBytes = Inr tr \<and> ante_effect A mode tr (ts_gas s, ts_ms s) = Some (g, ts_ms t))"
  using assms by (rule runTx_effects)

text \<open>the gas each transaction of a block is charged for\<close>

fun block_charges :: "('s, 'tx, 'msg, 'r, 'm, 'e) BaseApp \<Rightarrow> (GasMeter \<times> string) list \<Rightarrow> ('s, 'm) tx_state \<Rightarrow> nat list" where
  "block_charges A [] s = []"
| "block_charges A ((g, txBytes) # txs) s =
     (let t = snd (runTx A runTxModeDeliver txBytes (s\<lparr>ts_gas := g\<rparr>)) in
      (if IsOutOfGas (ts_blockGas s) then 0 else unat (GasConsumedToLimit (ts_gas t))) # block_charges A txs t)"

lemma basic_charge:
  assumes "ConsumeGas a d (basicGasMeter l c) = (r, g)"
  shows "\<exists>c'. g = basicGasMeter l c' \<and> (if unat c + unat a < 2 ^ 64 then unat c' = unat c + unat a else c' = -1) \<and>
    (r = Ret () \<longrightarrow> unat c + unat a \<le> unat l)"
  using assms
  by (auto simp: addUint64Overflow_exact Let_def unat_word_ariths word_less_nat_alt split: if_splits)

lemma deliver_block_bound:
  assumes "ts_blockGas s = basicGasMeter l c" "l < -1" "k < length txs" "snd (fst (deliver_block A txs s) ! k) = Inr res"
  shows "unat c + sum_list (take (Suc k) (block_charges A txs s)) \<le> unat l"
  using assms
proof (induction txs arbitrary: s c k)
  case (Cons x txs)
  obtain g txBytes where x: "x = (g, txBytes)" by fastforce
  obtain gi r t where t: "runTx A runTxModeDeliver txBytes (s\<lparr>ts_gas := g\<rparr>) = ((gi, r), t)" by (metis prod.collapse)
  show ?case
  proof (cases "IsOutOfGas (ts_blockGas s)")
    case True
    then have "r = Inl NoBlockGas \<and> ts_blockGas t = ts_blockGas s" using t by (auto simp: runTx_def)
    then show ?thesis using Cons.prems Cons.IH [of t c] True t x by (cases k) (auto simp: case_prod_beta Let_def)
  next
    case False
    note ch = runTx_deliver_charge [OF t] 
    obtain q bg where q: "block_charge (ts_gas t) (basicGasMeter l c) = (q, bg)" by fastforce
    obtain c' where c': "bg = basicGasMeter l c'"
      "if unat c + unat (GasConsumedToLimit (ts_gas t)) < 2 ^ 64 then unat c' = unat c + unat (GasConsumedToLimit (ts_gas t)) else c' = -1"
      "q = Ret () \<longrightarrow> unat c + unat (GasConsumedToLimit (ts_gas t)) \<le> unat l"
      using basic_charge [OF q] by blast
    have bg: "ts_blockGas t = basicGasMeter l c'" "\<forall>y. r = Inr y \<longrightarrow> q = Ret ()"
      using ch False Cons.prems(1) q c'(1) by simp_all
    show ?thesis
    proof (cases k)
      case 0
      then show ?thesis using Cons.prems(4) bg(2) c'(3) False t x by (auto simp: case_prod_beta Let_def)
    next
      case (Suc j)
      have "unat c' + sum_list (take (Suc j) (block_charges A txs t)) \<le> unat l"
        using Cons.IH [OF bg(1) Cons.prems(2), of j] Cons.prems(3,4) Suc t x by (auto simp: case_prod_beta Let_def)
      moreover have "unat l < unat (-1 :: u64)" using Cons.prems(2) by (simp add: word_less_nat_alt)
      ultimately show ?thesis using c'(2) Suc False t x by (auto simp: Let_def split: if_splits)
    qed
  qed
qed simp

text \<open>
  C31. The block gas limit holds: with the block gas meter made from a positive limit in the
  consensus parameters, a transaction of a block that is committed is one for which the gas
  charged to the block for all transactions up to and including it, failed ones too, is
  within the limit.
\<close>

theorem block_gas_bound:
  assumes "getBlockGasMeter (Some maxGas) = Some (ts_blockGas s)" "0 < maxGas" "maxGas < 2 ^ 63"
    "deliver_block A txs s = (rs, t)" "k < length txs" "snd (rs ! k) = Inr res"
  shows "int (sum_list (take (Suc k) (block_charges A txs s))) \<le> maxGas"
proof -
  have w: "unat (word_of_int maxGas :: u64) = nat maxGas"
    using assms(2,3) by (simp add: unat_eq_nat_uint uint_word_of_int take_bit_int_eq_self)
  then have "(0 :: u64) < word_of_int maxGas" using assms(2) by (simp add: word_less_nat_alt)
  then have m: "ts_blockGas s = basicGasMeter (word_of_int maxGas) 0"
    using assms(1,2) by (simp add: getBlockGasMeter_def GetMaximumBlockGas_def NewGasMeter_def split: if_splits)
  have "unat (-1 :: u64) = 2 ^ 64 - 1" by (simp add: unsigned_minus_1_eq_mask mask_eq_exp_minus_1)
  then have "(word_of_int maxGas :: u64) < -1" using w assms(3) by (simp add: word_less_nat_alt)
  from deliver_block_bound [OF m this assms(5), of A res] assms(4,6) w assms(2) show ?thesis by simp
qed

text \<open>
  Delivering a transaction is running its messages in one transaction of the model: once
  the bytes decode, the messages pass their checks, the ante handler succeeds, the
  transaction leaves the mempool (or was not there) and the block has gas for it, the store
  after \<open>runTx\<close> is the store after \<open>run_tx\<close> of messages and post handler from the ante
  handler's store: their effect if they succeed, nothing if they fail or panic.
\<close>

theorem deliver_is_run_tx:
  assumes "\<not> IsOutOfGas (ts_blockGas s)" "ba_txDecoder A txBytes = Inr tr" "validateBasicTxMsgs A (ba_GetMsgs A tr) = None"
    "ante_effect A runTxModeDeliver tr (ts_gas s, ts_ms s) = Some (g, ms)" "removes A tr (ts_mempool s)"
    "fst (block_charge (fst (snd (branch_run A runTxModeDeliver tr (g, ms)))) (ts_blockGas s)) = Ret ()"
  shows "ts_ms (snd (runTx A runTxModeDeliver txBytes s)) = snd (snd (run_tx (branch_run A runTxModeDeliver tr) (g, ms)))"
proof -
  let ?s = "s\<lparr>ts_gasWanted := 0, ts_blockGasConsumed := False\<rparr>"
  obtain gw m where b: "runTx_body A runTxModeDeliver txBytes ?s =
      runBranch A runTxModeDeliver tr (ba_GetMsgs A tr) (?s\<lparr>ts_gas := g, ts_gasWanted := gw, ts_ms := ms, ts_mempool := m\<rparr>)" (is "_ = runBranch _ _ _ _ ?t")
    by (rule runTx_body_ok [OF assms(2,3), of ?s g ms]) (use assms(4,5) in simp_all)
  obtain r u where u: "runBranch A runTxModeDeliver tr (ba_GetMsgs A tr) ?t = (r, u)" by fastforce
  obtain x g' ms' where x: "branch_run A runTxModeDeliver tr (g, ms) = (x, (g', ms'))" by (metis prod.collapse)
  have "ts_ms u = snd (snd (run_tx (branch_run A runTxModeDeliver tr) (g, ms)))"
  proof (cases x)
    case (Ret y)
    have "fst (block_charge g' (ts_blockGas s)) = Ret ()" using assms(6) x by simp
    then obtain bg where bg: "block_charge g' (ts_blockGas s) = (Ret (), bg)" by (metis prod.collapse)
    then show ?thesis
      using u x Ret by (auto simp: runBranch_run run_tx_def Let_def gbind_def consumeBlockGas_def go_simps)
  qed (use u x in \<open>auto simp: runBranch_run run_tx_def\<close>)
  then show ?thesis by (subst runTx_store [OF assms(1) trans [OF b u]])
qed

subsection \<open>An application with one kind of message\<close>

text \<open>
  each message costs sixty gas and adds one to a counter, except \<open>x\<close>, which adds ten and fails;
  the ante handler gives the transaction a hundred and fifty gas and adds a hundred
\<close>

definition counter_app :: "(nat, string, char, char, nat, string) BaseApp" where
  "counter_app = \<lparr>
     ba_txDecoder = Inr,
     ba_GetMsgs = id,
     ba_ValidateBasic = (\<lambda>_. None),
     ba_anteHandler = Some (\<lambda>t sim (g, n). (Ret (None, Some (NewGasMeter 150)), (g, n + 100))),
     ba_Handler = (\<lambda>_. Some (\<lambda>c (g, n). if c = CHR ''x'' then (Err ''x'', (g, n + 10)) else
        case ConsumeGas 60 ''count'' g of (Ret _, g') \<Rightarrow> (Ret [Some c], (g', n + 1)) | (Panic p, g') \<Rightarrow> (Panic p, (g', n)) | (Err _, g') \<Rightarrow> (Panic [], (g', n)))),
     ba_postHandler = None,
     ba_marshal = Some,
     ba_mempool_Insert = (\<lambda>_ m. (Ret (), m + 1)),
     ba_mempool_Remove = (\<lambda>_ m. (Err ''not found'', m)),
     ba_is_ErrTxNotFound = (\<lambda>e. e = ''not found'')\<rparr>"

abbreviation counter_start :: "u64 \<Rightarrow> (nat, nat) tx_state" where
  "counter_start l \<equiv> \<lparr>ts_gas = NewInfiniteGasMeter, ts_blockGas = NewGasMeter l, ts_ms = 5, ts_mempool = 0, ts_gasWanted = 0, ts_blockGasConsumed = False\<rparr>"

lemmas counter_eval = counter_app_def runTx_def runTx_body_def validateBasicTxMsgs_def runAnte_def updateMempool_def on_mempool_def
  runBranch_def runMsgs_def deferred_block_gas_def consumeBlockGas_def recovered_def Let_def gbind_def gmap_err_def gopt_err_def
  NewGasMeter_def NewInfiniteGasMeter_def GasConsumed_def addUint64Overflow_def ante_effect_def branch_run_def removes_def go_simps

theorem runTx_atomic_witness:
  "(\<exists>g ms g' ms'. ante_effect counter_app runTxModeDeliver ''ab'' (NewInfiniteGasMeter, 5) = Some (g, ms) \<and>
      branch_run counter_app runTxModeDeliver ''ab'' (g, ms) = (Ret ''ab'', (g', ms')) \<and>
      ts_ms (snd (runTx counter_app runTxModeDeliver ''ab'' (counter_start 1000))) = ms') \<and>
   (let t = snd (runTx counter_app runTxModeDeliver ''abx'' (counter_start 1000)) in
      ts_ms t = 5 \<or> (\<exists>g. ante_effect counter_app runTxModeDeliver ''abx'' (NewInfiniteGasMeter, 5) = Some (g, ts_ms t)))"
proof -
  have d: "ba_txDecoder counter_app = Inr" by (simp add: counter_app_def)
  obtain gi t where 1: "runTx counter_app runTxModeDeliver ''ab'' (counter_start 1000) = ((gi, Inr ''ab''), t)"
    by (simp add: counter_eval)
  obtain gi' t' e where 2: "runTx counter_app runTxModeDeliver ''abx'' (counter_start 1000) = ((gi', Inl e), t')"
    by (simp add: counter_eval)
  show ?thesis using runTx_atomic [OF 1] runTx_atomic [OF 2] 1 2 d by auto
qed

theorem block_gas_bound_witness:
  "sum_list (take 3 (block_charges counter_app [(NewInfiniteGasMeter, ''ab''), (NewInfiniteGasMeter, ''x''), (NewInfiniteGasMeter, ''c'')] (counter_start 200))) \<le> 200"
proof -
  let ?txs = "[(NewInfiniteGasMeter, ''ab''), (NewInfiniteGasMeter, ''x''), (NewInfiniteGasMeter, ''c'')]"
  obtain rs t where 1: "deliver_block counter_app ?txs (counter_start 200) = (rs, t)" by fastforce
  moreover have "snd (rs ! 2) = Inr ''c''" using 1 by (auto simp: counter_eval)
  ultimately show ?thesis
    using block_gas_bound [of 200 "counter_start 200" counter_app ?txs rs t 2 "''c''"]
    by (simp add: getBlockGasMeter_def GetMaximumBlockGas_def NewGasMeter_def del: block_charges.simps)
qed

theorem deliver_is_run_tx_witness:
  "ts_ms (snd (runTx counter_app runTxModeDeliver ''ab'' (counter_start 1000))) = 107 \<and>
   ts_ms (snd (runTx counter_app runTxModeDeliver ''abx'' (counter_start 1000))) = 105"
proof -
  have "ts_ms (snd (runTx counter_app runTxModeDeliver w (counter_start 1000)))
      = snd (snd (run_tx (branch_run counter_app runTxModeDeliver w) (NewGasMeter 150, 105)))" if "w = ''ab'' \<or> w = ''abx''" for w
    by (rule deliver_is_run_tx) (use that in \<open>auto simp: counter_eval\<close>)
  then show ?thesis by (simp add: run_tx_def counter_eval)
qed

end
