(* ===== verification/Multisig.thy ===== *)
theory Multisig
  imports GasKV Bank "HOL-Library.Signed_Division"
begin

section \<open>Signatures of several keys\<close>

text \<open>
  \<open>cosmos-sdk/crypto/types/compact_bit_array.go\<close>, \<open>crypto/keys/multisig/multisig.go\<close>,
  \<open>x/auth/signing/verify.go\<close> and the gas consumers of \<open>x/auth/ante/sigverify.go\<close> and
  \<open>app/app.go\<close>: a threshold key is a list of keys, which may be threshold keys themselves, and its
  signature a bit array of the keys that signed with their signatures in order. The
  verification of a signature by a single key is the argument \<open>V\<close>, the bytes to sign are
  the argument \<open>getSignBytes\<close>.

  \<open>signed\<close> says what it means that a key has signed; whatever \<open>VerifySignature\<close> accepts is
  signed in this sense, although the bit array comes from the transaction and may be inconsistent.
\<close>

unbundle bit_operations_syntax

subsection \<open>Bit arrays\<close>

text \<open>a pointer may be nil, and \<open>ExtraBitsStored\<close> is whatever was decoded\<close>

record CompactBitArray =
  ExtraBitsStored :: "32 word"
  Elems :: "8 word list"

definition NewCompactBitArray :: "int \<Rightarrow> CompactBitArray option" where
  "NewCompactBitArray bits =
     (if bits \<le> 0 then None
      else let nElems = (bits + 7) sdiv 8 in
           if nElems \<le> 0 \<or> nElems > 2 ^ 31 - 1 then None
           else Some \<lparr>ExtraBitsStored = word_of_int (bits smod 8), Elems = replicate (nat nElems) 0\<rparr>)"

definition ba_Count :: "CompactBitArray option \<Rightarrow> int" where
  "ba_Count bA = (case bA of
     None \<Rightarrow> 0
   | Some b \<Rightarrow> if ExtraBitsStored b = 0 then int (length (Elems b)) * 8
               else (int (length (Elems b)) - 1) * 8 + int (unat (ExtraBitsStored b)))"

definition bit_mask :: "int \<Rightarrow> 8 word" where
  "bit_mask i = push_bit (nat (7 - i mod 8)) 1"

text \<open>\<open>None\<close> is the panic of an index beyond \<open>Elems\<close>\<close>

definition GetIndex :: "CompactBitArray option \<Rightarrow> int \<Rightarrow> bool option" where
  "GetIndex bA i = (case bA of
     None \<Rightarrow> Some False
   | Some b \<Rightarrow>
       if i < 0 \<or> i \<ge> ba_Count bA then Some False
       else if nat (i div 8) < length (Elems b) then Some (0 < (Elems b ! nat (i div 8)) AND bit_mask i)
       else None)"

definition SetIndex :: "CompactBitArray option \<Rightarrow> int \<Rightarrow> bool \<Rightarrow> (CompactBitArray option \<times> bool) option" where
  "SetIndex bA i v = (case bA of
     None \<Rightarrow> Some (None, False)
   | Some b \<Rightarrow>
       if i < 0 \<or> i \<ge> ba_Count bA then Some (bA, False)
       else if nat (i div 8) < length (Elems b) then
         let e = Elems b ! nat (i div 8); e = (if v then e OR bit_mask i else e AND NOT (bit_mask i))
         in Some (Some (b\<lparr>Elems := (Elems b)[nat (i div 8) := e]\<rparr>), True)
       else None)"

definition OnesCount8 :: "8 word \<Rightarrow> int" where
  "OnesCount8 x = int (length (filter (bit x) [0..<8]))"

fun num_true_loop :: "int \<Rightarrow> int \<Rightarrow> 8 word list \<Rightarrow> int \<Rightarrow> int" where
  "num_true_loop index n [] onesCount = onesCount"
| "num_true_loop index n (e # es) onesCount =
     (if n * 8 + 7 \<ge> index then onesCount + OnesCount8 (drop_bit (nat (7 - index smod 8 + 1)) e)
      else num_true_loop index (n + 1) es (onesCount + OnesCount8 e))"

text \<open>\<open>None\<close> is the nil pointer panic\<close>

definition NumTrueBitsBefore :: "CompactBitArray option \<Rightarrow> int \<Rightarrow> int option" where
  "NumTrueBitsBefore bA index =
     map_option (\<lambda>b. num_true_loop (min index (ba_Count bA)) 0 (Elems b) 0) bA"

subsection \<open>Keys and signatures\<close>

datatype PubKey =
    Ed25519 string | Secp256k1 string | Secp256r1 string | Dilithium5 string
  | LegacyAminoPubKey "32 word" "PubKey list"

datatype SignMode = SIGN_MODE_UNSPECIFIED | SIGN_MODE_DIRECT | SIGN_MODE_TEXTUAL | SIGN_MODE_DIRECT_AUX | SIGN_MODE_LEGACY_AMINO_JSON
  | SIGN_MODE_EIP_191 | SIGN_MODE_unknown "32 word"

text \<open>\<open>NoSignatureData\<close> is the nil interface\<close>

datatype SignatureData =
    SingleSignatureData SignMode string
  | MultiSignatureData "CompactBitArray option" "SignatureData list"
  | NoSignatureData

type_synonym verifier = "PubKey \<Rightarrow> string \<Rightarrow> string \<Rightarrow> bool"

definition key_VerifySignature :: "verifier \<Rightarrow> PubKey \<Rightarrow> string \<Rightarrow> string \<Rightarrow> (err, bool) outcome" where
  "key_VerifySignature V pk msg sig = (case pk of
     LegacyAminoPubKey _ _ \<Rightarrow> Panic ''not implemented''
   | _ \<Rightarrow> Ret (V pk msg sig))"

definition NewLegacyAminoPubKey :: "int \<Rightarrow> PubKey list \<Rightarrow> PubKey option" where
  "NewLegacyAminoPubKey threshold pubKeys =
     (if threshold \<le> 0 \<or> int (length pubKeys) < threshold then None
      else Some (LegacyAminoPubKey (word_of_int threshold) pubKeys))"

lemma nested_smaller [termination_simp]:
  "k < length xs \<Longrightarrow> xs ! k = MultiSignatureData b ss \<Longrightarrow> size_list size ss < size_list size xs"
  using size_list_estimation [of "xs ! k" xs "size_list size ss" size] nth_mem [of k xs] by auto

lemma element_smaller [termination_simp]: "k < length xs \<Longrightarrow> size (xs ! k) < size_list size (xs :: SignatureData list)"
proof (induction xs arbitrary: k)
  case (Cons x xs)
  show ?case
  proof (cases k)
    case (Suc j)
    then show ?thesis using Cons.IH [of j] Cons.prems by simp
  qed simp
qed simp

function VerifyMultisignature :: "verifier \<Rightarrow> (SignMode \<Rightarrow> err + string) \<Rightarrow> 32 word \<Rightarrow> PubKey list \<Rightarrow> CompactBitArray option \<Rightarrow> SignatureData list \<Rightarrow> (err, unit) outcome"
  and verify_multi_loop :: "verifier \<Rightarrow> (SignMode \<Rightarrow> err + string) \<Rightarrow> PubKey list \<Rightarrow> CompactBitArray option \<Rightarrow> SignatureData list \<Rightarrow> nat \<Rightarrow> nat \<Rightarrow> (err, unit) outcome" where
  "VerifyMultisignature V getSignBytes threshold pubKeys bitarray sigs =
     (if int (length pubKeys) \<noteq> ba_Count bitarray then Err (Errorf ''bit array size is incorrect'')
      else if length sigs < unat threshold \<or> length sigs > length pubKeys then Err (Errorf ''signature size is incorrect'')
      else case NumTrueBitsBefore bitarray (int (length pubKeys)) of
        None \<Rightarrow> Panic ''nil pointer dereference''
      | Some n \<Rightarrow> if n < int (unat threshold) then Err (Errorf ''not enough signatures set'')
                  else verify_multi_loop V getSignBytes pubKeys bitarray sigs 0 0)"
| "verify_multi_loop V getSignBytes pubKeys bitarray sigs i sigIndex =
     (if i < length pubKeys then
        (case GetIndex bitarray (int i) of
           None \<Rightarrow> Panic ''index out of range''
         | Some b \<Rightarrow>
             if \<not> b then verify_multi_loop V getSignBytes pubKeys bitarray sigs (Suc i) sigIndex
             else if sigIndex < length sigs then
               (case sigs ! sigIndex of
                  SingleSignatureData mode sig \<Rightarrow>
                    (case getSignBytes mode of
                       Inl e \<Rightarrow> Err e
                     | Inr msg \<Rightarrow>
                         (case key_VerifySignature V (pubKeys ! i) msg sig of
                            Ret ok \<Rightarrow> if ok then verify_multi_loop V getSignBytes pubKeys bitarray sigs (Suc i) (Suc sigIndex)
                                      else Err (Errorf ''unable to verify signature'')
                          | Err e \<Rightarrow> Err e
                          | Panic p \<Rightarrow> Panic p))
                | MultiSignatureData b' ss \<Rightarrow>
                    (case pubKeys ! i of
                       LegacyAminoPubKey t ks \<Rightarrow>
                         (case VerifyMultisignature V getSignBytes t ks b' ss of
                            Ret _ \<Rightarrow> verify_multi_loop V getSignBytes pubKeys bitarray sigs (Suc i) (Suc sigIndex)
                          | Err e \<Rightarrow> Err e
                          | Panic p \<Rightarrow> Panic p)
                     | _ \<Rightarrow> Err (Errorf ''unable to parse pubkey''))
                | NoSignatureData \<Rightarrow> Err (Errorf ''improper signature data type''))
             else Panic ''index out of range'')
      else Ret ())"
  by pat_completeness auto
termination
  by (relation "measures [\<lambda>x. case x of Inl (_, _, _, _, _, sigs) \<Rightarrow> size_list size sigs | Inr (_, _, _, _, sigs, _, _) \<Rightarrow> size_list size sigs,
      \<lambda>x. case x of Inl (_, _, _, ks, _) \<Rightarrow> Suc (length ks) | Inr (_, _, ks, _, _, i, _) \<Rightarrow> length ks - i]") (auto simp: termination_simp)

declare VerifyMultisignature.simps [simp del] verify_multi_loop.simps [simp del]

definition VerifySignature :: "verifier \<Rightarrow> (SignMode \<Rightarrow> err + string) \<Rightarrow> PubKey \<Rightarrow> SignatureData \<Rightarrow> (err, unit) outcome" where
  "VerifySignature V getSignBytes pubKey sigData = (case sigData of
     SingleSignatureData mode sig \<Rightarrow>
       (case getSignBytes mode of
          Inl e \<Rightarrow> Err e
        | Inr signBytes \<Rightarrow>
            (case key_VerifySignature V pubKey signBytes sig of
               Ret ok \<Rightarrow> if ok then Ret () else Err (Errorf ''unable to verify single signer signature'')
             | Err e \<Rightarrow> Err e
             | Panic p \<Rightarrow> Panic p))
   | MultiSignatureData b ss \<Rightarrow>
       (case pubKey of
          LegacyAminoPubKey t ks \<Rightarrow> VerifyMultisignature V getSignBytes t ks b ss
        | _ \<Rightarrow> Err (Errorf ''expected multisig.PubKey''))
   | NoSignatureData \<Rightarrow> Err (Errorf ''unexpected SignatureData''))"

fun CountSubKeys :: "PubKey \<Rightarrow> int" where
  "CountSubKeys (LegacyAminoPubKey t ks) = sum_list (map CountSubKeys ks)"
| "CountSubKeys _ = 1"

fun OnlyLegacyAminoSigners :: "SignatureData \<Rightarrow> bool" where
  "OnlyLegacyAminoSigners (SingleSignatureData mode _) = (mode = SIGN_MODE_LEGACY_AMINO_JSON)"
| "OnlyLegacyAminoSigners (MultiSignatureData _ ss) = list_all OnlyLegacyAminoSigners ss"
| "OnlyLegacyAminoSigners NoSignatureData = False"

fun isIncompleteSignature :: "SignatureData \<Rightarrow> bool" where
  "isIncompleteSignature NoSignatureData = True"
| "isIncompleteSignature (SingleSignatureData _ sig) = (sig = [])"
| "isIncompleteSignature (MultiSignatureData _ ss) = (ss = [] \<or> list_ex isIncompleteSignature ss)"

subsection \<open>Gas for the verification\<close>

record auth_Params =
  MaxMemoCharacters :: u64
  TxSigLimit :: u64
  TxSizeCostPerByte :: u64
  SigVerifyCostED25519 :: u64
  SigVerifyCostSecp256k1 :: u64

definition SigVerifyCostSecp256r1 :: "auth_Params \<Rightarrow> u64" where
  "SigVerifyCostSecp256r1 P = SigVerifyCostSecp256k1 P div 2"

text \<open>a charge in a function that may also return an error\<close>

definition charge :: "u64 \<Rightarrow> string \<Rightarrow> (GasMeter, err, unit) go" where
  "charge a d = gmap_err (\<lambda>_. Errorf []) (ConsumeGas a d)"

function DefaultSigVerificationGasConsumer :: "auth_Params \<Rightarrow> PubKey option \<Rightarrow> SignatureData \<Rightarrow> (GasMeter, err, unit) go"
  and ConsumeMultisignatureVerificationGas :: "auth_Params \<Rightarrow> PubKey list \<Rightarrow> CompactBitArray option \<Rightarrow> SignatureData list \<Rightarrow> nat \<Rightarrow> nat \<Rightarrow> (GasMeter, err, unit) go" where
  "DefaultSigVerificationGasConsumer P pubkey data m = (case pubkey of
     Some (Ed25519 _) \<Rightarrow> gbind (charge (SigVerifyCostED25519 P) ''ante verify: ed25519'') (\<lambda>_. gerr (Errorf ''ED25519 public keys are unsupported'')) m
   | Some (Secp256k1 _) \<Rightarrow> charge (SigVerifyCostSecp256k1 P) ''ante verify: secp256k1'' m
   | Some (Secp256r1 _) \<Rightarrow> charge (SigVerifyCostSecp256r1 P) ''ante verify: secp256r1'' m
   | Some (LegacyAminoPubKey t ks) \<Rightarrow>
       (case data of
          MultiSignatureData b ss \<Rightarrow> ConsumeMultisignatureVerificationGas P ks b ss 0 0 m
        | _ \<Rightarrow> (Err (Errorf ''expected MultiSignatureData''), m))
   | _ \<Rightarrow> (Err (Errorf ''unrecognized public key type''), m))"
| "ConsumeMultisignatureVerificationGas P ks b ss i sigIndex m =
     (if int i < ba_Count b then
        (case GetIndex b (int i) of
           None \<Rightarrow> (Panic ''index out of range'', m)
         | Some isSet \<Rightarrow>
             if \<not> isSet then ConsumeMultisignatureVerificationGas P ks b ss (Suc i) sigIndex m
             else if i < length ks \<and> sigIndex < length ss then
               (case DefaultSigVerificationGasConsumer P (Some (ks ! i)) (ss ! sigIndex) m of
                  (Ret _, m') \<Rightarrow> ConsumeMultisignatureVerificationGas P ks b ss (Suc i) (Suc sigIndex) m'
                | (Err e, m') \<Rightarrow> (Err e, m')
                | (Panic p, m') \<Rightarrow> (Panic p, m'))
             else (Panic ''index out of range'', m))
      else (Ret (), m))"
  by pat_completeness auto
termination
  by (relation "measures [\<lambda>x. case x of Inl (_, _, data, _) \<Rightarrow> size data | Inr (_, _, _, ss, _, _, _) \<Rightarrow> size_list size ss,
      \<lambda>x. case x of Inl (_, _, data, _) \<Rightarrow> 0 | Inr (_, _, b, _, i, _, _) \<Rightarrow> nat (ba_Count b - int i)]")
    (auto simp: termination_simp)

declare DefaultSigVerificationGasConsumer.simps [simp del] ConsumeMultisignatureVerificationGas.simps [simp del]

text \<open>\<open>app.go\<close>: the consumer the chain passes to the ante handler\<close>

definition ZytherionSigVerificationGasConsumer :: "auth_Params \<Rightarrow> PubKey option \<Rightarrow> SignatureData \<Rightarrow> (GasMeter, err, unit) go" where
  "ZytherionSigVerificationGasConsumer P pubkey data = (case pubkey of
     Some (Dilithium5 _) \<Rightarrow> charge (SigVerifyCostED25519 P * 4) ''ante verify: dilithium5''
   | _ \<Rightarrow> DefaultSigVerificationGasConsumer P pubkey data)"

subsection \<open>Counting bits\<close>

definition bit_at :: "8 word list \<Rightarrow> nat \<Rightarrow> bool" where
  "bit_at es i \<longleftrightarrow> bit (es ! (i div 8)) (7 - i mod 8)"

primrec tally :: "(nat \<Rightarrow> bool) \<Rightarrow> nat \<Rightarrow> int" where
  "tally P 0 = 0"
| "tally P (Suc n) = tally P n + of_bool (P n)"

lemma tally_card: "tally P n = int (card {i. i < n \<and> P i})"
proof (induction n)
  case (Suc n)
  have "{i. i < Suc n \<and> P i} = (if P n then insert n {i. i < n \<and> P i} else {i. i < n \<and> P i})"
    by (auto simp: less_Suc_eq)
  then show ?case using Suc by simp
qed simp

lemma tally_filter: "int (length (filter P [0..<n])) = tally P n"
  by (induction n) simp_all

lemma tally_add: "tally P (m + n) = tally P m + tally (\<lambda>i. P (m + i)) n"
  by (induction n) simp_all

lemma tally_cong: "(\<And>i. i < n \<Longrightarrow> P i = Q i) \<Longrightarrow> tally P n = tally Q n"
  by (induction n) simp_all

lemma bit_mask_bit: "bit (bit_mask i) k \<longleftrightarrow> k = nat (7 - i mod 8)"
proof -
  have "nat (7 - i mod 8) < 8" using pos_mod_bound [of 8 i] by simp
  then show ?thesis by (auto simp: bit_mask_def bit_exp_iff)
qed

lemma masked_bit: "0 < w AND bit_mask i \<longleftrightarrow> bit w (nat (7 - i mod 8))"
  by (simp add: bit_mask_def word_neq_0_conv [symmetric] and_exp_eq_0_iff_not_bit push_bit_eq_mult)

lemma GetIndex_bit:
  assumes "int i < ba_Count (Some b)"
  shows "GetIndex (Some b) (int i) = (if i div 8 < length (Elems b) then Some (bit_at (Elems b) i) else None)"
proof -
  have n: "nat (7 - int i mod 8) = 7 - i mod 8"
    by (simp add: nat_diff_distrib' zmod_int [symmetric] nat_mod_distrib)
  show ?thesis
    using assms masked_bit [of _ "int i"] by (simp add: GetIndex_def bit_at_def nat_div_distrib n)
qed

lemma OnesCount8_tally: "OnesCount8 x = tally (\<lambda>i. bit x (7 - i)) 8"
  unfolding OnesCount8_def tally_filter by (simp add: numeral_eq_Suc)

lemma OnesCount8_shift:
  assumes "j < 8"
  shows "OnesCount8 (drop_bit (8 - j) x) = tally (\<lambda>i. bit x (7 - i)) j"
proof -
  have big: "\<not> bit x n" if "8 \<le> n" for n using that bit_imp_le_length [of x n] by auto
  have "j = 0 \<or> j = 1 \<or> j = 2 \<or> j = 3 \<or> j = 4 \<or> j = 5 \<or> j = 6 \<or> j = 7" using assms by auto
  then show ?thesis
    by (elim disjE) (simp_all add: OnesCount8_tally bit_drop_bit_eq numeral_eq_Suc big)
qed

lemma smod_nat: "int a smod 8 = int (a mod 8)"
  by (cases "a = 0") (auto simp: signed_modulo_int_def zmod_int)

lemma num_true_loop_tally:
  assumes "n * 8 \<le> index" "index \<le> (n + length es) * 8"
  shows "num_true_loop (int index) (int n) es acc = acc + tally (bit_at es) (index - n * 8)"
  using assms
proof (induction es arbitrary: n acc)
  case Nil
  then show ?case by simp
next
  case (Cons e es)
  show ?case
  proof (cases "index \<le> n * 8 + 7")
    case True
    define j where "j = index - n * 8"
    have j: "index = n * 8 + j" "j < 8" using Cons.prems True by (auto simp: j_def)
    have "index mod 8 = j" using j by simp
    then have "nat (7 - int index smod 8 + 1) = 8 - j" by (simp add: smod_nat)
    moreover have "tally (bit_at (e # es)) j = tally (\<lambda>i. bit e (7 - i)) j"
      by (rule tally_cong) (use j in \<open>simp add: bit_at_def\<close>)
    ultimately show ?thesis using True OnesCount8_shift [OF j(2), of e] by (simp add: j_def)
  next
    case False
    then obtain m where m: "index = (n + 1) * 8 + m" using le_Suc_ex [of "(n + 1) * 8" index] by auto
    have "tally (bit_at (e # es)) (8 + m) = tally (\<lambda>i. bit e (7 - i)) 8 + tally (bit_at es) m"
      unfolding tally_add by (intro arg_cong2 [where f = "(+)"] tally_cong) (simp_all add: bit_at_def div_add_self1)
    then show ?thesis using False m Cons.IH [of "n + 1" "acc + OnesCount8 e"] Cons.prems by (simp add: OnesCount8_tally algebra_simps)
  qed
qed

text \<open>
  \<open>NumTrueBitsBefore\<close> counts the set bits that \<open>GetIndex\<close> shows, in every array whose
  claimed number of bits it can hold
\<close>

lemma NumTrueBitsBefore_exact:
  assumes "ba_Count (Some b) \<le> 8 * int (length (Elems b))" "int index \<le> ba_Count (Some b)"
  shows "NumTrueBitsBefore (Some b) (int index) = Some (int (card {i. i < index \<and> GetIndex (Some b) (int i) = Some True}))"
proof -
  have "num_true_loop (min (int index) (ba_Count (Some b))) 0 (Elems b) 0 = tally (bit_at (Elems b)) index"
    using num_true_loop_tally [of 0 index "Elems b" 0] assms by simp
  moreover have "i div 8 < length (Elems b)" if "i < index" for i
    using that assms by linarith
  then have "{i. i < index \<and> bit_at (Elems b) i} = {i. i < index \<and> GetIndex (Some b) (int i) = Some True}"
    using assms(2) by (auto simp: GetIndex_bit)
  ultimately show ?thesis by (simp add: NumTrueBitsBefore_def tally_card)
qed

text \<open>writing and reading bits, and a fresh array\<close>

lemma SetIndex_GetIndex:
  assumes "SetIndex bA i v = Some (bA', True)"
  shows "GetIndex bA' j = (if j = i then Some v else GetIndex bA j)"
proof -
  obtain b where b: "bA = Some b" "0 \<le> i" "i < ba_Count bA" "nat (i div 8) < length (Elems b)"
    using assms by (auto simp: SetIndex_def split: option.splits if_splits)
  define e where "e = (if v then Elems b ! nat (i div 8) OR bit_mask i else Elems b ! nat (i div 8) AND NOT (bit_mask i))"
  have b': "bA' = Some (b\<lparr>Elems := (Elems b)[nat (i div 8) := e]\<rparr>)"
    using assms b by (auto simp: SetIndex_def Let_def e_def)
  have count: "ba_Count bA' = ba_Count bA" by (simp add: b' b(1) ba_Count_def)
  have same: "nat (7 - i mod 8) = nat (7 - j mod 8) \<longleftrightarrow> i mod 8 = j mod 8"
    using pos_mod_bound [of 8 i] pos_mod_bound [of 8 j] by (simp add: eq_nat_nat_iff)
  have e: "bit e (nat (7 - j mod 8)) = (if i mod 8 = j mod 8 then v else bit (Elems b ! nat (i div 8)) (nat (7 - j mod 8)))"
    using same by (auto simp: e_def bit_or_iff bit_and_iff bit_not_iff bit_mask_bit nat_less_iff)
  have pos: "i = j \<longleftrightarrow> i div 8 = j div 8 \<and> i mod 8 = j mod 8" by (metis div_mult_mod_eq)
  show ?thesis
  proof (cases "nat (j div 8) = nat (i div 8) \<and> 0 \<le> j")
    case True
    moreover have "0 \<le> j div 8" "0 \<le> i div 8" using True b(2) by (auto simp: div_int_pos_iff)
    ultimately have "j div 8 = i div 8" by (simp add: eq_nat_nat_iff)
    note d = this
    show ?thesis
    proof (cases "j < ba_Count bA")
      case inside: True
      have "GetIndex bA' j = Some (bit e (nat (7 - j mod 8)))"
        using inside True b(1,4) count d by (simp add: GetIndex_def b' masked_bit)
      moreover have "GetIndex bA j = Some (bit (Elems b ! nat (i div 8)) (nat (7 - j mod 8)))"
        using inside True b(1,4) d by (simp add: GetIndex_def masked_bit)
      moreover have "j = i \<longleftrightarrow> i mod 8 = j mod 8" using pos d by auto
      ultimately show ?thesis using e by simp
    next
      case False
      then show ?thesis using b(1,3) count [unfolded b'] by (simp add: GetIndex_def b')
    qed
  next
    case False
    then have "j \<noteq> i" using b(2) by auto
    moreover have "(Elems b)[nat (i div 8) := e] ! nat (j div 8) = Elems b ! nat (j div 8)" if "0 \<le> j"
      using False that by simp
    ultimately show ?thesis using count [unfolded b' b(1)] by (cases "0 \<le> j") (simp_all add: GetIndex_def b' b(1))
  qed
qed

lemma NewCompactBitArray_fresh:
  assumes "0 < n" "n \<le> 8 * (2 ^ 31 - 1)"
  shows "\<exists>b. NewCompactBitArray n = Some b \<and> ba_Count (Some b) = n \<and> GetIndex (Some b) j = Some False"
proof -
  have d: "(n + 7) sdiv 8 = (n + 7) div 8" "n smod 8 = n mod 8"
    using assms(1) by (simp_all add: signed_divide_int_def signed_modulo_int_def)
  have u: "uint (word_of_int (n mod 8) :: 32 word) = n mod 8"
    by (simp add: uint_word_of_int take_bit_int_eq_self)
  have "(n + 7) div 8 \<le> 2 ^ 31 - 1" using zdiv_mono1 [of "n + 7" "8 * (2 ^ 31 - 1) + 7" 8] assms(2) by simp
  moreover have q: "(n + 7) div 8 = (n - 1) div 8 + 1" using div_add_self2 [of 8 "n - 1"] by (simp add: algebra_simps)
  moreover have "0 \<le> (n - 1) div 8" using assms(1) by (simp add: div_int_pos_iff)
  moreover define b where "b = \<lparr>ExtraBitsStored = word_of_int (n mod 8), Elems = replicate (nat ((n + 7) div 8)) (0 :: 8 word)\<rparr>"
  moreover have c: "ba_Count (Some b) = n"
  proof (cases "n mod 8 = 0")
    case True
    then have "n div 8 * 8 = n" using div_mult_mod_eq [of n 8] by simp
    moreover from this have "(n + 7) div 8 = n div 8" by (intro int_div_pos_eq [where r = 7]) simp_all
    ultimately have "(n + 7) div 8 = n div 8" "n div 8 * 8 = n" by simp_all
    then show ?thesis using True assms(1) by (simp add: b_def ba_Count_def div_int_pos_iff)
  next
    case False
    then have "(word_of_int (n mod 8) :: 32 word) \<noteq> 0" using u by (metis uint_0_eq)
    moreover have "(n + 7) div 8 = n div 8 + 1"
    proof (rule int_div_pos_eq [where r = "n mod 8 - 1"])
      show "n + 7 = 8 * (n div 8 + 1) + (n mod 8 - 1)" using div_mult_mod_eq [of n 8] by simp
      show "0 \<le> n mod 8 - 1" using False pos_mod_sign [of 8 n] by simp
      show "n mod 8 - 1 < 8" using pos_mod_bound [of 8 n] by simp
    qed
    moreover have "0 \<le> n div 8" using assms(1) by (simp add: div_int_pos_iff)
    moreover have "n div 8 * 8 + n mod 8 = n" by simp
    ultimately show ?thesis using u by (simp add: b_def ba_Count_def)
  qed
  moreover have "GetIndex (Some b) j = Some False"
  proof (cases "0 \<le> j \<and> j < n")
    case True
    then have "0 \<le> j div 8" "j div 8 \<le> (n - 1) div 8" by (simp add: div_int_pos_iff, simp add: zdiv_mono1)
    then have "nat (j div 8) < nat ((n + 7) div 8)" using q by simp
    then show ?thesis using True c by (simp add: GetIndex_def b_def)
  qed (use c in \<open>auto simp: GetIndex_def\<close>)
  ultimately show ?thesis using assms(1) d by (simp add: NewCompactBitArray_def Let_def)
qed

subsection \<open>What an accepted signature shows\<close>

inductive has_signed :: "verifier \<Rightarrow> (SignMode \<Rightarrow> err + string) \<Rightarrow> PubKey \<Rightarrow> SignatureData \<Rightarrow> bool" for V getSignBytes where
  single: "\<forall>t ks. pk \<noteq> LegacyAminoPubKey t ks \<Longrightarrow> getSignBytes mode = Inr msg \<Longrightarrow> V pk msg sig \<Longrightarrow>
    has_signed V getSignBytes pk (SingleSignatureData mode sig)"
| threshold: "S \<subseteq> {..<length ks} \<Longrightarrow> unat t \<le> card S \<Longrightarrow> inj_on f S \<Longrightarrow> (\<And>i. i \<in> S \<Longrightarrow> f i < length ss) \<Longrightarrow>
    (\<And>i. i \<in> S \<Longrightarrow> has_signed V getSignBytes (ks ! i) (ss ! f i)) \<Longrightarrow>
    has_signed V getSignBytes (LegacyAminoPubKey t ks) (MultiSignatureData b ss)"

inductive_cases signed_SingleE: "has_signed V getSignBytes pk (SingleSignatureData mode sig)"
inductive_cases signed_MultiE: "has_signed V getSignBytes pk (MultiSignatureData b ss)"

lemma key_VerifySignature_iff: "key_VerifySignature V pk msg sig = Ret True \<longleftrightarrow> (\<forall>t ks. pk \<noteq> LegacyAminoPubKey t ks) \<and> V pk msg sig"
  by (auto simp: key_VerifySignature_def split: PubKey.split)

text \<open>the keys from position \<open>i\<close> on whose bit is set have signed, with different signatures from \<open>k\<close> on\<close>

definition set_bits :: "PubKey list \<Rightarrow> CompactBitArray option \<Rightarrow> nat \<Rightarrow> nat set" where
  "set_bits ks b i = {j. i \<le> j \<and> j < length ks \<and> GetIndex b (int j) = Some True}"

definition tail_signed :: "verifier \<Rightarrow> (SignMode \<Rightarrow> err + string) \<Rightarrow> PubKey list \<Rightarrow> CompactBitArray option \<Rightarrow> SignatureData list \<Rightarrow> nat \<Rightarrow> nat \<Rightarrow> bool" where
  "tail_signed V getSignBytes ks b ss i k \<longleftrightarrow>
     (\<forall>j. i \<le> j \<and> j < length ks \<longrightarrow> GetIndex b (int j) \<noteq> None) \<and>
     (\<exists>f. inj_on f (set_bits ks b i) \<and>
        (\<forall>j \<in> set_bits ks b i. k \<le> f j \<and> f j < length ss \<and> has_signed V getSignBytes (ks ! j) (ss ! f j)))"

lemma set_bits_simps:
  "\<not> i < length ks \<Longrightarrow> set_bits ks b i = {}"
  "GetIndex b (int i) = Some False \<Longrightarrow> set_bits ks b i = set_bits ks b (Suc i)"
  "i < length ks \<Longrightarrow> GetIndex b (int i) = Some True \<Longrightarrow> set_bits ks b i = insert i (set_bits ks b (Suc i))"
  by (auto simp: set_bits_def Suc_le_eq order_le_less)

lemma tail_signed_end: "\<not> i < length ks \<Longrightarrow> tail_signed V getSignBytes ks b ss i k"
  by (auto simp: tail_signed_def set_bits_simps)

lemma tail_defined:
  assumes "GetIndex b (int i) \<noteq> None" "tail_signed V getSignBytes ks b ss (Suc i) k'" "i \<le> j" "j < length ks"
  shows "GetIndex b (int j) \<noteq> None"
  using assms by (cases "j = i") (auto simp: tail_signed_def Suc_le_eq)

lemma tail_signed_unset:
  assumes "GetIndex b (int i) = Some False" "tail_signed V getSignBytes ks b ss (Suc i) k"
  shows "tail_signed V getSignBytes ks b ss i k"
  using assms tail_defined [OF _ assms(2)] unfolding tail_signed_def set_bits_simps(2) [OF assms(1)] by simp

lemma tail_signed_set:
  assumes "i < length ks" "GetIndex b (int i) = Some True" "k < length ss" "has_signed V getSignBytes (ks ! i) (ss ! k)"
    "tail_signed V getSignBytes ks b ss (Suc i) (Suc k)"
  shows "tail_signed V getSignBytes ks b ss i k"
proof -
  obtain f where f: "inj_on f (set_bits ks b (Suc i))"
    "\<And>j. j \<in> set_bits ks b (Suc i) \<Longrightarrow> Suc k \<le> f j \<and> f j < length ss \<and> has_signed V getSignBytes (ks ! j) (ss ! f j)"
    using assms(5) by (auto simp: tail_signed_def)
  let ?f = "f(i := k)"
  have i: "i \<notin> set_bits ks b (Suc i)" by (simp add: set_bits_def)
  have "k \<notin> f ` set_bits ks b (Suc i)" using f(2) by fastforce
  then have "inj_on ?f (set_bits ks b i)"
    using f(1) i by (auto simp: set_bits_simps(3) [OF assms(1,2)] inj_on_def)
  moreover have "k \<le> ?f j \<and> ?f j < length ss \<and> has_signed V getSignBytes (ks ! j) (ss ! ?f j)" if "j \<in> set_bits ks b i" for j
    using that f(2) [of j] i assms(3,4) by (auto simp: set_bits_simps(3) [OF assms(1,2)] dest: Suc_leD)
  moreover have "GetIndex b (int j) \<noteq> None" if "i \<le> j" "j < length ks" for j
    using tail_defined [OF _ assms(5) that] assms(2) by simp
  ultimately show ?thesis unfolding tail_signed_def by blast
qed

lemma all_bits_fit:
  assumes "ba_Count (Some b) = int n" "\<And>j. j < n \<Longrightarrow> GetIndex (Some b) (int j) \<noteq> None"
  shows "ba_Count (Some b) \<le> 8 * int (length (Elems b))"
proof (cases n)
  case (Suc m)
  then have "m div 8 < length (Elems b)"
    using assms(2) [of m] GetIndex_bit [of m b] assms(1) by (auto split: if_splits)
  then show ?thesis using assms(1) Suc by linarith
qed (use assms(1) in simp)

lemma tail_signed_threshold:
  assumes "ba_Count bA = int (length ks)" "NumTrueBitsBefore bA (int (length ks)) = Some n" "int (unat t) \<le> n"
    "tail_signed V getSignBytes ks bA ss 0 0"
  shows "has_signed V getSignBytes (LegacyAminoPubKey t ks) (MultiSignatureData bA ss)"
proof -
  obtain b where b: "bA = Some b" using assms(2) by (auto simp: NumTrueBitsBefore_def)
  obtain f where f: "inj_on f (set_bits ks bA 0)"
    "\<And>j. j \<in> set_bits ks bA 0 \<Longrightarrow> f j < length ss \<and> has_signed V getSignBytes (ks ! j) (ss ! f j)"
    using assms(4) by (auto simp: tail_signed_def)
  have "ba_Count (Some b) \<le> 8 * int (length (Elems b))"
    by (rule all_bits_fit [of b "length ks"]) (use assms(1,4) b in \<open>auto simp: tail_signed_def\<close>)
  from NumTrueBitsBefore_exact [OF this, of "length ks"]
  have "int (unat t) \<le> int (card (set_bits ks bA 0))" using assms(1-3) b by (simp add: set_bits_def)
  then have "unat t \<le> card (set_bits ks bA 0)" by (simp only: of_nat_le_iff)
  then show ?thesis
    by (rule has_signed.threshold [rotated]) (use f in \<open>auto simp: set_bits_def\<close>)
qed

lemma verify_multi_sound:
  "VerifyMultisignature V getSignBytes t ks b ss = Ret () \<Longrightarrow> has_signed V getSignBytes (LegacyAminoPubKey t ks) (MultiSignatureData b ss)"
  "verify_multi_loop V getSignBytes ks b ss i k = Ret () \<Longrightarrow> tail_signed V getSignBytes ks b ss i k"
proof (induction V getSignBytes t ks b ss and V getSignBytes ks b ss i k rule: VerifyMultisignature_verify_multi_loop.induct)
  case (1 V getSignBytes t ks b ss)
  then show ?case by (auto simp: VerifyMultisignature.simps not_less split: if_splits option.splits intro: tail_signed_threshold)
next
  case (2 V getSignBytes ks b ss i k)
  note run = "2.prems" [unfolded verify_multi_loop.simps [of V getSignBytes ks b ss i k]]
  show ?case
  proof (cases "i < length ks")
    case True
    then obtain v where v: "GetIndex b (int i) = Some v" using run by (simp split: option.splits)
    show ?thesis
    proof (cases v)
      case False
      then show ?thesis using "2.IH"(1) [OF True v] run True v by (auto intro: tail_signed_unset)
    next
      case set: True
      then have k: "k < length ss" using run True v by (simp split: if_splits)
      have "has_signed V getSignBytes (ks ! i) (ss ! k) \<and> tail_signed V getSignBytes ks b ss (Suc i) (Suc k)"
      proof (cases "ss ! k")
        case (SingleSignatureData mode sig)
        then obtain msg where msg: "getSignBytes mode = Inr msg" "key_VerifySignature V (ks ! i) msg sig = Ret True"
            "verify_multi_loop V getSignBytes ks b ss (Suc i) (Suc k) = Ret ()"
          using run True v set k by (auto split: sum.splits outcome.splits if_splits)
        then show ?thesis
          using SingleSignatureData "2.IH"(2) [OF True v _ k] set by (auto simp: key_VerifySignature_iff intro: has_signed.single)
      next
        case (MultiSignatureData b' ss')
        then obtain t' ks' where m: "ks ! i = LegacyAminoPubKey t' ks'" "VerifyMultisignature V getSignBytes t' ks' b' ss' = Ret ()"
            "verify_multi_loop V getSignBytes ks b ss (Suc i) (Suc k) = Ret ()"
          using run True v set k by (auto split: PubKey.splits outcome.splits)
        then show ?thesis
          using MultiSignatureData "2.IH"(3) [OF True v _ k] "2.IH"(4) [OF True v _ k] set by auto
      next
        case NoSignatureData
        then show ?thesis using run True v set k by simp
      qed
      then show ?thesis using True v set k by (auto intro: tail_signed_set)
    qed
  qed (rule tail_signed_end)
qed

lemma VerifySignature_signed:
  assumes "VerifySignature V getSignBytes pk sigData = Ret ()"
  shows "has_signed V getSignBytes pk sigData"
proof (cases sigData)
  case (SingleSignatureData mode sig)
  then show ?thesis
    using assms by (auto simp: VerifySignature_def key_VerifySignature_iff split: sum.splits outcome.splits if_splits intro: has_signed.single)
next
  case (MultiSignatureData b ss)
  then show ?thesis using assms by (auto simp: VerifySignature_def split: PubKey.splits intro: verify_multi_sound(1))
next
  case NoSignatureData
  then show ?thesis using assms by (simp add: VerifySignature_def)
qed

text \<open>
  C32. Threshold signatures are genuine: when a threshold key made for \<open>k\<close> of \<open>n\<close> keys is given
  and \<open>VerifySignature\<close> accepts a signature for it, there are at least \<open>k\<close> of its keys that have
  signed, each with a signature of its own among those given, whatever bit array the transaction
  carries; and a key that is no threshold key has signed the bytes to sign itself.
\<close>

theorem VerifySignature_sound:
  assumes "VerifySignature V getSignBytes pk sigData = Ret ()"
  shows "case pk of
      LegacyAminoPubKey t ks \<Rightarrow> \<exists>b ss S f. sigData = MultiSignatureData b ss \<and> S \<subseteq> {..<length ks} \<and> unat t \<le> card S \<and>
        inj_on f S \<and> (\<forall>i\<in>S. f i < length ss \<and> has_signed V getSignBytes (ks ! i) (ss ! f i))
    | _ \<Rightarrow> \<exists>mode sig msg. sigData = SingleSignatureData mode sig \<and> getSignBytes mode = Inr msg \<and> V pk msg sig"
  using VerifySignature_signed [OF assms]
proof (cases rule: has_signed.cases)
  case (single mode msg sig)
  then show ?thesis by (auto split: PubKey.split)
next
  case (threshold S ks t f ss b)
  then show ?thesis by (simp, blast)
qed

abbreviation two_of_three :: PubKey where
  "two_of_three \<equiv> LegacyAminoPubKey 2 [Secp256k1 ''a'', Secp256k1 ''b'', LegacyAminoPubKey 1 [Secp256k1 ''c'', Secp256k1 ''d'']]"

abbreviation their_signature :: SignatureData where
  "their_signature \<equiv> MultiSignatureData (Some \<lparr>ExtraBitsStored = 3, Elems = [160]\<rparr>)
     [SingleSignatureData SIGN_MODE_DIRECT ''doc-a'',
      MultiSignatureData (Some \<lparr>ExtraBitsStored = 2, Elems = [64]\<rparr>) [SingleSignatureData SIGN_MODE_DIRECT ''doc-d'']]"

definition key_name :: "PubKey \<Rightarrow> string" where
  "key_name pk = (case pk of Secp256k1 k \<Rightarrow> k | _ \<Rightarrow> [])"

theorem VerifySignature_sound_witness:
  "VerifySignature (\<lambda>pk msg sig. sig = msg @ ''-'' @ key_name pk) (\<lambda>_. Inr ''doc'') two_of_three their_signature = Ret () \<and>
   (\<exists>(S :: nat set) f. S \<subseteq> {..<3} \<and> 2 \<le> card S \<and> inj_on f S \<and> (\<forall>i\<in>S. f i < (2 :: nat)))"
proof -
  have ok: "VerifySignature (\<lambda>pk msg sig. sig = msg @ ''-'' @ key_name pk) (\<lambda>_. Inr ''doc'') two_of_three their_signature = Ret ()"
    by code_simp
  from VerifySignature_sound [OF ok] have "\<exists>(S :: nat set) f. S \<subseteq> {..<3} \<and> 2 \<le> card S \<and> inj_on f S \<and> (\<forall>i\<in>S. f i < (2 :: nat))"
    by (auto simp flip: numeral_3_eq_3 numeral_2_eq_2)
  then show ?thesis using ok by blast
qed

text \<open>a Dilithium5 key is known to the chain's consumer only as a key of its own\<close>

lemma dilithium_loop:
  assumes "GetIndex b (int j) = Some True" "j < length ks" "ks ! j = Dilithium5 key" "i \<le> j"
  shows "fst (ConsumeMultisignatureVerificationGas P ks b ss i k m) \<noteq> Ret ()"
  using assms(4)
proof (induction "j - i" arbitrary: i k m)
  case 0
  then have "i = j" by simp
  moreover have "int j < ba_Count b" using assms(1) by (auto simp: GetIndex_def split: option.splits if_splits)
  ultimately show ?case
    using assms(1-3) by (simp add: ConsumeMultisignatureVerificationGas.simps [of P ks b ss j] DefaultSigVerificationGasConsumer.simps)
next
  case (Suc n)
  have c: "int i < ba_Count b" using assms(1) Suc.prems by (auto simp: GetIndex_def split: option.splits if_splits)
  have later: "fst (ConsumeMultisignatureVerificationGas P ks b ss (Suc i) k' m') \<noteq> Ret ()" for k' m'
    by (rule Suc.hyps(1)) (use Suc.hyps(2) in auto)
  show ?case
    using c later by (auto simp: ConsumeMultisignatureVerificationGas.simps [of P ks b ss i] split: option.splits prod.splits outcome.splits)
qed

text \<open>
  C33. A Dilithium5 key cannot take part in a threshold key: the consumer that the chain passes to
  the ante handler accepts no threshold signature in which the bit of a Dilithium5 key is set.
\<close>

theorem dilithium_not_in_multisig:
  assumes "GetIndex b (int j) = Some True" "j < length ks" "ks ! j = Dilithium5 key"
  shows "fst (ZytherionSigVerificationGasConsumer P (Some (LegacyAminoPubKey t ks)) (MultiSignatureData b ss) m) \<noteq> Ret ()"
  using dilithium_loop [OF assms] by (simp add: ZytherionSigVerificationGasConsumer_def DefaultSigVerificationGasConsumer.simps)

theorem dilithium_not_in_multisig_witness:
  "fst (ZytherionSigVerificationGasConsumer \<lparr>MaxMemoCharacters = 256, TxSigLimit = 7, TxSizeCostPerByte = 10, SigVerifyCostED25519 = 590, SigVerifyCostSecp256k1 = 1000\<rparr>
     (Some (LegacyAminoPubKey 1 [Secp256k1 ''a'', Dilithium5 ''b''])) (MultiSignatureData (Some \<lparr>ExtraBitsStored = 2, Elems = [64]\<rparr>) [SingleSignatureData SIGN_MODE_DIRECT ''s'']) (NewGasMeter 100000)) \<noteq> Ret ()"
  by (rule dilithium_not_in_multisig [of _ 1 _ "''b''"]) (simp_all add: GetIndex_def ba_Count_def bit_mask_def)

end
