(* ===== verification/TxData.thy ===== *)
theory TxData
  imports Multisig
begin

section \<open>Transactions\<close>

text \<open>
  \<open>cosmos-sdk/types/tx/types.go\<close> and \<open>x/auth/tx\<close>: a decoded transaction with its fee and
  signer infos, who has to sign it, and its signatures. The signers are those of the messages
  without repetition and the fee payer; repetition is judged on the printed addresses. The
  Protobuf decoder of a multi-signature is an argument. A transaction has all parts (\<open>Body\<close>,
  \<open>AuthInfo\<close> and \<open>Fee\<close> are never nil after decoding), and coins have amounts.
\<close>

datatype ModeInfo =
    ModeInfo_Single SignMode
  | ModeInfo_Multi "CompactBitArray option" "ModeInfo list"
  | ModeInfo_unset

record SignerInfo =
  nf_PublicKey :: "PubKey option"
  nf_ModeInfo :: "ModeInfo option"
  nf_Sequence :: u64

record 'msg Tx =
  tx_Messages :: "'msg list"
  tx_Memo :: string
  tx_TimeoutHeight :: u64
  tx_ExtensionOptions :: "string list"
  tx_SignerInfos :: "SignerInfo list"
  tx_Amount :: coins
  tx_GasLimit :: u64
  tx_Payer :: string
  tx_Granter :: string
  tx_Signatures :: "string list"

record SignatureV2 =
  sg_PubKey :: "PubKey option"
  sg_Data :: SignatureData
  sg_Sequence :: u64

subsection \<open>Who signs and who pays\<close>

definition add_signer :: "env \<Rightarrow> addr \<Rightarrow> addr list \<times> string list \<Rightarrow> addr list \<times> string list" where
  "add_signer E a = (\<lambda>(signers, seen).
     if acc_String E a \<in> set seen then (signers, seen) else (signers @ [a], acc_String E a # seen))"

text \<open>\<open>None\<close> is the panic of \<open>MustAccAddressFromBech32\<close>\<close>

definition GetSigners :: "env \<Rightarrow> ('msg \<Rightarrow> addr list) \<Rightarrow> 'msg Tx \<Rightarrow> addr list option" where
  "GetSigners E msgSigners t =
     (let (signers, seen) = fold (add_signer E) (concat (map msgSigners (tx_Messages t))) ([], []);
          feePayer = tx_Payer t
      in if feePayer \<noteq> [] \<and> feePayer \<notin> set seen
         then map_option (\<lambda>payerAddr. signers @ [payerAddr]) (AccAddressFromBech32 E feePayer)
         else Some signers)"

definition FeePayer :: "env \<Rightarrow> ('msg \<Rightarrow> addr list) \<Rightarrow> 'msg Tx \<Rightarrow> addr option" where
  "FeePayer E msgSigners t =
     (if tx_Payer t \<noteq> [] then AccAddressFromBech32 E (tx_Payer t)
      else case GetSigners E msgSigners t of Some (a # _) \<Rightarrow> Some a | _ \<Rightarrow> None)"

text \<open>\<open>Some None\<close> is the nil address\<close>

definition FeeGranter :: "env \<Rightarrow> 'msg Tx \<Rightarrow> addr option option" where
  "FeeGranter E t = (if tx_Granter t \<noteq> [] then map_option Some (AccAddressFromBech32 E (tx_Granter t)) else Some None)"

definition MaxGasWanted :: u64 where
  "MaxGasWanted = 2 ^ 63 - 1"

definition tx_ValidateBasic :: "env \<Rightarrow> ('msg \<Rightarrow> addr list) \<Rightarrow> 'msg Tx \<Rightarrow> ('s, err, unit) go" where
  "tx_ValidateBasic E msgSigners t =
     gbind (gfail_if (tx_GasLimit t > MaxGasWanted) ErrInvalidRequest) (\<lambda>_.
     gbind (gfail_if (coins_IsAnyNegative (tx_Amount t)) (Errorf ''insufficient fee'')) (\<lambda>_.
     gbind (gfail_if (tx_Payer t \<noteq> [] \<and> AccAddressFromBech32 E (tx_Payer t) = None) ErrInvalidAddress) (\<lambda>_.
     gbind (gfail_if (tx_Signatures t = []) (Errorf ''no signatures supplied'')) (\<lambda>_.
     gbind (gopt_panic ''invalid fee payer'' (GetSigners E msgSigners t)) (\<lambda>signers.
     gfail_if (length (tx_Signatures t) \<noteq> length signers) ErrUnauthorized)))))"

subsection \<open>Signatures\<close>

definition GetPubKeys :: "'msg Tx \<Rightarrow> PubKey option list" where
  "GetPubKeys t = map nf_PublicKey (tx_SignerInfos t)"

text \<open>positions of \<open>sigv2s\<close> beyond the mode infos keep the nil interface\<close>

fun ModeInfoAndSigToSignatureData :: "(string \<Rightarrow> err + string list) \<Rightarrow> ModeInfo \<Rightarrow> string \<Rightarrow> (err, SignatureData) outcome"
  and mode_infos :: "(string \<Rightarrow> err + string list) \<Rightarrow> ModeInfo list \<Rightarrow> string list \<Rightarrow> (err, SignatureData list) outcome" where
  "ModeInfoAndSigToSignatureData decode (ModeInfo_Single mode) sig = Ret (SingleSignatureData mode sig)"
| "ModeInfoAndSigToSignatureData decode (ModeInfo_Multi bitarray infos) sig = (case decode sig of
     Inl e \<Rightarrow> Err e
   | Inr sigs \<Rightarrow> (case mode_infos decode infos sigs of
       Ret sigv2s \<Rightarrow> Ret (MultiSignatureData bitarray sigv2s)
     | Err e \<Rightarrow> Err e
     | Panic p \<Rightarrow> Panic p))"
| "ModeInfoAndSigToSignatureData decode ModeInfo_unset sig = Panic ''unexpected ModeInfo data type''"
| "mode_infos decode [] sigs = Ret (map (\<lambda>_. NoSignatureData) sigs)"
| "mode_infos decode (mi # infos) [] = Panic ''index out of range''"
| "mode_infos decode (mi # infos) (sig # sigs) = (case ModeInfoAndSigToSignatureData decode mi sig of
     Ret d \<Rightarrow> (case mode_infos decode infos sigs of Ret ds \<Rightarrow> Ret (d # ds) | Err e \<Rightarrow> Err e | Panic p \<Rightarrow> Panic p)
   | Err e \<Rightarrow> Err e
   | Panic p \<Rightarrow> Panic p)"

fun signatures_loop :: "(string \<Rightarrow> err + string list) \<Rightarrow> string list \<Rightarrow> nat \<Rightarrow> SignerInfo list \<Rightarrow> (err, SignatureV2 list) outcome" where
  "signatures_loop decode sigs i [] = Ret []"
| "signatures_loop decode sigs i (si # infos) =
     (let r = (case nf_ModeInfo si of
          None \<Rightarrow> Ret \<lparr>sg_PubKey = nf_PublicKey si, sg_Data = NoSignatureData, sg_Sequence = 0\<rparr>
        | Some mi \<Rightarrow>
            if i < length sigs then
              (case ModeInfoAndSigToSignatureData decode mi (sigs ! i) of
                 Ret d \<Rightarrow> Ret \<lparr>sg_PubKey = nf_PublicKey si, sg_Data = d, sg_Sequence = nf_Sequence si\<rparr>
               | Err e \<Rightarrow> Err e
               | Panic p \<Rightarrow> Panic p)
            else Panic ''index out of range'')
      in case r of
           Ret x \<Rightarrow> (case signatures_loop decode sigs (Suc i) infos of Ret xs \<Rightarrow> Ret (x # xs) | Err e \<Rightarrow> Err e | Panic p \<Rightarrow> Panic p)
         | Err e \<Rightarrow> Err e
         | Panic p \<Rightarrow> Panic p)"

definition GetSignaturesV2 :: "(string \<Rightarrow> err + string list) \<Rightarrow> 'msg Tx \<Rightarrow> ('s, err, SignatureV2 list) go" where
  "GetSignaturesV2 decode t = (\<lambda>s. (signatures_loop decode (tx_Signatures t) 0 (tx_SignerInfos t), s))"

fun signatureDataToBz :: "(string list \<Rightarrow> err + string) \<Rightarrow> SignatureData \<Rightarrow> err + string list"
  and signatures_to_bz :: "(string list \<Rightarrow> err + string) \<Rightarrow> SignatureData list \<Rightarrow> err + string list" where
  "signatureDataToBz marshal NoSignatureData = Inl (Errorf ''got empty SignatureData'')"
| "signatureDataToBz marshal (SingleSignatureData _ sig) = Inr [sig]"
| "signatureDataToBz marshal (MultiSignatureData _ ds) = (case signatures_to_bz marshal ds of
     Inl e \<Rightarrow> Inl e
   | Inr sigs \<Rightarrow> (case marshal sigs of Inl e \<Rightarrow> Inl e | Inr agg \<Rightarrow> Inr (sigs @ [agg])))"
| "signatures_to_bz marshal [] = Inr []"
| "signatures_to_bz marshal (d # ds) = (case signatureDataToBz marshal d of
     Inl e \<Rightarrow> Inl e
   | Inr nested \<Rightarrow> (case signatures_to_bz marshal ds of Inl e \<Rightarrow> Inl e | Inr sigs \<Rightarrow> Inr (nested @ sigs)))"

subsection \<open>What a transaction that is valid by itself has\<close>

lemma add_signers_seen:
  assumes "fold (add_signer E) xs (signers, map (acc_String E) (rev signers)) = (signers', seen)"
    "distinct (map (acc_String E) signers)"
  shows "seen = map (acc_String E) (rev signers') \<and> distinct (map (acc_String E) signers') \<and> set signers' \<subseteq> set signers \<union> set xs \<and>
    acc_String E ` (set signers \<union> set xs) = acc_String E ` set signers'"
  using assms
proof (induction xs arbitrary: signers)
  case (Cons a xs)
  show ?case
  proof (cases "acc_String E a \<in> acc_String E ` set signers")
    case True
    then have "fold (add_signer E) xs (signers, map (acc_String E) (rev signers)) = (signers', seen)"
      using Cons.prems(1) add_signer_def [of E a] by simp
    from Cons.IH [OF this Cons.prems(2)] show ?thesis using True by auto
  next
    case False
    then have "fold (add_signer E) xs (signers @ [a], map (acc_String E) (rev (signers @ [a]))) = (signers', seen)"
      using Cons.prems(1) add_signer_def [of E a] by simp
    from Cons.IH [OF this] show ?thesis using False Cons.prems(2) by auto
  qed
qed auto

text \<open>
  The signers of a transaction without an explicit fee payer are pairwise different, as
  printed, and are exactly the signers of its messages; an explicit fee payer is among the signers.
\<close>

lemma GetSigners_exact:
  assumes "GetSigners E msgSigners t = Some signers"
  shows "(tx_Payer t = [] \<longrightarrow> distinct signers \<and> set signers \<subseteq> (\<Union>m \<in> set (tx_Messages t). set (msgSigners m))) \<and>
    acc_String E ` (\<Union>m \<in> set (tx_Messages t). set (msgSigners m)) \<subseteq> acc_String E ` set signers \<and>
    (tx_Payer t \<noteq> [] \<longrightarrow> (\<exists>a \<in> set signers. acc_String E a = tx_Payer t \<or> AccAddressFromBech32 E (tx_Payer t) = Some a))"
proof -
  let ?as = "concat (map msgSigners (tx_Messages t))"
  obtain ss seen where f: "fold (add_signer E) ?as ([], []) = (ss, seen)" by fastforce
  have s: "seen = map (acc_String E) (rev ss)" "distinct (map (acc_String E) ss)" "set ss \<subseteq> set ?as" "acc_String E ` set ?as = acc_String E ` set ss"
    using add_signers_seen [of E ?as "[]" ss seen] f by simp_all
  have U: "(\<Union>m \<in> set (tx_Messages t). set (msgSigners m)) = set ?as" by auto
  show ?thesis
  proof (cases "tx_Payer t \<noteq> [] \<and> tx_Payer t \<notin> set seen")
    case True
    then obtain a where "AccAddressFromBech32 E (tx_Payer t) = Some a" "signers = ss @ [a]"
      using assms f by (auto simp: GetSigners_def)
    then show ?thesis using True s unfolding U by auto
  next
    case False
    then have "signers = ss" using assms f by (auto simp: GetSigners_def split: if_splits)
    then show ?thesis using False s unfolding U by (auto simp: distinct_map)
  qed
qed

end
