(* ===== verification/Ante.thy ===== *)
theory Ante
  imports BaseApp TxData
begin

section \<open>The ante handler\<close>

text \<open>
  \<open>cosmos-sdk/x/auth/ante\<close>: the chain of decorators that \<open>NewAnteHandler\<close> builds and
  \<open>app.go\<close> installs behind two decorators of its own, one that only logs and one that counts
  the accepted transactions (\<open>GreenBft\<close>). A decorator gets the context, the transaction and the next handler and
  returns the context of the rest of the transaction; the gas meter a context points to and
  the stores are the state. \<open>SetUpContextDecorator\<close> is outermost, makes the meter and turns a
  panic for gas into an error.

  The state is the bank's with the two fields of an account that only this handler uses, its
  public key and its sequence, and whatever else there is. Parameters are the sign-mode
  handler, the signature schemes and key addresses, the fee-grant keeper, the auth
  parameters in the store, and the arithmetic of \<open>cosmossdk.io/math\<close>. Gas for store access
  (\<open>GasKV\<close>), events and the type assertions on \<open>sdk.Tx\<close>, which hold for the SDK's own
  transactions, are left out.
\<close>

subsection \<open>State, context and options\<close>

record signer_info =
  si_PubKey :: "PubKey option"
  si_Sequence :: u64

record 'x ante_state =
  an_base :: base
  an_signers :: "signer_info kv"
  an_rest :: 'x

record AccountI =
  ai_Address :: addr
  ai_AccountNumber :: u64
  ai_PubKey :: "PubKey option"
  ai_Sequence :: u64
  ai_IsModule :: bool

definition signer_of :: "'x ante_state \<Rightarrow> addr \<Rightarrow> signer_info" where
  "signer_of s a = (case kv_get (an_signers s) a of Some i \<Rightarrow> i | None \<Rightarrow> \<lparr>si_PubKey = None, si_Sequence = 0\<rparr>)"

definition ak_GetAccount :: "addr \<Rightarrow> 'x ante_state \<Rightarrow> AccountI option" where
  "ak_GetAccount a s = map_option (\<lambda>acc. \<lparr>ai_Address = a, ai_AccountNumber = acc_number acc,
     ai_PubKey = si_PubKey (signer_of s a), ai_Sequence = si_Sequence (signer_of s a),
     ai_IsModule = (case acc of ModuleAccount _ _ _ \<Rightarrow> True | _ \<Rightarrow> False)\<rparr>) (kv_get (ac_accounts (an_base s)) a)"

definition ak_SetAccount :: "AccountI \<Rightarrow> 'x ante_state \<Rightarrow> 'x ante_state" where
  "ak_SetAccount acc s = s\<lparr>an_signers := kv_set (ai_Address acc) \<lparr>si_PubKey = ai_PubKey acc, si_Sequence = ai_Sequence acc\<rparr> (an_signers s)\<rparr>"

definition acc_SetPubKey :: "PubKey \<Rightarrow> AccountI \<Rightarrow> err + AccountI" where
  "acc_SetPubKey pk acc =
     (if ai_IsModule acc then Inl (Errorf ''not supported for module accounts'') else Inr (acc\<lparr>ai_PubKey := Some pk\<rparr>))"

record actx =
  cx_ctx :: ctx
  cx_ChainID :: string
  cx_TxBytes :: string
  cx_MinGasPrices :: "(denom \<times> int) list"
  cx_IsCheckTx :: bool
  cx_IsReCheckTx :: bool
  cx_MaxGas :: "int option"
  cx_Priority :: int

record SignerData =
  sd_Address :: string
  sd_ChainID :: string
  sd_AccountNumber :: u64
  sd_Sequence :: u64
  sd_PubKey :: "PubKey option"

record ('msg, 'x) HandlerOptions =
  ho_env :: env
  ho_msgSigners :: "'msg \<Rightarrow> addr list"
  ho_verify :: verifier
  ho_address :: "PubKey \<Rightarrow> addr"
  ho_GetSignBytes :: "SignMode \<Rightarrow> SignerData \<Rightarrow> 'msg Tx \<Rightarrow> err + string"
  ho_decode :: "string \<Rightarrow> err + string list"
  ho_marshal :: "string list \<Rightarrow> err + string"
  ho_ExtensionOptionChecker :: "(string \<Rightarrow> bool) option"
  ho_UseGrantedFees :: "(addr \<Rightarrow> addr \<Rightarrow> coins \<Rightarrow> 'msg list \<Rightarrow> ('x ante_state, err, unit) go) option"
  ho_SigGasConsumer :: "(auth_Params \<Rightarrow> PubKey option \<Rightarrow> SignatureData \<Rightarrow> (GasMeter, err, unit) go) option"
  ho_GetParams :: "'x ante_state \<Rightarrow> auth_Params"
  ho_simSigSize :: "PubKey \<Rightarrow> nat"
  ho_ceil :: "int \<Rightarrow> int option"
  ho_quoRaw :: "int \<Rightarrow> int \<Rightarrow> int option"

type_synonym ('x, 'a) ante_op = "(GasMeter \<times> 'x ante_state, err, 'a) go"

type_synonym ('msg, 'x) AnteHandler = "actx \<Rightarrow> 'msg Tx \<Rightarrow> bool \<Rightarrow> ('x, actx) ante_op"

definition an_gas :: "(GasMeter, err, 'a) go \<Rightarrow> ('x, 'a) ante_op" where
  "an_gas f = (\<lambda>(g, s). case f g of (r, g') \<Rightarrow> (r, (g', s)))"

definition an_state :: "('x ante_state, err, 'a) go \<Rightarrow> ('x, 'a) ante_op" where
  "an_state f = (\<lambda>(g, s). case f s of (r, s') \<Rightarrow> (r, (g, s')))"

definition an_bank :: "(base, err, 'a) go \<Rightarrow> ('x ante_state, err, 'a) go" where
  "an_bank f = (\<lambda>s. case f (an_base s) of (r, b) \<Rightarrow> (r, s\<lparr>an_base := b\<rparr>))"

definition an_outcome :: "(err, 'a) outcome \<Rightarrow> ('s, err, 'a) go" where
  "an_outcome r = (\<lambda>s. (r, s))"

definition GetParams :: "('msg, 'x) HandlerOptions \<Rightarrow> ('x, auth_Params) ante_op" where
  "GetParams H = gget (\<lambda>(g, s). ho_GetParams H s)"

definition GetSignerAcc :: "addr \<Rightarrow> ('x, AccountI) ante_op" where
  "GetSignerAcc a = gbind (gget (\<lambda>(g, s). ak_GetAccount a s)) (gopt_err ErrUnknownAddress)"

definition tx_signers :: "('msg, 'x) HandlerOptions \<Rightarrow> 'msg Tx \<Rightarrow> ('s, err, addr list) go" where
  "tx_signers H t = gopt_panic ''invalid fee payer'' (GetSigners (ho_env H) (ho_msgSigners H) t)"

definition nth_signer :: "addr list \<Rightarrow> nat \<Rightarrow> ('s, err, addr) go" where
  "nth_signer signers i = gopt_panic ''index out of range'' (if i < length signers then Some (signers ! i) else None)"

definition simSecp256k1Pubkey :: PubKey where
  "simSecp256k1Pubkey = Secp256k1 (map char_of [0x03, 0x5A, 0xD6, 0x81, 0x0A, 0x47, 0xF0, 0x73, 0x55, 0x3F, 0xF3, 0x0D, 0x2F, 0xCC, 0x7E, 0x0D, 0x3B,
     0x1C, 0x0B, 0x74, 0xB6, 0x1A, 0x1A, 0xAA, 0x25, 0x82, 0x34, 0x40, 0x37, 0x15, 0x1E, 0x14, 0x3A :: nat])"

subsection \<open>Checks that need no account\<close>

definition SetGasMeter :: "bool \<Rightarrow> actx \<Rightarrow> u64 \<Rightarrow> GasMeter" where
  "SetGasMeter simulate ctx gasLimit =
     (if simulate \<or> block_height (cx_ctx ctx) = 0 then NewInfiniteGasMeter else NewGasMeter gasLimit)"

definition SetUpContext_AnteHandle :: "actx \<Rightarrow> 'msg Tx \<Rightarrow> bool \<Rightarrow> ('msg, 'x) AnteHandler \<Rightarrow>
    (GasMeter \<times> 'x ante_state, unit, err option \<times> GasMeter option) go" where
  "SetUpContext_AnteHandle ctx t simulate next = (\<lambda>(g, s).
     let m = SetGasMeter simulate ctx (tx_GasLimit t) in
     if (case cx_MaxGas ctx of None \<Rightarrow> False | Some maxGas \<Rightarrow> 0 < maxGas \<and> tx_GasLimit t > word_of_int maxGas)
     then (Ret (Some (Errorf ''tx gas limit exceeds block max gas''), Some m), (g, s))
     else case next ctx t simulate (m, s) of
       (Ret _, (m', s')) \<Rightarrow> (Ret (None, Some m'), (g, s'))
     | (Err e, (m', s')) \<Rightarrow> (Ret (Some e, Some m'), (g, s'))
     | (Panic p, (m', s')) \<Rightarrow>
         if take 15 p = ''ErrorOutOfGas: '' then (Ret (Some (Errorf (''out of gas in location: '' @ drop 15 p)), Some m'), (g, s'))
         else (Panic p, (g, s')))"

definition checkExtOpts :: "'msg Tx \<Rightarrow> (string \<Rightarrow> bool) \<Rightarrow> bool" where
  "checkExtOpts t checker \<longleftrightarrow> list_all checker (tx_ExtensionOptions t)"

definition RejectExtensionOptions_AnteHandle :: "('msg, 'x) HandlerOptions \<Rightarrow> actx \<Rightarrow> 'msg Tx \<Rightarrow> bool \<Rightarrow> ('msg, 'x) AnteHandler \<Rightarrow> ('x, actx) ante_op" where
  "RejectExtensionOptions_AnteHandle H ctx t simulate next =
     (let checker = (case ho_ExtensionOptionChecker H of None \<Rightarrow> (\<lambda>_. False) | Some c \<Rightarrow> c) in
      gbind (gfail_if (\<not> checkExtOpts t checker) (Errorf ''unknown extension options'')) (\<lambda>_. next ctx t simulate))"

definition ValidateBasic_AnteHandle :: "('msg, 'x) HandlerOptions \<Rightarrow> actx \<Rightarrow> 'msg Tx \<Rightarrow> bool \<Rightarrow> ('msg, 'x) AnteHandler \<Rightarrow> ('x, actx) ante_op" where
  "ValidateBasic_AnteHandle H ctx t simulate next =
     (if cx_IsReCheckTx ctx then next ctx t simulate
      else gbind (tx_ValidateBasic (ho_env H) (ho_msgSigners H) t) (\<lambda>_. next ctx t simulate))"

definition TxTimeoutHeight_AnteHandle :: "actx \<Rightarrow> 'msg Tx \<Rightarrow> bool \<Rightarrow> ('msg, 'x) AnteHandler \<Rightarrow> ('x, actx) ante_op" where
  "TxTimeoutHeight_AnteHandle ctx t simulate next =
     (let timeoutHeight = tx_TimeoutHeight t in
      gbind (gfail_if (0 < timeoutHeight \<and> word_of_int (block_height (cx_ctx ctx)) > timeoutHeight) (Errorf ''tx timeout height'')) (\<lambda>_.
      next ctx t simulate))"

definition ValidateMemo_AnteHandle :: "('msg, 'x) HandlerOptions \<Rightarrow> actx \<Rightarrow> 'msg Tx \<Rightarrow> bool \<Rightarrow> ('msg, 'x) AnteHandler \<Rightarrow> ('x, actx) ante_op" where
  "ValidateMemo_AnteHandle H ctx t simulate next =
     (let memoLength = length (tx_Memo t) in
      gbind (if 0 < memoLength then
          gbind (GetParams H) (\<lambda>params. gfail_if (of_nat memoLength > MaxMemoCharacters params) (Errorf ''memo too large''))
        else gret ()) (\<lambda>_.
      next ctx t simulate))"

subsection \<open>Gas for the size\<close>

definition simulate_signature :: "('msg, 'x) HandlerOptions \<Rightarrow> auth_Params \<Rightarrow> SignatureV2 list \<Rightarrow> nat \<times> addr \<Rightarrow> ('x, unit) ante_op" where
  "simulate_signature H params sigs = (\<lambda>(i, signer).
     if i < length sigs \<and> \<not> isIncompleteSignature (sg_Data (sigs ! i)) then gret ()
     else gbind (gget (\<lambda>(g, s). ak_GetAccount signer s)) (\<lambda>acc.
       let pubkey = (case acc of None \<Rightarrow> simSecp256k1Pubkey | Some a \<Rightarrow> (case ai_PubKey a of None \<Rightarrow> simSecp256k1Pubkey | Some pk \<Rightarrow> pk));
           cost = of_nat (ho_simSigSize H pubkey + 6);
           cost = (case pubkey of LegacyAminoPubKey _ _ \<Rightarrow> cost * TxSigLimit params | _ \<Rightarrow> cost)
       in an_gas (charge (TxSizeCostPerByte params * cost) ''txSize'')))"

definition ConsumeTxSizeGas_AnteHandle :: "('msg, 'x) HandlerOptions \<Rightarrow> actx \<Rightarrow> 'msg Tx \<Rightarrow> bool \<Rightarrow> ('msg, 'x) AnteHandler \<Rightarrow> ('x, actx) ante_op" where
  "ConsumeTxSizeGas_AnteHandle H ctx t simulate next =
     gbind (GetParams H) (\<lambda>params.
     gbind (an_gas (charge (TxSizeCostPerByte params * of_nat (length (cx_TxBytes ctx))) ''txSize'')) (\<lambda>_.
     gbind (if simulate then
         gbind (GetSignaturesV2 (ho_decode H) t) (\<lambda>sigs.
         gbind (tx_signers H t) (\<lambda>signers.
         gfor (enumerate 0 signers) (simulate_signature H params sigs)))
       else gret ()) (\<lambda>_.
     next ctx t simulate)))"

subsection \<open>Fees\<close>

definition coins_IsZero :: "coins \<Rightarrow> bool" where
  "coins_IsZero cs \<longleftrightarrow> list_all (\<lambda>c. c_amount c = 0) cs"

fun IsAnyGTE_loop :: "coins \<Rightarrow> coins \<Rightarrow> bool option" where
  "IsAnyGTE_loop [] coinsB = Some False"
| "IsAnyGTE_loop (c # cs) coinsB = (case AmountOf coinsB (c_denom c) of
     None \<Rightarrow> None
   | Some amt \<Rightarrow> if c_amount c \<ge> amt \<and> amt \<noteq> 0 then Some True else IsAnyGTE_loop cs coinsB)"

definition IsAnyGTE :: "coins \<Rightarrow> coins \<Rightarrow> bool option" where
  "IsAnyGTE cs coinsB = (if coinsB = [] then Some False else IsAnyGTE_loop cs coinsB)"

text \<open>\<open>None\<close> is a panic of the arithmetic\<close>

fun required_fees :: "('msg, 'x) HandlerOptions \<Rightarrow> int \<Rightarrow> (denom \<times> int) list \<Rightarrow> coins option" where
  "required_fees H glDec [] = Some []"
| "required_fees H glDec ((d, price) # gps) =
     Option.bind (dec_mul (ho_env H) price glDec) (\<lambda>fee.
     Option.bind (ho_ceil H fee) (\<lambda>amount.
     Option.bind (NewCoin d amount) (\<lambda>c.
     map_option ((#) c) (required_fees H glDec gps))))"

fun getTxPriority_loop :: "('msg, 'x) HandlerOptions \<Rightarrow> int \<Rightarrow> coins \<Rightarrow> int \<Rightarrow> int option" where
  "getTxPriority_loop H gas [] priority = Some priority"
| "getTxPriority_loop H gas (c # cs) priority = (case ho_quoRaw H (c_amount c) gas of
     None \<Rightarrow> None
   | Some gasPrice \<Rightarrow>
       let p = (if - (2 ^ 63) \<le> gasPrice \<and> gasPrice < 2 ^ 63 then gasPrice else 2 ^ 63 - 1)
       in getTxPriority_loop H gas cs (if priority = 0 \<or> p < priority then p else priority))"

definition getTxPriority :: "('msg, 'x) HandlerOptions \<Rightarrow> coins \<Rightarrow> int \<Rightarrow> int option" where
  "getTxPriority H fee gas = getTxPriority_loop H gas fee 0"

definition checkTxFeeWithValidatorMinGasPrices :: "('msg, 'x) HandlerOptions \<Rightarrow> actx \<Rightarrow> 'msg Tx \<Rightarrow> ('s, err, coins \<times> int) go" where
  "checkTxFeeWithValidatorMinGasPrices H ctx t =
     (let feeCoins = tx_Amount t; gas = tx_GasLimit t; minGasPrices = cx_MinGasPrices ctx in
      gbind (if cx_IsCheckTx ctx \<and> \<not> list_all (\<lambda>(_, p). p = 0) minGasPrices then
          gbind (gopt_panic ''decimal'' (required_fees H (dec_of_int (ho_env H) (sint gas)) minGasPrices)) (\<lambda>requiredFees.
          gbind (gopt_panic ''denom'' (IsAnyGTE feeCoins requiredFees)) (\<lambda>ok. gfail_if (\<not> ok) (Errorf ''insufficient fees'')))
        else gret ()) (\<lambda>_.
      gbind (gopt_panic ''division by zero'' (getTxPriority H feeCoins (sint gas))) (\<lambda>priority.
      gret (feeCoins, priority))))"

definition DeductFees :: "('msg, 'x) HandlerOptions \<Rightarrow> actx \<Rightarrow> addr \<Rightarrow> coins \<Rightarrow> ('x, unit) ante_op" where
  "DeductFees H ctx a fees =
     gbind (gfail_if (\<not> coins_IsValid fees) (Errorf ''invalid fee amount'')) (\<lambda>_.
     gmap_err (\<lambda>_. ErrInsufficientFunds)
       (an_state (an_bank (SendCoinsFromAccountToModule (ho_env H) (cx_ctx ctx) a ''fee_collector'' fees))))"

definition checkDeductFee :: "('msg, 'x) HandlerOptions \<Rightarrow> actx \<Rightarrow> 'msg Tx \<Rightarrow> coins \<Rightarrow> ('x, unit) ante_op" where
  "checkDeductFee H ctx t fee =
     gbind (gfail_if (GetModuleAddressAndPermissions (ho_env H) ''fee_collector'' = None) (Errorf ''fee collector module account has not been set'')) (\<lambda>_.
     gbind (gopt_panic ''fee payer'' (FeePayer (ho_env H) (ho_msgSigners H) t)) (\<lambda>feePayer.
     gbind (gopt_panic ''fee granter'' (FeeGranter (ho_env H) t)) (\<lambda>feeGranter.
     gbind (case feeGranter of
         None \<Rightarrow> gret feePayer
       | Some granter \<Rightarrow>
           (case ho_UseGrantedFees H of
              None \<Rightarrow> gerr ErrInvalidRequest
            | Some useGrantedFees \<Rightarrow>
                if granter \<noteq> feePayer then gbind (an_state (useGrantedFees granter feePayer fee (tx_Messages t))) (\<lambda>_. gret granter)
                else gret granter)) (\<lambda>deductFeesFrom.
     gbind (gget (\<lambda>(g, s). ak_GetAccount deductFeesFrom s)) (\<lambda>acc.
     gbind (gfail_if (acc = None) ErrUnknownAddress) (\<lambda>_.
     if coins_IsZero fee then gret () else DeductFees H ctx deductFeesFrom fee))))))"

definition DeductFee_AnteHandle :: "('msg, 'x) HandlerOptions \<Rightarrow> actx \<Rightarrow> 'msg Tx \<Rightarrow> bool \<Rightarrow> ('msg, 'x) AnteHandler \<Rightarrow> ('x, actx) ante_op" where
  "DeductFee_AnteHandle H ctx t simulate next =
     gbind (gfail_if (\<not> simulate \<and> block_height (cx_ctx ctx) > 0 \<and> tx_GasLimit t = 0) (Errorf ''must provide positive gas'')) (\<lambda>_.
     gbind (if simulate then gret (tx_Amount t, 0) else checkTxFeeWithValidatorMinGasPrices H ctx t) (\<lambda>(fee, priority).
     gbind (checkDeductFee H ctx t fee) (\<lambda>_.
     next (ctx\<lparr>cx_Priority := priority\<rparr>) t simulate)))"

subsection \<open>Signatures and sequences\<close>

definition set_pub_key :: "('msg, 'x) HandlerOptions \<Rightarrow> bool \<Rightarrow> addr list \<Rightarrow> nat \<times> PubKey option \<Rightarrow> ('x, unit) ante_op" where
  "set_pub_key H simulate signers = (\<lambda>(i, pk).
     if pk = None \<and> \<not> simulate then gret ()
     else let pk = (case pk of None \<Rightarrow> simSecp256k1Pubkey | Some k \<Rightarrow> k) in
       gbind (nth_signer signers i) (\<lambda>signer.
       gbind (gfail_if (\<not> simulate \<and> ho_address H pk \<noteq> signer) (Errorf ''pubKey does not match signer address'')) (\<lambda>_.
       gbind (GetSignerAcc signer) (\<lambda>acc.
       if ai_PubKey acc \<noteq> None then gret ()
       else case acc_SetPubKey pk acc of
         Inl e \<Rightarrow> gerr e
       | Inr acc \<Rightarrow> gmod (\<lambda>(g, s). (g, ak_SetAccount acc s))))))"

text \<open>the loop over the signatures makes events, and fails where a signature has no bytes\<close>

definition signature_event :: "('msg, 'x) HandlerOptions \<Rightarrow> addr list \<Rightarrow> nat \<times> SignatureV2 \<Rightarrow> ('x, unit) ante_op" where
  "signature_event H signers = (\<lambda>(i, sig).
     gbind (nth_signer signers i) (\<lambda>_.
     case signatureDataToBz (ho_marshal H) (sg_Data sig) of Inl e \<Rightarrow> gerr e | Inr _ \<Rightarrow> gret ()))"

definition SetPubKey_AnteHandle :: "('msg, 'x) HandlerOptions \<Rightarrow> actx \<Rightarrow> 'msg Tx \<Rightarrow> bool \<Rightarrow> ('msg, 'x) AnteHandler \<Rightarrow> ('x, actx) ante_op" where
  "SetPubKey_AnteHandle H ctx t simulate next =
     gbind (tx_signers H t) (\<lambda>signers.
     gbind (gfor (enumerate 0 (GetPubKeys t)) (set_pub_key H simulate signers)) (\<lambda>_.
     gbind (GetSignaturesV2 (ho_decode H) t) (\<lambda>sigs.
     gbind (gfor (enumerate 0 sigs) (signature_event H signers)) (\<lambda>_.
     next ctx t simulate))))"

fun sig_count_loop :: "auth_Params \<Rightarrow> int \<Rightarrow> PubKey option list \<Rightarrow> bool" where
  "sig_count_loop params sigCount [] = True"
| "sig_count_loop params sigCount (pk # pks) =
     (let sigCount = sigCount + (case pk of None \<Rightarrow> 1 | Some k \<Rightarrow> CountSubKeys k) in
      if word_of_int sigCount > TxSigLimit params then False else sig_count_loop params sigCount pks)"

definition ValidateSigCount_AnteHandle :: "('msg, 'x) HandlerOptions \<Rightarrow> actx \<Rightarrow> 'msg Tx \<Rightarrow> bool \<Rightarrow> ('msg, 'x) AnteHandler \<Rightarrow> ('x, actx) ante_op" where
  "ValidateSigCount_AnteHandle H ctx t simulate next =
     gbind (GetParams H) (\<lambda>params.
     gbind (gfail_if (\<not> sig_count_loop params 0 (GetPubKeys t)) (Errorf ''too many signatures'')) (\<lambda>_.
     next ctx t simulate))"

definition consume_sig_gas :: "('msg, 'x) HandlerOptions \<Rightarrow> bool \<Rightarrow> auth_Params \<Rightarrow> addr list \<Rightarrow> nat \<times> SignatureV2 \<Rightarrow> ('x, unit) ante_op" where
  "consume_sig_gas H simulate params signers = (\<lambda>(i, sig).
     gbind (nth_signer signers i) (\<lambda>signer.
     gbind (GetSignerAcc signer) (\<lambda>signerAcc.
     let pubKey = (if simulate \<and> ai_PubKey signerAcc = None then Some simSecp256k1Pubkey else ai_PubKey signerAcc);
         sigGasConsumer = (case ho_SigGasConsumer H of None \<Rightarrow> DefaultSigVerificationGasConsumer | Some f \<Rightarrow> f)
     in an_gas (sigGasConsumer params pubKey (sg_Data sig)))))"

definition SigGasConsume_AnteHandle :: "('msg, 'x) HandlerOptions \<Rightarrow> actx \<Rightarrow> 'msg Tx \<Rightarrow> bool \<Rightarrow> ('msg, 'x) AnteHandler \<Rightarrow> ('x, actx) ante_op" where
  "SigGasConsume_AnteHandle H ctx t simulate next =
     gbind (GetParams H) (\<lambda>params.
     gbind (GetSignaturesV2 (ho_decode H) t) (\<lambda>sigs.
     gbind (tx_signers H t) (\<lambda>signerAddrs.
     gbind (gfor (enumerate 0 sigs) (consume_sig_gas H simulate params signerAddrs)) (\<lambda>_.
     next ctx t simulate))))"

definition signer_data :: "('msg, 'x) HandlerOptions \<Rightarrow> actx \<Rightarrow> AccountI \<Rightarrow> SignerData" where
  "signer_data H ctx acc = \<lparr>sd_Address = acc_String (ho_env H) (ai_Address acc), sd_ChainID = cx_ChainID ctx,
     sd_AccountNumber = (if block_height (cx_ctx ctx) = 0 then 0 else ai_AccountNumber acc),
     sd_Sequence = ai_Sequence acc, sd_PubKey = ai_PubKey acc\<rparr>"

definition verify_signer :: "('msg, 'x) HandlerOptions \<Rightarrow> actx \<Rightarrow> 'msg Tx \<Rightarrow> bool \<Rightarrow> addr list \<Rightarrow> nat \<times> SignatureV2 \<Rightarrow> ('x, unit) ante_op" where
  "verify_signer H ctx t simulate signerAddrs = (\<lambda>(i, sig).
     gbind (nth_signer signerAddrs i) (\<lambda>signer.
     gbind (GetSignerAcc signer) (\<lambda>acc.
     gbind (gfail_if (\<not> simulate \<and> ai_PubKey acc = None) (Errorf ''pubkey on account is not set'')) (\<lambda>_.
     gbind (gfail_if (sg_Sequence sig \<noteq> ai_Sequence acc) (Errorf ''account sequence mismatch'')) (\<lambda>_.
     if \<not> simulate \<and> \<not> cx_IsReCheckTx ctx then
       (case ai_PubKey acc of
          None \<Rightarrow> gpanic ''nil pointer dereference''
        | Some pubKey \<Rightarrow>
            gmap_err (\<lambda>_. if OnlyLegacyAminoSigners (sg_Data sig)
                then Errorf ''signature verification failed; please verify account number, sequence and chain-id''
                else Errorf ''signature verification failed; please verify account number and chain-id'')
              (an_outcome (VerifySignature (ho_verify H) (\<lambda>mode. ho_GetSignBytes H mode (signer_data H ctx acc) t) pubKey (sg_Data sig))))
     else gret ())))))"

definition SigVerification_AnteHandle :: "('msg, 'x) HandlerOptions \<Rightarrow> actx \<Rightarrow> 'msg Tx \<Rightarrow> bool \<Rightarrow> ('msg, 'x) AnteHandler \<Rightarrow> ('x, actx) ante_op" where
  "SigVerification_AnteHandle H ctx t simulate next =
     gbind (GetSignaturesV2 (ho_decode H) t) (\<lambda>sigs.
     gbind (tx_signers H t) (\<lambda>signerAddrs.
     gbind (gfail_if (length sigs \<noteq> length signerAddrs) ErrUnauthorized) (\<lambda>_.
     gbind (gfor (enumerate 0 sigs) (verify_signer H ctx t simulate signerAddrs)) (\<lambda>_.
     next ctx t simulate))))"

definition increment_sequence :: "addr \<Rightarrow> ('x, unit) ante_op" where
  "increment_sequence a =
     gbind (gget (\<lambda>(g, s). ak_GetAccount a s)) (\<lambda>acc. case acc of
       None \<Rightarrow> gpanic ''nil pointer dereference''
     | Some acc \<Rightarrow> gmod (\<lambda>(g, s). (g, ak_SetAccount (acc\<lparr>ai_Sequence := ai_Sequence acc + 1\<rparr>) s)))"

definition IncrementSequence_AnteHandle :: "('msg, 'x) HandlerOptions \<Rightarrow> actx \<Rightarrow> 'msg Tx \<Rightarrow> bool \<Rightarrow> ('msg, 'x) AnteHandler \<Rightarrow> ('x, actx) ante_op" where
  "IncrementSequence_AnteHandle H ctx t simulate next =
     gbind (tx_signers H t) (\<lambda>signers.
     gbind (gfor signers increment_sequence) (\<lambda>_.
     next ctx t simulate))"

subsection \<open>The chain\<close>

text \<open>\<open>ChainAnteDecorators\<close>, whose chain ends with the \<open>Terminator\<close>\<close>

fun ChainAnteDecorators :: "(actx \<Rightarrow> 'msg Tx \<Rightarrow> bool \<Rightarrow> ('msg, 'x) AnteHandler \<Rightarrow> ('x, actx) ante_op) list \<Rightarrow> ('msg, 'x) AnteHandler" where
  "ChainAnteDecorators [] = (\<lambda>ctx t simulate. gret ctx)"
| "ChainAnteDecorators (d # ds) = (\<lambda>ctx t simulate. d ctx t simulate (ChainAnteDecorators ds))"

definition inner_chain :: "('msg, 'x) HandlerOptions \<Rightarrow> ('msg, 'x) AnteHandler" where
  "inner_chain H = ChainAnteDecorators
     [RejectExtensionOptions_AnteHandle H, ValidateBasic_AnteHandle H, TxTimeoutHeight_AnteHandle, ValidateMemo_AnteHandle H,
      ConsumeTxSizeGas_AnteHandle H, DeductFee_AnteHandle H, SetPubKey_AnteHandle H, ValidateSigCount_AnteHandle H,
      SigGasConsume_AnteHandle H, SigVerification_AnteHandle H, IncrementSequence_AnteHandle H]"

definition NewAnteHandler :: "('msg, 'x) HandlerOptions \<Rightarrow> actx \<Rightarrow> 'msg Tx \<Rightarrow> bool \<Rightarrow>
    (GasMeter \<times> 'x ante_state, unit, err option \<times> GasMeter option) go" where
  "NewAnteHandler H ctx t simulate = SetUpContext_AnteHandle ctx t simulate (inner_chain H)"

subsection \<open>Keys and sequences along the chain\<close>

definition seq_of :: "'x ante_state \<Rightarrow> addr \<Rightarrow> u64" where
  "seq_of s a = si_Sequence (signer_of s a)"

definition keys_match :: "('msg, 'x) HandlerOptions \<Rightarrow> 'x ante_state \<Rightarrow> bool" where
  "keys_match H s \<longleftrightarrow> (\<forall>a pk. si_PubKey (signer_of s a) = Some pk \<longrightarrow> ho_address H pk = a)"

text \<open>what the chain relies on in the fee-grant keeper\<close>

definition grants_keep :: "('msg, 'x) HandlerOptions \<Rightarrow> bool" where
  "grants_keep H \<longleftrightarrow> (\<forall>f granter payer fee msgs s. ho_UseGrantedFees H = Some f \<longrightarrow>
     an_signers (snd (f granter payer fee msgs s)) = an_signers s)"

text \<open>the sequences are those of \<open>s\<close>, and the keys belong to their addresses\<close>

definition auth_frame :: "('msg, 'x) HandlerOptions \<Rightarrow> 'x ante_state \<Rightarrow> GasMeter \<times> 'x ante_state \<Rightarrow> bool" where
  "auth_frame H s gs \<longleftrightarrow> (\<forall>a. seq_of (snd gs) a = seq_of s a) \<and> keys_match H (snd gs)"

lemma signer_of_simps [simp]:
  "signer_of (s\<lparr>an_base := b\<rparr>) a = signer_of s a"
  "signer_of (ak_SetAccount acc s) a =
     (if a = ai_Address acc then \<lparr>si_PubKey = ai_PubKey acc, si_Sequence = ai_Sequence acc\<rparr> else signer_of s a)"
  by (simp_all add: signer_of_def ak_SetAccount_def kv_simps)

lemma ak_GetAccount_Some:
  "ak_GetAccount a s = Some acc \<Longrightarrow> ai_Address acc = a \<and> ai_PubKey acc = si_PubKey (signer_of s a) \<and> ai_Sequence acc = seq_of s a"
  by (auto simp: ak_GetAccount_def seq_of_def)

lemma auth_frame_cong: "an_signers (snd gs') = an_signers (snd gs) \<Longrightarrow> auth_frame H s gs \<Longrightarrow> auth_frame H s gs'"
  by (simp add: auth_frame_def keys_match_def seq_of_def signer_of_def)

lemma gkeeps_frame:
  assumes "\<And>gs. an_signers (snd (snd (m gs))) = an_signers (snd gs)"
  shows "gkeeps (auth_frame H s) m"
  using assms by (auto simp: gkeeps_def intro: auth_frame_cong)

lemma keeps_lifts [intro]:
  "gkeeps (auth_frame H s) (an_gas f)" "gkeeps (auth_frame H s) (an_state (an_bank h))"
  by (rule gkeeps_frame; force simp: an_gas_def an_state_def an_bank_def split: prod.split)+

lemma keeps_reads [intro]:
  "gkeeps P (an_outcome r)" "gkeeps P (GetParams H)" "gkeeps P (GetSignerAcc a)" "gkeeps P (tx_signers H t)"
  "gkeeps P (nth_signer signers i)" "gkeeps P (GetSignaturesV2 decode t)"
  by (auto simp: an_outcome_def GetParams_def GetSignerAcc_def tx_signers_def nth_signer_def GetSignaturesV2_def gkeeps_def [of P "\<lambda>s. (_, s)"])

lemma keeps_grants [intro]:
  "grants_keep H \<Longrightarrow> ho_UseGrantedFees H = Some f \<Longrightarrow> gkeeps (auth_frame H s) (an_state (f granter payer fee msgs))"
  by (rule gkeeps_frame) (simp add: an_state_def grants_keep_def case_prod_beta)

lemma keeps_checkDeductFee [intro]: "grants_keep H \<Longrightarrow> gkeeps (auth_frame H s) (checkDeductFee H ctx t fee)"
  unfolding checkDeductFee_def DeductFees_def
  by (intro gkeeps_bind gkeeps_pure) (auto split: option.split)

lemma keeps_checkTxFee [intro]: "gkeeps P (checkTxFeeWithValidatorMinGasPrices H ctx t)"
  by (auto simp: checkTxFeeWithValidatorMinGasPrices_def Let_def)

lemma keeps_signature_event [intro]: "gkeeps P (signature_event H signers x)"
  by (auto simp: signature_event_def split: prod.split sum.split)

lemma keeps_set_pub_key [intro]: "gkeeps (auth_frame H s) (set_pub_key H False signers x)"
proof -
  obtain i pk where x: "x = (i, pk)" by fastforce
  show ?thesis
  proof (cases pk)
    case None
    then show ?thesis by (simp add: x set_pub_key_def)
  next
    case (Some k)
    have "auth_frame H s gs'"
      if "auth_frame H s gs" "ak_GetAccount a (snd gs) = Some acc" "ho_address H k = a" "ai_PubKey acc = None"
        "gs' = (fst gs, ak_SetAccount (acc\<lparr>ai_PubKey := Some k\<rparr>) (snd gs))" for gs gs' a acc
      using that ak_GetAccount_Some [OF that(2)] by (auto simp: auth_frame_def keys_match_def seq_of_def)
    then show ?thesis
      unfolding gkeeps_def
      by (auto simp: x Some set_pub_key_def acc_SetPubKey_def Let_def nth_signer_def GetSignerAcc_def gbind_def gopt_panic_def gopt_err_def gfail_if_def go_simps
          split: option.split if_splits) 
  qed
qed

subsection \<open>Passing a decorator\<close>

text \<open>a run of \<open>m\<close> that returns from a state in \<open>F\<close> ends with a run of one of \<open>K\<close> from a state in \<open>F\<close>\<close>

definition passes :: "('s \<Rightarrow> bool) \<Rightarrow> ('s, 'e, 'a) go \<Rightarrow> ('s, 'e, 'a) go set \<Rightarrow> bool" where
  "passes F m K \<longleftrightarrow> (\<forall>s a t. F s \<and> m s = (Ret a, t) \<longrightarrow> (\<exists>s' k. F s' \<and> k \<in> K \<and> k s' = (Ret a, t)))"

lemma passesD: "passes F m K \<Longrightarrow> m s = (Ret a, t) \<Longrightarrow> F s \<Longrightarrow> \<exists>s' k. F s' \<and> k \<in> K \<and> k s' = (Ret a, t)"
  by (auto simp: passes_def)

lemma passes_refl: "k \<in> K \<Longrightarrow> passes F k K"
  by (auto simp: passes_def)

lemma passes_bind:
  assumes "gkeeps F m" "\<And>a. passes F (f a) K"
  shows "passes F (gbind m f) K"
  unfolding passes_def
proof (intro allI impI)
  fix s b t
  assume "F s \<and> gbind m f s = (Ret b, t)"
  then obtain a s' where "m s = (Ret a, s')" "f a s' = (Ret b, t)" "F s" by (auto simp: go_iffs)
  moreover from this have "F s'" using gkeepsD [OF assms(1)] by fastforce
  ultimately show "\<exists>s' k. F s' \<and> k \<in> K \<and> k s' = (Ret b, t)" using assms(2) by (auto simp: passes_def)
qed

lemma pass_TxTimeoutHeight: "passes F (next ctx t sim) K \<Longrightarrow> passes F (TxTimeoutHeight_AnteHandle ctx t sim next) K"
  unfolding TxTimeoutHeight_AnteHandle_def Let_def by (intro passes_bind gkeeps_pure)

lemma pass_ValidateMemo: "passes F (next ctx t sim) K \<Longrightarrow> passes F (ValidateMemo_AnteHandle H ctx t sim next) K"
  unfolding ValidateMemo_AnteHandle_def Let_def by (intro passes_bind) auto

lemma pass_DeductFee:
  assumes "grants_keep H" "\<And>p. passes (auth_frame H s) (next (ctx\<lparr>cx_Priority := p\<rparr>) t sim) K"
  shows "passes (auth_frame H s) (DeductFee_AnteHandle H ctx t sim next) K"
proof -
  have "passes (auth_frame H s) (case x of (fee, priority) \<Rightarrow> gbind (checkDeductFee H ctx t fee) (\<lambda>_. next (ctx\<lparr>cx_Priority := priority\<rparr>) t sim)) K" for x
    using assms by (cases x) (auto intro!: passes_bind)
  then show ?thesis unfolding DeductFee_AnteHandle_def by (intro passes_bind) auto
qed

lemma pass_ValidateSigCount: "passes F (next ctx t sim) K \<Longrightarrow> passes F (ValidateSigCount_AnteHandle H ctx t sim next) K"
  unfolding ValidateSigCount_AnteHandle_def by (intro passes_bind) auto

text \<open>a property of the stores, which no charge of gas can change\<close>

locale ante_frame =
  fixes F :: "GasMeter \<times> 'x ante_state \<Rightarrow> bool"
  assumes gas: "F (g, s) \<Longrightarrow> F (g', s)"
begin

lemma keeps_gas: "gkeeps F (an_gas f)"
  by (auto simp: gkeeps_def an_gas_def intro: gas split: prod.split)

lemma keeps_simulate_signature: "gkeeps F (simulate_signature H params sigs x)"
  by (auto simp: simulate_signature_def Let_def intro!: keeps_gas split: prod.split)

lemma keeps_consume_sig_gas: "gkeeps F (consume_sig_gas H simulate params signers x)"
  by (auto simp: consume_sig_gas_def Let_def intro!: keeps_gas split: prod.split)

lemma pass_ConsumeTxSizeGas: "passes F (next ctx t sim) K \<Longrightarrow> passes F (ConsumeTxSizeGas_AnteHandle H ctx t sim next) K"
  unfolding ConsumeTxSizeGas_AnteHandle_def by (intro passes_bind keeps_gas) (auto intro!: keeps_simulate_signature)

lemma pass_SigGasConsume: "passes F (next ctx t sim) K \<Longrightarrow> passes F (SigGasConsume_AnteHandle H ctx t sim next) K"
  unfolding SigGasConsume_AnteHandle_def by (intro passes_bind gkeeps_for keeps_consume_sig_gas) auto

lemma pass_SetPubKey:
  assumes "\<And>signers x. gkeeps F (set_pub_key H sim signers x)" "passes F (next ctx t sim) K"
  shows "passes F (SetPubKey_AnteHandle H ctx t sim next) K"
  unfolding SetPubKey_AnteHandle_def by (intro passes_bind gkeeps_for assms keeps_signature_event) auto

end

interpretation auth: ante_frame "auth_frame H s" for H s
  by unfold_locales (simp add: auth_frame_def)

interpretation funds: ante_frame "\<lambda>gs. an_base (snd gs) = b" for b
  by unfold_locales simp

lemma chain_passes:
  assumes "grants_keep H"
  shows "passes (auth_frame H s) (ChainAnteDecorators
     [TxTimeoutHeight_AnteHandle, ValidateMemo_AnteHandle H, ConsumeTxSizeGas_AnteHandle H, DeductFee_AnteHandle H, SetPubKey_AnteHandle H,
      ValidateSigCount_AnteHandle H, SigGasConsume_AnteHandle H, SigVerification_AnteHandle H, IncrementSequence_AnteHandle H] ctx t False)
   {SigVerification_AnteHandle H (ctx\<lparr>cx_Priority := p\<rparr>) t False (ChainAnteDecorators [IncrementSequence_AnteHandle H]) | p. True}"
  unfolding ChainAnteDecorators.simps(2)
  by (intro pass_TxTimeoutHeight pass_ValidateMemo auth.pass_ConsumeTxSizeGas pass_DeductFee auth.pass_SetPubKey keeps_set_pub_key
      pass_ValidateSigCount auth.pass_SigGasConsume assms passes_refl) blast

subsection \<open>What the last decorators see\<close>

lemma gfor_reads:
  assumes "\<And>x s'. snd (f x s') = s'" "gfor xs f s = (Ret (), t)"
  shows "t = s \<and> (\<forall>x \<in> set xs. f x s = (Ret (), s))"
  using assms(2)
proof (induction xs)
  case Nil
  then show ?case by (simp add: go_simps)
next
  case (Cons x xs)
  then obtain s' where x: "f x s = (Ret (), s')" "gfor xs f s' = (Ret (), t)" by (auto simp: go_iffs)
  then have "s' = s" using assms(1) [of x s] by simp
  then show ?case using x Cons.IH by simp
qed

text \<open>the signature of signer \<open>a\<close>, verified for the account as it was in \<open>s\<close>\<close>

definition authenticated :: "('msg, 'x) HandlerOptions \<Rightarrow> actx \<Rightarrow> 'msg Tx \<Rightarrow> 'x ante_state \<Rightarrow> addr \<Rightarrow> SignatureV2 \<Rightarrow> bool" where
  "authenticated H ctx t s a sig \<longleftrightarrow> sg_Sequence sig = seq_of s a \<and>
     (\<exists>acc pk. ai_Address acc = a \<and> ai_Sequence acc = seq_of s a \<and> ai_PubKey acc = Some pk \<and> ho_address H pk = a \<and>
        has_signed (ho_verify H) (\<lambda>mode. ho_GetSignBytes H mode (signer_data H ctx acc) t) pk (sg_Data sig))"

lemma verify_signer_state: "snd (verify_signer H ctx t simulate signers x gs) = gs"
  by (auto simp: verify_signer_def nth_signer_def GetSignerAcc_def an_outcome_def gbind_def gopt_panic_def gopt_err_def gfail_if_def gmap_err_def go_simps
      split: prod.splits option.splits outcome.splits)

lemma verify_signer_authenticated:
  assumes "verify_signer H ctx t False signers (i, sig) gs = (Ret (), gs')" "\<not> cx_IsReCheckTx ctx" "auth_frame H s gs"
  shows "i < length signers \<and> authenticated H ctx t s (signers ! i) sig"
proof -
  obtain acc pk where i: "i < length signers" and acc: "ak_GetAccount (signers ! i) (snd gs) = Some acc" "ai_PubKey acc = Some pk"
      "sg_Sequence sig = ai_Sequence acc"
      "VerifySignature (ho_verify H) (\<lambda>mode. ho_GetSignBytes H mode (signer_data H ctx acc) t) pk (sg_Data sig) = Ret ()"
    using assms(1,2) by (auto simp: verify_signer_def nth_signer_def GetSignerAcc_def an_outcome_def go_iffs case_prod_beta split: if_splits option.splits)
  have "ho_address H pk = signers ! i" "ai_Sequence acc = seq_of s (signers ! i)" "ai_Address acc = signers ! i"
    using ak_GetAccount_Some [OF acc(1)] acc(2) assms(3) by (auto simp: auth_frame_def keys_match_def)
  then show ?thesis using i acc VerifySignature_signed [OF acc(4)] unfolding authenticated_def by metis
qed

lemma increment_sequence_Ret:
  "increment_sequence a gs = (Ret (), gs') \<Longrightarrow>
    seq_of (snd gs') b = seq_of (snd gs) b + (if b = a then 1 else 0) \<and> si_PubKey (signer_of (snd gs') b) = si_PubKey (signer_of (snd gs) b)"
  by (auto simp: increment_sequence_def go_iffs seq_of_def case_prod_beta dest!: ak_GetAccount_Some split: option.splits)

lemma increment_sequences_Ret:
  "gfor signers increment_sequence gs = (Ret (), gs') \<Longrightarrow>
    seq_of (snd gs') b = seq_of (snd gs) b + of_nat (count_list signers b) \<and> si_PubKey (signer_of (snd gs') b) = si_PubKey (signer_of (snd gs) b)"
proof (induction signers arbitrary: gs)
  case Nil
  then show ?case by (simp add: go_simps)
next
  case (Cons a signers)
  then obtain gs1 where "increment_sequence a gs = (Ret (), gs1)" "gfor signers increment_sequence gs1 = (Ret (), gs')" by (auto simp: go_iffs)
  then show ?case using Cons.IH [of gs1] increment_sequence_Ret [of a gs gs1 b] by auto
qed

lemma signer_data_priority [simp]: "signer_data H (ctx\<lparr>cx_Priority := p\<rparr>) acc = signer_data H ctx acc"
  by (simp add: signer_data_def)

lemma authenticated_priority [simp]: "authenticated H (ctx\<lparr>cx_Priority := p\<rparr>) t s a sig = authenticated H ctx t s a sig"
  by (simp add: authenticated_def)

lemma end_of_chain:
  assumes "SigVerification_AnteHandle H ctx t False (ChainAnteDecorators [IncrementSequence_AnteHandle H]) gs = (Ret c, gs')"
    "\<not> cx_IsReCheckTx ctx" "auth_frame H s gs"
  shows "\<exists>signers sigs. GetSigners (ho_env H) (ho_msgSigners H) t = Some signers \<and>
    signatures_loop (ho_decode H) (tx_Signatures t) 0 (tx_SignerInfos t) = Ret sigs \<and> length sigs = length signers \<and>
    (\<forall>i < length signers. authenticated H ctx t s (signers ! i) (sigs ! i)) \<and> keys_match H (snd gs') \<and>
    (\<forall>a. seq_of (snd gs') a = seq_of s a + of_nat (count_list signers a))"
proof -
  obtain sigs signers gs1 where 1: "signatures_loop (ho_decode H) (tx_Signatures t) 0 (tx_SignerInfos t) = Ret sigs"
      "GetSigners (ho_env H) (ho_msgSigners H) t = Some signers" "length sigs = length signers"
      "gfor (enumerate 0 sigs) (verify_signer H ctx t False signers) gs = (Ret (), gs1)"
      "gfor signers increment_sequence gs1 = (Ret (), gs')"
    using assms(1) by (auto simp: SigVerification_AnteHandle_def IncrementSequence_AnteHandle_def GetSignaturesV2_def tx_signers_def go_iffs go_simps)
  have 2: "gs1 = gs" "\<And>x. x \<in> set (enumerate 0 sigs) \<Longrightarrow> verify_signer H ctx t False signers x gs = (Ret (), gs)"
    using gfor_reads [OF verify_signer_state 1(4)] by auto
  have "authenticated H ctx t s (signers ! i) (sigs ! i)" if "i < length signers" for i
  proof -
    have "(i, sigs ! i) \<in> set (enumerate 0 sigs)" using that 1(3) by (auto simp: in_set_enumerate_eq)
    from verify_signer_authenticated [OF 2(2) [OF this] assms(2,3)] show ?thesis by simp
  qed
  moreover have "keys_match H (snd gs')" "seq_of (snd gs') a = seq_of s a + of_nat (count_list signers a)" for a
    using increment_sequences_Ret [OF 1(5)] assms(3) 2(1) by (auto simp: auth_frame_def keys_match_def)
  ultimately show ?thesis using 1 by blast
qed

lemma inner_chain_Ret:
  assumes "inner_chain H ctx t False (g, s) = (Ret c, gs')" "\<not> cx_IsReCheckTx ctx" "grants_keep H" "keys_match H s"
  shows "\<exists>signers sigs. GetSigners (ho_env H) (ho_msgSigners H) t = Some signers \<and> signers \<noteq> [] \<and>
    signatures_loop (ho_decode H) (tx_Signatures t) 0 (tx_SignerInfos t) = Ret sigs \<and> length sigs = length signers \<and>
    (\<forall>i < length signers. authenticated H ctx t s (signers ! i) (sigs ! i)) \<and> keys_match H (snd gs') \<and>
    (\<forall>a. seq_of (snd gs') a = seq_of s a + of_nat (count_list signers a))"
proof -
  have ne: "GetSigners (ho_env H) (ho_msgSigners H) t \<noteq> Some []"
    and run: "ChainAnteDecorators [TxTimeoutHeight_AnteHandle, ValidateMemo_AnteHandle H, ConsumeTxSizeGas_AnteHandle H, DeductFee_AnteHandle H,
      SetPubKey_AnteHandle H, ValidateSigCount_AnteHandle H, SigGasConsume_AnteHandle H, SigVerification_AnteHandle H, IncrementSequence_AnteHandle H]
      ctx t False (g, s) = (Ret c, gs')"
    using assms(1,2) by (auto simp: inner_chain_def RejectExtensionOptions_AnteHandle_def ValidateBasic_AnteHandle_def tx_ValidateBasic_def Let_def go_iffs)
  have "auth_frame H s (g, s)" using assms(4) by (simp add: auth_frame_def)
  then obtain gs p where 1: "auth_frame H s gs"
      "SigVerification_AnteHandle H (ctx\<lparr>cx_Priority := p\<rparr>) t False (ChainAnteDecorators [IncrementSequence_AnteHandle H]) gs = (Ret c, gs')"
    using chain_passes [OF assms(3), of s ctx t] run unfolding passes_def by blast
  from end_of_chain [OF 1(2) _ 1(1)] show ?thesis using ne assms(2) by auto
qed

lemma NewAnteHandler_Ret:
  assumes "NewAnteHandler H ctx t False (g, s) = (Ret (None, newCtx), (g', s'))" "\<not> cx_IsReCheckTx ctx" "grants_keep H" "keys_match H s"
  shows "\<exists>signers sigs. GetSigners (ho_env H) (ho_msgSigners H) t = Some signers \<and> signers \<noteq> [] \<and>
    signatures_loop (ho_decode H) (tx_Signatures t) 0 (tx_SignerInfos t) = Ret sigs \<and> length sigs = length signers \<and>
    (\<forall>i < length signers. authenticated H ctx t s (signers ! i) (sigs ! i)) \<and> keys_match H s' \<and>
    (\<forall>a. seq_of s' a = seq_of s a + of_nat (count_list signers a))"
proof -
  obtain m c gs where "inner_chain H ctx t False (m, s) = (Ret c, gs)" "s' = snd gs"
    using assms(1) by (auto simp: NewAnteHandler_def SetUpContext_AnteHandle_def Let_def split: prod.splits outcome.splits if_splits)
  then show ?thesis using inner_chain_Ret [OF _ assms(2-4)] by simp
qed

text \<open>
  C34. The ante handler authenticates: a transaction it lets through in a block has a signer, and
  for every signer a signature whose sequence is the sequence of the account and which the key
  of the account, a key with that very address, has made over the bytes to sign for this
  chain, account number and sequence. Afterwards the sequence of every account is higher by
  the number of times it signs, and keys still belong to their addresses.
\<close>

theorem ante_authenticates:
  assumes "NewAnteHandler H ctx t False (g, s) = (Ret (None, newCtx), (g', s'))" "\<not> cx_IsReCheckTx ctx" "grants_keep H" "keys_match H s"
  shows "\<exists>signers sigs. GetSigners (ho_env H) (ho_msgSigners H) t = Some signers \<and> signers \<noteq> [] \<and>
    signatures_loop (ho_decode H) (tx_Signatures t) 0 (tx_SignerInfos t) = Ret sigs \<and> length sigs = length signers \<and>
    (\<forall>i < length signers. sg_Sequence (sigs ! i) = seq_of s (signers ! i) \<and>
       (\<exists>acc pk. ai_Address acc = signers ! i \<and> ai_Sequence acc = seq_of s (signers ! i) \<and> ai_PubKey acc = Some pk \<and> ho_address H pk = signers ! i \<and>
          has_signed (ho_verify H) (\<lambda>mode. ho_GetSignBytes H mode (signer_data H ctx acc) t) pk (sg_Data (sigs ! i)))) \<and>
    keys_match H s' \<and> (\<forall>a. seq_of s' a = seq_of s a + of_nat (count_list signers a))"
  using NewAnteHandler_Ret [OF assms] by (auto simp: authenticated_def)

subsection \<open>The fee\<close>

lemma pass_RejectExtensionOptions: "passes F (next ctx t sim) K \<Longrightarrow> passes F (RejectExtensionOptions_AnteHandle H ctx t sim next) K"
  unfolding RejectExtensionOptions_AnteHandle_def Let_def by (intro passes_bind gkeeps_pure)

lemma pass_ValidateBasic: "passes F (next ctx t sim) K \<Longrightarrow> passes F (ValidateBasic_AnteHandle H ctx t sim next) K"
  unfolding ValidateBasic_AnteHandle_def tx_ValidateBasic_def
  by (auto simp: gbind_assoc intro!: passes_bind)

lemma pass_SigVerification: "passes F (next ctx t sim) K \<Longrightarrow> passes F (SigVerification_AnteHandle H ctx t sim next) K"
proof -
  have "gkeeps F (verify_signer H ctx t sim signers x)" for signers x
    by (simp add: gkeeps_def verify_signer_state)
  then show "passes F (next ctx t sim) K \<Longrightarrow> passes F (SigVerification_AnteHandle H ctx t sim next) K"
    unfolding SigVerification_AnteHandle_def by (intro passes_bind gkeeps_for gkeeps_pure keeps_reads)
qed

lemma keeps_base:
  "gkeeps (\<lambda>gs. an_base (snd gs) = b) (set_pub_key H sim signers x)"
  "gkeeps (\<lambda>gs. an_base (snd gs) = b) (increment_sequence a)"
proof -
  have s: "gkeeps (\<lambda>gs. an_base (snd gs) = b) (gmod (\<lambda>(g, s). (g, ak_SetAccount acc s)))" for acc
    by (rule gkeeps_mod) (auto simp: ak_SetAccount_def)
  show "gkeeps (\<lambda>gs. an_base (snd gs) = b) (set_pub_key H sim signers x)"
    by (auto simp: set_pub_key_def Let_def intro!: gkeeps_bind s split: prod.split option.split sum.split)
  show "gkeeps (\<lambda>gs. an_base (snd gs) = b) (increment_sequence a)"
    by (auto simp: increment_sequence_def intro!: gkeeps_bind s split: option.split)
qed

lemma before_fee:
  "passes (\<lambda>gs. an_base (snd gs) = b) (inner_chain H ctx t False)
    {DeductFee_AnteHandle H ctx t False (ChainAnteDecorators [SetPubKey_AnteHandle H, ValidateSigCount_AnteHandle H,
       SigGasConsume_AnteHandle H, SigVerification_AnteHandle H, IncrementSequence_AnteHandle H])}"
  unfolding inner_chain_def ChainAnteDecorators.simps(2) [of "RejectExtensionOptions_AnteHandle H"] ChainAnteDecorators.simps(2) [of "ValidateBasic_AnteHandle H"]
    ChainAnteDecorators.simps(2) [of TxTimeoutHeight_AnteHandle] ChainAnteDecorators.simps(2) [of "ValidateMemo_AnteHandle H"]
    ChainAnteDecorators.simps(2) [of "ConsumeTxSizeGas_AnteHandle H"] ChainAnteDecorators.simps(2) [of "DeductFee_AnteHandle H"]
  by (intro pass_RejectExtensionOptions pass_ValidateBasic pass_TxTimeoutHeight pass_ValidateMemo funds.pass_ConsumeTxSizeGas passes_refl) simp

lemma after_fee:
  "passes (\<lambda>gs. an_base (snd gs) = b) (ChainAnteDecorators [SetPubKey_AnteHandle H, ValidateSigCount_AnteHandle H,
     SigGasConsume_AnteHandle H, SigVerification_AnteHandle H, IncrementSequence_AnteHandle H] ctx t False) {gret ctx}"
proof -
  have "passes (\<lambda>gs. an_base (snd gs) = b) (IncrementSequence_AnteHandle H ctx t False (\<lambda>ctx t simulate. gret ctx)) {gret ctx}"
    unfolding IncrementSequence_AnteHandle_def by (intro passes_bind gkeeps_for keeps_base passes_refl) auto
  then show ?thesis
    unfolding ChainAnteDecorators.simps
    by (intro funds.pass_SetPubKey keeps_base pass_ValidateSigCount funds.pass_SigGasConsume pass_SigVerification)
qed

text \<open>
  C36. Fees are paid first: a transaction that the ante handler lets through, with a fee and
  without a fee granter, has moved exactly its fee from its fee payer to the fee collector,
  and the ante handler has changed no other balance and no supply.
\<close>

theorem ante_fee:
  assumes "NewAnteHandler H ctx t False (g, s) = (Ret (None, newCtx), (g', s'))" "tx_Granter t = []" "\<not> coins_IsZero (tx_Amount t)"
    "int_laws (ho_env H)" "addr_laws (ho_env H)" "bank_wf (an_base s)" "FeePayer (ho_env H) (ho_msgSigners H) t = Some payer" "VerifyAddressFormat payer"
  shows "bank_moves (an_base s) (an_base s') payer (NewModuleAddress (ho_env H) ''fee_collector'') (amt_of (tx_Amount t))"
proof -
  obtain m c gs' where run: "inner_chain H ctx t False (m, s) = (Ret c, gs')" "s' = snd gs'"
    using assms(1) by (auto simp: NewAnteHandler_def SetUpContext_AnteHandle_def Let_def split: prod.splits outcome.splits if_splits)
  then obtain gs where 1: "an_base (snd gs) = an_base s" "DeductFee_AnteHandle H ctx t False (ChainAnteDecorators [SetPubKey_AnteHandle H,
       ValidateSigCount_AnteHandle H, SigGasConsume_AnteHandle H, SigVerification_AnteHandle H, IncrementSequence_AnteHandle H]) gs = (Ret c, gs')"
    using passesD [OF before_fee [of "an_base s"] run(1)] by auto
  then obtain fee p gs0 gs1 where 2: "checkTxFeeWithValidatorMinGasPrices H ctx t gs = (Ret (fee, p), gs0)" "checkDeductFee H ctx t fee gs0 = (Ret (), gs1)"
      "ChainAnteDecorators [SetPubKey_AnteHandle H, ValidateSigCount_AnteHandle H, SigGasConsume_AnteHandle H, SigVerification_AnteHandle H,
         IncrementSequence_AnteHandle H] (ctx\<lparr>cx_Priority := p\<rparr>) t False gs1 = (Ret c, gs')"
    unfolding DeductFee_AnteHandle_def by (auto simp: go_iffs)
  have 3: "fee = tx_Amount t" "gs0 = gs"
    using 2(1) by (auto simp: checkTxFeeWithValidatorMinGasPrices_def Let_def go_iffs split: if_splits)
  obtain b where "SendCoinsFromAccountToModule (ho_env H) (cx_ctx ctx) payer ''fee_collector'' (tx_Amount t) (an_base s) = (Ret (), b)" "an_base (snd gs1) = b"
    using 2(2) assms(2,3,7) 1(1) 3
    by (auto simp: checkDeductFee_def DeductFees_def FeeGranter_def an_state_def an_bank_def go_iffs split: prod.splits if_splits)
  moreover have "an_base (snd gs') = an_base (snd gs1)"
    using passesD [OF after_fee [of "an_base (snd gs1)"] 2(3)] by (auto simp: go_simps)
  ultimately show ?thesis
    using SendCoinsFromAccountToModule_moves [OF assms(4-6,8)] run(2) by auto
qed

subsection \<open>Replays in a block\<close>

text \<open>
  An application whose ante handler is this chain, and whose messages leave keys and sequences
  alone. The bytes that reach it are those that \<open>App.DeliverTx\<close> passes on to \<open>baseapp\<close>: it
  answers transactions that begin with the sentinel's marker itself, without running them.
\<close>

definition ante_app :: "('msg, 'x) HandlerOptions \<Rightarrow> actx \<Rightarrow> ('x ante_state, string \<times> 'msg Tx, 'msg, 'r, 'm, err) BaseApp \<Rightarrow> bool" where
  "ante_app H ctx A \<longleftrightarrow>
     ba_anteHandler A = Some (\<lambda>(txBytes, t) simulate. NewAnteHandler H (ctx\<lparr>cx_TxBytes := txBytes\<rparr>) t simulate) \<and>
     (\<forall>msg h gs. ba_Handler A msg = Some h \<longrightarrow> an_signers (snd (snd (h msg gs))) = an_signers (snd gs)) \<and>
     (\<forall>h tr sim gs. ba_postHandler A = Some h \<longrightarrow> an_signers (snd (snd (h tr sim gs))) = an_signers (snd gs))"

definition tx_signer_list :: "('msg, 'x) HandlerOptions \<Rightarrow> ('x ante_state, string \<times> 'msg Tx, 'msg, 'r, 'm, err) BaseApp \<Rightarrow> string \<Rightarrow> addr list" where
  "tx_signer_list H A txBytes = (case ba_txDecoder A txBytes of
     Inl _ \<Rightarrow> []
   | Inr (_, t) \<Rightarrow> (case GetSigners (ho_env H) (ho_msgSigners H) t of None \<Rightarrow> [] | Some signers \<Rightarrow> signers))"

lemma keeps_runMsgs:
  assumes "ante_app H ctx A"
  shows "gkeeps (\<lambda>gs. an_signers (snd gs) = n) (runMsgs_loop A mode i msgs rs)"
proof (induction msgs arbitrary: i rs)
  case (Cons msg msgs)
  have h: "gkeeps (\<lambda>gs. an_signers (snd gs) = n) (gmap_err f (h msg))" if "ba_Handler A msg = Some h" for h and f :: "err \<Rightarrow> err tx_err"
    by (rule gkeeps_wrap) (use assms that in \<open>auto simp: ante_app_def gkeeps_def\<close>)
  show ?case
    using Cons.IH by (auto intro!: gkeeps_bind h split: option.split list.split)
qed auto

lemma branch_run_signers:
  assumes "ante_app H ctx A"
  shows "an_signers (snd (snd (branch_run A mode tr gs))) = an_signers (snd gs)"
proof -
  have p: "gkeeps (\<lambda>gs. an_signers (snd gs) = n) (gmap_err f (h tr sim))" if "ba_postHandler A = Some h" for h n sim and f :: "err \<Rightarrow> err tx_err"
    by (rule gkeeps_wrap, cases tr) (use assms that in \<open>auto simp: ante_app_def gkeeps_def\<close>)
  have "gkeeps (\<lambda>gs. an_signers (snd gs) = n) (branch_run A mode tr)" for n
    unfolding branch_run_def runMsgs_def
    by (auto intro!: gkeeps_bind p keeps_runMsgs [OF assms] split: option.split)
  from gkeepsD [OF this] show ?thesis by simp
qed

lemma ante_effect_steps:
  assumes "ante_app H ctx A" "\<not> cx_IsReCheckTx ctx" "grants_keep H" "ba_txDecoder A txBytes = Inr tr" "keys_match H s"
    "ante_effect A runTxModeDeliver tr (g, s) = Some (g', s')"
  shows "keys_match H s' \<and> tx_signer_list H A txBytes \<noteq> [] \<and>
    (\<forall>a. seq_of s' a = seq_of s a + of_nat (count_list (tx_signer_list H A txBytes) a)) \<and>
    (\<exists>sigs. signatures_loop (ho_decode H) (tx_Signatures (snd tr)) 0 (tx_SignerInfos (snd tr)) = Ret sigs \<and> length sigs = length (tx_signer_list H A txBytes) \<and>
       (\<forall>i < length (tx_signer_list H A txBytes). sg_Sequence (sigs ! i) = seq_of s (tx_signer_list H A txBytes ! i)))"
proof -
  obtain b t where tr: "tr = (b, t)" by fastforce
  have "ba_anteHandler A = Some (\<lambda>(txBytes, t) simulate. NewAnteHandler H (ctx\<lparr>cx_TxBytes := txBytes\<rparr>) t simulate)"
    using assms(1) by (simp add: ante_app_def)
  then obtain nc g1 where "NewAnteHandler H (ctx\<lparr>cx_TxBytes := b\<rparr>) t False (g, s) = (Ret (None, nc), (g1, s'))"
    using assms(6) by (auto simp: tr ante_effect_def split: prod.splits outcome.splits option.splits)
  from NewAnteHandler_Ret [OF this _ assms(3,5)] assms(2)
  obtain signers sigs where "GetSigners (ho_env H) (ho_msgSigners H) t = Some signers" "signers \<noteq> []"
      "signatures_loop (ho_decode H) (tx_Signatures t) 0 (tx_SignerInfos t) = Ret sigs" "length sigs = length signers"
      "\<forall>i < length signers. authenticated H (ctx\<lparr>cx_TxBytes := b\<rparr>) t s (signers ! i) (sigs ! i)" "keys_match H s'"
      "\<forall>a. seq_of s' a = seq_of s a + of_nat (count_list signers a)"
    by auto
  then show ?thesis using assms(4) tr by (auto simp: tx_signer_list_def authenticated_def)
qed

text \<open>one delivered transaction: no sequence moves, or all move by the signers; the latter if it succeeds, and then the sequences were right\<close>

definition signer_step :: "addr list \<Rightarrow> 'x ante_state \<Rightarrow> 'x ante_state \<Rightarrow> bool" where
  "signer_step signers s s' \<longleftrightarrow> (\<forall>a. seq_of s' a = seq_of s a + of_nat (count_list signers a))"

lemma runTx_signer_step:
  assumes "ante_app H ctx A" "\<not> cx_IsReCheckTx ctx" "grants_keep H" "keys_match H (ts_ms s)"
    "runTx A runTxModeDeliver txBytes s = ((gi, res), t)"
  shows "keys_match H (ts_ms t) \<and> (signer_step [] (ts_ms s) (ts_ms t) \<or> signer_step (tx_signer_list H A txBytes) (ts_ms s) (ts_ms t)) \<and>
    (\<forall>x. res = Inr x \<longrightarrow> signer_step (tx_signer_list H A txBytes) (ts_ms s) (ts_ms t) \<and> tx_signer_list H A txBytes \<noteq> [] \<and>
       (\<exists>tr sigs. ba_txDecoder A txBytes = Inr tr \<and> signatures_loop (ho_decode H) (tx_Signatures (snd tr)) 0 (tx_SignerInfos (snd tr)) = Ret sigs \<and>
          length sigs = length (tx_signer_list H A txBytes) \<and> (\<forall>i < length (tx_signer_list H A txBytes). sg_Sequence (sigs ! i) = seq_of (ts_ms s) (tx_signer_list H A txBytes ! i))))"
proof (cases res)
  case (Inl e)
  then show ?thesis
    using runTx_effects [OF assms(5)] ante_effect_steps [OF assms(1-3) _ assms(4), of txBytes] assms(4)
    by (auto simp: signer_step_def)
next
  case (Inr x)
  then obtain tr g ms g' where tr: "ba_txDecoder A txBytes = Inr tr" "ante_effect A runTxModeDeliver tr (ts_gas s, ts_ms s) = Some (g, ms)"
      "branch_run A runTxModeDeliver tr (g, ms) = (Ret x, (g', ts_ms t))"
    using runTx_effects [OF assms(5)] by auto
  have "an_signers (ts_ms t) = an_signers ms" using branch_run_signers [OF assms(1), of runTxModeDeliver tr "(g, ms)"] tr(3) by simp
  then have "seq_of (ts_ms t) = seq_of ms" "keys_match H (ts_ms t) = keys_match H ms"
    by (simp_all add: seq_of_def [abs_def] keys_match_def signer_of_def)
  then show ?thesis
    using ante_effect_steps [OF assms(1-3) tr(1) assms(4) tr(2)] tr(1) by (auto simp: signer_step_def)
qed

definition block_signers :: "('msg, 'x) HandlerOptions \<Rightarrow> ('x ante_state, string \<times> 'msg Tx, 'msg, 'r, 'm, err) BaseApp \<Rightarrow> (GasMeter \<times> string) list \<Rightarrow> nat" where
  "block_signers H A txs = sum_list (map (\<lambda>(g, txBytes). length (tx_signer_list H A txBytes)) txs)"

lemma deliver_block_append:
  "deliver_block A (xs @ ys) s =
     (let (rs, t) = deliver_block A xs s; (rs', u) = deliver_block A ys t in (rs @ rs', u))"
  by (induction A xs s rule: deliver_block.induct) (auto simp: Let_def split: prod.splits)

lemma deliver_block_length: "length (fst (deliver_block A txs s)) = length txs"
  by (induction A txs s rule: deliver_block.induct) (auto simp: Let_def split: prod.splits)

lemma deliver_block_steps:
  assumes "ante_app H ctx A" "\<not> cx_IsReCheckTx ctx" "grants_keep H" "keys_match H (ts_ms s)"
  shows "keys_match H (ts_ms (snd (deliver_block A txs s))) \<and>
    (\<exists>d \<le> block_signers H A txs. seq_of (ts_ms (snd (deliver_block A txs s))) a = seq_of (ts_ms s) a + of_nat d)"
  using assms(4)
proof (induction txs arbitrary: s)
  case Nil
  then show ?case by (simp add: block_signers_def)
next
  case (Cons x txs)
  obtain g txBytes where x: "x = (g, txBytes)" by fastforce
  obtain gi res t where t: "runTx A runTxModeDeliver txBytes (s\<lparr>ts_gas := g\<rparr>) = ((gi, res), t)" by (metis prod.collapse)
  have step: "keys_match H (ts_ms t)" "signer_step [] (ts_ms s) (ts_ms t) \<or> signer_step (tx_signer_list H A txBytes) (ts_ms s) (ts_ms t)"
    using runTx_signer_step [OF assms(1-3) _ t] Cons.prems by simp_all
  then obtain c where c: "c \<le> length (tx_signer_list H A txBytes)" "seq_of (ts_ms t) a = seq_of (ts_ms s) a + of_nat c"
  proof (elim disjE)
    assume "signer_step [] (ts_ms s) (ts_ms t)"
    then show ?thesis using that [of 0] by (simp add: signer_step_def)
  next
    assume "signer_step (tx_signer_list H A txBytes) (ts_ms s) (ts_ms t)"
    then show ?thesis
      using that [of "count_list (tx_signer_list H A txBytes) a", OF count_le_length] by (simp add: signer_step_def)
  qed
  obtain d where d: "d \<le> block_signers H A txs" "seq_of (ts_ms (snd (deliver_block A txs t))) a = seq_of (ts_ms t) a + of_nat d"
    using Cons.IH [OF step(1)] by blast
  have "c + d \<le> block_signers H A (x # txs)" using c(1) d(1) by (simp add: block_signers_def x)
  moreover have "snd (deliver_block A (x # txs) s) = snd (deliver_block A txs t)" using t by (simp add: x Let_def case_prod_beta)
  moreover from this have "seq_of (ts_ms (snd (deliver_block A (x # txs) s))) a = seq_of (ts_ms s) a + of_nat (c + d)"
    using c(2) d(2) by (simp add: add.assoc)
  ultimately show ?case using Cons.IH [OF step(1)] by auto
qed

lemma split_two:
  assumes "i < j" "j < length xs"
  obtains us vs ws where "xs = us @ xs ! i # vs @ xs ! j # ws" "length us = i" "length us + Suc (length vs) = j"
proof
  let ?vs = "drop (Suc i) (take j xs)"
  show "xs = take i xs @ xs ! i # ?vs @ xs ! j # drop (Suc j) xs"
  proof -
    have "xs = take j xs @ xs ! j # drop (Suc j) xs" using assms(2) by (rule id_take_nth_drop)
    moreover have "take j xs = take i xs @ xs ! i # ?vs"
      using id_take_nth_drop [of i "take j xs"] assms by (simp add: min_def)
    ultimately show ?thesis by (metis append.assoc append_Cons)
  qed
qed (use assms in auto)

definition first_sequence :: "('msg, 'x) HandlerOptions \<Rightarrow> ('x ante_state, string \<times> 'msg Tx, 'msg, 'r, 'm, err) BaseApp \<Rightarrow> string \<Rightarrow> u64 option" where
  "first_sequence H A txBytes = (case ba_txDecoder A txBytes of
     Inl _ \<Rightarrow> None
   | Inr (_, t) \<Rightarrow> (case signatures_loop (ho_decode H) (tx_Signatures t) 0 (tx_SignerInfos t) of
       Ret (sig # _) \<Rightarrow> Some (sg_Sequence sig)
     | _ \<Rightarrow> None))"

lemma runTx_success_sequence:
  assumes "ante_app H ctx A" "\<not> cx_IsReCheckTx ctx" "grants_keep H" "keys_match H (ts_ms s)"
    "runTx A runTxModeDeliver txBytes s = (x, t)" "snd x = Inr r"
  shows "\<exists>c. 0 < c \<and> c \<le> length (tx_signer_list H A txBytes) \<and> keys_match H (ts_ms t) \<and>
    seq_of (ts_ms t) (hd (tx_signer_list H A txBytes)) = seq_of (ts_ms s) (hd (tx_signer_list H A txBytes)) + of_nat c \<and>
    first_sequence H A txBytes = Some (seq_of (ts_ms s) (hd (tx_signer_list H A txBytes)))"
proof -
  obtain gi where "runTx A runTxModeDeliver txBytes s = ((gi, Inr r), t)" using assms(5,6) by (cases x) auto
  from runTx_signer_step [OF assms(1-4) this]
  obtain tr sigs where k: "keys_match H (ts_ms t)" "signer_step (tx_signer_list H A txBytes) (ts_ms s) (ts_ms t)" "tx_signer_list H A txBytes \<noteq> []"
      "ba_txDecoder A txBytes = Inr tr" "signatures_loop (ho_decode H) (tx_Signatures (snd tr)) 0 (tx_SignerInfos (snd tr)) = Ret sigs"
      "length sigs = length (tx_signer_list H A txBytes)"
      "\<forall>i < length (tx_signer_list H A txBytes). sg_Sequence (sigs ! i) = seq_of (ts_ms s) (tx_signer_list H A txBytes ! i)"
    by auto
  have "sigs \<noteq> []" using k(3,6) by auto
  then have "first_sequence H A txBytes = Some (sg_Sequence (sigs ! 0))"
    using k(4,5) by (cases tr; cases sigs) (auto simp: first_sequence_def)
  moreover have "0 < count_list (tx_signer_list H A txBytes) (hd (tx_signer_list H A txBytes))"
    using k(3) by (metis count_list_0_iff gr0I hd_in_set)
  ultimately show ?thesis
    using k count_le_length [of "tx_signer_list H A txBytes" "hd (tx_signer_list H A txBytes)"] by (auto simp: signer_step_def hd_conv_nth)
qed

text \<open>
  C35. Transactions are not replayed: when a transaction of a block succeeds, the same bytes
  fail wherever they come again in the block, as long as fewer than \<open>2 ^ 64\<close> signers sign in
  the block. The messages and the fee-grant keeper are only assumed to leave the keys and
  sequences of accounts alone.
\<close>

theorem no_replay:
  assumes "ante_app H ctx A" "\<not> cx_IsReCheckTx ctx" "grants_keep H" "keys_match H (ts_ms s)"
    "deliver_block A txs s = (rs, u)" "i < j" "j < length txs" "snd (txs ! i) = snd (txs ! j)" "snd (rs ! i) = Inr r"
    "block_signers H A txs < 2 ^ 64"
  shows "\<exists>e. snd (rs ! j) = Inl e"
proof (rule ccontr)
  assume "\<nexists>e. snd (rs ! j) = Inl e"
  then obtain r' where r': "snd (rs ! j) = Inr r'" by (cases "snd (rs ! j)") auto
  obtain us vs ws where sp: "txs = us @ txs ! i # vs @ txs ! j # ws" "length us = i" "length us + Suc (length vs) = j"
    using split_two [OF assms(6,7)] by blast
  obtain gi b gj where bytes: "txs ! i = (gi, b)" "txs ! j = (gj, b)" using assms(8) by (metis prod.collapse snd_conv)
  define s1 where "s1 = snd (deliver_block A us s)"
  obtain x1 t1 where 1: "runTx A runTxModeDeliver b (s1\<lparr>ts_gas := gi\<rparr>) = (x1, t1)" by fastforce
  define s2 where "s2 = snd (deliver_block A vs t1)"
  obtain x2 t2 where 2: "runTx A runTxModeDeliver b (s2\<lparr>ts_gas := gj\<rparr>) = (x2, t2)" by fastforce
  have rs: "rs = fst (deliver_block A us s) @ x1 # fst (deliver_block A vs t1) @ x2 # fst (deliver_block A ws t2)"
    using assms(5) unfolding sp(1) [unfolded bytes]
    by (simp add: deliver_block_append Let_def case_prod_beta 1 2 s1_def [symmetric] s2_def [symmetric] eq_commute [of rs])
  have x1: "snd x1 = Inr r" using assms(9) sp(2) rs by (simp add: nth_append deliver_block_length)
  have x2: "snd x2 = Inr r'" using r' sp(2,3) rs by (auto simp: nth_append deliver_block_length)
  let ?ss = "tx_signer_list H A b"
  have "keys_match H (ts_ms (s1\<lparr>ts_gas := gi\<rparr>))" using deliver_block_steps [OF assms(1-4)] by (simp add: s1_def)
  from runTx_success_sequence [OF assms(1-3) this 1 x1]
  obtain c where c: "0 < c" "c \<le> length ?ss" "keys_match H (ts_ms t1)" "seq_of (ts_ms t1) (hd ?ss) = seq_of (ts_ms s1) (hd ?ss) + of_nat c"
    "first_sequence H A b = Some (seq_of (ts_ms s1) (hd ?ss))"
    by auto
  obtain d where d: "d \<le> block_signers H A vs" "seq_of (ts_ms s2) (hd ?ss) = seq_of (ts_ms t1) (hd ?ss) + of_nat d" "keys_match H (ts_ms s2)"
    using deliver_block_steps [OF assms(1-3) c(3), of vs "hd ?ss"] by (auto simp: s2_def)
  have "first_sequence H A b = Some (seq_of (ts_ms s2) (hd ?ss))"
    using runTx_success_sequence [OF assms(1-3) _ 2 x2] d(3) by auto
  then have "of_nat (c + d) = (0 :: u64)" using c(4,5) d(2) by simp
  then have "2 ^ 64 dvd c + d" by (simp only: word_of_nat_eq_0_iff) simp
  moreover have "block_signers H A txs = block_signers H A us + length ?ss + block_signers H A vs + length ?ss + block_signers H A ws"
    unfolding sp(1) [unfolded bytes] by (simp add: block_signers_def)
  then have "c + d < 2 ^ 64" using c(2) d(1) assms(10) by linarith
  ultimately show False using c(1) by (simp add: nat_dvd_not_less)
qed

subsection \<open>A transaction of the chain\<close>

text \<open>messages are addresses that sign them; a key is its own address, and a signature appends it to the bytes to sign\<close>

definition ante_example :: "(string, unit) HandlerOptions" where
  "ante_example = \<lparr>ho_env = env0, ho_msgSigners = (\<lambda>m. [m]), ho_verify = (\<lambda>pk msg sig. sig = msg @ ''-'' @ key_name pk),
     ho_address = key_name, ho_GetSignBytes = (\<lambda>mode d t. Inr (sd_ChainID d)), ho_decode = (\<lambda>s. Inr [s]), ho_marshal = (\<lambda>ss. Inr (concat ss)),
     ho_ExtensionOptionChecker = None, ho_UseGrantedFees = None, ho_SigGasConsumer = Some ZytherionSigVerificationGasConsumer,
     ho_GetParams = (\<lambda>_. \<lparr>MaxMemoCharacters = 256, TxSigLimit = 7, TxSizeCostPerByte = 10, SigVerifyCostED25519 = 590, SigVerifyCostSecp256k1 = 1000\<rparr>),
     ho_simSigSize = (\<lambda>_. 0), ho_ceil = Some, ho_quoRaw = (\<lambda>a b. if b = 0 then None else Some (a div b))\<rparr>"

definition tx_example :: "coins \<Rightarrow> string Tx" where
  "tx_example fee = \<lparr>tx_Messages = [''alice''], tx_Memo = ''memo'', tx_TimeoutHeight = 0, tx_ExtensionOptions = [],
     tx_SignerInfos = [\<lparr>nf_PublicKey = Some (Secp256k1 ''alice''), nf_ModeInfo = Some (ModeInfo_Single SIGN_MODE_DIRECT), nf_Sequence = 0\<rparr>],
     tx_Amount = fee, tx_GasLimit = 200000, tx_Payer = [], tx_Granter = [], tx_Signatures = [''zyt-alice'']\<rparr>"

definition actx_example :: actx where
  "actx_example = \<lparr>cx_ctx = \<lparr>block_height = 1, block_time = 0\<rparr>, cx_ChainID = ''zyt'', cx_TxBytes = ''tx'', cx_MinGasPrices = [],
     cx_IsCheckTx = False, cx_IsReCheckTx = False, cx_MaxGas = None, cx_Priority = 0\<rparr>"

definition ante_start :: "unit ante_state" where
  "ante_start = \<lparr>an_base = bank_example, an_signers = [], an_rest = ()\<rparr>"

abbreviation fee_example :: coins where
  "fee_example \<equiv> [\<lparr>c_denom = ''uzytc'', c_amount = 4\<rparr>]"

lemma ante_example_ok: "grants_keep ante_example" "keys_match ante_example ante_start" "\<not> cx_IsReCheckTx actx_example"
  by (simp_all add: grants_keep_def ante_example_def keys_match_def signer_of_def ante_start_def kv_get_def actx_example_def)

lemma ante_example_env [simp]: "ho_env ante_example = env0" "ho_msgSigners ante_example = (\<lambda>m. [m])"
  by (simp_all add: ante_example_def)

lemma ante_example_runs:
  obtains newCtx g' s' where "NewAnteHandler ante_example actx_example (tx_example fee_example) False (NewInfiniteGasMeter, ante_start) = (Ret (None, newCtx), (g', s'))"
proof -
  have "(case fst (NewAnteHandler ante_example actx_example (tx_example fee_example) False (NewInfiniteGasMeter, ante_start)) of
      Ret (None, _) \<Rightarrow> True | _ \<Rightarrow> False)"
    by code_simp
  then show ?thesis using that by (auto split: outcome.splits prod.splits option.splits simp: prod_eq_iff)
qed

theorem ante_authenticates_witness:
  "seq_of (snd (snd (NewAnteHandler ante_example actx_example (tx_example fee_example) False (NewInfiniteGasMeter, ante_start)))) ''alice'' = 1"
proof -
  obtain newCtx g' s' where run: "NewAnteHandler ante_example actx_example (tx_example fee_example) False (NewInfiniteGasMeter, ante_start) = (Ret (None, newCtx), (g', s'))"
    by (rule ante_example_runs)
  have g: "GetSigners env0 (\<lambda>m. [m]) (tx_example fee_example) = Some [''alice'']" by code_simp
  have "seq_of ante_start ''alice'' = 0" by code_simp
  then show ?thesis
    using ante_authenticates [OF run ante_example_ok(3,1,2)] run g by auto
qed

theorem ante_fee_witness:
  "\<exists>b. bank_moves bank_example b ''alice'' (NewModuleAddress env0 ''fee_collector'') (amt_of fee_example)"
proof -
  obtain newCtx g' s' where run: "NewAnteHandler ante_example actx_example (tx_example fee_example) False (NewInfiniteGasMeter, ante_start) = (Ret (None, newCtx), (g', s'))"
    by (rule ante_example_runs)
  have "FeePayer env0 (\<lambda>m. [m]) (tx_example fee_example) = Some ''alice''" "VerifyAddressFormat ''alice''" by code_simp+
  then have "bank_moves (an_base ante_start) (an_base s') ''alice'' (NewModuleAddress env0 ''fee_collector'') (amt_of fee_example)"
    using ante_fee [OF run, of "''alice''"] bank_example_wf env0_int_laws env0_addr_laws
    by (simp add: tx_example_def coins_IsZero_def ante_start_def)
  then show ?thesis by (auto simp: ante_start_def)
qed

definition ante_example_app :: "(unit ante_state, string \<times> string Tx, string, char, unit, err) BaseApp" where
  "ante_example_app = \<lparr>
     ba_txDecoder = (\<lambda>b. Inr (b, tx_example fee_example)),
     ba_GetMsgs = (\<lambda>(b, t). tx_Messages t),
     ba_ValidateBasic = (\<lambda>_. None),
     ba_anteHandler = Some (\<lambda>(txBytes, t) simulate. NewAnteHandler ante_example (actx_example\<lparr>cx_TxBytes := txBytes\<rparr>) t simulate),
     ba_Handler = (\<lambda>_. Some (\<lambda>m gs. (Ret [Some CHR ''r''], gs))),
     ba_postHandler = None,
     ba_marshal = Some,
     ba_mempool_Insert = (\<lambda>_ m. (Ret (), m)),
     ba_mempool_Remove = (\<lambda>_ m. (Ret (), m)),
     ba_is_ErrTxNotFound = (\<lambda>_. False)\<rparr>"

abbreviation replayed :: "(GasMeter \<times> string) list" where
  "replayed \<equiv> [(NewInfiniteGasMeter, ''tx''), (NewInfiniteGasMeter, ''tx'')]"

abbreviation replay_start :: "(unit ante_state, unit) tx_state" where
  "replay_start \<equiv> \<lparr>ts_gas = NewInfiniteGasMeter, ts_blockGas = NewInfiniteGasMeter, ts_ms = ante_start, ts_mempool = (), ts_gasWanted = 0, ts_blockGasConsumed = False\<rparr>"

theorem no_replay_witness:
  "case fst (deliver_block ante_example_app replayed replay_start) of
     [x, y] \<Rightarrow> (\<exists>r e. snd x = Inr r \<and> snd y = Inl e) | _ \<Rightarrow> False"
proof -
  have app: "ante_app ante_example actx_example ante_example_app"
    by (simp add: ante_app_def ante_example_app_def)
  obtain rs u where run: "deliver_block ante_example_app replayed replay_start = (rs, u)" by fastforce
  have "(case fst (deliver_block ante_example_app replayed replay_start) of x # _ \<Rightarrow> (case snd x of Inr _ \<Rightarrow> True | _ \<Rightarrow> False) | _ \<Rightarrow> False)"
    by code_simp
  then obtain r where r: "snd (rs ! 0) = Inr r" using run by (auto split: list.splits sum.splits)
  have "tx_signer_list ante_example ante_example_app ''tx'' = [''alice'']" by code_simp
  then have b: "block_signers ante_example ante_example_app replayed < 2 ^ 64" by (simp add: block_signers_def)
  have "length rs = 2" using deliver_block_length [of ante_example_app replayed replay_start] run by simp
  then obtain x y where rs: "rs = [x, y]" by (auto simp: numeral_2_eq_2 length_Suc_conv)
  then show ?thesis
    using no_replay [OF app ante_example_ok(3,1) _ run _ _ _ r b, of 1] ante_example_ok(2) r run by auto
qed

end
