(* ===== verification/Float64.thy ===== *)
theory Float64
  imports Complex_Main
begin

section \<open>Floating-point numbers\<close>

text \<open>
  Go's \<open>float64\<close> on finite values: a number is a rational, and \<open>fl\<close> rounds an exact result to
  the nearest number with 53 bits, halves to even, with gradual underflow below
  \<open>2 ^ -1022\<close>. Overflow is not part of \<open>fl\<close>; the theories that use it bound their values.
  Rounding works on multiples of \<open>2 ^ -1074\<close>, the smallest positive number.
\<close>

fun bits :: "int \<Rightarrow> nat" where
  "bits n = (if n \<le> 0 then 0 else Suc (bits (n div 2)))"

definition rne :: "rat \<Rightarrow> int" where
  "rne y = (let f = \<lfloor>y\<rfloor>; d = y - of_int f in
     if d < 1 / 2 \<or> d = 1 / 2 \<and> even f then f else f + 1)"

definition unit_of :: "rat \<Rightarrow> rat" where
  "unit_of y = 2 ^ (bits \<lfloor>y\<rfloor> - 53)"

definition round_units :: "rat \<Rightarrow> rat" where
  "round_units y = of_int (rne (y / unit_of y)) * unit_of y"

definition fl :: "rat \<Rightarrow> rat" where
  "fl x = sgn x * round_units (\<bar>x\<bar> * 2 ^ 1074) / 2 ^ 1074"

definition is_float64 :: "rat \<Rightarrow> bool" where
  "is_float64 x \<longleftrightarrow> (\<exists>m k. \<bar>m\<bar> < 2 ^ 53 \<and> k \<le> 2045 \<and> x * 2 ^ 1074 = of_int m * 2 ^ k)"

declare bits.simps [simp del]

subsection \<open>Rounding to an integer\<close>

lemma rne_int [simp]: "rne (of_int n) = n"
  by (simp add: rne_def)

lemma rne_le: "y \<le> of_int n \<Longrightarrow> rne y \<le> n"
proof -
  assume y: "y \<le> of_int n"
  then have "\<lfloor>y\<rfloor> \<le> n" by linarith
  then show "rne y \<le> n"
    using y by (cases "\<lfloor>y\<rfloor> = n") (auto simp: rne_def Let_def)
qed

lemma rne_floor: "\<lfloor>y\<rfloor> \<le> rne y" "rne y \<le> \<lfloor>y\<rfloor> + 1"
  by (simp_all add: rne_def Let_def)

lemma rne_ge: "of_int n \<le> y \<Longrightarrow> n \<le> rne y"
  using rne_floor(1) [of y] by (simp add: le_floor_iff [symmetric])

lemma rne_near: "of_int n - 1 / 2 < y \<Longrightarrow> y < of_int n + 1 / 2 \<Longrightarrow> rne y = n"
proof -
  assume y: "of_int n - 1 / 2 < y" "y < of_int n + 1 / 2"
  then have "\<lfloor>y\<rfloor> = n \<or> \<lfloor>y\<rfloor> = n - 1" by linarith
  then show "rne y = n" using y by (auto simp: rne_def Let_def)
qed

lemma rne_mono: "x \<le> y \<Longrightarrow> rne x \<le> rne y"
proof (cases "\<lfloor>x\<rfloor> = \<lfloor>y\<rfloor>")
  case True
  moreover assume "x \<le> y"
  ultimately show ?thesis by (auto simp: rne_def Let_def)
next
  case False
  moreover assume "x \<le> y"
  ultimately have "\<lfloor>x\<rfloor> + 1 \<le> \<lfloor>y\<rfloor>" using floor_mono [of x y] by linarith
  then show ?thesis using rne_floor(2) [of x] rne_floor(1) [of y] by linarith
qed

subsection \<open>The number of bits\<close>

lemma bits_zero [simp]: "n \<le> 0 \<Longrightarrow> bits n = 0"
  by (simp add: bits.simps)

lemma bits_bounds: "0 < n \<Longrightarrow> 0 < bits n \<and> 2 ^ (bits n - 1) \<le> n \<and> n < 2 ^ bits n"
proof (induction n rule: bits.induct)
  case (1 n)
  show ?case
  proof (cases "n = 1")
    case True
    then show ?thesis by (simp add: bits.simps [of 1])
  next
    case False
    then have h: "0 < n div 2" using 1(2) by linarith
    then have "0 < bits (n div 2)" "2 ^ (bits (n div 2) - 1) \<le> n div 2" "n div 2 < 2 ^ bits (n div 2)"
      using 1(1) 1(2) by auto
    moreover have "bits n = Suc (bits (n div 2))" using 1(2) by (simp add: bits.simps [of n])
    moreover have "(2 :: int) ^ bits (n div 2) = 2 * 2 ^ (bits (n div 2) - 1)"
      using calculation(1) by (cases "bits (n div 2)") auto
    ultimately show ?thesis by (simp, linarith)
  qed
qed

lemma bits_less: "n < 2 ^ bits n"
  using bits_bounds [of n] by (cases "0 < n") auto

lemma bits_le: "n < 2 ^ k \<Longrightarrow> bits n \<le> k"
proof (rule ccontr)
  assume n: "n < 2 ^ k" and "\<not> bits n \<le> k"
  then have "0 < n" by (cases "n \<le> 0") auto
  moreover have "(2 :: int) ^ k \<le> 2 ^ (bits n - 1)" using \<open>\<not> bits n \<le> k\<close> by (intro power_increasing) auto
  ultimately show False using bits_bounds [of n] n by linarith
qed

lemma bits_mono: "m \<le> n \<Longrightarrow> bits m \<le> bits n"
proof (cases "0 < n")
  case True
  moreover assume "m \<le> n"
  ultimately show ?thesis using bits_bounds [of n] by (intro bits_le) linarith
qed simp

subsection \<open>Rounding to 53 bits\<close>

lemma unit_pos [simp]: "0 < unit_of y" "unit_of y \<noteq> 0"
  by (simp_all add: unit_of_def)

lemma round_units_le: "y \<le> of_int n * unit_of y \<Longrightarrow> round_units y \<le> of_int n * unit_of y"
  using rne_le [of "y / unit_of y" n] by (simp add: round_units_def pos_divide_le_eq)

lemma round_units_ge: "of_int n * unit_of y \<le> y \<Longrightarrow> of_int n * unit_of y \<le> round_units y"
  using rne_ge [of n "y / unit_of y"] by (simp add: round_units_def pos_le_divide_eq)

lemma round_units_upper: "round_units y \<le> 2 ^ bits \<lfloor>y\<rfloor>"
proof -
  let ?b = "bits \<lfloor>y\<rfloor>"
  have "y < of_int (2 ^ ?b)" using bits_less [of "\<lfloor>y\<rfloor>"] by (simp only: floor_less_iff)
  moreover have "(2 :: rat) ^ ?b = of_int (2 ^ (?b - (?b - 53))) * unit_of y"
    by (simp add: unit_of_def flip: power_add)
  ultimately show ?thesis using round_units_le [of y "2 ^ (?b - (?b - 53))"] by simp
qed

lemma round_units_lower:
  assumes "0 < \<lfloor>y\<rfloor>"
  shows "2 ^ (bits \<lfloor>y\<rfloor> - 1) \<le> round_units y"
proof -
  let ?b = "bits \<lfloor>y\<rfloor>"
  have b: "0 < ?b" "2 ^ (?b - 1) \<le> \<lfloor>y\<rfloor>" using bits_bounds [OF assms] by auto
  then have "of_int (2 ^ (?b - 1)) \<le> y" by (simp only: le_floor_iff)
  moreover have "(2 :: rat) ^ (?b - 1) = of_int (2 ^ (?b - 1 - (?b - 53))) * unit_of y"
    using b(1) by (simp add: unit_of_def flip: power_add)
  ultimately show ?thesis using round_units_ge [of "2 ^ (?b - 1 - (?b - 53))" y] by simp
qed

lemma round_units_mono:
  assumes "0 \<le> x" "x \<le> y"
  shows "round_units x \<le> round_units y"
proof (cases "bits \<lfloor>x\<rfloor> = bits \<lfloor>y\<rfloor>")
  case True
  then have u: "unit_of x = unit_of y" by (simp add: unit_of_def)
  have "x / unit_of y \<le> y / unit_of y" using assms(2) by (rule divide_right_mono) (simp add: less_imp_le)
  then show ?thesis using rne_mono [of "x / unit_of y" "y / unit_of y"] by (simp add: round_units_def u)
next
  case False
  then have less: "bits \<lfloor>x\<rfloor> < bits \<lfloor>y\<rfloor>" using bits_mono [OF floor_mono [OF assms(2)]] by simp
  then have "0 < \<lfloor>y\<rfloor>" by (cases "0 < \<lfloor>y\<rfloor>") auto
  have "round_units x \<le> 2 ^ bits \<lfloor>x\<rfloor>" by (rule round_units_upper)
  also have "\<dots> \<le> 2 ^ (bits \<lfloor>y\<rfloor> - 1)" using less by (intro power_increasing) auto
  also have "\<dots> \<le> round_units y" using \<open>0 < \<lfloor>y\<rfloor>\<close> by (rule round_units_lower)
  finally show ?thesis .
qed

lemma round_units_fixed:
  assumes "0 \<le> m" "m < 2 ^ 53"
  shows "round_units (of_int m * 2 ^ k) = of_int m * 2 ^ k"
proof -
  let ?y = "of_int m * 2 ^ k :: rat"
  have y: "?y = of_int (m * 2 ^ k)" by simp
  have "m * 2 ^ k < 2 ^ (53 + k)" using assms(2) by (simp add: power_add)
  then have j: "bits \<lfloor>?y\<rfloor> - 53 \<le> k" using bits_le [of "m * 2 ^ k" "53 + k"] unfolding y floor_of_int by linarith
  then have "(2 :: rat) ^ k = 2 ^ (k - (bits \<lfloor>?y\<rfloor> - 53)) * unit_of ?y" by (simp add: unit_of_def flip: power_add)
  then have "?y / unit_of ?y = of_int (m * 2 ^ (k - (bits \<lfloor>?y\<rfloor> - 53)))"
    by (simp add: nonzero_divide_eq_eq mult.assoc)
  then show ?thesis
    unfolding round_units_def by (simp only: rne_int) (metis nonzero_eq_divide_eq unit_pos(2))
qed

lemma round_units_float:
  assumes "0 \<le> y"
  obtains m k where "0 \<le> m" "m < 2 ^ 53" "k \<le> bits \<lfloor>y\<rfloor> - 53 + 1" "round_units y = of_int m * 2 ^ k"
proof -
  let ?k = "bits \<lfloor>y\<rfloor> - 53" let ?m = "rne (y / unit_of y)"
  have r: "round_units y = of_int ?m * 2 ^ ?k" by (simp add: round_units_def unit_of_def)
  have m0: "0 \<le> ?m" using rne_ge [of 0 "y / unit_of y"] assms by (simp add: divide_nonneg_pos)
  have "round_units y \<le> 2 ^ bits \<lfloor>y\<rfloor>" by (rule round_units_upper)
  also have "\<dots> \<le> 2 ^ 53 * 2 ^ ?k" unfolding power_add [symmetric] by (intro power_increasing) auto
  finally have "of_int ?m \<le> (of_int (2 ^ 53) :: rat)" unfolding r by simp
  then have "?m \<le> 2 ^ 53" by (simp only: of_int_le_iff)
  then consider "?m < 2 ^ 53" | "?m = 2 ^ 53" by linarith
  then show thesis
  proof cases
    case 1
    then show ?thesis using that [of ?m ?k] m0 r by simp
  next
    case 2
    then show ?thesis using that [of "2 ^ 52" "?k + 1"] r by simp
  qed
qed

subsection \<open>Rounding of a number\<close>

lemma fl_nonneg: "0 \<le> x \<Longrightarrow> fl x = round_units (x * 2 ^ 1074) / 2 ^ 1074"
proof (cases "x = 0")
  case True
  then show ?thesis using round_units_fixed [of 0 0] by (simp add: fl_def)
next
  case False
  moreover assume "0 \<le> x"
  ultimately show ?thesis by (simp add: fl_def)
qed

lemma fl_minus: "fl (- x) = - fl x"
  by (simp add: fl_def sgn_minus)

lemma fl_mono_nonneg: "0 \<le> x \<Longrightarrow> x \<le> y \<Longrightarrow> fl x \<le> fl y"
  using round_units_mono [of "x * 2 ^ 1074" "y * 2 ^ 1074"] by (simp add: fl_nonneg divide_right_mono mult_right_mono)

lemma fl_ge_0: "0 \<le> x \<Longrightarrow> 0 \<le> fl x"
  using fl_mono_nonneg [of 0 x] by (simp add: fl_def)

lemma fl_mono:
  assumes "x \<le> y"
  shows "fl x \<le> fl y"
proof -
  consider "0 \<le> x" | "x < 0" "0 \<le> y" | "y < 0" by linarith
  then show ?thesis
  proof cases
    case 1
    then show ?thesis using assms by (rule fl_mono_nonneg)
  next
    case 2
    then show ?thesis using fl_ge_0 [of "- x"] fl_ge_0 [of y] by (simp add: fl_minus)
  next
    case 3
    then show ?thesis using fl_mono_nonneg [of "- y" "- x"] assms by (simp add: fl_minus)
  qed
qed

lemma fl_fixed:
  assumes "is_float64 x"
  shows "fl x = x"
proof -
  obtain m k where m: "\<bar>m\<bar> < 2 ^ 53" "x * 2 ^ 1074 = of_int m * 2 ^ k" using assms by (auto simp: is_float64_def)
  have "\<bar>x\<bar> * 2 ^ 1074 = \<bar>x * 2 ^ 1074\<bar>" by (simp add: abs_mult)
  also have "\<dots> = of_int \<bar>m\<bar> * 2 ^ k" by (simp only: m(2)) (simp add: abs_mult)
  finally have y: "\<bar>x\<bar> * 2 ^ 1074 = of_int \<bar>m\<bar> * 2 ^ k" .
  have "round_units (\<bar>x\<bar> * 2 ^ 1074) = \<bar>x\<bar> * 2 ^ 1074" unfolding y using m(1) by (intro round_units_fixed) auto
  then have "fl x = sgn x * (\<bar>x\<bar> * 2 ^ 1074) / 2 ^ 1074" by (simp only: fl_def)
  also have "\<dots> = sgn x * \<bar>x\<bar>" by (simp only: times_divide_eq_right [symmetric] mult.assoc) simp
  finally show ?thesis by (simp add: sgn_mult_abs)
qed

lemma fl_float:
  assumes "\<bar>x\<bar> \<le> 2 ^ 64"
  shows "is_float64 (fl x)"
proof -
  let ?y = "\<bar>x\<bar> * 2 ^ 1074"
  have "?y \<le> 2 ^ 64 * 2 ^ 1074" using assms by (rule mult_right_mono) simp
  also have "\<dots> < of_int (2 ^ 1139)" by simp
  finally have "bits \<lfloor>?y\<rfloor> \<le> 1139" by (intro bits_le) (simp only: floor_less_iff)
  moreover have "0 \<le> ?y" by simp
  then obtain m k where m: "0 \<le> m" "m < 2 ^ 53" "k \<le> bits \<lfloor>?y\<rfloor> - 53 + 1" "round_units ?y = of_int m * 2 ^ k"
    by (rule round_units_float)
  ultimately have k: "k \<le> 2045" by linarith
  have "fl x * 2 ^ 1074 = sgn x * (of_int m * 2 ^ k)" unfolding fl_def m(4) by simp
  moreover define s :: int where "s = (if x = 0 then 0 else if 0 < x then 1 else - 1)"
  then have "sgn x = of_int s" by (simp add: sgn_if)
  ultimately have "fl x * 2 ^ 1074 = of_int (s * m) * 2 ^ k" by (metis mult.assoc of_int_mult)
  moreover have "\<bar>s * m\<bar> < 2 ^ 53" using m(1,2) by (simp add: abs_mult s_def)
  ultimately show ?thesis using k unfolding is_float64_def by blast
qed

lemma fl_abs_le:
  assumes "\<bar>x\<bar> \<le> c" "is_float64 c"
  shows "\<bar>fl x\<bar> \<le> c"
proof -
  have "x \<le> c" "- x \<le> c" using assms(1) by auto
  then have "fl x \<le> fl c" "fl (- x) \<le> fl c" by (auto intro: fl_mono)
  then show ?thesis using fl_fixed [OF assms(2)] by (simp add: fl_minus abs_le_iff)
qed

text \<open>a number of \<open>m\<close> units, for the numbers of the code\<close>

lemma is_float64_int:
  assumes "\<bar>m\<bar> < 2 ^ 53" "k \<le> 900"
  shows "is_float64 (of_int m * 2 ^ k)"
  unfolding is_float64_def
  by (rule exI [of _ m], rule exI [of _ "k + 1074"]) (use assms in \<open>simp add: power_add\<close>)

lemma fl_eval:
  assumes "0 \<le> x" "2 ^ 52 * u \<le> x" "x < 2 ^ 53 * u" "u * 2 ^ 1074 = 2 ^ k"
  shows "fl x = of_int (rne (x / u)) * u"
proof -
  have u: "0 < u" using assms(4) by (metis zero_less_mult_pos2 zero_less_numeral zero_less_power)
  let ?y = "x * 2 ^ 1074"
  have "2 ^ 52 * 2 ^ k \<le> ?y" "?y < 2 ^ 53 * 2 ^ k"
    unfolding assms(4) [symmetric] mult.assoc [symmetric] using assms(2,3) by (simp_all add: mult_right_mono)
  then have y: "of_int (2 ^ (52 + k)) \<le> ?y" "?y < of_int (2 ^ (53 + k))" by (simp_all add: power_add)
  then have "2 ^ (52 + k) \<le> \<lfloor>?y\<rfloor>" "\<lfloor>?y\<rfloor> < 2 ^ (53 + k)" by (simp_all only: le_floor_iff floor_less_iff)
  moreover have "(0 :: int) < 2 ^ (52 + k)" by simp
  ultimately have "bits \<lfloor>?y\<rfloor> = 53 + k"
    using bits_le [of "\<lfloor>?y\<rfloor>" "53 + k"] bits_less [of "\<lfloor>?y\<rfloor>"] power_strict_increasing_iff [of "2 :: int" "52 + k" "bits \<lfloor>?y\<rfloor>"]
    by linarith
  then have "unit_of ?y = u * 2 ^ 1074" by (simp only: unit_of_def assms(4) add_diff_cancel_left')
  then show ?thesis
    unfolding fl_nonneg [OF assms(1)] round_units_def using u by simp
qed

lemma fl_near:
  assumes "0 \<le> x" "2 ^ 52 * u \<le> x" "x < 2 ^ 53 * u" "u * 2 ^ 1074 = 2 ^ k" "(of_int n - 1 / 2) * u < x" "x < (of_int n + 1 / 2) * u"
  shows "fl x = of_int n * u"
proof -
  have u: "0 < u" using assms(4) by (metis zero_less_mult_pos2 zero_less_numeral zero_less_power)
  have "rne (x / u) = n" by (rule rne_near) (use assms(5,6) u in \<open>simp_all add: pos_less_divide_eq pos_divide_less_eq\<close>)
  then show ?thesis using fl_eval [OF assms(1-4)] by simp
qed

lemma fl_tenths:
  "fl (2 / 10) = 3602879701896397 / 2 ^ 54" "fl (8 / 10) = 3602879701896397 / 2 ^ 52"
  "fl (85 / 100) = 7656119366529843 / 2 ^ 53" "fl (15 / 100) = 5404319552844595 / 2 ^ 55"
  using fl_near [of "2 / 10" "1 / 2 ^ 55" 1019 7205759403792794] fl_near [of "8 / 10" "1 / 2 ^ 53" 1021 7205759403792794]
    fl_near [of "85 / 100" "1 / 2 ^ 53" 1021 7656119366529843] fl_near [of "15 / 100" "1 / 2 ^ 55" 1019 5404319552844595]
  by simp_all

end
