(* ===== verification/GreenSlashing.thy ===== *)
theory GreenSlashing
  imports Externals KVStore Float64
begin

section \<open>Energy scores of validators\<close>

text \<open>
  \<open>x/privacy/keeper/green_slashing.go\<close>: a moving average of the signing latency of each
  validator in the privacy store, a score from it and a multiplier of rewards; the part of
  \<open>BeginBlocker\<close> in \<open>app/app.go\<close> that records latencies; and the carbon report of
  \<open>query_carbon.go\<close>. The arithmetic is \<open>float64\<close>, each operation rounded by \<open>fl\<close>; Go may fuse a
  product and a sum on some processors, which is not modelled. Constants are exact until they
  meet a \<open>float64\<close>. A stored latency is the number that its eight bytes encode, a printed
  decimal is the number of its last digits, and the fixed note of the report is left out.
\<close>

subsection \<open>Scores\<close>

definition validatorLatencyKeyPrefix :: string where
  "validatorLatencyKeyPrefix = ''greenbft/latency/''"

definition maxLatencyMs :: int where
  "maxLatencyMs = 2000"

definition emaAlpha :: rat where
  "emaAlpha = 2 / 10"

definition MinScoreMultiplier :: rat where
  "MinScoreMultiplier = 85 / 100"

definition validatorLatencyKey :: "addr \<Rightarrow> string" where
  "validatorLatencyKey consAddr = validatorLatencyKeyPrefix @ consAddr"

definition getStoredLatencyMs :: "rat kv \<Rightarrow> addr \<Rightarrow> rat" where
  "getStoredLatencyMs st consAddr = (case kv_get st (validatorLatencyKey consAddr) of None \<Rightarrow> 0 | Some x \<Rightarrow> x)"

definition setStoredLatencyMs :: "addr \<Rightarrow> rat \<Rightarrow> rat kv \<Rightarrow> rat kv" where
  "setStoredLatencyMs consAddr latencyMs st = kv_set (validatorLatencyKey consAddr) latencyMs st"

definition RecordValidatorLatency :: "addr \<Rightarrow> int \<Rightarrow> rat kv \<Rightarrow> rat kv" where
  "RecordValidatorLatency consAddr latencyMs st =
     (let current = getStoredLatencyMs st consAddr;
          updated = (if current = 0 then fl (of_int latencyMs)
            else fl (fl (fl emaAlpha * fl (of_int latencyMs)) + fl (fl (1 - emaAlpha) * current)))
      in setStoredLatencyMs consAddr updated st)"

definition GetValidatorP2PScore :: "rat kv \<Rightarrow> addr \<Rightarrow> rat" where
  "GetValidatorP2PScore st consAddr =
     (let avg = getStoredLatencyMs st consAddr in
      if avg \<le> 0 then 1
      else let ratio = fl (avg / fl (of_int maxLatencyMs)); ratio = (if ratio > 1 then 1 else ratio)
           in fl (1 - ratio))"

text \<open>\<open>%.6f\<close>: the millionths nearest to the number, halves to even\<close>

definition formatFloat :: "rat \<Rightarrow> int" where
  "formatFloat f = rne (f * 10 ^ 6)"

definition p2p_multiplier :: "rat \<Rightarrow> rat" where
  "p2p_multiplier score = fl (fl MinScoreMultiplier + fl (score * fl (1 - MinScoreMultiplier)))"

definition ApplyP2PPenalty :: "env \<Rightarrow> rat kv \<Rightarrow> addr \<Rightarrow> int \<Rightarrow> int option" where
  "ApplyP2PPenalty E st consAddr baseReward =
     (let score = GetValidatorP2PScore st consAddr; mulDec = formatFloat (p2p_multiplier score) * 10 ^ 12
      in dec_mul E baseReward mulDec)"

definition record_vote :: "addr \<times> bool \<Rightarrow> rat kv \<Rightarrow> rat kv" where
  "record_vote = (\<lambda>(consAddr, signedLastBlock) st.
     let latencyMs = (if \<not> signedLastBlock then 2000 else 0) in
     if latencyMs > 0 \<or> \<not> signedLastBlock then RecordValidatorLatency consAddr latencyMs st else st)"

definition BeginBlocker_latencies :: "(addr \<times> bool) list \<Rightarrow> rat kv \<Rightarrow> rat kv" where
  "BeginBlocker_latencies votes st = fold record_vote votes st"

subsection \<open>The carbon report\<close>

record CarbonReport =
  cr_PoWChainName :: string
  cr_PoWEnergyPerTxKWh :: rat
  cr_BFTEnergyPerTxKWh :: rat
  cr_CarbonIntensityGPerKWh :: rat
  cr_SavedEnergyPerTxKWh :: rat
  cr_SavedGramsCO2PerTx :: rat
  cr_SavedKgCO2PerTx :: rat
  cr_EstimatedTotalTxs :: int
  cr_CumulativeSavedKgCO2 :: rat

definition powEnergyPerTxKWh :: rat where
  "powEnergyPerTxKWh = 900"

definition bftEnergyPerTxKWh :: rat where
  "bftEnergyPerTxKWh = 17 / 100000"

definition carbonIntensityGPerKWh :: rat where
  "carbonIntensityGPerKWh = 475"

definition CarbonSavedPerTx :: "int \<Rightarrow> CarbonReport" where
  "CarbonSavedPerTx blockHeight =
     (let savedEnergyKWh = fl (powEnergyPerTxKWh - bftEnergyPerTxKWh);
          savedGrams = fl (savedEnergyKWh * fl carbonIntensityGPerKWh);
          savedKg = fl (savedGrams / fl 1000);
          report = \<lparr>cr_PoWChainName = ''Bitcoin (PoW)'', cr_PoWEnergyPerTxKWh = fl powEnergyPerTxKWh,
            cr_BFTEnergyPerTxKWh = fl bftEnergyPerTxKWh, cr_CarbonIntensityGPerKWh = fl carbonIntensityGPerKWh,
            cr_SavedEnergyPerTxKWh = savedEnergyKWh, cr_SavedGramsCO2PerTx = savedGrams, cr_SavedKgCO2PerTx = savedKg,
            cr_EstimatedTotalTxs = 0, cr_CumulativeSavedKgCO2 = 0\<rparr>
      in if blockHeight > 0 then report\<lparr>cr_EstimatedTotalTxs := blockHeight, cr_CumulativeSavedKgCO2 := fl (fl (of_int blockHeight) * savedKg)\<rparr>
         else report)"

subsection \<open>Numbers of the code\<close>

lemma latency_key_inj [simp]: "validatorLatencyKey a = validatorLatencyKey b \<longleftrightarrow> a = b"
  by (simp add: validatorLatencyKey_def)

lemma stored_after_set [simp]:
  "getStoredLatencyMs (setStoredLatencyMs a x st) b = (if b = a then x else getStoredLatencyMs st b)"
  by (simp add: getStoredLatencyMs_def setStoredLatencyMs_def kv_simps)

lemma stored_empty [simp]: "getStoredLatencyMs [] a = 0"
  by (simp add: getStoredLatencyMs_def kv_get_def)

lemma fl_small [simp]: "fl 0 = 0" "fl 1 = 1" "fl 2000 = 2000"
  using fl_fixed [OF is_float64_int [of 0 0]] fl_fixed [OF is_float64_int [of 1 0]] fl_fixed [OF is_float64_int [of 2000 0]] by simp_all

lemma fl_constants:
  "fl emaAlpha = 3602879701896397 / 2 ^ 54" "fl (1 - emaAlpha) = 3602879701896397 / 2 ^ 52"
  "fl MinScoreMultiplier = 7656119366529843 / 2 ^ 53" "fl (1 - MinScoreMultiplier) = 5404319552844595 / 2 ^ 55"
  using fl_tenths by (simp_all add: emaAlpha_def MinScoreMultiplier_def)

lemma average_of_misses: "fl (fl (fl emaAlpha * 2000) + fl (fl (1 - emaAlpha) * 2000)) = 2000"
proof -
  have "fl (fl emaAlpha * 2000) = 400"
    unfolding fl_constants using fl_near [of "3602879701896397 / 2 ^ 54 * 2000" "1 / 2 ^ 44" 1030 "400 * 2 ^ 44"] by simp
  moreover have "fl (fl (1 - emaAlpha) * 2000) = 1600"
    unfolding fl_constants using fl_near [of "3602879701896397 / 2 ^ 52 * 2000" "1 / 2 ^ 42" 1032 "1600 * 2 ^ 42"] by simp
  ultimately show ?thesis by simp
qed

lemma multiplier_ends: "p2p_multiplier 0 = fl MinScoreMultiplier" "p2p_multiplier 1 = 1"
proof -
  have f: "fl (fl c) = fl c" if "\<bar>c\<bar> \<le> 2 ^ 64" for c using fl_fixed [OF fl_float [OF that]] .
  show "p2p_multiplier 0 = fl MinScoreMultiplier" using f [of MinScoreMultiplier] by (simp add: p2p_multiplier_def MinScoreMultiplier_def)
  have "fl (fl MinScoreMultiplier + fl (1 - MinScoreMultiplier)) = 1"
    unfolding fl_constants using fl_near [of "7656119366529843 / 2 ^ 53 + 5404319552844595 / 2 ^ 55" "1 / 2 ^ 53" 1021 "2 ^ 53"] by simp
  then show "p2p_multiplier 1 = 1" using f [of "1 - MinScoreMultiplier"] by (simp add: p2p_multiplier_def MinScoreMultiplier_def)
qed

lemma format_ends: "formatFloat (fl MinScoreMultiplier) = 850000" "formatFloat 1 = 1000000"
proof -
  show "formatFloat (fl MinScoreMultiplier) = 850000"
    unfolding formatFloat_def fl_constants by (rule rne_near) simp_all
  show "formatFloat 1 = 1000000" using rne_int [of "10 ^ 6"] by (simp add: formatFloat_def)
qed

subsection \<open>Rewards\<close>

lemma score_range: "0 \<le> GetValidatorP2PScore st a" "GetValidatorP2PScore st a \<le> 1"
proof -
  have r: "0 \<le> fl (1 - x) \<and> fl (1 - x) \<le> 1" if "0 \<le> x" "x \<le> 1" for x
    using that fl_ge_0 [of "1 - x"] fl_mono [of "1 - x" 1] by simp
  have "0 \<le> fl (x / 2000)" if "0 < x" for x using that by (intro fl_ge_0) simp
  with r have "0 \<le> GetValidatorP2PScore st a \<and> GetValidatorP2PScore st a \<le> 1"
    by (auto simp: GetValidatorP2PScore_def Let_def maxLatencyMs_def)
  then show "0 \<le> GetValidatorP2PScore st a" "GetValidatorP2PScore st a \<le> 1" by auto
qed

lemma p2p_multiplier_mono:
  assumes "s \<le> t"
  shows "p2p_multiplier s \<le> p2p_multiplier t"
proof -
  have "0 \<le> fl (1 - MinScoreMultiplier)" by (simp add: fl_constants)
  then have "fl (s * fl (1 - MinScoreMultiplier)) \<le> fl (t * fl (1 - MinScoreMultiplier))"
    using assms by (intro fl_mono mult_right_mono)
  then show ?thesis unfolding p2p_multiplier_def by (rule fl_mono [OF add_left_mono])
qed

lemma formatFloat_mono: "x \<le> y \<Longrightarrow> formatFloat x \<le> formatFloat y"
  unfolding formatFloat_def by (intro rne_mono mult_right_mono) auto

lemma multiplier_range:
  assumes "0 \<le> s" "s \<le> 1"
  shows "850000 \<le> formatFloat (p2p_multiplier s)" "formatFloat (p2p_multiplier s) \<le> 1000000"
  using formatFloat_mono [OF p2p_multiplier_mono [OF assms(1)]] formatFloat_mono [OF p2p_multiplier_mono [OF assms(2)]]
  by (simp_all add: multiplier_ends format_ends)

lemma score_antimono:
  assumes "getStoredLatencyMs st a \<le> getStoredLatencyMs st b"
  shows "GetValidatorP2PScore st b \<le> GetValidatorP2PScore st a"
proof (cases "getStoredLatencyMs st a \<le> 0")
  case True
  then have "GetValidatorP2PScore st a = 1" by (simp add: GetValidatorP2PScore_def)
  then show ?thesis using score_range(2) [of st b] by simp
next
  case False
  have "fl (getStoredLatencyMs st a / 2000) \<le> fl (getStoredLatencyMs st b / 2000)"
    using assms by (intro fl_mono divide_right_mono) auto
  with False assms show ?thesis
    by (auto simp: GetValidatorP2PScore_def Let_def maxLatencyMs_def intro!: fl_mono fl_ge_0)
qed

text \<open>
  Whatever latencies are stored, the penalty takes at most fifteen percent of a reward,
  up to half a unit of rounding, and never adds to it; and a validator with the higher
  average has at most the multiplier of the other.
\<close>

theorem ApplyP2PPenalty_bounds:
  assumes "dec_laws E" "0 \<le> baseReward" "ApplyP2PPenalty E st a baseReward = Some r"
  shows "85 * baseReward - 50 \<le> 100 * r \<and> r \<le> baseReward \<and>
    (\<forall>b. getStoredLatencyMs st b \<le> getStoredLatencyMs st a \<longrightarrow>
       formatFloat (p2p_multiplier (GetValidatorP2PScore st a)) \<le> formatFloat (p2p_multiplier (GetValidatorP2PScore st b)))"
proof -
  define m where "m = formatFloat (p2p_multiplier (GetValidatorP2PScore st a))"
  have m: "850000 \<le> m" "m \<le> 1000000" unfolding m_def using score_range [of st a] by (auto intro: multiplier_range)
  have "dec_mul E baseReward (m * 10 ^ 12) = Some r" using assms(3) by (simp add: ApplyP2PPenalty_def Let_def m_def)
  then have "2 * \<bar>r * dec_one - baseReward * (m * 10 ^ 12)\<bar> \<le> dec_one" using assms(1) by (simp add: dec_laws_def)
  moreover have "baseReward * 850000 \<le> baseReward * m" "baseReward * m \<le> baseReward * 1000000"
    using m assms(2) by (auto intro: mult_left_mono)
  ultimately have "85 * baseReward - 50 \<le> 100 * r" "r \<le> baseReward"
    by (simp_all add: dec_one_def abs_le_iff)
  then show ?thesis using score_antimono formatFloat_mono [OF p2p_multiplier_mono] by blast
qed

theorem ApplyP2PPenalty_bounds_witness:
  "case ApplyP2PPenalty env0 (RecordValidatorLatency ''val'' 2000 []) ''val'' 1000 of
     Some r \<Rightarrow> 849 \<le> r \<and> r \<le> 1000 | None \<Rightarrow> False"
proof -
  let ?st = "RecordValidatorLatency ''val'' 2000 []"
  obtain r where r: "ApplyP2PPenalty env0 ?st ''val'' 1000 = Some r"
    by (simp add: ApplyP2PPenalty_def Let_def env0_def)
  then show ?thesis using ApplyP2PPenalty_bounds [OF env0_dec_laws _ r] by simp
qed

subsection \<open>What the chain records\<close>

lemma record_vote_stored:
  assumes "getStoredLatencyMs st a = 0 \<or> getStoredLatencyMs st a = 2000"
  shows "getStoredLatencyMs (record_vote (b, voted) st) a = (if b = a \<and> \<not> voted then 2000 else getStoredLatencyMs st a)"
  using assms average_of_misses by (auto simp: record_vote_def RecordValidatorLatency_def Let_def)

lemma votes_stored:
  "getStoredLatencyMs st a = 0 \<or> getStoredLatencyMs st a = 2000 \<Longrightarrow>
    getStoredLatencyMs (BeginBlocker_latencies votes st) a = (if (a, False) \<in> set votes then 2000 else getStoredLatencyMs st a)"
proof (induction votes arbitrary: st)
  case (Cons v votes)
  obtain b voted where v: "v = (b, voted)" by fastforce
  show ?case
    using Cons.IH [of "record_vote v st"] record_vote_stored [OF Cons.prems, of b voted] Cons.prems
    by (auto simp: v BeginBlocker_latencies_def)
qed (simp add: BeginBlocker_latencies_def)

lemma blocks_stored:
  "getStoredLatencyMs st a = 0 \<or> getStoredLatencyMs st a = 2000 \<Longrightarrow>
    getStoredLatencyMs (fold BeginBlocker_latencies blocks st) a = (if (a, False) \<in> set (concat blocks) then 2000 else getStoredLatencyMs st a)"
proof (induction blocks arbitrary: st)
  case (Cons votes blocks)
  show ?case using Cons.IH [of "BeginBlocker_latencies votes st"] votes_stored [OF Cons.prems, of votes] Cons.prems by auto
qed simp

text \<open>
  C39. One missed block costs for ever: after any blocks the score of a validator is 0 if it
  has ever missed one, and 1 otherwise, because signed blocks are never recorded and the
  average of misses is a miss. Its rewards are then multiplied by exactly 0.85 or by 1,
  however long ago the miss was.
\<close>

theorem one_miss_for_ever:
  "let st = fold BeginBlocker_latencies blocks []; missed = ((a, False) \<in> set (concat blocks)) in
   GetValidatorP2PScore st a = (if missed then 0 else 1) \<and>
   ApplyP2PPenalty E st a baseReward = dec_mul E baseReward (if missed then 850000000000000000 else 1000000000000000000)"
proof -
  let ?st = "fold BeginBlocker_latencies blocks []" let ?missed = "(a, False) \<in> set (concat blocks)"
  have "getStoredLatencyMs ?st a = (if ?missed then 2000 else 0)"
    using blocks_stored [of "[]" a blocks] by (simp only: stored_empty simp_thms)
  then have "GetValidatorP2PScore ?st a = (if ?missed then 0 else 1)"
    by (simp add: GetValidatorP2PScore_def Let_def maxLatencyMs_def)
  then show ?thesis by (simp add: ApplyP2PPenalty_def Let_def multiplier_ends format_ends)
qed

subsection \<open>Stored values\<close>

lemma record_float:
  assumes "\<bar>getStoredLatencyMs st a\<bar> \<le> 2 ^ 64" "\<bar>latencyMs\<bar> \<le> 2 ^ 63"
  shows "is_float64 (getStoredLatencyMs (RecordValidatorLatency a latencyMs st) a)
    \<and> \<bar>getStoredLatencyMs (RecordValidatorLatency a latencyMs st) a\<bar> \<le> 2 ^ 64"
proof -
  let ?c = "getStoredLatencyMs st a" let ?l = "fl (of_int latencyMs)"
  have p: "is_float64 (2 ^ k)" if "k \<le> 900" for k using is_float64_int [of 1 k] that by simp
  have "\<bar>of_int latencyMs\<bar> \<le> (of_int (2 ^ 63) :: rat)" using assms(2) by (simp only: of_int_abs [symmetric] of_int_le_iff)
  then have l0: "\<bar>of_int latencyMs\<bar> \<le> (2 ^ 63 :: rat)" by simp
  then have l: "\<bar>?l\<bar> \<le> 2 ^ 63" by (rule fl_abs_le) (simp add: p del: power_numeral)
  have "\<bar>fl emaAlpha * ?l\<bar> \<le> 1 / 4 * 2 ^ 63" unfolding abs_mult by (intro mult_mono l) (simp_all add: fl_constants)
  then have 1: "\<bar>fl (fl emaAlpha * ?l)\<bar> \<le> 2 ^ 61" by (intro fl_abs_le p) auto
  have "\<bar>fl (1 - emaAlpha) * ?c\<bar> \<le> 7 / 8 * 2 ^ 64" unfolding abs_mult by (intro mult_mono assms(1)) (simp_all add: fl_constants)
  then have 2: "\<bar>fl (fl (1 - emaAlpha) * ?c)\<bar> \<le> 7 * 2 ^ 61" using is_float64_int [of 7 61] by (intro fl_abs_le) auto
  have 3: "\<bar>fl (fl emaAlpha * ?l) + fl (fl (1 - emaAlpha) * ?c)\<bar> \<le> 2 ^ 64"
    using order_trans [OF abs_triangle_ineq add_mono [OF 1 2]] by simp
  have 4: "\<bar>of_int latencyMs\<bar> \<le> (2 ^ 64 :: rat)" using l0 by simp
  show ?thesis using fl_float [OF 3] fl_abs_le [OF 3 p] fl_float [OF 4] fl_abs_le [OF 4 p]
    by (simp add: RecordValidatorLatency_def Let_def del: power_numeral)
qed

text \<open>
  C40. What is stored is a number of its type: after any latencies, 64-bit integers of either
  sign, every stored average is a finite \<open>float64\<close> of magnitude at most \<open>2 ^ 64\<close>, so that the
  arithmetic never overflows to an infinity and never makes a NaN.
\<close>

theorem latencies_are_floats:
  fixes samples :: "(addr \<times> 64 word) list"
  shows "let avg = getStoredLatencyMs (fold (\<lambda>(b, l). RecordValidatorLatency b (sint l)) samples []) a
    in is_float64 avg \<and> \<bar>avg\<bar> \<le> 2 ^ 64"
proof -
  have i: "\<bar>sint l\<bar> \<le> 2 ^ 63" for l :: "64 word" using sint_greater_eq [of l] sint_less [of l] by simp
  have step: "is_float64 (getStoredLatencyMs (RecordValidatorLatency b (sint l) st) a)
      \<and> \<bar>getStoredLatencyMs (RecordValidatorLatency b (sint l) st) a\<bar> \<le> 2 ^ 64"
    if "is_float64 (getStoredLatencyMs st a) \<and> \<bar>getStoredLatencyMs st a\<bar> \<le> 2 ^ 64" for b st and l :: "64 word"
    using record_float [of st a "sint l", OF _ i] that by (cases "b = a") (simp_all add: RecordValidatorLatency_def Let_def)
  have "is_float64 (getStoredLatencyMs st a) \<and> \<bar>getStoredLatencyMs st a\<bar> \<le> 2 ^ 64 \<Longrightarrow>
      let avg = getStoredLatencyMs (fold (\<lambda>(b, l). RecordValidatorLatency b (sint l)) samples st) a in is_float64 avg \<and> \<bar>avg\<bar> \<le> 2 ^ 64" for st
    by (induction samples arbitrary: st) (use step in \<open>auto simp: Let_def\<close>)
  from this [of "[]"] show ?thesis using is_float64_int [of 0 0] by simp
qed

text \<open>the cumulative saving of the report grows with the height\<close>

lemma carbon_mono:
  assumes "h \<le> h'"
  shows "cr_CumulativeSavedKgCO2 (CarbonSavedPerTx h) \<le> cr_CumulativeSavedKgCO2 (CarbonSavedPerTx h')"
proof -
  define kg where "kg = fl (fl (fl (powEnergyPerTxKWh - bftEnergyPerTxKWh) * fl carbonIntensityGPerKWh) / fl 1000)"
  have c: "cr_CumulativeSavedKgCO2 (CarbonSavedPerTx n) = (if n > 0 then fl (fl (of_int n) * kg) else 0)" for n
    by (simp add: CarbonSavedPerTx_def Let_def kg_def)
  have kg: "0 \<le> kg" unfolding kg_def
    by (intro fl_ge_0 divide_nonneg_nonneg mult_nonneg_nonneg) (simp_all add: powEnergyPerTxKWh_def bftEnergyPerTxKWh_def carbonIntensityGPerKWh_def)
  have "fl (of_int h) * kg \<le> fl (of_int h') * kg" using assms by (intro mult_right_mono fl_mono kg) simp
  moreover have "0 \<le> fl (fl (of_int h') * kg)" if "0 < h'" using that by (intro fl_ge_0 mult_nonneg_nonneg kg) simp
  ultimately show ?thesis using assms by (auto simp: c intro: fl_mono)
qed

end
