(* ===== verification/Spec2Isabelle.thy ===== *)
theory Spec2Isabelle
  imports DefaultGenesis RateLimit Privacy Keys PrefixStore NodeKeys Ante GreenSlashing
begin

text \<open>
  \<^bold>\<open>Zytherion: a verification of the chain's own modules\<close>

  Zytherion is a Cosmos-SDK chain with four DeFi modules (price oracle, IBC collateral vault,
  the stablecoin ZYTD and confidential ZYTD accounts), a privacy module that spreads
  homomorphic ciphertexts over the nodes as erasure-coded shards, and a consensus layer in
  which every proposal carries a lattice-based hash and an adaptive commit timeout is
  recommended. The theories translate the Go code of these parts and prove what they promise.

  \<^bold>\<open>Foundations\<close>

  \<^item> \<^verbatim>\<open>Prelude\<close>: a Go function with an error result that reads and writes stores is a function
    from the state to an outcome (\<open>Ret\<close>, \<open>Err\<close> or \<open>Panic\<close>) and the new state, built from
    \<open>gbind\<close>, \<open>gfail_if\<close>, \<open>gtry\<close> and so on; \<open>go_simps\<close> evaluates such a function and
    \<open>go_iffs\<close> inverts a successful run. \<open>int64\<close> values are integers with the wrap-around
    \<open>i64\<close> written out.
  \<^item> \<^verbatim>\<open>KVStore\<close>: the store behind a keeper (cosmos-sdk/store/types) as an ordered association
    list, with prefix iteration; the locale \<open>kv_store\<close> is the contract the keepers use.
  \<^item> \<^verbatim>\<open>Externals\<close>: the record \<open>env\<close> of what is not in the repository's Go code (bech32, the
    arithmetic limits of \<open>sdk.Int\<close> and \<open>sdk.Dec\<close>, Dilithium5, the TFHE engine, SHA3 and
    SHAKE), named laws such as \<open>int_laws\<close>, \<open>bech32_laws\<close>, \<open>tfhe_laws\<close>, and \<open>env0\<close>, an instance
    that satisfies them all and on which the witnesses run. The laws of the TFHE engine speak
    of ciphertexts, public and server keys of one client key; nothing is assumed of an
    operation that mixes ciphertexts of different keys.
  \<^item> \<^verbatim>\<open>Hex\<close>, \<^verbatim>\<open>Sha256\<close>: the standard library's hexadecimal codec and SHA-256, concretely.

  \<^bold>\<open>Stores and transactions\<close> (cosmos-sdk/store, baseapp, x/auth)

  \<^item> \<^verbatim>\<open>MergeIterator\<close> (store/cachekv/internal): the binary searches over sorted keys, the
    iterator over the B-tree of dirty items and the iterator that merges it with the parent's,
    proved to list the parent overlaid with the dirty items. The B-tree library is a record
    \<open>btree_lib\<close> with \<open>btree_laws\<close>.
  \<^item> \<^verbatim>\<open>CacheKV\<close> (store/cachekv): a branch of a store. The locales \<open>kv_reader\<close>, \<open>kv_layer\<close> and
    \<open>cache_layer\<close> state what a store object promises and what a cache promises above any of
    them; a store of the block and one of a transaction are interpreted on each other. Calls
    through a cache followed by \<open>Write\<close> are the calls on the parent.
  \<^item> \<^verbatim>\<open>PrefixStore\<close> (store/prefix): the keys under a prefix are again a store, and the others
    are out of reach.
  \<^item> \<^verbatim>\<open>GasKV\<close> (store/types/gas.go, store/gaskv): meters at 64 bits and the store that charges
    for access; what a sequence of calls costs is computed exactly.
  \<^item> \<^verbatim>\<open>BaseApp\<close> (baseapp/baseapp.go): \<open>runTx\<close> and the delivery of a block. Transactions are
    all or nothing, the block gas limit holds, and the delivery of a transaction is \<open>run_tx\<close>,
    which the module theories use for their histories.
  \<^item> \<^verbatim>\<open>Multisig\<close> (crypto/types/compact_bit_array.go, crypto/keys/multisig, x/auth/signing and the
    gas consumer of app/app.go): bit arrays, threshold keys that may contain threshold keys,
    and the verification of signatures. An accepted threshold signature has enough signers; a
    Dilithium5 key is of no use inside a threshold key.
  \<^item> \<^verbatim>\<open>TxData\<close> (types/tx/types.go, x/auth/tx): decoded transactions, their signers, fee payer and
    signatures.
  \<^item> \<^verbatim>\<open>Ante\<close> (x/auth/ante): every decorator of the default ante chain, over the bank and the
    keys and sequences of accounts. What a decorator leaves alone is stated as \<open>passes\<close> over a
    frame; the locale \<open>ante_frame\<close> is for frames that gas does not change and is interpreted for
    authentication and for funds. The chain authenticates every signer, takes exactly the fee,
    and together with \<open>BaseApp\<close> keeps transactions from being replayed in a block. Gas for
    store access and events are left out; two decorators of app/app.go around the chain log
    and count (\<open>GreenBft\<close>).

  \<^bold>\<open>Coins and accounts\<close> (cosmos-sdk/types/coin.go, x/auth/keeper, x/bank/keeper)

  \<^item> \<^verbatim>\<open>Coins\<close>: validated sorted coin lists and their arithmetic.
  \<^item> \<^verbatim>\<open>Bank\<close>: balances, supply, vesting locks, module accounts, transfers, minting and burning.
    Any sequence of operations keeps the recorded supply equal to the sum of the balances, and
    a transfer succeeds exactly when the spendable balance covers it.

  \<^bold>\<open>DeFi modules\<close>

  \<^item> \<^verbatim>\<open>Chain\<close>: the data of the modules and the record \<open>chain\<close> of all their stores.
  \<^item> \<^verbatim>\<open>Oracle\<close> (x/oracle): prices, pruning and the time-weighted average as a median. An honest
    majority of samples bounds the average.
  \<^item> \<^verbatim>\<open>Collateral\<close> (x/ibc-collateral): assets, positions, locking and release, slashing by IBC
    middleware, queries, genesis. The vault always covers what it owes.
  \<^item> \<^verbatim>\<open>Migration\<close> (x/stablecoin/types/migration.go, ante handler): the phases and the expiration
    window of messages.
  \<^item> \<^verbatim>\<open>Pqc\<close> (x/privacy/pqc/signature.go): length checks around Dilithium5.
  \<^item> \<^verbatim>\<open>Stablecoin\<close> (x/stablecoin): mint, burn, liquidation, key registration. Minting respects
    the collateral ratio and books the debt everywhere; burning and liquidating never succeed.
  \<^item> \<^verbatim>\<open>Confidential\<close>: encrypted balances with public credit limits. The limits add up to what
    was minted whatever the keys; balances follow the limits for accounts whose keys are the
    node's. With a key of the user's own a transfer leaves a balance nobody can decrypt.
  \<^item> \<^verbatim>\<open>Defi\<close>: histories of messages of the oracle, the vault and the stablecoin, with the solvency invariant;
    \<^verbatim>\<open>DefaultGenesis\<close>: the default genesis, from which no ZYTD can ever be minted.

  \<^bold>\<open>Ciphertext shards\<close> (x/privacy/tfhe)

  \<^item> \<^verbatim>\<open>Erasure\<close>: splitting into 12 + 4 shards; any twelve reconstruct. The Reed-Solomon library
    is the parameter \<open>rs_codec\<close> with \<open>rs_laws\<close>.
  \<^item> \<^verbatim>\<open>Merkle\<close>: the tree over the shards, with complete and (up to an exhibited SHA-256
    collision) sound proofs.
  \<^item> \<^verbatim>\<open>Shards\<close>: the files of a node over a disk that may refuse to write.
  \<^item> \<^verbatim>\<open>Distributor\<close>: rate limiter, HTTP endpoints, placement, posting and reconstruction. The
    network, the clock, the environment and the JSON decoder are arguments.
    \<^verbatim>\<open>RateLimit\<close> bounds what the limiter lets through; \<^verbatim>\<open>Sharding\<close> shows that every shard has
    four homes, that posted shards are accepted and that twelve reachable ones suffice when
    every answer is genuine. A reconstruction does not look at the Merkle root, and one
    forged answer without a signature changes its result.

  \<^bold>\<open>Privacy module and consensus\<close>

  \<^item> \<^verbatim>\<open>Lwr\<close> (x/privacy/pqc): the lattice hash, sequential states and signed blocks. Rejection
    sampling is a loop without a bound, a partial function whose termination follows from
    \<open>xof_laws\<close> (the stream keeps giving values below q, an idealisation of SHAKE-256); the product is proved equal to the
    negacyclic one with no 32-bit overflow.
  \<^item> \<^verbatim>\<open>Proposal\<close> (app/lwr_proposal.go, app/app.go): building and checking of the sentinel
    transaction. Honest proposals are accepted, and acceptance is characterised exactly.
  \<^item> \<^verbatim>\<open>GreenBft\<close> (app/greenbft, app/app.go): the ring of transaction counts refines the list of
    the last ten, through the locale \<open>stepwise_refinement\<close>. The digits of \<open>itoa\<close> are taken with
    a fuel of 20, enough for the 19 digits of an \<open>int64\<close>.
  \<^item> \<^verbatim>\<open>Privacy\<close> (x/privacy/keeper): commitments, ciphertext submission and the query that gives
    a ciphertext back, quotas and state rent. Message handlers charge every access to the store
    to the transaction's meter (\<open>gas_get\<close>, \<open>gas_set\<close>), and \<open>spends\<close> adds the costs up along a
    handler; what a query writes is dropped (\<open>pv_query\<close>). A submitted ciphertext is returned if
    there is gas for it; an address submits once for ever; rent is never collected.

  \<^item> \<^verbatim>\<open>WorkerPool\<close> (x/privacy/tfhe/worker_pool.go, engine.go): clients, the job channel and the
    pinned workers as a step relation over all interleavings. Every call gets the outcome of
    its own operation, and every run ends with all calls answered.
  \<^item> \<^verbatim>\<open>NodeKeys\<close> (x/privacy/tfhe/node_keys.go, x/privacy/tfhe/cosmwasm): the key files and caches of
    a node and the queries of contracts. The keys of a node persist; the plugin has keys of its
    own; encrypted sums decrypt to sums.
  \<^item> \<^verbatim>\<open>Float64\<close>: Go's \<open>float64\<close> on finite values, rationals with correct rounding to 53 bits;
    \<^verbatim>\<open>GreenSlashing\<close> (x/privacy/keeper/green_slashing.go, query_carbon.go, \<open>BeginBlocker\<close>): the
    latency scores of validators. Stored averages are finite floats, a penalty is at most
    fifteen percent, and a single missed block lowers the score for ever.
  \<^item> \<^verbatim>\<open>Keys\<close> (crypto/kyber1024, crypto/dilithium5, hybrid_kem.go): the wire format of keys with
    its variable-length integers, encrypted files, the handshake and mnemonic keys, over a record
    \<open>suite\<close> of cryptographic primitives. Encodings are read back; files decrypt; the two sides of
    the handshake derive their keys from different inputs when an X25519 key is sent.

  \<^bold>\<open>Not modelled\<close>

  The command line and client packages, protobuf and gRPC-gateway code, the wiring and export
  of the application, the Rust contracts, the TFHE library behind cgo,
  the JSON forms and registration of key types, the mock scheduler of \<open>pqc/greenbft.go\<close>, which
  nothing calls, the ante decorator that only logs a hash, and the parts of the vendored SDK other than coins,
  accounts, bank, stores above the committed tree, threshold signatures, the ante handler and
  the running of transactions. JSON documents in stores are the values themselves.
  Goroutines that post shards are a list of posted requests, because their outcomes are
  ignored.
\<close>

end
